(* ===== verification/Ngx_Prelude.thy ===== *)
theory Ngx_Prelude
  imports Main "HOL-Library.Word"
begin

text \<open>
  The prelude of the nginx development: the C types at their width on the
  64-bit build of the repository (\<^verbatim>\<open>nginx-1.24.0/objs\<close>), the return codes of
  \<^verbatim>\<open>ngx_core.h\<close>, the character helpers of \<^verbatim>\<open>ngx_string.h\<close>, and the facts on
  bytes and lists that the components share.  A \<^verbatim>\<open>u_char\<close> is an 8-bit word, a
  counted C string (\<^verbatim>\<open>ngx_str_t\<close>, or a pointer with a length) is the list of
  its bytes, \<open>ngx_int_t\<close> values whose overflow the code guards against are
  integers that a lemma keeps in range.
\<close>

unbundle bit_operations_syntax

section \<open>Types and literals\<close>

type_synonym u8 = "8 word"
type_synonym u16 = "16 word"
type_synonym u32 = "32 word"
type_synonym u64 = "64 word"
type_synonym ngx_str = "u8 list"

text \<open>A C character literal \<^verbatim>\<open>'a'\<close> and a C string literal, as bytes.\<close>

abbreviation chr :: "char \<Rightarrow> u8" where
  "chr c \<equiv> of_char c"

abbreviation bytes :: "string \<Rightarrow> ngx_str" where
  "bytes s \<equiv> map of_char s"

abbreviation CR :: u8 where
  "CR \<equiv> 13"

abbreviation LF :: u8 where
  "LF \<equiv> 10"

section \<open>Return codes and limits\<close>

datatype ngx_rc = NGX_OK | NGX_ERROR | NGX_AGAIN | NGX_BUSY | NGX_DONE | NGX_DECLINED | NGX_ABORT

definition NGX_MAX_INT_T_VALUE :: int where
  "NGX_MAX_INT_T_VALUE = 9223372036854775807"

definition NGX_MAX_SIZE_T_VALUE :: int where
  "NGX_MAX_SIZE_T_VALUE = 9223372036854775807"

definition NGX_MAX_OFF_T_VALUE :: int where
  "NGX_MAX_OFF_T_VALUE = 9223372036854775807"

definition NGX_MAX_TIME_T_VALUE :: int where
  "NGX_MAX_TIME_T_VALUE = 9223372036854775807"

definition NGX_MAX_UINT32_VALUE :: u64 where
  "NGX_MAX_UINT32_VALUE = 0xffffffff"

named_theorems ngx_limits \<open>the platform limits as numerals\<close>

lemmas limits_unfold [ngx_limits] =
  NGX_MAX_INT_T_VALUE_def NGX_MAX_SIZE_T_VALUE_def NGX_MAX_OFF_T_VALUE_def
  NGX_MAX_TIME_T_VALUE_def NGX_MAX_UINT32_VALUE_def

section \<open>Characters\<close>

definition ngx_tolower :: "u8 \<Rightarrow> u8" where
  "ngx_tolower c = (if chr CHR ''A'' \<le> c \<and> c \<le> chr CHR ''Z'' then c OR 0x20 else c)"

definition ngx_toupper :: "u8 \<Rightarrow> u8" where
  "ngx_toupper c = (if chr CHR ''a'' \<le> c \<and> c \<le> chr CHR ''z'' then c AND NOT 0x20 else c)"

definition ngx_strlow :: "ngx_str \<Rightarrow> ngx_str" where
  "ngx_strlow src = map ngx_tolower src"

text \<open>\<open>ch >= '0' && ch <= '9'\<close>, and \<open>ch - '0'\<close> after the promotion to \<^verbatim>\<open>int\<close>.\<close>

definition is_digit :: "u8 \<Rightarrow> bool" where
  "is_digit c \<longleftrightarrow> chr CHR ''0'' \<le> c \<and> c \<le> chr CHR ''9''"

definition digit_of :: "u8 \<Rightarrow> int" where
  "digit_of c = uint c - 48"

lemma is_digit_uint: "is_digit c \<longleftrightarrow> 48 \<le> uint c \<and> uint c \<le> 57"
  by (simp add: is_digit_def word_le_def)

lemma digit_of_bounds: "is_digit c \<Longrightarrow> 0 \<le> digit_of c \<and> digit_of c \<le> 9"
  by (simp add: is_digit_uint digit_of_def)

section \<open>Deciding a property of all bytes\<close>

lemma all_byte_int: "(\<forall>c::u8. P c) \<longleftrightarrow> (\<forall>i\<in>{0..<256}. P (word_of_int i))"
proof
  assume r: "\<forall>i\<in>{0..<256}. P (word_of_int i)"
  show "\<forall>c. P c"
  proof
    fix c :: u8
    have "0 \<le> uint c" and "uint c < 256"
      using uint_lt2p [of c] by simp_all
    then have "uint c \<in> {0..<256}" by simp
    with r have "P (word_of_int (uint c))" by (rule bspec)
    then show "P c" by (simp only: word_of_int_uint)
  qed
qed simp

lemma all_byte: "(\<forall>c::u8. P c) \<longleftrightarrow> list_all (\<lambda>i. P (word_of_int i)) [0..255]"
  by (auto simp: all_byte_int list_all_iff)

text \<open>The same up to a bound, for tables shorter than 256.\<close>

lemma byte_table:
  assumes "list_all (\<lambda>i. P (word_of_int i)) [0..m]" "uint (c::u8) \<le> m"
  shows "P c"
proof -
  have "uint c \<in> set [0..m]" using assms(2) by simp
  with assms(1) have "P (word_of_int (uint c))" by (simp only: list_all_iff)
  then show ?thesis by (simp only: word_of_int_uint)
qed

lemma byte_uint_range [simp]: "uint (c::u8) < 256"
  using uint_lt2p [of c] by simp

lemma byte_unat_range [simp]: "unat (c::u8) < 256"
  using unsigned_less [of c, where ?'a = nat] by simp

lemma tolower_idem [simp]: "ngx_tolower (ngx_tolower c) = ngx_tolower c"
proof -
  have "\<forall>c. ngx_tolower (ngx_tolower c) = ngx_tolower c"
    unfolding all_byte by (simp add: ngx_tolower_def upto_rec1)
  then show ?thesis by blast
qed

section \<open>Lists\<close>

lemma take_Suc_snoc: "n < length xs \<Longrightarrow> take (Suc n) xs = take n xs @ [xs ! n]"
  by (rule take_Suc_conv_app_nth)

lemma list_all_nthD: "list_all P xs \<Longrightarrow> i < length xs \<Longrightarrow> P (xs ! i)"
  by (simp add: list_all_length)

end
