(* ===== verification/Ngx_Number.thy ===== *)
theory Ngx_Number
  imports Ngx_Prelude
begin

text \<open>
  Numbers in text: the scanners \<^verbatim>\<open>ngx_atoi\<close>, \<^verbatim>\<open>ngx_atosz\<close>, \<^verbatim>\<open>ngx_atoof\<close>,
  \<^verbatim>\<open>ngx_atotm\<close>, \<^verbatim>\<open>ngx_atofp\<close> and \<^verbatim>\<open>ngx_hextoi\<close>, and the number printer
  \<^verbatim>\<open>ngx_sprintf_num\<close>, of \<^verbatim>\<open>core/ngx_string.c\<close>; the sizes, offsets and times of
  the configuration, \<^verbatim>\<open>core/ngx_parse.c\<close>.  \<open>None\<close> is \<^verbatim>\<open>NGX_ERROR\<close>.
  The locale \<open>digit_scan\<close> is the contract the scanners share: one step
  multiplies by the base, adds the digit and fails when the sum passes the limit.
\<close>

section \<open>The scanners\<close>

text \<open>The body of the loop that \<^verbatim>\<open>ngx_atoi\<close> and its three copies at other types have.\<close>

fun dec_loop :: "int \<Rightarrow> int \<Rightarrow> int \<Rightarrow> ngx_str \<Rightarrow> int option" where
  "dec_loop cutoff cutlim value [] = Some value"
| "dec_loop cutoff cutlim value (c # line) =
     (if \<not> is_digit c then None
      else if cutoff \<le> value \<and> (cutoff < value \<or> cutlim < digit_of c) then None
      else dec_loop cutoff cutlim (value * 10 + digit_of c) line)"

definition ngx_atoi :: "ngx_str \<Rightarrow> int option" where
  "ngx_atoi line =
     (if line = [] then None
      else dec_loop (NGX_MAX_INT_T_VALUE div 10) (NGX_MAX_INT_T_VALUE mod 10) 0 line)"

definition ngx_atosz :: "ngx_str \<Rightarrow> int option" where
  "ngx_atosz line =
     (if line = [] then None
      else dec_loop (NGX_MAX_SIZE_T_VALUE div 10) (NGX_MAX_SIZE_T_VALUE mod 10) 0 line)"

definition ngx_atoof :: "ngx_str \<Rightarrow> int option" where
  "ngx_atoof line =
     (if line = [] then None
      else dec_loop (NGX_MAX_OFF_T_VALUE div 10) (NGX_MAX_OFF_T_VALUE mod 10) 0 line)"

definition ngx_atotm :: "ngx_str \<Rightarrow> int option" where
  "ngx_atotm line =
     (if line = [] then None
      else dec_loop (NGX_MAX_TIME_T_VALUE div 10) (NGX_MAX_TIME_T_VALUE mod 10) 0 line)"

text \<open>
  \<^verbatim>\<open>ngx_atofp\<close>: a number with at most \<open>point\<close> digits after the dot, scaled by
  \<open>10 ^ point\<close>.  \<open>point -= dot\<close> counts the digits after the dot.
\<close>

fun atofp_pad :: "int \<Rightarrow> nat \<Rightarrow> int \<Rightarrow> int option" where
  "atofp_pad cutoff 0 value = Some value"
| "atofp_pad cutoff (Suc point) value =
     (if cutoff < value then None else atofp_pad cutoff point (value * 10))"

fun atofp_loop :: "int \<Rightarrow> int \<Rightarrow> int \<Rightarrow> bool \<Rightarrow> nat \<Rightarrow> ngx_str \<Rightarrow> int option" where
  "atofp_loop cutoff cutlim value dot point [] = atofp_pad cutoff point value"
| "atofp_loop cutoff cutlim value dot point (c # line) =
     (if point = 0 then None
      else if c = chr CHR ''.'' then
        (if dot then None else atofp_loop cutoff cutlim value True point line)
      else if \<not> is_digit c then None
      else if cutoff \<le> value \<and> (cutoff < value \<or> cutlim < digit_of c) then None
      else atofp_loop cutoff cutlim (value * 10 + digit_of c) dot
             (if dot then point - 1 else point) line)"

definition ngx_atofp :: "ngx_str \<Rightarrow> nat \<Rightarrow> int option" where
  "ngx_atofp line point =
     (if line = [] then None
      else atofp_loop (NGX_MAX_INT_T_VALUE div 10) (NGX_MAX_INT_T_VALUE mod 10) 0 False point line)"

fun hex_loop :: "int \<Rightarrow> int \<Rightarrow> ngx_str \<Rightarrow> int option" where
  "hex_loop cutoff value [] = Some value"
| "hex_loop cutoff value (ch # line) =
     (if cutoff < value then None
      else if chr CHR ''0'' \<le> ch \<and> ch \<le> chr CHR ''9''
        then hex_loop cutoff (value * 16 + (uint ch - 48)) line
      else (let c = ch OR 0x20 in
        if chr CHR ''a'' \<le> c \<and> c \<le> chr CHR ''f''
        then hex_loop cutoff (value * 16 + (uint c - 97 + 10)) line
        else None))"

definition ngx_hextoi :: "ngx_str \<Rightarrow> int option" where
  "ngx_hextoi line =
     (if line = [] then None else hex_loop (NGX_MAX_INT_T_VALUE div 16) 0 line)"

section \<open>The printer\<close>

text \<open>The digits are written backwards from the end of \<^verbatim>\<open>temp\<close>; both loops are \<^verbatim>\<open>do\<close>-loops.\<close>

function dec_digits :: "'a::len word \<Rightarrow> ngx_str \<Rightarrow> ngx_str" where
  "dec_digits ui p =
     (let p' = word_of_nat (unat ui mod 10 + 48) # p; ui' = unat ui div 10
      in if ui' = 0 then p' else dec_digits (word_of_nat ui' :: 'a word) p')"
  by pat_completeness auto
termination
proof (relation "measure (\<lambda>(ui, p). unat ui)", goal_cases)
  case (2 ui p x xa)
  then have "0 < unat ui" by (cases "unat ui = 0") auto
  then have "unat ui div 10 < unat ui" by simp
  moreover have "unat (word_of_nat (unat ui div 10) :: 'a word) \<le> unat ui div 10"
    by (simp add: unsigned_of_nat take_bit_nat_less_eq_self)
  ultimately show ?case using 2 by simp
qed simp

definition hex_char :: "u8 \<Rightarrow> u8" where
  "hex_char n = bytes ''0123456789abcdef'' ! unat n"

definition HEX_char :: "u8 \<Rightarrow> u8" where
  "HEX_char n = bytes ''0123456789ABCDEF'' ! unat n"

function hex_digits :: "(u8 \<Rightarrow> u8) \<Rightarrow> u64 \<Rightarrow> ngx_str \<Rightarrow> ngx_str" where
  "hex_digits hex ui64 p =
     (let p' = hex (ucast (ui64 AND 0xf)) # p; ui' = drop_bit 4 ui64
      in if ui' = 0 then p' else hex_digits hex ui' p')"
  by pat_completeness auto
termination
proof (relation "measure (\<lambda>(hex, ui, p). unat ui)", goal_cases)
  case (2 hex ui64 p x xa)
  have "unat (drop_bit 4 ui64) = unat ui64 div 16"
    by (simp add: drop_bit_eq_div unat_div)
  moreover have "ui64 \<noteq> 0" using 2 by auto
  then have "0 < unat ui64" by (simp add: unat_gt_0)
  ultimately show ?case using 2 by simp
qed simp

declare dec_digits.simps [simp del] hex_digits.simps [simp del]

text \<open>
  \<^verbatim>\<open>ngx_sprintf_num\<close>: \<open>room\<close> is \<^verbatim>\<open>last - buf\<close>, the result the bytes written at
  \<^verbatim>\<open>buf\<close>; \<open>hexadecimal\<close> is 0, 1 or 2.  The padding loop stops at \<^verbatim>\<open>last\<close> and the copy
  of the digits is cut there.
\<close>

definition ngx_sprintf_num :: "nat \<Rightarrow> u64 \<Rightarrow> u8 \<Rightarrow> nat \<Rightarrow> nat \<Rightarrow> ngx_str" where
  "ngx_sprintf_num room ui64 zero hexadecimal width =
     (let p = (if hexadecimal = 0
               then (if ui64 \<le> NGX_MAX_UINT32_VALUE
                     then dec_digits (ucast ui64 :: u32) []
                     else dec_digits ui64 [])
               else if hexadecimal = 1 then hex_digits hex_char ui64 []
               else hex_digits HEX_char ui64 []);
          pad = replicate (min room (width - length p)) zero;
          room' = room - length pad
      in pad @ take room' p)"

section \<open>The contract of a scanner\<close>

text \<open>The value of a digit string from a starting value: \<open>None\<close> where a byte is no digit.\<close>

fun radix_value :: "int \<Rightarrow> (u8 \<Rightarrow> int option) \<Rightarrow> int \<Rightarrow> ngx_str \<Rightarrow> int option" where
  "radix_value base dig v [] = Some v"
| "radix_value base dig v (c # cs) =
     (case dig c of None \<Rightarrow> None | Some d \<Rightarrow> radix_value base dig (v * base + d) cs)"

locale digit_scan =
  fixes base :: int
    and top :: int
    and dig :: "u8 \<Rightarrow> int option"
    and scan :: "int \<Rightarrow> ngx_str \<Rightarrow> int option"
  assumes base: "1 \<le> base"
    and dig_range: "dig c = Some d \<Longrightarrow> 0 \<le> d"
    and scan_Nil: "scan v [] = Some v"
    and scan_Cons: "0 \<le> v \<Longrightarrow> v \<le> top \<Longrightarrow> scan v (c # cs) =
      (case dig c of None \<Rightarrow> None
       | Some d \<Rightarrow> if top < v * base + d then None else scan (v * base + d) cs)"
begin

lemma radix_value_mono: "0 \<le> v \<Longrightarrow> radix_value base dig v cs = Some x \<Longrightarrow> v \<le> x"
proof (induction cs arbitrary: v)
  case (Cons c cs)
  then obtain d where d: "dig c = Some d" "radix_value base dig (v * base + d) cs = Some x"
    by (auto split: option.splits)
  have "v * 1 \<le> v * base" using base Cons.prems(1) by (intro mult_left_mono) auto
  with dig_range [OF d(1)] have "v \<le> v * base + d" by simp
  moreover have "v * base + d \<le> x" using Cons.prems(1) calculation d(2) by (intro Cons.IH) auto
  ultimately show ?case by simp
qed simp

lemma scan_eq: "0 \<le> v \<Longrightarrow> v \<le> top \<Longrightarrow> scan v cs =
  (case radix_value base dig v cs of None \<Rightarrow> None | Some x \<Rightarrow> if x \<le> top then Some x else None)"
proof (induction cs arbitrary: v)
  case Nil
  then show ?case by (simp add: scan_Nil)
next
  case (Cons c cs)
  show ?case
  proof (cases "dig c")
    case None
    with Cons.prems show ?thesis by (simp add: scan_Cons)
  next
    case (Some d)
    have nonneg: "0 \<le> v * base + d" using dig_range [OF Some] base Cons.prems by simp
    show ?thesis
    proof (cases "top < v * base + d")
      case True
      with Some nonneg Cons.prems show ?thesis
        using radix_value_mono [OF nonneg, of cs] by (fastforce simp: scan_Cons split: option.splits)
    next
      case False
      with Some Cons.prems have "scan v (c # cs) = scan (v * base + d) cs"
        by (simp add: scan_Cons)
      with Cons.IH [of "v * base + d"] nonneg False Some show ?thesis by simp
    qed
  qed
qed

lemma scan_range: "0 \<le> v \<Longrightarrow> v \<le> top \<Longrightarrow> scan v cs = Some x \<Longrightarrow> v \<le> x \<and> x \<le> top"
  by (auto simp: scan_eq split: option.splits if_splits dest: radix_value_mono)

lemma scan_digits: "0 \<le> v \<Longrightarrow> v \<le> top \<Longrightarrow> scan v cs = Some x \<Longrightarrow> \<forall>c\<in>set cs. dig c \<noteq> None"
proof (induction cs arbitrary: v)
  case (Cons c cs)
  then obtain d where d: "dig c = Some d" "v * base + d \<le> top" "scan (v * base + d) cs = Some x"
    by (auto simp: scan_Cons split: option.splits if_splits)
  have "0 \<le> v * base + d" using dig_range [OF d(1)] base Cons.prems by simp
  with Cons.IH [OF this d(2,3)] d(1) show ?case by simp
qed simp

end

section \<open>The scanners meet it\<close>

definition dec_dig :: "u8 \<Rightarrow> int option" where
  "dec_dig c = (if is_digit c then Some (digit_of c) else None)"

definition hex_dig :: "u8 \<Rightarrow> int option" where
  "hex_dig ch =
     (if is_digit ch then Some (digit_of ch)
      else if chr CHR ''a'' \<le> ch OR 0x20 \<and> ch OR 0x20 \<le> chr CHR ''f''
      then Some (uint (ch OR 0x20) - 87) else None)"

lemma cutoff_test:
  assumes "0 \<le> d" "d \<le> 9"
  shows "M div 10 \<le> v \<and> (M div 10 < v \<or> M mod 10 < d) \<longleftrightarrow> (M::int) < v * 10 + d"
proof -
  have "M = 10 * (M div 10) + M mod 10" "0 \<le> M mod 10" "M mod 10 < 10" by simp_all
  with assms show ?thesis by linarith
qed

lemma dec_loop_scan:
  "digit_scan 10 M dec_dig (dec_loop (M div 10) (M mod 10))"
proof
  fix c d assume "dec_dig c = Some d"
  then show "0 \<le> d" by (auto simp: dec_dig_def split: if_splits dest: digit_of_bounds)
next
  fix v c cs
  show "dec_loop (M div 10) (M mod 10) v (c # cs) =
    (case dec_dig c of None \<Rightarrow> None
     | Some d \<Rightarrow> if M < v * 10 + d then None else dec_loop (M div 10) (M mod 10) (v * 10 + d) cs)"
    using cutoff_test [of "digit_of c" M v] digit_of_bounds [of c]
    by (auto simp: dec_dig_def)
qed simp_all

interpretation atoi: digit_scan 10 M dec_dig "dec_loop (M div 10) (M mod 10)" for M
  by (rule dec_loop_scan)

lemma hex_dig_cases:
  "hex_dig c = Some d \<Longrightarrow> 0 \<le> d \<and> d \<le> 15"
  by (auto simp: hex_dig_def word_le_def split: if_splits dest: digit_of_bounds)

interpretation hextoi: digit_scan 16 NGX_MAX_INT_T_VALUE hex_dig
  "hex_loop (NGX_MAX_INT_T_VALUE div 16)"
proof
  fix c d assume "hex_dig c = Some d"
  then show "0 \<le> d" using hex_dig_cases by blast
next
  fix v c cs
  assume v: "0 \<le> v" "v \<le> NGX_MAX_INT_T_VALUE"
  have step: "hex_loop (NGX_MAX_INT_T_VALUE div 16) v (c # cs) =
    (if NGX_MAX_INT_T_VALUE div 16 < v then None else
       case hex_dig c of None \<Rightarrow> None
       | Some d \<Rightarrow> hex_loop (NGX_MAX_INT_T_VALUE div 16) (v * 16 + d) cs)"
    by (simp add: hex_dig_def is_digit_def digit_of_def Let_def)
  show "hex_loop (NGX_MAX_INT_T_VALUE div 16) v (c # cs) =
    (case hex_dig c of None \<Rightarrow> None
     | Some d \<Rightarrow> if NGX_MAX_INT_T_VALUE < v * 16 + d then None
                 else hex_loop (NGX_MAX_INT_T_VALUE div 16) (v * 16 + d) cs)"
    unfolding step using v
    by (auto split: option.split dest!: hex_dig_cases simp: ngx_limits)
qed simp_all

section \<open>What the printer prints\<close>

lemma radix_value_append: "radix_value base dig v (xs @ ys) =
  (case radix_value base dig v xs of None \<Rightarrow> None | Some w \<Rightarrow> radix_value base dig w ys)"
  by (induction xs arbitrary: v) (auto split: option.splits)

text \<open>The decimal digits of a number, most significant first.\<close>

fun dec_string :: "nat \<Rightarrow> ngx_str" where
  "dec_string n = (if n < 10 then [word_of_nat (n + 48)]
                   else dec_string (n div 10) @ [word_of_nat (n mod 10 + 48)])"

declare dec_string.simps [simp del]

lemma unat_digit_byte: "d < 10 \<Longrightarrow> unat (word_of_nat (d + 48) :: u8) = d + 48"
  by (simp add: unsigned_of_nat take_bit_nat_eq_self del: of_nat_add)

lemma uint_digit_byte: "d < 10 \<Longrightarrow> uint (word_of_nat (d + 48) :: u8) = int d + 48"
  using unat_digit_byte [of d] by (simp add: uint_nat)

lemma dec_dig_byte: "d < 10 \<Longrightarrow> dec_dig (word_of_nat (d + 48)) = Some (int d)"
  by (simp add: dec_dig_def is_digit_uint digit_of_def uint_digit_byte del: of_nat_add)

lemma radix_value_dec_string: "radix_value 10 dec_dig 0 (dec_string n) = Some (int n)"
proof (induction n rule: dec_string.induct)
  case (1 n)
  show ?case
  proof (cases "n < 10")
    case True
    then show ?thesis by (subst dec_string.simps) (simp add: dec_dig_byte del: of_nat_add)
  next
    case False
    with 1 have "radix_value 10 dec_dig 0 (dec_string (n div 10)) = Some (int (n div 10))" by simp
    moreover have "int (n div 10) * 10 + int (n mod 10) = int n" by presburger
    ultimately show ?thesis using False
      by (subst dec_string.simps) (simp add: radix_value_append dec_dig_byte del: of_nat_add)
  qed
qed

lemma dec_string_nonempty [simp]: "dec_string n \<noteq> []"
  by (subst dec_string.simps) simp

lemma dec_string_digits: "c \<in> set (dec_string n) \<Longrightarrow> is_digit c"
proof (induction n rule: dec_string.induct)
  case (1 n)
  have byte: "d < 10 \<Longrightarrow> is_digit (word_of_nat (d + 48))" for d
    using dec_dig_byte [of d] by (simp add: dec_dig_def split: if_splits)
  show ?case
  proof (cases "n < 10")
    case True
    with 1(2) byte show ?thesis by (simp add: dec_string.simps [of n])
  next
    case False
    with 1 byte [of "n mod 10"] show ?thesis by (auto simp: dec_string.simps [of n])
  qed
qed

lemma length_dec_string: "n < 10 ^ Suc k \<Longrightarrow> length (dec_string n) \<le> Suc k"
proof (induction n arbitrary: k rule: dec_string.induct)
  case (1 n)
  show ?case
  proof (cases "n < 10")
    case True
    then show ?thesis by (subst dec_string.simps) simp
  next
    case False
    then obtain j where k: "k = Suc j" using 1(2) by (cases k) auto
    with 1(2) have "n div 10 < 10 ^ Suc j" by (simp add: less_mult_imp_div_less)
    with 1(1) False k show ?thesis by (subst dec_string.simps) simp
  qed
qed

lemma dec_digits_eq: "dec_digits w p = dec_string (unat w) @ p"
proof (induction w p rule: dec_digits.induct)
  case (1 ui p)
  let ?q = "word_of_nat (unat ui div 10) :: 'a word"
  have "unat ui div 10 \<le> unat ui" by simp
  also have "\<dots> < 2 ^ LENGTH('a)" by simp
  finally have q: "unat ?q = unat ui div 10"
    by (simp add: unsigned_of_nat take_bit_nat_eq_self)
  show ?case
  proof (cases "unat ui < 10")
    case True
    then show ?thesis by (subst dec_digits.simps, subst dec_string.simps) simp
  next
    case False
    with 1 q have "dec_digits ?q (word_of_nat (unat ui mod 10 + 48) # p)
      = dec_string (unat ui div 10) @ (word_of_nat (unat ui mod 10 + 48) # p)" by simp
    with False show ?thesis
      by (subst dec_digits.simps, subst dec_string.simps) (simp add: Let_def)
  qed
qed

lemma and_15_mod: "uint ((w::u64) AND 15) = uint w mod 16"
proof -
  have "uint w AND 15 = take_bit 4 (uint w)" by (simp add: take_bit_eq_mask mask_eq_exp_minus_1)
  then show ?thesis by (simp add: uint_and take_bit_eq_mod)
qed

lemma hex_char_table:
  "list_all (\<lambda>k. hex_dig (hex_char (word_of_int k)) = Some k \<and> hex_dig (HEX_char (word_of_int k)) = Some k)
     [0..15]"
  by (simp add: upto_rec1 hex_dig_def is_digit_def digit_of_def hex_char_def HEX_char_def)

lemma hex_dig_nibble:
  fixes n :: u8
  assumes "uint n < 16"
  shows "hex_dig (hex_char n) = Some (uint n)" and "hex_dig (HEX_char n) = Some (uint n)"
proof -
  have "uint n \<in> set [0..15]" using assms by simp
  then have "hex_dig (hex_char (word_of_int (uint n))) = Some (uint n)
    \<and> hex_dig (HEX_char (word_of_int (uint n))) = Some (uint n)"
    using hex_char_table by (simp only: list_all_iff)
  then show "hex_dig (hex_char n) = Some (uint n)" "hex_dig (HEX_char n) = Some (uint n)"
    by (simp_all only: word_of_int_uint)
qed

lemma hex_digits_value:
  assumes "\<And>n. uint n < 16 \<Longrightarrow> hex_dig (hex n) = Some (uint n)"
  shows "radix_value 16 hex_dig 0 (hex_digits hex w p) = radix_value 16 hex_dig (uint w) p"
  using assms
proof (induction hex w p rule: hex_digits.induct)
  case (1 hex w p)
  let ?d = "ucast (w AND 15) :: u8" and ?w = "drop_bit 4 w"
  have d: "uint ?d = uint w mod 16"
    by (simp add: unsigned_ucast_eq and_15_mod take_bit_eq_mod)
  have w: "uint ?w = uint w div 16"
    by (simp add: uint_div drop_bit_eq_div)
  have digit: "hex_dig (hex ?d) = Some (uint w mod 16)"
    using 1(2) [of ?d] d by simp
  have split: "uint w div 16 * 16 + uint w mod 16 = uint w" by simp
  show ?case
  proof (cases "?w = 0")
    case True
    then have "uint w mod 16 = uint w" using w split by simp
    with True digit show ?thesis by (subst hex_digits.simps) (simp add: Let_def)
  next
    case False
    with 1 have "radix_value 16 hex_dig 0 (hex_digits hex ?w (hex ?d # p))
      = radix_value 16 hex_dig (uint ?w) (hex ?d # p)" by simp
    with False digit w split show ?thesis
      by (subst hex_digits.simps) (simp add: Let_def)
  qed
qed

text \<open>The digits the printer has in \<^verbatim>\<open>temp\<close> before padding and cutting.\<close>

definition num_text :: "u64 \<Rightarrow> nat \<Rightarrow> ngx_str" where
  "num_text ui64 hexadecimal =
     (if hexadecimal = 0 then dec_string (unat ui64)
      else if hexadecimal = 1 then hex_digits hex_char ui64 []
      else hex_digits HEX_char ui64 [])"

lemma sprintf_num_text:
  "ngx_sprintf_num room ui64 zero hexadecimal width =
     take room (replicate (width - length (num_text ui64 hexadecimal)) zero @ num_text ui64 hexadecimal)"
proof -
  have "ui64 \<le> NGX_MAX_UINT32_VALUE \<Longrightarrow> unat (ucast ui64 :: u32) = unat ui64"
    by (simp add: NGX_MAX_UINT32_VALUE_def word_le_nat_alt unsigned_ucast_eq take_bit_nat_eq_self)
  then show ?thesis
    by (simp add: ngx_sprintf_num_def num_text_def Let_def dec_digits_eq min_def)
qed

lemma sprintf_num_length: "length (ngx_sprintf_num room ui64 zero hexadecimal width) \<le> room"
  by (simp add: sprintf_num_text)

lemma length_num_text_dec: "length (num_text ui64 0) \<le> 20"
proof -
  have "unat ui64 < 2 ^ 64" using unsigned_less [of ui64, where ?'a = nat] by simp
  then have "unat ui64 < 10 ^ Suc 19" by simp
  then have "length (dec_string (unat ui64)) \<le> Suc 19" by (rule length_dec_string)
  then show ?thesis by (simp add: num_text_def)
qed

lemma length_hex_digits: "uint w < 16 ^ Suc k \<Longrightarrow> length (hex_digits hex w p) \<le> Suc k + length p"
proof (induction hex w p arbitrary: k rule: hex_digits.induct)
  case (1 hex w p)
  have w: "uint (drop_bit 4 w) = uint w div 16"
    by (simp add: uint_div drop_bit_eq_div)
  show ?case
  proof (cases "drop_bit 4 w = 0")
    case True
    then show ?thesis by (subst hex_digits.simps) (simp add: Let_def)
  next
    case False
    then have "uint w div 16 \<noteq> 0" using w by (metis uint_0_iff)
    then have "\<not> uint w < 16" by auto
    with 1(2) obtain j where k: "k = Suc j" by (cases k) auto
    with 1(2) have "uint (drop_bit 4 w) < 16 ^ Suc j" by (simp add: w)
    with 1(1) False k show ?thesis by (subst hex_digits.simps) (fastforce simp: Let_def)
  qed
qed

text \<open>\<^verbatim>\<open>temp\<close> has \<^verbatim>\<open>NGX_INT64_LEN + 1\<close> bytes, of which the first 20 are used.\<close>

lemma num_text_fits: "length (num_text ui64 hexadecimal) \<le> 20"
proof (cases "hexadecimal = 0")
  case False
  have "uint ui64 < 16 ^ Suc 15" using uint_lt2p [of ui64] by simp
  then have "length (hex_digits hex ui64 []) \<le> Suc 15 + length ([] :: ngx_str)" for hex
    by (rule length_hex_digits)
  then have "length (hex_digits hex ui64 []) \<le> 20" for hex
    by (rule order_trans) simp
  with False show ?thesis by (simp add: num_text_def)
qed (simp add: length_num_text_dec)

lemma num_text_nonempty [simp]: "num_text ui64 h \<noteq> []"
proof -
  have "hex_digits hex ui64 p \<noteq> []" for hex p
    by (induction hex ui64 p rule: hex_digits.induct) (subst hex_digits.simps, simp add: Let_def)
  then show ?thesis by (simp add: num_text_def)
qed

lemma radix_value_zeros:
  "dig (chr CHR ''0'') = Some 0 \<Longrightarrow>
   radix_value base dig 0 (replicate n (chr CHR ''0'') @ s) = radix_value base dig 0 s"
  by (induction n) simp_all

lemma radix_value_num_text:
  "radix_value 10 dec_dig 0 (num_text ui64 0) = Some (uint ui64)"
  "h \<noteq> 0 \<Longrightarrow> radix_value 16 hex_dig 0 (num_text ui64 h) = Some (uint ui64)"
  by (simp add: num_text_def radix_value_dec_string)
     (simp add: num_text_def hex_digits_value [OF hex_dig_nibble(1)] hex_digits_value [OF hex_dig_nibble(2)])

lemma max_int_nonneg [simp]: "0 \<le> NGX_MAX_INT_T_VALUE"
  by (simp add: ngx_limits)

lemma ngx_atoi_value: "ngx_atoi line = (if line = [] then None else
  case radix_value 10 dec_dig 0 line of None \<Rightarrow> None
  | Some x \<Rightarrow> if x \<le> NGX_MAX_INT_T_VALUE then Some x else None)"
  by (simp add: ngx_atoi_def atoi.scan_eq)

lemma ngx_hextoi_value: "ngx_hextoi line = (if line = [] then None else
  case radix_value 16 hex_dig 0 line of None \<Rightarrow> None
  | Some x \<Rightarrow> if x \<le> NGX_MAX_INT_T_VALUE then Some x else None)"
  by (simp add: ngx_hextoi_def hextoi.scan_eq)

lemma atoX_same: "ngx_atosz = ngx_atoi" "ngx_atoof = ngx_atoi" "ngx_atotm = ngx_atoi"
  by (simp_all add: fun_eq_iff ngx_atosz_def ngx_atoof_def ngx_atotm_def ngx_atoi_def ngx_limits)

section \<open>Sizes and offsets: ngx_parse.c\<close>

definition ngx_parse_size :: "ngx_str \<Rightarrow> int option" where
  "ngx_parse_size line =
     (if line = [] then None
      else
        let unit = last line;
            (body, max, scale) =
              (if unit = chr CHR ''K'' \<or> unit = chr CHR ''k''
               then (butlast line, NGX_MAX_SIZE_T_VALUE div 1024, 1024)
               else if unit = chr CHR ''M'' \<or> unit = chr CHR ''m''
               then (butlast line, NGX_MAX_SIZE_T_VALUE div (1024 * 1024), 1024 * 1024)
               else (line, NGX_MAX_SIZE_T_VALUE, 1))
        in case ngx_atosz body of None \<Rightarrow> None
           | Some sz \<Rightarrow> if max < sz then None else Some (sz * scale))"

definition ngx_parse_offset :: "ngx_str \<Rightarrow> int option" where
  "ngx_parse_offset line =
     (if line = [] then None
      else
        let unit = last line;
            (body, max, scale) =
              (if unit = chr CHR ''K'' \<or> unit = chr CHR ''k''
               then (butlast line, NGX_MAX_OFF_T_VALUE div 1024, 1024)
               else if unit = chr CHR ''M'' \<or> unit = chr CHR ''m''
               then (butlast line, NGX_MAX_OFF_T_VALUE div (1024 * 1024), 1024 * 1024)
               else if unit = chr CHR ''G'' \<or> unit = chr CHR ''g''
               then (butlast line, NGX_MAX_OFF_T_VALUE div (1024 * 1024 * 1024), 1024 * 1024 * 1024)
               else (line, NGX_MAX_OFF_T_VALUE, 1))
        in case ngx_atoof body of None \<Rightarrow> None
           | Some offset \<Rightarrow> if max < offset then None else Some (offset * scale))"

text \<open>The suffixes and their scales, for the specification.\<close>

definition size_suffixes :: "(ngx_str \<times> int) set" where
  "size_suffixes = {([], 1), (bytes ''K'', 2 ^ 10), (bytes ''k'', 2 ^ 10),
                    (bytes ''M'', 2 ^ 20), (bytes ''m'', 2 ^ 20)}"

definition offset_suffixes :: "(ngx_str \<times> int) set" where
  "offset_suffixes = size_suffixes \<union> {(bytes ''G'', 2 ^ 30), (bytes ''g'', 2 ^ 30)}"

lemma atoi_digits: "ngx_atoi (ds @ [c]) = Some v \<Longrightarrow> is_digit c"
  using atoi.scan_digits [of 0 NGX_MAX_INT_T_VALUE "ds @ [c]" v]
  by (simp add: ngx_atoi_def ngx_limits dec_dig_def split: if_splits)

lemma atoi_Some: "ngx_atoi ds = Some n \<longleftrightarrow>
  ds \<noteq> [] \<and> radix_value 10 dec_dig 0 ds = Some n \<and> n \<le> NGX_MAX_INT_T_VALUE"
  by (auto simp: ngx_atoi_value split: option.splits)

lemma atoi_nonneg: "ngx_atoi ds = Some n \<Longrightarrow> 0 \<le> n"
  using atoi.radix_value_mono [of 0] by (auto simp: atoi_Some)

lemma int_div_less_iff:
  assumes "0 < (k::int)"
  shows "M div k < n \<longleftrightarrow> M < n * k"
proof
  assume "M div k < n"
  then have "M div k + 1 \<le> n" by simp
  then have "(M div k + 1) * k \<le> n * k" using assms by (intro mult_right_mono) auto
  moreover have "M = M div k * k + M mod k" by (rule div_mult_mod_eq [symmetric])
  moreover have "M mod k < k" using assms by simp
  moreover have "(M div k + 1) * k = M div k * k + k" by (simp add: distrib_right)
  ultimately have "M < n * k" by linarith
  then show "M < n * k" by simp
next
  assume "M < n * k"
  moreover have "M div k * k \<le> M" using assms by (simp add: minus_mod_eq_div_mult [symmetric])
  ultimately have "M div k * k < n * k" by simp
  then show "M div k < n" using assms by simp
qed

lemma scaled_atoi:
  assumes "0 < k"
  shows "(case ngx_atoi ds of None \<Rightarrow> None
          | Some n \<Rightarrow> if NGX_MAX_INT_T_VALUE div k < n then None else Some (n * k)) = Some v
    \<longleftrightarrow> (\<exists>n. ngx_atoi ds = Some n \<and> v = n * k \<and> v \<le> NGX_MAX_INT_T_VALUE)"
proof -
  have test: "NGX_MAX_INT_T_VALUE div k < n \<longleftrightarrow> NGX_MAX_INT_T_VALUE < n * k" for n
    by (rule int_div_less_iff [OF assms])
  show ?thesis
  proof (cases "ngx_atoi ds")
    case (Some n)
    then show ?thesis by (simp only: option.case test) (auto simp: not_less)
  qed simp
qed

lemma atoi_last_digit: "ngx_atoi ds = Some n \<Longrightarrow> is_digit (last ds)"
  using atoi_digits [of "butlast ds" "last ds" n] by (cases "ds = []") (auto simp: atoi_Some)

definition scaled :: "(ngx_str \<times> int) set \<Rightarrow> ngx_str \<Rightarrow> int \<Rightarrow> bool" where
  "scaled sfx line v \<longleftrightarrow> (\<exists>(u, k) \<in> sfx. \<exists>ds. line = ds @ u \<and>
     (\<exists>n. ngx_atoi ds = Some n \<and> v = n * k \<and> v \<le> NGX_MAX_INT_T_VALUE))"

lemma not_digit_unit: "\<not> is_digit (chr CHR ''K'')" "\<not> is_digit (chr CHR ''k'')"
  "\<not> is_digit (chr CHR ''M'')" "\<not> is_digit (chr CHR ''m'')"
  "\<not> is_digit (chr CHR ''G'')" "\<not> is_digit (chr CHR ''g'')"
  by (simp_all add: is_digit_def)

lemma ex_append_byte:
  "(\<exists>ds. line = ds @ [c] \<and> P ds) \<longleftrightarrow> line \<noteq> [] \<and> last line = c \<and> P (butlast line)"
  by (metis append_butlast_last_id butlast_snoc last_snoc snoc_eq_iff_butlast)

lemma parse_size_scaled: "ngx_parse_size line = Some v \<longleftrightarrow> scaled size_suffixes line v"
proof (cases "line = []")
  case True
  then show ?thesis by (simp add: scaled_def ngx_parse_size_def size_suffixes_def atoi_Some)
next
  case False
  have one: "(case ngx_atoi line of None \<Rightarrow> None
      | Some n \<Rightarrow> if NGX_MAX_INT_T_VALUE < n then None else Some (n * 1)) = Some v
    \<longleftrightarrow> ngx_atoi line = Some v \<and> v \<le> NGX_MAX_INT_T_VALUE"
    by (auto split: option.splits)
  note eq = one scaled_atoi [of 1024 "butlast line" v, simplified]
    scaled_atoi [of 1048576 "butlast line" v, simplified]
  have limit: "NGX_MAX_SIZE_T_VALUE = NGX_MAX_INT_T_VALUE" by (simp add: ngx_limits)
  show ?thesis
    using False not_digit_unit atoi_last_digit [of line]
    by (auto simp: ngx_parse_size_def Let_def atoX_same limit eq is_digit_def
      scaled_def size_suffixes_def ex_append_byte)
qed

lemma parse_offset_scaled: "ngx_parse_offset line = Some v \<longleftrightarrow> scaled offset_suffixes line v"
proof (cases "line = []")
  case True
  then show ?thesis
    by (simp add: scaled_def ngx_parse_offset_def offset_suffixes_def size_suffixes_def atoi_Some)
next
  case False
  have one: "(case ngx_atoi line of None \<Rightarrow> None
      | Some n \<Rightarrow> if NGX_MAX_INT_T_VALUE < n then None else Some (n * 1)) = Some v
    \<longleftrightarrow> ngx_atoi line = Some v \<and> v \<le> NGX_MAX_INT_T_VALUE"
    by (auto split: option.splits)
  note eq = one scaled_atoi [of 1024 "butlast line" v, simplified]
    scaled_atoi [of 1048576 "butlast line" v, simplified]
    scaled_atoi [of 1073741824 "butlast line" v, simplified]
  have limit: "NGX_MAX_OFF_T_VALUE = NGX_MAX_INT_T_VALUE" by (simp add: ngx_limits)
  show ?thesis
    using False not_digit_unit atoi_last_digit [of line]
    by (auto simp: ngx_parse_offset_def Let_def atoX_same limit eq is_digit_def
      scaled_def offset_suffixes_def size_suffixes_def ex_append_byte)
qed

section \<open>Properties\<close>

text \<open>\<^verbatim>\<open>ngx_parse_size\<close> and \<^verbatim>\<open>ngx_parse_offset\<close> accept exactly a decimal number with one
  of their unit letters whose scaled value fits the platform's largest signed integer, and
  return that scaled value: the \<^verbatim>\<open>size > max\<close> test before the multiplication neither lets
  an overflow through nor refuses a value that fits.\<close>

theorem size_and_offset_scaled:
  "(ngx_parse_size line = Some v \<longleftrightarrow> scaled size_suffixes line v)
    \<and> (ngx_parse_offset line = Some v \<longleftrightarrow> scaled offset_suffixes line v)"
  by (simp add: parse_size_scaled parse_offset_scaled)

text \<open>The decimal printer never writes more than \<^verbatim>\<open>last - buf\<close> bytes, and when twenty
  bytes (\<^verbatim>\<open>NGX_INT64_LEN\<close>) or the width are available \<^verbatim>\<open>ngx_atoi\<close> reads the zero-padded
  text back to the number whenever it is at most \<^verbatim>\<open>NGX_MAX_INT_T_VALUE\<close>, and refuses it otherwise.\<close>

theorem sprintf_num_atoi:
  assumes "20 \<le> room" "width \<le> room"
  shows "ngx_atoi (ngx_sprintf_num room ui64 (chr CHR ''0'') 0 width)
    = (if uint ui64 \<le> NGX_MAX_INT_T_VALUE then Some (uint ui64) else None)"
proof -
  have "ngx_sprintf_num room ui64 (chr CHR ''0'') 0 width =
      replicate (width - length (num_text ui64 0)) (chr CHR ''0'') @ num_text ui64 0"
    using assms num_text_fits [of ui64 0] by (simp add: sprintf_num_text)
  moreover have "radix_value 10 dec_dig 0 (replicate n (chr CHR ''0'') @ num_text ui64 0) = Some (uint ui64)" for n
    using radix_value_zeros [of dec_dig 10 n "num_text ui64 0"] radix_value_num_text(1) [of ui64]
    by (simp add: dec_dig_def is_digit_def digit_of_def)
  ultimately show ?thesis
    by (simp add: ngx_atoi_value)
qed

theorem sprintf_num_atoi_witness: "ngx_atoi (ngx_sprintf_num 24 1024 (chr CHR ''0'') 0 8) = Some 1024"
  using sprintf_num_atoi [of 24 8 1024] by (simp add: ngx_limits)

end
