(* ===== verification/Ngx_Parse_Time.thy ===== *)
theory Ngx_Parse_Time
  imports Ngx_Number
begin

text \<open>
  Times of the configuration, such as \<^verbatim>\<open>1d 2h30m\<close>: \<^verbatim>\<open>ngx_parse_time\<close> of
  \<^verbatim>\<open>core/ngx_parse.c\<close>, whole: the scanner of the numbers, the \<^verbatim>\<open>switch\<close> over the
  units with the \<^verbatim>\<open>step\<close> that makes them come in decreasing order, and the three
  overflow tests.  \<open>None\<close> is \<^verbatim>\<open>NGX_ERROR\<close>.
\<close>

section \<open>The step enumeration and its order\<close>

datatype time_step =
    st_start | st_year | st_month | st_week | st_day | st_hour | st_min | st_sec | st_msec | st_last

fun step_index :: "time_step \<Rightarrow> nat" where
  "step_index st_start = 0"
| "step_index st_year = 1"
| "step_index st_month = 2"
| "step_index st_week = 3"
| "step_index st_day = 4"
| "step_index st_hour = 5"
| "step_index st_min = 6"
| "step_index st_sec = 7"
| "step_index st_msec = 8"
| "step_index st_last = 9"

lemma step_index_inject: "step_index a = step_index b \<longleftrightarrow> a = b"
  by (cases a; cases b) simp_all

instantiation time_step :: linorder
begin

definition less_eq_time_step :: "time_step \<Rightarrow> time_step \<Rightarrow> bool" where
  "a \<le> b \<longleftrightarrow> step_index a \<le> step_index b"

definition less_time_step :: "time_step \<Rightarrow> time_step \<Rightarrow> bool" where
  "a < b \<longleftrightarrow> step_index a < step_index b"

instance
  by standard (auto simp: less_eq_time_step_def less_time_step_def step_index_inject)

end

lemmas time_step_order = less_eq_time_step_def less_time_step_def

section \<open>The parser\<close>

text \<open>
  The \<^verbatim>\<open>switch\<close>: the new step, the limit, the scale, and what is left of the line
  (\<^verbatim>\<open>ms\<close> takes one more byte).
\<close>

definition time_unit :: "bool \<Rightarrow> time_step \<Rightarrow> u8 \<Rightarrow> ngx_str \<Rightarrow> (time_step \<times> int \<times> int \<times> ngx_str) option" where
  "time_unit is_sec step c p =
     (if c = chr CHR ''y'' then
        (if st_start < step then None
         else Some (st_year, NGX_MAX_INT_T_VALUE div (60 * 60 * 24 * 365), 60 * 60 * 24 * 365, p))
      else if c = chr CHR ''M'' then
        (if st_month \<le> step then None
         else Some (st_month, NGX_MAX_INT_T_VALUE div (60 * 60 * 24 * 30), 60 * 60 * 24 * 30, p))
      else if c = chr CHR ''w'' then
        (if st_week \<le> step then None
         else Some (st_week, NGX_MAX_INT_T_VALUE div (60 * 60 * 24 * 7), 60 * 60 * 24 * 7, p))
      else if c = chr CHR ''d'' then
        (if st_day \<le> step then None
         else Some (st_day, NGX_MAX_INT_T_VALUE div (60 * 60 * 24), 60 * 60 * 24, p))
      else if c = chr CHR ''h'' then
        (if st_hour \<le> step then None
         else Some (st_hour, NGX_MAX_INT_T_VALUE div (60 * 60), 60 * 60, p))
      else if c = chr CHR ''m'' then
        (if p \<noteq> [] \<and> hd p = chr CHR ''s'' then
           (if is_sec \<or> st_msec \<le> step then None
            else Some (st_msec, NGX_MAX_INT_T_VALUE, 1, tl p))
         else if st_min \<le> step then None
         else Some (st_min, NGX_MAX_INT_T_VALUE div 60, 60, p))
      else if c = chr CHR ''s'' then
        (if st_sec \<le> step then None
         else Some (st_sec, NGX_MAX_INT_T_VALUE, 1, p))
      else if c = chr CHR '' '' then
        (if st_sec \<le> step then None
         else Some (st_last, NGX_MAX_INT_T_VALUE, 1, p))
      else None)"

lemma time_unit_length: "time_unit is_sec step c p = Some (step', m, scale, p') \<Longrightarrow> length p' \<le> length p"
  by (auto simp: time_unit_def split: if_splits)

text \<open>The \<^verbatim>\<open>while\<close> loop: what it leaves in \<^verbatim>\<open>value\<close>, \<^verbatim>\<open>total\<close> and \<^verbatim>\<open>valid\<close>.\<close>

function parse_time_loop ::
  "bool \<Rightarrow> int \<Rightarrow> int \<Rightarrow> time_step \<Rightarrow> bool \<Rightarrow> ngx_str \<Rightarrow> (int \<times> int \<times> bool) option" where
  "parse_time_loop is_sec value tot step valid [] = Some (value, tot, valid)"
| "parse_time_loop is_sec value tot step valid (c # p) =
     (if is_digit c then
        (if NGX_MAX_INT_T_VALUE div 10 \<le> value \<and>
            (NGX_MAX_INT_T_VALUE div 10 < value \<or> NGX_MAX_INT_T_VALUE mod 10 < digit_of c)
         then None
         else parse_time_loop is_sec (value * 10 + digit_of c) tot step True p)
      else
        case time_unit is_sec step c p of
          None \<Rightarrow> None
        | Some (step', mx, scale, p') \<Rightarrow>
            let scale' = (if step' \<noteq> st_msec \<and> \<not> is_sec then scale * 1000 else scale);
                mx' = (if step' \<noteq> st_msec \<and> \<not> is_sec then mx div 1000 else mx)
            in if mx' < value then None
               else if NGX_MAX_INT_T_VALUE - value * scale' < tot then None
               else parse_time_loop is_sec 0 (tot + value * scale') step' valid
                      (dropWhile (\<lambda>b. b = chr CHR '' '') p'))"
  by pat_completeness auto
termination
  by (relation "measure (\<lambda>(_, _, _, _, _, p). length p)")
     (auto dest!: time_unit_length intro: le_less_trans [OF length_dropWhile_le])

definition ngx_parse_time :: "ngx_str \<Rightarrow> bool \<Rightarrow> int option" where
  "ngx_parse_time line is_sec =
     (case parse_time_loop is_sec 0 0 (if is_sec then st_start else st_month) False line of
        None \<Rightarrow> None
      | Some (value, tot, valid) \<Rightarrow>
          if \<not> valid then None
          else if \<not> is_sec \<and> NGX_MAX_INT_T_VALUE div 1000 < value then None
          else let value' = (if is_sec then value else value * 1000)
               in if NGX_MAX_INT_T_VALUE - value' < tot then None
                  else Some (tot + value'))"

declare parse_time_loop.simps(2) [simp del]

section \<open>What it accepts\<close>

text \<open>
  A time as a list of numbers with units; \<open>Bare\<close> is a last number without a unit,
  which counts seconds.
\<close>

datatype time_item = Year nat | Month nat | Week nat | Day nat | Hour nat | Minute nat | Second nat | Msec nat

fun item_step :: "time_item \<Rightarrow> time_step" where
  "item_step (Year n) = st_year"
| "item_step (Month n) = st_month"
| "item_step (Week n) = st_week"
| "item_step (Day n) = st_day"
| "item_step (Hour n) = st_hour"
| "item_step (Minute n) = st_min"
| "item_step (Second n) = st_sec"
| "item_step (Msec n) = st_msec"

fun item_number :: "time_item \<Rightarrow> nat" where
  "item_number (Year n) = n"
| "item_number (Month n) = n"
| "item_number (Week n) = n"
| "item_number (Day n) = n"
| "item_number (Hour n) = n"
| "item_number (Minute n) = n"
| "item_number (Second n) = n"
| "item_number (Msec n) = n"

fun item_suffix :: "time_item \<Rightarrow> ngx_str" where
  "item_suffix (Year n) = bytes ''y''"
| "item_suffix (Month n) = bytes ''M''"
| "item_suffix (Week n) = bytes ''w''"
| "item_suffix (Day n) = bytes ''d''"
| "item_suffix (Hour n) = bytes ''h''"
| "item_suffix (Minute n) = bytes ''m''"
| "item_suffix (Second n) = bytes ''s''"
| "item_suffix (Msec n) = bytes ''ms''"

text \<open>The length of one unit, in seconds or in milliseconds.\<close>

fun unit_seconds :: "time_item \<Rightarrow> int" where
  "unit_seconds (Year n) = 31536000"
| "unit_seconds (Month n) = 2592000"
| "unit_seconds (Week n) = 604800"
| "unit_seconds (Day n) = 86400"
| "unit_seconds (Hour n) = 3600"
| "unit_seconds (Minute n) = 60"
| "unit_seconds (Second n) = 1"
| "unit_seconds (Msec n) = 1"

definition item_value :: "bool \<Rightarrow> time_item \<Rightarrow> int" where
  "item_value is_sec x = int (item_number x) * unit_seconds x *
     (if is_sec \<or> item_step x = st_msec then 1 else 1000)"

definition item_text :: "time_item \<Rightarrow> ngx_str" where
  "item_text x = dec_string (item_number x) @ item_suffix x"

definition time_text :: "time_item list \<Rightarrow> nat option \<Rightarrow> ngx_str" where
  "time_text xs bare = concat (map item_text xs) @ (case bare of None \<Rightarrow> [] | Some n \<Rightarrow> dec_string n)"

definition time_value :: "bool \<Rightarrow> time_item list \<Rightarrow> nat option \<Rightarrow> int" where
  "time_value is_sec xs bare = (\<Sum>x\<leftarrow>xs. item_value is_sec x) +
     (case bare of None \<Rightarrow> 0 | Some n \<Rightarrow> int n * (if is_sec then 1 else 1000))"

text \<open>The units must be in strictly decreasing order, and those the caller's precision allows.\<close>

definition item_ok :: "bool \<Rightarrow> time_item \<Rightarrow> bool" where
  "item_ok is_sec x \<longleftrightarrow> (if is_sec then item_step x \<noteq> st_msec else st_month < item_step x)"

definition items_ok :: "bool \<Rightarrow> time_item list \<Rightarrow> bool" where
  "items_ok is_sec xs \<longleftrightarrow> sorted_wrt (<) (map item_step xs) \<and> (\<forall>x\<in>set xs. item_ok is_sec x)"

lemma loop_digits:
  "\<forall>c\<in>set ds. is_digit c \<Longrightarrow> parse_time_loop is_sec v tot step valid (ds @ rest) =
    (case dec_loop (NGX_MAX_INT_T_VALUE div 10) (NGX_MAX_INT_T_VALUE mod 10) v ds of None \<Rightarrow> None
     | Some w \<Rightarrow> parse_time_loop is_sec w tot step (valid \<or> ds \<noteq> []) rest)"
proof (induction ds arbitrary: v valid)
  case (Cons c ds)
  then show ?case by (auto simp: parse_time_loop.simps(2) split: option.splits)
qed simp

lemma loop_number:
  "parse_time_loop is_sec 0 tot step valid (dec_string n @ rest) =
    (if int n \<le> NGX_MAX_INT_T_VALUE then parse_time_loop is_sec (int n) tot step True rest else None)"
  by (simp add: loop_digits dec_string_digits atoi.scan_eq radix_value_dec_string)

text \<open>What follows an item: the end or the number of the next one.\<close>

definition number_next :: "ngx_str \<Rightarrow> bool" where
  "number_next p \<longleftrightarrow> p = [] \<or> is_digit (hd p)"

lemma number_next_text: "number_next (time_text xs bare)"
proof -
  have digit: "is_digit (hd (dec_string n @ r))" for n r
    using dec_string_digits [of "hd (dec_string n)" n] by simp
  show ?thesis
    using digit [of _ "[]"] digit
    by (cases xs) (auto simp: number_next_def time_text_def item_text_def split: option.split)
qed

lemma number_next_spaces: "number_next p \<Longrightarrow> dropWhile (\<lambda>b. b = chr CHR '' '') p = p"
  by (cases p) (auto simp: number_next_def is_digit_def)

lemma time_unit_item:
  assumes "step < item_step x" "item_ok is_sec x" "number_next p"
  shows "time_unit is_sec step (hd (item_suffix x)) (tl (item_suffix x) @ p) =
    Some (item_step x, NGX_MAX_INT_T_VALUE div unit_seconds x, unit_seconds x, p)"
proof -
  have "\<not> (p \<noteq> [] \<and> hd p = chr CHR ''s'')"
    using assms(3) by (auto simp: number_next_def is_digit_def)
  with assms(1,2) show ?thesis
    by (cases x) (auto simp: time_unit_def item_ok_def time_step_order)
qed

lemma suffix_no_digit: "item_suffix x \<noteq> []" "\<not> is_digit (hd (item_suffix x))"
  by (cases x; simp add: is_digit_def)+

lemma unit_seconds_pos [simp]: "0 < unit_seconds x"
  by (cases x) simp_all

lemma item_value_nonneg [simp]: "0 \<le> item_value is_sec x"
  by (simp add: item_value_def less_imp_le)

lemma int_div_div_1000: "(M::int) div k div 1000 = M div (k * 1000)"
  by (simp add: zdiv_zmult2_eq)

lemma first_step: "st_start < item_step x"
  by (cases x) (simp_all add: time_step_order)

lemma loop_item:
  assumes "step < item_step x" "item_ok is_sec x" "number_next p" "0 \<le> tot"
  shows "parse_time_loop is_sec 0 tot step valid (item_text x @ p) =
    (if tot + item_value is_sec x \<le> NGX_MAX_INT_T_VALUE
     then parse_time_loop is_sec 0 (tot + item_value is_sec x) (item_step x) True p else None)"
proof -
  let ?n = "int (item_number x)" and ?m = "if item_step x \<noteq> st_msec \<and> \<not> is_sec then 1000 else 1 :: int"
  have suffix: "item_suffix x @ p = hd (item_suffix x) # (tl (item_suffix x) @ p)"
    using suffix_no_digit(1) [of x] by (cases "item_suffix x") simp_all
  have scale: "unit_seconds x * ?m \<ge> 1"
    using unit_seconds_pos [of x] by (simp add: int_one_le_iff_zero_less)
  have val: "item_value is_sec x = ?n * (unit_seconds x * ?m)"
    by (simp add: item_value_def)
  have "?n * 1 \<le> ?n * (unit_seconds x * ?m)" using scale by (intro mult_left_mono) auto
  then have number: "?n \<le> item_value is_sec x" by (simp add: val)
  have limit: "NGX_MAX_INT_T_VALUE div (unit_seconds x * ?m) < ?n
      \<longleftrightarrow> NGX_MAX_INT_T_VALUE < item_value is_sec x"
    unfolding val using scale by (intro int_div_less_iff) simp
  show ?thesis
    using suffix_no_digit(2) [of x] number limit assms(4)
    unfolding item_text_def append_assoc loop_number suffix
    by (auto simp: parse_time_loop.simps(2) time_unit_item [OF assms(1-3)] Let_def val
      int_div_div_1000 number_next_spaces [OF assms(3), simplified])
qed

lemma loop_items:
  assumes "items_ok is_sec xs" "\<forall>x\<in>set xs. step < item_step x" "0 \<le> tot" "number_next p"
    "p = (case bare of None \<Rightarrow> [] | Some n \<Rightarrow> dec_string n)"
  shows "parse_time_loop is_sec 0 tot step valid (concat (map item_text xs) @ p) =
    (if xs = [] \<or> tot + (\<Sum>x\<leftarrow>xs. item_value is_sec x) \<le> NGX_MAX_INT_T_VALUE
     then parse_time_loop is_sec 0 (tot + (\<Sum>x\<leftarrow>xs. item_value is_sec x))
       (last (step # map item_step xs)) (valid \<or> xs \<noteq> []) p else None)"
  using assms
proof (induction xs arbitrary: tot step valid)
  case (Cons x xs)
  have ok: "item_ok is_sec x" "items_ok is_sec xs" "\<forall>y\<in>set xs. item_step x < item_step y"
    using Cons.prems(1) by (auto simp: items_ok_def)
  have "number_next (concat (map item_text xs) @ p)"
    using number_next_text [of xs bare] Cons.prems(5) by (simp add: time_text_def)
  then have item: "parse_time_loop is_sec 0 tot step valid (item_text x @ concat (map item_text xs) @ p) =
    (if tot + item_value is_sec x \<le> NGX_MAX_INT_T_VALUE
     then parse_time_loop is_sec 0 (tot + item_value is_sec x) (item_step x) True
       (concat (map item_text xs) @ p) else None)"
    using Cons.prems ok by (intro loop_item) auto
  have sum: "0 \<le> (\<Sum>x\<leftarrow>xs. item_value is_sec x)" by (induction xs) auto
  have IH: "parse_time_loop is_sec 0 (tot + item_value is_sec x) (item_step x) True
      (concat (map item_text xs) @ p) =
    (if xs = [] \<or> tot + item_value is_sec x + (\<Sum>x\<leftarrow>xs. item_value is_sec x) \<le> NGX_MAX_INT_T_VALUE
     then parse_time_loop is_sec 0 (tot + item_value is_sec x + (\<Sum>x\<leftarrow>xs. item_value is_sec x))
       (last (item_step x # map item_step xs)) (True \<or> xs \<noteq> []) p else None)"
    using Cons.prems(3-5) ok(2,3) by (intro Cons.IH) auto
  show ?case
    using sum by (simp add: item IH add.assoc)
qed simp

lemma parse_time_text:
  assumes "items_ok is_sec xs" "xs \<noteq> [] \<or> bare \<noteq> None"
  shows "ngx_parse_time (time_text xs bare) is_sec =
    (if time_value is_sec xs bare \<le> NGX_MAX_INT_T_VALUE then Some (time_value is_sec xs bare) else None)"
proof -
  let ?p = "case bare of None \<Rightarrow> [] | Some n \<Rightarrow> dec_string n"
  let ?first = "if is_sec then st_start else st_month"
  let ?sum = "\<Sum>x\<leftarrow>xs. item_value is_sec x"
  have "number_next ?p" using number_next_text [of "[]" bare] by (simp add: time_text_def)
  moreover have "\<forall>x\<in>set xs. ?first < item_step x"
    using assms(1) first_step by (auto simp: items_ok_def item_ok_def)
  ultimately have loop: "parse_time_loop is_sec 0 0 ?first False (concat (map item_text xs) @ ?p) =
    (if xs = [] \<or> ?sum \<le> NGX_MAX_INT_T_VALUE
     then parse_time_loop is_sec 0 ?sum (last (?first # map item_step xs)) (xs \<noteq> []) ?p else None)"
    using loop_items [OF assms(1), of ?first 0 ?p bare False] by simp
  have sum: "0 \<le> ?sum" by (induction xs) auto
  have limit: "NGX_MAX_INT_T_VALUE div 1000 < int n \<longleftrightarrow> NGX_MAX_INT_T_VALUE < int n * 1000" for n
    by (rule int_div_less_iff) simp
  show ?thesis
  proof (cases bare)
    case None
    with assms(2) show ?thesis
      using sum by (auto simp: ngx_parse_time_def time_text_def time_value_def loop [simplified None, simplified])
  next
    case (Some n)
    have number: "parse_time_loop is_sec 0 tot step valid (dec_string n) =
      (if int n \<le> NGX_MAX_INT_T_VALUE then Some (int n, tot, True) else None)" for tot step valid
      using loop_number [of is_sec tot step valid n "[]"] by simp
    show ?thesis
      using sum limit [of n]
      by (auto simp: ngx_parse_time_def time_text_def time_value_def Some number
        loop [simplified Some, simplified] Let_def)
  qed
qed

section \<open>Properties\<close>

text \<open>For every list of time items in strictly decreasing order of units (with a bare number of
  seconds at the end, or none) the parser of \<^verbatim>\<open>10d 12h 30m\<close> style values returns the sum of
  the items in seconds, or in milliseconds, exactly when that sum fits a signed 64-bit
  integer, and the error otherwise; no intermediate step overflows.\<close>

theorem parse_time_items:
  assumes "items_ok is_sec xs" "xs \<noteq> [] \<or> bare \<noteq> None"
  shows "ngx_parse_time (time_text xs bare) is_sec =
    (if time_value is_sec xs bare \<le> NGX_MAX_INT_T_VALUE then Some (time_value is_sec xs bare) else None)"
  using assms by (rule parse_time_text)

theorem parse_time_items_witness:
  "ngx_parse_time (time_text [Day 1, Hour 2, Msec 5] None) False = Some 93600005"
  by (subst parse_time_items)
    (simp_all add: items_ok_def item_ok_def time_step_order time_value_def item_value_def ngx_limits)

end
