(* ===== verification/Ngx_Base64.thy ===== *)
theory Ngx_Base64
  imports Ngx_Number
begin

text \<open>
  \<^verbatim>\<open>ngx_hex_dump\<close> and the base64 codec of \<^verbatim>\<open>core/ngx_string.c\<close>, with its two
  alphabets and their decoding tables (77 marks a byte that is in no alphabet).
  The locale \<open>base64_tables\<close> is what the codec needs of a pair of tables; the
  round trip is proved in it once and instantiated for both alphabets.
\<close>

section \<open>Hexadecimal dump\<close>

fun ngx_hex_dump :: "ngx_str \<Rightarrow> ngx_str" where
  "ngx_hex_dump [] = []"
| "ngx_hex_dump (c # src) =
     hex_char (drop_bit 4 c) # hex_char (c AND 0xf) # ngx_hex_dump src"

section \<open>The codec\<close>

text \<open>\<open>basis\<close> is indexed by six bits, in the decoder by a whole byte.\<close>

fun encode_base64_internal :: "(u8 \<Rightarrow> u8) \<Rightarrow> bool \<Rightarrow> ngx_str \<Rightarrow> ngx_str" where
  "encode_base64_internal basis padding (s0 # s1 # s2 # s) =
     basis (drop_bit 2 s0 AND 0x3f)
     # basis (push_bit 4 (s0 AND 3) OR drop_bit 4 s1)
     # basis (push_bit 2 (s1 AND 0x0f) OR drop_bit 6 s2)
     # basis (s2 AND 0x3f)
     # encode_base64_internal basis padding s"
| "encode_base64_internal basis padding [s0, s1] =
     [basis (drop_bit 2 s0 AND 0x3f),
      basis (push_bit 4 (s0 AND 3) OR drop_bit 4 s1),
      basis (push_bit 2 (s1 AND 0x0f))]
     @ (if padding then [chr CHR ''='' ] else [])"
| "encode_base64_internal basis padding [s0] =
     [basis (drop_bit 2 s0 AND 0x3f), basis (push_bit 4 (s0 AND 3))]
     @ (if padding then [chr CHR ''='', chr CHR ''=''] else [])"
| "encode_base64_internal basis padding [] = []"

text \<open>The first loop of the decoder: the length up to the first \<^verbatim>\<open>=\<close>, if no byte is foreign.\<close>

fun base64_scan :: "(u8 \<Rightarrow> u8) \<Rightarrow> ngx_str \<Rightarrow> nat option" where
  "base64_scan basis [] = Some 0"
| "base64_scan basis (c # src) =
     (if c = chr CHR ''='' then Some 0
      else if basis c = 77 then None
      else map_option Suc (base64_scan basis src))"

fun base64_groups :: "(u8 \<Rightarrow> u8) \<Rightarrow> ngx_str \<Rightarrow> ngx_str" where
  "base64_groups basis (s0 # s1 # s2 # s3 # s) =
     (push_bit 2 (basis s0) OR drop_bit 4 (basis s1))
     # (push_bit 4 (basis s1) OR drop_bit 2 (basis s2))
     # (push_bit 6 (basis s2) OR basis s3)
     # base64_groups basis s"
| "base64_groups basis [s0, s1, s2] =
     [push_bit 2 (basis s0) OR drop_bit 4 (basis s1), push_bit 4 (basis s1) OR drop_bit 2 (basis s2)]"
| "base64_groups basis [s0, s1] = [push_bit 2 (basis s0) OR drop_bit 4 (basis s1)]"
| "base64_groups basis s = []"

definition decode_base64_internal :: "(u8 \<Rightarrow> u8) \<Rightarrow> ngx_str \<Rightarrow> ngx_str option" where
  "decode_base64_internal basis src =
     (case base64_scan basis src of None \<Rightarrow> None
      | Some len \<Rightarrow> if len mod 4 = 1 then None else Some (base64_groups basis (take len src)))"

section \<open>The tables\<close>

definition basis64 :: "u8 \<Rightarrow> u8" where
  "basis64 i = bytes ''ABCDEFGHIJKLMNOPQRSTUVWXYZabcdefghijklmnopqrstuvwxyz0123456789+/'' ! unat i"

definition basis64url :: "u8 \<Rightarrow> u8" where
  "basis64url i = bytes ''ABCDEFGHIJKLMNOPQRSTUVWXYZabcdefghijklmnopqrstuvwxyz0123456789-_'' ! unat i"

definition basis64_table :: "u8 list" where
  "basis64_table =
    [77, 77, 77, 77, 77, 77, 77, 77, 77, 77, 77, 77, 77, 77, 77, 77,
    77, 77, 77, 77, 77, 77, 77, 77, 77, 77, 77, 77, 77, 77, 77, 77,
    77, 77, 77, 77, 77, 77, 77, 77, 77, 77, 77, 62, 77, 77, 77, 63,
    52, 53, 54, 55, 56, 57, 58, 59, 60, 61, 77, 77, 77, 77, 77, 77,
    77, 0, 1, 2, 3, 4, 5, 6, 7, 8, 9, 10, 11, 12, 13, 14,
    15, 16, 17, 18, 19, 20, 21, 22, 23, 24, 25, 77, 77, 77, 77, 77,
    77, 26, 27, 28, 29, 30, 31, 32, 33, 34, 35, 36, 37, 38, 39, 40,
    41, 42, 43, 44, 45, 46, 47, 48, 49, 50, 51, 77, 77, 77, 77, 77,
    77, 77, 77, 77, 77, 77, 77, 77, 77, 77, 77, 77, 77, 77, 77, 77,
    77, 77, 77, 77, 77, 77, 77, 77, 77, 77, 77, 77, 77, 77, 77, 77,
    77, 77, 77, 77, 77, 77, 77, 77, 77, 77, 77, 77, 77, 77, 77, 77,
    77, 77, 77, 77, 77, 77, 77, 77, 77, 77, 77, 77, 77, 77, 77, 77,
    77, 77, 77, 77, 77, 77, 77, 77, 77, 77, 77, 77, 77, 77, 77, 77,
    77, 77, 77, 77, 77, 77, 77, 77, 77, 77, 77, 77, 77, 77, 77, 77,
    77, 77, 77, 77, 77, 77, 77, 77, 77, 77, 77, 77, 77, 77, 77, 77,
    77, 77, 77, 77, 77, 77, 77, 77, 77, 77, 77, 77, 77, 77, 77, 77]"

definition basis64url_table :: "u8 list" where
  "basis64url_table =
    [77, 77, 77, 77, 77, 77, 77, 77, 77, 77, 77, 77, 77, 77, 77, 77,
    77, 77, 77, 77, 77, 77, 77, 77, 77, 77, 77, 77, 77, 77, 77, 77,
    77, 77, 77, 77, 77, 77, 77, 77, 77, 77, 77, 77, 77, 62, 77, 77,
    52, 53, 54, 55, 56, 57, 58, 59, 60, 61, 77, 77, 77, 77, 77, 77,
    77, 0, 1, 2, 3, 4, 5, 6, 7, 8, 9, 10, 11, 12, 13, 14,
    15, 16, 17, 18, 19, 20, 21, 22, 23, 24, 25, 77, 77, 77, 77, 63,
    77, 26, 27, 28, 29, 30, 31, 32, 33, 34, 35, 36, 37, 38, 39, 40,
    41, 42, 43, 44, 45, 46, 47, 48, 49, 50, 51, 77, 77, 77, 77, 77,
    77, 77, 77, 77, 77, 77, 77, 77, 77, 77, 77, 77, 77, 77, 77, 77,
    77, 77, 77, 77, 77, 77, 77, 77, 77, 77, 77, 77, 77, 77, 77, 77,
    77, 77, 77, 77, 77, 77, 77, 77, 77, 77, 77, 77, 77, 77, 77, 77,
    77, 77, 77, 77, 77, 77, 77, 77, 77, 77, 77, 77, 77, 77, 77, 77,
    77, 77, 77, 77, 77, 77, 77, 77, 77, 77, 77, 77, 77, 77, 77, 77,
    77, 77, 77, 77, 77, 77, 77, 77, 77, 77, 77, 77, 77, 77, 77, 77,
    77, 77, 77, 77, 77, 77, 77, 77, 77, 77, 77, 77, 77, 77, 77, 77,
    77, 77, 77, 77, 77, 77, 77, 77, 77, 77, 77, 77, 77, 77, 77, 77]"

definition ngx_encode_base64 :: "ngx_str \<Rightarrow> ngx_str" where
  "ngx_encode_base64 src = encode_base64_internal basis64 True src"

definition ngx_encode_base64url :: "ngx_str \<Rightarrow> ngx_str" where
  "ngx_encode_base64url src = encode_base64_internal basis64url False src"

definition ngx_decode_base64 :: "ngx_str \<Rightarrow> ngx_str option" where
  "ngx_decode_base64 src = decode_base64_internal (\<lambda>c. basis64_table ! unat c) src"

definition ngx_decode_base64url :: "ngx_str \<Rightarrow> ngx_str option" where
  "ngx_decode_base64url src = decode_base64_internal (\<lambda>c. basis64url_table ! unat c) src"

section \<open>Six bits at a time\<close>

text \<open>The indices the encoder looks up, without the alphabet and the padding.\<close>

fun sextets :: "ngx_str \<Rightarrow> u8 list" where
  "sextets (s0 # s1 # s2 # s) =
     (drop_bit 2 s0 AND 0x3f) # (push_bit 4 (s0 AND 3) OR drop_bit 4 s1)
     # (push_bit 2 (s1 AND 0x0f) OR drop_bit 6 s2) # (s2 AND 0x3f) # sextets s"
| "sextets [s0, s1] =
     [drop_bit 2 s0 AND 0x3f, push_bit 4 (s0 AND 3) OR drop_bit 4 s1, push_bit 2 (s1 AND 0x0f)]"
| "sextets [s0] = [drop_bit 2 s0 AND 0x3f, push_bit 4 (s0 AND 3)]"
| "sextets [] = []"

definition base64_pad :: "bool \<Rightarrow> nat \<Rightarrow> ngx_str" where
  "base64_pad padding n = (if padding then replicate ((3 - n mod 3) mod 3) (chr CHR ''='') else [])"

lemma encode_sextets:
  "encode_base64_internal basis padding s = map basis (sextets s) @ base64_pad padding (length s)"
proof (induction s rule: sextets.induct)
  case (1 s0 s1 s2 s)
  then show ?case by (simp add: base64_pad_def)
qed (simp_all add: base64_pad_def numeral_2_eq_2)

lemma length_sextets: "length (sextets s) = (4 * length s + 2) div 3"
  by (induction s rule: sextets.induct) simp_all

lemma byte_mask_lt:
  fixes w :: u8
  shows "uint (w AND 0x3f) < 64" "uint (w AND 3) < 4" "uint (w AND 0x0f) < 16"
proof -
  have mask: "m \<le> 255 \<Longrightarrow> 0 \<le> m \<Longrightarrow> uint (w AND word_of_int m) \<le> m" for m
  proof -
    assume m: "m \<le> 255" "0 \<le> m"
    then have "uint (word_of_int m :: u8) = m" by (simp add: uint_word_of_int_eq take_bit_int_eq_self)
    moreover have "uint (w AND word_of_int m) \<le> uint (word_of_int m :: u8)"
      by (simp add: uint_and AND_upper2)
    ultimately show ?thesis by simp
  qed
  show "uint (w AND 0x3f) < 64" "uint (w AND 3) < 4" "uint (w AND 0x0f) < 16"
    using mask [of 63] mask [of 3] mask [of 15] by simp_all
qed

lemma byte_bits_eqI:
  fixes a b :: u8
  assumes "\<And>n. n < 8 \<Longrightarrow> bit a n \<longleftrightarrow> bit b n"
  shows "a = b"
  using assms by (intro bit_word_eqI) simp

lemma less_8_cases: "n < (8::nat) \<Longrightarrow> n = 0 \<or> n = 1 \<or> n = 2 \<or> n = 3 \<or> n = 4 \<or> n = 5 \<or> n = 6 \<or> n = 7"
  by arith

lemma byte_bit_out: "8 \<le> n \<Longrightarrow> \<not> bit (w::u8) n"
  by (auto dest: bit_imp_le_length)

lemma sextet_or_lt:
  fixes a b :: u8
  shows "uint (push_bit 4 (a AND 3) OR drop_bit 4 b) < 64" "uint (push_bit 2 (a AND 0x0f) OR drop_bit 6 b) < 64"
    "uint (push_bit 4 (a AND 3)) < 64" "uint (push_bit 2 (a AND 0x0f)) < 64"
proof -
  have fits: "\<not> bit w 6 \<Longrightarrow> \<not> bit w 7 \<Longrightarrow> uint w < 64" for w :: u8
  proof -
    assume "\<not> bit w 6" "\<not> bit w 7"
    then have "w = take_bit 6 w"
      by (intro byte_bits_eqI) (drule less_8_cases, auto simp: bit_simps)
    then have "uint w = take_bit 6 (uint w)" by (metis unsigned_take_bit_eq)
    also have "\<dots> < 2 ^ 6" by (rule take_bit_int_less_exp)
    finally show ?thesis by simp
  qed
  show "uint (push_bit 4 (a AND 3) OR drop_bit 4 b) < 64"
    "uint (push_bit 2 (a AND 0x0f) OR drop_bit 6 b) < 64"
    "uint (push_bit 4 (a AND 3)) < 64" "uint (push_bit 2 (a AND 0x0f)) < 64"
    by (rule fits; simp add: bit_simps byte_bit_out)+
qed

lemma regroup_bits:
  fixes s0 s1 s2 :: u8
  shows "push_bit 2 (drop_bit 2 s0 AND 0x3f) OR drop_bit 4 (push_bit 4 (s0 AND 3) OR drop_bit 4 s1) = s0"
    "push_bit 4 (push_bit 4 (s0 AND 3) OR drop_bit 4 s1)
       OR drop_bit 2 (push_bit 2 (s1 AND 0x0f) OR drop_bit 6 s2) = s1"
    "push_bit 6 (push_bit 2 (s1 AND 0x0f) OR drop_bit 6 s2) OR (s2 AND 0x3f) = s2"
    "push_bit 2 (drop_bit 2 s0 AND 0x3f) OR drop_bit 4 (push_bit 4 (s0 AND 3)) = s0"
    "push_bit 4 (push_bit 4 (s0 AND 3) OR drop_bit 4 s1) OR drop_bit 2 (push_bit 2 (s1 AND 0x0f)) = s1"
  by (rule byte_bits_eqI; drule less_8_cases; auto simp: bit_simps numeral_2_eq_2 [symmetric])+

lemma sextets_lt: "i \<in> set (sextets s) \<Longrightarrow> uint i < 64"
proof (induction s rule: sextets.induct)
  case (1 s0 s1 s2 s)
  then show ?case using sextet_or_lt [simplified] by (auto simp: byte_mask_lt)
qed (use sextet_or_lt [simplified] in \<open>auto simp: byte_mask_lt\<close>)

lemma groups_sextets: "base64_groups (\<lambda>i. i) (sextets s) = s"
  by (induction s rule: sextets.induct) (simp_all add: regroup_bits [simplified])

lemma groups_map: "base64_groups dec (map f xs) = base64_groups (\<lambda>i. dec (f i)) xs"
  by (induction "\<lambda>i. dec (f i)" xs rule: base64_groups.induct) simp_all

section \<open>The contract of a pair of tables\<close>

locale base64_tables =
  fixes enc dec :: "u8 \<Rightarrow> u8"
  assumes dec_enc: "uint i < 64 \<Longrightarrow> dec (enc i) = i"
    and enc_not_pad: "uint i < 64 \<Longrightarrow> enc i \<noteq> chr CHR ''=''"
begin

lemma dec_valid: "uint i < 64 \<Longrightarrow> dec (enc i) \<noteq> 77"
  by (auto simp: dec_enc)

lemma scan_encoded:
  "\<forall>i\<in>set xs. uint i < 64 \<Longrightarrow> base64_scan dec (map enc xs @ base64_pad padding n) = Some (length xs)"
proof (induction xs)
  case Nil
  then show ?case by (cases "(3 - n mod 3) mod 3") (auto simp: base64_pad_def)
next
  case (Cons x xs)
  then show ?case using enc_not_pad [of x] dec_valid [of x] by simp
qed

lemma round_trip: "decode_base64_internal dec (encode_base64_internal enc padding s) = Some s"
proof -
  have lt: "\<forall>i\<in>set (sextets s). uint i < 64" by (simp add: sextets_lt)
  then have same: "map (\<lambda>i. dec (enc i)) (sextets s) = sextets s"
    by (simp add: dec_enc map_idI)
  have "base64_groups dec (map enc (sextets s)) = base64_groups (\<lambda>i. i) (map (\<lambda>i. dec (enc i)) (sextets s))"
    by (simp add: groups_map)
  also have "\<dots> = s" by (simp add: same groups_sextets)
  finally have "base64_groups dec (map enc (sextets s)) = s" .
  moreover have "length (sextets s) mod 4 \<noteq> 1"
    by (induction s rule: sextets.induct) simp_all
  ultimately show ?thesis
    by (simp add: decode_base64_internal_def encode_sextets scan_encoded [OF lt])
qed

end

lemma basis64_tables:
  "list_all (\<lambda>i. basis64_table ! unat (basis64 (word_of_int i)) = word_of_int i
     \<and> basis64 (word_of_int i) \<noteq> chr CHR ''='') [0..63]"
  by (simp add: upto_rec1 basis64_def basis64_table_def)

lemma basis64url_tables:
  "list_all (\<lambda>i. basis64url_table ! unat (basis64url (word_of_int i)) = word_of_int i
     \<and> basis64url (word_of_int i) \<noteq> chr CHR ''='') [0..63]"
  by (simp add: upto_rec1 basis64url_def basis64url_table_def)

interpretation base64: base64_tables basis64 "\<lambda>c. basis64_table ! unat c"
  by standard (use byte_table [OF basis64_tables] in auto)

interpretation base64url: base64_tables basis64url "\<lambda>c. basis64url_table ! unat c"
  by standard (use byte_table [OF basis64url_tables] in auto)

text \<open>The sizes the callers allocate: \<^verbatim>\<open>ngx_base64_encoded_length\<close> and \<^verbatim>\<open>ngx_base64_decoded_length\<close>.\<close>

definition ngx_base64_encoded_length :: "nat \<Rightarrow> nat" where
  "ngx_base64_encoded_length len = (len + 2) div 3 * 4"

definition ngx_base64_decoded_length :: "nat \<Rightarrow> nat" where
  "ngx_base64_decoded_length len = (len + 3) div 4 * 3"

lemma group_lengths: "(5 + n) div 3 = Suc (Suc (Suc n) div 3)" "(7 + n) div 4 = Suc ((n + 3) div 4)" for n :: nat
  by presburger+

lemma encoded_length: "length (encode_base64_internal basis True s) = ngx_base64_encoded_length (length s)"
  by (induction s rule: sextets.induct) (simp_all add: ngx_base64_encoded_length_def group_lengths)

lemma encoded_length_le: "length (encode_base64_internal basis p s) \<le> ngx_base64_encoded_length (length s)"
  by (induction s rule: sextets.induct) (auto simp: ngx_base64_encoded_length_def group_lengths)

lemma groups_length: "length (base64_groups basis s) \<le> ngx_base64_decoded_length (length s)"
  by (induction basis s rule: base64_groups.induct) (auto simp: ngx_base64_decoded_length_def group_lengths)

lemma decoded_length_mono: "n \<le> m \<Longrightarrow> ngx_base64_decoded_length n \<le> ngx_base64_decoded_length m"
  by (simp add: ngx_base64_decoded_length_def div_le_mono)

lemma decoded_length:
  assumes "decode_base64_internal basis s = Some d"
  shows "length d \<le> ngx_base64_decoded_length (length s)"
proof -
  obtain n where d: "d = base64_groups basis (take n s)"
    using assms by (auto simp: decode_base64_internal_def split: option.splits if_splits)
  have "length d \<le> ngx_base64_decoded_length (length (take n s))"
    unfolding d by (rule groups_length)
  also have "\<dots> \<le> ngx_base64_decoded_length (length s)"
    by (rule decoded_length_mono) simp
  finally show ?thesis .
qed

section \<open>What a hexadecimal dump says\<close>

lemma byte_nibbles:
  fixes c :: u8
  shows "uint (drop_bit 4 c) = uint c div 16" "uint (c AND 0xf) = uint c mod 16"
proof -
  have "uint c AND 15 = take_bit 4 (uint c)" by (simp add: take_bit_eq_mask mask_eq_exp_minus_1)
  then show "uint (c AND 0xf) = uint c mod 16" by (simp add: uint_and take_bit_eq_mod)
qed (simp add: uint_div drop_bit_eq_div)

lemma hex_dump_value:
  "radix_value 16 hex_dig v (ngx_hex_dump s) = Some (foldl (\<lambda>a c. a * 256 + uint c) v s)"
proof (induction s arbitrary: v)
  case (Cons c s)
  have lt: "uint (drop_bit 4 c) < 16" "uint (c AND 0xf) < 16"
    using byte_uint_range [of c] by (simp_all add: byte_nibbles int_div_less_iff)
  have "(v * 16 + uint c div 16) * 16 + uint c mod 16 = v * 256 + (uint c div 16 * 16 + uint c mod 16)"
    by simp
  also have "\<dots> = v * 256 + uint c" by (simp only: div_mult_mod_eq)
  finally have join: "(v * 16 + uint c div 16) * 16 + uint c mod 16 = v * 256 + uint c" .
  show ?case
    using Cons.IH [of "v * 256 + uint c"]
    by (simp only: ngx_hex_dump.simps radix_value.simps hex_dig_nibble(1) [OF lt(1)]
      hex_dig_nibble(1) [OF lt(2)] byte_nibbles option.case join foldl.simps)
qed simp

lemma hex_dump_length: "length (ngx_hex_dump s) = 2 * length s"
  by (induction s) simp_all

section \<open>Properties\<close>

text \<open>C37: Both Base64 alphabets round trip: decoding what the encoder wrote returns the source,
  with and without padding, the padded text has exactly the length of
  \<^verbatim>\<open>ngx_base64_encoded_length\<close> and the unpadded one at most that, so the buffers that callers
  size with the macro are large enough.\<close>

theorem base64_round_trip:
  "ngx_decode_base64 (ngx_encode_base64 s) = Some s
    \<and> ngx_decode_base64url (ngx_encode_base64url s) = Some s
    \<and> length (ngx_encode_base64 s) = ngx_base64_encoded_length (length s)
    \<and> length (ngx_encode_base64url s) \<le> ngx_base64_encoded_length (length s)"
  unfolding ngx_decode_base64_def ngx_encode_base64_def ngx_decode_base64url_def ngx_encode_base64url_def
  by (intro conjI base64.round_trip base64url.round_trip encoded_length encoded_length_le)

text \<open>Whatever the decoder accepts, it writes at most \<^verbatim>\<open>ngx_base64_decoded_length\<close> bytes:
  the destination of the size the macro computes is never overrun.\<close>

theorem base64_decode_bounds:
  assumes "ngx_decode_base64 s = Some d \<or> ngx_decode_base64url s = Some d"
  shows "length d \<le> ngx_base64_decoded_length (length s)"
  using assms decoded_length
  unfolding ngx_decode_base64_def ngx_decode_base64url_def by blast

theorem base64_decode_bounds_witness:
  "length (bytes ''a'') \<le> ngx_base64_decoded_length (length (bytes ''YQ==''))"
  by (rule base64_decode_bounds) (code_simp)

end
