(* ===== verification/Ngx_Escape.thy ===== *)
theory Ngx_Escape
  imports Ngx_Number
begin

text \<open>
  The escapers of \<^verbatim>\<open>core/ngx_string.c\<close>: \<^verbatim>\<open>ngx_escape_uri\<close> with its bit maps,
  \<^verbatim>\<open>ngx_unescape_uri\<close> with its three states, \<^verbatim>\<open>ngx_escape_html\<close> and
  \<^verbatim>\<open>ngx_escape_json\<close>.  Each escaper is called twice by its users: once with a null
  destination, to learn how much longer the result is, and once to write it.  The
  locale \<open>byte_escaper\<close> is that contract.
\<close>

section \<open>URI escaping\<close>

datatype escape_type =
    NGX_ESCAPE_URI | NGX_ESCAPE_ARGS | NGX_ESCAPE_URI_COMPONENT | NGX_ESCAPE_HTML
  | NGX_ESCAPE_REFRESH | NGX_ESCAPE_MEMCACHED | NGX_ESCAPE_MAIL_AUTH

definition escape_map_uri :: "u32 list" where
  "escape_map_uri = [0xffffffff, 0xd000002d, 0x50000000, 0xb8000001,
                     0xffffffff, 0xffffffff, 0xffffffff, 0xffffffff]"

definition escape_map_args :: "u32 list" where
  "escape_map_args = [0xffffffff, 0xd800086d, 0x50000000, 0xb8000001,
                      0xffffffff, 0xffffffff, 0xffffffff, 0xffffffff]"

definition escape_map_uri_component :: "u32 list" where
  "escape_map_uri_component = [0xffffffff, 0xfc009fff, 0x78000001, 0xb8000001,
                               0xffffffff, 0xffffffff, 0xffffffff, 0xffffffff]"

definition escape_map_html :: "u32 list" where
  "escape_map_html = [0xffffffff, 0x500000ad, 0x50000000, 0xb8000001,
                      0xffffffff, 0xffffffff, 0xffffffff, 0xffffffff]"

definition escape_map_refresh :: "u32 list" where
  "escape_map_refresh = [0xffffffff, 0x50000085, 0x50000000, 0xd8000001,
                         0xffffffff, 0xffffffff, 0xffffffff, 0xffffffff]"

definition escape_map_memcached :: "u32 list" where
  "escape_map_memcached = [0xffffffff, 0x00000021, 0x00000000, 0x00000000,
                           0x00000000, 0x00000000, 0x00000000, 0x00000000]"

fun escape_map :: "escape_type \<Rightarrow> u32 list" where
  "escape_map NGX_ESCAPE_URI = escape_map_uri"
| "escape_map NGX_ESCAPE_ARGS = escape_map_args"
| "escape_map NGX_ESCAPE_URI_COMPONENT = escape_map_uri_component"
| "escape_map NGX_ESCAPE_HTML = escape_map_html"
| "escape_map NGX_ESCAPE_REFRESH = escape_map_refresh"
| "escape_map NGX_ESCAPE_MEMCACHED = escape_map_memcached"
| "escape_map NGX_ESCAPE_MAIL_AUTH = escape_map_memcached"

text \<open>\<open>escape[*src >> 5] & (1U << (*src & 0x1f))\<close>\<close>

definition must_escape :: "escape_type \<Rightarrow> u8 \<Rightarrow> bool" where
  "must_escape ty c \<longleftrightarrow>
     (escape_map ty ! unat (drop_bit 5 c)) AND push_bit (unat (c AND 0x1f)) 1 \<noteq> 0"

text \<open>With a null \<^verbatim>\<open>dst\<close>: the number of bytes to be escaped.\<close>

fun ngx_escape_uri_count :: "escape_type \<Rightarrow> ngx_str \<Rightarrow> nat" where
  "ngx_escape_uri_count ty [] = 0"
| "ngx_escape_uri_count ty (c # src) =
     (if must_escape ty c then 1 else 0) + ngx_escape_uri_count ty src"

fun ngx_escape_uri :: "escape_type \<Rightarrow> ngx_str \<Rightarrow> ngx_str" where
  "ngx_escape_uri ty [] = []"
| "ngx_escape_uri ty (c # src) =
     (if must_escape ty c
      then chr CHR ''%'' # HEX_char (drop_bit 4 c) # HEX_char (c AND 0xf) # ngx_escape_uri ty src
      else c # ngx_escape_uri ty src)"

section \<open>URI unescaping\<close>

definition NGX_UNESCAPE_URI :: u32 where
  "NGX_UNESCAPE_URI = 1"

definition NGX_UNESCAPE_REDIRECT :: u32 where
  "NGX_UNESCAPE_REDIRECT = 2"

text \<open>
  The states, with what the code keeps in \<^verbatim>\<open>decoded\<close> and reads back through
  \<^verbatim>\<open>s - 2\<close>: the first hexadecimal digit, as a value and as the byte it was.
\<close>

datatype unescape_state = sw_usual | sw_quoted | sw_quoted_second u8 u8

text \<open>One byte: the bytes written, and the next state or \<open>None\<close> for \<^verbatim>\<open>goto done\<close>.\<close>

definition unescape_usual :: "u32 \<Rightarrow> u8 \<Rightarrow> ngx_str \<times> unescape_state option" where
  "unescape_usual ty ch =
     (if ch = chr CHR ''?'' \<and> ty AND (NGX_UNESCAPE_URI OR NGX_UNESCAPE_REDIRECT) \<noteq> 0
      then ([ch], None)
      else if ch = chr CHR ''%'' then ([], Some sw_quoted)
      else ([ch], Some sw_usual))"

definition unescape_quoted :: "u8 \<Rightarrow> ngx_str \<times> unescape_state option" where
  "unescape_quoted ch =
     (if chr CHR ''0'' \<le> ch \<and> ch \<le> chr CHR ''9'' then ([], Some (sw_quoted_second (ch - 48) ch))
      else let c = ch OR 0x20 in
        if chr CHR ''a'' \<le> c \<and> c \<le> chr CHR ''f''
        then ([], Some (sw_quoted_second (c - 97 + 10) ch))
        else ([ch], Some sw_usual))"

definition unescape_second :: "u32 \<Rightarrow> u8 \<Rightarrow> u8 \<Rightarrow> u8 \<Rightarrow> ngx_str \<times> unescape_state option" where
  "unescape_second ty decoded first second =
     (if chr CHR ''0'' \<le> second \<and> second \<le> chr CHR ''9'' then
        let ch = push_bit 4 decoded + (second - 48) in
          if ty AND NGX_UNESCAPE_REDIRECT \<noteq> 0 then
            (if chr CHR ''%'' < ch \<and> ch < 0x7f then ([ch], Some sw_usual)
             else ([chr CHR ''%'', first, second], Some sw_usual))
          else ([ch], Some sw_usual)
      else let c = second OR 0x20 in
        if chr CHR ''a'' \<le> c \<and> c \<le> chr CHR ''f'' then
          let ch = push_bit 4 decoded + (c - 97) + 10 in
            if ty AND NGX_UNESCAPE_URI \<noteq> 0 then
              (if ch = chr CHR ''?'' then ([ch], None) else ([ch], Some sw_usual))
            else if ty AND NGX_UNESCAPE_REDIRECT \<noteq> 0 then
              (if ch = chr CHR ''?'' then ([ch], None)
               else if chr CHR ''%'' < ch \<and> ch < 0x7f then ([ch], Some sw_usual)
               else ([chr CHR ''%'', first, second], Some sw_usual))
            else ([ch], Some sw_usual)
        else ([], Some sw_usual))"

fun unescape_step :: "u32 \<Rightarrow> unescape_state \<Rightarrow> u8 \<Rightarrow> ngx_str \<times> unescape_state option" where
  "unescape_step ty sw_usual ch = unescape_usual ty ch"
| "unescape_step ty sw_quoted ch = unescape_quoted ch"
| "unescape_step ty (sw_quoted_second decoded first) ch = unescape_second ty decoded first ch"

text \<open>The bytes written at \<^verbatim>\<open>*dst\<close> and the rest of the source at \<^verbatim>\<open>*src\<close>.\<close>

fun unescape_loop :: "u32 \<Rightarrow> unescape_state \<Rightarrow> ngx_str \<Rightarrow> ngx_str \<times> ngx_str" where
  "unescape_loop ty state [] = ([], [])"
| "unescape_loop ty state (ch # s) =
     (case unescape_step ty state ch of
        (out, None) \<Rightarrow> (out, s)
      | (out, Some state') \<Rightarrow> (case unescape_loop ty state' s of (d, rest) \<Rightarrow> (out @ d, rest)))"

definition ngx_unescape_uri :: "ngx_str \<Rightarrow> u32 \<Rightarrow> ngx_str \<times> ngx_str" where
  "ngx_unescape_uri src ty = unescape_loop ty sw_usual src"

section \<open>HTML and JSON\<close>

fun html_extra :: "ngx_str \<Rightarrow> nat" where
  "html_extra [] = 0"
| "html_extra (c # src) =
     (if c = chr CHR ''<'' then length ''&lt;'' - 1
      else if c = chr CHR ''>'' then length ''&gt;'' - 1
      else if c = chr CHR ''&'' then length ''&amp;'' - 1
      else if c = 34 then length ''&quot;'' - 1
      else 0) + html_extra src"

fun ngx_escape_html :: "ngx_str \<Rightarrow> ngx_str" where
  "ngx_escape_html [] = []"
| "ngx_escape_html (ch # src) =
     (if ch = chr CHR ''<'' then bytes ''&lt;''
      else if ch = chr CHR ''>'' then bytes ''&gt;''
      else if ch = chr CHR ''&'' then bytes ''&amp;''
      else if ch = 34 then bytes ''&quot;''
      else [ch]) @ ngx_escape_html src"

text \<open>34 is the double quote, 92 the backslash; 8, 9, 10, 12 and 13 are \<^verbatim>\<open>\b \t \n \f \r\<close>.\<close>

fun json_extra :: "ngx_str \<Rightarrow> nat" where
  "json_extra [] = 0"
| "json_extra (ch # src) =
     (if ch = 92 \<or> ch = 34 then 1
      else if ch \<le> 0x1f then
        (if ch = 10 \<or> ch = 13 \<or> ch = 9 \<or> ch = 8 \<or> ch = 12 then 1 else 5)
      else 0) + json_extra src"

definition json_byte :: "u8 \<Rightarrow> ngx_str" where
  "json_byte ch =
     (if 0x1f < ch then (if ch = 92 \<or> ch = 34 then [92, ch] else [ch])
      else 92 #
        (if ch = 10 then bytes ''n''
         else if ch = 13 then bytes ''r''
         else if ch = 9 then bytes ''t''
         else if ch = 8 then bytes ''b''
         else if ch = 12 then bytes ''f''
         else bytes ''u00'' @
           [48 + drop_bit 4 ch,
            (let lo = ch AND 0xf in if lo < 10 then 48 + lo else 65 + lo - 10)]))"

fun ngx_escape_json :: "ngx_str \<Rightarrow> ngx_str" where
  "ngx_escape_json [] = []"
| "ngx_escape_json (ch # src) = json_byte ch @ ngx_escape_json src"

section \<open>The contract of an escaper\<close>

locale byte_escaper =
  fixes esc :: "u8 \<Rightarrow> ngx_str"
    and run :: "ngx_str \<Rightarrow> ngx_str"
    and extra :: "ngx_str \<Rightarrow> nat"
  assumes run_Nil: "run [] = []"
    and run_Cons: "run (c # s) = esc c @ run s"
    and extra_Nil: "extra [] = 0"
    and extra_Cons: "extra (c # s) = (length (esc c) - 1) + extra s"
    and esc_nonempty: "esc c \<noteq> []"
begin

lemma run_concat: "run s = concat (map esc s)"
  by (induction s) (simp_all add: run_Nil run_Cons)

lemma run_append: "run (s @ t) = run s @ run t"
  by (simp add: run_concat)

text \<open>What the two calls promise each other: the second writes as many bytes as the first announced.\<close>

lemma run_length: "length (run s) = length s + extra s"
proof (induction s)
  case (Cons c s)
  have "0 < length (esc c)" using esc_nonempty by simp
  with Cons show ?case by (simp add: run_Cons extra_Cons)
qed (simp add: run_Nil extra_Nil)

lemma run_all:
  assumes "\<And>c x. x \<in> set (esc c) \<Longrightarrow> P x" "x \<in> set (run s)"
  shows "P x"
  using assms by (auto simp: run_concat)

end

section \<open>The escapers meet it\<close>

definition uri_byte :: "escape_type \<Rightarrow> u8 \<Rightarrow> ngx_str" where
  "uri_byte ty c = (if must_escape ty c
     then [chr CHR ''%'', HEX_char (drop_bit 4 c), HEX_char (c AND 0xf)] else [c])"

definition html_byte :: "u8 \<Rightarrow> ngx_str" where
  "html_byte ch =
     (if ch = chr CHR ''<'' then bytes ''&lt;''
      else if ch = chr CHR ''>'' then bytes ''&gt;''
      else if ch = chr CHR ''&'' then bytes ''&amp;''
      else if ch = 34 then bytes ''&quot;''
      else [ch])"

interpretation uri: byte_escaper "uri_byte ty" "ngx_escape_uri ty"
  "\<lambda>s. 2 * ngx_escape_uri_count ty s" for ty
  by standard (auto simp: uri_byte_def)

interpretation html: byte_escaper html_byte ngx_escape_html html_extra
  by standard (auto simp: html_byte_def)

interpretation json: byte_escaper json_byte ngx_escape_json json_extra
  by standard (auto simp: json_byte_def Let_def not_less)

section \<open>Round trip through a URI\<close>

lemma nibble_table:
  "list_all (\<lambda>k. unescape_quoted (HEX_char (word_of_int k))
      = ([], Some (sw_quoted_second (word_of_int k) (HEX_char (word_of_int k))))
    \<and> (\<forall>hi x. unescape_second 0 hi x (HEX_char (word_of_int k))
      = ([push_bit 4 hi + word_of_int k], Some sw_usual))) [0..15]"
  by (simp add: upto_rec1 unescape_quoted_def unescape_second_def HEX_char_def)

lemma byte_low_nibble_lt: "uint ((c::u8) AND 0xf) < 16" "uint (drop_bit 4 (c::u8)) < 16"
proof -
  have "uint c AND 15 = take_bit 4 (uint c)" by (simp add: take_bit_eq_mask mask_eq_exp_minus_1)
  then show "uint (c AND 0xf) < 16" by (simp add: uint_and take_bit_eq_mod)
  show "uint (drop_bit 4 c) < 16"
    using byte_uint_range [of c] by (simp add: uint_div drop_bit_eq_div int_div_less_iff)
qed

lemma nibble_cases:
  assumes "uint (n::u8) < 16"
  shows "unescape_quoted (HEX_char n) = ([], Some (sw_quoted_second n (HEX_char n)))"
    and "unescape_second 0 hi x (HEX_char n) = ([push_bit 4 hi + n], Some sw_usual)"
  using byte_table [OF nibble_table, of n] assms by auto

lemma join_nibbles: "push_bit 4 (drop_bit 4 c) + (c AND 0xf) = (c::u8)"
proof -
  have "c AND 0xf = take_bit 4 c" by (simp add: take_bit_eq_mask mask_eq_exp_minus_1)
  moreover have "push_bit 4 (drop_bit 4 c) + take_bit 4 c = c" by (rule bits_ident)
  ultimately show ?thesis by simp
qed

lemma percent_escaped: "ty \<noteq> NGX_ESCAPE_REFRESH \<Longrightarrow> must_escape ty (chr CHR ''%'')"
  by (cases ty) (simp_all add: must_escape_def escape_map_uri_def escape_map_args_def
    escape_map_uri_component_def escape_map_html_def escape_map_memcached_def)

lemma unescape_byte:
  assumes "ty \<noteq> NGX_ESCAPE_REFRESH"
  shows "unescape_loop 0 sw_usual (uri_byte ty c @ s) =
    (case unescape_loop 0 sw_usual s of (d, rest) \<Rightarrow> (c # d, rest))"
proof (cases "must_escape ty c")
  case True
  show ?thesis
    using nibble_cases(1) [OF byte_low_nibble_lt(2) [of c]]
      nibble_cases(2) [OF byte_low_nibble_lt(1) [of c], of "drop_bit 4 c" "HEX_char (drop_bit 4 c)"]
    by (simp add: uri_byte_def True unescape_usual_def join_nibbles split: prod.split)
next
  case False
  then have "c \<noteq> chr CHR ''%''" using percent_escaped [OF assms] by auto
  with False show ?thesis
    by (simp add: uri_byte_def unescape_usual_def split: prod.split)
qed

lemma unescape_escape:
  assumes "ty \<noteq> NGX_ESCAPE_REFRESH"
  shows "ngx_unescape_uri (ngx_escape_uri ty s) 0 = (s, [])"
proof -
  have "unescape_loop 0 sw_usual (ngx_escape_uri ty s) = (s, [])"
  proof (induction s)
    case (Cons c s)
    then show ?case by (simp add: uri.run_Cons unescape_byte [OF assms] del: ngx_escape_uri.simps)
  qed simp
  then show ?thesis by (simp add: ngx_unescape_uri_def)
qed

section \<open>What the bit maps say\<close>

text \<open>
  The comments of the code: the bytes RFC 3986 does not allow, and the ones each map
  adds.
\<close>

definition never_in_uri :: "u8 \<Rightarrow> bool" where
  "never_in_uri c \<longleftrightarrow> c \<le> 0x20 \<or> 0x7f \<le> c \<or> c \<in> {34, chr CHR ''<'', chr CHR ''>'', 92,
     chr CHR ''^'', 96, chr CHR ''{'', chr CHR ''|'', chr CHR ''}''}"

definition unreserved :: "u8 \<Rightarrow> bool" where
  "unreserved c \<longleftrightarrow> (chr CHR ''a'' \<le> c \<and> c \<le> chr CHR ''z'') \<or> (chr CHR ''A'' \<le> c \<and> c \<le> chr CHR ''Z'')
     \<or> (chr CHR ''0'' \<le> c \<and> c \<le> chr CHR ''9'') \<or> c \<in> set (bytes ''-._~'')"

fun documented_escape :: "escape_type \<Rightarrow> u8 \<Rightarrow> bool" where
  "documented_escape NGX_ESCAPE_URI c \<longleftrightarrow> never_in_uri c \<or> c \<in> set (bytes '' #%?'')"
| "documented_escape NGX_ESCAPE_ARGS c \<longleftrightarrow> never_in_uri c \<or> c \<in> set (bytes '' #%&+;?'')"
| "documented_escape NGX_ESCAPE_URI_COMPONENT c \<longleftrightarrow> \<not> unreserved c"
| "documented_escape NGX_ESCAPE_HTML c \<longleftrightarrow> never_in_uri c \<or> c \<in> set (bytes '' #%'') \<or> c = 34 \<or> c = 39"
| "documented_escape NGX_ESCAPE_REFRESH c \<longleftrightarrow> never_in_uri c \<or> c = 34 \<or> c = 39"
| "documented_escape NGX_ESCAPE_MEMCACHED c \<longleftrightarrow> c \<le> 0x20 \<or> c = chr CHR ''%''"
| "documented_escape NGX_ESCAPE_MAIL_AUTH c \<longleftrightarrow> c \<le> 0x20 \<or> c = chr CHR ''%''"

lemma escape_table_uri: "must_escape NGX_ESCAPE_URI c = documented_escape NGX_ESCAPE_URI c"
proof -
  have "\<forall>c. must_escape NGX_ESCAPE_URI c = documented_escape NGX_ESCAPE_URI c"
    unfolding all_byte
    by (simp add: upto_rec1 must_escape_def escape_map_uri_def never_in_uri_def)
  then show ?thesis by blast
qed

lemma escape_table_args: "must_escape NGX_ESCAPE_ARGS c = documented_escape NGX_ESCAPE_ARGS c"
proof -
  have "\<forall>c. must_escape NGX_ESCAPE_ARGS c = documented_escape NGX_ESCAPE_ARGS c"
    unfolding all_byte
    by (simp add: upto_rec1 must_escape_def escape_map_args_def never_in_uri_def)
  then show ?thesis by blast
qed

lemma escape_table_uri_component: "must_escape NGX_ESCAPE_URI_COMPONENT c = documented_escape NGX_ESCAPE_URI_COMPONENT c"
proof -
  have "\<forall>c. must_escape NGX_ESCAPE_URI_COMPONENT c = documented_escape NGX_ESCAPE_URI_COMPONENT c"
    unfolding all_byte
    by (simp add: upto_rec1 must_escape_def escape_map_uri_component_def unreserved_def word_le_def)
  then show ?thesis by blast
qed

lemma escape_table_html: "must_escape NGX_ESCAPE_HTML c = documented_escape NGX_ESCAPE_HTML c"
proof -
  have "\<forall>c. must_escape NGX_ESCAPE_HTML c = documented_escape NGX_ESCAPE_HTML c"
    unfolding all_byte
    by (simp add: upto_rec1 must_escape_def escape_map_html_def never_in_uri_def)
  then show ?thesis by blast
qed

lemma escape_table_memcached: "must_escape NGX_ESCAPE_MEMCACHED c = documented_escape NGX_ESCAPE_MEMCACHED c"
proof -
  have "\<forall>c. must_escape NGX_ESCAPE_MEMCACHED c = documented_escape NGX_ESCAPE_MEMCACHED c"
    unfolding all_byte
    by (simp add: upto_rec1 must_escape_def escape_map_memcached_def )
  then show ?thesis by blast
qed

lemma escape_table:
  "ty \<noteq> NGX_ESCAPE_REFRESH \<Longrightarrow> must_escape ty c = documented_escape ty c"
proof (cases ty)
  case NGX_ESCAPE_MAIL_AUTH
  then show ?thesis using escape_table_memcached [of c] by (simp add: must_escape_def)
qed (simp_all only: escape_table_uri escape_table_args escape_table_uri_component
    escape_table_html escape_table_memcached simp_thms)

text \<open>The map for refresh headers leaves \<open>}\<close> alone and escapes the unreserved \<open>~\<close>.\<close>

lemma refresh_divergence:
  "\<not> must_escape NGX_ESCAPE_REFRESH (chr CHR ''}'')" "documented_escape NGX_ESCAPE_REFRESH (chr CHR ''}'')"
  "must_escape NGX_ESCAPE_REFRESH (chr CHR ''~'')" "\<not> documented_escape NGX_ESCAPE_REFRESH (chr CHR ''~'')"
  by (simp_all add: must_escape_def escape_map_refresh_def never_in_uri_def)

section \<open>What the output may hold\<close>

lemma html_safe: "x \<in> set (ngx_escape_html s) \<Longrightarrow> x \<notin> {chr CHR ''<'', chr CHR ''>'', 34}"
  by (erule html.run_all [rotated]) (auto simp: html_byte_def split: if_splits)

text \<open>A reference decoder for the escapes of a JSON string; \<open>None\<close> for what may not stand in one.\<close>

fun json_string :: "ngx_str \<Rightarrow> ngx_str option" where
  "json_string [] = Some []"
| "json_string (c # s) =
     (if c \<noteq> 92 then (if c < 0x20 \<or> c = 34 then None else map_option ((#) c) (json_string s))
      else case s of
        [] \<Rightarrow> None
      | e # s' \<Rightarrow>
          if e = 34 \<or> e = 92 then map_option ((#) e) (json_string s')
          else if e = chr CHR ''b'' then map_option ((#) 8) (json_string s')
          else if e = chr CHR ''f'' then map_option ((#) 12) (json_string s')
          else if e = chr CHR ''n'' then map_option ((#) 10) (json_string s')
          else if e = chr CHR ''r'' then map_option ((#) 13) (json_string s')
          else if e = chr CHR ''t'' then map_option ((#) 9) (json_string s')
          else if e = chr CHR ''u'' then
            (case s' of
               h1 # h2 # h3 # h4 # t \<Rightarrow>
                 (case radix_value 16 hex_dig 0 [h1, h2, h3, h4] of
                    None \<Rightarrow> None
                  | Some v \<Rightarrow> if v < 128 then map_option ((#) (word_of_int v)) (json_string t) else None)
             | _ \<Rightarrow> None)
          else None)"

lemma json_string_byte: "json_string (json_byte c @ s) = map_option ((#) c) (json_string s)"
proof (cases "0x1f < c")
  case True
  then have "\<not> c < 0x20" by (simp add: word_less_def)
  with True show ?thesis by (simp add: json_byte_def)
next
  case False
  have "list_all (\<lambda>i. \<forall>s. json_string (json_byte (word_of_int i) @ s)
      = map_option ((#) (word_of_int i)) (json_string s)) [0..31]"
    by (simp add: upto_rec1 json_byte_def hex_dig_def is_digit_def digit_of_def)
  moreover have "uint c \<le> 31" using False by (simp add: word_less_def)
  ultimately show ?thesis
    using byte_table [of "\<lambda>c. \<forall>s. json_string (json_byte c @ s) = map_option ((#) c) (json_string s)"]
    by blast
qed

lemma json_round_trip: "json_string (ngx_escape_json s) = Some s"
  by (induction s) (simp_all add: json_string_byte del: json_string.simps(2))

section \<open>Properties\<close>

text \<open>C38: Unescaping what \<^verbatim>\<open>ngx_escape_uri\<close> wrote returns the source, for every type whose
  table escapes the percent sign (all but \<^verbatim>\<open>NGX_ESCAPE_REFRESH\<close>), and the escaped text is
  longer by exactly two bytes for each byte that the counting call with a null destination reported.\<close>

theorem escape_round_trip:
  assumes "ty \<noteq> NGX_ESCAPE_REFRESH"
  shows "ngx_unescape_uri (ngx_escape_uri ty s) 0 = (s, [])
    \<and> length (ngx_escape_uri ty s) = length s + 2 * ngx_escape_uri_count ty s"
  using unescape_escape [OF assms] uri.run_length [of ty s] by simp

theorem escape_round_trip_witness:
  "ngx_unescape_uri (ngx_escape_uri NGX_ESCAPE_ARGS (bytes ''a b%&'')) 0 = (bytes ''a b%&'', [])"
  using escape_round_trip [of NGX_ESCAPE_ARGS "bytes ''a b%&''"] by simp

text \<open>The bit maps of \<^verbatim>\<open>ngx_escape_uri\<close> are the sets their comments name: membership in the
  packed table agrees with the documented set for every byte and every type but
  \<^verbatim>\<open>NGX_ESCAPE_REFRESH\<close>, whose last word leaves the right brace out and puts the tilde in.\<close>

theorem escape_maps_documented:
  "(ty \<noteq> NGX_ESCAPE_REFRESH \<longrightarrow> must_escape ty c = documented_escape ty c)
    \<and> (must_escape NGX_ESCAPE_REFRESH (chr CHR ''}'') \<noteq> documented_escape NGX_ESCAPE_REFRESH (chr CHR ''}''))
    \<and> (must_escape NGX_ESCAPE_REFRESH (chr CHR ''~'') \<noteq> documented_escape NGX_ESCAPE_REFRESH (chr CHR ''~''))"
  using escape_table [of ty c] refresh_divergence by blast

theorem escape_maps_documented_witness:
  "must_escape NGX_ESCAPE_URI (chr CHR ''?'') = documented_escape NGX_ESCAPE_URI (chr CHR ''?'')"
  using escape_maps_documented [of NGX_ESCAPE_URI "chr CHR ''?''"] by simp

text \<open>A JSON reader (of the two-character escapes and of \<^verbatim>\<open>\u00XX\<close>) recovers the source from
  what \<^verbatim>\<open>ngx_escape_json\<close> wrote, and the text is longer than the source by exactly what the
  counting call returns.\<close>

theorem escape_json_round_trip:
  "json_string (ngx_escape_json s) = Some s \<and> length (ngx_escape_json s) = length s + json_extra s"
  by (simp only: json_round_trip json.run_length simp_thms)

end
