(* ===== verification/Ngx_Utf8.thy ===== *)
theory Ngx_Utf8
  imports Ngx_Prelude
begin

text \<open>
  UTF-8: \<^verbatim>\<open>ngx_utf8_decode\<close>, \<^verbatim>\<open>ngx_utf8_length\<close> and \<^verbatim>\<open>ngx_utf8_cpystrn\<close> of
  \<^verbatim>\<open>core/ngx_string.c\<close>.  Every caller has at least one byte, so the decoder takes the
  first byte and the \<open>n - 1\<close> bytes after it; it returns the 32-bit result and by how
  many bytes it moved the pointer.
\<close>

section \<open>The decoder\<close>

fun utf8_tail :: "u32 \<Rightarrow> nat \<Rightarrow> ngx_str \<Rightarrow> nat \<Rightarrow> (u32 + u32) \<times> nat" where
  "utf8_tail u 0 p moved = (Inr u, moved)"
| "utf8_tail u (Suc len) [] moved = (Inl 0xffffffff, moved)"
| "utf8_tail u (Suc len) (b # p) moved =
     (if b < 0x80 then (Inl 0xffffffff, Suc moved)
      else utf8_tail (push_bit 6 u OR (ucast b AND 0x3f)) len p (Suc moved))"

text \<open>The second equation of \<open>utf8_tail\<close> is not reached: \<open>n - 1 < len\<close> is tested first.\<close>

definition ngx_utf8_decode :: "u8 \<Rightarrow> ngx_str \<Rightarrow> u32 \<times> nat" where
  "ngx_utf8_decode c p =
     (let u = ucast c :: u32 in
      if 0xf8 \<le> u then (0xffffffff, 1)
      else case (if 0xf0 \<le> u then Some (u AND 0x07, 0xffff, 3)
                 else if 0xe0 \<le> u then Some (u AND 0x0f, 0x7ff, 2)
                 else if 0xc2 \<le> u then Some (u AND 0x1f, 0x7f, 1)
                 else None) of
        None \<Rightarrow> (0xffffffff, 1)
      | Some (u, valid, len) \<Rightarrow>
          if length p < len then (0xfffffffe, 0)
          else case utf8_tail u len p 1 of
            (Inl e, moved) \<Rightarrow> (e, moved)
          | (Inr u, moved) \<Rightarrow> (if valid < u then u else 0xffffffff, moved))"

section \<open>Counting and copying\<close>

function utf8_count :: "nat \<Rightarrow> ngx_str \<Rightarrow> nat option" where
  "utf8_count len [] = Some len"
| "utf8_count len (c # p) =
     (if c < 0x80 then utf8_count (Suc len) p
      else case ngx_utf8_decode c p of
        (u, moved) \<Rightarrow> if 0x10ffff < u then None
                       else utf8_count (Suc len) (drop moved (c # p)))"
  by pat_completeness auto

lemma utf8_tail_moved: "utf8_tail u len p m = (r, m') \<Longrightarrow> m \<le> m' \<and> m' \<le> m + len \<and> m' \<le> m + length p"
  by (induction u len p m rule: utf8_tail.induct) (auto split: if_splits)

lemma utf8_tail_full: "utf8_tail u len p m = (Inr v, m') \<Longrightarrow> m' = m + len"
  by (induction u len p m rule: utf8_tail.induct) (auto split: if_splits)

lemma utf8_decode_moved:
  assumes "ngx_utf8_decode c p = (u, moved)"
  shows "moved \<le> Suc (length p)" and "moved \<le> 4" and "u \<noteq> 0xfffffffe \<Longrightarrow> 0 < moved"
  using assms
  by (auto simp: ngx_utf8_decode_def Let_def split: if_splits prod.splits sum.splits option.splits
    dest!: utf8_tail_moved)

lemma length_drop_moved:
  assumes "ngx_utf8_decode c p = (u, moved)" "\<not> 0x10ffff < u"
  shows "length (drop moved (c # p)) < Suc (length p)"
proof -
  have "u \<noteq> 0xfffffffe" using assms(2) by auto
  with assms(1) have "0 < moved" by (rule utf8_decode_moved(3))
  then show ?thesis by (cases moved) simp_all
qed

termination utf8_count
  by (relation "measure (\<lambda>(len, p). length p)")
     (auto dest!: length_drop_moved [OF sym] simp del: length_drop)

definition ngx_utf8_length :: "ngx_str \<Rightarrow> nat" where
  "ngx_utf8_length p = (case utf8_count 0 p of None \<Rightarrow> length p | Some len \<Rightarrow> len)"

text \<open>
  \<^verbatim>\<open>ngx_utf8_cpystrn\<close> copies up to \<open>n - 1\<close> characters and the final zero; the result is
  what it leaves at \<^verbatim>\<open>dst\<close>.  The source is null terminated and \<open>len\<close>, its length with
  the zero, is the length of the list here; on a byte that is not the start of a valid
  character the copy stops.
\<close>

fun utf8_copy :: "nat \<Rightarrow> ngx_str \<Rightarrow> ngx_str" where
  "utf8_copy 0 src = [0]"
| "utf8_copy (Suc n) [] = [0]"
| "utf8_copy (Suc n) (c # src) =
     (if c < 0x80 then (if c \<noteq> 0 then c # utf8_copy n src else [c])
      else case ngx_utf8_decode c src of
        (u, moved) \<Rightarrow> if 0x10ffff < u then [0]
                       else take moved (c # src) @ utf8_copy n (drop moved (c # src)))"

definition ngx_utf8_cpystrn :: "ngx_str \<Rightarrow> nat \<Rightarrow> ngx_str" where
  "ngx_utf8_cpystrn src n = (if n = 0 then [] else utf8_copy (n - 1) src)"

section \<open>Encoding, for the specification\<close>

definition utf8_encode :: "nat \<Rightarrow> ngx_str" where
  "utf8_encode u =
     (if u < 0x80 then [word_of_nat u]
      else if u < 0x800 then [word_of_nat (0xc0 + u div 64), word_of_nat (0x80 + u mod 64)]
      else if u < 0x10000 then
        [word_of_nat (0xe0 + u div 4096), word_of_nat (0x80 + u div 64 mod 64), word_of_nat (0x80 + u mod 64)]
      else [word_of_nat (0xf0 + u div 262144), word_of_nat (0x80 + u div 4096 mod 64),
            word_of_nat (0x80 + u div 64 mod 64), word_of_nat (0x80 + u mod 64)])"

lemma unat_byte_of_nat: "n < 256 \<Longrightarrow> unat (word_of_nat n :: u8) = n"
  by (simp add: unsigned_of_nat take_bit_nat_eq_self)

lemma unat_u32_of_nat: "n < 2 ^ 32 \<Longrightarrow> unat (word_of_nat n :: u32) = n"
  by (simp add: unsigned_of_nat take_bit_nat_eq_self)

text \<open>One step of the tail on numbers: shift by six and put the six bits of the byte in.\<close>

lemma and_low_bits:
  fixes w :: u32
  shows "w AND 0x3f = word_of_nat (unat w mod 64)" "w AND 0x1f = word_of_nat (unat w mod 32)"
    "w AND 0x0f = word_of_nat (unat w mod 16)" "w AND 0x07 = word_of_nat (unat w mod 8)"
proof -
  have mod: "take_bit n w = word_of_nat (unat w mod 2 ^ n)" for n
  proof -
    have "unat (take_bit n w) = take_bit n (unat w)" by (rule unsigned_take_bit_eq)
    then have "unat (take_bit n w) = unat w mod 2 ^ n" by (simp only: take_bit_eq_mod [of n "unat w"])
    moreover have "take_bit n w = word_of_nat (unat (take_bit n w))" by simp
    ultimately show ?thesis by simp
  qed
  have mask: "w AND 0x3f = take_bit 6 w" "w AND 0x1f = take_bit 5 w"
    "w AND 0x0f = take_bit 4 w" "w AND 0x07 = take_bit 3 w"
    by (simp_all add: take_bit_eq_mask mask_eq_exp_minus_1)
  show "w AND 0x3f = word_of_nat (unat w mod 64)" "w AND 0x1f = word_of_nat (unat w mod 32)"
    "w AND 0x0f = word_of_nat (unat w mod 16)" "w AND 0x07 = word_of_nat (unat w mod 8)"
    unfolding mask mod by simp_all
qed

lemma and_63_take: "(w::u32) AND 0x3f = take_bit 6 w"
  by (simp add: take_bit_eq_mask mask_eq_exp_minus_1)

lemma ucast_byte: "n < 256 \<Longrightarrow> (ucast (word_of_nat n :: u8) :: u32) = word_of_nat n"
  by (simp add: word_unat_eq_iff unsigned_ucast_eq unsigned_of_nat take_bit_nat_eq_self)

lemma shift_six:
  assumes "b < 64"
  shows "push_bit 6 (word_of_nat k) OR (ucast (word_of_nat (0x80 + b) :: u8) AND 0x3f) = (word_of_nat (k * 64 + b) :: u32)"
proof -
  let ?x = "ucast (word_of_nat (0x80 + b) :: u8) AND 0x3f :: u32"
  have b: "(0x80 + b) mod 64 = b" using assms mod_mult_self4 [of 64 2 b] by simp
  have "0x80 + b < 256" "0x80 + b < 2 ^ 32" using assms by simp_all
  then have "unat (ucast (word_of_nat (0x80 + b) :: u8) :: u32) = 0x80 + b"
    by (simp only: ucast_byte unat_u32_of_nat)
  then have x: "?x = word_of_nat b" by (simp only: and_low_bits(1) b)
  have "push_bit 6 (word_of_nat k) AND ?x = 0"
    unfolding and_63_take by (rule bit_word_eqI) (auto simp: bit_simps)
  then have "push_bit 6 (word_of_nat k) OR ?x = push_bit 6 (word_of_nat k) + ?x"
    by (simp only: disjunctive_add_eq_or)
  also have "\<dots> = word_of_nat (k * 64 + b)"
    unfolding x by (simp add: push_bit_eq_mult)
  finally show ?thesis .
qed

lemma tail_byte_not_ascii: "b < 64 \<Longrightarrow> \<not> (word_of_nat (0x80 + b) :: u8) < 0x80"
  by (simp add: word_less_nat_alt unat_byte_of_nat del: of_nat_add)

lemma utf8_tail_step:
  "b < 64 \<Longrightarrow> utf8_tail (word_of_nat k) (Suc n) (word_of_nat (0x80 + b) # p) m
    = utf8_tail (word_of_nat (k * 64 + b)) n p (Suc m)"
  by (simp add: shift_six tail_byte_not_ascii del: of_nat_add of_nat_mult)

lemma lead_byte:
  assumes "n < 256"
  shows "ngx_utf8_decode (word_of_nat n) p =
    (if 0xf8 \<le> n then (0xffffffff, 1)
     else case (if 0xf0 \<le> n then Some (n mod 8, 0xffff, 3)
                else if 0xe0 \<le> n then Some (n mod 16, 0x7ff, 2)
                else if 0xc2 \<le> n then Some (n mod 32, 0x7f, 1) else None) of
       None \<Rightarrow> (0xffffffff, 1)
     | Some (u, valid, len) \<Rightarrow>
         if length p < len then (0xfffffffe, 0)
         else case utf8_tail (word_of_nat u) len p 1 of
           (Inl e, moved) \<Rightarrow> (e, moved)
         | (Inr u, moved) \<Rightarrow> (if valid < u then u else 0xffffffff, moved))"
  using assms
  by (simp add: ngx_utf8_decode_def ucast_byte Let_def word_le_nat_alt unat_u32_of_nat and_low_bits)

lemma join_six: "u div (n * 64) * 64 + u div n mod 64 = (u div n :: nat)"
  by (simp add: div_mult2_eq)

text \<open>The tail of one, two and three bytes.\<close>

lemma utf8_tail_bytes:
  "utf8_tail (word_of_nat (u div 64)) (Suc 0) (word_of_nat (0x80 + u mod 64) # p) (Suc 0) = (Inr (word_of_nat u), 2)"
  "utf8_tail (word_of_nat (u div 4096)) 2 (word_of_nat (0x80 + u div 64 mod 64)
     # word_of_nat (0x80 + u mod 64) # p) (Suc 0) = (Inr (word_of_nat u), 3)"
  "utf8_tail (word_of_nat (u div 262144)) 3 (word_of_nat (0x80 + u div 4096 mod 64)
     # word_of_nat (0x80 + u div 64 mod 64) # word_of_nat (0x80 + u mod 64) # p) (Suc 0) = (Inr (word_of_nat u), 4)"
proof -
  have lt: "u div n mod 64 < 64" "u mod 64 < 64" for n by simp_all
  have nums: "(2::nat) = Suc (Suc 0)" "(3::nat) = Suc (Suc (Suc 0))" "(4::nat) = Suc (Suc (Suc (Suc 0)))"
    by simp_all
  have join: "u div 64 * 64 + u mod 64 = u" "u div 4096 * 64 + u div 64 mod 64 = u div 64"
    "u div 262144 * 64 + u div 4096 mod 64 = u div 4096"
    using join_six [of u 64] join_six [of u 4096] by simp_all
  note step = utf8_tail_step [OF lt(1)] utf8_tail_step [OF lt(2)]
  show "utf8_tail (word_of_nat (u div 64)) (Suc 0) (word_of_nat (0x80 + u mod 64) # p) (Suc 0) = (Inr (word_of_nat u), 2)"
    by (simp only: step join utf8_tail.simps(1) nums)
  show "utf8_tail (word_of_nat (u div 4096)) 2 (word_of_nat (0x80 + u div 64 mod 64)
     # word_of_nat (0x80 + u mod 64) # p) (Suc 0) = (Inr (word_of_nat u), 3)"
    by (simp only: step join utf8_tail.simps(1) nums)
  show "utf8_tail (word_of_nat (u div 262144)) 3 (word_of_nat (0x80 + u div 4096 mod 64)
     # word_of_nat (0x80 + u div 64 mod 64) # word_of_nat (0x80 + u mod 64) # p) (Suc 0) = (Inr (word_of_nat u), 4)"
    by (simp only: step join utf8_tail.simps(1) nums)
qed

lemma u32_less_of_nat: "n < u \<Longrightarrow> u < 2 ^ 32 \<Longrightarrow> (word_of_nat n :: u32) < word_of_nat u"
  by (simp add: word_less_nat_alt unat_u32_of_nat)

lemma decode_encode_2:
  assumes "0x80 \<le> u" "u < 0x800"
  shows "ngx_utf8_decode (word_of_nat (0xc0 + u div 64)) (word_of_nat (0x80 + u mod 64) # p) = (word_of_nat u, 2)"
proof -
  have d: "2 \<le> u div 64" "u div 64 < 32" using assms by simp_all
  have mod: "(0xc0 + u div 64) mod 32 = u div 64" using d(2) mod_mult_self4 [of 32 6 "u div 64"] by simp
  have valid: "(0x7f :: u32) < word_of_nat u" using u32_less_of_nat [of 127 u] assms by simp
  have byte: "0xc0 + u div 64 < 256" using d by simp
  show ?thesis
    using d by (simp only: lead_byte [OF byte] mod)
      (simp add: utf8_tail_bytes valid del: utf8_tail.simps of_nat_add)
qed

lemma decode_encode_3:
  assumes "0x800 \<le> u" "u < 0x10000"
  shows "ngx_utf8_decode (word_of_nat (0xe0 + u div 4096))
    (word_of_nat (0x80 + u div 64 mod 64) # word_of_nat (0x80 + u mod 64) # p) = (word_of_nat u, 3)"
proof -
  have d: "u div 4096 < 16" using assms by simp
  have mod: "(0xe0 + u div 4096) mod 16 = u div 4096"
    using d mod_mult_self4 [of 16 14 "u div 4096"] by simp
  have valid: "(0x7ff :: u32) < word_of_nat u" using u32_less_of_nat [of 2047 u] assms by simp
  have byte: "0xe0 + u div 4096 < 256" using d by simp
  show ?thesis
    using d by (simp only: lead_byte [OF byte] mod)
      (simp add: utf8_tail_bytes valid del: utf8_tail.simps of_nat_add)
qed

lemma decode_encode_4:
  assumes "0x10000 \<le> u" "u < 0x110000"
  shows "ngx_utf8_decode (word_of_nat (0xf0 + u div 262144)) (word_of_nat (0x80 + u div 4096 mod 64)
    # word_of_nat (0x80 + u div 64 mod 64) # word_of_nat (0x80 + u mod 64) # p) = (word_of_nat u, 4)"
proof -
  have d: "u div 262144 < 5" using assms by simp
  have mod: "(0xf0 + u div 262144) mod 8 = u div 262144"
    using d mod_mult_self4 [of 8 30 "u div 262144"] by simp
  have valid: "(0xffff :: u32) < word_of_nat u" using u32_less_of_nat [of 65535 u] assms by simp
  have byte: "0xf0 + u div 262144 < 256" using d by simp
  show ?thesis
    using d by (simp only: lead_byte [OF byte] mod)
      (simp add: utf8_tail_bytes valid del: utf8_tail.simps of_nat_add)
qed

text \<open>One character of an encoded text: an ASCII byte, or a lead byte that decodes.\<close>

lemma encode_cases:
  assumes "u < 0x110000"
  obtains (ascii) c where "utf8_encode u = [c]" "c < 0x80" "unat c = u"
  | (multi) c t where "utf8_encode u = c # t" "\<not> c < 0x80" "0x80 \<le> u"
      "\<And>p. ngx_utf8_decode c (t @ p) = (word_of_nat u, Suc (length t))"
proof -
  have lead: "\<not> (word_of_nat n :: u8) < 0x80" if "0x80 \<le> n" "n < 256" for n
    using that by (simp add: word_less_nat_alt unat_byte_of_nat)
  have d: "u div 262144 < 5" "u < 0x800 \<Longrightarrow> u div 64 < 32" "u < 0x10000 \<Longrightarrow> u div 4096 < 16"
    using assms by simp_all
  consider "u < 0x80" | "0x80 \<le> u" "u < 0x800" | "0x800 \<le> u" "u < 0x10000" | "0x10000 \<le> u"
    by linarith
  then show thesis
  proof cases
    case 1
    then show thesis
      by (intro ascii [of "word_of_nat u"]) (simp_all add: utf8_encode_def word_less_nat_alt unat_byte_of_nat)
  next
    case 2
    then show thesis
      using d(2) decode_encode_2 [OF 2] lead [of "0xc0 + u div 64"]
      by (intro multi [of "word_of_nat (0xc0 + u div 64)" "[word_of_nat (0x80 + u mod 64)]"]) (simp_all add: utf8_encode_def del: of_nat_add)
  next
    case 3
    then show thesis
      using d(3) decode_encode_3 [OF 3] lead [of "0xe0 + u div 4096"]
      by (intro multi [of "word_of_nat (0xe0 + u div 4096)"
        "[word_of_nat (0x80 + u div 64 mod 64), word_of_nat (0x80 + u mod 64)]"]) (simp_all add: utf8_encode_def del: of_nat_add)
  next
    case 4
    then show thesis
      using d(1) decode_encode_4 [OF 4 assms] lead [of "0xf0 + u div 262144"]
      by (intro multi [of "word_of_nat (0xf0 + u div 262144)" "[word_of_nat (0x80 + u div 4096 mod 64),
        word_of_nat (0x80 + u div 64 mod 64), word_of_nat (0x80 + u mod 64)]"]) (simp_all add: utf8_encode_def del: of_nat_add)
  qed
qed

lemma u32_code_point: "u < 0x110000 \<Longrightarrow> \<not> 0x10ffff < (word_of_nat u :: u32)"
  by (simp add: word_less_nat_alt unat_u32_of_nat)

lemma utf8_count_encode:
  assumes "u < 0x110000"
  shows "utf8_count len (utf8_encode u @ p) = utf8_count (Suc len) p"
  using assms by (cases rule: encode_cases) (simp_all add: u32_code_point [OF assms])

lemma utf8_copy_encode:
  assumes "u < 0x110000" "u \<noteq> 0"
  shows "utf8_copy (Suc n) (utf8_encode u @ p) = utf8_encode u @ utf8_copy n p"
  using assms(1)
proof (cases rule: encode_cases)
  case (ascii c)
  then have "c \<noteq> 0" using assms(2) by auto
  with ascii show ?thesis by simp
qed (simp add: u32_code_point [OF assms(1)])

lemma utf8_length_encode:
  assumes "\<forall>u\<in>set us. u < 0x110000"
  shows "ngx_utf8_length (concat (map utf8_encode us)) = length us"
proof -
  have "utf8_count len (concat (map utf8_encode us)) = Some (len + length us)" for len
    using assms by (induction us arbitrary: len) (simp_all add: utf8_count_encode)
  then show ?thesis by (simp add: ngx_utf8_length_def)
qed

lemma utf8_cpystrn_encode:
  assumes "\<forall>u\<in>set us. u < 0x110000 \<and> u \<noteq> 0" "0 < n"
  shows "ngx_utf8_cpystrn (concat (map utf8_encode us) @ [0]) n
    = concat (map utf8_encode (take (n - 1) us)) @ [0]"
proof -
  have "utf8_copy m (concat (map utf8_encode us) @ [0]) = concat (map utf8_encode (take m us)) @ [0]" for m
    using assms(1)
  proof (induction us arbitrary: m)
    case Nil
    then show ?case by (cases m) simp_all
  next
    case (Cons u us)
    then show ?case by (cases m) (simp_all add: utf8_copy_encode del: utf8_copy.simps(3))
  qed
  with assms(2) show ?thesis by (simp add: ngx_utf8_cpystrn_def)
qed

text \<open>
  The decoder only tests that a continuation byte is at least \<open>0x80\<close>, so it takes
  sequences that are not UTF-8, with a result in the range documented as valid.
\<close>

lemma utf8_lax: "ngx_utf8_decode 0xc2 [0xff] = (0xbf, 2)" "ngx_utf8_decode 0xed [0xa0, 0x80] = (0xd800, 3)"
  by code_simp+

section \<open>Properties\<close>

text \<open>On the UTF-8 encoding of code points below 0x110000 other than zero,
  \<^verbatim>\<open>ngx_utf8_length\<close> counts the code points and \<^verbatim>\<open>ngx_utf8_cpystrn\<close> copies as many whole
  code points as the limit leaves room for, and the final zero: it never cuts a sequence.\<close>

theorem utf8_count_and_copy:
  assumes "\<forall>u\<in>set us. u < 0x110000 \<and> u \<noteq> 0" "0 < n"
  shows "ngx_utf8_length (concat (map utf8_encode us)) = length us
    \<and> ngx_utf8_cpystrn (concat (map utf8_encode us) @ [0]) n
        = concat (map utf8_encode (take (n - 1) us)) @ [0]"
  using assms utf8_length_encode [of us] utf8_cpystrn_encode [of us n] by simp

theorem utf8_count_and_copy_witness:
  "ngx_utf8_cpystrn (concat (map utf8_encode [0x20ac, 0x41]) @ [0]) 2 = utf8_encode 0x20ac @ [0]"
  using utf8_count_and_copy [of "[0x20ac, 0x41]" 2] by simp

end
