(* ===== verification/Ngx_Sprintf.thy ===== *)
theory Ngx_Sprintf
  imports Ngx_Number
begin

text \<open>
  The formatter \<^verbatim>\<open>ngx_vslprintf\<close> of \<^verbatim>\<open>core/ngx_string.c\<close> with \<^verbatim>\<open>ngx_sprintf_str\<close>:
  the scanner of a conversion, the \<^verbatim>\<open>switch\<close> over it, and the loop over the format.
  \<open>room\<close> is \<^verbatim>\<open>last - buf\<close> and the result the bytes written from \<^verbatim>\<open>buf\<close> on.  The
  variable arguments are a list; \<open>None\<close> is a call C leaves undefined: an argument that
  is missing or of another type than the conversion reads, or a format that ends inside
  a conversion.  Floating point arithmetic is not modelled: a \<^verbatim>\<open>double\<close> comes with its
  sign, its integral part and its rounded fraction for each number of digits.
\<close>

section \<open>Arguments and conversions\<close>

datatype vararg =
    Arg32 u32                                  \<comment> \<open>\<^verbatim>\<open>int\<close>, \<^verbatim>\<open>u_int\<close>, \<^verbatim>\<open>int32_t\<close>, \<^verbatim>\<open>uint32_t\<close>\<close>
  | Arg64 u64                                  \<comment> \<open>the 64-bit integers and \<^verbatim>\<open>void *\<close>\<close>
  | ArgStr ngx_str                             \<comment> \<open>\<^verbatim>\<open>ngx_str_t *\<close>, \<^verbatim>\<open>ngx_variable_value_t *\<close>\<close>
  | ArgChars ngx_str                           \<comment> \<open>\<^verbatim>\<open>u_char *\<close>: the bytes before the final zero\<close>
  | ArgDouble bool u64 "nat \<Rightarrow> u64 \<times> u64"     \<comment> \<open>negative, integral part, rounded parts by width\<close>

record conv =
  zero :: u8
  width :: nat
  sign :: bool
  hex :: nat
  max_width :: bool
  frac_width :: nat
  slen :: "nat option"

definition NGX_INT_T_LEN :: nat where
  "NGX_INT_T_LEN = 20"

definition NGX_ATOMIC_T_LEN :: nat where
  "NGX_ATOMIC_T_LEN = 20"

fun scan_width :: "nat \<Rightarrow> ngx_str \<Rightarrow> nat \<times> ngx_str" where
  "scan_width w [] = (w, [])"
| "scan_width w (c # fmt) =
     (if is_digit c then scan_width (w * 10 + (unat c - 48)) fmt else (w, c # fmt))"

text \<open>The flags; \<^verbatim>\<open>.\<close> reads its digits and ends the loop.\<close>

fun scan_flags :: "conv \<Rightarrow> ngx_str \<Rightarrow> vararg list \<Rightarrow> (conv \<times> ngx_str \<times> vararg list) option" where
  "scan_flags k [] args = Some (k, [], args)"
| "scan_flags k (c # fmt) args =
     (if c = chr CHR ''u'' then scan_flags (k\<lparr>sign := False\<rparr>) fmt args
      else if c = chr CHR ''m'' then scan_flags (k\<lparr>max_width := True\<rparr>) fmt args
      else if c = chr CHR ''X'' then scan_flags (k\<lparr>hex := 2, sign := False\<rparr>) fmt args
      else if c = chr CHR ''x'' then scan_flags (k\<lparr>hex := 1, sign := False\<rparr>) fmt args
      else if c = chr CHR ''.'' then
        (case scan_width (frac_width k) fmt of (w, fmt') \<Rightarrow> Some (k\<lparr>frac_width := w\<rparr>, fmt', args))
      else if c = chr CHR ''*'' then
        (case args of Arg64 n # args' \<Rightarrow> scan_flags (k\<lparr>slen := Some (unat n)\<rparr>) fmt args' | _ \<Rightarrow> None)
      else Some (k, c # fmt, args))"

definition scan_conv :: "ngx_str \<Rightarrow> vararg list \<Rightarrow> (conv \<times> ngx_str \<times> vararg list) option" where
  "scan_conv fmt args =
     (let z = (if fmt \<noteq> [] \<and> hd fmt = chr CHR ''0'' then chr CHR ''0'' else chr CHR '' '')
      in case scan_width 0 fmt of (w, fmt') \<Rightarrow>
        scan_flags \<lparr>zero = z, width = w, sign = True, hex = 0, max_width = False,
                    frac_width = 0, slen = None\<rparr> fmt' args)"

section \<open>Strings\<close>

fun sprintf_hex :: "(u8 \<Rightarrow> u8) \<Rightarrow> nat \<Rightarrow> ngx_str \<Rightarrow> ngx_str" where
  "sprintf_hex h room [] = []"
| "sprintf_hex h room (c # src) =
     (if 1 < room
      then h (drop_bit 4 c) # h (c AND 0xf) # sprintf_hex h (room - 2) src
      else [])"

text \<open>\<open>None\<close> for \<open>len\<close> is \<^verbatim>\<open>(size_t) -1\<close>: up to the final zero, which the list leaves out.\<close>

definition ngx_sprintf_str :: "nat \<Rightarrow> ngx_str \<Rightarrow> nat option \<Rightarrow> nat \<Rightarrow> ngx_str" where
  "ngx_sprintf_str room src len hexadecimal =
     (let src' = (case len of None \<Rightarrow> src | Some n \<Rightarrow> take n src)
      in if hexadecimal = 0 then take room src'
         else if hexadecimal = 1 then sprintf_hex hex_char room src'
         else sprintf_hex HEX_char room src')"

section \<open>One conversion\<close>

text \<open>\<^verbatim>\<open>buf = ngx_sprintf_num(buf, last, ...)\<close> after \<open>s\<close> has been written.\<close>

definition put_num :: "nat \<Rightarrow> ngx_str \<Rightarrow> u64 \<Rightarrow> u8 \<Rightarrow> nat \<Rightarrow> nat \<Rightarrow> ngx_str" where
  "put_num room s ui64 z h w = s @ ngx_sprintf_num (room - length s) ui64 z h w"

text \<open>The end of the \<^verbatim>\<open>switch\<close>: the sign, then the number.\<close>

definition emit_signed :: "nat \<Rightarrow> conv \<Rightarrow> u64 \<Rightarrow> ngx_str" where
  "emit_signed room k i64 =
     (if sint i64 < 0
      then put_num room [chr CHR ''-''] (- i64) (zero k) (hex k) (width k)
      else put_num room [] i64 (zero k) (hex k) (width k))"

definition emit_unsigned :: "nat \<Rightarrow> conv \<Rightarrow> u64 \<Rightarrow> ngx_str" where
  "emit_unsigned room k ui64 = put_num room [] ui64 (zero k) (hex k) (width k)"

definition emit_num :: "nat \<Rightarrow> conv \<Rightarrow> u64 \<Rightarrow> ngx_str" where
  "emit_num room k v = (if sign k then emit_signed room k v else emit_unsigned room k v)"

definition emit_double :: "nat \<Rightarrow> conv \<Rightarrow> bool \<Rightarrow> u64 \<Rightarrow> (nat \<Rightarrow> u64 \<times> u64) \<Rightarrow> ngx_str" where
  "emit_double room k neg ui64 round =
     (let s = (if neg then [chr CHR ''-''] else []) in
      if frac_width k = 0 then put_num room s ui64 (zero k) 0 (width k)
      else (case round (frac_width k) of (ui, frac) \<Rightarrow>
        let s1 = put_num room s ui (zero k) 0 (width k);
            s2 = s1 @ (if length s1 < room then [chr CHR ''.''] else [])
        in put_num room s2 frac (chr CHR ''0'') 0 (frac_width k)))"

text \<open>The conversions that read an integer: its width, and whether it can be unsigned.\<close>

definition conv_num :: "nat \<Rightarrow> conv \<Rightarrow> u8 \<Rightarrow> vararg \<Rightarrow> ngx_str option" where
  "conv_num room k c arg =
     (case arg of
        Arg64 v \<Rightarrow>
          if c \<in> {chr CHR ''O'', chr CHR ''T'', chr CHR ''r''} then Some (emit_signed room k v)
          else if c = chr CHR ''M'' then
            Some (if v = - 1 then emit_signed room k v else emit_unsigned room k v)
          else if c \<in> {chr CHR ''z'', chr CHR ''l'', chr CHR ''L''} then Some (emit_num room k v)
          else if c = chr CHR ''i'' then
            Some (emit_num room (if max_width k then k\<lparr>width := NGX_INT_T_LEN\<rparr> else k) v)
          else if c = chr CHR ''A'' then
            Some (emit_num room (if max_width k then k\<lparr>width := NGX_ATOMIC_T_LEN\<rparr> else k) v)
          else if c = chr CHR ''p'' then
            Some (emit_unsigned room (k\<lparr>hex := 2, sign := False, zero := chr CHR ''0'', width := 16\<rparr>) v)
          else None
      | Arg32 v \<Rightarrow>
          if c = chr CHR ''P'' then Some (emit_signed room k (scast v))
          else if c \<in> {chr CHR ''d'', chr CHR ''D''}
          then Some (emit_num room k (if sign k then scast v else ucast v))
          else None
      | _ \<Rightarrow> None)"

definition conv_text :: "nat \<Rightarrow> conv \<Rightarrow> u8 \<Rightarrow> vararg \<Rightarrow> ngx_str option" where
  "conv_text room k c arg =
     (case arg of
        ArgStr s \<Rightarrow>
          if c \<in> {chr CHR ''V'', chr CHR ''v''} then Some (ngx_sprintf_str room s (Some (length s)) (hex k))
          else None
      | ArgChars s \<Rightarrow>
          if c = chr CHR ''s'' \<and> (case slen k of None \<Rightarrow> True | Some n \<Rightarrow> n \<le> length s)
          then Some (ngx_sprintf_str room s (slen k) (hex k)) else None
      | ArgDouble neg ui64 round \<Rightarrow>
          if c = chr CHR ''f'' then Some (emit_double room k neg ui64 round) else None
      | Arg32 v \<Rightarrow> if c = chr CHR ''c'' then Some [ucast (v AND 0xff)] else None
      | _ \<Rightarrow> None)"

definition conv_letters :: "u8 set" where
  "conv_letters = set (bytes ''OPTrMzlLiApdDVvsfc'')"

text \<open>The \<^verbatim>\<open>switch\<close>: what is written, the rest of the format and of the arguments.\<close>

definition convert :: "nat \<Rightarrow> ngx_str \<Rightarrow> vararg list \<Rightarrow> (ngx_str \<times> ngx_str \<times> vararg list) option" where
  "convert room fmt args =
     (case scan_conv fmt args of
        None \<Rightarrow> None
      | Some (k, fmt', args') \<Rightarrow>
          (case fmt' of
             [] \<Rightarrow> None
           | c # fmt'' \<Rightarrow>
               if c \<in> conv_letters then
                 (case args' of
                    [] \<Rightarrow> None
                  | arg # args'' \<Rightarrow>
                      (case (if c \<in> set (bytes ''Vvsfc'') then conv_text room k c arg
                             else conv_num room k c arg) of
                         None \<Rightarrow> None
                       | Some out \<Rightarrow> Some (out, fmt'', args'')))
               else if c = chr CHR ''Z'' then Some ([0], fmt'', args')
               else if c = chr CHR ''N'' then Some ([LF], fmt'', args')
               else if c = chr CHR ''%'' then Some ([chr CHR ''%''], fmt'', args')
               else Some ([c], fmt'', args')))"

lemma scan_width_length: "length (snd (scan_width w fmt)) \<le> length fmt"
  by (induction w fmt rule: scan_width.induct) auto

lemma scan_flags_length: "scan_flags k fmt args = Some (k', fmt', args') \<Longrightarrow> length fmt' \<le> length fmt"
proof (induction k fmt args rule: scan_flags.induct)
  case (2 k c fmt args)
  then show ?case
    using scan_width_length [of "frac_width k" fmt]
    by (auto split: if_splits prod.splits list.splits vararg.splits)
qed simp

lemma scan_conv_length: "scan_conv fmt args = Some (k', fmt', args') \<Longrightarrow> length fmt' \<le> length fmt"
  using scan_width_length [of 0 fmt]
  by (auto simp: scan_conv_def Let_def split: prod.splits dest!: scan_flags_length)

lemma convert_length: "convert room fmt args = Some (out, fmt', args') \<Longrightarrow> length fmt' < length fmt"
  by (auto simp: convert_def split: option.splits prod.splits list.splits if_splits dest!: scan_conv_length)

section \<open>The loop over the format\<close>

function ngx_vslprintf :: "nat \<Rightarrow> ngx_str \<Rightarrow> vararg list \<Rightarrow> ngx_str option" where
  "ngx_vslprintf room [] args = Some []"
| "ngx_vslprintf room (c # fmt) args =
     (if room = 0 then Some []
      else if c = chr CHR ''%'' then
        (case convert room fmt args of
           None \<Rightarrow> None
         | Some (out, fmt', args') \<Rightarrow>
             map_option ((@) out) (ngx_vslprintf (room - length out) fmt' args'))
      else map_option ((#) c) (ngx_vslprintf (room - 1) fmt args))"
  by pat_completeness auto
termination
  by (relation "measure (\<lambda>(room, fmt, args). length fmt)") (auto dest!: convert_length)

declare ngx_vslprintf.simps(2) [simp del]

text \<open>\<^verbatim>\<open>ngx_sprintf\<close> has \<^verbatim>\<open>(void *) -1\<close> for its end: no bound that matters.\<close>

definition ngx_sprintf :: "ngx_str \<Rightarrow> vararg list \<Rightarrow> ngx_str option" where
  "ngx_sprintf fmt args = ngx_vslprintf (2 ^ 63) fmt args"

definition ngx_snprintf :: "nat \<Rightarrow> ngx_str \<Rightarrow> vararg list \<Rightarrow> ngx_str option" where
  "ngx_snprintf room fmt args = ngx_vslprintf room fmt args"

section \<open>It never writes past the end\<close>

lemma sprintf_hex_length: "length (sprintf_hex h room src) \<le> room"
  by (induction h room src rule: sprintf_hex.induct) auto

lemma sprintf_str_length: "length (ngx_sprintf_str room src len h) \<le> room"
  by (simp add: ngx_sprintf_str_def sprintf_hex_length Let_def)

lemma put_num_length: "length s \<le> room \<Longrightarrow> length (put_num room s v z h w) \<le> room"
  using sprintf_num_length [of "room - length s" v z h w] by (simp add: put_num_def)

lemma emit_length:
  assumes "0 < room"
  shows "length (emit_signed room k v) \<le> room" "length (emit_unsigned room k v) \<le> room"
    "length (emit_num room k v) \<le> room" "length (emit_double room k neg v round) \<le> room"
  using assms
  by (auto simp: emit_signed_def emit_unsigned_def emit_num_def emit_double_def Let_def
    intro!: put_num_length split: prod.split)

lemma convert_room:
  assumes "convert room fmt args = Some (out, fmt', args')" "0 < room"
  shows "length out \<le> room"
proof -
  have str: "conv_text room k c arg = Some out \<Longrightarrow> length out \<le> room" for k c arg
    using assms(2)
    by (auto simp: conv_text_def sprintf_str_length emit_length split: vararg.splits if_splits)
  have num: "conv_num room k c arg = Some out \<Longrightarrow> length out \<le> room" for k c arg
    using assms(2)
    by (auto simp: conv_num_def emit_length split: vararg.splits if_splits)
  show ?thesis
    using assms str num
    by (auto simp: convert_def split: option.splits prod.splits list.splits if_splits)
qed

lemma vslprintf_room: "ngx_vslprintf room fmt args = Some out \<Longrightarrow> length out \<le> room"
proof (induction room fmt args arbitrary: out rule: ngx_vslprintf.induct)
  case (2 room c fmt args)
  show ?case
  proof (cases "room = 0 \<or> c \<noteq> chr CHR ''%''")
    case True
    with 2 show ?thesis by (fastforce simp: ngx_vslprintf.simps(2) split: if_splits)
  next
    case False
    then obtain o1 fmt' args' o2 where conv: "convert room fmt args = Some (o1, fmt', args')"
      and rest: "ngx_vslprintf (room - length o1) fmt' args' = Some o2" and out: "out = o1 @ o2"
      using "2.prems" by (auto simp: ngx_vslprintf.simps(2) split: option.splits)
    have "length o1 \<le> room" using convert_room [OF conv] False by simp
    moreover have "length o2 \<le> room - length o1" using "2.IH"(1) [OF _ _ conv] rest False by simp
    ultimately show ?thesis by (simp add: out)
  qed
qed simp

section \<open>Properties\<close>

text \<open>C39: Whatever the format and its arguments, \<^verbatim>\<open>ngx_vslprintf\<close> writes no byte past
  \<^verbatim>\<open>last\<close>: padding, signs, hexadecimal dumps and the unchecked single characters included.\<close>

theorem vslprintf_bounded:
  assumes "ngx_vslprintf room fmt args = Some out"
  shows "length out \<le> room"
  using assms by (rule vslprintf_room)

theorem vslprintf_bounded_witness:
  "length (bytes ''a-7'') \<le> 4"
  by (rule vslprintf_bounded [of 4 "bytes ''a%d''" "[Arg32 (- 7)]"])
    (simp add: ngx_vslprintf.simps(2) convert_def scan_conv_def is_digit_def conv_letters_def conv_num_def
      emit_num_def emit_signed_def put_num_def sprintf_num_text num_text_def dec_string.simps Let_def)

end
