(* ===== verification/Ngx_Gmtime.thy ===== *)
theory Ngx_Gmtime
  imports Ngx_Sprintf
begin

text \<open>
  The calendar of \<^verbatim>\<open>core/ngx_times.c\<close>: \<^verbatim>\<open>ngx_gmtime\<close> with its variant of Gauss'
  formula, against a calendar that counts the days of years and months one by one; and
  the dates of the protocol, \<^verbatim>\<open>ngx_http_time\<close> and \<^verbatim>\<open>ngx_http_cookie_time\<close>, which
  print it.  The unsigned intermediate values of the code stay below \<open>2 ^ 64\<close> and are
  integers here; \<open>div\<close> and \<open>mod\<close> are applied to non-negative values only.
\<close>

section \<open>ngx_gmtime\<close>

record ngx_tm =
  tm_sec :: int
  tm_min :: int
  tm_hour :: int
  tm_mday :: int
  tm_mon :: int
  tm_year :: int
  tm_wday :: int

text \<open>The days since March 1, 1 BC, split into a year that starts in March and a day of it.\<close>

definition gauss_year :: "int \<Rightarrow> int \<times> int" where
  "gauss_year days =
     (let year = (days + 2) * 400 div (365 * 400 + 100 - 4 + 1);
          yday = days - (365 * year + year div 4 - year div 100 + year div 400)
      in if yday < 0 then
           (let leap = (if year mod 4 = 0 \<and> (year mod 100 \<noteq> 0 \<or> year mod 400 = 0) then 1 else 0)
            in (year - 1, 365 + leap + yday))
         else (year, yday))"

definition gauss_date :: "int \<Rightarrow> int \<times> int \<times> int" where
  "gauss_date days =
     (case gauss_year days of (year, yday) \<Rightarrow>
        let mon = (yday + 31) * 10 div 306;
            mday = yday - (367 * mon div 12 - 30) + 1
        in if 306 \<le> yday then (year + 1, mon - 10, mday) else (year, mon + 2, mday))"

definition ngx_gmtime :: "int \<Rightarrow> ngx_tm" where
  "ngx_gmtime t0 =
     (let t = (if t0 < 0 then 0 else t0);
          days0 = t div 86400;
          sec0 = t mod 86400;
          days = (if 2932896 < days0 then 2932896 else days0);
          sec = (if 2932896 < days0 then 86399 else sec0);
          wday = (4 + days) mod 7;
          hour = sec div 3600;
          sec' = sec mod 3600;
          min = sec' div 60;
          sec'' = sec' mod 60
      in case gauss_date (days - (31 + 28) + 719527) of (year, mon, mday) \<Rightarrow>
        \<lparr>tm_sec = sec'', tm_min = min, tm_hour = hour, tm_mday = mday, tm_mon = mon,
         tm_year = year, tm_wday = wday\<rparr>)"

section \<open>A calendar that counts\<close>

definition leap_year :: "int \<Rightarrow> bool" where
  "leap_year y \<longleftrightarrow> y mod 4 = 0 \<and> (y mod 100 \<noteq> 0 \<or> y mod 400 = 0)"

definition year_days :: "int \<Rightarrow> int" where
  "year_days y = (if leap_year y then 366 else 365)"

definition month_days :: "int \<Rightarrow> int \<Rightarrow> int" where
  "month_days y m = (if m = 2 then (if leap_year y then 29 else 28)
     else if m \<in> {4, 6, 9, 11} then 30 else 31)"

definition date_valid :: "int \<Rightarrow> int \<Rightarrow> int \<Rightarrow> bool" where
  "date_valid y m d \<longleftrightarrow> 1 \<le> m \<and> m \<le> 12 \<and> 1 \<le> d \<and> d \<le> month_days y m"

text \<open>Days from January 1, 1970.\<close>

definition epoch_days :: "int \<Rightarrow> int \<Rightarrow> int \<Rightarrow> int" where
  "epoch_days y m d = (\<Sum>i\<leftarrow>[1970..y - 1]. year_days i) + (\<Sum>i\<leftarrow>[1..m - 1]. month_days y i) + d - 1"

section \<open>Gauss' formula counts days\<close>

text \<open>Days from March 1, 1 BC to March 1 of a year, and the day of a date in its March year.\<close>

definition march_days :: "int \<Rightarrow> int" where
  "march_days y = 365 * y + y div 4 - y div 100 + y div 400"

lemma div_step:
  assumes "0 < (k::int)"
  shows "(y + 1) div k = y div k + (if (y + 1) mod k = 0 then 1 else 0)"
proof (cases "y mod k + 1 = k")
  case True
  have "y + 1 = k * (y div k + 1) + 0"
  proof -
    have "y + 1 = k * (y div k) + (y mod k + 1)" using mult_div_mod_eq [of k y] by linarith
    with True show ?thesis by (simp add: distrib_left)
  qed
  then have "(y + 1) div k = y div k + 1" "(y + 1) mod k = 0"
    using assms int_div_pos_eq [of "y + 1" k "y div k + 1" 0] int_mod_pos_eq [of "y + 1" k "y div k + 1" 0]
    by simp_all
  then show ?thesis by simp
next
  case False
  have r: "0 \<le> y mod k + 1" "y mod k + 1 < k" "y mod k + 1 \<noteq> 0"
    using assms False pos_mod_bound [of k y] pos_mod_sign [of k y] by linarith+
  have "y + 1 = k * (y div k) + (y mod k + 1)"
    using mult_div_mod_eq [of k y] by simp
  then have "(y + 1) div k = y div k" "(y + 1) mod k = y mod k + 1"
    using r by (blast intro: int_div_pos_eq int_mod_pos_eq)+
  with r(3) show ?thesis by simp
qed

lemma int_div_bounds:
  assumes "0 < (k::int)"
  shows "k * (z div k) \<le> z" "z < k * (z div k) + k"
  using assms mult_div_mod_eq [of k z] pos_mod_bound [of k z] pos_mod_sign [of k z] by linarith+

lemma march_days_step: "march_days (y + 1) = march_days y + year_days (y + 1)"
proof -
  define A B C where "A \<longleftrightarrow> (y + 1) mod 4 = 0" and "B \<longleftrightarrow> (y + 1) mod 100 = 0" and "C \<longleftrightarrow> (y + 1) mod 400 = 0"
  have "(100::int) dvd 400" "(4::int) dvd 100" by simp_all
  then have dvd: "C \<Longrightarrow> B" "B \<Longrightarrow> A"
    unfolding A_def B_def C_def mod_eq_0_iff_dvd by (blast intro: dvd_trans)+
  have eqs: "(y + 1) div 4 = y div 4 + (if A then 1 else 0)" "(y + 1) div 100 = y div 100 + (if B then 1 else 0)"
    "(y + 1) div 400 = y div 400 + (if C then 1 else 0)"
    unfolding A_def B_def C_def by (rule div_step; simp)+
  have regroup: "365 * (y + 1) + (p + a) - (q + b) + (r + c) = 365 * y + p - q + r + (365 + (a - b + c))"
    for p q r a b c :: int by simp
  have leap: "(if A then 1 else 0) - (if B then 1 else 0) + (if C then 1 else 0)
      = (if A \<and> (\<not> B \<or> C) then 1 else 0 :: int)"
    using dvd by (cases A; cases B; cases C) simp_all
  have "leap_year (y + 1) \<longleftrightarrow> A \<and> (\<not> B \<or> C)"
    by (simp only: leap_year_def A_def B_def C_def)
  then have "year_days (y + 1) = 365 + (if A \<and> (\<not> B \<or> C) then 1 else 0)"
    unfolding year_days_def by (simp only: if_distrib [of "\<lambda>n. 365 + n"]) simp
  then show ?thesis
    unfolding march_days_def eqs regroup leap by (rule arg_cong [OF sym])
qed

lemma march_days_bounds:
  "400 * march_days z \<le> 146097 * z + 396" "146097 * z - 699 \<le> 400 * march_days z"
proof -
  show "400 * march_days z \<le> 146097 * z + 396" "146097 * z - 699 \<le> 400 * march_days z"
    using int_div_bounds [of 4 z, simplified] int_div_bounds [of 100 z, simplified]
      int_div_bounds [of 400 z, simplified]
    unfolding march_days_def by simp_all
qed

lemma gauss_year_correct:
  assumes "gauss_year days = (year, yday)"
  shows "0 \<le> yday \<and> yday < year_days (year + 1) \<and> march_days year + yday = days"
proof -
  define y where "y = (days + 2) * 400 div 146097"
  have y: "y = (days + 2) * 400 div (365 * 400 + 100 - 4 + 1)" by (simp add: y_def)
  have bounds: "146097 * y \<le> (days + 2) * 400" "(days + 2) * 400 < 146097 * (y + 1)"
    unfolding y_def using int_div_bounds [of 146097 "(days + 2) * 400"] by simp_all
  have lower: "march_days (y - 1) \<le> days"
    using bounds(1) march_days_bounds(1) [of "y - 1"] by simp
  have upper: "days < march_days (y + 1)"
    using bounds(2) march_days_bounds(2) [of "y + 1"] by simp
  have unfold: "gauss_year days = (if days - march_days y < 0
      then (y - 1, year_days y + (days - march_days y)) else (y, days - march_days y))"
    unfolding gauss_year_def Let_def leap_year_def [symmetric] march_days_def [symmetric] y [symmetric]
    by (simp add: year_days_def)
  show ?thesis
  proof (cases "days - march_days y < 0")
    case True
    then have "year = y - 1" "yday = year_days y + (days - march_days y)"
      using assms unfold by auto
    then show ?thesis
      using True lower march_days_step [of "y - 1"] by simp
  next
    case False
    then have "year = y" "yday = days - march_days y"
      using assms unfold by auto
    then show ?thesis
      using False upper march_days_step [of y] by simp
  qed
qed

text \<open>The months of a March year: the day at which a month starts, and how long it is.\<close>

lemma month_of_yday:
  assumes "0 \<le> yday" "yday < (366::int)"
  defines "mon \<equiv> (yday + 31) * 10 div 306"
  defines "mday \<equiv> yday - (367 * mon div 12 - 30) + 1"
  shows "1 \<le> mon \<and> mon \<le> 12 \<and> 1 \<le> mday \<and> (306 \<le> yday \<longleftrightarrow> 11 \<le> mon)
    \<and> mday \<le> (if mon = 12 then 29 else if mon \<in> {2, 4, 7, 9} then 30 else 31)
    \<and> (mon = 12 \<and> mday = 29 \<longrightarrow> yday = 365)"
proof -
  have b: "306 * mon \<le> (yday + 31) * 10" "(yday + 31) * 10 < 306 * mon + 306"
    using int_div_bounds [of 306 "(yday + 31) * 10"] by (simp_all add: mon_def)
  have mon: "1 \<le> mon" "mon \<le> 12" using b assms(1,2) by simp_all
  then have "mon \<in> {1, 2, 3, 4, 5, 6, 7, 8, 9, 10, 11, 12}" by simp presburger
  then show ?thesis
    using b assms(1,2) unfolding mday_def by (elim insertE emptyE) simp_all
qed

section \<open>The date it finds is the date that is counted\<close>

lemma upto_snoc: "i \<le> j \<Longrightarrow> [i..j] = [i..j - 1] @ [j]"
  by (rule upto_rec2)

lemma march_days_years:
  assumes "1970 \<le> y"
  shows "march_days y = march_days 1969 + year_days 1970 + (\<Sum>i\<leftarrow>[1971..y]. year_days i)"
  using assms
proof (induction y rule: int_ge_induct)
  case base
  show ?case using march_days_step [of 1969] by simp
next
  case (step y)
  then show ?case using march_days_step [of y] by (simp add: upto_rec2 [of 1971 "y + 1"])
qed

text \<open>Days before March 1 of a year, and before a month that follows.\<close>

lemma years_sum: "1970 \<le> y \<Longrightarrow> (\<Sum>i\<leftarrow>[1970..y]. year_days i) = march_days y - march_days 1969"
  using march_days_years [of y] by (simp add: upto_rec1 [of 1970 y])

lemma months_before:
  assumes "m \<in> {1..12}"
  shows "(\<Sum>i\<leftarrow>[1..m - 1]. month_days y i) =
    (if m \<le> 2 then 367 * (m + 10) div 12 - 30 - 306 else 367 * (m - 2) div 12 - 30 + 59 + (if leap_year y then 1 else 0))"
proof -
  have "m \<in> {1, 2, 3, 4, 5, 6, 7, 8, 9, 10, 11, 12}" using assms by simp presburger
  then show ?thesis
    by (elim insertE emptyE) (simp_all add: upto_rec1 month_days_def)
qed

text \<open>The day count of a date, as the parser of dates computes it (\<^verbatim>\<open>ngx_parse_time.c\<close>).\<close>

definition gauss_days :: "int \<Rightarrow> int \<Rightarrow> int \<Rightarrow> int" where
  "gauss_days y m d =
     (let (m', y') = (if m \<le> 2 then (m + 10, y - 1) else (m - 2, y))
      in 365 * y' + y' div 4 - y' div 100 + y' div 400 + 367 * m' div 12 - 30 + d - 1 - 719527 + 31 + 28)"

lemma gauss_days_march:
  "gauss_days y m d = (if m \<le> 2 then march_days (y - 1) + 367 * (m + 10) div 12 else march_days y + 367 * (m - 2) div 12)
    - 30 + d - 1 - 719468"
  by (simp add: gauss_days_def march_days_def)

lemma gauss_days_epoch:
  assumes "1970 \<le> y" "m \<in> {1..12}"
  shows "gauss_days y m d = epoch_days y m d"
proof -
  have first: "march_days 1969 = 719162" by (simp add: march_days_def)
  have years: "(\<Sum>i\<leftarrow>[1970..y - 1]. year_days i) = march_days (y - 1) - march_days 1969"
    using assms(1) years_sum [of "y - 1"] by (cases "y = 1970") simp_all
  have "march_days y = march_days (y - 1) + year_days y" using march_days_step [of "y - 1"] by simp
  then show ?thesis
    unfolding gauss_days_march epoch_days_def years months_before [OF assms(2)] first
    by (simp add: year_days_def)
qed

lemma gauss_date_correct:
  assumes "gauss_date (days - (31 + 28) + 719527) = (y, m, d)"
  shows "date_valid y m d \<and> gauss_days y m d = days"
proof -
  obtain year yday where gy: "gauss_year (days - (31 + 28) + 719527) = (year, yday)"
    by (cases "gauss_year (days - (31 + 28) + 719527)")
  from gauss_year_correct [OF gy]
  have yd: "0 \<le> yday" "yday < year_days (year + 1)" "march_days year + yday = days + 719468"
    by simp_all
  then have "yday < 366" by (simp add: year_days_def split: if_splits)
  define mon where "mon = (yday + 31) * 10 div 306"
  define mday where "mday = yday - (367 * mon div 12 - 30) + 1"
  from month_of_yday [OF yd(1) \<open>yday < 366\<close>]
  have mon: "1 \<le> mon" "mon \<le> 12" "1 \<le> mday" "306 \<le> yday \<longleftrightarrow> 11 \<le> mon"
    "mday \<le> (if mon = 12 then 29 else if mon \<in> {2, 4, 7, 9} then 30 else 31)"
    "mon = 12 \<and> mday = 29 \<longrightarrow> yday = 365"
    unfolding mon_def mday_def by blast+
  have date: "y = (if 11 \<le> mon then year + 1 else year)" "m = (if 11 \<le> mon then mon - 10 else mon + 2)" "d = mday"
    using assms gy mon(4) by (auto simp: gauss_date_def mon_def mday_def Let_def split: if_splits)
  have leap: "yday = 365 \<Longrightarrow> leap_year (year + 1)"
    using yd(2) by (simp add: year_days_def split: if_splits)
  have "mday \<le> month_days y m"
    using mon leap by (auto simp: date month_days_def split: if_splits)
  then have "date_valid y m d"
    using mon by (simp add: date_valid_def date)
  moreover have "gauss_days y m d = days"
    using yd(3) mon(1,2) by (auto simp: gauss_days_march date mday_def)
  ultimately show ?thesis by simp
qed

section \<open>The fields of ngx_gmtime\<close>

text \<open>The last second of the year 9999, to which later times are cut.\<close>

definition last_second :: int where
  "last_second = 253402300799"

definition clamp_time :: "int \<Rightarrow> int" where
  "clamp_time t = (if t < 0 then 0 else if last_second < t then last_second else t)"

lemma gmtime_clamped:
  fixes t :: int
  defines "u \<equiv> clamp_time t"
  shows "ngx_gmtime t =
    (case gauss_date (u div 86400 - (31 + 28) + 719527) of (year, mon, mday) \<Rightarrow>
      \<lparr>tm_sec = u mod 86400 mod 3600 mod 60, tm_min = u mod 86400 mod 3600 div 60,
       tm_hour = u mod 86400 div 3600, tm_mday = mday, tm_mon = mon, tm_year = year,
       tm_wday = (4 + u div 86400) mod 7\<rparr>)"
proof -
  define v where "v = (if t < 0 then 0 else t)"
  have v: "(if 2932896 < v div 86400 then 2932896 else v div 86400) = u div 86400"
    "(if 2932896 < v div 86400 then 86399 else v mod 86400) = u mod 86400"
  proof -
    have "2932896 < v div 86400 \<longleftrightarrow> last_second < v"
      using int_div_bounds [of 86400 v] unfolding last_second_def by (intro iffI) simp_all
    moreover have "u = (if last_second < v then last_second else v)"
      by (simp add: u_def v_def clamp_time_def last_second_def)
    moreover have "last_second div 86400 = 2932896" "last_second mod 86400 = 86399"
      by (simp_all add: last_second_def)
    ultimately show "(if 2932896 < v div 86400 then 2932896 else v div 86400) = u div 86400"
      "(if 2932896 < v div 86400 then 86399 else v mod 86400) = u mod 86400"
      by simp_all
  qed
  show ?thesis
    unfolding ngx_gmtime_def Let_def v_def [symmetric] v ..
qed

lemma clamp_time_range: "0 \<le> clamp_time t" "clamp_time t \<le> last_second"
  by (simp_all add: clamp_time_def last_second_def)

lemma gmtime_correct:
  fixes t :: int
  defines "tm \<equiv> ngx_gmtime t"
  shows "date_valid (tm_year tm) (tm_mon tm) (tm_mday tm)"
    and "gauss_days (tm_year tm) (tm_mon tm) (tm_mday tm) = clamp_time t div 86400"
    and "tm_hour tm * 3600 + tm_min tm * 60 + tm_sec tm = clamp_time t mod 86400"
    and "0 \<le> tm_hour tm \<and> tm_hour tm < 24" "0 \<le> tm_min tm \<and> tm_min tm < 60" "0 \<le> tm_sec tm \<and> tm_sec tm < 60"
    and "0 \<le> tm_wday tm \<and> tm_wday tm < 7" "tm_wday tm = (clamp_time t div 86400 + 4) mod 7"
proof -
  obtain y m d where date: "gauss_date (clamp_time t div 86400 - (31 + 28) + 719527) = (y, m, d)"
    by (cases "gauss_date (clamp_time t div 86400 - (31 + 28) + 719527)")
  note tm = gmtime_clamped [of t, folded tm_def, unfolded date prod.case]
  show "date_valid (tm_year tm) (tm_mon tm) (tm_mday tm)"
    "gauss_days (tm_year tm) (tm_mon tm) (tm_mday tm) = clamp_time t div 86400"
    using gauss_date_correct [OF date] by (simp_all add: tm)
  let ?s = "clamp_time t mod 86400"
  have s: "0 \<le> ?s" "?s < 86400" by simp_all
  show "tm_hour tm * 3600 + tm_min tm * 60 + tm_sec tm = ?s"
    using div_mult_mod_eq [of ?s 3600] div_mult_mod_eq [of "?s mod 3600" 60] by (simp only: tm ngx_tm.simps)
  show "0 \<le> tm_hour tm \<and> tm_hour tm < 24"
    using s by (simp add: tm int_div_less_iff pos_imp_zdiv_nonneg_iff)
  show "0 \<le> tm_min tm \<and> tm_min tm < 60"
    by (simp add: tm int_div_less_iff pos_imp_zdiv_nonneg_iff)
  show "0 \<le> tm_sec tm \<and> tm_sec tm < 60" "0 \<le> tm_wday tm \<and> tm_wday tm < 7"
    by (simp_all add: tm)
  show "tm_wday tm = (clamp_time t div 86400 + 4) mod 7"
    by (simp add: tm add.commute)
qed

lemma march_days_mono: "y \<le> z \<Longrightarrow> march_days y \<le> march_days z"
proof (induction z rule: int_ge_induct)
  case (step z)
  then show ?case using march_days_step [of z] by (simp add: year_days_def split: if_splits)
qed simp

lemma gmtime_year: "1970 \<le> tm_year (ngx_gmtime t)" "tm_year (ngx_gmtime t) \<le> 9999"
proof -
  let ?tm = "ngx_gmtime t"
  let ?y = "tm_year ?tm" and ?m = "tm_mon ?tm" and ?d = "tm_mday ?tm" and ?u = "clamp_time t"
  have v: "1 \<le> ?m" "?m \<le> 12" "1 \<le> ?d" "?d \<le> 31"
    using gmtime_correct(1) [of t] by (auto simp: date_valid_def month_days_def split: if_splits)
  have days: "0 \<le> ?u div 86400" "?u div 86400 \<le> 2932896"
    using clamp_time_range [of t] zdiv_mono1 [of ?u last_second 86400]
    by (simp_all add: pos_imp_zdiv_nonneg_iff last_second_def)
  have eq: "gauss_days ?y ?m ?d = ?u div 86400" by (rule gmtime_correct(2))
  have m: "?m \<in> {1, 2, 3, 4, 5, 6, 7, 8, 9, 10, 11, 12}" using v by simp presburger
  have vals: "march_days 1968 = 718797" "march_days 1969 = 719162" "march_days 9999 = 3652059" "march_days 10000 = 3652425"
    by (simp_all add: march_days_def)
  show "1970 \<le> ?y"
  proof (rule ccontr)
    assume "\<not> 1970 \<le> ?y"
    then have "march_days (?y - 1) \<le> 718797" "march_days ?y \<le> 719162"
      using march_days_mono [of "?y - 1" 1968] march_days_mono [of ?y 1969] vals by simp_all
    then have "gauss_days ?y ?m ?d < 0"
      using m v(4) unfolding gauss_days_march by (elim insertE emptyE) simp_all
    with eq days show False by simp
  qed
  show "?y \<le> 9999"
  proof (rule ccontr)
    assume "\<not> ?y \<le> 9999"
    then have "3652059 \<le> march_days (?y - 1)" "3652425 \<le> march_days ?y"
      using march_days_mono [of 9999 "?y - 1"] march_days_mono [of 10000 ?y] vals by simp_all
    then have "2932896 < gauss_days ?y ?m ?d"
      using m v(3) unfolding gauss_days_march by (elim insertE emptyE) simp_all
    with eq days show False by simp
  qed
qed

section \<open>Properties\<close>

text \<open>C36: \<^verbatim>\<open>ngx_gmtime\<close> is the calendar: for every time (cut to the range 1970 to 9999, as the
  code does) its fields are a valid date and a time of day, the date is the one that counting
  years and months day by day gives, the seconds of the day add up, and the weekday follows
  from January 1, 1970 being a Thursday.\<close>

theorem gmtime_calendar:
  "let tm = ngx_gmtime t; u = clamp_time t in
    date_valid (tm_year tm) (tm_mon tm) (tm_mday tm)
    \<and> epoch_days (tm_year tm) (tm_mon tm) (tm_mday tm) = u div 86400
    \<and> tm_hour tm * 3600 + tm_min tm * 60 + tm_sec tm = u mod 86400
    \<and> tm_hour tm \<in> {0..<24} \<and> tm_min tm \<in> {0..<60} \<and> tm_sec tm \<in> {0..<60}
    \<and> tm_wday tm = (u div 86400 + 4) mod 7 \<and> tm_year tm \<in> {1970..9999}"
proof -
  have "tm_mon (ngx_gmtime t) \<in> {1..12}"
    using gmtime_correct(1) [of t] by (simp add: date_valid_def)
  then show ?thesis
    using gmtime_correct [of t] gmtime_year [of t] gauss_days_epoch [of "tm_year (ngx_gmtime t)" "tm_mon (ngx_gmtime t)"]
    by (simp add: Let_def)
qed

end
