(* ===== verification/Ngx_Http_Time.thy ===== *)
theory Ngx_Http_Time
  imports Ngx_Gmtime
begin

text \<open>
  The dates of HTTP: \<^verbatim>\<open>ngx_http_time\<close> and \<^verbatim>\<open>ngx_http_cookie_time\<close> of
  \<^verbatim>\<open>core/ngx_times.c\<close>, which print \<^verbatim>\<open>ngx_gmtime\<close> through the formatter, and the
  parser of the three date formats, \<^verbatim>\<open>ngx_parse_http_time\<close> of
  \<^verbatim>\<open>core/ngx_parse_time.c\<close>.  The parser reads through a pointer into the value; here
  the pointer is what is left of the value, and a read past its end is the error
  \<open>Overrun\<close>, which no input reaches.
\<close>

section \<open>Printing\<close>

definition week :: "ngx_str list" where
  "week = map bytes [''Sun'', ''Mon'', ''Tue'', ''Wed'', ''Thu'', ''Fri'', ''Sat'']"

definition months :: "ngx_str list" where
  "months = map bytes [''Jan'', ''Feb'', ''Mar'', ''Apr'', ''May'', ''Jun'',
                       ''Jul'', ''Aug'', ''Sep'', ''Oct'', ''Nov'', ''Dec'']"

definition ngx_http_time :: "int \<Rightarrow> ngx_str option" where
  "ngx_http_time t =
     (let tm = ngx_gmtime t
      in ngx_sprintf (bytes ''%s, %02d %s %4d %02d:%02d:%02d GMT'')
           [ArgChars (week ! nat (tm_wday tm)),
            Arg32 (word_of_int (tm_mday tm)),
            ArgChars (months ! nat (tm_mon tm - 1)),
            Arg32 (word_of_int (tm_year tm)),
            Arg32 (word_of_int (tm_hour tm)),
            Arg32 (word_of_int (tm_min tm)),
            Arg32 (word_of_int (tm_sec tm))])"

definition ngx_http_cookie_time :: "int \<Rightarrow> ngx_str option" where
  "ngx_http_cookie_time t =
     (let tm = ngx_gmtime t
      in ngx_sprintf
           (if 2037 < tm_year tm
            then bytes ''%s, %02d-%s-%d %02d:%02d:%02d GMT''
            else bytes ''%s, %02d-%s-%02d %02d:%02d:%02d GMT'')
           [ArgChars (week ! nat (tm_wday tm)),
            Arg32 (word_of_int (tm_mday tm)),
            ArgChars (months ! nat (tm_mon tm - 1)),
            Arg32 (word_of_int (if 2037 < tm_year tm then tm_year tm else tm_year tm mod 100)),
            Arg32 (word_of_int (tm_hour tm)),
            Arg32 (word_of_int (tm_min tm)),
            Arg32 (word_of_int (tm_sec tm))])"

section \<open>Reading through a pointer\<close>

datatype rd_err = Parse_error | Overrun

fun and_then :: "'e + 'a \<Rightarrow> ('a \<Rightarrow> 'e + 'b) \<Rightarrow> 'e + 'b" where
  "and_then (Inl e) f = Inl e"
| "and_then (Inr x) f = f x"

definition peek :: "ngx_str \<Rightarrow> nat \<Rightarrow> rd_err + u8" where
  "peek p k = (if k < length p then Inr (p ! k) else Inl Overrun)"

definition rd_digit :: "ngx_str \<Rightarrow> nat \<Rightarrow> rd_err + int" where
  "rd_digit p k = and_then (peek p k) (\<lambda>c. if is_digit c then Inr (digit_of c) else Inl Parse_error)"

definition rd_2 :: "ngx_str \<Rightarrow> rd_err + int" where
  "rd_2 p = and_then (rd_digit p 0) (\<lambda>a. and_then (rd_digit p 1) (\<lambda>b. Inr (a * 10 + b)))"

definition rd_4 :: "ngx_str \<Rightarrow> rd_err + int" where
  "rd_4 p = and_then (rd_digit p 0) (\<lambda>a. and_then (rd_digit p 1) (\<lambda>b.
     and_then (rd_digit p 2) (\<lambda>c. and_then (rd_digit p 3) (\<lambda>d.
       Inr (a * 1000 + b * 100 + c * 10 + d)))))"

text \<open>\<open>if (*p++ != c) return NGX_ERROR;\<close>\<close>

definition expect :: "u8 \<Rightarrow> ngx_str \<Rightarrow> rd_err + ngx_str" where
  "expect c p = and_then (peek p 0) (\<lambda>x. if x = c then Inr (drop 1 p) else Inl Parse_error)"

section \<open>The parser of dates\<close>

datatype http_time_fmt = fmt_no | rfc822 | rfc850 | isoc

definition mday_table :: "int list" where
  "mday_table = [31, 28, 31, 30, 31, 30, 31, 31, 30, 31, 30, 31]"

text \<open>The two loops over the name of the day.\<close>

fun skip_weekday :: "ngx_str \<Rightarrow> http_time_fmt \<times> ngx_str" where
  "skip_weekday [] = (fmt_no, [])"
| "skip_weekday (c # p) =
     (if c = chr CHR '','' then (fmt_no, p)
      else if c = chr CHR '' '' then (isoc, p)
      else skip_weekday p)"

text \<open>The day of the first two formats, which decides between them.\<close>

definition http_time_day :: "ngx_str \<Rightarrow> rd_err + (http_time_fmt \<times> int \<times> ngx_str)" where
  "http_time_day p =
     and_then (rd_2 p) (\<lambda>day.
     let p2 = drop 2 p in
     and_then (peek p2 0) (\<lambda>c.
       if c = chr CHR '' '' then
         (if length p2 < 18 then Inl Parse_error else Inr (rfc822, day, drop 1 p2))
       else if c = chr CHR ''-'' then Inr (rfc850, day, drop 1 p2)
       else Inl Parse_error))"

definition http_time_month :: "ngx_str \<Rightarrow> rd_err + int" where
  "http_time_month p =
     and_then (peek p 0) (\<lambda>c.
       if c = chr CHR ''J'' then
         and_then (peek p 1) (\<lambda>c1. if c1 = chr CHR ''a'' then Inr 0
           else and_then (peek p 2) (\<lambda>c2. Inr (if c2 = chr CHR ''n'' then 5 else 6)))
       else if c = chr CHR ''F'' then Inr 1
       else if c = chr CHR ''M'' then and_then (peek p 2) (\<lambda>c2. Inr (if c2 = chr CHR ''r'' then 2 else 4))
       else if c = chr CHR ''A'' then and_then (peek p 1) (\<lambda>c1. Inr (if c1 = chr CHR ''p'' then 3 else 7))
       else if c = chr CHR ''S'' then Inr 8
       else if c = chr CHR ''O'' then Inr 9
       else if c = chr CHR ''N'' then Inr 10
       else if c = chr CHR ''D'' then Inr 11
       else Inl Parse_error)"

text \<open>After the month: the year of the first two formats, the day of the third.\<close>

definition http_time_year :: "http_time_fmt \<Rightarrow> ngx_str \<Rightarrow> rd_err + (int \<times> ngx_str)" where
  "http_time_year fmt p =
     (if fmt = rfc822 then and_then (rd_4 p) (\<lambda>year. Inr (year, drop 4 p))
      else and_then (rd_2 p) (\<lambda>y. Inr ((if y < 70 then y + 2000 else y + 1900), drop 2 p)))"

definition isoc_day :: "ngx_str \<Rightarrow> rd_err + (int \<times> ngx_str)" where
  "isoc_day p0 =
     and_then (peek p0 0) (\<lambda>c0.
     let p = (if c0 = chr CHR '' '' then drop 1 p0 else p0) in
     and_then (rd_digit p 0) (\<lambda>d1.
     let p1 = drop 1 p in
     and_then (peek p1 0) (\<lambda>c1.
     and_then (if c1 \<noteq> chr CHR '' ''
               then and_then (rd_digit p1 0) (\<lambda>d2. Inr (d1 * 10 + d2, drop 1 p1))
               else Inr (d1, p1)) (\<lambda>(day, p').
       if length p' < 14 then Inl Parse_error else Inr (day, p')))))"

text \<open>\<open> hh:mm:ss\<close>, and for the third format the year after it.\<close>

definition http_time_clock :: "ngx_str \<Rightarrow> rd_err + (int \<times> int \<times> int \<times> ngx_str)" where
  "http_time_clock p =
     and_then (expect (chr CHR '' '') p) (\<lambda>p.
     and_then (rd_2 p) (\<lambda>hour.
     and_then (expect (chr CHR '':'') (drop 2 p)) (\<lambda>p.
     and_then (rd_2 p) (\<lambda>min.
     and_then (expect (chr CHR '':'') (drop 2 p)) (\<lambda>p.
     and_then (rd_2 p) (\<lambda>sec. Inr (hour, min, sec, drop 2 p)))))))"

text \<open>
  The checks and Gauss' formula: \<open>year\<close> is unsigned and \<open>time\<close> a \<^verbatim>\<open>uint64_t\<close> that is
  returned as a signed \<^verbatim>\<open>time_t\<close>.
\<close>

definition http_time_value :: "int \<Rightarrow> int \<Rightarrow> int \<Rightarrow> int \<Rightarrow> int \<Rightarrow> int \<Rightarrow> rd_err + int" where
  "http_time_value day month year hour minute sec =
     (if 23 < hour \<or> 59 < minute \<or> 59 < sec then Inl Parse_error
      else if (if day = 29 \<and> month = 1
               then year AND 3 \<noteq> 0 \<or> (year mod 100 = 0 \<and> year mod 400 \<noteq> 0)
               else mday_table ! nat month < day)
      then Inl Parse_error
      else
        let (month, year) = (if month - 1 \<le> 0 then (month - 1 + 12, (year - 1) mod 2 ^ 64)
                             else (month - 1, year));
            time = ((365 * year + year div 4 - year div 100 + year div 400
                     + 367 * month div 12 - 30
                     + day - 1
                     - 719527 + 31 + 28) * 86400 + hour * 3600 + minute * 60 + sec) mod 2 ^ 64
        in Inr (if time < 2 ^ 63 then time else time - 2 ^ 64))"

text \<open>From the month on.\<close>

definition http_time_rest :: "http_time_fmt \<Rightarrow> int \<Rightarrow> ngx_str \<Rightarrow> rd_err + int" where
  "http_time_rest fmt day0 p2 =
     and_then (http_time_month p2) (\<lambda>month.
     and_then (if fmt = rfc822 then expect (chr CHR '' '') (drop 3 p2)
               else if fmt = rfc850 then expect (chr CHR ''-'') (drop 3 p2)
               else Inr (drop 4 p2)) (\<lambda>p4.
     and_then (if fmt = isoc then map_sum id (\<lambda>(d, p). (d, 0, p)) (isoc_day p4)
               else map_sum id (\<lambda>(y, p). (day0, y, p)) (http_time_year fmt p4)) (\<lambda>(day, year0, p5).
     and_then (http_time_clock p5) (\<lambda>(hour, minute, sec, p6).
     and_then (if fmt = isoc then and_then (expect (chr CHR '' '') p6) rd_4 else Inr year0) (\<lambda>year.
       http_time_value day month year hour minute sec)))))"

definition ngx_parse_http_time :: "ngx_str \<Rightarrow> rd_err + int" where
  "ngx_parse_http_time value0 =
     (let (fmt0, p0) = skip_weekday value0;
          p1 = dropWhile (\<lambda>c. c = chr CHR '' '') p0
      in if length p1 < 18 then Inl Parse_error
         else if fmt0 \<noteq> isoc then and_then (http_time_day p1) (\<lambda>(fmt, day, p2). http_time_rest fmt day p2)
         else http_time_rest isoc 0 p1)"

section \<open>No read past the end\<close>

definition no_overrun :: "rd_err + 'a \<Rightarrow> bool" where
  "no_overrun m \<longleftrightarrow> m \<noteq> Inl Overrun"

named_theorems overrun_intros \<open>reads that stay inside the value\<close>

lemma no_overrun_simps [simp]: "no_overrun (Inr x)" "no_overrun (Inl Parse_error)"
  by (simp_all add: no_overrun_def)

lemma no_overrun_and_then [overrun_intros]:
  "no_overrun m \<Longrightarrow> (\<And>x. m = Inr x \<Longrightarrow> no_overrun (f x)) \<Longrightarrow> no_overrun (and_then m f)"
  by (cases m) (auto simp: no_overrun_def)

lemma no_overrun_if [overrun_intros]:
  "(b \<Longrightarrow> no_overrun m) \<Longrightarrow> (\<not> b \<Longrightarrow> no_overrun n) \<Longrightarrow> no_overrun (if b then m else n)"
  by simp

lemma no_overrun_map [simp]: "no_overrun (map_sum id f m) = no_overrun m"
  by (cases m) (simp_all add: no_overrun_def)

lemma and_then_Inr: "and_then m f = Inr y \<longleftrightarrow> (\<exists>x. m = Inr x \<and> f x = Inr y)"
  by (cases m) auto

lemma map_sum_Inr: "map_sum id f m = Inr y \<longleftrightarrow> (\<exists>x. m = Inr x \<and> y = f x)"
  by (cases m) auto

lemma peek_in [overrun_intros]: "k < length p \<Longrightarrow> no_overrun (peek p k)"
  by (simp add: peek_def)

lemma rd_digit_in [overrun_intros]: "k < length p \<Longrightarrow> no_overrun (rd_digit p k)"
  unfolding rd_digit_def by (intro overrun_intros) auto

lemma rd_2_in [overrun_intros]: "2 \<le> length p \<Longrightarrow> no_overrun (rd_2 p)"
  unfolding rd_2_def by (intro overrun_intros) auto

lemma rd_4_in [overrun_intros]: "4 \<le> length p \<Longrightarrow> no_overrun (rd_4 p)"
  unfolding rd_4_def by (intro overrun_intros) auto

lemma expect_in [overrun_intros]: "p \<noteq> [] \<Longrightarrow> no_overrun (expect c p)"
  unfolding expect_def by (intro overrun_intros) auto

lemma expect_length: "expect c p = Inr q \<Longrightarrow> length q = length p - 1"
  by (auto simp: expect_def and_then_Inr split: if_splits)

lemma clock_in [overrun_intros]:
  assumes "9 \<le> length p"
  shows "no_overrun (http_time_clock p)"
  unfolding http_time_clock_def
  by (intro overrun_intros) (use assms in \<open>auto dest!: expect_length simp flip: length_greater_0_conv\<close>)

lemma clock_length: "http_time_clock p = Inr (h, m, s, q) \<Longrightarrow> length q = length p - 9"
  by (auto simp: http_time_clock_def and_then_Inr dest!: expect_length)

lemma month_in [overrun_intros]: "3 \<le> length p \<Longrightarrow> no_overrun (http_time_month p)"
  unfolding http_time_month_def by (intro overrun_intros) auto

lemma day_in [overrun_intros]: "18 \<le> length p \<Longrightarrow> no_overrun (http_time_day p)"
  unfolding http_time_day_def Let_def by (intro overrun_intros) auto

lemma day_length:
  "http_time_day p = Inr (fmt, day, q) \<Longrightarrow> 18 \<le> length p \<Longrightarrow>
    (fmt = rfc822 \<and> 17 \<le> length q) \<or> (fmt = rfc850 \<and> 15 \<le> length q)"
  by (auto simp: http_time_day_def and_then_Inr Let_def split: if_splits)

lemma year_in [overrun_intros]:
  "(if fmt = rfc822 then 4 else 2) \<le> length p \<Longrightarrow> no_overrun (http_time_year fmt p)"
  unfolding http_time_year_def by (intro overrun_intros) (simp_all split: if_splits)

lemma year_length:
  "http_time_year fmt p = Inr (y, q) \<Longrightarrow> length q = length p - (if fmt = rfc822 then 4 else 2)"
  by (auto simp: http_time_year_def and_then_Inr split: if_splits)

lemma isoc_day_in [overrun_intros]:
  assumes "4 \<le> length p"
  shows "no_overrun (isoc_day p)"
  unfolding isoc_day_def Let_def
  by (intro overrun_intros) (use assms in \<open>auto split: if_splits prod.splits\<close>)

lemma isoc_day_length: "isoc_day p = Inr (d, q) \<Longrightarrow> 14 \<le> length q"
  by (auto simp: isoc_day_def and_then_Inr Let_def split: if_splits)

lemma http_time_value_in [overrun_intros]: "no_overrun (http_time_value d mo y h mi s)"
  by (simp add: http_time_value_def Let_def split: prod.split)

text \<open>What is left for the rest, by format.\<close>

definition rest_room :: "http_time_fmt \<Rightarrow> nat" where
  "rest_room fmt = (if fmt = isoc then 18 else if fmt = rfc822 then 17 else 15)"

lemma rest_in:
  assumes "rest_room fmt \<le> length p" "fmt \<noteq> fmt_no"
  shows "no_overrun (http_time_rest fmt day p)"
proof (cases fmt)
  case rfc822
  with assms show ?thesis
    unfolding http_time_rest_def
    by (auto intro!: overrun_intros simp: rest_room_def map_sum_Inr
      dest!: expect_length year_length clock_length)
next
  case rfc850
  with assms show ?thesis
    unfolding http_time_rest_def
    by (auto intro!: overrun_intros simp: rest_room_def map_sum_Inr
      dest!: expect_length year_length clock_length)
next
  case isoc
  with assms show ?thesis
    unfolding http_time_rest_def
    by (auto intro!: overrun_intros simp: rest_room_def map_sum_Inr
      dest!: expect_length isoc_day_length clock_length)
qed (use assms in simp)

lemma parse_no_overrun: "no_overrun (ngx_parse_http_time v)"
proof -
  obtain fmt0 p0 where start: "skip_weekday v = (fmt0, p0)" by (cases "skip_weekday v")
  have "18 \<le> length p \<Longrightarrow> no_overrun (and_then (http_time_day p) (\<lambda>(fmt, day, p2). http_time_rest fmt day p2))" for p
    by (auto intro!: no_overrun_and_then day_in rest_in simp: rest_room_def dest!: day_length)
  moreover have "18 \<le> length p \<Longrightarrow> no_overrun (http_time_rest isoc 0 p)" for p
    by (rule rest_in) (simp_all add: rest_room_def)
  ultimately show ?thesis
    unfolding ngx_parse_http_time_def start Let_def prod.case
    by (intro no_overrun_if) (simp_all only: no_overrun_simps not_less)
qed

section \<open>What the printer writes\<close>


definition pad_num :: "u8 \<Rightarrow> nat \<Rightarrow> nat \<Rightarrow> ngx_str" where
  "pad_num z w n = replicate (w - length (dec_string n)) z @ dec_string n"

lemma arg32_nat:
  assumes "0 \<le> n" "n < 2 ^ 31"
  shows "sint (scast (word_of_int n :: u32) :: u64) = n" "unat (scast (word_of_int n :: u32) :: u64) = nat n"
proof -
  have s: "sint (word_of_int n :: u32) = n"
    using assms by (subst sint_uint) (simp add: take_bit_int_eq_self signed_take_bit_int_eq_self unsigned_of_int)
  have a: "(scast (word_of_int n :: u32) :: u64) = word_of_int n"
    by (simp only: scast_eq s)
  show "sint (scast (word_of_int n :: u32) :: u64) = n"
    unfolding a using assms by (subst sint_uint) (simp add: take_bit_int_eq_self signed_take_bit_int_eq_self unsigned_of_int)
  show "unat (scast (word_of_int n :: u32) :: u64) = nat n"
    unfolding a using assms by (simp add: unat_eq_nat_uint take_bit_int_eq_self unsigned_of_int)
qed

lemma emit_num32:
  assumes "0 \<le> n" "n < 2 ^ 31" "sign k" "hex k = 0" "length (pad_num (zero k) (width k) (nat n)) \<le> room"
  shows "emit_num room k (scast (word_of_int n :: u32)) = pad_num (zero k) (width k) (nat n)"
  using assms by (simp add: emit_num_def emit_signed_def arg32_nat put_num_def sprintf_num_text num_text_def pad_num_def)

lemma convert_02d:
  "convert room (48 # 50 # 100 # fmt) (Arg32 v # args) =
     Some (emit_num room \<lparr>zero = 48, width = Suc (Suc 0), sign = True, hex = 0,
        max_width = False, frac_width = 0, slen = None\<rparr> (scast v), fmt, args)"
  by (simp add: convert_def scan_conv_def is_digit_def conv_letters_def conv_num_def Let_def)

lemma convert_4d:
  "convert room (52 # 100 # fmt) (Arg32 v # args) =
     Some (emit_num room \<lparr>zero = 32, width = 4, sign = True, hex = 0,
        max_width = False, frac_width = 0, slen = None\<rparr> (scast v), fmt, args)"
  by (simp add: convert_def scan_conv_def is_digit_def conv_letters_def conv_num_def Let_def)

definition two :: "nat \<Rightarrow> ngx_str" where
  "two n = [word_of_nat (n div 10 + 48), word_of_nat (n mod 10 + 48)]"

lemma pad_two: "n < 100 \<Longrightarrow> pad_num 48 (Suc (Suc 0)) n = two n"
  by (simp add: pad_num_def two_def dec_string.simps [of n] dec_string.simps [of "n div 10"]
    div_less_iff_less_mult del: of_nat_add)

lemma pad_four:
  assumes "1000 \<le> n" "n < 10000" shows "pad_num z 4 n = two (n div 100) @ two (n mod 100)"
proof -
  have d: "n div 10 div 10 = n div 100" "n div 10 mod 10 = n mod 100 div 10" "n mod 100 mod 10 = n mod 10"
      "n div 100 div 10 < 10" "\<not> n div 100 < 10" "\<not> n div 10 < 10"  "\<not> n < 10"
    using assms by (simp_all add: div_mult2_eq [symmetric] mod_mult2_eq [of n 10 10, simplified] div_less_iff_less_mult less_eq_div_iff_mult_less_eq not_less mod_mod_cancel)
  show ?thesis
    by (simp add: pad_num_def two_def dec_string.simps [of n] dec_string.simps [of "n div 10"]
     dec_string.simps [of "n div 100"] dec_string.simps [of "n div 100 div 10"] d del: of_nat_add div_mult2_eq)
qed

lemma vslprintf_char:
  "0 < room \<Longrightarrow> c \<noteq> 37 \<Longrightarrow>
    ngx_vslprintf room (c # fmt) args = map_option ((#) c) (ngx_vslprintf (room - 1) fmt args)"
  by (simp add: ngx_vslprintf.simps(2))

lemma vslprintf_s:
  "length s < room \<Longrightarrow>
    ngx_vslprintf room (37 # 115 # fmt) (ArgChars s # args)
      = map_option ((@) s) (ngx_vslprintf (room - length s) fmt args)"
  by (simp add: ngx_vslprintf.simps(2) convert_def scan_conv_def is_digit_def conv_letters_def
    conv_text_def ngx_sprintf_str_def Let_def)

lemma length_two [simp]: "length (two n) = 2"
  by (simp add: two_def)

lemma vslprintf_02d:
  assumes "0 \<le> n" "n < 100" "2 < room"
  shows "ngx_vslprintf room (37 # 48 # 50 # 100 # fmt) (Arg32 (word_of_int n) # args)
      = map_option ((@) (two (nat n))) (ngx_vslprintf (room - 2) fmt args)"
proof -
  have "nat n < 100" using assms by simp
  from pad_two [OF this] assms show ?thesis
    by (simp add: ngx_vslprintf.simps(2) convert_02d emit_num32)
qed

lemma vslprintf_4d:
  assumes "1000 \<le> n" "n < 10000" "4 < room"
  shows "ngx_vslprintf room (37 # 52 # 100 # fmt) (Arg32 (word_of_int n) # args)
      = map_option ((@) (two (nat n div 100) @ two (nat n mod 100))) (ngx_vslprintf (room - 4) fmt args)"
proof -
  have "1000 \<le> nat n" "nat n < 10000" using assms by simp_all
  from pad_four [OF this] assms show ?thesis
    by (simp add: ngx_vslprintf.simps(2) convert_4d emit_num32)
qed

definition date_text :: "ngx_tm \<Rightarrow> ngx_str" where
  "date_text tm = week ! nat (tm_wday tm) @ bytes '', '' @ two (nat (tm_mday tm)) @ bytes '' ''
     @ months ! nat (tm_mon tm - 1) @ bytes '' ''
     @ two (nat (tm_year tm) div 100) @ two (nat (tm_year tm) mod 100) @ bytes '' ''
     @ two (nat (tm_hour tm)) @ bytes '':'' @ two (nat (tm_min tm)) @ bytes '':''
     @ two (nat (tm_sec tm)) @ bytes '' GMT''"

lemma gmtime_fields:
  "0 \<le> tm_mday (ngx_gmtime t) \<and> tm_mday (ngx_gmtime t) \<le> 31"
  "1 \<le> tm_mon (ngx_gmtime t) \<and> tm_mon (ngx_gmtime t) \<le> 12"
  using gmtime_correct(1) [of t] by (auto simp: date_valid_def month_days_def split: if_splits)

lemma week_length: "w \<in> set week \<Longrightarrow> length w = 3"
  by (auto simp: week_def)

lemma month_length: "w \<in> set months \<Longrightarrow> length w = 3"
  by (auto simp: months_def)

lemma day_month_length:
  "length (week ! nat (tm_wday (ngx_gmtime t))) = 3" "length (months ! nat (tm_mon (ngx_gmtime t) - 1)) = 3"
proof -
  have "nat (tm_wday (ngx_gmtime t)) < length week" "nat (tm_mon (ngx_gmtime t) - 1) < length months"
    using gmtime_correct(7) [of t] gmtime_fields(2) [of t] by (auto simp: week_def months_def)
  then show "length (week ! nat (tm_wday (ngx_gmtime t))) = 3" "length (months ! nat (tm_mon (ngx_gmtime t) - 1)) = 3"
    by (simp_all add: week_length month_length)
qed

lemma http_time_text: "ngx_http_time t = Some (date_text (ngx_gmtime t))"
proof -
  note b = gmtime_fields [of t] gmtime_correct(4-6) [of t] gmtime_year [of t] day_month_length [of t]
  show ?thesis
    using b by (simp add: ngx_http_time_def ngx_sprintf_def Let_def date_text_def
      vslprintf_char vslprintf_s vslprintf_02d vslprintf_4d)
qed

section \<open>The parser reads what the printer writes\<close>


lemma two_digits:
  assumes "n < 100"
  shows "is_digit (word_of_nat (n div 10 + 48))" "is_digit (word_of_nat (n mod 10 + 48))"
    "digit_of (word_of_nat (n div 10 + 48)) = int n div 10" "digit_of (word_of_nat (n mod 10 + 48)) = int n mod 10"
proof -
  have "n div 10 < 10" "n mod 10 < 10" using assms by (simp_all add: div_less_iff_less_mult)
  note u = this [THEN uint_digit_byte]
  show "is_digit (word_of_nat (n div 10 + 48))" "is_digit (word_of_nat (n mod 10 + 48))"
    "digit_of (word_of_nat (n div 10 + 48)) = int n div 10" "digit_of (word_of_nat (n mod 10 + 48)) = int n mod 10"
    using assms by (simp_all add: is_digit_uint digit_of_def u zdiv_int zmod_int del: of_nat_add) presburger
qed

lemma rd_2_two: "n < 100 \<Longrightarrow> rd_2 (two n @ r) = Inr (int n)"
  by (simp add: rd_2_def rd_digit_def peek_def two_def two_digits del: of_nat_add)

lemma drop_two: "drop 2 (two n @ r) = r"
  by (simp add: two_def)

lemma rd_4_two: "n < 100 \<Longrightarrow> m < 100 \<Longrightarrow> rd_4 (two n @ two m @ r) = Inr (100 * int n + int m)"
  by (simp add: rd_4_def rd_digit_def peek_def two_def two_digits del: of_nat_add) presburger

lemma drop_four: "drop 4 (two n @ two m @ r) = r"
  by (simp add: two_def)

lemma expect_char: "expect c (c # r) = Inr r"
  by (simp add: expect_def peek_def)

lemma skip_week: "w \<in> set week \<Longrightarrow> skip_weekday (w @ 44 # r) = (fmt_no, r)"
  by (auto simp: week_def)

lemma month_months:
  assumes "i < 12"
  shows "http_time_month (months ! i @ r) = Inr (int i)"
proof -
  have "i \<in> set [0..<12]" using assms by simp
  then show ?thesis
    unfolding upt_rec_numeral
    by (simp add: upt_rec) (elim disjE; simp add: months_def http_time_month_def peek_def)
qed

lemma clock_text:
  assumes "h < 100" "m < 100" "s < 100"
  shows "http_time_clock (32 # two h @ 58 # two m @ 58 # two s @ r) = Inr (int h, int m, int s, r)"
  using assms by (simp add: http_time_clock_def expect_def peek_def rd_2_two drop_two)


lemma time_range:
  assumes "date_valid y m d" "1970 \<le> y" "y \<le> 9999" "0 \<le> h" "h \<le> 23" "0 \<le> mi" "mi \<le> 59" "0 \<le> s" "s \<le> 59"
  shows "0 \<le> gauss_days y m d * 86400 + h * 3600 + mi * 60 + s
    \<and> gauss_days y m d * 86400 + h * 3600 + mi * 60 + s < 2 ^ 63"
proof -
  have v: "1 \<le> m" "m \<le> 12" "1 \<le> d" "d \<le> 31"
    using assms(1) by (auto simp: date_valid_def month_days_def split: if_splits)
  have m: "m \<in> {1, 2, 3, 4, 5, 6, 7, 8, 9, 10, 11, 12}" using v by simp presburger
  have vals: "march_days 1969 = 719162" "march_days 1970 = 719527" "march_days 9999 = 3652059"
    by (simp_all add: march_days_def)
  have "march_days 1969 \<le> march_days (y - 1)" "march_days y \<le> march_days 9999" "march_days 1970 \<le> march_days y"
     "march_days (y - 1) \<le> march_days 9999"
    using assms(2,3) by (auto intro: march_days_mono)
  note years = this [unfolded vals]
  have "0 \<le> gauss_days y m d" "gauss_days y m d < 4000000"
    using m v(3,4) years unfolding gauss_days_march by (elim insertE emptyE; simp)+
  then show ?thesis using assms by simp
qed

lemma leap_test: "(y AND 3 \<noteq> 0 \<or> (y mod 100 = 0 \<and> y mod 400 \<noteq> 0)) \<longleftrightarrow> \<not> leap_year (y::int)"
proof -
  have "y AND 3 = y mod 4" using take_bit_eq_mask [of 2 y] by (simp add: take_bit_eq_mod mask_eq_exp_minus_1)
  then show ?thesis by (auto simp: leap_year_def)
qed

lemma http_time_value_date:
  assumes "date_valid y (mo + 1) d" "1970 \<le> y" "y \<le> 9999" "0 \<le> h" "h \<le> 23" "0 \<le> mi" "mi \<le> 59" "0 \<le> s" "s \<le> 59"
  shows "http_time_value d mo y h mi s = Inr (gauss_days y (mo + 1) d * 86400 + h * 3600 + mi * 60 + s)"
proof -
  have v: "0 \<le> mo" "mo \<le> 11" "1 \<le> d" "d \<le> month_days y (mo + 1)"
    using assms(1) by (auto simp: date_valid_def)
  have mo: "mo \<in> {0, 1, 2, 3, 4, 5, 6, 7, 8, 9, 10, 11}" using v by simp presburger
  have "\<not> (if d = 29 \<and> mo = 1 then y AND 3 \<noteq> 0 \<or> (y mod 100 = 0 \<and> y mod 400 \<noteq> 0) else mday_table ! nat mo < d)"
  proof (cases "d = 29 \<and> mo = 1")
    case True
    with v(4) show ?thesis by (simp only: leap_test) (simp add: month_days_def split: if_splits)
  next
    case False
    then show ?thesis
      using v(4) mo by (elim insertE emptyE) (auto simp: month_days_def mday_table_def split: if_splits)
  qed
  moreover define P where "P month year = (365 * year + year div 4 - year div 100 + year div 400
                     + 367 * month div 12 - 30 + d - 1 - 719527 + 31 + 28) * 86400 + h * 3600 + mi * 60 + s"
    for month year :: int
  define T where "T = gauss_days y (mo + 1) d * 86400 + h * 3600 + mi * 60 + s"
  have y: "(y - 1) mod 2 ^ 64 = y - 1" using assms(2,3) by simp
  have "P (mo - 1 + 12) (y - 1) = T" if "mo - 1 \<le> 0"
    unfolding P_def T_def gauss_days_def Let_def using that by simp
  moreover have "P (mo - 1) y = T" if "\<not> mo - 1 \<le> 0"
    unfolding P_def T_def gauss_days_def Let_def using that by simp
  moreover have "T mod 2 ^ 64 = T" "T < 2 ^ 63"
    using time_range [OF assms] unfolding T_def [symmetric] by simp_all
  moreover have "\<not> (23 < h \<or> 59 < mi \<or> 59 < s)" using assms by simp
  ultimately show ?thesis
    unfolding http_time_value_def T_def [symmetric] P_def [symmetric] Let_def y
    by (cases "mo - 1 \<le> 0") (simp_all only: if_False if_True prod.case simp_thms)
qed

lemma two_skip:
  assumes "n < 100"
  shows "dropWhile (\<lambda>c. c = 32) (two n @ r) = two n @ r"
proof -
  have "is_digit c \<Longrightarrow> c \<noteq> 32" for c by (auto simp: is_digit_def)
  from this [OF two_digits(1) [OF assms]] show ?thesis
    unfolding two_def by (simp del: of_nat_add)
qed

lemma parse_date_text:
  fixes t :: int
  shows "ngx_parse_http_time (date_text (ngx_gmtime t)) = Inr (clamp_time t)"
proof -
  define tm where "tm = ngx_gmtime t"
  note c = gmtime_correct [of t, folded tm_def] and f = gmtime_fields [of t, folded tm_def]
    and y = gmtime_year [of t, folded tm_def]
  have week_count: "nat (tm_wday tm) < length week" using c(7) unfolding week_def by (auto simp: nat_less_iff)
  define w mo where "w = week ! nat (tm_wday tm)" and "mo = nat (tm_mon tm - 1)"
  have w: "week ! nat (tm_wday tm) = w" "w \<in> set week"
    using nth_mem [OF week_count] by (simp_all only: w_def)
  have mo: "nat (tm_mon tm - 1) = mo" "mo < 12" "int mo = tm_mon tm - 1"
    using f(2) unfolding mo_def by linarith+
  have "mo < length months" using mo(2) by (simp add: months_def)
  from month_length [OF nth_mem [OF this]]
  have ml: "length (months ! mo) = 3" "months ! mo \<noteq> []" by auto
  let ?d = "nat (tm_mday tm)" and ?y = "nat (tm_year tm)"
  let ?h = "nat (tm_hour tm)" and ?m = "nat (tm_min tm)" and ?s = "nat (tm_sec tm)"
  let ?clock = "32 # two ?h @ 58 # two ?m @ 58 # two ?s @ [32, 71, 77, 84]"
  let ?yc = "two (?y div 100) @ two (?y mod 100) @ ?clock"
  have lt: "?d < 100" "?h < 100" "?m < 100" "?s < 100" "?y div 100 < 100" "?y mod 100 < 100"
    using f c(4-6) y by (auto simp: div_less_iff_less_mult nat_less_iff)
  have dt: "date_text tm = w @ 44 # 32 # two ?d @ 32 # months ! mo @ 32 # ?yc"
    by (simp add: date_text_def w(1) mo(1))
  have start: "skip_weekday (date_text tm) = (fmt_no, 32 # two ?d @ 32 # months ! mo @ 32 # ?yc)"
    unfolding dt by (rule skip_week [OF w(2)])
  have day: "http_time_day (two ?d @ 32 # months ! mo @ 32 # ?yc) = Inr (rfc822, int ?d, months ! mo @ 32 # ?yc)"
    using ml by (simp add: http_time_day_def rd_2_two lt drop_two peek_def)
  have yy: "100 * int (?y div 100) + int (?y mod 100) = tm_year tm"
    using y by (simp add: zdiv_int zmod_int)
  have year: "http_time_year rfc822 ?yc = Inr (tm_year tm, ?clock)"
    using yy by (simp add: http_time_year_def rd_4_two lt drop_four)

  have val: "http_time_value (tm_mday tm) (int mo) (tm_year tm) (tm_hour tm) (tm_min tm) (tm_sec tm)
     = Inr (clamp_time t)"
  proof -
    have "gauss_days (tm_year tm) (int mo + 1) (tm_mday tm) * 86400 + tm_hour tm * 3600 + tm_min tm * 60 + tm_sec tm
      = clamp_time t"
    proof -
      have "int mo + 1 = tm_mon tm" using mo(3) by simp
      then show ?thesis
        using c(3) div_mult_mod_eq [of "clamp_time t" 86400] by (simp only: c(2))
    qed
    then show ?thesis using http_time_value_date [of "tm_year tm" "int mo" "tm_mday tm" "tm_hour tm" "tm_min tm" "tm_sec tm"]
      c(1,4-6) y mo(3) by simp
  qed
  have "http_time_rest rfc822 (int ?d) (months ! mo @ 32 # ?yc) = Inr (clamp_time t)"
    using f c(4-6) val
    by (simp add: http_time_rest_def month_months [OF mo(2)] ml expect_char year clock_text lt)
  then show ?thesis
    using ml by (simp add: ngx_parse_http_time_def tm_def [symmetric] start two_skip [OF lt(1)] day Let_def)
qed

section \<open>The date of a cookie\<close>

definition cookie_text :: "ngx_tm \<Rightarrow> ngx_str" where
  "cookie_text tm = week ! nat (tm_wday tm) @ bytes '', '' @ two (nat (tm_mday tm)) @ bytes ''-''
     @ months ! nat (tm_mon tm - 1) @ bytes ''-''
     @ (if 2037 < tm_year tm then two (nat (tm_year tm) div 100) else []) @ two (nat (tm_year tm) mod 100) @ bytes '' ''
     @ two (nat (tm_hour tm)) @ bytes '':'' @ two (nat (tm_min tm)) @ bytes '':''
     @ two (nat (tm_sec tm)) @ bytes '' GMT''"

lemma convert_d:
  "convert room (100 # fmt) (Arg32 v # args) =
     Some (emit_num room \<lparr>zero = 32, width = 0, sign = True, hex = 0,
        max_width = False, frac_width = 0, slen = None\<rparr> (scast v), fmt, args)"
  by (simp add: convert_def scan_conv_def is_digit_def conv_letters_def conv_num_def Let_def)

lemma vslprintf_d:
  assumes "1000 \<le> n" "n < 10000" "4 < room"
  shows "ngx_vslprintf room (37 # 100 # fmt) (Arg32 (word_of_int n) # args)
      = map_option ((@) (two (nat n div 100) @ two (nat n mod 100))) (ngx_vslprintf (room - 4) fmt args)"
proof -
  have "1000 \<le> nat n" "nat n < 10000" using assms by simp_all
  from pad_four [OF this, of 32]
  have four: "replicate (4 - length (dec_string (nat n))) 32 @ dec_string (nat n) = two (nat n div 100) @ two (nat n mod 100)"
    by (simp add: pad_num_def)
  have "\<not> length (dec_string (nat n)) < 4"
  proof
    assume "length (dec_string (nat n)) < 4"
    then obtain k where "4 - length (dec_string (nat n)) = Suc k" by (metis Suc_diff_Suc)
    with four have "hd (two (nat n div 100)) = 32" by (simp add: two_def) 
    with \<open>nat n < 10000\<close> two_digits(1) [of "nat n div 100"] show False
      by (simp add: two_def is_digit_def div_less_iff_less_mult del: of_nat_add)
  qed
  with four have "pad_num 32 0 (nat n) = two (nat n div 100) @ two (nat n mod 100)"
    by (simp add: pad_num_def)
  with assms show ?thesis
    by (simp add: ngx_vslprintf.simps(2) convert_d emit_num32)
qed

lemma cookie_time_text: "ngx_http_cookie_time t = Some (cookie_text (ngx_gmtime t))"
proof (cases "2037 < tm_year (ngx_gmtime t)")
  case True
  note b = gmtime_fields [of t] gmtime_correct(4-6) [of t] gmtime_year [of t] day_month_length [of t]
  show ?thesis
    using b True by (simp add: ngx_http_cookie_time_def ngx_sprintf_def Let_def cookie_text_def
      vslprintf_char vslprintf_s vslprintf_02d vslprintf_d)
next
  case False
  note b = gmtime_fields [of t] gmtime_correct(4-6) [of t] gmtime_year [of t] day_month_length [of t]
  have "nat (tm_year (ngx_gmtime t) mod 100) = nat (tm_year (ngx_gmtime t)) mod 100"
    using b by (simp add: nat_mod_distrib)
  then show ?thesis
    using b False by (simp add: ngx_http_cookie_time_def ngx_sprintf_def Let_def cookie_text_def
      vslprintf_char vslprintf_s vslprintf_02d)
qed

section \<open>Properties\<close>

text \<open>C35: The date parser reads what the date printer writes: for every time, cut to the years
  1970 to 9999 as the printer does, \<^verbatim>\<open>ngx_parse_http_time\<close> of the text of
  \<^verbatim>\<open>ngx_http_time\<close> is that time, so \<^verbatim>\<open>Last-Modified\<close> and \<^verbatim>\<open>If-Modified-Since\<close> agree.\<close>

theorem http_time_round_trip:
  "map_option ngx_parse_http_time (ngx_http_time t) = Some (Inr (clamp_time t))"
  by (simp add: http_time_text parse_date_text)

text \<open>The date parser never reads past the end of the value, whatever the bytes are: its three
  length checks are enough for every pointer step of the three formats.\<close>

theorem parse_http_time_in_bounds: "ngx_parse_http_time v \<noteq> Inl Overrun"
  using parse_no_overrun [of v] by (simp add: no_overrun_def)

end
