(* ===== verification/Ngx_Scanner.thy ===== *)
theory Ngx_Scanner
  imports Ngx_Prelude
begin

text \<open>
  The shape that the incremental parsers of the server share: a loop over the bytes of a
  buffer with a \<^verbatim>\<open>switch\<close> on a state that survives in the request when the buffer ends
  (\<^verbatim>\<open>NGX_AGAIN\<close>), so that the parser goes on when more bytes have been read.  A pointer into
  the buffer is an offset from its first byte, \<^verbatim>\<open>NULL\<close> is \<open>None\<close>, and what has been read
  later is appended.
\<close>

section \<open>The loop\<close>

datatype ('e, 's) outcome = Next 's | Halt 'e 's

datatype ('e, 's) scanned = Again 's | Halted 'e nat 's

function scan :: "(ngx_str \<Rightarrow> nat \<Rightarrow> u8 \<Rightarrow> 's \<Rightarrow> ('e, 's) outcome) \<Rightarrow> ngx_str \<Rightarrow> nat \<Rightarrow> 's \<Rightarrow> ('e, 's) scanned" where
  "scan step buf p s =
     (if p < length buf then
        (case step buf p (buf ! p) s of
           Next s' \<Rightarrow> scan step buf (Suc p) s'
         | Halt e s' \<Rightarrow> Halted e p s')
      else Again s)"
  by pat_completeness auto
termination
  by (relation "measure (\<lambda>(step, buf, p, s). length buf - p)") auto

declare scan.simps [simp del]

lemma scan_end [simp]: "length buf \<le> p \<Longrightarrow> scan step buf p s = Again s"
  by (simp add: scan.simps)

lemma scan_next: "p < length buf \<Longrightarrow> step buf p (buf ! p) s = Next s' \<Longrightarrow>
    scan step buf p s = scan step buf (Suc p) s'"
  by (simp add: scan.simps [of step buf p])

lemma scan_halt: "p < length buf \<Longrightarrow> step buf p (buf ! p) s = Halt e s' \<Longrightarrow>
    scan step buf p s = Halted e p s'"
  by (simp add: scan.simps [of step buf p])

text \<open>
  An invariant of the state at a position, and what holds where the loop stops: the proof
  obligation is one step.
\<close>

lemma scan_invariant:
  assumes "\<And>p s. I p s \<Longrightarrow> p < length buf \<Longrightarrow>
      (case step buf p (buf ! p) s of Next s' \<Rightarrow> I (Suc p) s' | Halt e s' \<Rightarrow> J e p s')"
    and "I p s" "p \<le> length buf"
  shows "case scan step buf p s of Again s' \<Rightarrow> I (length buf) s' | Halted e q s' \<Rightarrow> J e q s' \<and> p \<le> q \<and> q < length buf"
  using assms(2,3)
proof (induction "length buf - p" arbitrary: p s)
  case 0
  then show ?case by simp
next
  case (Suc n)
  then have p: "p < length buf" by simp
  show ?case
  proof (cases "step buf p (buf ! p) s")
    case (Next s')
    then have "I (Suc p) s'" using assms(1) [OF Suc.prems(1) p] by simp
    from Suc.hyps(1) [OF _ this] Suc.hyps(2) p
    have "case scan step buf (Suc p) s' of Again t \<Rightarrow> I (length buf) t
      | Halted e q t \<Rightarrow> J e q t \<and> Suc p \<le> q \<and> q < length buf" by simp
    then show ?thesis
      by (cases "scan step buf (Suc p) s'") (simp_all add: scan_next [where step = step, OF p Next])
  next
    case (Halt e s')
    then show ?thesis
      using assms(1) [OF Suc.prems(1) p] p by (simp add: scan_halt [where step = step, OF p Halt])
  qed
qed

text \<open>A run over bytes that a step accepts without leaving a state.\<close>

lemma scan_run:
  assumes "\<And>q s. p \<le> q \<Longrightarrow> q < p + n \<Longrightarrow> I q s \<Longrightarrow> \<exists>s'. step buf q (buf ! q) s = Next s' \<and> I (Suc q) s'"
    and "I p s" "p + n \<le> length buf"
  shows "\<exists>s'. scan step buf p s = scan step buf (p + n) s' \<and> I (p + n) s'"
  using assms
proof (induction n arbitrary: p s)
  case (Suc n)
  from Suc.prems(1) [of p s] Suc.prems(2,3)
  obtain s' where s': "step buf p (buf ! p) s = Next s'" "I (Suc p) s'" by auto
  have "\<exists>t. scan step buf (Suc p) s' = scan step buf (Suc p + n) t \<and> I (Suc p + n) t"
    using Suc.prems s' by (intro Suc.IH) auto
  then show ?case
    using scan_next [of p buf step s s'] s'(1) Suc.prems(3) by auto
qed auto

text \<open>The bytes \<open>cs\<close> at \<open>p\<close>, whatever else the buffer holds.\<close>

fun eat :: "(ngx_str \<Rightarrow> nat \<Rightarrow> u8 \<Rightarrow> 's \<Rightarrow> ('e, 's) outcome) \<Rightarrow> ngx_str \<Rightarrow> nat \<Rightarrow> ngx_str \<Rightarrow> 's \<Rightarrow> ('e, 's) scanned" where
  "eat step buf p [] s = Again s"
| "eat step buf p (c # cs) s =
     (case step buf p c s of Next s' \<Rightarrow> eat step buf (Suc p) cs s' | Halt e s' \<Rightarrow> Halted e p s')"

definition holds_at :: "ngx_str \<Rightarrow> nat \<Rightarrow> ngx_str \<Rightarrow> bool" where
  "holds_at buf p cs \<longleftrightarrow> take (length cs) (drop p buf) = cs"

lemma holds_at_Cons: "holds_at buf p (c # cs) \<longleftrightarrow> p < length buf \<and> buf ! p = c \<and> holds_at buf (Suc p) cs"
proof (cases "p < length buf")
  case True
  then have "drop p buf = buf ! p # drop (Suc p) buf" by (rule Cons_nth_drop_Suc [symmetric])
  with True show ?thesis by (simp add: holds_at_def)
qed (simp add: holds_at_def)

lemma holds_at_append: "holds_at buf p (xs @ ys) \<longleftrightarrow> holds_at buf p xs \<and> holds_at buf (p + length xs) ys"
  by (induction xs arbitrary: p) (simp_all add: holds_at_Cons, simp add: holds_at_def)

lemma holds_at_there [simp]: "holds_at (pre @ cs @ post) (length pre) cs"
  by (simp add: holds_at_def)

lemma holds_at_nth: "holds_at buf p cs \<Longrightarrow> i < length cs \<Longrightarrow> buf ! (p + i) = cs ! i"
proof (induction cs arbitrary: p i)
  case (Cons c cs)
  then show ?case
    using Cons.IH [of "Suc p" "i - 1"] by (cases i) (auto simp: holds_at_Cons)
qed simp

lemma holds_at_length: "holds_at buf p cs \<Longrightarrow> p \<le> length buf \<Longrightarrow> p + length cs \<le> length buf"
proof (induction cs arbitrary: p)
  case (Cons c cs)
  then show ?case using Cons.IH [of "Suc p"] by (simp add: holds_at_Cons)
qed simp

lemma scan_eat:
  "holds_at buf p cs \<Longrightarrow> scan step buf p s =
     (case eat step buf p cs s of
        Again s' \<Rightarrow> scan step buf (p + length cs) s'
      | Halted e q s' \<Rightarrow> Halted e q s')"
proof (induction cs arbitrary: p s)
  case (Cons c cs)
  then show ?case
    by (cases "step buf p c s") (simp_all add: holds_at_Cons scan.simps [of step buf p s] split: scanned.split)
qed (simp split: scanned.split)

text \<open>Any number of cuts: the pieces one after the other are the whole.\<close>

fun feed :: "(ngx_str \<Rightarrow> nat \<Rightarrow> u8 \<Rightarrow> 's \<Rightarrow> ('e, 's) outcome) \<Rightarrow> ngx_str \<Rightarrow> ngx_str list \<Rightarrow> ('e, 's) scanned \<Rightarrow> ('e, 's) scanned" where
  "feed step buf [] res = res"
| "feed step buf (piece # pieces) (Again s) = feed step (buf @ piece) pieces (scan step (buf @ piece) (length buf) s)"
| "feed step buf pieces (Halted e q s) = Halted e q s"

lemma feed_halted [simp]: "feed step buf pieces (Halted e q s) = Halted e q s"
  by (cases pieces) simp_all

section \<open>The contract of a resumable parser\<close>

text \<open>
  A step may read the buffer before the current byte (the request line looks back at its
  method) but nothing after it.  Then the places where the input was cut do not matter.
\<close>

locale resumable =
  fixes step :: "ngx_str \<Rightarrow> nat \<Rightarrow> u8 \<Rightarrow> 's \<Rightarrow> ('e, 's) outcome"
  assumes looks_back: "p < length buf \<Longrightarrow> step (buf @ more) p c s = step buf p c s"
begin

lemma resume:
  assumes "p \<le> length buf"
  shows "scan step (buf @ more) p s =
    (case scan step buf p s of
       Again s' \<Rightarrow> scan step (buf @ more) (length buf) s'
     | Halted e q s' \<Rightarrow> Halted e q s')"
  using assms
proof (induction "length buf - p" arbitrary: p s)
  case 0
  then show ?case by simp
next
  case (Suc n)
  then have p: "p < length buf" by simp
  then have same: "step (buf @ more) p ((buf @ more) ! p) s = step buf p (buf ! p) s"
    by (simp add: looks_back nth_append)
  have p': "p < length (buf @ more)" using p by simp
  show ?case
  proof (cases "step buf p (buf ! p) s")
    case (Next s')
    with Suc p same show ?thesis
      by (simp add: scan_next [where step = step, OF p Next] scan_next [where step = step, OF p' same [unfolded Next]])
  next
    case (Halt e s')
    with same show ?thesis
      by (simp add: scan_halt [where step = step, OF p Halt] scan_halt [where step = step, OF p' same [unfolded Halt]])
  qed
qed

lemma feed_whole:
  "p \<le> length buf \<Longrightarrow> feed step buf pieces (scan step buf p s) = scan step (buf @ concat pieces) p s"
proof (induction pieces arbitrary: buf p s)
  case (Cons piece pieces)
  show ?case
  proof (cases "scan step buf p s")
    case (Again s')
    with Cons show ?thesis
      using resume [of p buf "piece @ concat pieces" s] by simp
  next
    case (Halted e q s')
    then show ?thesis
      using resume [OF Cons.prems, of "piece @ concat pieces" s] by simp
  qed
qed simp

end

section \<open>Bytes that a parser takes as they are\<close>

text \<open>A bit table of bytes: \<^verbatim>\<open>usual[ch >> 5] & (1U << (ch & 0x1f))\<close>.\<close>

definition in_table :: "u32 list \<Rightarrow> u8 \<Rightarrow> bool" where
  "in_table tab ch \<longleftrightarrow> (tab ! unat (drop_bit 5 ch)) AND push_bit (unat (ch AND 0x1f)) 1 \<noteq> 0"

text \<open>\<^verbatim>\<open>c = (u_char) (ch | 0x20); c >= 'a' && c <= 'z'\<close>.\<close>

definition is_alpha :: "u8 \<Rightarrow> bool" where
  "is_alpha ch \<longleftrightarrow> chr CHR ''a'' \<le> ch OR 0x20 \<and> ch OR 0x20 \<le> chr CHR ''z''"

text \<open>A hexadecimal digit as the parsers read it: first a decimal digit, then the letters.\<close>

definition hex_nibble :: "u8 \<Rightarrow> u8 option" where
  "hex_nibble ch =
     (if is_digit ch then Some (ch - 48)
      else let c = ch OR 0x20 in
        if chr CHR ''a'' \<le> c \<and> c \<le> chr CHR ''f'' then Some (c - 97 + 10) else None)"

lemma hex_nibble_bound: "hex_nibble c = Some x \<Longrightarrow> uint x < 16"
proof -
  have "\<forall>c. case hex_nibble c of None \<Rightarrow> True | Some x \<Rightarrow> uint x < 16"
    unfolding all_byte by (simp add: upto_rec1 hex_nibble_def is_digit_uint)
  then show "hex_nibble c = Some x \<Longrightarrow> uint x < 16" by (metis option.simps(5))
qed

end
