(* ===== verification/Ngx_Http_Request.thy ===== *)
theory Ngx_Http_Request
  imports Ngx_Scanner
begin

text \<open>
  The request line: \<^verbatim>\<open>ngx_http_parse_request_line\<close> of \<^verbatim>\<open>http/ngx_http_parse.c\<close>.  The
  fields of \<^verbatim>\<open>ngx_http_request_t\<close> that it keeps are a record; a pointer is an offset into
  the buffer.  The \<^verbatim>\<open>switch\<close> over its states is split by the part of the line it reads:
  the method, the absolute form before the path, the path, the version.
\<close>

section \<open>The state of the parser\<close>

datatype http_parse_rc = HTTP_OK | HTTP_AGAIN | HTTP_PARSE_HEADER_DONE
  | HTTP_PARSE_INVALID_METHOD | HTTP_PARSE_INVALID_REQUEST | HTTP_PARSE_INVALID_VERSION
  | HTTP_PARSE_INVALID_09_METHOD | HTTP_PARSE_INVALID_HEADER

datatype http_method = HTTP_UNKNOWN | HTTP_GET | HTTP_HEAD | HTTP_POST | HTTP_PUT | HTTP_DELETE
  | HTTP_MKCOL | HTTP_COPY | HTTP_MOVE | HTTP_OPTIONS | HTTP_PROPFIND | HTTP_PROPPATCH
  | HTTP_LOCK | HTTP_UNLOCK | HTTP_PATCH | HTTP_TRACE | HTTP_CONNECT

datatype rq_state = rq_start | rq_in_method | rq_spaces_before_uri | rq_schema | rq_schema_slash
  | rq_schema_slash_slash | rq_host_begin | rq_host | rq_host_stop | rq_host_ip_literal | rq_port
  | rq_after_slash_in_uri | rq_check_uri | rq_uri | rq_http_09 | rq_http_H | rq_http_HT
  | rq_http_HTT | rq_http_HTTP | rq_first_major_digit | rq_major_digit | rq_first_minor_digit
  | rq_minor_digit | rq_spaces_after_digit | rq_almost_done

record request_line =
  state :: rq_state
  http_method :: http_method
  request_start :: "nat option"
  request_end :: "nat option"
  method_end :: "nat option"
  schema_start :: "nat option"
  schema_end :: "nat option"
  host_start :: "nat option"
  host_end :: "nat option"
  port_end :: "nat option"
  uri_start :: "nat option"
  uri_end :: "nat option"
  uri_ext :: "nat option"
  args_start :: "nat option"
  http_protocol :: "nat option"
  complex_uri :: bool
  quoted_uri :: bool
  plus_in_uri :: bool
  empty_path_in_uri :: bool
  http_major :: nat
  http_minor :: nat
  http_version :: nat

text \<open>As \<^verbatim>\<open>ngx_http_alloc_request\<close> leaves it.\<close>

definition new_request :: request_line where
  "new_request = \<lparr>state = rq_start, http_method = HTTP_UNKNOWN, request_start = None,
     request_end = None, method_end = None, schema_start = None, schema_end = None,
     host_start = None, host_end = None, port_end = None, uri_start = None, uri_end = None,
     uri_ext = None, args_start = None, http_protocol = None, complex_uri = False,
     quoted_uri = False, plus_in_uri = False, empty_path_in_uri = False, http_major = 0,
     http_minor = 0, http_version = 1000\<rparr>"

type_synonym request_outcome = "(http_parse_rc, request_line) outcome"

section \<open>The method\<close>

definition usual :: "u32 list" where
  "usual = [0x00000000, 0x7fff37d6, 0xffffffff, 0x7fffffff, 0xffffffff, 0xffffffff, 0xffffffff, 0xffffffff]"

definition method_char :: "u8 \<Rightarrow> bool" where
  "method_char ch \<longleftrightarrow> (chr CHR ''A'' \<le> ch \<and> ch \<le> chr CHR ''Z'') \<or> ch = chr CHR ''_'' \<or> ch = chr CHR ''-''"

text \<open>\<open>m\<close> is what lies between \<^verbatim>\<open>request_start\<close> and the space.\<close>

definition lookup_method :: "ngx_str \<Rightarrow> http_method \<Rightarrow> http_method" where
  "lookup_method m unchanged =
     (if length m = 3 then
        (if m = bytes ''GET'' then HTTP_GET else if m = bytes ''PUT'' then HTTP_PUT else unchanged)
      else if length m = 4 then
        (if m ! 1 = chr CHR ''O'' then
           (if m = bytes ''POST'' then HTTP_POST else if m = bytes ''COPY'' then HTTP_COPY
            else if m = bytes ''MOVE'' then HTTP_MOVE else if m = bytes ''LOCK'' then HTTP_LOCK
            else unchanged)
         else if m = bytes ''HEAD'' then HTTP_HEAD else unchanged)
      else if length m = 5 then
        (if m = bytes ''MKCOL'' then HTTP_MKCOL else if m = bytes ''PATCH'' then HTTP_PATCH
         else if m = bytes ''TRACE'' then HTTP_TRACE else unchanged)
      else if length m = 6 then
        (if m = bytes ''DELETE'' then HTTP_DELETE else if m = bytes ''UNLOCK'' then HTTP_UNLOCK
         else unchanged)
      else if length m = 7 then
        (if m = bytes ''OPTIONS'' then HTTP_OPTIONS else if m = bytes ''CONNECT'' then HTTP_CONNECT
         else unchanged)
      else if length m = 8 then (if m = bytes ''PROPFIND'' then HTTP_PROPFIND else unchanged)
      else if length m = 9 then (if m = bytes ''PROPPATCH'' then HTTP_PROPPATCH else unchanged)
      else unchanged)"

definition slice :: "ngx_str \<Rightarrow> nat option \<Rightarrow> nat \<Rightarrow> ngx_str" where
  "slice buf from to = take (to - the from) (drop (the from) buf)"

definition method_step :: "ngx_str \<Rightarrow> nat \<Rightarrow> u8 \<Rightarrow> request_line \<Rightarrow> request_outcome" where
  "method_step buf p ch r =
     (case state r of
        rq_start \<Rightarrow>
          let r = r\<lparr>request_start := Some p\<rparr> in
          if ch = CR \<or> ch = LF then Next r
          else if \<not> method_char ch then Halt HTTP_PARSE_INVALID_METHOD r
          else Next (r\<lparr>state := rq_in_method\<rparr>)
      | _ \<Rightarrow>
          if ch = chr CHR '' '' then
            Next (r\<lparr>method_end := Some (p - 1),
                    http_method := lookup_method (slice buf (request_start r) p) (http_method r),
                    state := rq_spaces_before_uri\<rparr>)
          else if \<not> method_char ch then Halt HTTP_PARSE_INVALID_METHOD r
          else Next r)"

section \<open>The scheme and the host of the absolute form\<close>

definition expect_char :: "u8 \<Rightarrow> rq_state \<Rightarrow> u8 \<Rightarrow> request_line \<Rightarrow> request_outcome" where
  "expect_char c next ch r =
     (if ch = c then Next (r\<lparr>state := next\<rparr>) else Halt HTTP_PARSE_INVALID_REQUEST r)"

definition schema_step :: "nat \<Rightarrow> u8 \<Rightarrow> request_line \<Rightarrow> request_outcome" where
  "schema_step p ch r =
     (case state r of
        rq_spaces_before_uri \<Rightarrow>
          if ch = chr CHR ''/'' then Next (r\<lparr>uri_start := Some p, state := rq_after_slash_in_uri\<rparr>)
          else if is_alpha ch then Next (r\<lparr>schema_start := Some p, state := rq_schema\<rparr>)
          else if ch = chr CHR '' '' then Next r
          else Halt HTTP_PARSE_INVALID_REQUEST r
      | rq_schema \<Rightarrow>
          if is_alpha ch then Next r
          else if is_digit ch \<or> ch = chr CHR ''+'' \<or> ch = chr CHR ''-'' \<or> ch = chr CHR ''.'' then Next r
          else if ch = chr CHR '':'' then Next (r\<lparr>schema_end := Some p, state := rq_schema_slash\<rparr>)
          else Halt HTTP_PARSE_INVALID_REQUEST r
      | rq_schema_slash \<Rightarrow> expect_char (chr CHR ''/'') rq_schema_slash_slash ch r
      | _ \<Rightarrow> expect_char (chr CHR ''/'') rq_host_begin ch r)"

text \<open>
  What ends the host or the port.  After a space the URI is the single \<open>/\<close> behind the colon
  of the scheme.
\<close>

definition authority_end :: "nat \<Rightarrow> u8 \<Rightarrow> request_line \<Rightarrow> request_outcome" where
  "authority_end p ch r =
     (if ch = chr CHR ''/'' then Next (r\<lparr>uri_start := Some p, state := rq_after_slash_in_uri\<rparr>)
      else if ch = chr CHR ''?'' then
        Next (r\<lparr>uri_start := Some p, args_start := Some (p + 1), empty_path_in_uri := True, state := rq_uri\<rparr>)
      else if ch = chr CHR '' '' then
        Next (r\<lparr>uri_start := map_option (\<lambda>s. s + 1) (schema_end r),
                uri_end := map_option (\<lambda>s. s + 2) (schema_end r), state := rq_http_09\<rparr>)
      else Halt HTTP_PARSE_INVALID_REQUEST r)"

definition host_stop_step :: "nat \<Rightarrow> u8 \<Rightarrow> request_line \<Rightarrow> request_outcome" where
  "host_stop_step p ch r =
     (let r = r\<lparr>host_end := Some p\<rparr> in
      if ch = chr CHR '':'' then Next (r\<lparr>state := rq_port\<rparr>) else authority_end p ch r)"

definition host_char_step :: "nat \<Rightarrow> u8 \<Rightarrow> request_line \<Rightarrow> request_outcome" where
  "host_char_step p ch r =
     (if is_alpha ch then Next r
      else if is_digit ch \<or> ch = chr CHR ''.'' \<or> ch = chr CHR ''-'' then Next r
      else host_stop_step p ch r)"

definition ip_literal_chars :: "u8 set" where
  "ip_literal_chars = set (bytes '':-._~!$&()*+,;='') \<union> {39}"

definition host_step :: "nat \<Rightarrow> u8 \<Rightarrow> request_line \<Rightarrow> request_outcome" where
  "host_step p ch r =
     (case state r of
        rq_host_begin \<Rightarrow>
          let r = r\<lparr>host_start := Some p\<rparr> in
          if ch = chr CHR ''['' then Next (r\<lparr>state := rq_host_ip_literal\<rparr>)
          else host_char_step p ch (r\<lparr>state := rq_host\<rparr>)
      | rq_host \<Rightarrow> host_char_step p ch r
      | rq_host_stop \<Rightarrow> host_stop_step p ch r
      | rq_host_ip_literal \<Rightarrow>
          if is_digit ch then Next r
          else if is_alpha ch then Next r
          else if ch = chr CHR '']'' then Next (r\<lparr>state := rq_host_stop\<rparr>)
          else if ch \<in> ip_literal_chars then Next r
          else Halt HTTP_PARSE_INVALID_REQUEST r
      | _ \<Rightarrow>
          if is_digit ch then Next r
          else if ch = chr CHR ''/'' \<or> ch = chr CHR ''?'' \<or> ch = chr CHR '' ''
          then authority_end p ch (r\<lparr>port_end := Some p\<rparr>)
          else Halt HTTP_PARSE_INVALID_REQUEST r)"

section \<open>The path and the arguments\<close>

text \<open>The end of the URI: a space, or the end of a line without a version.\<close>

definition uri_stop :: "nat \<Rightarrow> u8 \<Rightarrow> request_line \<Rightarrow> request_outcome" where
  "uri_stop p ch r =
     (let r = r\<lparr>uri_end := Some p\<rparr> in
      if ch = chr CHR '' '' then Next (r\<lparr>state := rq_http_09\<rparr>)
      else if ch = CR then Next (r\<lparr>http_minor := 9, state := rq_almost_done\<rparr>)
      else Halt HTTP_OK (r\<lparr>http_minor := 9\<rparr>))"

definition uri_step :: "nat \<Rightarrow> u8 \<Rightarrow> request_line \<Rightarrow> request_outcome" where
  "uri_step p ch r =
     (case state r of
        rq_after_slash_in_uri \<Rightarrow>
          if in_table usual ch then Next (r\<lparr>state := rq_check_uri\<rparr>)
          else if ch = chr CHR '' '' \<or> ch = CR \<or> ch = LF then uri_stop p ch r
          else if ch = chr CHR ''.'' \<or> ch = chr CHR ''/'' \<or> ch = chr CHR ''#''
          then Next (r\<lparr>complex_uri := True, state := rq_uri\<rparr>)
          else if ch = chr CHR ''%'' then Next (r\<lparr>quoted_uri := True, state := rq_uri\<rparr>)
          else if ch = chr CHR ''?'' then Next (r\<lparr>args_start := Some (p + 1), state := rq_uri\<rparr>)
          else if ch = chr CHR ''+'' then Next (r\<lparr>plus_in_uri := True\<rparr>)
          else if ch < 0x20 \<or> ch = 0x7f then Halt HTTP_PARSE_INVALID_REQUEST r
          else Next (r\<lparr>state := rq_check_uri\<rparr>)
      | rq_check_uri \<Rightarrow>
          if in_table usual ch then Next r
          else if ch = chr CHR ''/'' then Next (r\<lparr>uri_ext := None, state := rq_after_slash_in_uri\<rparr>)
          else if ch = chr CHR ''.'' then Next (r\<lparr>uri_ext := Some (p + 1)\<rparr>)
          else if ch = chr CHR '' '' \<or> ch = CR \<or> ch = LF then uri_stop p ch r
          else if ch = chr CHR ''%'' then Next (r\<lparr>quoted_uri := True, state := rq_uri\<rparr>)
          else if ch = chr CHR ''?'' then Next (r\<lparr>args_start := Some (p + 1), state := rq_uri\<rparr>)
          else if ch = chr CHR ''#'' then Next (r\<lparr>complex_uri := True, state := rq_uri\<rparr>)
          else if ch = chr CHR ''+'' then Next (r\<lparr>plus_in_uri := True\<rparr>)
          else if ch < 0x20 \<or> ch = 0x7f then Halt HTTP_PARSE_INVALID_REQUEST r
          else Next r
      | _ \<Rightarrow>
          if in_table usual ch then Next r
          else if ch = chr CHR '' '' \<or> ch = CR \<or> ch = LF then uri_stop p ch r
          else if ch = chr CHR ''#'' then Next (r\<lparr>complex_uri := True\<rparr>)
          else if ch < 0x20 \<or> ch = 0x7f then Halt HTTP_PARSE_INVALID_REQUEST r
          else Next r)"

section \<open>The version and the end of the line\<close>

definition bits16 :: "nat \<Rightarrow> nat" where
  "bits16 n = n mod 2 ^ 16"

definition digit :: "u8 \<Rightarrow> nat" where
  "digit ch = unat ch - 48"

definition protocol_step :: "nat \<Rightarrow> u8 \<Rightarrow> request_line \<Rightarrow> request_outcome" where
  "protocol_step p ch r =
     (case state r of
        rq_http_09 \<Rightarrow>
          if ch = chr CHR '' '' then Next r
          else if ch = CR then Next (r\<lparr>http_minor := 9, state := rq_almost_done\<rparr>)
          else if ch = LF then Halt HTTP_OK (r\<lparr>http_minor := 9\<rparr>)
          else if ch = chr CHR ''H'' then Next (r\<lparr>http_protocol := Some p, state := rq_http_H\<rparr>)
          else Halt HTTP_PARSE_INVALID_REQUEST r
      | rq_http_H \<Rightarrow> expect_char (chr CHR ''T'') rq_http_HT ch r
      | rq_http_HT \<Rightarrow> expect_char (chr CHR ''T'') rq_http_HTT ch r
      | rq_http_HTT \<Rightarrow> expect_char (chr CHR ''P'') rq_http_HTTP ch r
      | _ \<Rightarrow> expect_char (chr CHR ''/'') rq_first_major_digit ch r)"

definition major_step :: "u8 \<Rightarrow> request_line \<Rightarrow> request_outcome" where
  "major_step ch r =
     (case state r of
        rq_first_major_digit \<Rightarrow>
          if ch < chr CHR ''1'' \<or> chr CHR ''9'' < ch then Halt HTTP_PARSE_INVALID_REQUEST r
          else let r = r\<lparr>http_major := digit ch\<rparr> in
            if 1 < http_major r then Halt HTTP_PARSE_INVALID_VERSION r
            else Next (r\<lparr>state := rq_major_digit\<rparr>)
      | _ \<Rightarrow>
          if ch = chr CHR ''.'' then Next (r\<lparr>state := rq_first_minor_digit\<rparr>)
          else if \<not> is_digit ch then Halt HTTP_PARSE_INVALID_REQUEST r
          else let r = r\<lparr>http_major := bits16 (http_major r * 10 + digit ch)\<rparr> in
            if 1 < http_major r then Halt HTTP_PARSE_INVALID_VERSION r else Next r)"

definition minor_step :: "u8 \<Rightarrow> request_line \<Rightarrow> request_outcome" where
  "minor_step ch r =
     (case state r of
        rq_first_minor_digit \<Rightarrow>
          if \<not> is_digit ch then Halt HTTP_PARSE_INVALID_REQUEST r
          else Next (r\<lparr>http_minor := digit ch, state := rq_minor_digit\<rparr>)
      | rq_minor_digit \<Rightarrow>
          if ch = CR then Next (r\<lparr>state := rq_almost_done\<rparr>)
          else if ch = LF then Halt HTTP_OK r
          else if ch = chr CHR '' '' then Next (r\<lparr>state := rq_spaces_after_digit\<rparr>)
          else if \<not> is_digit ch then Halt HTTP_PARSE_INVALID_REQUEST r
          else if 99 < http_minor r then Halt HTTP_PARSE_INVALID_REQUEST r
          else Next (r\<lparr>http_minor := bits16 (http_minor r * 10 + digit ch)\<rparr>)
      | _ \<Rightarrow>
          if ch = chr CHR '' '' then Next r
          else if ch = CR then Next (r\<lparr>state := rq_almost_done\<rparr>)
          else if ch = LF then Halt HTTP_OK r
          else Halt HTTP_PARSE_INVALID_REQUEST r)"

definition line_end_step :: "nat \<Rightarrow> u8 \<Rightarrow> request_line \<Rightarrow> request_outcome" where
  "line_end_step p ch r =
     (let r = r\<lparr>request_end := Some (p - 1)\<rparr> in
      if ch = LF then Halt HTTP_OK r else Halt HTTP_PARSE_INVALID_REQUEST r)"

section \<open>The parser\<close>

definition request_step :: "ngx_str \<Rightarrow> nat \<Rightarrow> u8 \<Rightarrow> request_line \<Rightarrow> request_outcome" where
  "request_step buf p ch r =
     (if state r \<in> {rq_start, rq_in_method} then method_step buf p ch r
      else if state r \<in> {rq_spaces_before_uri, rq_schema, rq_schema_slash, rq_schema_slash_slash}
      then schema_step p ch r
      else if state r \<in> {rq_host_begin, rq_host, rq_host_stop, rq_host_ip_literal, rq_port}
      then host_step p ch r
      else if state r \<in> {rq_after_slash_in_uri, rq_check_uri, rq_uri} then uri_step p ch r
      else if state r \<in> {rq_http_09, rq_http_H, rq_http_HT, rq_http_HTT, rq_http_HTTP}
      then protocol_step p ch r
      else if state r \<in> {rq_first_major_digit, rq_major_digit} then major_step ch r
      else if state r \<in> {rq_first_minor_digit, rq_minor_digit, rq_spaces_after_digit} then minor_step ch r
      else line_end_step p ch r)"

text \<open>The code after the label \<^verbatim>\<open>done\<close>.\<close>

definition request_done :: "nat \<Rightarrow> request_line \<Rightarrow> http_parse_rc \<times> nat \<times> request_line" where
  "request_done p r =
     (let r = r\<lparr>request_end := (case request_end r of None \<Rightarrow> Some p | Some e \<Rightarrow> Some e),
                http_version := http_major r * 1000 + http_minor r, state := rq_start\<rparr>
      in (if http_version r = 9 \<and> http_method r \<noteq> HTTP_GET then HTTP_PARSE_INVALID_09_METHOD else HTTP_OK,
          p + 1, r))"

text \<open>The return code, \<^verbatim>\<open>b->pos\<close> and the request; an error leaves \<^verbatim>\<open>b->pos\<close> and \<^verbatim>\<open>r->state\<close>.\<close>

definition request_result ::
    "ngx_str \<Rightarrow> nat \<Rightarrow> rq_state \<Rightarrow> (http_parse_rc, request_line) scanned \<Rightarrow> http_parse_rc \<times> nat \<times> request_line" where
  "request_result buf pos st res =
     (case res of
        Again r \<Rightarrow> (HTTP_AGAIN, length buf, r)
      | Halted rc p r \<Rightarrow> if rc = HTTP_OK then request_done p r else (rc, pos, r\<lparr>state := st\<rparr>))"

definition ngx_http_parse_request_line ::
    "ngx_str \<Rightarrow> nat \<Rightarrow> request_line \<Rightarrow> http_parse_rc \<times> nat \<times> request_line" where
  "ngx_http_parse_request_line buf pos r = request_result buf pos (state r) (scan request_step buf pos r)"

section \<open>Where the input was cut does not matter\<close>

lemma slice_append: "p \<le> length buf \<Longrightarrow> slice (buf @ rest) from p = slice buf from p"
  by (simp add: slice_def)

lemma method_step_append: "p < length buf \<Longrightarrow> method_step (buf @ rest) p ch r = method_step buf p ch r"
  by (simp add: method_step_def slice_append Let_def split: rq_state.split)

interpretation request: resumable request_step
  by standard (simp add: request_step_def method_step_append)

section \<open>The pointers it leaves\<close>

text \<open>The bytes of a URI: no control character, no space, no DEL.\<close>

definition uri_char :: "u8 \<Rightarrow> bool" where
  "uri_char c \<longleftrightarrow> 0x20 < c \<and> c \<noteq> 0x7f"

definition uri_text :: "ngx_str \<Rightarrow> nat \<Rightarrow> nat \<Rightarrow> bool" where
  "uri_text buf a b \<longleftrightarrow> (\<forall>i. a \<le> i \<and> i < b \<longrightarrow> uri_char (buf ! i))"

lemma uri_text_simps [simp]:
  "uri_text buf a a"
  "a \<le> b \<Longrightarrow> uri_text buf a (Suc b) \<longleftrightarrow> uri_text buf a b \<and> uri_char (buf ! b)"
  by (auto simp: uri_text_def less_Suc_eq)

definition opt_between :: "nat \<Rightarrow> nat option \<Rightarrow> nat \<Rightarrow> bool" where
  "opt_between a x b \<longleftrightarrow> (case x of None \<Rightarrow> True | Some v \<Rightarrow> a < v \<and> v \<le> b)"

lemma opt_between_simps [simp]:
  "opt_between a None b" "opt_between a (Some v) b \<longleftrightarrow> a < v \<and> v \<le> b"
  by (simp_all add: opt_between_def)

lemma opt_between_Suc: "opt_between a x b \<Longrightarrow> opt_between a x (Suc b)"
  by (cases x) simp_all

definition has_method :: "nat \<Rightarrow> request_line \<Rightarrow> bool" where
  "has_method p r \<longleftrightarrow> (\<exists>rs me. request_start r = Some rs \<and> method_end r = Some me \<and> rs \<le> me \<and> me < p)"

lemma has_method_mono: "has_method p r \<Longrightarrow> p \<le> q \<Longrightarrow> has_method q r"
  by (auto simp: has_method_def)

definition has_scheme :: "ngx_str \<Rightarrow> nat \<Rightarrow> nat \<Rightarrow> request_line \<Rightarrow> bool" where
  "has_scheme buf k p r \<longleftrightarrow> (\<exists>se. schema_end r = Some se \<and> has_method se r \<and> se + k \<le> p
     \<and> (\<forall>i. 0 < i \<and> i < k \<longrightarrow> buf ! (se + i) = chr CHR ''/''))"

lemma has_scheme_mono: "has_scheme buf k p r \<Longrightarrow> p \<le> q \<Longrightarrow> has_scheme buf k q r"
  by (auto simp: has_scheme_def)

definition in_uri :: "ngx_str \<Rightarrow> nat \<Rightarrow> request_line \<Rightarrow> bool" where
  "in_uri buf p r \<longleftrightarrow> (\<exists>us. uri_start r = Some us \<and> has_method us r \<and> us < p \<and> uri_text buf us p
     \<and> opt_between us (args_start r) p \<and> opt_between us (uri_ext r) p)"

definition has_uri :: "ngx_str \<Rightarrow> nat \<Rightarrow> request_line \<Rightarrow> bool" where
  "has_uri buf p r \<longleftrightarrow> (\<exists>us ue. uri_start r = Some us \<and> uri_end r = Some ue \<and> has_method us r
     \<and> us < ue \<and> ue \<le> p \<and> uri_text buf us ue
     \<and> opt_between us (args_start r) ue \<and> opt_between us (uri_ext r) ue)"

lemma has_uri_mono: "has_uri buf p r \<Longrightarrow> p \<le> q \<Longrightarrow> has_uri buf q r"
  by (auto simp: has_uri_def)

definition no_version :: "request_line \<Rightarrow> bool" where
  "no_version r \<longleftrightarrow> http_major r = 0 \<and> request_end r = None"

definition version_1 :: "request_line \<Rightarrow> bool" where
  "version_1 r \<longleftrightarrow> http_major r = 1 \<and> http_minor r \<le> 999"

definition no_uri :: "request_line \<Rightarrow> bool" where
  "no_uri r \<longleftrightarrow> args_start r = None \<and> uri_ext r = None \<and> no_version r"

definition request_inv :: "ngx_str \<Rightarrow> nat \<Rightarrow> request_line \<Rightarrow> bool" where
  "request_inv buf p r =
     (case state r of
        rq_start \<Rightarrow> no_uri r
      | rq_in_method \<Rightarrow> no_uri r \<and> (\<exists>rs. request_start r = Some rs \<and> rs < p)
      | rq_spaces_before_uri \<Rightarrow> no_uri r \<and> has_method p r
      | rq_schema \<Rightarrow> no_uri r \<and> has_method p r
      | rq_schema_slash \<Rightarrow> no_uri r \<and> (\<exists>se. schema_end r = Some se \<and> has_method se r \<and> p = se + 1)
      | rq_schema_slash_slash \<Rightarrow> no_uri r \<and> (\<exists>se. schema_end r = Some se \<and> has_method se r \<and> p = se + 2
           \<and> buf ! (se + 1) = chr CHR ''/'')
      | rq_after_slash_in_uri \<Rightarrow> no_version r \<and> in_uri buf p r
      | rq_check_uri \<Rightarrow> no_version r \<and> in_uri buf p r
      | rq_uri \<Rightarrow> no_version r \<and> in_uri buf p r
      | rq_http_09 \<Rightarrow> no_version r \<and> has_uri buf p r
      | rq_http_H \<Rightarrow> no_version r \<and> has_uri buf p r
      | rq_http_HT \<Rightarrow> no_version r \<and> has_uri buf p r
      | rq_http_HTT \<Rightarrow> no_version r \<and> has_uri buf p r
      | rq_http_HTTP \<Rightarrow> no_version r \<and> has_uri buf p r
      | rq_first_major_digit \<Rightarrow> no_version r \<and> has_uri buf p r
      | rq_major_digit \<Rightarrow> request_end r = None \<and> http_major r = 1 \<and> has_uri buf p r
      | rq_first_minor_digit \<Rightarrow> request_end r = None \<and> http_major r = 1 \<and> has_uri buf p r
      | rq_minor_digit \<Rightarrow> request_end r = None \<and> version_1 r \<and> has_uri buf p r
      | rq_spaces_after_digit \<Rightarrow> request_end r = None \<and> version_1 r \<and> has_uri buf p r
      | rq_almost_done \<Rightarrow> request_end r = None \<and> (http_major r = 0 \<and> http_minor r = 9 \<or> version_1 r)
           \<and> 0 < p \<and> has_uri buf (p - 1) r
      | _ \<Rightarrow> no_uri r \<and> (\<exists>se. schema_end r = Some se \<and> has_method se r \<and> se + 3 \<le> p
           \<and> buf ! (se + 1) = chr CHR ''/''))"

definition line_done :: "ngx_str \<Rightarrow> nat \<Rightarrow> request_line \<Rightarrow> bool" where
  "line_done buf p r \<longleftrightarrow> buf ! p = LF \<and> has_uri buf p r \<and>
     (http_major r = 0 \<and> http_minor r = 9 \<or> version_1 r) \<and>
     (case request_end r of None \<Rightarrow> True | Some e \<Rightarrow> e < p \<and> has_uri buf e r)"

definition step_ok :: "ngx_str \<Rightarrow> nat \<Rightarrow> request_outcome \<Rightarrow> bool" where
  "step_ok buf p res \<longleftrightarrow> (case res of Next r \<Rightarrow> request_inv buf (Suc p) r
     | Halt rc r \<Rightarrow> rc = HTTP_OK \<longrightarrow> line_done buf p r)"

lemma step_ok_simps [simp]:
  "step_ok buf p (Next r) = request_inv buf (Suc p) r"
  "step_ok buf p (Halt rc r) \<longleftrightarrow> rc = HTTP_OK \<longrightarrow> line_done buf p r"
  by (simp_all add: step_ok_def)

lemmas request_inv_defs = request_inv_def no_uri_def no_version_def

lemma method_step_ok:
  assumes "request_inv buf p r" "state r \<in> {rq_start, rq_in_method}"
  shows "step_ok buf p (method_step buf p ch r)"
  using assms by (auto simp: method_step_def request_inv_defs has_method_def Let_def) arith+

lemma schema_step_ok:
  assumes "request_inv buf p r" "state r \<in> {rq_spaces_before_uri, rq_schema, rq_schema_slash, rq_schema_slash_slash}"
  shows "step_ok buf p (schema_step p (buf ! p) r)"
  using assms
  by (auto simp: schema_step_def expect_char_def request_inv_defs has_method_def in_uri_def uri_char_def Let_def)

lemma usual_char: "in_table usual c \<Longrightarrow> uri_char c"
proof -
  have "\<forall>c. in_table usual c \<longrightarrow> uri_char c"
    unfolding all_byte by (simp add: upto_rec1 in_table_def usual_def uri_char_def)
  then show "in_table usual c \<Longrightarrow> uri_char c" by blast
qed

lemma byte_char: "\<not> c < 0x20 \<Longrightarrow> c \<noteq> 0x20 \<Longrightarrow> c \<noteq> 0x7f \<Longrightarrow> uri_char c"
  by (auto simp: uri_char_def)

lemma uri_step_ok:
  assumes "request_inv buf p r" "state r \<in> {rq_after_slash_in_uri, rq_check_uri, rq_uri}"
  shows "step_ok buf p (uri_step p (buf ! p) r)"
  using assms
  by (auto simp: uri_step_def uri_stop_def request_inv_defs in_uri_def has_uri_def line_done_def has_method_def
      opt_between_Suc usual_char byte_char Let_def)


text \<open>The host states, with what \<^verbatim>\<open>request_inv\<close> says of all of them.\<close>

definition in_host :: "ngx_str \<Rightarrow> nat \<Rightarrow> request_line \<Rightarrow> bool" where
  "in_host buf p r \<longleftrightarrow> no_uri r \<and> (\<exists>se. schema_end r = Some se \<and> has_method se r \<and> se + 3 \<le> p
     \<and> buf ! (se + 1) = chr CHR ''/'')"

abbreviation host_states :: "rq_state set" where
  "host_states \<equiv> {rq_host_begin, rq_host, rq_host_stop, rq_host_ip_literal, rq_port}"

lemma request_inv_host: "state r \<in> host_states \<Longrightarrow> request_inv buf p r = in_host buf p r"
  by (auto simp: request_inv_def in_host_def)

lemma in_host_fields [simp]:
  "in_host buf p (r\<lparr>state := st\<rparr>) = in_host buf p r" "in_host buf p (r\<lparr>host_start := x\<rparr>) = in_host buf p r"
  "in_host buf p (r\<lparr>host_end := x\<rparr>) = in_host buf p r" "in_host buf p (r\<lparr>port_end := x\<rparr>) = in_host buf p r"
  by (simp_all add: in_host_def no_uri_def no_version_def has_method_def)

lemma in_host_Suc: "in_host buf p r \<Longrightarrow> in_host buf (Suc p) r"
  by (auto simp: in_host_def)

lemma authority_end_ok:
  assumes "in_host buf p r"
  shows "step_ok buf p (authority_end p (buf ! p) r)"
  using assms
  by (auto simp: authority_end_def in_host_def request_inv_def no_uri_def no_version_def in_uri_def has_uri_def
      has_method_def uri_char_def)

lemma host_stop_step_ok: "in_host buf p r \<Longrightarrow> step_ok buf p (host_stop_step p (buf ! p) r)"
  by (simp add: host_stop_step_def Let_def authority_end_ok request_inv_host in_host_Suc)

lemma host_char_step_ok:
  "in_host buf p r \<Longrightarrow> state r \<in> host_states \<Longrightarrow> step_ok buf p (host_char_step p (buf ! p) r)"
  by (simp add: host_char_step_def host_stop_step_ok request_inv_host in_host_Suc)

lemma host_step_ok:
  assumes "request_inv buf p r" "state r \<in> host_states"
  shows "step_ok buf p (host_step p (buf ! p) r)"
proof -
  have h: "in_host buf p r" using assms by (simp add: request_inv_host)
  show ?thesis
    using h assms(2)
    by (cases "state r") (simp_all add: host_step_def Let_def host_char_step_ok host_stop_step_ok
      authority_end_ok request_inv_host in_host_Suc)
qed

lemma has_uri_fields [simp]:
  "has_uri buf p (r\<lparr>state := st\<rparr>) = has_uri buf p r" "has_uri buf p (r\<lparr>http_protocol := x\<rparr>) = has_uri buf p r"
  "has_uri buf p (r\<lparr>http_major := n\<rparr>) = has_uri buf p r" "has_uri buf p (r\<lparr>http_minor := n\<rparr>) = has_uri buf p r"
  "has_uri buf p (r\<lparr>request_end := x\<rparr>) = has_uri buf p r" "has_uri buf p (r\<lparr>http_version := n\<rparr>) = has_uri buf p r"
  by (simp_all add: has_uri_def has_method_def)

lemma has_uri_Suc: "has_uri buf p r \<Longrightarrow> has_uri buf (Suc p) r"
  by (erule has_uri_mono) simp

lemma protocol_step_ok:
  assumes "request_inv buf p r" "state r \<in> {rq_http_09, rq_http_H, rq_http_HT, rq_http_HTT, rq_http_HTTP}"
  shows "step_ok buf p (protocol_step p (buf ! p) r)"
  using assms
  by (auto simp: protocol_step_def expect_char_def request_inv_def no_version_def line_done_def has_uri_Suc)

lemma digit_le: "is_digit c \<Longrightarrow> digit c \<le> 9"
  by (auto simp: is_digit_def digit_def word_le_nat_alt)

lemma major_step_ok:
  assumes "request_inv buf p r" "state r \<in> {rq_first_major_digit, rq_major_digit}"
  shows "step_ok buf p (major_step (buf ! p) r)"
proof -
  have "\<not> buf ! p < 49 \<Longrightarrow> 1 \<le> digit (buf ! p)" by (simp add: digit_def word_less_nat_alt)
  moreover have "is_digit c \<Longrightarrow> (10 + digit c) mod 65536 = 10 + digit c" for c
    using digit_le [of c] by simp
  ultimately show ?thesis
    using assms
    by (auto simp: major_step_def request_inv_def no_version_def bits16_def has_uri_Suc Let_def split: if_splits)
qed

lemma minor_step_ok:
  assumes "request_inv buf p r" "state r \<in> {rq_first_minor_digit, rq_minor_digit, rq_spaces_after_digit}"
  shows "step_ok buf p (minor_step (buf ! p) r)"
  using assms digit_le [of "buf ! p"]
  by (auto simp: minor_step_def request_inv_def version_1_def bits16_def line_done_def has_uri_Suc)

lemma line_end_step_ok:
  assumes "request_inv buf p r" "state r = rq_almost_done"
  shows "step_ok buf p (line_end_step p (buf ! p) r)"
proof -
  have "has_uri buf p r" using assms has_uri_mono [of buf "p - 1" r p] by (simp add: request_inv_def)
  with assms show ?thesis
    by (auto simp: line_end_step_def request_inv_def line_done_def version_1_def Let_def)
qed

lemma request_step_ok:
  assumes "request_inv buf p r"
  shows "step_ok buf p (request_step buf p (buf ! p) r)"
proof -
  have "state r \<in> {rq_start, rq_in_method} \<or> state r \<in> {rq_spaces_before_uri, rq_schema, rq_schema_slash, rq_schema_slash_slash}
    \<or> state r \<in> host_states \<or> state r \<in> {rq_after_slash_in_uri, rq_check_uri, rq_uri}
    \<or> state r \<in> {rq_http_09, rq_http_H, rq_http_HT, rq_http_HTT, rq_http_HTTP}
    \<or> state r \<in> {rq_first_major_digit, rq_major_digit}
    \<or> state r \<in> {rq_first_minor_digit, rq_minor_digit, rq_spaces_after_digit} \<or> state r = rq_almost_done"
    by (cases "state r") simp_all
  then show ?thesis
    using method_step_ok [OF assms] schema_step_ok [OF assms] host_step_ok [OF assms] uri_step_ok [OF assms]
      protocol_step_ok [OF assms] major_step_ok [OF assms] minor_step_ok [OF assms] line_end_step_ok [OF assms]
    unfolding request_step_def by (elim disjE) (simp_all only: if_True if_False, auto)
qed

section \<open>The whole run\<close>

lemma new_request_inv: "request_inv buf pos new_request"
  by (simp add: request_inv_def new_request_def no_uri_def no_version_def)

lemma scan_request_inv:
  assumes "request_inv buf pos r" "pos \<le> length buf"
  shows "case scan request_step buf pos r of Again r' \<Rightarrow> request_inv buf (length buf) r'
    | Halted rc p r' \<Rightarrow> (rc = HTTP_OK \<longrightarrow> line_done buf p r') \<and> pos \<le> p \<and> p < length buf"
  using scan_invariant [where step = request_step and I = "request_inv buf"
      and J = "\<lambda>rc p r'. rc = HTTP_OK \<longrightarrow> line_done buf p r'", OF _ assms]
    request_step_ok by (simp add: step_ok_def)

text \<open>A step never stops with \<^verbatim>\<open>NGX_AGAIN\<close>.\<close>

definition no_again :: "request_outcome \<Rightarrow> bool" where
  "no_again res \<longleftrightarrow> (case res of Next r \<Rightarrow> True | Halt rc r \<Rightarrow> rc \<noteq> HTTP_AGAIN)"

lemma no_again_simps [simp]: "no_again (Next r)" "no_again (Halt rc r) \<longleftrightarrow> rc \<noteq> HTTP_AGAIN"
  by (simp_all add: no_again_def)

lemma expect_no_again: "no_again (expect_char c st ch r)"
  by (simp add: expect_char_def)

lemma authority_no_again: "no_again (authority_end p ch r)"
  by (simp add: authority_end_def)

lemma host_stop_no_again: "no_again (host_stop_step p ch r)"
  by (simp add: host_stop_step_def authority_no_again Let_def)

lemma host_char_no_again: "no_again (host_char_step p ch r)"
  by (simp add: host_char_step_def host_stop_no_again)

lemma uri_stop_no_again: "no_again (uri_stop p ch r)"
  by (simp add: uri_stop_def Let_def)

lemma request_no_again: "no_again (request_step buf p ch r)"
  by (cases "state r") (simp_all add: request_step_def method_step_def schema_step_def host_step_def uri_step_def
    protocol_step_def major_step_def minor_step_def line_end_step_def Let_def expect_no_again authority_no_again
    host_stop_no_again host_char_no_again uri_stop_no_again)

lemma scan_no_again: "scan request_step buf p r \<noteq> Halted HTTP_AGAIN q r'"
proof (induction "length buf - p" arbitrary: p r)
  case (Suc n)
  then show ?case
    using request_no_again [of buf p "buf ! p" r]
    by (cases "request_step buf p (buf ! p) r") (auto simp: scan.simps [of request_step buf p r])
qed simp

abbreviation uri_states :: "rq_state set" where
  "uri_states \<equiv> {rq_after_slash_in_uri, rq_check_uri, rq_uri}"

definition same_line :: "request_line \<Rightarrow> request_line \<Rightarrow> bool" where
  "same_line r s \<longleftrightarrow> http_method s = http_method r \<and> request_start s = request_start r \<and> method_end s = method_end r
     \<and> uri_start s = uri_start r \<and> http_major s = http_major r \<and> request_end s = request_end r"

definition goes_on :: "rq_state set \<Rightarrow> request_line \<Rightarrow> request_outcome \<Rightarrow> bool" where
  "goes_on S r res \<longleftrightarrow> (case res of Next s \<Rightarrow> state s \<in> S \<and> same_line r s | Halt rc s \<Rightarrow> False)"

lemma goes_on_simps [simp]:
  "goes_on S r (Next s) \<longleftrightarrow> state s \<in> S \<and> same_line r s" "\<not> goes_on S r (Halt rc s)"
  by (simp_all add: goes_on_def)

lemma same_line_fields [simp]:
  "same_line r r" "same_line r (r\<lparr>state := st\<rparr>)" "same_line r (r\<lparr>complex_uri := b, state := st\<rparr>)" "same_line r (r\<lparr>quoted_uri := b, state := st\<rparr>)"
  "same_line r (r\<lparr>args_start := a, state := st\<rparr>)" "same_line r (r\<lparr>plus_in_uri := b\<rparr>)" 
  "same_line r (r\<lparr>uri_ext := x, state := st\<rparr>)" "same_line r (r\<lparr>uri_ext := x\<rparr>)" "same_line r (r\<lparr>complex_uri := b\<rparr>)"
  by (simp_all add: same_line_def)

lemma uri_char_step:
  assumes "state r \<in> uri_states" "uri_char ch"
  shows "goes_on uri_states r (request_step buf p ch r)"
proof -
  have n: "ch \<noteq> 32" "ch \<noteq> 13" "ch \<noteq> 10" "\<not> ch < 32" "ch \<noteq> 127"
    using assms(2) by (auto simp: uri_char_def)
  then have "goes_on uri_states r (uri_step p ch r)"
    using assms(1) by (cases "state r") (simp_all add: uri_step_def)
  then show ?thesis
    using assms(1) by (cases "state r") (simp_all add: request_step_def)
qed

lemma same_line_trans: "same_line r s \<Longrightarrow> same_line s t \<Longrightarrow> same_line r t"
  by (simp add: same_line_def)

lemma uri_run:
  assumes "state r \<in> uri_states" "\<And>i. p \<le> i \<Longrightarrow> i < p + n \<Longrightarrow> uri_char (buf ! i)" "p + n \<le> length buf"
  shows "\<exists>s. scan request_step buf p r = scan request_step buf (p + n) s \<and> state s \<in> uri_states \<and> same_line r s"
proof (rule scan_run [where I = "\<lambda>q s. state s \<in> uri_states \<and> same_line r s"])
  fix q s
  assume "p \<le> q" "q < p + n" "state s \<in> uri_states \<and> same_line r s"
  then show "\<exists>s'. request_step buf q (buf ! q) s = Next s' \<and> state s' \<in> uri_states \<and> same_line r s'"
    using uri_char_step [of s "buf ! q" buf q] assms(2) [of q] same_line_trans [of r s]
    by (cases "request_step buf q (buf ! q) s") auto
qed (use assms in auto)

lemma method_run:
  assumes "\<And>i. p \<le> i \<Longrightarrow> i < p + n \<Longrightarrow> method_char (buf ! i)" "p + n \<le> length buf" "state r = rq_in_method"
  shows "scan request_step buf p r = scan request_step buf (p + n) r"
proof -
  have "\<exists>s. scan request_step buf p r = scan request_step buf (p + n) s \<and> s = r"
  proof (rule scan_run [where I = "\<lambda>q s. s = r"])
    fix q s assume "p \<le> q" "q < p + n" "s = r"
    then show "\<exists>s'. request_step buf q (buf ! q) s = Next s' \<and> s' = r"
      using assms(1) [of q] assms(3)
      by (auto simp: request_step_def method_step_def method_char_def)
  qed (use assms in auto)
  then show ?thesis by simp
qed

text \<open>The version, from the space after the URI on.\<close>

lemma version_run:
  assumes "state r \<in> uri_states" "request_end r = None" "http_major r = 0"
    and "holds_at buf p (bytes '' HTTP/1.'' @ [d, CR, LF])" "is_digit d"
  shows "\<exists>s. scan request_step buf p r = Halted HTTP_OK (p + 10) s \<and> request_start s = request_start r
    \<and> method_end s = method_end r \<and> http_method s = http_method r \<and> uri_start s = uri_start r \<and> uri_end s = Some p
    \<and> request_end s = Some (p + 9) \<and> http_major s = 1 \<and> http_minor s = digit d"
proof -
  have usual: "\<not> in_table usual 32" by (simp add: in_table_def usual_def)
  have "scan request_step buf p r = (case eat request_step buf p (bytes '' HTTP/1.'' @ [d, CR, LF]) r of
        Again s' \<Rightarrow> scan request_step buf (p + length (bytes '' HTTP/1.'' @ [d, CR, LF])) s'
      | Halted e q s' \<Rightarrow> Halted e q s')"
    by (rule scan_eat [OF assms(4)])
  moreover have "request_step buf p 32 r = Next (r\<lparr>uri_end := Some p, state := rq_http_09\<rparr>)"
    using assms(1) usual by (cases "state r") (simp_all add: request_step_def uri_step_def uri_stop_def Let_def)
  ultimately show ?thesis
    using assms(2,3,5)
    by (simp add: request_step_def protocol_step_def expect_char_def major_step_def minor_step_def line_end_step_def
      digit_def Let_def)
qed

lemma method_start_step:
  assumes "method_char c" "state r = rq_start"
  shows "request_step buf p c r = Next (r\<lparr>request_start := Some p, state := rq_in_method\<rparr>)"
proof -
  have "c \<noteq> 13" "c \<noteq> 10" using assms(1) by (auto simp: method_char_def)
  with assms show ?thesis by (simp add: request_step_def method_step_def Let_def)
qed

lemma well_formed_line:
  assumes "m \<noteq> []" "\<forall>c\<in>set m. method_char c" "\<forall>c\<in>set t. uri_char c" "is_digit d"
  defines "line \<equiv> m @ bytes '' /'' @ t @ bytes '' HTTP/1.'' @ [d, CR, LF]"
  shows "\<exists>r. ngx_http_parse_request_line (line @ rest) 0 new_request = (HTTP_OK, length line, r)
    \<and> request_start r = Some 0 \<and> method_end r = Some (length m - 1)
    \<and> http_method r = lookup_method m HTTP_UNKNOWN
    \<and> uri_start r = Some (length m + 1) \<and> uri_end r = Some (length m + 2 + length t)
    \<and> http_version r = 1000 + digit d"
proof -
  define buf where "buf = line @ rest"
  obtain c m' where m: "m = c # m'" using assms(1) by (cases m) auto
  have nonempty: "buf \<noteq> []" by (simp add: buf_def line_def)
  let ?r1 = "new_request\<lparr>request_start := Some 0, state := rq_in_method\<rparr>"
  let ?r2 = "?r1\<lparr>method_end := Some (length m - 1), http_method := lookup_method m HTTP_UNKNOWN,
     state := rq_after_slash_in_uri, uri_start := Some (length m + 1)\<rparr>"
  let ?p = "length m + 2 + length t"
  have len: "length m + 2 + length t + 11 \<le> length buf" by (simp add: buf_def line_def)
  have nth: "buf ! 0 = c" "\<And>i. i < length m \<Longrightarrow> buf ! i \<in> set m"
  proof -
    have eq: "i < length m \<Longrightarrow> buf ! i = m ! i" for i by (simp add: buf_def line_def nth_append)
    then show "\<And>i. i < length m \<Longrightarrow> buf ! i \<in> set m" by simp
    show "buf ! 0 = c" using eq [of 0] by (simp add: m)
  qed
  have "scan request_step buf 0 new_request = scan request_step buf 1 ?r1"
    using nonempty nth(1) m assms(2) method_start_step [of c new_request buf 0]
    by (simp add: scan.simps [of _ _ 0] new_request_def)
  also have "\<dots> = scan request_step buf (1 + length m') ?r1"
    using nth(2) assms(2) len m by (intro method_run) auto
  also have "1 + length m' = length m" by (simp add: m)
  also have "scan request_step buf (length m) ?r1 = scan request_step buf (length m + 2) ?r2"
  proof -
    have h: "holds_at buf (length m) (bytes '' /'')" unfolding buf_def line_def append_assoc by (rule holds_at_there)
    have "slice buf (Some 0) (length m) = m" by (simp add: slice_def buf_def line_def)
    then show ?thesis
      unfolding scan_eat [OF h]
      by (simp add: request_step_def method_step_def schema_step_def new_request_def)
  qed
  finally have start: "scan request_step buf 0 new_request = scan request_step buf (length m + 2) ?r2" .
  have "\<exists>s. scan request_step buf (length m + 2) ?r2 = scan request_step buf (length m + 2 + length t) s
    \<and> state s \<in> uri_states \<and> same_line ?r2 s"
  proof (rule uri_run)
    fix i assume i: "length m + 2 \<le> i" "i < length m + 2 + length t"
    have "buf = (m @ bytes '' /'') @ t @ bytes '' HTTP/1.'' @ [d, CR, LF] @ rest" by (simp add: buf_def line_def)
    moreover have "length m + 2 = length (m @ bytes '' /'')" by simp
    ultimately have "holds_at buf (length m + 2) t" by (simp only: holds_at_there)
    moreover obtain k where k: "i = length m + 2 + k" "k < length t" using i le_Suc_ex [OF i(1)] by auto
    ultimately have "buf ! i = t ! k" using holds_at_nth by blast
    then show "uri_char (buf ! i)" using assms(3) k(2) by simp
  qed (use len in simp_all)
  then obtain s where s: "scan request_step buf (length m + 2) ?r2 = scan request_step buf ?p s"
    "state s \<in> uri_states" "same_line ?r2 s" by blast
  have h: "holds_at buf ?p (bytes '' HTTP/1.'' @ [d, CR, LF])"
  proof -
    have "buf = (m @ bytes '' /'' @ t) @ (bytes '' HTTP/1.'' @ [d, CR, LF]) @ rest" by (simp add: buf_def line_def)
    moreover have "?p = length (m @ bytes '' /'' @ t)" by simp
    ultimately show ?thesis by (simp only: holds_at_there)
  qed
  from version_run [OF s(2) _ _ h assms(4)] s(3)
  obtain s' where "scan request_step buf 0 new_request = Halted HTTP_OK (?p + 10) s'" "request_start s' = Some 0"
    "method_end s' = Some (length m - 1)" "http_method s' = lookup_method m HTTP_UNKNOWN"
    "uri_start s' = Some (length m + 1)" "uri_end s' = Some ?p"
    "request_end s' = Some (?p + 9)" "http_major s' = 1" "http_minor s' = digit d"
    using start s(1) by (auto simp: same_line_def new_request_def)
  then show ?thesis
    by (simp add: ngx_http_parse_request_line_def request_result_def request_done_def buf_def [symmetric] Let_def)
       (simp add: line_def)
qed

section \<open>Properties\<close>

text \<open>C13: Where the input is cut does not matter: when the parser has asked for more bytes, calling it
  again on the longer buffer with the state it kept gives the return code, the position and
  the request that one call on the whole buffer gives, and an answer other than
  \<^verbatim>\<open>NGX_AGAIN\<close> does not depend on what follows in the buffer.\<close>

theorem request_line_resume:
  assumes "pos \<le> length buf"
  shows "case ngx_http_parse_request_line buf pos r of (rc, pos', r') \<Rightarrow>
    (if rc = HTTP_AGAIN
     then fst (ngx_http_parse_request_line (buf @ rest) pos r) = fst (ngx_http_parse_request_line (buf @ rest) pos' r')
        \<and> (fst (ngx_http_parse_request_line (buf @ rest) pos r) \<in> {HTTP_OK, HTTP_AGAIN} \<longrightarrow>
           ngx_http_parse_request_line (buf @ rest) pos r = ngx_http_parse_request_line (buf @ rest) pos' r')
     else ngx_http_parse_request_line (buf @ rest) pos r = (rc, pos', r'))"
proof (cases "scan request_step buf pos r")
  case (Again r')
  then show ?thesis
    using request.resume [OF assms, of rest r] scan_no_again [of "buf @ rest" "length buf" r']
    by (auto simp: ngx_http_parse_request_line_def request_result_def request_done_def Let_def split: scanned.splits)
next
  case (Halted rc q r')
  then have "rc \<noteq> HTTP_AGAIN" using scan_no_again [of buf pos r] by auto
  with Halted show ?thesis
    using request.resume [OF assms, of rest r]
    by (auto simp: ngx_http_parse_request_line_def request_result_def request_done_def Let_def split: prod.split)
qed

theorem request_line_resume_witness:
  "ngx_http_parse_request_line (bytes ''GE'' @ bytes ''T'') 0 new_request =
    (case ngx_http_parse_request_line (bytes ''GE'') 0 new_request of (rc, pos, r) \<Rightarrow>
       ngx_http_parse_request_line (bytes ''GE'' @ bytes ''T'') pos r)"
proof -
  have ge: "method_char 71" "method_char 69" "method_char 84" by (simp_all add: method_char_def)
  have "fst (ngx_http_parse_request_line (bytes ''GE'') 0 new_request) = HTTP_AGAIN"
    "fst (ngx_http_parse_request_line (bytes ''GE'' @ bytes ''T'') 0 new_request) = HTTP_AGAIN"
    by (simp_all add: ngx_http_parse_request_line_def request_result_def scan.simps new_request_def request_step_def
      method_step_def ge)
  then show ?thesis
    using request_line_resume [where pos = 0 and buf = "bytes ''GE''" and r = new_request and rest = "bytes ''T''"] by (auto split: prod.splits)
qed

text \<open>What an accepted request line leaves in the request can be used: the start and the end of
  the line, of the method and of the URI are set, in order and inside the buffer, the
  line ends with a line feed, the URI is not empty and holds no space, control character or
  DEL, the arguments start inside it, and the version is HTTP/0.9 with GET only, or 1.x.\<close>

theorem request_line_pointers:
  assumes "ngx_http_parse_request_line buf pos new_request = (HTTP_OK, pos', r)" "pos \<le> length buf"
  shows "\<exists>rs me us ue re. request_start r = Some rs \<and> method_end r = Some me \<and> uri_start r = Some us
    \<and> uri_end r = Some ue \<and> request_end r = Some re
    \<and> rs \<le> me \<and> me < us \<and> us < ue \<and> ue \<le> re \<and> re < pos' \<and> pos' \<le> length buf \<and> buf ! (pos' - 1) = LF
    \<and> (\<forall>i. us \<le> i \<and> i < ue \<longrightarrow> 0x20 < buf ! i \<and> buf ! i \<noteq> 0x7f)
    \<and> (\<forall>a. args_start r = Some a \<longrightarrow> us < a \<and> a \<le> ue)
    \<and> (http_version r = 9 \<and> http_method r = HTTP_GET \<or> 1000 \<le> http_version r \<and> http_version r \<le> 1999)"
proof (cases "scan request_step buf pos new_request")
  case (Again r')
  with assms show ?thesis by (simp add: ngx_http_parse_request_line_def request_result_def)
next
  case (Halted rc p r')
  from assms(1) Halted have rc: "rc = HTTP_OK" and fin: "request_done p r' = (HTTP_OK, pos', r)"
    by (auto simp: ngx_http_parse_request_line_def request_result_def split: if_splits)
  from scan_request_inv [OF new_request_inv assms(2)] Halted rc
  have d: "line_done buf p r'" "p < length buf" by simp_all
  define re where "re = (case request_end r' of None \<Rightarrow> p | Some e \<Rightarrow> e)"
  have re: "re \<le> p" "has_uri buf re r'"
    using d(1) by (auto simp: line_done_def re_def split: option.splits)
  have r: "r = r'\<lparr>request_end := Some re, http_version := http_major r' * 1000 + http_minor r', state := rq_start\<rparr>"
    "pos' = Suc p" "http_major r' * 1000 + http_minor r' = 9 \<longrightarrow> http_method r' = HTTP_GET"
    using fin by (auto simp: request_done_def Let_def re_def split: if_splits option.splits)
  have v: "http_major r' = 0 \<and> http_minor r' = 9 \<or> version_1 r'" "buf ! p = LF" using d(1) by (simp_all add: line_done_def)
  from re(2) obtain rs me us ue where u: "request_start r' = Some rs" "method_end r' = Some me" "uri_start r' = Some us"
    "uri_end r' = Some ue" "rs \<le> me" "me < us" "us < ue" "ue \<le> re" "uri_text buf us ue" "opt_between us (args_start r') ue"
    by (auto simp: has_uri_def has_method_def)
  show ?thesis
    using u re(1) r d(2) v
    by (auto simp: uri_text_def uri_char_def opt_between_def version_1_def)
qed

theorem request_line_pointers_witness:
  "\<exists>r us ue. ngx_http_parse_request_line (bytes ''GET /a HTTP/1.1'' @ [CR, LF]) 0 new_request = (HTTP_OK, 17, r)
    \<and> uri_start r = Some us \<and> uri_end r = Some ue \<and> us < ue \<and> ue < 17"
proof -
  have "\<exists>r. ngx_http_parse_request_line (bytes ''GET /a HTTP/1.1'' @ [CR, LF]) 0 new_request = (HTTP_OK, 17, r)"
    using well_formed_line [where m = "bytes ''GET''" and t = "bytes ''a''" and d = "chr CHR ''1''" and rest = "[]"]
    by (auto simp: method_char_def uri_char_def is_digit_def)
  then obtain r where "ngx_http_parse_request_line (bytes ''GET /a HTTP/1.1'' @ [CR, LF]) 0 new_request = (HTTP_OK, 17, r)"
    by blast
  from request_line_pointers [OF this] this show ?thesis by auto
qed

text \<open>C27: Every line of the form \<^verbatim>\<open>METHOD SP /path SP HTTP/1.d CRLF\<close>, with a method of the method
  characters and a path without spaces and control characters, is accepted whatever follows
  it, with the pointers at exactly these parts, the method looked up, and the version
  computed.\<close>

theorem request_line_accepted:
  assumes "m \<noteq> []" "\<forall>c\<in>set m. method_char c" "\<forall>c\<in>set t. uri_char c" "is_digit d"
    and "line = m @ bytes '' /'' @ t @ bytes '' HTTP/1.'' @ [d, CR, LF]"
  shows "\<exists>r. ngx_http_parse_request_line (line @ rest) 0 new_request = (HTTP_OK, length line, r)
    \<and> request_start r = Some 0 \<and> method_end r = Some (length m - 1)
    \<and> http_method r = lookup_method m HTTP_UNKNOWN
    \<and> uri_start r = Some (length m + 1) \<and> uri_end r = Some (length m + 2 + length t)
    \<and> http_version r = 1000 + digit d"
  unfolding assms(5) by (rule well_formed_line [OF assms(1-4)])

theorem request_line_accepted_witness:
  "\<exists>r. ngx_http_parse_request_line (bytes ''PROPFIND /../x HTTP/1.0'' @ [CR, LF] @ bytes ''Host'') 0 new_request
      = (HTTP_OK, 25, r) \<and> http_method r = HTTP_PROPFIND \<and> http_version r = 1000"
  using request_line_accepted [where m = "bytes ''PROPFIND''" and t = "bytes ''../x''" and d = "chr CHR ''0''"
      and rest = "bytes ''Host''", OF _ _ _ _ refl]
  by (auto simp: method_char_def uri_char_def is_digit_def lookup_method_def digit_def)

end
