(* ===== verification/Ngx_Http_Header.thy ===== *)
theory Ngx_Http_Header
  imports Ngx_Http_Request
begin

text \<open>
  A header line: \<^verbatim>\<open>ngx_http_parse_header_line\<close> of \<^verbatim>\<open>http/ngx_http_parse.c\<close>, which also
  lowers the name into a 32-byte window of the request and hashes it, and the hash functions
  of \<^verbatim>\<open>core/ngx_hash.c\<close> that the tables of known headers are built with.
\<close>

section \<open>Hashing\<close>

definition ngx_hash :: "u64 \<Rightarrow> u8 \<Rightarrow> u64" where
  "ngx_hash key c = key * 31 + ucast c"

fun hash_from :: "u64 \<Rightarrow> ngx_str \<Rightarrow> u64" where
  "hash_from key [] = key"
| "hash_from key (c # data) = hash_from (ngx_hash key c) data"

definition ngx_hash_key :: "ngx_str \<Rightarrow> u64" where
  "ngx_hash_key data = hash_from 0 data"

fun hash_lc_from :: "u64 \<Rightarrow> ngx_str \<Rightarrow> u64" where
  "hash_lc_from key [] = key"
| "hash_lc_from key (c # data) = hash_lc_from (ngx_hash key (ngx_tolower c)) data"

definition ngx_hash_key_lc :: "ngx_str \<Rightarrow> u64" where
  "ngx_hash_key_lc data = hash_lc_from 0 data"

fun hash_strlow_from :: "u64 \<Rightarrow> ngx_str \<Rightarrow> ngx_str \<times> u64" where
  "hash_strlow_from key [] = ([], key)"
| "hash_strlow_from key (c # src) =
     (let d = ngx_tolower c in
      case hash_strlow_from (ngx_hash key d) src of (dst, k) \<Rightarrow> (d # dst, k))"

definition ngx_hash_strlow :: "ngx_str \<Rightarrow> ngx_str \<times> u64" where
  "ngx_hash_strlow src = hash_strlow_from 0 src"

section \<open>The state of the parser\<close>

definition NGX_HTTP_LC_HEADER_LEN :: nat where
  "NGX_HTTP_LC_HEADER_LEN = 32"

datatype hd_state = hd_start | hd_name | hd_space_before_value | hd_value | hd_space_after_value
  | hd_ignore_line | hd_almost_done | hd_header_almost_done

record header_line =
  hd_st :: hd_state
  header_hash :: u64
  lowcase_index :: nat
  lowcase_header :: ngx_str
  header_name_start :: "nat option"
  header_name_end :: "nat option"
  header_start :: "nat option"
  header_end :: "nat option"
  invalid_header :: bool
  upstream :: bool

datatype header_stop = header_line_done | headers_done | header_refused

type_synonym header_outcome = "(header_stop, header_line) outcome"

text \<open>The lower case of the characters of a name, zero for all others.\<close>

definition lowcase :: ngx_str where
  "lowcase = replicate 32 0
     @ replicate 13 0 @ bytes ''-'' @ replicate 2 0 @ bytes ''0123456789'' @ replicate 6 0
     @ replicate 1 0 @ bytes ''abcdefghijklmnopqrstuvwxyz'' @ replicate 5 0
     @ replicate 1 0 @ bytes ''abcdefghijklmnopqrstuvwxyz'' @ replicate 5 0
     @ replicate 128 0"

section \<open>The name\<close>

text \<open>The first byte starts the hash and the window, the others continue them.\<close>

definition first_name_char :: "u8 \<Rightarrow> header_line \<Rightarrow> header_line" where
  "first_name_char c r = r\<lparr>header_hash := ngx_hash 0 c, lowcase_header := (lowcase_header r)[0 := c], lowcase_index := 1\<rparr>"

definition name_char :: "u8 \<Rightarrow> header_line \<Rightarrow> header_line" where
  "name_char c r = r\<lparr>header_hash := ngx_hash (header_hash r) c,
     lowcase_header := (lowcase_header r)[lowcase_index r := c],
     lowcase_index := (lowcase_index r + 1) mod NGX_HTTP_LC_HEADER_LEN\<rparr>"

definition header_start_step :: "bool \<Rightarrow> nat \<Rightarrow> u8 \<Rightarrow> header_line \<Rightarrow> header_outcome" where
  "header_start_step allow_underscores p ch r =
     (let r = r\<lparr>header_name_start := Some p, invalid_header := False\<rparr> in
      if ch = CR then Next (r\<lparr>header_end := Some p, hd_st := hd_header_almost_done\<rparr>)
      else if ch = LF then Halt headers_done (r\<lparr>header_end := Some p\<rparr>)
      else
        let r = r\<lparr>hd_st := hd_name\<rparr>; c = lowcase ! unat ch in
        if c \<noteq> 0 then Next (first_name_char c r)
        else if ch = chr CHR ''_'' then
          (if allow_underscores then Next (first_name_char ch r)
           else Next (r\<lparr>header_hash := 0, lowcase_index := 0, invalid_header := True\<rparr>))
        else if ch \<le> 0x20 \<or> ch = 0x7f \<or> ch = chr CHR '':''
        then Halt header_refused (r\<lparr>header_end := Some p\<rparr>)
        else Next (r\<lparr>header_hash := 0, lowcase_index := 0, invalid_header := True\<rparr>))"

definition header_name_step :: "bool \<Rightarrow> ngx_str \<Rightarrow> nat \<Rightarrow> u8 \<Rightarrow> header_line \<Rightarrow> header_outcome" where
  "header_name_step allow_underscores buf p ch r =
     (let c = lowcase ! unat ch in
      if c \<noteq> 0 then Next (name_char c r)
      else if ch = chr CHR ''_'' then
        (if allow_underscores then Next (name_char ch r) else Next (r\<lparr>invalid_header := True\<rparr>))
      else if ch = chr CHR '':'' then Next (r\<lparr>header_name_end := Some p, hd_st := hd_space_before_value\<rparr>)
      else if ch = CR then
        Next (r\<lparr>header_name_end := Some p, header_start := Some p, header_end := Some p, hd_st := hd_almost_done\<rparr>)
      else if ch = LF then
        Halt header_line_done (r\<lparr>header_name_end := Some p, header_start := Some p, header_end := Some p\<rparr>)
      else if ch = chr CHR ''/'' \<and> upstream r \<and> slice buf (header_name_start r) p = bytes ''HTTP''
      then Next (r\<lparr>hd_st := hd_ignore_line\<rparr>)
      else if ch \<le> 0x20 \<or> ch = 0x7f then Halt header_refused (r\<lparr>header_end := Some p\<rparr>)
      else Next (r\<lparr>invalid_header := True\<rparr>))"

section \<open>The value and the end of the line\<close>

definition header_value_step :: "nat \<Rightarrow> u8 \<Rightarrow> header_line \<Rightarrow> header_outcome" where
  "header_value_step p ch r =
     (case hd_st r of
        hd_space_before_value \<Rightarrow>
          if ch = chr CHR '' '' then Next r
          else if ch = CR then Next (r\<lparr>header_start := Some p, header_end := Some p, hd_st := hd_almost_done\<rparr>)
          else if ch = LF then Halt header_line_done (r\<lparr>header_start := Some p, header_end := Some p\<rparr>)
          else if ch = 0 then Halt header_refused (r\<lparr>header_end := Some p\<rparr>)
          else Next (r\<lparr>header_start := Some p, hd_st := hd_value\<rparr>)
      | hd_value \<Rightarrow>
          if ch = chr CHR '' '' then Next (r\<lparr>header_end := Some p, hd_st := hd_space_after_value\<rparr>)
          else if ch = CR then Next (r\<lparr>header_end := Some p, hd_st := hd_almost_done\<rparr>)
          else if ch = LF then Halt header_line_done (r\<lparr>header_end := Some p\<rparr>)
          else if ch = 0 then Halt header_refused (r\<lparr>header_end := Some p\<rparr>)
          else Next r
      | _ \<Rightarrow>
          if ch = chr CHR '' '' then Next r
          else if ch = CR then Next (r\<lparr>hd_st := hd_almost_done\<rparr>)
          else if ch = LF then Halt header_line_done r
          else if ch = 0 then Halt header_refused (r\<lparr>header_end := Some p\<rparr>)
          else Next (r\<lparr>hd_st := hd_value\<rparr>))"

definition header_end_step :: "u8 \<Rightarrow> header_line \<Rightarrow> header_outcome" where
  "header_end_step ch r =
     (case hd_st r of
        hd_ignore_line \<Rightarrow> Next (if ch = LF then r\<lparr>hd_st := hd_start\<rparr> else r)
      | hd_almost_done \<Rightarrow>
          if ch = LF then Halt header_line_done r
          else if ch = CR then Next r
          else Halt header_refused r
      | _ \<Rightarrow> if ch = LF then Halt headers_done r else Halt header_refused r)"

definition header_step :: "bool \<Rightarrow> ngx_str \<Rightarrow> nat \<Rightarrow> u8 \<Rightarrow> header_line \<Rightarrow> header_outcome" where
  "header_step allow_underscores buf p ch r =
     (case hd_st r of
        hd_start \<Rightarrow> header_start_step allow_underscores p ch r
      | hd_name \<Rightarrow> header_name_step allow_underscores buf p ch r
      | hd_space_before_value \<Rightarrow> header_value_step p ch r
      | hd_value \<Rightarrow> header_value_step p ch r
      | hd_space_after_value \<Rightarrow> header_value_step p ch r
      | _ \<Rightarrow> header_end_step ch r)"

text \<open>
  The return code, \<^verbatim>\<open>b->pos\<close> and the request.  The local copies of the state, the hash and
  the index are stored back with \<^verbatim>\<open>NGX_AGAIN\<close> and at the label \<^verbatim>\<open>done\<close>; at
  \<^verbatim>\<open>header_done\<close> only the state is, after an error none.
\<close>

definition header_result ::
    "ngx_str \<Rightarrow> nat \<Rightarrow> header_line \<Rightarrow> (header_stop, header_line) scanned \<Rightarrow> http_parse_rc \<times> nat \<times> header_line" where
  "header_result buf pos r0 res =
     (case res of
        Again r \<Rightarrow> (HTTP_AGAIN, length buf, r)
      | Halted header_line_done p r \<Rightarrow> (HTTP_OK, p + 1, r\<lparr>hd_st := hd_start\<rparr>)
      | Halted headers_done p r \<Rightarrow>
          (HTTP_PARSE_HEADER_DONE, p + 1,
           r\<lparr>hd_st := hd_start, header_hash := header_hash r0, lowcase_index := lowcase_index r0\<rparr>)
      | Halted header_refused p r \<Rightarrow>
          (HTTP_PARSE_INVALID_HEADER, pos,
           r\<lparr>hd_st := hd_st r0, header_hash := header_hash r0, lowcase_index := lowcase_index r0\<rparr>))"

definition ngx_http_parse_header_line ::
    "bool \<Rightarrow> ngx_str \<Rightarrow> nat \<Rightarrow> header_line \<Rightarrow> http_parse_rc \<times> nat \<times> header_line" where
  "ngx_http_parse_header_line allow_underscores buf pos r =
     header_result buf pos r (scan (header_step allow_underscores) buf pos r)"

section \<open>Where the input was cut does not matter\<close>

lemma header_name_append:
  "p < length buf \<Longrightarrow> header_name_step u (buf @ rest) p ch r = header_name_step u buf p ch r"
  by (simp only: header_name_step_def slice_append less_imp_le)

interpretation header: resumable "header_step allow_underscores" for allow_underscores
  by standard (simp only: header_step_def header_name_append)

section \<open>The window and the hash of the name\<close>

lemma hash_from_snoc: "hash_from key (xs @ [c]) = ngx_hash (hash_from key xs) c"
  by (induction xs arbitrary: key) simp_all

lemma hash_lc_strlow: "hash_lc_from key data = hash_from key (ngx_strlow data)"
  by (induction data arbitrary: key) (simp_all add: ngx_strlow_def)

lemma hash_strlow_both: "hash_strlow_from key src = (ngx_strlow src, hash_from key (ngx_strlow src))"
  by (induction src arbitrary: key) (simp_all add: ngx_strlow_def Let_def)

text \<open>The index stays inside the window, whatever the bytes are: \<^verbatim>\<open>i &= LEN - 1\<close>.\<close>

definition window_ok :: "header_line \<Rightarrow> bool" where
  "window_ok r \<longleftrightarrow> lowcase_index r < NGX_HTTP_LC_HEADER_LEN \<and> length (lowcase_header r) = NGX_HTTP_LC_HEADER_LEN"

lemma window_ok_chars [simp]:
  "window_ok r \<Longrightarrow> window_ok (first_name_char c r)" "window_ok r \<Longrightarrow> window_ok (name_char c r)"
  by (simp_all add: window_ok_def first_name_char_def name_char_def NGX_HTTP_LC_HEADER_LEN_def)

lemma window_ok_fields [simp]:
  "window_ok (r\<lparr>hd_st := a\<rparr>) = window_ok r" "window_ok (r\<lparr>header_hash := h\<rparr>) = window_ok r"
  "window_ok (r\<lparr>header_name_start := x\<rparr>) = window_ok r" "window_ok (r\<lparr>header_name_end := x\<rparr>) = window_ok r"
  "window_ok (r\<lparr>header_start := x\<rparr>) = window_ok r" "window_ok (r\<lparr>header_end := x\<rparr>) = window_ok r"
  "window_ok (r\<lparr>invalid_header := b\<rparr>) = window_ok r"
  "window_ok r \<Longrightarrow> window_ok (r\<lparr>lowcase_index := 0\<rparr>)"
  by (simp_all add: window_ok_def NGX_HTTP_LC_HEADER_LEN_def)

definition outcome_ok :: "('s \<Rightarrow> bool) \<Rightarrow> ('e, 's) outcome \<Rightarrow> bool" where
  "outcome_ok P res \<longleftrightarrow> (case res of Next s \<Rightarrow> P s | Halt e s \<Rightarrow> P s)"

lemma outcome_ok_simps [simp]: "outcome_ok P (Next s) = P s" "outcome_ok P (Halt e s) = P s"
  by (simp_all add: outcome_ok_def)

lemma header_step_window: "window_ok r \<Longrightarrow> outcome_ok window_ok (header_step u buf p ch r)"
  by (cases "hd_st r") (simp_all add: header_step_def header_start_step_def header_name_step_def
    header_value_step_def header_end_step_def Let_def)

lemma scan_window:
  assumes "window_ok r" "pos \<le> length buf"
  shows "case scan (header_step u) buf pos r of Again s \<Rightarrow> window_ok s | Halted e p s \<Rightarrow> window_ok s"
  using scan_invariant [where step = "header_step u" and I = "\<lambda>p. window_ok" and J = "\<lambda>e p. window_ok", OF _ assms]
    header_step_window [of _ u buf]
  by (simp add: outcome_ok_def split: scanned.splits)

section \<open>Well-formed lines\<close>

text \<open>A character of a name, and a byte of a value.\<close>

definition name_byte :: "u8 \<Rightarrow> bool" where
  "name_byte c \<longleftrightarrow> is_alpha c \<and> 0x40 < c \<and> c < 0x80 \<or> is_digit c \<or> c = chr CHR ''-''"

definition value_byte :: "u8 \<Rightarrow> bool" where
  "value_byte c \<longleftrightarrow> c \<noteq> 0 \<and> c \<noteq> CR \<and> c \<noteq> LF"

lemma lowcase_char: "lowcase ! unat c = (if name_byte c then ngx_tolower c else 0)"
proof -
  have "\<forall>c. lowcase ! unat c = (if name_byte c then ngx_tolower c else 0)"
    unfolding all_byte
    by (simp add: upto_rec1 lowcase_def nth_append name_byte_def is_alpha_def is_digit_uint ngx_tolower_def)
  then show ?thesis by blast
qed

lemma lowcase_name: "name_byte c \<Longrightarrow> lowcase ! unat c = ngx_tolower c" "name_byte c \<Longrightarrow> ngx_tolower c \<noteq> 0"
proof -
  have "\<forall>c. name_byte c \<longrightarrow> ngx_tolower c \<noteq> 0"
    unfolding all_byte by (simp add: upto_rec1 name_byte_def is_alpha_def is_digit_uint ngx_tolower_def)
  then show "name_byte c \<Longrightarrow> ngx_tolower c \<noteq> 0" by blast
qed (simp add: lowcase_char)

lemma name_byte_first: "name_byte c \<Longrightarrow> c \<noteq> CR \<and> c \<noteq> LF"
  by (auto simp: name_byte_def is_digit_def)

text \<open>What the name has left in the request after its first \<open>k\<close> bytes.\<close>

definition name_read :: "ngx_str \<Rightarrow> nat \<Rightarrow> header_line \<Rightarrow> bool" where
  "name_read name k r \<longleftrightarrow> header_hash r = ngx_hash_key (ngx_strlow (take k name))
     \<and> lowcase_index r = k mod NGX_HTTP_LC_HEADER_LEN \<and> length (lowcase_header r) = NGX_HTTP_LC_HEADER_LEN
     \<and> (k \<le> NGX_HTTP_LC_HEADER_LEN \<longrightarrow> take k (lowcase_header r) = ngx_strlow (take k name))"

lemma name_read_first:
  assumes "length (lowcase_header r) = NGX_HTTP_LC_HEADER_LEN" "name = c # cs"
  shows "name_read name 1 (first_name_char (ngx_tolower c) r)"
  using assms by (cases "lowcase_header r") (simp_all add: name_read_def first_name_char_def ngx_hash_key_def
    ngx_strlow_def NGX_HTTP_LC_HEADER_LEN_def)

lemma name_read_next:
  assumes "name_read name k r" "k < length name"
  shows "name_read name (Suc k) (name_char (ngx_tolower (name ! k)) r)"
proof -
  have t: "take (Suc k) name = take k name @ [name ! k]" using assms(2) by (rule take_Suc_conv_app_nth)
  show ?thesis
    using assms unfolding name_read_def t
    by (auto simp: name_char_def ngx_hash_key_def hash_from_snoc ngx_strlow_def take_Suc_conv_app_nth
      NGX_HTTP_LC_HEADER_LEN_def mod_Suc_eq)
qed

lemma name_read_fields [simp]:
  "name_read name k (r\<lparr>hd_st := a\<rparr>) = name_read name k r" "name_read name k (r\<lparr>header_name_start := x\<rparr>) = name_read name k r"
  "name_read name k (r\<lparr>header_name_end := x\<rparr>) = name_read name k r" "name_read name k (r\<lparr>header_start := x\<rparr>) = name_read name k r"
  "name_read name k (r\<lparr>header_end := x\<rparr>) = name_read name k r" "name_read name k (r\<lparr>invalid_header := b\<rparr>) = name_read name k r"
  by (simp_all add: name_read_def)

definition named :: "nat \<Rightarrow> header_line \<Rightarrow> bool" where
  "named p r \<longleftrightarrow> header_name_start r = Some p \<and> \<not> invalid_header r"

lemma name_run:
  assumes "name \<noteq> []" "\<forall>c\<in>set name. name_byte c" "holds_at buf p name" "hd_st r = hd_start"
    "length (lowcase_header r) = NGX_HTTP_LC_HEADER_LEN"
  shows "\<exists>s. scan (header_step u) buf p r = scan (header_step u) buf (p + length name) s
    \<and> hd_st s = hd_name \<and> named p s \<and> name_read name (length name) s"
proof -
  obtain c cs where name: "name = c # cs" using assms(1) by (cases name) auto
  have c: "name_byte c" using assms(2) name by simp
  let ?r1 = "first_name_char (ngx_tolower c) (r\<lparr>header_name_start := Some p, invalid_header := False, hd_st := hd_name\<rparr>)"
  have "header_step u buf p c r = Next ?r1"
    using name_byte_first [OF c] lowcase_name [OF c] assms(4) by (simp add: header_step_def header_start_step_def Let_def)
  moreover have h: "p < length buf" "buf ! p = c" "holds_at buf (Suc p) cs" using assms(3) by (simp_all add: name holds_at_Cons)
  ultimately have first: "scan (header_step u) buf p r = scan (header_step u) buf (Suc p) ?r1"
    by (simp add: scan_next)
  have r1: "hd_st ?r1 = hd_name \<and> named p ?r1 \<and> name_read name (Suc p - p) ?r1"
    using name_read_first [OF _ name, of "r\<lparr>header_name_start := Some p, invalid_header := False, hd_st := hd_name\<rparr>"] assms(5)
    by (simp add: named_def) (simp add: first_name_char_def)
  have "\<exists>s. scan (header_step u) buf (Suc p) ?r1 = scan (header_step u) buf (Suc p + length cs) s
    \<and> hd_st s = hd_name \<and> named p s \<and> name_read name (Suc p + length cs - p) s"
  proof (rule scan_run [where I = "\<lambda>q s. hd_st s = hd_name \<and> named p s \<and> name_read name (q - p) s"])
    fix q s
    assume q: "Suc p \<le> q" "q < Suc p + length cs" and s: "hd_st s = hd_name \<and> named p s \<and> name_read name (q - p) s"
    obtain k where k: "q = p + k" "k < length name" using q name le_Suc_ex [of p q] by auto
    have b: "buf ! q = name ! k" using holds_at_nth [OF assms(3) k(2)] k(1) by simp
    have n: "name_byte (name ! k)" using assms(2) k(2) by simp
    have "header_step u buf q (buf ! q) s = Next (name_char (ngx_tolower (name ! k)) s)"
      using s lowcase_name [OF n] by (simp add: header_step_def header_name_step_def b Let_def)
    moreover have "name_read name (Suc q - p) (name_char (ngx_tolower (name ! k)) s)"
      using name_read_next [of name k s] s k by simp
    ultimately show "\<exists>s'. header_step u buf q (buf ! q) s = Next s' \<and> hd_st s' = hd_name \<and> named p s' \<and> name_read name (Suc q - p) s'"
      using s by (simp add: name_char_def named_def)
  qed (use r1 holds_at_length [OF h(3)] h(1) in simp_all)
  with first show ?thesis by (simp add: name)
qed


text \<open>Spaces that do not change the request.\<close>

lemma spaces_run:
  assumes "holds_at buf p (replicate n (chr CHR '' ''))" "hd_st r \<in> {hd_space_before_value, hd_space_after_value}"
    and "p \<le> length buf"
  shows "scan (header_step u) buf p r = scan (header_step u) buf (p + n) r"
proof -
  have "\<exists>s. scan (header_step u) buf p r = scan (header_step u) buf (p + n) s \<and> s = r"
  proof (rule scan_run [where I = "\<lambda>q s. s = r"])
    fix q s assume q: "p \<le> q" "q < p + n" "s = r"
    obtain k where "q = p + k" "k < n" using q le_Suc_ex [of p q] by auto
    then have "buf ! q = 32" using holds_at_nth [OF assms(1), of k] by simp
    then show "\<exists>s'. header_step u buf q (buf ! q) s = Next s' \<and> s' = r"
      using assms(2) q(3) by (auto simp: header_step_def header_value_step_def)
  qed (use holds_at_length [OF assms(1,3)] in auto)
  then show ?thesis by simp
qed

definition value_frame :: "header_line \<Rightarrow> header_line \<Rightarrow> bool" where
  "value_frame r s \<longleftrightarrow> s = r\<lparr>hd_st := hd_st s, header_end := header_end s\<rparr>"

lemma value_run:
  assumes "v \<noteq> []" "\<forall>c\<in>set v. value_byte c" "hd v \<noteq> chr CHR '' ''" "last v \<noteq> chr CHR '' ''"
    "holds_at buf p v" "hd_st r = hd_space_before_value"
  shows "\<exists>e. scan (header_step u) buf p r = scan (header_step u) buf (p + length v)
    (r\<lparr>header_start := Some p, hd_st := hd_value, header_end := e\<rparr>)"
proof -
  obtain c cs where v: "v = c # cs" using assms(1) by (cases v) auto
  let ?r1 = "r\<lparr>header_start := Some p, hd_st := hd_value\<rparr>"
  have h: "p < length buf" "buf ! p = c" "holds_at buf (Suc p) cs" using assms(5) by (simp_all add: v holds_at_Cons)
  have "header_step u buf p c r = Next ?r1"
    using assms(2,3,6) by (simp add: v header_step_def header_value_step_def value_byte_def)
  then have first: "scan (header_step u) buf p r = scan (header_step u) buf (Suc p) ?r1"
    using h(1,2) by (simp add: scan_next)
  define I where "I q s \<longleftrightarrow> value_frame ?r1 s \<and>
    (hd_st s = hd_value \<or> hd_st s = hd_space_after_value \<and> buf ! (q - 1) = 32)" for q s
  have "\<exists>s. scan (header_step u) buf (Suc p) ?r1 = scan (header_step u) buf (Suc p + length cs) s \<and> I (Suc p + length cs) s"
  proof (rule scan_run)
    fix q s
    assume q: "Suc p \<le> q" "q < Suc p + length cs" and s: "I q s"
    obtain k where k: "q = Suc p + k" "k < length cs" using q le_Suc_ex [of "Suc p" q] by auto
    have "buf ! q = cs ! k" using holds_at_nth [OF h(3) k(2)] k(1) by simp
    then have b: "value_byte (buf ! q)" using assms(2) k(2) by (simp add: v)
    define st e where "st = hd_st s" and "e = header_end s"
    have "s = ?r1\<lparr>hd_st := st, header_end := e\<rparr>" "st = hd_value \<or> st = hd_space_after_value"
      using s by (auto simp: I_def value_frame_def st_def e_def)
    then show "\<exists>s'. header_step u buf q (buf ! q) s = Next s' \<and> I (Suc q) s'"
      using b by (auto simp: header_step_def header_value_step_def value_byte_def I_def value_frame_def)
  qed (use holds_at_length [OF h(3)] h(1) in \<open>auto simp: I_def value_frame_def\<close>)
  then obtain s where s: "scan (header_step u) buf p r = scan (header_step u) buf (p + length v) s" "I (p + length v) s"
    using first by (auto simp: v)
  have "buf ! (p + length v - 1) = last v"
    using holds_at_nth [OF assms(5), of "length v - 1"] by (simp add: v last_conv_nth)
  then have "hd_st s = hd_value" using s(2) assms(4) by (auto simp: I_def)
  then have "s = r\<lparr>header_start := Some p, hd_st := hd_value, header_end := header_end s\<rparr>"
    using s(2) by (simp add: I_def value_frame_def)
  with s(1) show ?thesis by metis
qed

lemma well_formed_header:
  fixes j k :: nat
  assumes "name \<noteq> []" "\<forall>c\<in>set name. name_byte c"
    and "v \<noteq> []" "\<forall>c\<in>set v. value_byte c" "hd v \<noteq> chr CHR '' ''" "last v \<noteq> chr CHR '' ''"
    and "hd_st r = hd_start" "length (lowcase_header r) = NGX_HTTP_LC_HEADER_LEN"
  defines "line \<equiv> name @ chr CHR '':'' # replicate j (chr CHR '' '') @ v @ replicate k (chr CHR '' '') @ [CR, LF]"
  shows "\<exists>s. ngx_http_parse_header_line u (line @ rest) 0 r = (HTTP_OK, length line, s)
    \<and> header_name_start s = Some 0 \<and> header_name_end s = Some (length name)
    \<and> header_start s = Some (length name + 1 + j) \<and> header_end s = Some (length name + 1 + j + length v)
    \<and> \<not> invalid_header s \<and> name_read name (length name) s"
proof -
  define buf where "buf = line @ rest"
  let ?step = "header_step u"
  let ?p1 = "length name" and ?p2 = "length name + 1" and ?p3 = "length name + 1 + j" and ?p4 = "length name + 1 + j + length v"
  have "holds_at buf 0 line" using holds_at_there [of "[]" line rest] by (simp add: buf_def)
  then have at: "holds_at buf 0 name" "holds_at buf ?p1 [chr CHR '':'']" "holds_at buf ?p2 (replicate j (chr CHR '' ''))"
    "holds_at buf ?p3 v" "holds_at buf ?p4 (replicate k (chr CHR '' '') @ [CR, LF])"
    unfolding line_def by (simp_all add: holds_at_append holds_at_Cons) (simp add: holds_at_def)
  have len: "length line \<le> length buf" by (simp add: buf_def)
  from name_run [OF assms(1,2) at(1) assms(7,8), of u] obtain s1 where s1:
    "scan ?step buf 0 r = scan ?step buf ?p1 s1" "hd_st s1 = hd_name" "named 0 s1" "name_read name (length name) s1" by auto
  let ?s2 = "s1\<lparr>header_name_end := Some ?p1, hd_st := hd_space_before_value\<rparr>"
  have colon: "lowcase ! 58 = 0"
    using lowcase_char [of 58] by (simp add: name_byte_def is_alpha_def is_digit_def)
  have "scan ?step buf ?p1 s1 = scan ?step buf ?p2 ?s2"
    using scan_eat [OF at(2), of ?step s1] s1(2)
    by (simp add: header_step_def header_name_step_def colon)
  also have "\<dots> = scan ?step buf ?p3 ?s2"
    using len by (intro spaces_run at(3)) (simp_all add: line_def)
  also obtain e where "scan ?step buf ?p3 ?s2 = scan ?step buf ?p4
      (?s2\<lparr>header_start := Some ?p3, hd_st := hd_value, header_end := e\<rparr>)"
    using value_run [OF assms(3-6) at(4), of ?s2 u] by auto
  finally have upto_v: "scan ?step buf 0 r = scan ?step buf ?p4
      (?s2\<lparr>header_start := Some ?p3, hd_st := hd_value, header_end := e\<rparr>)" using s1(1) by simp
  let ?s4 = "?s2\<lparr>header_start := Some ?p3, header_end := Some ?p4, hd_st := hd_almost_done\<rparr>"
  have "scan ?step buf 0 r = Halted header_line_done (?p4 + k + 1) ?s4"
  proof (cases k)
    case 0
    show ?thesis
      using scan_eat [OF at(5), of ?step] unfolding upto_v by (simp add: 0 header_step_def header_value_step_def header_end_step_def)
  next
    case (Suc n)
    let ?s3 = "?s2\<lparr>header_start := Some ?p3, header_end := Some ?p4, hd_st := hd_space_after_value\<rparr>"
    have sp: "holds_at buf (Suc ?p4) (replicate n (chr CHR '' ''))" "holds_at buf (?p4 + k) [CR, LF]" "buf ! ?p4 = 32" "?p4 < length buf"
      using at(5) by (simp_all add: Suc holds_at_Cons holds_at_append)
    have "scan ?step buf 0 r = scan ?step buf (Suc ?p4) ?s3"
      unfolding upto_v using sp(3,4) by (simp add: scan_next header_step_def header_value_step_def)
    also have "\<dots> = scan ?step buf (Suc ?p4 + n) ?s3"
      using sp(4) by (intro spaces_run sp(1)) simp_all
    also have "Suc ?p4 + n = ?p4 + k" by (simp add: Suc)
    also have "scan ?step buf (?p4 + k) ?s3 = Halted header_line_done (?p4 + k + 1) ?s4"
      unfolding scan_eat [OF sp(2)] by (simp add: header_step_def header_value_step_def header_end_step_def)
    finally show ?thesis .
  qed
  moreover have "length line = ?p4 + k + 2" by (simp add: line_def)
  ultimately show ?thesis
    using s1(3,4) by (simp add: ngx_http_parse_header_line_def header_result_def buf_def [symmetric] named_def)
qed

lemma header_window:
  assumes "window_ok r" "pos \<le> length buf"
  shows "window_ok (snd (snd (ngx_http_parse_header_line u buf pos r)))"
proof -
  have "window_ok (s\<lparr>header_hash := h, lowcase_index := lowcase_index r\<rparr>)" if "window_ok s" for s h
    using that assms(1) by (simp add: window_ok_def)
  then show ?thesis
    using scan_window [OF assms, of u]
    by (auto simp: ngx_http_parse_header_line_def header_result_def split: scanned.splits header_stop.splits)
qed

section \<open>Properties\<close>

text \<open>C28: A header line with a name of letters, digits and dashes and a value without zero bytes and line
  ends, padded with any number of spaces, is accepted: the name and the value without the
  padding are found, the header is not marked invalid, the hash is that of the lower-case
  name, by which the tables of known headers are built, and the window holds the lower-case
  name when it fits.\<close>

theorem header_line_accepted:
  fixes j k :: nat
  assumes "name \<noteq> []" "\<forall>c\<in>set name. name_byte c"
    and "v \<noteq> []" "\<forall>c\<in>set v. value_byte c" "hd v \<noteq> chr CHR '' ''" "last v \<noteq> chr CHR '' ''"
    and "hd_st r = hd_start" "length (lowcase_header r) = NGX_HTTP_LC_HEADER_LEN"
    and "line = name @ chr CHR '':'' # replicate j (chr CHR '' '') @ v @ replicate k (chr CHR '' '') @ [CR, LF]"
  shows "\<exists>s. ngx_http_parse_header_line u (line @ rest) 0 r = (HTTP_OK, length line, s)
    \<and> header_name_start s = Some 0 \<and> header_name_end s = Some (length name)
    \<and> header_start s = Some (length name + 1 + j) \<and> header_end s = Some (length name + 1 + j + length v)
    \<and> \<not> invalid_header s \<and> header_hash s = ngx_hash_key_lc name
    \<and> (length name \<le> NGX_HTTP_LC_HEADER_LEN \<longrightarrow> take (length name) (lowcase_header s) = ngx_strlow name)"
proof -
  from well_formed_header [OF assms(1-8), of u j k rest] obtain s where
    "ngx_http_parse_header_line u (line @ rest) 0 r = (HTTP_OK, length line, s)"
    "header_name_start s = Some 0" "header_name_end s = Some (length name)"
    "header_start s = Some (length name + 1 + j)" "header_end s = Some (length name + 1 + j + length v)"
    "\<not> invalid_header s" "name_read name (length name) s"
    unfolding assms(9) by blast
  then show ?thesis
    by (intro exI [of _ s]) (simp add: name_read_def ngx_hash_key_def ngx_hash_key_lc_def hash_lc_strlow)
qed

theorem header_line_accepted_witness:
  "\<exists>s. ngx_http_parse_header_line False (bytes ''Host: a b '' @ [CR, LF] @ bytes ''X'') 0
       \<lparr>hd_st = hd_start, header_hash = 0, lowcase_index = 0, lowcase_header = replicate 32 0,
        header_name_start = None, header_name_end = None, header_start = None, header_end = None,
        invalid_header = False, upstream = False\<rparr> = (HTTP_OK, 12, s)
    \<and> header_start s = Some 6 \<and> header_end s = Some 9 \<and> header_hash s = ngx_hash_key_lc (bytes ''Host'')"
  using header_line_accepted [where name = "bytes ''Host''" and v = "bytes ''a b''" and j = 1 and k = 1
      and rest = "bytes ''X''" and u = False
      and r = "\<lparr>hd_st = hd_start, header_hash = 0, lowcase_index = 0, lowcase_header = replicate 32 0,
        header_name_start = None, header_name_end = None, header_start = None, header_end = None,
        invalid_header = False, upstream = False\<rparr>", OF _ _ _ _ _ _ _ _ refl]
  by (auto simp: name_byte_def is_alpha_def is_digit_def value_byte_def NGX_HTTP_LC_HEADER_LEN_def
    ngx_strlow_def ngx_tolower_def)

text \<open>Whatever bytes arrive, and however often the parser is called, its writes stay inside the
  32-byte window \<^verbatim>\<open>lowcase_header\<close> of the request.\<close>

theorem header_window_kept:
  assumes "window_ok r" "pos \<le> length buf"
  shows "window_ok (snd (snd (ngx_http_parse_header_line u buf pos r)))"
  using assms by (rule header_window)

theorem header_window_kept_witness:
  "window_ok (snd (snd (ngx_http_parse_header_line True (replicate 100 (chr CHR ''a'')) 0
       \<lparr>hd_st = hd_start, header_hash = 0, lowcase_index = 0, lowcase_header = replicate 32 0,
        header_name_start = None, header_name_end = None, header_start = None, header_end = None,
        invalid_header = False, upstream = False\<rparr>)))"
  by (rule header_window_kept) (simp_all add: window_ok_def NGX_HTTP_LC_HEADER_LEN_def)

end
