(* ===== verification/Ngx_Http_Chunked.thy ===== *)
theory Ngx_Http_Chunked
  imports Ngx_Scanner Ngx_Sprintf
begin

text \<open>
  The chunked transfer coding, both ways: the incremental parser
  \<^verbatim>\<open>ngx_http_parse_chunked\<close> of \<^verbatim>\<open>http/ngx_http_parse.c\<close>, the body filter that takes the data
  out of the buffers a client sends (\<^verbatim>\<open>ngx_http_request_body_chunked_filter\<close> of
  \<^verbatim>\<open>http/ngx_http_request_body.c\<close>), and the response filter that writes chunks
  (\<^verbatim>\<open>http/modules/ngx_http_chunked_filter_module.c\<close>).
\<close>

section \<open>The parser\<close>

datatype chunk_state = sw_chunk_start | sw_chunk_size | sw_chunk_extension | sw_chunk_extension_almost_done
  | sw_chunk_data | sw_after_data | sw_after_data_almost_done | sw_last_chunk_extension
  | sw_last_chunk_extension_almost_done | sw_trailer | sw_trailer_almost_done | sw_trailer_header
  | sw_trailer_header_almost_done

record http_chunked =
  ck_state :: chunk_state
  ck_size :: nat
  ck_length :: nat

definition new_chunked :: http_chunked where
  "new_chunked = \<lparr>ck_state = sw_chunk_start, ck_size = 0, ck_length = 0\<rparr>"

datatype chunk_stop = chunk_data | chunk_done | chunk_invalid

type_synonym chunk_outcome = "(chunk_stop, http_chunked) outcome"

definition MAX_OFF :: nat where
  "MAX_OFF = nat NGX_MAX_OFF_T_VALUE"

definition go :: "chunk_state \<Rightarrow> http_chunked \<Rightarrow> chunk_outcome" where
  "go st ctx = Next (ctx\<lparr>ck_state := st\<rparr>)"

definition size_step :: "u8 \<Rightarrow> http_chunked \<Rightarrow> chunk_outcome" where
  "size_step ch ctx =
     (case ck_state ctx of
        sw_chunk_start \<Rightarrow>
          (case hex_nibble ch of
             Some d \<Rightarrow> go sw_chunk_size (ctx\<lparr>ck_size := unat d\<rparr>)
           | None \<Rightarrow> Halt chunk_invalid ctx)
      | _ \<Rightarrow>
          if MAX_OFF div 16 < ck_size ctx then Halt chunk_invalid ctx
          else
            (case hex_nibble ch of
               Some d \<Rightarrow> Next (ctx\<lparr>ck_size := ck_size ctx * 16 + unat d\<rparr>)
             | None \<Rightarrow>
                 if ck_size ctx = 0 then
                   (if ch = CR then go sw_last_chunk_extension_almost_done ctx
                    else if ch = LF then go sw_trailer ctx
                    else if ch = chr CHR '';'' \<or> ch = chr CHR '' '' \<or> ch = 9 then go sw_last_chunk_extension ctx
                    else Halt chunk_invalid ctx)
                 else
                   (if ch = CR then go sw_chunk_extension_almost_done ctx
                    else if ch = LF then go sw_chunk_data ctx
                    else if ch = chr CHR '';'' \<or> ch = chr CHR '' '' \<or> ch = 9 then go sw_chunk_extension ctx
                    else Halt chunk_invalid ctx)))"

definition expect_lf :: "chunk_state \<Rightarrow> u8 \<Rightarrow> http_chunked \<Rightarrow> chunk_outcome" where
  "expect_lf st ch ctx = (if ch = LF then go st ctx else Halt chunk_invalid ctx)"

text \<open>A line that is skipped up to its end.\<close>

definition skip_line :: "chunk_state \<Rightarrow> chunk_state \<Rightarrow> u8 \<Rightarrow> http_chunked \<Rightarrow> chunk_outcome" where
  "skip_line cr lf ch ctx = (if ch = CR then go cr ctx else if ch = LF then go lf ctx else Next ctx)"

definition trailer_step :: "u8 \<Rightarrow> http_chunked \<Rightarrow> chunk_outcome" where
  "trailer_step ch ctx =
     (case ck_state ctx of
        sw_trailer \<Rightarrow>
          if ch = CR then go sw_trailer_almost_done ctx
          else if ch = LF then Halt chunk_done ctx
          else go sw_trailer_header ctx
      | _ \<Rightarrow> if ch = LF then Halt chunk_done ctx else Halt chunk_invalid ctx)"

definition chunk_step :: "ngx_str \<Rightarrow> nat \<Rightarrow> u8 \<Rightarrow> http_chunked \<Rightarrow> chunk_outcome" where
  "chunk_step buf p ch ctx =
     (case ck_state ctx of
        sw_chunk_start \<Rightarrow> size_step ch ctx
      | sw_chunk_size \<Rightarrow> size_step ch ctx
      | sw_chunk_extension \<Rightarrow> skip_line sw_chunk_extension_almost_done sw_chunk_data ch ctx
      | sw_chunk_extension_almost_done \<Rightarrow> expect_lf sw_chunk_data ch ctx
      | sw_chunk_data \<Rightarrow> Halt chunk_data ctx
      | sw_after_data \<Rightarrow>
          if ch = CR then go sw_after_data_almost_done ctx
          else if ch = LF then go sw_chunk_start ctx
          else Halt chunk_invalid ctx
      | sw_after_data_almost_done \<Rightarrow> expect_lf sw_chunk_start ch ctx
      | sw_last_chunk_extension \<Rightarrow> skip_line sw_last_chunk_extension_almost_done sw_trailer ch ctx
      | sw_last_chunk_extension_almost_done \<Rightarrow> expect_lf sw_trailer ch ctx
      | sw_trailer \<Rightarrow> trailer_step ch ctx
      | sw_trailer_almost_done \<Rightarrow> trailer_step ch ctx
      | sw_trailer_header \<Rightarrow> skip_line sw_trailer_header_almost_done sw_trailer ch ctx
      | sw_trailer_header_almost_done \<Rightarrow> expect_lf sw_trailer ch ctx)"

text \<open>The least number of bytes that must follow: how much to read before asking again.\<close>

definition chunk_length :: "http_chunked \<Rightarrow> nat" where
  "chunk_length ctx =
     (case ck_state ctx of
        sw_chunk_start \<Rightarrow> 3
      | sw_chunk_size \<Rightarrow> 1 + (if ck_size ctx \<noteq> 0 then ck_size ctx + 4 else 1)
      | sw_chunk_extension \<Rightarrow> 1 + ck_size ctx + 4
      | sw_chunk_extension_almost_done \<Rightarrow> 1 + ck_size ctx + 4
      | sw_chunk_data \<Rightarrow> ck_size ctx + 4
      | sw_after_data \<Rightarrow> 4
      | sw_after_data_almost_done \<Rightarrow> 4
      | sw_last_chunk_extension \<Rightarrow> 2
      | sw_last_chunk_extension_almost_done \<Rightarrow> 2
      | sw_trailer \<Rightarrow> 1
      | sw_trailer_almost_done \<Rightarrow> 1
      | sw_trailer_header \<Rightarrow> 2
      | sw_trailer_header_almost_done \<Rightarrow> 2)"

definition enter_chunk :: "http_chunked \<Rightarrow> http_chunked" where
  "enter_chunk ctx =
     (if ck_state ctx = sw_chunk_data \<and> ck_size ctx = 0 then ctx\<lparr>ck_state := sw_after_data\<rparr> else ctx)"

text \<open>The label \<^verbatim>\<open>data\<close>.\<close>

definition chunk_data_label :: "ngx_rc \<Rightarrow> nat \<Rightarrow> http_chunked \<Rightarrow> ngx_rc \<times> nat \<times> http_chunked" where
  "chunk_data_label rc pos ctx =
     (if MAX_OFF - 5 < ck_size ctx then (NGX_ERROR, pos, ctx)
      else (rc, pos, ctx\<lparr>ck_length := chunk_length ctx\<rparr>))"

definition ngx_http_parse_chunked :: "ngx_str \<Rightarrow> nat \<Rightarrow> http_chunked \<Rightarrow> ngx_rc \<times> nat \<times> http_chunked" where
  "ngx_http_parse_chunked buf pos ctx =
     (case scan chunk_step buf pos (enter_chunk ctx) of
        Again c \<Rightarrow> chunk_data_label NGX_AGAIN (max pos (length buf)) c
      | Halted chunk_data p c \<Rightarrow> chunk_data_label NGX_OK p c
      | Halted chunk_done p c \<Rightarrow> (NGX_DONE, p + 1, c\<lparr>ck_state := sw_chunk_start\<rparr>)
      | Halted chunk_invalid p c \<Rightarrow> (NGX_ERROR, pos, c\<lparr>ck_state := ck_state ctx\<rparr>))"

section \<open>The body filter\<close>

datatype body_error = ENTITY_TOO_LARGE | BAD_REQUEST

record body_state =
  bd_chunked :: http_chunked
  content_length_n :: nat
  bd_out :: "ngx_str list"
  last_buf :: bool

text \<open>
  What the filter does with \<open>size\<close> and the bytes there are after a chunk header: a small
  chunk that is all there is moved behind the data of the buffer it has open, otherwise a
  new buffer points to it.
\<close>

definition take_data :: "bool \<Rightarrow> ngx_str \<Rightarrow> nat \<Rightarrow> body_state \<Rightarrow> nat \<times> body_state" where
  "take_data open buf pos s =
     (let size = ck_size (bd_chunked s); avail = length buf - pos; n = min size avail;
          data = take n (drop pos buf);
          s = s\<lparr>bd_chunked := (bd_chunked s)\<lparr>ck_size := size - n\<rparr>, content_length_n := content_length_n s + n\<rparr>
      in (pos + n,
          if open \<and> size \<le> 128 \<and> size \<le> avail \<and> bd_out s \<noteq> []
          then s\<lparr>bd_out := butlast (bd_out s) @ [last (bd_out s) @ data]\<rparr>
          else s\<lparr>bd_out := bd_out s @ [data]\<rparr>))"

lemma chunk_data_progress:
  assumes "ngx_http_parse_chunked buf pos ctx = (NGX_OK, p, c)"
  shows "pos \<le> p" "p < length buf" "pos < p + ck_size c"
proof -
  let ?res = "scan chunk_step buf pos (enter_chunk ctx)"
  have pos: "pos \<le> length buf"
  proof (rule ccontr)
    assume "\<not> pos \<le> length buf"
    then have "?res = Again (enter_chunk ctx)" by simp
    with assms show False by (simp add: ngx_http_parse_chunked_def chunk_data_label_def split: if_splits)
  qed
  define I where "I q s \<longleftrightarrow> pos \<le> q \<and> (q = pos \<longrightarrow> s = enter_chunk ctx)" for q s
  have "case ?res of Again s' \<Rightarrow> I (length buf) s' | Halted e q s' \<Rightarrow> (e = chunk_data \<longrightarrow> I q s' \<and> ck_state s' = sw_chunk_data)
      \<and> pos \<le> q \<and> q < length buf"
  proof (rule scan_invariant [OF _ _ pos])
    fix q s assume "I q s"
    then show "case chunk_step buf q (buf ! q) s of Next s' \<Rightarrow> I (Suc q) s'
      | Halt e s' \<Rightarrow> e = chunk_data \<longrightarrow> I q s' \<and> ck_state s' = sw_chunk_data"
      by (cases "ck_state s")
        (auto simp: I_def chunk_step_def size_step_def go_def expect_lf_def skip_line_def trailer_step_def split: option.split)
  qed (simp add: I_def)
  then have "pos \<le> p \<and> (p = pos \<longrightarrow> ck_state (enter_chunk ctx) = sw_chunk_data \<and> ck_size c = ck_size (enter_chunk ctx))
      \<and> p < length buf"
    using assms by (auto simp: ngx_http_parse_chunked_def chunk_data_label_def I_def
      split: scanned.splits chunk_stop.splits if_splits)
  then show "pos \<le> p" "p < length buf" "pos < p + ck_size c"
    by (auto simp: I_def enter_chunk_def split: if_splits)
qed


function body_loop :: "nat \<Rightarrow> bool \<Rightarrow> ngx_str \<Rightarrow> nat \<Rightarrow> body_state \<Rightarrow> body_error + body_state" where
  "body_loop client_max_body_size open buf pos s =
     (case ngx_http_parse_chunked buf pos (bd_chunked s) of
        (rc, p, c) \<Rightarrow>
          if rc = NGX_OK then
            (if client_max_body_size \<noteq> 0
                \<and> int client_max_body_size - int (content_length_n s) < int (ck_size c)
             then Inl ENTITY_TOO_LARGE
             else (case take_data open buf p (s\<lparr>bd_chunked := c\<rparr>) of
                     (p', s') \<Rightarrow> body_loop client_max_body_size True buf p' s'))
          else if rc = NGX_DONE then Inr (s\<lparr>bd_chunked := c, last_buf := True\<rparr>)
          else if rc = NGX_AGAIN then Inr (s\<lparr>bd_chunked := c\<rparr>)
          else Inl BAD_REQUEST)"
  by pat_completeness auto
termination
proof (relation "measure (\<lambda>(m, open, buf, pos, s). length buf - pos)", goal_cases)
  case (2 m opn buf pos s rc y p c p' s')
  then have "ngx_http_parse_chunked buf pos (bd_chunked s) = (NGX_OK, p, c)" by simp
  note progress = chunk_data_progress [OF this]
  have "p' = p + min (ck_size c) (length buf - p)"
    using 2 by (simp add: take_data_def Let_def split: if_splits)
  then show ?case using progress by auto
qed simp

declare body_loop.simps [simp del]

text \<open>The chain of buffers that has been read.\<close>

fun ngx_http_request_body_chunked_filter :: "nat \<Rightarrow> ngx_str list \<Rightarrow> body_state \<Rightarrow> body_error + body_state" where
  "ngx_http_request_body_chunked_filter client_max_body_size [] s = Inr s"
| "ngx_http_request_body_chunked_filter client_max_body_size (buf # chain) s =
     (case body_loop client_max_body_size False buf 0 s of
        Inl e \<Rightarrow> Inl e
      | Inr s' \<Rightarrow> ngx_http_request_body_chunked_filter client_max_body_size chain s')"

text \<open>What the filter starts with when \<^verbatim>\<open>rb->rest\<close> is -1.\<close>

definition new_body :: body_state where
  "new_body = \<lparr>bd_chunked = new_chunked, content_length_n = 0, bd_out = [], last_buf = False\<rparr>"

section \<open>The response filter\<close>

text \<open>A trailer that is to be sent: its hash is not zero.\<close>

definition trailer_text :: "bool \<times> ngx_str \<times> ngx_str \<Rightarrow> ngx_str" where
  "trailer_text h = (case h of (used, key, val) \<Rightarrow>
     if used then key @ bytes '': '' @ val @ [CR, LF] else [])"

definition ngx_http_chunked_create_trailers :: "(bool \<times> ngx_str \<times> ngx_str) list \<Rightarrow> ngx_str" where
  "ngx_http_chunked_create_trailers trailers =
     (let text = concat (map trailer_text trailers) in
      if length text = 0 then [CR, LF, chr CHR ''0'', CR, LF, CR, LF]
      else [CR, LF, chr CHR ''0'', CR, LF] @ text @ [CR, LF])"

text \<open>The chain that is sent on, for a chain of buffers in memory; \<^verbatim>\<open>tl->buf->pos += 2\<close> skips the
  line end that would close a chunk.\<close>

definition ngx_http_chunked_body_filter ::
    "(bool \<times> ngx_str \<times> ngx_str) list \<Rightarrow> ngx_str list \<Rightarrow> bool \<Rightarrow> ngx_str list option" where
  "ngx_http_chunked_body_filter trailers bufs lastbuf =
     (let size = sum_list (map length bufs);
          tail = (if lastbuf then [drop (if size = 0 then 2 else 0) (ngx_http_chunked_create_trailers trailers)]
                  else if 0 < size then [[CR, LF]] else [])
      in if size = 0 then Some (bufs @ tail)
         else map_option (\<lambda>h. h # bufs @ tail)
                (ngx_vslprintf (2 ^ 63) (bytes ''%xO'' @ [CR, LF]) [Arg64 (word_of_nat size)]))"

section \<open>A reference: one byte at a time\<close>

text \<open>
  The state without what the next byte does not depend on: the announced length, and the
  difference between data that has ended and the state behind it.
\<close>

definition core :: "http_chunked \<Rightarrow> http_chunked" where
  "core ctx = (enter_chunk ctx)\<lparr>ck_length := 0\<rparr>"

text \<open>More data before what is to come.\<close>

definition prepend :: "ngx_str \<Rightarrow> (ngx_str \<times> 'b) option \<Rightarrow> (ngx_str \<times> 'b) option" where
  "prepend d res = map_option (\<lambda>(d', r). (d @ d', r)) res"

lemma prepend_simps [simp]:
  "prepend d None = None" "prepend d (Some (d', r)) = Some (d @ d', r)"
  "prepend [] res = res" "prepend a (prepend b res) = prepend (a @ b) res"
  by (cases res; simp add: prepend_def split: prod.split)+

text \<open>The data in a sequence of bytes, the state behind it, and what follows the last chunk.\<close>

fun body_bytes :: "http_chunked \<Rightarrow> ngx_str \<Rightarrow> (ngx_str \<times> http_chunked \<times> ngx_str option) option" where
  "body_bytes ctx [] = (if MAX_OFF - 5 < ck_size ctx then None else Some ([], core ctx, None))"
| "body_bytes ctx (c # cs) =
     (let ctx = core ctx in
      if MAX_OFF - 5 < ck_size ctx then None
      else if ck_state ctx = sw_chunk_data then
        prepend [c] (body_bytes (ctx\<lparr>ck_size := ck_size ctx - 1\<rparr>) cs)
      else (case chunk_step [] 0 c ctx of
              Next ctx' \<Rightarrow> body_bytes ctx' cs
            | Halt e ctx' \<Rightarrow> if e = chunk_done then Some ([], core (ctx'\<lparr>ck_state := sw_chunk_start\<rparr>), Some cs) else None))"

lemma core_simps [simp]:
  "core (core ctx) = core ctx" "ck_size (core ctx) = ck_size ctx" "core (ctx\<lparr>ck_length := n\<rparr>) = core ctx"
  by (simp_all add: core_def enter_chunk_def)

lemma body_bytes_core: "body_bytes (core ctx) cs = body_bytes ctx cs"
  by (cases cs) simp_all

lemma body_bytes_same: "core a = core b \<Longrightarrow> body_bytes a cs = body_bytes b cs"
  by (metis body_bytes_core)

lemma body_bytes_append:
  "body_bytes ctx (xs @ ys) =
     (case body_bytes ctx xs of
        None \<Rightarrow> None
      | Some (d, x, Some r) \<Rightarrow> Some (d, x, Some (r @ ys))
      | Some (d, x, None) \<Rightarrow> prepend d (body_bytes x ys))"
proof (induction ctx xs rule: body_bytes.induct)
  case (1 ctx)
  show ?case
    by (cases ys) (simp_all add: body_bytes_core)
next
  case (2 ctx c cs)
  show ?case
    using 2 [OF refl]
    by (auto simp: Let_def split: outcome.splits option.splits prod.splits)
qed

declare body_bytes.simps(2) [simp del]

section \<open>The filter reads what the reference reads\<close>

text \<open>A chunk that is being read is not empty; its data may have ended.\<close>

definition chunk_wf :: "http_chunked \<Rightarrow> bool" where
  "chunk_wf ctx \<longleftrightarrow> (ck_state ctx \<in> {sw_chunk_extension, sw_chunk_extension_almost_done} \<longrightarrow> 0 < ck_size ctx)"

definition in_chunk :: "http_chunked \<Rightarrow> bool" where
  "in_chunk ctx \<longleftrightarrow> chunk_wf ctx \<and> (ck_state ctx = sw_chunk_data \<longrightarrow> 0 < ck_size ctx)"

lemma in_chunk_enter: "in_chunk ctx \<Longrightarrow> enter_chunk ctx = ctx"
  by (auto simp: in_chunk_def enter_chunk_def)

lemma enter_in_chunk: "chunk_wf ctx \<Longrightarrow> in_chunk (enter_chunk ctx)"
  by (auto simp: in_chunk_def enter_chunk_def chunk_wf_def)

lemma core_in_chunk: "in_chunk ctx \<Longrightarrow> core ctx = ctx\<lparr>ck_length := 0\<rparr>"
  by (simp add: core_def in_chunk_enter)

lemma chunk_step_length:
  "chunk_step buf p c (ctx\<lparr>ck_length := n\<rparr>) =
     (case chunk_step [] 0 c ctx of
        Next s \<Rightarrow> Next (s\<lparr>ck_length := n\<rparr>) | Halt e s \<Rightarrow> Halt e (s\<lparr>ck_length := n\<rparr>))"
  by (cases "ck_state ctx") (simp_all add: chunk_step_def size_step_def go_def expect_lf_def skip_line_def
    trailer_step_def split: option.split)

lemma chunk_step_place: "chunk_step buf p c ctx = chunk_step [] 0 c ctx"
  by (simp add: chunk_step_def)

lemma chunk_step_in_chunk: "in_chunk ctx \<Longrightarrow> chunk_step buf p c ctx = Next ctx' \<Longrightarrow> in_chunk ctx'"
  by (cases "ck_state ctx") (auto simp: in_chunk_def chunk_wf_def chunk_step_def size_step_def go_def expect_lf_def
    skip_line_def trailer_step_def split: option.splits if_splits)

lemma chunk_step_stop: "chunk_step buf p c ctx = Halt e ctx' \<Longrightarrow> ctx' = ctx \<and> (e = chunk_data \<longleftrightarrow> ck_state ctx = sw_chunk_data)"
  by (cases "ck_state ctx") (auto simp: chunk_step_def size_step_def go_def expect_lf_def
    skip_line_def trailer_step_def split: option.splits if_splits)

lemma body_bytes_Cons:
  assumes "in_chunk ctx"
  shows "body_bytes ctx (c # cs) =
     (if MAX_OFF - 5 < ck_size ctx then None
      else if ck_state ctx = sw_chunk_data then prepend [c] (body_bytes (ctx\<lparr>ck_size := ck_size ctx - 1\<rparr>) cs)
      else (case chunk_step [] 0 c ctx of
              Next ctx' \<Rightarrow> body_bytes ctx' cs
            | Halt e ctx' \<Rightarrow> if e = chunk_done then Some ([], core (ctx'\<lparr>ck_state := sw_chunk_start\<rparr>), Some cs) else None))"
proof -
  have "body_bytes (ctx\<lparr>ck_length := 0, ck_size := n\<rparr>) cs = body_bytes (ctx\<lparr>ck_size := n\<rparr>) cs" for n
    by (rule body_bytes_same) (simp add: core_def enter_chunk_def)
  moreover have "body_bytes (x\<lparr>ck_length := 0\<rparr>) cs = body_bytes x cs" for x
    by (rule body_bytes_same) simp
  moreover have "core (x\<lparr>ck_length := 0, ck_state := st\<rparr>) = core (x\<lparr>ck_state := st\<rparr>)" for x st
    by (simp add: core_def enter_chunk_def)
  ultimately show ?thesis
    by (simp add: body_bytes.simps(2) core_in_chunk [OF assms] chunk_step_length Let_def split: outcome.split)
qed

lemma scan_body_bytes:
  assumes "body_bytes ctx (drop p buf) = Some (d, x, res)" "in_chunk ctx" "p \<le> length buf"
  shows "case scan chunk_step buf p ctx of
      Again c \<Rightarrow> d = [] \<and> res = None \<and> x = core c \<and> ck_size c \<le> MAX_OFF - 5 \<and> in_chunk c
    | Halted chunk_data q c \<Rightarrow> q < length buf \<and> in_chunk c \<and> ck_state c = sw_chunk_data \<and> ck_size c \<le> MAX_OFF - 5
         \<and> body_bytes c (drop q buf) = Some (d, x, res)
    | Halted chunk_done q c \<Rightarrow> ck_size c \<le> MAX_OFF - 5 \<and> d = [] \<and> x = core (c\<lparr>ck_state := sw_chunk_start\<rparr>) \<and> res = Some (drop (Suc q) buf)
    | Halted chunk_invalid q c \<Rightarrow> False"
  using assms
proof (induction "length buf - p" arbitrary: p ctx)
  case 0
  then show ?case by (auto split: if_splits)
next
  case (Suc n)
  then have p: "p < length buf" by simp
  then have drop: "drop p buf = buf ! p # drop (Suc p) buf" by (rule Cons_nth_drop_Suc [symmetric])
  note bytes = Suc.prems(1) [unfolded drop body_bytes_Cons [OF Suc.prems(2)]]
  show ?case
  proof (cases "chunk_step buf p (buf ! p) ctx")
    case (Next ctx')
    then have st: "chunk_step [] 0 (buf ! p) ctx = Next ctx'" by (simp add: chunk_step_place [of buf p])
    then have "ck_state ctx \<noteq> sw_chunk_data" by (auto simp: chunk_step_def)
    with bytes st have "body_bytes ctx' (drop (Suc p) buf) = Some (d, x, res)" by (simp split: if_splits)
    from Suc.hyps(1) [OF _ this chunk_step_in_chunk [OF Suc.prems(2) Next]] Suc.hyps(2) p
    show ?thesis by (simp add: scan_next [where step = chunk_step, OF p Next])
  next
    case (Halt e ctx')
    then have st: "chunk_step [] 0 (buf ! p) ctx = Halt e ctx'" by (simp add: chunk_step_place [of buf p])
    note stop = chunk_step_stop [OF Halt]
    show ?thesis
      using bytes st stop p Suc.prems(1,2) by (auto simp: scan_halt [where step = chunk_step, OF p Halt] split: chunk_stop.split if_splits)
  qed
qed

text \<open>Data is taken as a block.\<close>

lemma body_bytes_data:
  assumes "in_chunk ctx" "ck_state ctx = sw_chunk_data" "length xs \<le> ck_size ctx" "ck_size ctx \<le> MAX_OFF - 5"
  shows "body_bytes ctx (xs @ ys) = prepend xs (body_bytes (ctx\<lparr>ck_size := ck_size ctx - length xs\<rparr>) ys)"
  using assms
proof (induction xs arbitrary: ctx)
  case (Cons c xs)
  let ?ctx = "ctx\<lparr>ck_size := ck_size ctx - 1\<rparr>"
  have step: "body_bytes ctx ((c # xs) @ ys) = prepend [c] (body_bytes ?ctx (xs @ ys))"
    using Cons.prems by (simp add: body_bytes_Cons)
  show ?case
  proof (cases "xs = []")
    case False
    then have "in_chunk ?ctx" "length xs \<le> ck_size ?ctx" using Cons.prems by (cases xs; simp add: in_chunk_def chunk_wf_def)+
    from Cons.IH [OF this(1) _ this(2)] Cons.prems show ?thesis by (simp add: step [simplified])
  qed (use step in simp)
qed simp

lemma take_data_result:
  assumes "take_data opn buf p s = (p', s')" "p \<le> length buf"
  defines "n \<equiv> min (ck_size (bd_chunked s)) (length buf - p)"
  shows "p' = p + n" "concat (bd_out s') = concat (bd_out s) @ take n (drop p buf)" "last_buf s' = last_buf s"
    "bd_chunked s' = (bd_chunked s)\<lparr>ck_size := ck_size (bd_chunked s) - n\<rparr>"
    "content_length_n s' = content_length_n s + n"
proof -
  have "bd_out s \<noteq> [] \<Longrightarrow> concat (bd_out s) = concat (butlast (bd_out s)) @ last (bd_out s)"
    by (metis append_butlast_last_id concat.simps concat_append append_Nil2)
  then show "p' = p + n" "concat (bd_out s') = concat (bd_out s) @ take n (drop p buf)" "last_buf s' = last_buf s"
    "bd_chunked s' = (bd_chunked s)\<lparr>ck_size := ck_size (bd_chunked s) - n\<rparr>"
    "content_length_n s' = content_length_n s + n"
    using assms by (auto simp: take_data_def Let_def n_def split: if_splits)
qed

lemma body_loop_bytes:
  assumes "body_bytes (bd_chunked s) (drop pos buf) = Some (d, x, res)" "chunk_wf (bd_chunked s)" "pos \<le> length buf"
  shows "\<exists>s'. body_loop 0 opn buf pos s = Inr s' \<and> concat (bd_out s') = concat (bd_out s) @ d
    \<and> core (bd_chunked s') = x \<and> chunk_wf (bd_chunked s') \<and> ck_size (bd_chunked s') \<le> MAX_OFF - 5
    \<and> last_buf s' = (last_buf s \<or> res \<noteq> None)"
  using assms
proof (induction "length buf - pos" arbitrary: pos s d opn rule: less_induct)
  case less
  let ?c0 = "enter_chunk (bd_chunked s)"
  have "core ?c0 = core (bd_chunked s)" by (simp add: core_def enter_chunk_def)
  then have "body_bytes ?c0 (drop pos buf) = Some (d, x, res)"
    using less.prems(1) body_bytes_same by metis
  note scanned = scan_body_bytes [OF this enter_in_chunk [OF less.prems(2)] less.prems(3)]
  show ?case
  proof (cases "scan chunk_step buf pos ?c0")
    case (Again c)
    then show ?thesis
      using scanned by (auto simp: body_loop.simps [of 0 opn buf pos s] ngx_http_parse_chunked_def chunk_data_label_def in_chunk_def
        chunk_wf_def)
  next
    case (Halted e q c)
    show ?thesis
    proof (cases e)
      case chunk_data
      let ?c = "c\<lparr>ck_length := chunk_length c\<rparr>"
      have parsed: "ngx_http_parse_chunked buf pos (bd_chunked s) = (NGX_OK, q, ?c)"
        using scanned Halted chunk_data by (simp add: ngx_http_parse_chunked_def chunk_data_label_def)
      obtain p' s' where t: "take_data opn buf q (s\<lparr>bd_chunked := ?c\<rparr>) = (p', s')" by fastforce
      have q: "q < length buf" "in_chunk c" "ck_state c = sw_chunk_data" "ck_size c \<le> MAX_OFF - 5"
        "body_bytes c (drop q buf) = Some (d, x, res)" using scanned Halted chunk_data by simp_all
      define n where "n = min (ck_size c) (length buf - q)"
      have r: "p' = q + n" "concat (bd_out s') = concat (bd_out s) @ take n (drop q buf)" "last_buf s' = last_buf s"
        "bd_chunked s' = ?c\<lparr>ck_size := ck_size c - n\<rparr>"
        using take_data_result [OF t] q(1) by (simp_all add: n_def)
      have "drop q buf = take n (drop q buf) @ drop p' buf" by (simp add: r(1) add.commute flip: drop_drop)
      then have "body_bytes c (drop q buf) = prepend (take n (drop q buf)) (body_bytes (c\<lparr>ck_size := ck_size c - n\<rparr>) (drop p' buf))"
        using body_bytes_data [OF q(2,3) _ q(4), of "take n (drop q buf)" "drop p' buf"] q(1) by (simp add: n_def)
      also have "body_bytes (c\<lparr>ck_size := ck_size c - n\<rparr>) (drop p' buf) = body_bytes (bd_chunked s') (drop p' buf)"
        by (rule body_bytes_same) (simp add: r(4) core_def enter_chunk_def)
      finally obtain d' where d': "d = take n (drop q buf) @ d'" "body_bytes (bd_chunked s') (drop p' buf) = Some (d', x, res)"
        using q(5) by (cases "body_bytes (bd_chunked s') (drop p' buf)") auto
      have wf: "chunk_wf (bd_chunked s')" using q(2,3) by (simp add: r(4) in_chunk_def chunk_wf_def)
      have "pos \<le> q" "pos < q + ck_size c" using chunk_data_progress [OF parsed] by simp_all
      then have "length buf - p' < length buf - pos" "p' \<le> length buf" using q(1) by (auto simp: r(1) n_def)
      from less.hyps [OF this(1) d'(2) wf this(2), of True] show ?thesis
        by (auto simp: body_loop.simps [of 0 opn buf pos s] parsed t d'(1) r(2,3))
    next
      case chunk_done
      then show ?thesis
        using scanned Halted by (auto simp: body_loop.simps [of 0 opn buf pos s] ngx_http_parse_chunked_def chunk_wf_def)
    next
      case chunk_invalid
      then show ?thesis using scanned Halted by simp
    qed
  qed
qed

lemma filter_bytes:
  assumes "body_bytes (bd_chunked s) (concat chain) = Some (d, x, res)" "res \<in> {None, Some []}" "chunk_wf (bd_chunked s)"
  shows "\<exists>s'. ngx_http_request_body_chunked_filter 0 chain s = Inr s' \<and> concat (bd_out s') = concat (bd_out s) @ d
    \<and> last_buf s' = (last_buf s \<or> res \<noteq> None)"
  using assms
proof (induction chain arbitrary: s d x res)
  case Nil
  then show ?case by (auto split: if_splits)
next
  case (Cons buf chain)
  from Cons.prems(1) obtain d1 x1 res1 where b: "body_bytes (bd_chunked s) buf = Some (d1, x1, res1)"
    by (auto simp: body_bytes_append split: option.splits)
  then have "body_bytes (bd_chunked s) (drop 0 buf) = Some (d1, x1, res1)" by simp
  from body_loop_bytes [OF this Cons.prems(3) le0, of False]
  obtain s1 where s1: "body_loop 0 False buf 0 s = Inr s1"
    "concat (bd_out s1) = concat (bd_out s) @ d1" "core (bd_chunked s1) = x1" "chunk_wf (bd_chunked s1)"
    "last_buf s1 = (last_buf s \<or> res1 \<noteq> None)" "ck_size (bd_chunked s1) \<le> MAX_OFF - 5" by blast
  show ?case
  proof (cases res1)
    case None
    with Cons.prems(1) b obtain d2 where d2: "body_bytes x1 (concat chain) = Some (d2, x, res)" "d = d1 @ d2"
      by (cases "body_bytes x1 (concat chain)") (auto simp: body_bytes_append)
    have "body_bytes (bd_chunked s1) (concat chain) = Some (d2, x, res)"
      using d2(1) body_bytes_core [of "bd_chunked s1"] s1(3) by simp
    from Cons.IH [OF this Cons.prems(2) s1(4)] show ?thesis
      using s1 d2(2) None by auto
  next
    case (Some r)
    with Cons.prems(1,2) b have "concat chain = []" "res = Some []" "d = d1" by (auto simp: body_bytes_append)
    moreover from this(1) have "body_bytes (bd_chunked s1) (concat chain) = Some ([], x1, None)"
      using s1(3,6) by (simp only: body_bytes.simps(1)) simp
    from Cons.IH [OF this _ s1(4)] obtain s' where "ngx_http_request_body_chunked_filter 0 chain s1 = Inr s'"
      "concat (bd_out s') = concat (bd_out s1)" "last_buf s' = last_buf s1" by auto
    ultimately show ?thesis using s1 Some by auto
  qed
qed

section \<open>What the response filter writes\<close>

lemma hex_nibble_dig: "map_option uint (hex_nibble c) = hex_dig c"
proof -
  have sub: "uint (w - k) = uint w - uint k" if "k \<le> w" for w k :: u8
    using that uint_sub_lem [of k w] by (simp add: word_le_def)
  show ?thesis
  proof (cases "is_digit c")
    case True
    then have "48 \<le> c" by (simp add: is_digit_def)
    from sub [OF this] True show ?thesis
      by (simp add: hex_nibble_def hex_dig_def digit_of_def)
  next
    case False
    define w where "w = c OR 0x20"
    show ?thesis
    proof (cases "97 \<le> w \<and> w \<le> 102")
      case True
      then have "87 \<le> w" by (simp add: word_le_def)
      moreover have "w - 97 + 10 = w - 87" by simp
      ultimately have "uint (w - 97 + 10) = uint w - 87" using sub [of 87 w] by simp
      with True False show ?thesis
        unfolding hex_nibble_def hex_dig_def w_def [symmetric] Let_def by simp
    next
      case no: False
      with False show ?thesis
        unfolding hex_nibble_def hex_dig_def w_def [symmetric] Let_def by auto
    qed
  qed
qed

lemma hex_nibble_digit: "hex_dig c = Some d \<Longrightarrow> \<exists>n. hex_nibble c = Some n \<and> int (unat n) = d"
  using hex_nibble_dig [of c] by (cases "hex_nibble c") auto

lemma MAX_OFF_simps: "MAX_OFF div 16 \<le> MAX_OFF - 5" "0 < MAX_OFF div 16"
  by (simp_all add: MAX_OFF_def ngx_limits)

lemma size_digits:
  assumes "radix_value 16 hex_dig (int v) hs = Some (int n)" "n \<le> MAX_OFF div 16" "ck_state ctx = sw_chunk_size" "ck_size ctx = v"
  shows "body_bytes ctx (hs @ rest) = body_bytes (ctx\<lparr>ck_size := n\<rparr>) rest"
  using assms
proof (induction hs arbitrary: v ctx)
  case Nil
  then have "ctx\<lparr>ck_size := n\<rparr> = ctx" by simp
  then show ?case by simp
next
  case (Cons c hs)
  obtain d where d: "hex_dig c = Some d" "radix_value 16 hex_dig (int v * 16 + d) hs = Some (int n)"
    using Cons.prems(1) by (auto split: option.splits)
  obtain k where k: "hex_nibble c = Some k" "int (unat k) = d" using hex_nibble_digit [OF d(1)] by blast
  then have v': "int v * 16 + d = int (v * 16 + unat k)" by simp
  have "int v * 16 + d \<le> int n" using hextoi.radix_value_mono [OF _ d(2)] k(2) by simp
  then have "v \<le> n" using k(2) by linarith
  then have bound: "v \<le> MAX_OFF div 16" "\<not> MAX_OFF - 5 < v"
    using assms(2) MAX_OFF_simps(1) by linarith+
  have "in_chunk ctx" using Cons.prems(3) by (simp add: in_chunk_def chunk_wf_def)
  then have "body_bytes ctx (c # hs @ rest) = body_bytes (ctx\<lparr>ck_size := v * 16 + unat k\<rparr>) (hs @ rest)"
    using Cons.prems(3,4) bound k(1) by (simp add: body_bytes_Cons chunk_step_def size_step_def)
  also have "\<dots> = body_bytes (ctx\<lparr>ck_size := v * 16 + unat k, ck_size := n\<rparr>) rest"
    using Cons.IH [OF d(2) [unfolded v'] assms(2)] Cons.prems(3) by simp
  finally show ?case by simp
qed

lemma chunk_size_line:
  assumes "radix_value 16 hex_dig 0 hs = Some (int n)" "n \<le> MAX_OFF div 16" "hs \<noteq> []" "0 < n"
    "ck_state ctx = sw_chunk_start" "ck_size ctx = 0"
  shows "body_bytes ctx (hs @ CR # LF # rest) = body_bytes (ctx\<lparr>ck_size := n, ck_state := sw_chunk_data\<rparr>) rest"
proof -
  obtain c cs where hs: "hs = c # cs" using assms(3) by (cases hs) auto
  obtain d where d: "hex_dig c = Some d" "radix_value 16 hex_dig d cs = Some (int n)"
    using assms(1) by (auto simp: hs split: option.splits)
  obtain k where k: "hex_nibble c = Some k" "int (unat k) = d" using hex_nibble_digit [OF d(1)] by blast
  have cr: "hex_nibble 13 = None" by (simp add: hex_nibble_def is_digit_def)
  have inc: "in_chunk (ctx\<lparr>ck_state := st, ck_size := m\<rparr>)" "in_chunk (ctx\<lparr>ck_size := m, ck_state := st\<rparr>)"
    if "0 < m \<or> st \<in> {sw_chunk_start, sw_chunk_size}" for st m
    using that by (auto simp: in_chunk_def chunk_wf_def)
  have "in_chunk ctx" using assms(5) by (simp add: in_chunk_def chunk_wf_def)
  then have "body_bytes ctx (hs @ CR # LF # rest)
      = body_bytes (ctx\<lparr>ck_size := unat k, ck_state := sw_chunk_size\<rparr>) (cs @ CR # LF # rest)"
    using assms(5,6) k(1) by (simp add: hs body_bytes_Cons chunk_step_def size_step_def go_def)
  also have "\<dots> = body_bytes (ctx\<lparr>ck_state := sw_chunk_size, ck_size := n\<rparr>) (CR # LF # rest)"
    using size_digits [of "unat k" cs n "ctx\<lparr>ck_size := unat k, ck_state := sw_chunk_size\<rparr>"] assms(2) d(2) k(2)
    by simp
  also have "\<dots> = body_bytes (ctx\<lparr>ck_size := n, ck_state := sw_chunk_extension_almost_done\<rparr>) (LF # rest)"
    using assms(2,4) MAX_OFF_simps inc [of n sw_chunk_size] cr
    by (simp add: body_bytes_Cons chunk_step_def size_step_def go_def)
  also have "\<dots> = body_bytes (ctx\<lparr>ck_size := n, ck_state := sw_chunk_data\<rparr>) rest"
    using assms(2,4) MAX_OFF_simps inc [of n sw_chunk_extension_almost_done]
    by (simp add: body_bytes_Cons chunk_step_def expect_lf_def go_def)
  finally show ?thesis by simp
qed

definition size_line :: "nat \<Rightarrow> ngx_str" where
  "size_line n = hex_digits hex_char (word_of_nat n) [] @ [CR, LF]"

text \<open>What one call writes for its data, and what the last one adds.\<close>

definition chunk_text :: "ngx_str \<Rightarrow> ngx_str" where
  "chunk_text d = (if d = [] then [] else size_line (length d) @ d @ [CR, LF])"

lemma sprintf_size:
  assumes "n < 2 ^ 63"
  shows "ngx_vslprintf (2 ^ 63) (bytes ''%xO'' @ [CR, LF]) [Arg64 (word_of_nat n)] = Some (size_line n)"
proof -
  have s: "\<not> sint (word_of_nat n :: u64) < 0"
    using assms by (subst sint_uint) (simp add: take_bit_int_eq_self signed_take_bit_int_eq_self unsigned_of_nat take_bit_nat_eq_self)
  have l: "length (hex_digits hex_char (word_of_nat n) []) \<le> 20"
    using num_text_fits [of "word_of_nat n" 1] by (simp add: num_text_def)
  have "convert (2 ^ 63) (bytes ''xO'' @ [CR, LF]) [Arg64 (word_of_nat n)] =
      Some (hex_digits hex_char (word_of_nat n) [], [CR, LF], [])"
    using s l by (simp add: convert_def scan_conv_def is_digit_def conv_letters_def conv_num_def emit_signed_def
      put_num_def sprintf_num_text num_text_def Let_def)
  with l show ?thesis by (simp add: ngx_vslprintf.simps(2) size_line_def)
qed

lemma start_same: "ck_state ctx = sw_chunk_start \<Longrightarrow> ck_size ctx = 0 \<Longrightarrow> body_bytes ctx cs = body_bytes new_chunked cs"
  by (rule body_bytes_same) (simp add: core_def enter_chunk_def new_chunked_def)

lemma chunk_text_bytes:
  assumes "length d \<le> MAX_OFF div 16"
  shows "body_bytes new_chunked (chunk_text d @ rest) = prepend d (body_bytes new_chunked rest)"
proof (cases "d = []")
  case False
  let ?hs = "hex_digits hex_char (word_of_nat (length d)) []"
  have n63: "length d < 2 ^ 63" using assms by (simp add: MAX_OFF_def ngx_limits)
  then have u: "uint (word_of_nat (length d) :: u64) = int (length d)"
    by (simp add: uint_nat unsigned_of_nat take_bit_nat_eq_self)
  have hs: "radix_value 16 hex_dig 0 ?hs = Some (int (length d))"
    using radix_value_num_text(2) [of 1 "word_of_nat (length d)"] u by (simp add: num_text_def)
  have ne: "?hs \<noteq> []" using num_text_nonempty [of "word_of_nat (length d)" 1] by (simp add: num_text_def)
  let ?data = "new_chunked\<lparr>ck_size := length d, ck_state := sw_chunk_data\<rparr>"
  have "body_bytes new_chunked (chunk_text d @ rest) = body_bytes ?data (d @ CR # LF # rest)"
    using chunk_size_line [OF hs assms ne, of new_chunked "d @ CR # LF # rest"] False
    by (simp add: chunk_text_def size_line_def new_chunked_def)
  also have "\<dots> = prepend d (body_bytes (?data\<lparr>ck_size := 0\<rparr>) (CR # LF # rest))"
    using body_bytes_data [of ?data d "CR # LF # rest"] assms False MAX_OFF_simps by (simp add: in_chunk_def chunk_wf_def)
  also have "body_bytes (?data\<lparr>ck_size := 0\<rparr>) (CR # LF # rest) = body_bytes (new_chunked\<lparr>ck_state := sw_after_data\<rparr>) (CR # LF # rest)"
    by (rule body_bytes_same) (simp add: core_def enter_chunk_def new_chunked_def)
  also have "\<dots> = body_bytes new_chunked rest"
    by (simp add: body_bytes_Cons in_chunk_def chunk_wf_def new_chunked_def chunk_step_def go_def expect_lf_def)
  finally show ?thesis .
qed (simp add: chunk_text_def)

definition line_text :: "ngx_str \<Rightarrow> bool" where
  "line_text s \<longleftrightarrow> CR \<notin> set s \<and> LF \<notin> set s"

definition trailer_ok :: "bool \<times> ngx_str \<times> ngx_str \<Rightarrow> bool" where
  "trailer_ok h = (case h of (used, key, val) \<Rightarrow> key \<noteq> [] \<and> line_text key \<and> line_text val)"

abbreviation trailer_ctx :: "chunk_state \<Rightarrow> http_chunked" where
  "trailer_ctx st \<equiv> new_chunked\<lparr>ck_state := st\<rparr>"

lemma trailer_line:
  "line_text t \<Longrightarrow> body_bytes (trailer_ctx sw_trailer_header) (t @ CR # LF # rest) = body_bytes (trailer_ctx sw_trailer) rest"
  by (induction t) (auto simp: body_bytes_Cons in_chunk_def chunk_wf_def new_chunked_def chunk_step_def go_def
    expect_lf_def skip_line_def line_text_def)

lemma trailer_bytes:
  assumes "trailer_ok h"
  shows "body_bytes (trailer_ctx sw_trailer) (trailer_text h @ rest) = body_bytes (trailer_ctx sw_trailer) rest"
proof -
  obtain used key val where h: "h = (used, key, val)" by (cases h)
  show ?thesis
  proof (cases used)
    case True
    from assms h obtain c k where key: "key = c # k" "line_text key" "line_text val" by (cases key) (auto simp: trailer_ok_def)
    have "line_text (k @ 58 # 32 # val)" using key by (auto simp: line_text_def)
    from trailer_line [OF this, of rest] show ?thesis
      using key(2) by (simp add: h True trailer_text_def key(1) body_bytes_Cons in_chunk_def chunk_wf_def new_chunked_def
        chunk_step_def trailer_step_def go_def line_text_def)
  qed (simp add: h trailer_text_def)
qed

lemma trailers_bytes:
  "\<forall>h\<in>set hs. trailer_ok h \<Longrightarrow>
    body_bytes (trailer_ctx sw_trailer) (concat (map trailer_text hs) @ rest) = body_bytes (trailer_ctx sw_trailer) rest"
  by (induction hs) (simp_all add: trailer_bytes)

definition last_chunk :: "(bool \<times> ngx_str \<times> ngx_str) list \<Rightarrow> ngx_str" where
  "last_chunk hs = chr CHR ''0'' # CR # LF # concat (map trailer_text hs) @ [CR, LF]"

lemma last_chunk_bytes:
  assumes "\<forall>h\<in>set hs. trailer_ok h"
  shows "\<exists>x. body_bytes new_chunked (last_chunk hs) = Some ([], x, Some [])"
proof -
  have zero: "hex_nibble 48 = Some 0" "hex_nibble 13 = None" by (simp_all add: hex_nibble_def is_digit_def)
  have "body_bytes new_chunked (last_chunk hs) = body_bytes (trailer_ctx sw_trailer) (concat (map trailer_text hs) @ [CR, LF])"
    by (simp add: last_chunk_def body_bytes_Cons in_chunk_def chunk_wf_def new_chunked_def chunk_step_def size_step_def go_def
      expect_lf_def zero)
  also have "\<dots> = body_bytes (trailer_ctx sw_trailer) [CR, LF]" by (rule trailers_bytes [OF assms])
  finally show ?thesis
    by (simp add: body_bytes_Cons in_chunk_def chunk_wf_def new_chunked_def chunk_step_def trailer_step_def go_def)
qed

lemma filter_writes:
  assumes "sum_list (map length bufs) < 2 ^ 63"
  shows "\<exists>chain. ngx_http_chunked_body_filter hs bufs lastbuf = Some chain
    \<and> concat chain = chunk_text (concat bufs) @ (if lastbuf then last_chunk hs else [])"
proof -
  have len: "sum_list (map length bufs) = length (concat bufs)" by (simp add: length_concat)
  have trailers: "ngx_http_chunked_create_trailers hs = [CR, LF] @ last_chunk hs"
    by (auto simp: ngx_http_chunked_create_trailers_def last_chunk_def Let_def)
  show ?thesis
    using sprintf_size [OF assms] unfolding ngx_http_chunked_body_filter_def len trailers
    by (cases "concat bufs = []") (auto simp: chunk_text_def Let_def)
qed

section \<open>Bounds\<close>

lemma chunk_step_size:
  assumes "ck_size ctx \<le> MAX_OFF"
  shows "case chunk_step buf p c ctx of Next s \<Rightarrow> ck_size s \<le> MAX_OFF | Halt e s \<Rightarrow> ck_size s \<le> MAX_OFF"
proof -
  have nib: "unat d < 16" if "hex_nibble c = Some d" for d
  proof -
    have "int (unat d) < 16" using hex_nibble_bound [OF that] by simp
    then show ?thesis by linarith
  qed
  have grow: "n * 16 + unat d \<le> MAX_OFF" if "\<not> MAX_OFF div 16 < n" "hex_nibble c = Some d" for n d
  proof -
    have "MAX_OFF = 16 * (MAX_OFF div 16) + 15" by (simp add: MAX_OFF_def ngx_limits)
    then show ?thesis using that(1) nib [OF that(2)] by linarith
  qed
  have small: "unat d \<le> MAX_OFF" if "hex_nibble c = Some d" for d
    using nib [OF that] by (simp add: MAX_OFF_def ngx_limits)
  show ?thesis
    using assms grow small
    by (cases "ck_state ctx") (simp_all add: chunk_step_def size_step_def go_def expect_lf_def skip_line_def trailer_step_def
      split: option.split)
qed

lemma parse_chunked_size:
  assumes "ck_size ctx \<le> MAX_OFF" "pos \<le> length buf" "ngx_http_parse_chunked buf pos ctx = (rc, p, c)"
  shows "ck_size c \<le> MAX_OFF" "rc \<in> {NGX_OK, NGX_AGAIN} \<Longrightarrow> ck_length c \<le> MAX_OFF"
proof -
  have "ck_size (enter_chunk ctx) \<le> MAX_OFF" using assms(1) by (simp add: enter_chunk_def)
  from scan_invariant [where step = chunk_step and I = "\<lambda>p s. ck_size s \<le> MAX_OFF" and J = "\<lambda>e p s. ck_size s \<le> MAX_OFF"
      and buf = buf, OF _ this assms(2)] chunk_step_size
  have s: "case scan chunk_step buf pos (enter_chunk ctx) of Again s \<Rightarrow> ck_size s \<le> MAX_OFF
    | Halted e q s \<Rightarrow> ck_size s \<le> MAX_OFF" by (auto split: scanned.splits)
  then show "ck_size c \<le> MAX_OFF"
    using assms(3) by (auto simp: ngx_http_parse_chunked_def chunk_data_label_def split: scanned.splits chunk_stop.splits if_splits)
  have "chunk_length x \<le> MAX_OFF" if "\<not> MAX_OFF - 5 < ck_size x" for x
    using that by (cases "ck_state x") (simp_all add: chunk_length_def MAX_OFF_def ngx_limits)
  then show "rc \<in> {NGX_OK, NGX_AGAIN} \<Longrightarrow> ck_length c \<le> MAX_OFF"
    using assms(3) by (auto simp: ngx_http_parse_chunked_def chunk_data_label_def split: scanned.splits chunk_stop.splits if_splits)
qed

definition within :: "nat \<Rightarrow> body_state \<Rightarrow> bool" where
  "within m s \<longleftrightarrow> content_length_n s = length (concat (bd_out s)) \<and> content_length_n s \<le> m"

lemma body_loop_within:
  assumes "body_loop m opn buf pos s = Inr s'" "m \<noteq> 0" "within m s"
  shows "within m s'"
  using assms
proof (induction m opn buf pos s arbitrary: s' rule: body_loop.induct)
  case (1 m opn buf pos s)
  obtain rc p c where r: "ngx_http_parse_chunked buf pos (bd_chunked s) = (rc, p, c)" by (cases "ngx_http_parse_chunked buf pos (bd_chunked s)")
  show ?case
  proof (cases "rc = NGX_OK")
    case True
    obtain p1 s1 where t: "take_data opn buf p (s\<lparr>bd_chunked := c\<rparr>) = (p1, s1)" by fastforce
    have fits: "\<not> int m - int (content_length_n s) < int (ck_size c)"
      using "1.prems"(1,2) True by (auto simp: body_loop.simps [of m opn buf pos s] r split: if_splits)
    have "p < length buf" using chunk_data_progress [OF r [unfolded True]] by simp
    then have "within m s1"
      using take_data_result [OF t] fits "1.prems"(3) by (auto simp: within_def)
    moreover have "body_loop m True buf p1 s1 = Inr s'"
      using "1.prems"(1,2) True fits by (simp add: body_loop.simps [of m opn buf pos s] r t)
    ultimately show ?thesis
      using "1.IH" [OF r [symmetric] refl True _ t [symmetric]] fits "1.prems"(2) by auto
  next
    case False
    then show ?thesis
      using "1.prems"(1,3) by (auto simp: body_loop.simps [of m opn buf pos s] r within_def split: if_splits)
  qed
qed

lemma filter_within:
  "ngx_http_request_body_chunked_filter m chain s = Inr s' \<Longrightarrow> m \<noteq> 0 \<Longrightarrow> within m s \<Longrightarrow> within m s'"
  by (induction chain arbitrary: s) (auto split: sum.splits dest: body_loop_within)

section \<open>Properties\<close>

text \<open>C14: The two filters compose: whatever a response body is cut into, and however the bytes that the
  response filter writes for it (sizes, data, line ends, trailers, the last chunk) are cut
  into the buffers that the request filter reads, the request filter ends with the same
  body, and it knows that it is complete.\<close>

theorem chunked_round_trip:
  assumes "\<forall>bufs\<in>set (calls @ [lastcall]). sum_list (map length bufs) \<le> MAX_OFF div 16"
    and "\<forall>h\<in>set hs. trailer_ok h"
  shows "\<exists>chains lastchain.
    map (\<lambda>bufs. ngx_http_chunked_body_filter hs bufs False) calls = map Some chains
    \<and> ngx_http_chunked_body_filter hs lastcall True = Some lastchain
    \<and> (\<forall>pieces. concat pieces = concat (concat chains) @ concat lastchain \<longrightarrow>
        (\<exists>s. ngx_http_request_body_chunked_filter 0 pieces new_body = Inr s
          \<and> concat (bd_out s) = concat (concat calls) @ concat lastcall \<and> last_buf s))"
proof -
  have small: "MAX_OFF div 16 < 2 ^ 63" by (simp add: MAX_OFF_def ngx_limits)
  have len: "length (concat bufs) = sum_list (map length bufs)" for bufs :: "ngx_str list" by (simp add: length_concat)
  define f where "f bufs = the (ngx_http_chunked_body_filter hs bufs False)" for bufs
  have f: "ngx_http_chunked_body_filter hs bufs False = Some (f bufs) \<and> concat (f bufs) = chunk_text (concat bufs)"
    if "bufs \<in> set calls" for bufs
    using filter_writes [of bufs hs False] assms(1) small that by (fastforce simp: f_def)
  obtain l where l: "ngx_http_chunked_body_filter hs lastcall True = Some l"
    "concat l = chunk_text (concat lastcall) @ last_chunk hs"
    using filter_writes [of lastcall hs True] assms(1) small by fastforce
  obtain x where x: "body_bytes new_chunked (last_chunk hs) = Some ([], x, Some [])"
    using last_chunk_bytes [OF assms(2)] by blast
  have "body_bytes new_chunked (concat (concat (map f cs)) @ rest) = prepend (concat (concat cs)) (body_bytes new_chunked rest)"
    if "set cs \<subseteq> set calls" for cs rest
    using that by (induction cs) (use assms(1) in \<open>auto simp: f chunk_text_bytes len\<close>)
  from this [of calls "concat l"]
  have "body_bytes new_chunked (concat (concat (map f calls)) @ concat l)
    = Some (concat (concat calls) @ concat lastcall, x, Some [])"
    using x assms(1) by (simp add: l(2) chunk_text_bytes len)
  moreover have "chunk_wf new_chunked" by (simp add: chunk_wf_def new_chunked_def)
  ultimately have "\<exists>s. ngx_http_request_body_chunked_filter 0 pieces new_body = Inr s
          \<and> concat (bd_out s) = concat (concat calls) @ concat lastcall \<and> last_buf s"
    if "concat pieces = concat (concat (map f calls)) @ concat l" for pieces
    using filter_bytes [of new_body pieces _ x "Some []"] that by (simp add: new_body_def)
  then show ?thesis
    using f l(1) by (intro exI [of _ "map f calls"] exI [of _ l]) auto
qed

theorem chunked_round_trip_witness:
  "\<exists>chains lastchain.
    map (\<lambda>bufs. ngx_http_chunked_body_filter [(True, bytes ''X'', bytes ''1'')] bufs False)
        [[bytes ''hello'', bytes '' '']] = map Some chains
    \<and> ngx_http_chunked_body_filter [(True, bytes ''X'', bytes ''1'')] [bytes ''world''] True = Some lastchain
    \<and> (\<exists>s. ngx_http_request_body_chunked_filter 0 (concat chains @ lastchain) new_body = Inr s
          \<and> concat (bd_out s) = bytes ''hello world'' \<and> last_buf s)"
proof -
  have "5 \<le> MAX_OFF div 16" "6 \<le> MAX_OFF div 16" by (simp_all add: MAX_OFF_def ngx_limits)
  then show ?thesis
    using chunked_round_trip [of "[[bytes ''hello'', bytes '' '']]" "[bytes ''world'']" "[(True, bytes ''X'', bytes ''1'')]"]
    by (fastforce simp: trailer_ok_def line_text_def)
qed

text \<open>With a \<^verbatim>\<open>client_max_body_size\<close> the filter never passes on more than that many bytes,
  over all buffers of the request, and \<^verbatim>\<open>content_length_n\<close> counts exactly what it passed.\<close>

theorem chunked_body_limit:
  assumes "ngx_http_request_body_chunked_filter m chain new_body = Inr s" "m \<noteq> 0"
  shows "content_length_n s = length (concat (bd_out s)) \<and> content_length_n s \<le> m"
  using filter_within [OF assms] by (simp add: within_def new_body_def)

theorem chunked_body_limit_witness:
  "content_length_n new_body = length (concat (bd_out new_body)) \<and> content_length_n new_body \<le> 7"
  by (rule chunked_body_limit [of 7 "[]"]) simp_all

text \<open>The chunk size and the length to read next never overflow \<^verbatim>\<open>off_t\<close>, whatever digits a
  client sends: the tests before the multiplication and at the label \<^verbatim>\<open>data\<close> suffice.\<close>

theorem chunk_size_bounded:
  assumes "ck_size ctx \<le> MAX_OFF" "pos \<le> length buf" "ngx_http_parse_chunked buf pos ctx = (rc, p, c)"
  shows "ck_size c \<le> MAX_OFF \<and> (rc = NGX_OK \<or> rc = NGX_AGAIN \<longrightarrow> ck_length c \<le> MAX_OFF)"
  using parse_chunked_size [OF assms] by blast

theorem chunk_size_bounded_witness:
  "ck_size (snd (snd (ngx_http_parse_chunked (replicate 40 (chr CHR ''f'')) 0 new_chunked))) \<le> MAX_OFF"
proof -
  obtain rc p c where r: "ngx_http_parse_chunked (replicate 40 (chr CHR ''f'')) 0 new_chunked = (rc, p, c)"
    by (cases "ngx_http_parse_chunked (replicate 40 (chr CHR ''f'')) 0 new_chunked")
  from chunk_size_bounded [OF _ _ this] r show ?thesis by (simp add: new_chunked_def)
qed

end
