(* ===== verification/Ngx_Http_Uri.thy ===== *)
theory Ngx_Http_Uri
  imports Ngx_Http_Request
begin

text \<open>
  The path of a request: \<^verbatim>\<open>ngx_http_parse_complex_uri\<close> of \<^verbatim>\<open>http/ngx_http_parse.c\<close>, which
  decodes the escapes, merges slashes and resolves the dot segments in one pass over the
  bytes, against a specification that does these one after the other on lists of segments;
  and the check of the URIs that a backend sends, \<^verbatim>\<open>ngx_http_parse_unsafe_uri\<close>.
\<close>

section \<open>The state\<close>

datatype path_state = sw_usual | sw_slash | sw_dot | sw_dot_dot

text \<open>\<open>sw_quoted\<close> and \<open>sw_quoted_second\<close> keep the state to go back to, the second the first digit.\<close>

datatype cu_state = Path path_state | sw_quoted path_state | sw_quoted_second path_state u8

record complex_uri =
  cu_st :: cu_state
  cu_out :: ngx_str
  cu_ext :: "nat option"
  cu_plus :: bool
  cu_quoted :: bool

datatype cu_stop = cu_invalid | cu_args | cu_done

type_synonym cu_outcome = "(cu_stop, complex_uri) outcome"

section \<open>One character in a path state\<close>

definition put :: "path_state \<Rightarrow> u8 \<Rightarrow> complex_uri \<Rightarrow> cu_outcome" where
  "put st ch r = Next (r\<lparr>cu_out := cu_out r @ [ch], cu_st := Path st\<rparr>)"

text \<open>\<open>u -= 4\<close> and the search for the slash before.\<close>

definition pop_segment :: "complex_uri \<Rightarrow> complex_uri option" where
  "pop_segment r =
     (case dropWhile (\<lambda>c. c \<noteq> chr CHR ''/'') (drop 3 (rev (cu_out r))) of
        [] \<Rightarrow> None
      | rest \<Rightarrow> Some (r\<lparr>cu_out := rev rest\<rparr>))"

definition plus :: "u8 \<Rightarrow> complex_uri \<Rightarrow> complex_uri" where
  "plus ch r = (if ch = chr CHR ''+'' then r\<lparr>cu_plus := True\<rparr> else r)"

definition usual_step :: "u8 \<Rightarrow> complex_uri \<Rightarrow> cu_outcome" where
  "usual_step ch r =
     (if in_table usual ch then put sw_usual ch r
      else if ch = chr CHR ''/'' then put sw_slash ch (r\<lparr>cu_ext := None\<rparr>)
      else if ch = chr CHR ''%'' then Next (r\<lparr>cu_st := sw_quoted sw_usual\<rparr>)
      else if ch = chr CHR ''?'' then Halt cu_args r
      else if ch = chr CHR ''#'' then Halt cu_done r
      else if ch = chr CHR ''.'' then put sw_usual ch (r\<lparr>cu_ext := Some (length (cu_out r) + 1)\<rparr>)
      else put sw_usual ch (plus ch r))"

definition slash_step :: "bool \<Rightarrow> u8 \<Rightarrow> complex_uri \<Rightarrow> cu_outcome" where
  "slash_step merge_slashes ch r =
     (if in_table usual ch then put sw_usual ch r
      else if ch = chr CHR ''/'' then (if merge_slashes then Next r else put sw_slash ch r)
      else if ch = chr CHR ''.'' then put sw_dot ch r
      else if ch = chr CHR ''%'' then Next (r\<lparr>cu_st := sw_quoted sw_slash\<rparr>)
      else if ch = chr CHR ''?'' then Halt cu_args r
      else if ch = chr CHR ''#'' then Halt cu_done r
      else put sw_usual ch (plus ch r))"

definition dot_step :: "u8 \<Rightarrow> complex_uri \<Rightarrow> cu_outcome" where
  "dot_step ch r =
     (let less = r\<lparr>cu_out := butlast (cu_out r)\<rparr> in
      if in_table usual ch then put sw_usual ch r
      else if ch = chr CHR ''/'' then Next (less\<lparr>cu_st := Path sw_slash\<rparr>)
      else if ch = chr CHR ''.'' then put sw_dot_dot ch r
      else if ch = chr CHR ''%'' then Next (r\<lparr>cu_st := sw_quoted sw_dot\<rparr>)
      else if ch = chr CHR ''?'' then Halt cu_args less
      else if ch = chr CHR ''#'' then Halt cu_done less
      else put sw_usual ch (plus ch r))"

definition dot_dot_step :: "u8 \<Rightarrow> complex_uri \<Rightarrow> cu_outcome" where
  "dot_dot_step ch r =
     (if in_table usual ch then put sw_usual ch r
      else if ch = chr CHR ''/'' \<or> ch = chr CHR ''?'' \<or> ch = chr CHR ''#'' then
        (case pop_segment r of
           None \<Rightarrow> Halt cu_invalid r
         | Some r' \<Rightarrow>
             if ch = chr CHR ''?'' then Halt cu_args r'
             else if ch = chr CHR ''#'' then Halt cu_done r'
             else Next (r'\<lparr>cu_st := Path sw_slash\<rparr>))
      else if ch = chr CHR ''%'' then Next (r\<lparr>cu_st := sw_quoted sw_dot_dot\<rparr>)
      else put sw_usual ch (plus ch r))"

definition path_step :: "bool \<Rightarrow> path_state \<Rightarrow> u8 \<Rightarrow> complex_uri \<Rightarrow> cu_outcome" where
  "path_step merge_slashes st ch r =
     (case st of
        sw_usual \<Rightarrow> usual_step ch r
      | sw_slash \<Rightarrow> slash_step merge_slashes ch r
      | sw_dot \<Rightarrow> dot_step ch r
      | sw_dot_dot \<Rightarrow> dot_dot_step ch r)"

section \<open>Escapes\<close>

text \<open>
  The second digit.  A decoded \<open>%\<close>, \<open>#\<close> or \<open>?\<close> is data; any other byte goes through
  the \<^verbatim>\<open>switch\<close> again, in the state before the escape.
\<close>

definition second_step :: "bool \<Rightarrow> path_state \<Rightarrow> u8 \<Rightarrow> u8 \<Rightarrow> complex_uri \<Rightarrow> cu_outcome" where
  "second_step merge_slashes quoted_state decoded ch r =
     (if is_digit ch then
        let c = push_bit 4 decoded + (ch - 48) in
          if c = chr CHR ''%'' \<or> c = chr CHR ''#'' then put sw_usual c r
          else if c = 0 then Halt cu_invalid r
          else path_step merge_slashes quoted_state c (r\<lparr>cu_st := Path quoted_state\<rparr>)
      else
        let l = ch OR 0x20 in
          if chr CHR ''a'' \<le> l \<and> l \<le> chr CHR ''f'' then
            let c = push_bit 4 decoded + (l - 97) + 10 in
              if c = chr CHR ''?'' then put sw_usual c r
              else path_step merge_slashes quoted_state c ((plus c r)\<lparr>cu_st := Path quoted_state\<rparr>)
          else Halt cu_invalid r)"

definition complex_step :: "bool \<Rightarrow> ngx_str \<Rightarrow> nat \<Rightarrow> u8 \<Rightarrow> complex_uri \<Rightarrow> cu_outcome" where
  "complex_step merge_slashes buf p ch r =
     (case cu_st r of
        Path st \<Rightarrow> path_step merge_slashes st ch r
      | sw_quoted st \<Rightarrow>
          (let r = r\<lparr>cu_quoted := True\<rparr> in
           case hex_nibble ch of
             Some d \<Rightarrow> Next (r\<lparr>cu_st := sw_quoted_second st d\<rparr>)
           | None \<Rightarrow> Halt cu_invalid r)
      | sw_quoted_second st d \<Rightarrow> second_step merge_slashes st d ch r)"

section \<open>The parser\<close>

record uri_result =
  ur_uri :: ngx_str
  ur_exten :: "ngx_str option"
  ur_args :: "ngx_str option"
  ur_args_start :: "nat option"
  ur_plus :: bool
  ur_quoted :: bool

text \<open>
  The label \<^verbatim>\<open>done\<close>, and \<^verbatim>\<open>args\<close>: the arguments end at a \<open>#\<close>, and only then they are
  stored here; otherwise the caller takes them up to the end of the URI.
\<close>

definition uri_done :: "complex_uri \<Rightarrow> uri_result" where
  "uri_done r = \<lparr>ur_uri = cu_out r, ur_exten = map_option (\<lambda>e. drop e (cu_out r)) (cu_ext r),
     ur_args = None, ur_args_start = None, ur_plus = cu_plus r, ur_quoted = cu_quoted r\<rparr>"

definition uri_args :: "ngx_str \<Rightarrow> nat \<Rightarrow> complex_uri \<Rightarrow> uri_result" where
  "uri_args uri p r =
     (let rest = drop p uri; args = takeWhile (\<lambda>c. c \<noteq> chr CHR ''#'') rest in
      if length args < length rest then (uri_done r)\<lparr>ur_args := Some args\<rparr>
      else (uri_done r)\<lparr>ur_args_start := Some p\<rparr>)"

text \<open>The end of the loop: a last dot segment is resolved, an unfinished escape refused.\<close>

definition complex_result :: "ngx_str \<Rightarrow> (cu_stop, complex_uri) scanned \<Rightarrow> http_parse_rc + uri_result" where
  "complex_result uri res =
     (case res of
        Halted cu_invalid p r \<Rightarrow> Inl HTTP_PARSE_INVALID_REQUEST
      | Halted cu_args p r \<Rightarrow> Inr (uri_args uri (p + 1) r)
      | Halted cu_done p r \<Rightarrow> Inr (uri_done r)
      | Again r \<Rightarrow>
          (case cu_st r of
             Path sw_dot \<Rightarrow> Inr (uri_done (r\<lparr>cu_out := butlast (cu_out r)\<rparr>))
           | Path sw_dot_dot \<Rightarrow>
               (case pop_segment r of
                  None \<Rightarrow> Inl HTTP_PARSE_INVALID_REQUEST
                | Some r' \<Rightarrow> Inr (uri_done r'))
           | Path st \<Rightarrow> Inr (uri_done r)
           | _ \<Rightarrow> Inl HTTP_PARSE_INVALID_REQUEST))"

definition new_complex :: "bool \<Rightarrow> complex_uri" where
  "new_complex empty_path = \<lparr>cu_st = Path sw_usual, cu_out = (if empty_path then [chr CHR ''/''] else []),
     cu_ext = None, cu_plus = False, cu_quoted = False\<rparr>"

definition ngx_http_parse_complex_uri ::
    "bool \<Rightarrow> bool \<Rightarrow> ngx_str \<Rightarrow> http_parse_rc + uri_result" where
  "ngx_http_parse_complex_uri merge_slashes empty_path uri =
     complex_result uri (scan (complex_step merge_slashes) uri 0 (new_complex empty_path))"

section \<open>What a path means\<close>

text \<open>
  The bytes of a path after its escapes: a \<open>%\<close>, \<open>#\<close> or \<open>?\<close> that was escaped is data.
  The path ends at the first of \<open>?\<close> and \<open>#\<close> that was not.
\<close>

datatype token = Plain u8 | Data u8

fun token_byte :: "token \<Rightarrow> u8" where
  "token_byte (Plain c) = c"
| "token_byte (Data c) = c"

definition escape_token :: "u8 \<Rightarrow> token" where
  "escape_token c = (if c \<in> {chr CHR ''%'', chr CHR ''#'', chr CHR ''?''} then Data c else Plain c)"

fun tokens :: "ngx_str \<Rightarrow> token list option" where
  "tokens [] = Some []"
| "tokens (c # cs) =
     (if c = chr CHR ''%'' then
        (case cs of
           a # b # rest \<Rightarrow>
             (case (hex_nibble a, hex_nibble b) of
                (Some x, Some y) \<Rightarrow>
                  (if push_bit 4 x + y = 0 then None
                   else map_option ((#) (escape_token (push_bit 4 x + y))) (tokens rest))
              | _ \<Rightarrow> None)
         | _ \<Rightarrow> None)
      else if c = chr CHR ''?'' \<or> c = chr CHR ''#'' then Some []
      else map_option ((#) (Plain c)) (tokens cs))"

text \<open>The segments between the slashes; there is always a last one.\<close>

fun segments :: "token list \<Rightarrow> ngx_str list" where
  "segments [] = [[]]"
| "segments (t # ts) =
     (if t = Plain (chr CHR ''/'') then [] # segments ts
      else (token_byte t # hd (segments ts)) # tl (segments ts))"

text \<open>
  A segment that is followed by a slash: dot segments are resolved against the segments
  before them (the last one first), an empty one is dropped when slashes are merged.
\<close>

definition push :: "bool \<Rightarrow> ngx_str list \<Rightarrow> ngx_str \<Rightarrow> ngx_str list option" where
  "push merge stack seg =
     (if seg = bytes ''.'' then Some stack
      else if seg = bytes ''..'' then (case stack of [] \<Rightarrow> None | s # st \<Rightarrow> Some st)
      else if seg = [] \<and> merge then Some stack
      else Some (seg # stack))"

definition render :: "ngx_str list \<Rightarrow> ngx_str \<Rightarrow> ngx_str" where
  "render stack seg = chr CHR ''/'' # concat (map (\<lambda>s. s @ [chr CHR ''/'']) (rev stack)) @ seg"

fun resolve :: "bool \<Rightarrow> ngx_str list \<Rightarrow> ngx_str list \<Rightarrow> ngx_str option" where
  "resolve merge stack [] = None"
| "resolve merge stack [seg] =
     (if seg = bytes ''.'' \<or> seg = bytes ''..''
      then map_option (\<lambda>st. render st []) (push merge stack seg)
      else Some (render stack seg))"
| "resolve merge stack (seg # segs) =
     (case push merge stack seg of None \<Rightarrow> None | Some st \<Rightarrow> resolve merge st segs)"

text \<open>A path starts with a slash.\<close>

definition path_of :: "bool \<Rightarrow> ngx_str \<Rightarrow> ngx_str option" where
  "path_of merge uri = (case tokens uri of None \<Rightarrow> None | Some ts \<Rightarrow> resolve merge [] (tl (segments ts)))"

section \<open>The machine keeps a stack of segments\<close>

definition state_of :: "ngx_str \<Rightarrow> path_state" where
  "state_of seg = (if seg = [] then sw_slash else if seg = bytes ''.'' then sw_dot
     else if seg = bytes ''..'' then sw_dot_dot else sw_usual)"

definition no_slash :: "ngx_str \<Rightarrow> bool" where
  "no_slash s \<longleftrightarrow> chr CHR ''/'' \<notin> set s"

definition rep :: "ngx_str list \<Rightarrow> ngx_str \<Rightarrow> complex_uri \<Rightarrow> bool" where
  "rep stack seg r \<longleftrightarrow> cu_st r = Path (state_of seg) \<and> cu_out r = render stack seg
     \<and> no_slash seg \<and> (\<forall>s\<in>set stack. no_slash s)"

lemma render_simps [simp]:
  "render stack (seg @ [c]) = render stack seg @ [c]"
  "render (s # stack) [] = render stack s @ [chr CHR ''/'']"
  by (simp_all add: render_def)

lemma render_empty_seg: "render stack seg = render stack [] @ seg"
  by (simp add: render_def)

lemma render_ends: "last (render stack []) = chr CHR ''/''" "render stack seg \<noteq> []"
proof -
  show "last (render stack []) = chr CHR ''/''" by (cases stack) (simp_all, simp add: render_def)
qed (simp add: render_def)

lemma dropWhile_no_slash: "no_slash s \<Longrightarrow> dropWhile (\<lambda>c. c \<noteq> chr CHR ''/'') (rev s @ chr CHR ''/'' # t) = chr CHR ''/'' # t"
  by (subst dropWhile_append2) (auto simp: no_slash_def)

lemma pop_render:
  assumes "cu_out r = render stack (bytes ''..'')" "\<forall>s\<in>set stack. no_slash s"
  shows "pop_segment r = (case stack of [] \<Rightarrow> None | s # st \<Rightarrow> Some (r\<lparr>cu_out := render st []\<rparr>))"
proof (cases stack)
  case Nil
  then show ?thesis using assms(1) by (simp add: pop_segment_def render_def)
next
  case (Cons s st)
  have out: "cu_out r = render st [] @ s @ [chr CHR ''/''] @ bytes ''..''"
    using assms(1) by (simp add: Cons render_def)
  have "rev (render st []) = chr CHR ''/'' # tl (rev (render st []))"
    using render_ends [of st] by (metis hd_rev list.collapse rev_is_Nil_conv)
  then obtain t where t: "rev (render st []) = chr CHR ''/'' # t" by blast
  have "dropWhile (\<lambda>c. c \<noteq> chr CHR ''/'') (drop 3 (rev (cu_out r))) = chr CHR ''/'' # t"
    using dropWhile_no_slash [of s t] assms(2) Cons by (simp add: out t)
  then show ?thesis using t by (simp add: pop_segment_def Cons flip: t)
qed

section \<open>One step\<close>

lemma usual_specials: "\<not> in_table usual (chr CHR ''/'')" "\<not> in_table usual (chr CHR ''.'')"
    "\<not> in_table usual (chr CHR ''?'')" "\<not> in_table usual (chr CHR ''#'')" "\<not> in_table usual (chr CHR ''%'')"
  by (simp_all add: in_table_def usual_def)

lemmas path_steps = Let_def path_step_def usual_step_def slash_step_def dot_step_def dot_dot_step_def

lemma state_of_simps [simp]:
  "state_of [] = sw_slash" "state_of (bytes ''.'') = sw_dot" "state_of (bytes ''..'') = sw_dot_dot"
  by (simp_all add: state_of_def)

lemma state_of_cases:
  obtains "seg = []" "state_of seg = sw_slash" | "seg = bytes ''.''" "state_of seg = sw_dot"
  | "seg = bytes ''..''" "state_of seg = sw_dot_dot"
  | "seg \<noteq> []" "seg \<noteq> bytes ''.''" "seg \<noteq> bytes ''..''" "state_of seg = sw_usual"
  unfolding state_of_def by metis

lemma state_of_snoc: "state_of (seg @ [c]) =
    (if c = chr CHR ''.'' \<and> state_of seg = sw_slash then sw_dot
     else if c = chr CHR ''.'' \<and> state_of seg = sw_dot then sw_dot_dot else sw_usual)"
  by (rule state_of_cases [of seg]) (auto simp: state_of_def append_eq_Cons_conv)

lemma put_rep: "rep stack seg r \<Longrightarrow> c \<noteq> chr CHR ''/'' \<Longrightarrow> cu_out r' = cu_out r \<Longrightarrow> st = state_of (seg @ [c]) \<Longrightarrow>
    \<exists>r''. put st c r' = Next r'' \<and> rep stack (seg @ [c]) r''"
  by (auto simp: put_def rep_def no_slash_def)

lemma plus_out [simp]: "cu_out (plus c r) = cu_out r"
  by (simp add: plus_def)

lemma path_step_char:
  assumes "rep stack seg r" "c \<notin> {chr CHR ''/'', chr CHR ''%'', chr CHR ''?'', chr CHR ''#''}"
  shows "\<exists>r'. path_step merge (state_of seg) c r = Next r' \<and> rep stack (seg @ [c]) r'"
proof -
  have rule: "\<exists>r''. put st c r' = Next r'' \<and> rep stack (seg @ [c]) r''"
    if "cu_out r' = cu_out r" "st = state_of (seg @ [c])" for st r'
    using put_rep [OF assms(1) _ that] assms(2) by simp
  show ?thesis
  proof (cases rule: state_of_cases [of seg])
    case 1
    show ?thesis
      using rule [OF refl, of sw_dot] 1(2) assms(2) usual_specials by (cases "c = chr CHR ''.''") (auto simp: path_step_def slash_step_def state_of_snoc rule)
  next
    case 2
    show ?thesis
      using rule [OF refl, of sw_dot_dot] 2(2) assms(2) usual_specials by (cases "c = chr CHR ''.''") (auto simp: path_step_def dot_step_def Let_def state_of_snoc rule)
  next
    case 3
    show ?thesis using 3(2) assms(2) by (auto simp: path_step_def dot_dot_step_def state_of_snoc rule)
  next
    case 4
    show ?thesis
      using rule [of "r\<lparr>cu_ext := Some (Suc (length (cu_out r)))\<rparr>" sw_usual] 4(4) assms(2) usual_specials
      by (cases "c = chr CHR ''.''") (auto simp: path_step_def usual_step_def state_of_snoc rule)
  qed
qed

lemma rep_new: "cu_st r = Path sw_slash \<Longrightarrow> cu_out r = render stack [] \<Longrightarrow> \<forall>s\<in>set stack. no_slash s \<Longrightarrow> rep stack [] r"
  by (simp add: rep_def no_slash_def)

lemma path_step_slash:
  assumes "rep stack seg r"
  shows "case push merge stack seg of
      None \<Rightarrow> path_step merge (state_of seg) (chr CHR ''/'') r = Halt cu_invalid r
    | Some st \<Rightarrow> \<exists>r'. path_step merge (state_of seg) (chr CHR ''/'') r = Next r' \<and> rep st [] r'"
  using assms usual_specials
proof (cases rule: state_of_cases [of seg])
  case 2
  with assms usual_specials show ?thesis
    by (simp add: push_def path_steps put_def rep_def no_slash_def butlast_append render_def [of _ "[_]"] render_def [of _ "[]"])
next
  case 3
  then show ?thesis
    using assms usual_specials
    by (simp add: push_def path_steps pop_render rep_def no_slash_def split: list.split)
qed (auto simp: push_def path_steps put_def rep_def no_slash_def)

lemma path_step_stop:
  assumes "rep stack seg r" "c = chr CHR ''?'' \<or> c = chr CHR ''#''"
  shows "case resolve merge stack [seg] of
      None \<Rightarrow> path_step merge (state_of seg) c r = Halt cu_invalid r
    | Some out \<Rightarrow> \<exists>r'. path_step merge (state_of seg) c r = Halt (if c = chr CHR ''?'' then cu_args else cu_done) r'
        \<and> cu_out r' = out"
  using assms usual_specials
proof (cases rule: state_of_cases [of seg])
  case 2
  with assms usual_specials show ?thesis
    by (auto simp: push_def path_steps rep_def butlast_append render_def [of _ "[_]"] render_def [of _ "[]"])
next
  case 3
  then show ?thesis
    using assms usual_specials
    by (auto simp: push_def path_steps pop_render rep_def split: list.split)
qed (auto simp: path_steps rep_def)

text \<open>The path that a result holds; the only error is \<^verbatim>\<open>NGX_HTTP_PARSE_INVALID_REQUEST\<close>.\<close>

definition result_path :: "http_parse_rc + uri_result \<Rightarrow> ngx_str option" where
  "result_path res = (case res of Inl _ \<Rightarrow> None | Inr x \<Rightarrow> Some (ur_uri x))"

lemma result_path_simps [simp]:
  "result_path (Inl e) = None" "result_path (Inr (uri_done r)) = Some (cu_out r)"
  "result_path (Inr (uri_args uri p r)) = Some (cu_out r)"
  by (simp_all add: result_path_def uri_done_def uri_args_def Let_def)

lemma complex_end: "rep stack seg r \<Longrightarrow> result_path (complex_result uri (Again r)) = resolve merge stack [seg]"
  by (cases rule: state_of_cases [of seg])
    (auto simp: complex_result_def rep_def push_def pop_render butlast_append
      render_def [of _ "[_]"] render_def [of _ "[]"] split: list.split)

section \<open>Escapes\<close>

lemma uint_decoded:
  assumes "uint (d::u8) < 16" "uint (y::u8) < 16"
  shows "uint (push_bit 4 d + y) = 16 * uint d + uint y"
proof -
  have "uint (push_bit 4 d) = 16 * uint d"
    by (rule byte_table [of "\<lambda>d. uint (push_bit 4 d) = 16 * uint d" 15]) (use assms(1) in \<open>simp_all add: upto_rec1\<close>)
  then show ?thesis using assms by (simp add: uint_word_ariths(1))
qed

lemma hex_nibble_cases:
  assumes "hex_nibble ch = Some y"
  obtains "is_digit ch" "y = ch - 48" "uint y < 10"
  | "\<not> is_digit ch" "chr CHR ''a'' \<le> ch OR 0x20" "ch OR 0x20 \<le> chr CHR ''f''" "y = (ch OR 0x20) - 97 + 10"
    "10 \<le> uint y" "uint y < 16"
proof -
  have "\<forall>c. case hex_nibble c of None \<Rightarrow> True | Some x \<Rightarrow> is_digit c \<or> 10 \<le> uint x"
    unfolding all_byte by (simp add: upto_rec1 hex_nibble_def is_digit_uint)
  then have "is_digit ch \<or> 10 \<le> uint y"
    using assms by (metis option.simps(5))
  moreover have "uint y < 10" if "is_digit ch"
    using assms that by (auto simp: hex_nibble_def is_digit_uint uint_sub_if')
  ultimately   show ?thesis
    using that hex_nibble_bound [OF assms] assms
    by (cases "is_digit ch") (simp_all add: hex_nibble_def Let_def split: if_splits)
qed

lemma second_step_none: "hex_nibble ch = None \<Longrightarrow> second_step merge st d ch r = Halt cu_invalid r"
  by (auto simp: second_step_def hex_nibble_def Let_def split: if_splits)

lemma low_nibble: "c = 16 * a + b \<Longrightarrow> 0 \<le> b \<Longrightarrow> b < 16 \<Longrightarrow> c mod 16 = b" for a b c :: int
  by simp

lemma second_step_some:
  assumes "hex_nibble ch = Some y" "uint d < 16"
  defines "c \<equiv> push_bit 4 d + y"
  shows "\<exists>q. second_step merge st d ch r =
      (if c = 0 then Halt cu_invalid r
       else if c \<in> {chr CHR ''%'', chr CHR ''#'', chr CHR ''?''} then put sw_usual c r
       else path_step merge st c (r\<lparr>cu_plus := q, cu_st := Path st\<rparr>))"
proof -
  have u: "uint c = 16 * uint d + uint y"
    unfolding c_def by (rule uint_decoded [OF assms(2) hex_nibble_bound [OF assms(1)]])
  have eqs: "c = 0 \<longleftrightarrow> uint c = 0" "c = 37 \<longleftrightarrow> uint c = 37" "c = 35 \<longleftrightarrow> uint c = 35" "c = 63 \<longleftrightarrow> uint c = 63"
    by (simp_all add: word_uint_eq_iff)
  show ?thesis
    using assms(1)
  proof (cases rule: hex_nibble_cases)
    case 1
    have c: "push_bit 4 d + (ch - 48) = c" by (simp add: c_def 1(2))
    have "c \<noteq> 63" using low_nibble [OF u] 1(3) unfolding eqs by force
    then have "second_step merge st d ch r =
      (if c = 0 then Halt cu_invalid r
       else if c \<in> {chr CHR ''%'', chr CHR ''#'', chr CHR ''?''} then put sw_usual c r
       else path_step merge st c (r\<lparr>cu_plus := cu_plus r, cu_st := Path st\<rparr>))"
      using 1(1) c by (simp add: second_step_def Let_def)
    then show ?thesis by blast
  next
    case 2
    have "c \<noteq> 37" "c \<noteq> 35" "c \<noteq> 0" using low_nibble [OF u] 2(5,6) unfolding eqs by force+
    moreover have c: "push_bit 4 d + ((ch OR 32) - 97) + 10 = c" by (simp add: c_def 2(4) add.assoc)
    ultimately have "second_step merge st d ch r =
      (if c = 0 then Halt cu_invalid r
       else if c \<in> {chr CHR ''%'', chr CHR ''#'', chr CHR ''?''} then put sw_usual c r
       else path_step merge st c (r\<lparr>cu_plus := (if c = 43 then True else cu_plus r), cu_st := Path st\<rparr>))"
      using 2(1-3) by (auto simp: second_step_def Let_def c plus_def)
    then show ?thesis by blast
  qed
qed

section \<open>The machine computes what the path means\<close>

text \<open>What the rest of the path means when the current segment has begun with \<open>seg\<close>.\<close>

definition meaning_tokens :: "bool \<Rightarrow> ngx_str list \<Rightarrow> ngx_str \<Rightarrow> token list option \<Rightarrow> ngx_str option" where
  "meaning_tokens merge stack seg ts = Option.bind ts (\<lambda>ts. resolve merge stack ((seg @ hd (segments ts)) # tl (segments ts)))"

abbreviation meaning :: "bool \<Rightarrow> ngx_str list \<Rightarrow> ngx_str \<Rightarrow> ngx_str \<Rightarrow> ngx_str option" where
  "meaning merge stack seg cs \<equiv> meaning_tokens merge stack seg (tokens cs)"

lemma segments_not_empty [simp]: "segments ts \<noteq> []"
  by (cases ts) simp_all

lemma meaning_end [simp]: "meaning_tokens merge stack seg (Some []) = resolve merge stack [seg]"
  "meaning_tokens merge stack seg None = None"
  by (simp_all add: meaning_tokens_def)

lemma meaning_char: "t \<noteq> Plain (chr CHR ''/'') \<Longrightarrow>
    meaning_tokens merge stack seg (map_option ((#) t) ts) = meaning_tokens merge stack (seg @ [token_byte t]) ts"
  by (cases ts) (simp_all add: meaning_tokens_def)

lemma meaning_slash: "meaning_tokens merge stack seg (map_option ((#) (Plain (chr CHR ''/''))) ts) =
    (case push merge stack seg of None \<Rightarrow> None | Some st \<Rightarrow> meaning_tokens merge st [] ts)"
proof (cases ts)
  case (Some ts')
  then show ?thesis
    by (cases "segments ts'") (simp_all add: meaning_tokens_def split: option.split)
qed (simp split: option.split)

abbreviation path_from :: "bool \<Rightarrow> ngx_str \<Rightarrow> nat \<Rightarrow> complex_uri \<Rightarrow> ngx_str option" where
  "path_from merge uri p r \<equiv> result_path (complex_result uri (scan (complex_step merge) uri p r))"

lemma halt_invalid [simp]: "result_path (complex_result uri (Halted cu_invalid p r)) = None"
  "result_path (complex_result uri (Halted cu_args p r)) = Some (cu_out r)"
  "result_path (complex_result uri (Halted cu_done p r)) = Some (cu_out r)"
  by (simp_all add: complex_result_def)

lemma path_then:
  assumes "rep stack seg r" "c \<notin> {chr CHR ''%'', chr CHR ''?'', chr CHR ''#''}" "p < length uri"
    and step: "complex_step merge uri p (uri ! p) r0 = path_step merge (state_of seg) c r"
    and IH: "\<And>stack seg r. rep stack seg r \<Longrightarrow> path_from merge uri (Suc p) r = meaning_tokens merge stack seg ts"
  shows "path_from merge uri p r0 = meaning_tokens merge stack seg (map_option ((#) (Plain c)) ts)"
proof (cases "c = chr CHR ''/''")
  case True
  with path_step_slash [OF assms(1), of merge] step assms(3) show ?thesis
    unfolding True meaning_slash
    by (cases "push merge stack seg") (auto simp: scan.simps [of _ uri p] IH)
next
  case False
  then obtain r' where "path_step merge (state_of seg) c r = Next r'" "rep stack (seg @ [c]) r'"
    using path_step_char [OF assms(1), of c merge] assms(2) by auto
  then show ?thesis
    using step assms(3) False by (simp add: scan.simps [of _ uri p] IH meaning_char)
qed

lemma path_stop:
  assumes "rep stack seg r" "p < length uri" "uri ! p = chr CHR ''?'' \<or> uri ! p = chr CHR ''#''"
  shows "path_from merge uri p r = resolve merge stack [seg]"
proof -
  have "complex_step merge uri p (uri ! p) r = path_step merge (state_of seg) (uri ! p) r"
    using assms(1) by (simp add: complex_step_def rep_def)
  with path_step_stop [OF assms(1,3), of merge] assms(2) show ?thesis
    by (cases "resolve merge stack [seg]") (auto simp: scan.simps [of _ uri p])
qed

lemma drop_ConsD:
  assumes "drop p xs = c # rest"
  shows "p < length xs" "xs ! p = c" "drop (Suc p) xs = rest"
proof -
  show p: "p < length xs" using assms by (rule contrapos_pp) simp
  with Cons_nth_drop_Suc [of p xs] assms show "xs ! p = c" "drop (Suc p) xs = rest" by simp_all
qed

lemma path_step_percent: "c = chr CHR ''%'' \<Longrightarrow> path_step merge st c r = Next (r\<lparr>cu_st := sw_quoted st\<rparr>)"
  using usual_specials by (cases st) (simp_all add: path_steps)

text \<open>The second digit, \<open>r\<close> being the state before the escape.\<close>

lemma second_digit:
  assumes "rep stack seg r" "uint d < 16" "p < length uri"
    and "cu_st r0 = sw_quoted_second (state_of seg) d" "cu_out r0 = cu_out r"
    and IH: "\<And>stack seg r. rep stack seg r \<Longrightarrow> path_from merge uri (Suc p) r = meaning_tokens merge stack seg ts"
  shows "path_from merge uri p r0 = (case hex_nibble (uri ! p) of
      Some y \<Rightarrow> (if push_bit 4 d + y = 0 then None
        else meaning_tokens merge stack seg (map_option ((#) (escape_token (push_bit 4 d + y))) ts))
    | None \<Rightarrow> None)"
proof (cases "hex_nibble (uri ! p)")
  case None
  then show ?thesis
    using assms(3,4) by (simp add: scan.simps [of _ uri p] complex_step_def second_step_none)
next
  case (Some y)
  define c where "c = push_bit 4 d + y"
  obtain q where step: "complex_step merge uri p (uri ! p) r0 =
      (if c = 0 then Halt cu_invalid r0
       else if c \<in> {chr CHR ''%'', chr CHR ''#'', chr CHR ''?''} then put sw_usual c r0
       else path_step merge (state_of seg) c (r0\<lparr>cu_plus := q, cu_st := Path (state_of seg)\<rparr>))"
    using second_step_some [OF Some assms(2), of merge "state_of seg" r0] assms(4)
    unfolding complex_step_def c_def by auto
  have out: "path_from merge uri p r0 = (if c = 0 then None
      else meaning_tokens merge stack seg (map_option ((#) (escape_token c)) ts))"
  proof -
    consider "c = 0" | "c \<noteq> 0" "c \<in> {chr CHR ''%'', chr CHR ''#'', chr CHR ''?''}"
      | "c \<noteq> 0" "c \<notin> {chr CHR ''%'', chr CHR ''#'', chr CHR ''?''}" by blast
    then show ?thesis
    proof cases
      case 1
      then show ?thesis using step assms(3) by (simp add: scan.simps [of _ uri p])
    next
      case 2
      then have "c \<noteq> chr CHR ''/''" "c \<noteq> chr CHR ''.''" by auto
      then obtain r'' where "put sw_usual c r0 = Next r''" "rep stack (seg @ [c]) r''"
        using put_rep [OF assms(1) _ assms(5), of c sw_usual] by (auto simp: state_of_snoc)
      with 2 step assms(3) show ?thesis
        by (simp only: scan.simps [of _ uri p] if_True if_False outcome.case IH meaning_char
            escape_token_def token_byte.simps token.distinct not_False_eq_True)
    next
      case 3
      have "rep stack seg (r0\<lparr>cu_plus := q, cu_st := Path (state_of seg)\<rparr>)"
        using assms(1,5) by (simp add: rep_def)
      from path_then [OF this _ assms(3) _ IH, of c r0] 3 step show ?thesis
        by (auto simp: escape_token_def)
    qed
  qed
  then show ?thesis by (simp add: Some c_def)
qed

text \<open>An escape, from its percent sign on.\<close>

lemma escape_from:
  assumes "rep stack seg r" "p < length uri" "drop (Suc p) uri = rest"
    and first: "complex_step merge uri p (uri ! p) r = Next (r\<lparr>cu_st := sw_quoted (state_of seg)\<rparr>)"
    and IH: "\<And>cs p stack seg r. length cs < Suc (length rest) \<Longrightarrow> rep stack seg r \<Longrightarrow> drop p uri = cs \<Longrightarrow>
      path_from merge uri p r = meaning merge stack seg cs"
  shows "path_from merge uri p r = meaning merge stack seg (chr CHR ''%'' # rest)"
proof -
  let ?r = "r\<lparr>cu_st := sw_quoted (state_of seg)\<rparr>"
  have start: "path_from merge uri p r = path_from merge uri (Suc p) ?r"
    using scan_next [where step = "complex_step merge", OF assms(2) first] by simp
  show ?thesis
  proof (cases rest)
    case Nil
    then show ?thesis using start assms(3) by (simp add: complex_result_def)
  next
    case (Cons a rest1)
    then have p1: "Suc p < length uri" "uri ! Suc p = a" "drop (Suc (Suc p)) uri = rest1"
      using assms(3) by (simp_all add: drop_ConsD)
    show ?thesis
    proof (cases "hex_nibble a")
      case None
      then have "path_from merge uri (Suc p) ?r = None"
        using p1 by (simp add: scan.simps [of _ uri "Suc p"] complex_step_def)
      then show ?thesis using start Cons None by (simp split: list.split)
    next
      case (Some d)
      let ?r2 = "r\<lparr>cu_quoted := True, cu_st := sw_quoted_second (state_of seg) d\<rparr>"
      have second: "path_from merge uri (Suc p) ?r = path_from merge uri (Suc (Suc p)) ?r2"
        using p1 Some by (simp add: scan.simps [of _ uri "Suc p"] complex_step_def)
      show ?thesis
      proof (cases rest1)
        case Nil
        then show ?thesis using start second p1(3) Cons by (simp add: complex_result_def)
      next
        case (Cons b rest2)
        then have p2: "Suc (Suc p) < length uri" "uri ! Suc (Suc p) = b" "drop (Suc (Suc (Suc p))) uri = rest2"
          using p1(3) by (simp_all add: drop_ConsD)
        have "path_from merge uri (Suc (Suc p)) ?r2 = (case hex_nibble b of
            Some y \<Rightarrow> (if push_bit 4 d + y = 0 then None
              else meaning_tokens merge stack seg (map_option ((#) (escape_token (push_bit 4 d + y))) (tokens rest2)))
          | None \<Rightarrow> None)"
          unfolding p2(2) [symmetric]
          by (rule second_digit [OF assms(1) hex_nibble_bound [OF Some] p2(1)])
            (use IH [OF _ _ p2(3)] Cons \<open>rest = a # rest1\<close> in simp_all)
        then show ?thesis
          using start second Cons \<open>rest = a # rest1\<close> Some by (simp split: option.split)
      qed
    qed
  qed
qed

lemma path_from_meaning:
  "rep stack seg r \<Longrightarrow> drop p uri = cs \<Longrightarrow> path_from merge uri p r = meaning merge stack seg cs"
proof (induction "length cs" arbitrary: cs p stack seg r rule: less_induct)
  case less
  show ?case
  proof (cases cs)
    case Nil
    then show ?thesis using less.prems complex_end [OF less.prems(1)] by simp
  next
    case (Cons c rest)
    then have p: "p < length uri" "uri ! p = c" "drop (Suc p) uri = rest"
      using less.prems(2) by (simp_all add: drop_ConsD)
    consider "c = chr CHR ''%''" | "c = chr CHR ''?'' \<or> c = chr CHR ''#''"
      | "c \<notin> {chr CHR ''%'', chr CHR ''?'', chr CHR ''#''}" by blast
    then show ?thesis
    proof cases
      case 1
      have first: "complex_step merge uri p (uri ! p) r = Next (r\<lparr>cu_st := sw_quoted (state_of seg)\<rparr>)"
        using less.prems(1) p(2) 1 by (simp add: complex_step_def rep_def path_step_percent)
      show ?thesis
        using escape_from [OF less.prems(1) p(1,3) first] less.hyps Cons 1 by simp
    next
      case 2
      with Cons show ?thesis using path_stop [OF less.prems(1) p(1)] p(2) by auto
    next
      case 3
      have "complex_step merge uri p (uri ! p) r = path_step merge (state_of seg) c r"
        using less.prems(1) p(2) by (simp add: complex_step_def rep_def)
      from path_then [OF less.prems(1) 3 p(1) this] less.hyps [OF _ _ p(3)] Cons 3
      show ?thesis by simp
    qed
  qed
qed

section \<open>What a resolved path looks like\<close>

definition plain_segment :: "ngx_str \<Rightarrow> bool" where
  "plain_segment s \<longleftrightarrow> no_slash s \<and> s \<noteq> bytes ''.'' \<and> s \<noteq> bytes ''..''"

lemma tokens_Cons:
  assumes "tokens (c # cs) = Some ts"
  obtains "ts = []" | ts' where "tokens cs = Some ts'" "ts = Plain c # ts'"
  | a b rest z ts' where "cs = a # b # rest" "tokens rest = Some ts'" "ts = escape_token z # ts'"
proof (cases "c = chr CHR ''%''")
  case True
  obtain a b rest where cs: "cs = a # b # rest"
    using assms True by (cases cs; cases "tl cs") auto
  show ?thesis
    using assms True that(3) [OF cs] unfolding cs
    by (cases "hex_nibble a"; cases "hex_nibble b"; cases "tokens rest") (auto split: if_splits)
next
  case False
  then show ?thesis using assms that(1,2) by (auto split: if_splits)
qed

lemma escape_token_slash: "token_byte (escape_token z) = chr CHR ''/'' \<Longrightarrow> escape_token z = Plain (chr CHR ''/'')"
  by (auto simp: escape_token_def split: if_splits)

lemma tokens_slash: "tokens cs = Some ts \<Longrightarrow> \<forall>t\<in>set ts. token_byte t = chr CHR ''/'' \<longrightarrow> t = Plain (chr CHR ''/'')"
proof (induction "length cs" arbitrary: cs ts rule: less_induct)
  case less
  show ?case
  proof (cases cs)
    case (Cons c cs')
    from less.prems [unfolded Cons] show ?thesis
    proof (cases rule: tokens_Cons)
      case (2 ts')
      with less.hyps [of cs' ts'] Cons show ?thesis by simp
    next
      case (3 a b rest z ts')
      with less.hyps [of rest ts'] Cons escape_token_slash [of z] show ?thesis by simp
    qed simp
  qed (use less.prems in simp)
qed

lemma segments_no_slash:
  "\<forall>t\<in>set ts. token_byte t = chr CHR ''/'' \<longrightarrow> t = Plain (chr CHR ''/'') \<Longrightarrow> \<forall>s\<in>set (segments ts). no_slash s"
proof (induction ts)
  case (Cons t ts)
  have "\<forall>t\<in>set ts. token_byte t = chr CHR ''/'' \<longrightarrow> t = Plain (chr CHR ''/'')" by (rule ballI, rule bspec [OF Cons.prems]) (rule list.set_intros(2))
  then have IH: "\<forall>s\<in>set (segments ts). no_slash s" by (rule Cons.IH)
  show ?case
  proof (cases "t = Plain (chr CHR ''/'')")
    case True
    then show ?thesis using IH by (simp add: no_slash_def)
  next
    case False
    with bspec [OF Cons.prems list.set_intros(1)] have "token_byte t \<noteq> chr CHR ''/''" by blast
    then show ?thesis using IH False by (cases "segments ts") (simp_all add: no_slash_def)
  qed
qed (simp add: no_slash_def)

lemma push_cases:
  assumes "push merge stack seg = Some st"
  obtains "st = stack" | "st = tl stack" | "st = seg # stack" "seg \<noteq> bytes ''.''" "seg \<noteq> bytes ''..''" "merge \<Longrightarrow> seg \<noteq> []"
proof -
  consider "seg = bytes ''.''" | "seg \<noteq> bytes ''.''" "seg = bytes ''..''"
    | "seg \<noteq> bytes ''.''" "seg \<noteq> bytes ''..''" by blast
  then show ?thesis
  proof cases
    case 2
    then show ?thesis using assms that(2) by (cases stack) (simp_all add: push_def)
  next
    case 3
    then show ?thesis using assms that(1,3) by (cases "seg = [] \<and> merge") (auto simp: push_def)
  qed (use assms that(1) in \<open>simp add: push_def\<close>)
qed

lemma push_plain:
  assumes "push merge stack seg = Some st" "no_slash seg" "\<forall>s\<in>set stack. plain_segment s \<and> (merge \<longrightarrow> s \<noteq> [])"
  shows "\<forall>s\<in>set st. plain_segment s \<and> (merge \<longrightarrow> s \<noteq> [])"
  using assms(1)
proof (cases rule: push_cases)
  case 2
  then show ?thesis using assms(3) by (cases stack) simp_all
next
  case 3
  then show ?thesis using assms(2,3) by (simp add: plain_segment_def)
qed (use assms(3) in simp)

lemma render_slashes: "render stack seg = concat (map (\<lambda>s. chr CHR ''/'' # s) (rev stack @ [seg]))"
proof -
  have "c # concat (map (\<lambda>s. s @ [c]) ss) @ seg = concat (map (\<lambda>s. c # s) (ss @ [seg]))" for c :: u8 and ss
    by (induction ss) simp_all
  then show ?thesis by (simp add: render_def)
qed

lemma resolve_plain:
  assumes "resolve merge stack segs = Some out" "\<forall>s\<in>set segs. no_slash s"
    "\<forall>s\<in>set stack. plain_segment s \<and> (merge \<longrightarrow> s \<noteq> [])"
  shows "\<exists>ss last. out = concat (map (\<lambda>s. chr CHR ''/'' # s) (ss @ [last])) \<and> plain_segment last
      \<and> (\<forall>s\<in>set ss. plain_segment s \<and> (merge \<longrightarrow> s \<noteq> []))"
  using assms
proof (induction merge stack segs rule: resolve.induct)
  case (2 merge stack seg)
  show ?case
  proof (cases "seg = bytes ''.'' \<or> seg = bytes ''..''")
    case True
    with 2(1) obtain st where st: "push merge stack seg = Some st" "out = render st []" by auto
    have "plain_segment []" by (simp add: plain_segment_def no_slash_def)
    then show ?thesis
      using push_plain [OF st(1) _ 2(3)] 2(2) st(2) by (metis list.set_intros(1) render_slashes set_rev)
  next
    case False
    then have "out = render stack seg" "plain_segment seg" using 2 by (auto simp: plain_segment_def)
    then show ?thesis using 2(3) by (metis render_slashes set_rev)
  qed
next
  case (3 merge stack seg s segs)
  then obtain st where st: "push merge stack seg = Some st" "resolve merge st (s # segs) = Some out"
    by (auto split: option.splits)
  show ?case
    using 3(1) [OF st] push_plain [OF st(1) _ 3(4)] 3(3) by simp
qed simp

section \<open>The room that the path needs\<close>

lemma path_step_room:
  "case path_step merge st ch r of
     Next r' \<Rightarrow> length (cu_out r') \<le> length (cu_out r) + 1 \<and> ch \<noteq> chr CHR ''?''
   | Halt e r' \<Rightarrow> length (cu_out r') \<le> length (cu_out r)"
proof -
  have pop: "length (cu_out r') \<le> length (cu_out r)" if "pop_segment r = Some r'" for r'
  proof -
    have "length (dropWhile P (drop 3 xs)) \<le> length xs" for P :: "u8 \<Rightarrow> bool" and xs
      using length_dropWhile_le [of P "drop 3 xs"] by simp
    from this [of "\<lambda>c. c \<noteq> chr CHR ''/''" "rev (cu_out r)"] that show ?thesis
      by (auto simp: pop_segment_def split: list.splits)
  qed
  show ?thesis
  proof (cases st)
    case sw_dot_dot
    then show ?thesis
      using usual_specials by (cases "pop_segment r") (auto simp: path_step_def dot_dot_step_def put_def dest: pop)
  qed (use usual_specials in \<open>auto simp: path_step_def usual_step_def slash_step_def dot_step_def Let_def put_def\<close>)
qed

lemma complex_step_room:
  "case complex_step merge buf p ch r of
     Next r' \<Rightarrow> length (cu_out r') \<le> length (cu_out r) + 1 \<and> ch \<noteq> chr CHR ''?''
   | Halt e r' \<Rightarrow> length (cu_out r') \<le> length (cu_out r)"
proof (cases "cu_st r")
  case (Path st)
  then show ?thesis using path_step_room [where merge = merge and st = st and ch = ch and r = r] by (simp add: complex_step_def)
next
  case (sw_quoted st)
  have "hex_nibble (chr CHR ''?'') = None" by (simp add: hex_nibble_def is_digit_uint)
  with sw_quoted show ?thesis by (auto simp: complex_step_def Let_def split: option.split)
next
  case (sw_quoted_second st d)
  have question: "\<not> is_digit (chr CHR ''?'')" "\<not> chr CHR ''a'' \<le> chr CHR ''?'' OR 0x20"
    by (simp_all add: is_digit_uint)
  have room: "path_step merge st c r' = Next r'' \<Longrightarrow> cu_out r' = cu_out r \<Longrightarrow> length (cu_out r'') \<le> Suc (length (cu_out r))"
    "path_step merge st c r' = Halt e r'' \<Longrightarrow> cu_out r' = cu_out r \<Longrightarrow> length (cu_out r'') \<le> length (cu_out r)" for c r' r'' e
    using path_step_room [where merge = merge and st = st and ch = c and r = r'] by simp_all
  show ?thesis
    using question sw_quoted_second
    by (cases "is_digit ch")
      (auto simp: complex_step_def second_step_def Let_def put_def split: outcome.split dest!: room)
qed

lemma complex_errors: "ngx_http_parse_complex_uri merge e uri = Inl x \<Longrightarrow> x = HTTP_PARSE_INVALID_REQUEST"
  by (auto simp: ngx_http_parse_complex_uri_def complex_result_def
      split: scanned.splits cu_stop.splits cu_state.splits path_state.splits option.splits)

lemma complex_path: "result_path (ngx_http_parse_complex_uri merge False (chr CHR ''/'' # cs)) = path_of merge (chr CHR ''/'' # cs)"
proof -
  let ?uri = "chr CHR ''/'' # cs"
  let ?r = "(new_complex False)\<lparr>cu_out := render [] [], cu_st := Path sw_slash\<rparr>"
  have "complex_step merge ?uri 0 (?uri ! 0) (new_complex False) = Next ?r"
    using usual_specials by (simp add: complex_step_def new_complex_def path_step_def usual_step_def put_def render_def)
  then have "result_path (ngx_http_parse_complex_uri merge False ?uri) = path_from merge ?uri 1 ?r"
    using scan_next [of 0 ?uri "complex_step merge" "new_complex False" ?r] by (simp add: ngx_http_parse_complex_uri_def)
  also have "\<dots> = meaning merge [] [] cs"
    by (rule path_from_meaning) (simp_all add: rep_def no_slash_def)
  also have "\<dots> = path_of merge ?uri"
    by (simp add: path_of_def meaning_tokens_def split: option.split)
  finally show ?thesis .
qed

section \<open>Properties\<close>

text \<open>C3: \<^verbatim>\<open>ngx_http_parse_complex_uri\<close> refines the meaning of a path: for a URI that starts with a
  slash its one pass over the bytes, with six states and a pointer that moves back over the
  output, gives what decoding the escapes, splitting at the slashes and resolving the dot
  segments against a stack give one after the other.  It fails exactly where they do: on a
  truncated or bad escape, on \<^verbatim>\<open>%00\<close>, and on \<^verbatim>\<open>..\<close> above the root.\<close>

theorem complex_uri_refines:
  "result_path (ngx_http_parse_complex_uri merge_slashes False (chr CHR ''/'' # cs))
     = path_of merge_slashes (chr CHR ''/'' # cs)"
  by (rule complex_path)

text \<open>C11: The path that \<^verbatim>\<open>ngx_http_parse_complex_uri\<close> stores stays below the root: it is a list of
  segments with a slash before each, none of which is \<^verbatim>\<open>.\<close> or \<^verbatim>\<open>..\<close>, whatever was escaped in the
  URI, and with \<^verbatim>\<open>merge_slashes\<close> only the last can be empty; the only error is
  \<^verbatim>\<open>NGX_HTTP_PARSE_INVALID_REQUEST\<close>.\<close>

theorem complex_uri_contained:
  "case ngx_http_parse_complex_uri merge_slashes False (chr CHR ''/'' # cs) of
     Inl e \<Rightarrow> e = HTTP_PARSE_INVALID_REQUEST
   | Inr res \<Rightarrow> \<exists>ss last. ur_uri res = concat (map (\<lambda>s. chr CHR ''/'' # s) (ss @ [last]))
       \<and> plain_segment last \<and> (\<forall>s\<in>set ss. plain_segment s \<and> (merge_slashes \<longrightarrow> s \<noteq> []))"
proof (cases "ngx_http_parse_complex_uri merge_slashes False (chr CHR ''/'' # cs)")
  case (Inl e)
  then show ?thesis using complex_errors by auto
next
  case (Inr res)
  then have "path_of merge_slashes (chr CHR ''/'' # cs) = Some (ur_uri res)"
    using complex_path [of merge_slashes cs] by (simp add: result_path_def)
  then obtain ts where ts: "tokens cs = Some ts" "resolve merge_slashes [] (segments ts) = Some (ur_uri res)"
    by (auto simp: path_of_def split: option.splits)
  from resolve_plain [OF ts(2) segments_no_slash [OF tokens_slash [OF ts(1)]]] Inr show ?thesis by simp
qed

theorem complex_uri_contained_witness:
  "\<exists>ss last. bytes ''/a/%'' = concat (map (\<lambda>s. chr CHR ''/'' # s) (ss @ [last]))
     \<and> plain_segment last \<and> (\<forall>s\<in>set ss. plain_segment s \<and> s \<noteq> [])"
proof -
  have "ngx_http_parse_complex_uri True False (chr CHR ''/'' # bytes ''x%2F..//a/.%2F%25'')
      = Inr \<lparr>ur_uri = bytes ''/a/%'', ur_exten = None, ur_args = None, ur_args_start = None, ur_plus = False, ur_quoted = True\<rparr>"
    by code_simp
  with complex_uri_contained [of True "bytes ''x%2F..//a/.%2F%25''"] show ?thesis by simp
qed

text \<open>C29: The buffer of the path is never overrun: after any number of bytes of the URI the path
  that \<^verbatim>\<open>ngx_http_parse_complex_uri\<close> has written is no longer than what was read, nor than the
  part of the URI before its first \<^verbatim>\<open>?\<close> (with the slash of an empty path added), the length that
  the caller allocates.\<close>

theorem complex_uri_room:
  "let n = length (takeWhile (\<lambda>c. c \<noteq> chr CHR ''?'') uri) + (if empty_path then 1 else 0) in
   case scan (complex_step merge_slashes) (take k uri) 0 (new_complex empty_path) of
     Again r \<Rightarrow> length (cu_out r) \<le> n
   | Halted e p r \<Rightarrow> length (cu_out r) \<le> n"
proof -
  define e :: nat where "e = (if empty_path then 1 else 0)"
  define n where "n = length (takeWhile (\<lambda>c. c \<noteq> chr CHR ''?'') uri)"
  let ?I = "\<lambda>p r. p \<le> n \<and> length (cu_out r) \<le> p + e"
  have "case scan (complex_step merge_slashes) (take k uri) 0 (new_complex empty_path) of
      Again r \<Rightarrow> ?I (length (take k uri)) r
    | Halted x q r \<Rightarrow> length (cu_out r) \<le> n + e \<and> 0 \<le> q \<and> q < length (take k uri)"
  proof (rule scan_invariant [where I = ?I and J = "\<lambda>x q r. length (cu_out r) \<le> n + e"])
    fix p and r :: Ngx_Http_Uri.complex_uri
    assume inv: "?I p r" and p: "p < length (take k uri)"
    have "Suc p \<le> n" if "take k uri ! p \<noteq> chr CHR ''?''"
    proof -
      have "p < length uri" "uri ! p \<noteq> chr CHR ''?''" using p that by simp_all
      with nth_length_takeWhile [of "\<lambda>c. c \<noteq> chr CHR ''?''" uri] have "p \<noteq> n"
        unfolding n_def by blast
      with inv show ?thesis by simp
    qed
    with inv complex_step_room [where merge = merge_slashes and buf = "take k uri" and p = p and ch = "take k uri ! p" and r = r]
    show "case complex_step merge_slashes (take k uri) p (take k uri ! p) r of
        Next r' \<Rightarrow> ?I (Suc p) r' | Halt x r' \<Rightarrow> length (cu_out r') \<le> n + e"
      by (auto split: outcome.splits)
  qed (simp_all add: new_complex_def e_def)
  then show ?thesis
    unfolding Let_def n_def [symmetric] e_def [symmetric] by (auto split: scanned.splits)
qed

end
