(* ===== verification/Ngx_Http_Unsafe_Uri.thy ===== *)
theory Ngx_Http_Unsafe_Uri
  imports Ngx_Http_Uri Ngx_Escape
begin

text \<open>
  The two checks of a URI that are not the parser of the request line, of
  \<^verbatim>\<open>http/ngx_http_parse.c\<close>: \<^verbatim>\<open>ngx_http_parse_uri\<close>, which finds out whether the pass of
  \<^verbatim>\<open>ngx_http_parse_complex_uri\<close> is needed at all, and \<^verbatim>\<open>ngx_http_parse_unsafe_uri\<close>, the
  filter of the URIs that a backend or a configuration gives.
\<close>

section \<open>Is the URI complex\<close>

datatype su_state = su_start | su_after_slash | su_check | su_uri

text \<open>The state, and the fields of the request that are written.\<close>

record simple_uri =
  su_st :: su_state
  su_ext :: "nat option"
  su_args :: "nat option"
  su_complex :: bool
  su_quoted :: bool
  su_plus :: bool

type_synonym su_outcome = "(unit, simple_uri) outcome"

text \<open>\<^verbatim>\<open>ch <= 0x20 || ch == 0x7f\<close>\<close>

definition control :: "u8 \<Rightarrow> bool" where
  "control ch \<longleftrightarrow> ch \<le> 0x20 \<or> ch = 0x7f"

definition su_after_slash_step :: "nat \<Rightarrow> u8 \<Rightarrow> simple_uri \<Rightarrow> su_outcome" where
  "su_after_slash_step p ch r =
     (if in_table usual ch then Next (r\<lparr>su_st := su_check\<rparr>)
      else if ch = chr CHR ''.'' then Next (r\<lparr>su_complex := True, su_st := su_uri\<rparr>)
      else if ch = chr CHR ''%'' then Next (r\<lparr>su_quoted := True, su_st := su_uri\<rparr>)
      else if ch = chr CHR ''/'' then Next (r\<lparr>su_complex := True, su_st := su_uri\<rparr>)
      else if ch = chr CHR ''?'' then Next (r\<lparr>su_args := Some (p + 1), su_st := su_uri\<rparr>)
      else if ch = chr CHR ''#'' then Next (r\<lparr>su_complex := True, su_st := su_uri\<rparr>)
      else if ch = chr CHR ''+'' then Next (r\<lparr>su_plus := True\<rparr>)
      else if control ch then Halt () r
      else Next (r\<lparr>su_st := su_check\<rparr>))"

definition su_check_step :: "nat \<Rightarrow> u8 \<Rightarrow> simple_uri \<Rightarrow> su_outcome" where
  "su_check_step p ch r =
     (if in_table usual ch then Next r
      else if ch = chr CHR ''/'' then Next (r\<lparr>su_ext := None, su_st := su_after_slash\<rparr>)
      else if ch = chr CHR ''.'' then Next (r\<lparr>su_ext := Some (p + 1)\<rparr>)
      else if ch = chr CHR ''%'' then Next (r\<lparr>su_quoted := True, su_st := su_uri\<rparr>)
      else if ch = chr CHR ''?'' then Next (r\<lparr>su_args := Some (p + 1), su_st := su_uri\<rparr>)
      else if ch = chr CHR ''#'' then Next (r\<lparr>su_complex := True, su_st := su_uri\<rparr>)
      else if ch = chr CHR ''+'' then Next (r\<lparr>su_plus := True\<rparr>)
      else if control ch then Halt () r
      else Next r)"

definition simple_step :: "ngx_str \<Rightarrow> nat \<Rightarrow> u8 \<Rightarrow> simple_uri \<Rightarrow> su_outcome" where
  "simple_step buf p ch r =
     (case su_st r of
        su_start \<Rightarrow> if ch \<noteq> chr CHR ''/'' then Halt () r else Next (r\<lparr>su_st := su_after_slash\<rparr>)
      | su_after_slash \<Rightarrow> su_after_slash_step p ch r
      | su_check \<Rightarrow> su_check_step p ch r
      | su_uri \<Rightarrow>
          if in_table usual ch then Next r
          else if ch = chr CHR ''#'' then Next (r\<lparr>su_complex := True\<rparr>)
          else if control ch then Halt () r
          else Next r)"

definition new_simple :: simple_uri where
  "new_simple = \<lparr>su_st = su_start, su_ext = None, su_args = None, su_complex = False, su_quoted = False, su_plus = False\<rparr>"

definition ngx_http_parse_uri :: "ngx_str \<Rightarrow> simple_uri option" where
  "ngx_http_parse_uri uri =
     (case scan simple_step uri 0 new_simple of Again r \<Rightarrow> Some r | Halted _ _ _ \<Rightarrow> None)"

section \<open>A URI that is not complex\<close>

text \<open>
  The states of the two parsers after the same bytes, as long as no flag is set: the path
  that was written is what was read.  A \<open>+\<close> after a slash leaves \<open>su_after_slash\<close> alone.
\<close>

fun matching :: "su_state \<Rightarrow> path_state \<Rightarrow> bool" where
  "matching su_start st \<longleftrightarrow> st = Ngx_Http_Uri.sw_usual"
| "matching su_after_slash st \<longleftrightarrow> st = sw_slash \<or> st = Ngx_Http_Uri.sw_usual"
| "matching su_check st \<longleftrightarrow> st = Ngx_Http_Uri.sw_usual"
| "matching su_uri st \<longleftrightarrow> False"

lemma matching_path: "matching s st \<Longrightarrow> st = sw_slash \<or> st = Ngx_Http_Uri.sw_usual"
  by (cases s) simp_all

definition agrees :: "ngx_str \<Rightarrow> nat \<Rightarrow> simple_uri \<Rightarrow> Ngx_Http_Uri.complex_uri \<Rightarrow> bool" where
  "agrees uri p r c \<longleftrightarrow> (\<exists>st. matching (su_st r) st \<and> cu_st c = Path st) \<and> cu_out c = take p uri
     \<and> cu_ext c = su_ext r \<and> cu_plus c = su_plus r \<and> \<not> cu_quoted c
     \<and> su_args r = None \<and> \<not> su_complex r \<and> \<not> su_quoted r
     \<and> (su_st r = su_start \<longrightarrow> su_ext r = None)"

lemma agrees_step:
  assumes a: "agrees uri p r c" "p < length uri" and "simple_step uri p (uri ! p) r = Next r'"
    and flags: "\<not> su_complex r'" "\<not> su_quoted r'"
  shows "(\<exists>c'. complex_step merge uri p (uri ! p) c = Next c' \<and> agrees uri (Suc p) r' c')
    \<or> complex_step merge uri p (uri ! p) c = Halt cu_args c \<and> r' = r\<lparr>su_args := Some (p + 1), su_st := su_uri\<rparr>"
proof -
  obtain st where st: "matching (su_st r) st" "cu_st c = Path st"
    using a(1) by (auto simp: agrees_def)
  have fields: "cu_out c = take p uri" "cu_ext c = su_ext r" "cu_plus c = su_plus r" "\<not> cu_quoted c"
     "su_args r = None" "\<not> su_complex r" "\<not> su_quoted r"
     "su_st r = su_start \<Longrightarrow> su_ext r = None"
    using a(1) by (auto simp: agrees_def)
  note put = put_def agrees_def take_Suc_snoc [OF a(2)]
  show ?thesis
  proof (cases "su_st r")
    case su_start
    then show ?thesis
      using assms(3) st fields usual_specials
      by (auto simp: put simple_step_def complex_step_def path_step_def usual_step_def split: if_splits)
  next
    case su_after_slash
    then consider "st = sw_slash" | "st = Ngx_Http_Uri.sw_usual" using st(1) by auto
    then show ?thesis
    proof cases
      case 1
      show ?thesis
        using assms(3) st(2) su_after_slash fields flags usual_specials
        by (auto simp: 1 put simple_step_def su_after_slash_step_def complex_step_def path_step_def slash_step_def plus_def split: if_splits)
    next
      case 2
      show ?thesis
        using assms(3) st(2) su_after_slash fields flags usual_specials
        by (auto simp: 2 put simple_step_def su_after_slash_step_def complex_step_def path_step_def usual_step_def plus_def split: if_splits)
    qed
  next
    case su_check
    then show ?thesis
      using a(2) assms(3) st fields flags usual_specials
      by (auto simp: put simple_step_def su_check_step_def complex_step_def path_step_def usual_step_def plus_def split: if_splits)
  next
    case su_uri
    with st show ?thesis by simp
  qed
qed

text \<open>After a flag or the arguments nothing but \<^verbatim>\<open>complex_uri\<close> is written.\<close>

lemma uri_rest:
  assumes "su_st r = su_uri" "p \<le> length uri" "scan simple_step uri p r = Again r'"
  shows "\<exists>b. r' = r\<lparr>su_complex := b\<rparr> \<and> (su_complex r \<longrightarrow> b) \<and> (\<not> b \<longrightarrow> chr CHR ''#'' \<notin> set (drop p uri))"
proof -
  let ?I = "\<lambda>q s. p \<le> q \<and> (\<exists>b. s = r\<lparr>su_complex := b\<rparr> \<and> (su_complex r \<longrightarrow> b)
      \<and> (\<not> b \<longrightarrow> (\<forall>i. p \<le> i \<longrightarrow> i < q \<longrightarrow> uri ! i \<noteq> chr CHR ''#'')))"
  have "?I p r" by (rule conjI, simp, rule exI [of _ "su_complex r"]) simp
  moreover have "case simple_step uri q (uri ! q) s of Next s' \<Rightarrow> ?I (Suc q) s' | Halt e s' \<Rightarrow> True"
    if inv: "?I q s" and "q < length uri" for q s
  proof -
    obtain b where b: "p \<le> q" "s = r\<lparr>su_complex := b\<rparr>" "su_complex r \<longrightarrow> b"
        "\<not> b \<longrightarrow> (\<forall>i. p \<le> i \<longrightarrow> i < q \<longrightarrow> uri ! i \<noteq> chr CHR ''#'')"
      using inv by blast
    show ?thesis
    proof (cases "simple_step uri q (uri ! q) s")
      case (Next s')
      then have "s' = r\<lparr>su_complex := b \<or> uri ! q = chr CHR ''#''\<rparr>"
        using b(2) assms(1) usual_specials
        by (cases "uri ! q = chr CHR ''#''") (auto simp: simple_step_def split: if_splits)
      moreover have "\<not> (b \<or> uri ! q = chr CHR ''#'') \<longrightarrow> (\<forall>i. p \<le> i \<longrightarrow> i < Suc q \<longrightarrow> uri ! i \<noteq> chr CHR ''#'')"
        using b(4) less_Suc_eq by auto
      ultimately show ?thesis using Next b(1,3) by auto
    qed simp
  qed
  ultimately have "case scan simple_step uri p r of
      Again s' \<Rightarrow> ?I (length uri) s' | Halted e q s' \<Rightarrow> True \<and> p \<le> q \<and> q < length uri"
    by (intro scan_invariant [where I = ?I]) (use assms(2) in auto)
  then obtain b where "r' = r\<lparr>su_complex := b\<rparr>" "su_complex r \<longrightarrow> b"
      "\<not> b \<longrightarrow> (\<forall>i. p \<le> i \<longrightarrow> i < length uri \<longrightarrow> uri ! i \<noteq> chr CHR ''#'')"
    using assms(3) by auto
  moreover have "chr CHR ''#'' \<notin> set (drop p uri)"
    if "\<forall>i. p \<le> i \<longrightarrow> i < length uri \<longrightarrow> uri ! i \<noteq> chr CHR ''#''"
    using that by (auto simp: in_set_conv_nth)
  ultimately show ?thesis by blast
qed

lemma flag_stays:
  assumes "simple_step uri p c r = Next r'" "su_complex r' \<or> su_quoted r'" "\<not> su_complex r" "\<not> su_quoted r"
  shows "su_st r' = su_uri"
  using assms usual_specials
  by (cases "su_st r") (auto simp: simple_step_def su_after_slash_step_def su_check_step_def split: if_splits)

lemma simple_complex:
  assumes "agrees uri p r c" "p \<le> length uri" "scan simple_step uri p r = Again r'"
    and flags: "\<not> su_complex r'" "\<not> su_quoted r'"
  defines "path \<equiv> (case su_args r' of None \<Rightarrow> uri | Some a \<Rightarrow> take (a - 1) uri)"
  shows "complex_result uri (scan (complex_step merge) uri p c) = Inr \<lparr>ur_uri = path,
      ur_exten = map_option (\<lambda>e. drop e path) (su_ext r'), ur_args = None, ur_args_start = su_args r',
      ur_plus = su_plus r', ur_quoted = False\<rparr>"
  using assms(1-3)
proof (induction "length uri - p" arbitrary: p r c)
  case 0
  then have "r' = r" "p = length uri" by simp_all
  obtain st where st: "cu_st c = Path st" "st = sw_slash \<or> st = Ngx_Http_Uri.sw_usual"
    using 0(2) matching_path by (auto simp: agrees_def)
  with 0 \<open>r' = r\<close> \<open>p = length uri\<close> show ?case
    by (auto simp: path_def agrees_def complex_result_def uri_done_def)
next
  case (Suc n)
  then have p: "p < length uri" by simp
  obtain r1 where r1: "simple_step uri p (uri ! p) r = Next r1" "scan simple_step uri (Suc p) r1 = Again r'"
    using Suc.prems(3) p by (auto simp: scan.simps [of simple_step uri p] split: outcome.splits)
  have clean: "\<not> su_complex r1 \<and> \<not> su_quoted r1"
  proof (rule ccontr)
    assume "\<not> (\<not> su_complex r1 \<and> \<not> su_quoted r1)"
    then have set1: "su_complex r1 \<or> su_quoted r1" by simp
    then have "su_st r1 = su_uri"
      using flag_stays [OF r1(1)] Suc.prems(1) by (auto simp: agrees_def)
    with uri_rest [OF _ _ r1(2)] p set1 flags show False by auto
  qed
  from agrees_step [where merge = merge, OF Suc.prems(1) p r1(1)] clean
  consider c' where "complex_step merge uri p (uri ! p) c = Next c'" "agrees uri (Suc p) r1 c'"
    | "complex_step merge uri p (uri ! p) c = Halt cu_args c" "r1 = r\<lparr>su_args := Some (p + 1), su_st := su_uri\<rparr>"
    by blast
  then show ?case
  proof cases
    case 1
    then show ?thesis
      using Suc.hyps(1) [of "Suc p" r1 c'] Suc.hyps(2) p r1(2)
        scan_next [where step = "complex_step merge", OF p 1(1)] by simp
  next
    case 2
    have "su_st r1 = su_uri" "Suc p \<le> length uri" using 2(2) p by simp_all
    from uri_rest [OF this r1(2)] obtain b where b: "r' = r1\<lparr>su_complex := b\<rparr>"
        "\<not> b \<longrightarrow> chr CHR ''#'' \<notin> set (drop (Suc p) uri)" by blast
    have "takeWhile (\<lambda>c. c \<noteq> chr CHR ''#'') (drop (Suc p) uri) = drop (Suc p) uri"
      using b flags(1) unfolding takeWhile_eq_all_conv by (metis simple_uri.select_convs(4) simple_uri.surjective simple_uri.update_convs(4))
    then have "length (takeWhile (\<lambda>c. c \<noteq> chr CHR ''#'') (drop (Suc p) uri)) = length uri - Suc p"
      by (metis length_drop)
    moreover have "su_args r' = Some (Suc p)" "su_ext r' = su_ext r" "su_plus r' = su_plus r"
      using b(1) 2(2) by simp_all
    moreover have "cu_out c = take p uri" "cu_ext c = su_ext r" "cu_plus c = su_plus r" "\<not> cu_quoted c"
      using Suc.prems(1) by (simp_all add: agrees_def)
    ultimately show ?thesis
      unfolding scan_halt [where step = "complex_step merge", OF p 2(1)]
      by (simp add: path_def complex_result_def uri_args_def uri_done_def Let_def)
  qed
qed

section \<open>Unsafe URIs\<close>

text \<open>
  The first loop, at the bytes that are left: a \<open>None\<close> is \<^verbatim>\<open>goto unsafe\<close>, otherwise whether
  there was a percent sign, and the arguments when it stopped at a question mark.
\<close>

definition is_slash :: "u8 \<Rightarrow> bool" where
  "is_slash c \<longleftrightarrow> c = chr CHR ''/''"

text \<open>\<open>p\<close> is what follows the current byte: \<^verbatim>\<open>len\<close> is one more than its length.\<close>

definition dot_dot_after :: "u8 \<Rightarrow> ngx_str \<Rightarrow> bool" where
  "dot_dot_after ch p \<longleftrightarrow> is_slash ch \<and> length p + 1 > 2 \<and> p ! 0 = chr CHR ''.'' \<and> p ! 1 = chr CHR ''.''
     \<and> (length p + 1 = 3 \<or> is_slash (p ! 2))"

definition dot_dot_first :: "ngx_str \<Rightarrow> bool" where
  "dot_dot_first p \<longleftrightarrow> p ! 0 = chr CHR ''.'' \<and> length p > 1 \<and> p ! 1 = chr CHR ''.''
     \<and> (length p = 2 \<or> is_slash (p ! 2))"

fun unsafe_raw :: "ngx_str \<Rightarrow> bool \<Rightarrow> (bool \<times> ngx_str option) option" where
  "unsafe_raw [] quoted = Some (quoted, None)"
| "unsafe_raw (ch # p) quoted =
     (if ch = chr CHR ''%'' then unsafe_raw p True
      else if in_table usual ch then unsafe_raw p quoted
      else if ch = chr CHR ''?'' then Some (quoted, Some p)
      else if ch = 0 then None
      else if dot_dot_after ch p then None
      else unsafe_raw p quoted)"

fun unsafe_decoded :: "ngx_str \<Rightarrow> bool" where
  "unsafe_decoded [] \<longleftrightarrow> False"
| "unsafe_decoded (ch # p) \<longleftrightarrow> ch = 0 \<or> dot_dot_after ch p \<or> unsafe_decoded p"

text \<open>\<^verbatim>\<open>uri->len -= len\<close> leaves what lies before the question mark.\<close>

definition before_args :: "ngx_str \<Rightarrow> ngx_str option \<Rightarrow> ngx_str" where
  "before_args uri args = (case args of None \<Rightarrow> uri | Some a \<Rightarrow> take (length uri - (length a + 1)) uri)"

text \<open>The check of the decoded path.\<close>

definition unsafe_second :: "ngx_str \<Rightarrow> ngx_str option \<Rightarrow> (ngx_str \<times> ngx_str option) option" where
  "unsafe_second path args =
     (if path \<noteq> [] \<and> dot_dot_first path \<or> unsafe_decoded path then None else Some (path, args))"

text \<open>The result is the path and the arguments, or \<open>None\<close> for \<^verbatim>\<open>NGX_ERROR\<close>.\<close>

definition ngx_http_parse_unsafe_uri :: "ngx_str \<Rightarrow> (ngx_str \<times> ngx_str option) option" where
  "ngx_http_parse_unsafe_uri uri =
     (if uri = [] \<or> uri ! 0 = chr CHR ''?'' then None
      else if dot_dot_first uri then None
      else
        case unsafe_raw uri False of
          None \<Rightarrow> None
        | Some (quoted, args) \<Rightarrow>
            let path = before_args uri args in
            if quoted then unsafe_second (fst (ngx_unescape_uri path 0)) args
            else Some (path, args))"

text \<open>The segments of a path as bytes.\<close>

fun pieces :: "ngx_str \<Rightarrow> ngx_str list" where
  "pieces [] = [[]]"
| "pieces (c # cs) = (if is_slash c then [] # pieces cs else (c # hd (pieces cs)) # tl (pieces cs))"

lemma pieces_not_empty [simp]: "pieces cs \<noteq> []"
  by (cases cs) simp_all

text \<open>A first segment of two dots, read off the bytes.\<close>

lemma first_piece: "hd (pieces cs) = takeWhile (\<lambda>c. \<not> is_slash c) cs"
  by (induction cs) simp_all

lemma dot_dot_hd: "hd (pieces p) = bytes ''..'' \<longleftrightarrow>
    length p > 1 \<and> p ! 0 = chr CHR ''.'' \<and> p ! 1 = chr CHR ''.'' \<and> (length p = 2 \<or> is_slash (p ! 2))"
proof -
  have dot: "\<not> is_slash (chr CHR ''.'')" by (simp add: is_slash_def)
  show ?thesis
  proof (cases "length p > 1")
    case True
    then obtain a b q where p: "p = a # b # q" by (cases p; cases "tl p") auto
    show ?thesis
      unfolding p first_piece using dot by (cases q) (auto simp: is_slash_def)
  next
    case False
    then consider "p = []" | a where "p = [a]" by (cases p; cases "tl p") auto
    then show ?thesis by cases (simp_all add: first_piece)
  qed
qed

lemma dot_dot_after_hd: "dot_dot_after ch p \<longleftrightarrow> is_slash ch \<and> hd (pieces p) = bytes ''..''"
  unfolding dot_dot_hd dot_dot_after_def by auto

lemma dot_dot_first_hd: "p \<noteq> [] \<Longrightarrow> dot_dot_first p \<longleftrightarrow> hd (pieces p) = bytes ''..''"
  unfolding dot_dot_hd dot_dot_first_def by auto

lemma decoded_safe: "\<not> unsafe_decoded p \<Longrightarrow> 0 \<notin> set p \<and> bytes ''..'' \<notin> set (tl (pieces p))"
proof (induction p)
  case (Cons c p)
  then show ?case
    by (cases "pieces p") (auto simp: dot_dot_after_hd)
qed simp

lemma butlast_tl: "set (butlast (pieces cs)) \<subseteq> set (pieces cs)"
  by (auto dest: in_set_butlastD)

lemma one_piece: "tl (pieces cs) = [] \<longleftrightarrow> (\<forall>c\<in>set cs. \<not> is_slash c)"
  by (induction cs) simp_all

lemma slash_byte: "is_slash c \<Longrightarrow> c \<noteq> chr CHR ''%'' \<and> \<not> in_table usual c \<and> c \<noteq> chr CHR ''?'' \<and> c \<noteq> 0"
  using usual_specials by (simp add: is_slash_def)

lemma nul_not_usual: "\<not> in_table usual 0"
  by (simp add: in_table_def usual_def)

lemma raw_safe: "unsafe_raw cs q = Some (q', None) \<Longrightarrow> 0 \<notin> set cs \<and> bytes ''..'' \<notin> set (tl (pieces cs))"
proof (induction cs arbitrary: q)
  case (Cons c cs)
  then have rest: "0 \<notin> set cs \<and> bytes ''..'' \<notin> set (tl (pieces cs))"
    by (auto split: if_splits)
  have "c \<noteq> 0" using Cons.prems nul_not_usual by (auto split: if_splits)
  moreover have "hd (pieces cs) \<noteq> bytes ''..''" if "is_slash c"
    using Cons.prems slash_byte [OF that] that by (simp add: dot_dot_after_hd split: if_splits)
  ultimately show ?case
    using rest by (cases "pieces cs") auto
qed simp

text \<open>Before a question mark only the segments that a slash follows have been looked at.\<close>

lemma raw_args: "unsafe_raw cs q = Some (q', Some a) \<Longrightarrow>
    \<exists>path. cs = path @ chr CHR ''?'' # a \<and> 0 \<notin> set path \<and> bytes ''..'' \<notin> set (butlast (tl (pieces path)))"
proof (induction cs arbitrary: q)
  case (Cons c cs)
  show ?case
  proof (cases "\<exists>q. unsafe_raw cs q = Some (q', Some a)")
    case False
    then have "c = chr CHR ''?''" "a = cs" using Cons.prems by (auto split: if_splits)
    then show ?thesis by (intro exI [of _ "[]"]) simp
  next
    case True
    then obtain path where path: "cs = path @ chr CHR ''?'' # a" "0 \<notin> set path"
        "bytes ''..'' \<notin> set (butlast (tl (pieces path)))" using Cons.IH by blast
    show ?thesis
    proof (cases "c = chr CHR ''?'' \<and> a = cs")
      case True
      then show ?thesis by (intro exI [of _ "[]"]) simp
    next
      case False
      have "c \<noteq> 0" using Cons.prems nul_not_usual by (auto split: if_splits)
      moreover have "hd (pieces path) \<noteq> bytes ''..''" if "is_slash c" "tl (pieces path) \<noteq> []"
      proof -
        have "hd (pieces cs) \<noteq> bytes ''..''"
          using Cons.prems slash_byte [OF that(1)] that(1) by (simp add: dot_dot_after_hd split: if_splits)
        moreover have "hd (pieces cs) = hd (pieces path)"
          using that(2) unfolding one_piece first_piece path(1) by (auto simp: takeWhile_append1)
        ultimately show ?thesis by simp
      qed
      ultimately show ?thesis
        using path by (intro exI [of _ "c # path"]) (cases "pieces path"; auto)
    qed
  qed
qed simp

lemma safe_parts:
  assumes "ngx_http_parse_unsafe_uri uri = Some (path, args)"
  shows "0 \<notin> set path \<and> bytes ''..'' \<notin> set (butlast (pieces path)) \<and> (chr CHR ''?'' \<notin> set uri \<longrightarrow> bytes ''..'' \<notin> set (pieces path))"
proof -
  have start: "\<not> (uri = [] \<or> uri ! 0 = chr CHR ''?'')"
    by (rule ccontr) (use assms in \<open>simp only: ngx_http_parse_unsafe_uri_def simp_thms if_True option.distinct\<close>)
  have "\<not> dot_dot_first uri"
    by (rule ccontr) (use assms start in \<open>simp only: ngx_http_parse_unsafe_uri_def simp_thms if_True if_False option.distinct\<close>)
  then have uri: "uri \<noteq> []" "hd (pieces uri) \<noteq> bytes ''..''"
    using start dot_dot_first_hd by blast+
  note p = assms [unfolded ngx_http_parse_unsafe_uri_def if_not_P [OF start] if_not_P [OF \<open>\<not> dot_dot_first uri\<close>]]
  obtain quoted args' where raw': "unsafe_raw uri False = Some (quoted, args')"
    using p by (cases "unsafe_raw uri False") auto
  note p = p [unfolded raw' option.case prod.case Let_def]
  have same: "args' = args" using p by (cases quoted) (simp_all add: unsafe_second_def split: if_splits)
  note raw = raw' [unfolded same]
  show ?thesis
  proof (cases quoted)
    case True
    then have "\<not> (path \<noteq> [] \<and> dot_dot_first path)" "\<not> unsafe_decoded path"
      using p by (auto simp: unsafe_second_def split: if_splits)
    then have "0 \<notin> set path" "bytes ''..'' \<notin> set (pieces path)"
      using decoded_safe [of path] dot_dot_first_hd [of path]
      by (cases "path = []"; cases "pieces path"; auto)+
    then show ?thesis using butlast_tl by blast
  next
    case False
    then have p: "path = before_args uri args" using p same by simp
    show ?thesis
    proof (cases args)
      case None
      with p have "path = uri" by (simp add: before_args_def)
      moreover have "bytes ''..'' \<notin> set (pieces uri)" "0 \<notin> set uri"
        using raw_safe [OF raw [unfolded None]] uri(2) by (cases "pieces uri"; auto)+
      ultimately show ?thesis using butlast_tl by blast
    next
      case (Some a)
      from raw_args [OF raw [unfolded Some]] obtain path' where path':
        "uri = path' @ chr CHR ''?'' # a" "0 \<notin> set path'" "bytes ''..'' \<notin> set (butlast (tl (pieces path')))" by blast
      then have "path = path'" using p Some by (simp add: before_args_def)
      moreover have "hd (pieces path') \<noteq> bytes ''..''" if "tl (pieces path') \<noteq> []"
        using uri(2) that unfolding one_piece first_piece path'(1) by (auto simp: takeWhile_append1)
      ultimately show ?thesis using path' by (cases "pieces path'") auto
    qed
  qed
qed

section \<open>Properties\<close>

text \<open>The fast path is right: when \<^verbatim>\<open>ngx_http_parse_uri\<close> accepts a URI without marking it complex
  or quoted, so that the server takes the path and the extension straight from its bytes, then
  \<^verbatim>\<open>ngx_http_parse_complex_uri\<close> would have stored the same path, extension and arguments, with
  and without \<^verbatim>\<open>merge_slashes\<close>.\<close>

theorem simple_uri_equivalent:
  assumes "ngx_http_parse_uri uri = Some r" "\<not> su_complex r" "\<not> su_quoted r"
  defines "path \<equiv> (case su_args r of None \<Rightarrow> uri | Some a \<Rightarrow> take (a - 1) uri)"
  shows "ngx_http_parse_complex_uri merge_slashes False uri = Inr \<lparr>ur_uri = path,
      ur_exten = map_option (\<lambda>e. drop e path) (su_ext r), ur_args = None, ur_args_start = su_args r,
      ur_plus = su_plus r, ur_quoted = False\<rparr>"
  unfolding path_def ngx_http_parse_complex_uri_def
proof (rule simple_complex [OF _ _ _ assms(2,3)])
  show "agrees uri 0 new_simple (new_complex False)"
    by (simp add: agrees_def new_simple_def new_complex_def)
  show "scan simple_step uri 0 new_simple = Again r"
    using assms(1) by (simp add: ngx_http_parse_uri_def split: scanned.splits)
qed simp

theorem simple_uri_equivalent_witness:
  "ngx_http_parse_complex_uri True False (bytes ''/a/b.js?x=1'') = Inr \<lparr>ur_uri = bytes ''/a/b.js'',
      ur_exten = Some (bytes ''js''), ur_args = None, ur_args_start = Some 8, ur_plus = False, ur_quoted = False\<rparr>"
proof -
  have r: "ngx_http_parse_uri (bytes ''/a/b.js?x=1'') =
      Some \<lparr>su_st = su_uri, su_ext = Some 5, su_args = Some 8, su_complex = False, su_quoted = False, su_plus = False\<rparr>"
    by code_simp
  show ?thesis
    using simple_uri_equivalent [OF r, of True] by (simp add: eval_nat_numeral)
qed

text \<open>C40: A path that \<^verbatim>\<open>ngx_http_parse_unsafe_uri\<close> accepts holds no zero byte, and no segment of it is
  \<^verbatim>\<open>..\<close>, but for the last one, which is only looked at when the URI has no arguments or had
  escapes.\<close>

theorem unsafe_uri_no_dot_dot:
  assumes "ngx_http_parse_unsafe_uri uri = Some (path, args)"
  shows "0 \<notin> set path \<and> bytes ''..'' \<notin> set (butlast (pieces path))
    \<and> (chr CHR ''?'' \<notin> set uri \<longrightarrow> bytes ''..'' \<notin> set (pieces path))"
  by (rule safe_parts [OF assms])

theorem unsafe_uri_no_dot_dot_witness:
  "0 \<notin> set (bytes ''/a/..b'') \<and> bytes ''..'' \<notin> set (pieces (bytes ''/a/..b''))"
proof -
  have "ngx_http_parse_unsafe_uri (bytes ''/a%2f..b'') = Some (bytes ''/a/..b'', None)" by code_simp
  from unsafe_uri_no_dot_dot [OF this] show ?thesis by simp
qed

text \<open>
  With arguments the last segment may be \<^verbatim>\<open>..\<close>: \<^verbatim>\<open>len\<close> counts the bytes up to the end of the
  URI, not up to the question mark, so \<^verbatim>\<open>/..?\<close> is not seen as \<^verbatim>\<open>/..\<close> at the end.
\<close>

lemma unsafe_uri_args_escape: "ngx_http_parse_unsafe_uri (bytes ''/a/..?x'') = Some (bytes ''/a/..'', Some (bytes ''x''))"
  by code_simp

end
