(* ===== verification/Ngx_Http_Status.thy ===== *)
theory Ngx_Http_Status
  imports Ngx_Http_Request
begin

text \<open>
  The status line of a backend's response: \<^verbatim>\<open>ngx_http_parse_status_line\<close> of
  \<^verbatim>\<open>http/ngx_http_parse.c\<close>.  Like the request line it is read in pieces, with its state in
  the request; the version goes to the request, the rest to a \<^verbatim>\<open>ngx_http_status_t\<close>.
\<close>

section \<open>The state\<close>

datatype sl_state = sl_begin | sl_H | sl_HT | sl_HTT | sl_HTTP | sl_first_major_digit | sl_major_digit
  | sl_first_minor_digit | sl_minor_digit | sl_status | sl_space_after_status | sl_status_text | sl_almost_done

record status_line =
  sl_st :: sl_state
  sl_major :: nat
  sl_minor :: nat
  sl_code :: nat
  sl_count :: nat
  sl_start :: "nat option"
  sl_end :: "nat option"
  sl_version :: nat

datatype sl_stop = sl_error | sl_done

type_synonym sl_outcome = "(sl_stop, status_line) outcome"

definition new_status :: status_line where
  "new_status = \<lparr>sl_st = sl_begin, sl_major = 0, sl_minor = 0, sl_code = 0, sl_count = 0,
     sl_start = None, sl_end = None, sl_version = 0\<rparr>"

section \<open>The parser\<close>

definition sl_expect :: "u8 \<Rightarrow> sl_state \<Rightarrow> u8 \<Rightarrow> status_line \<Rightarrow> sl_outcome" where
  "sl_expect c next ch r = (if ch = c then Next (r\<lparr>sl_st := next\<rparr>) else Halt sl_error r)"

definition sl_version_step :: "u8 \<Rightarrow> status_line \<Rightarrow> sl_outcome" where
  "sl_version_step ch r =
     (case sl_st r of
        sl_first_major_digit \<Rightarrow>
          if ch < chr CHR ''1'' \<or> chr CHR ''9'' < ch then Halt sl_error r
          else Next (r\<lparr>sl_major := digit ch, sl_st := sl_major_digit\<rparr>)
      | sl_major_digit \<Rightarrow>
          if ch = chr CHR ''.'' then Next (r\<lparr>sl_st := sl_first_minor_digit\<rparr>)
          else if \<not> is_digit ch then Halt sl_error r
          else if sl_major r > 99 then Halt sl_error r
          else Next (r\<lparr>sl_major := sl_major r * 10 + digit ch\<rparr>)
      | sl_first_minor_digit \<Rightarrow>
          if \<not> is_digit ch then Halt sl_error r
          else Next (r\<lparr>sl_minor := digit ch, sl_st := sl_minor_digit\<rparr>)
      | _ \<Rightarrow>
          if ch = chr CHR '' '' then Next (r\<lparr>sl_st := sl_status\<rparr>)
          else if \<not> is_digit ch then Halt sl_error r
          else if sl_minor r > 99 then Halt sl_error r
          else Next (r\<lparr>sl_minor := sl_minor r * 10 + digit ch\<rparr>))"

definition sl_code_step :: "nat \<Rightarrow> u8 \<Rightarrow> status_line \<Rightarrow> sl_outcome" where
  "sl_code_step p ch r =
     (if ch = chr CHR '' '' then Next r
      else if \<not> is_digit ch then Halt sl_error r
      else
        let r = r\<lparr>sl_code := sl_code r * 10 + digit ch, sl_count := sl_count r + 1\<rparr> in
        if sl_count r = 3 then Next (r\<lparr>sl_st := sl_space_after_status, sl_start := Some (p - 2)\<rparr>)
        else Next r)"

definition status_step :: "ngx_str \<Rightarrow> nat \<Rightarrow> u8 \<Rightarrow> status_line \<Rightarrow> sl_outcome" where
  "status_step buf p ch r =
     (case sl_st r of
        sl_begin \<Rightarrow> sl_expect (chr CHR ''H'') sl_H ch r
      | sl_H \<Rightarrow> sl_expect (chr CHR ''T'') sl_HT ch r
      | sl_HT \<Rightarrow> sl_expect (chr CHR ''T'') sl_HTT ch r
      | sl_HTT \<Rightarrow> sl_expect (chr CHR ''P'') sl_HTTP ch r
      | sl_HTTP \<Rightarrow> sl_expect (chr CHR ''/'') sl_first_major_digit ch r
      | sl_status \<Rightarrow> sl_code_step p ch r
      | sl_space_after_status \<Rightarrow>
          if ch = chr CHR '' '' \<or> ch = chr CHR ''.'' then Next (r\<lparr>sl_st := sl_status_text\<rparr>)
          else if ch = CR then Next (r\<lparr>sl_st := sl_almost_done\<rparr>)
          else if ch = LF then Halt sl_done r
          else Halt sl_error r
      | sl_status_text \<Rightarrow>
          if ch = CR then Next (r\<lparr>sl_st := sl_almost_done\<rparr>)
          else if ch = LF then Halt sl_done r
          else Next r
      | sl_almost_done \<Rightarrow>
          let r = r\<lparr>sl_end := Some (p - 1)\<rparr> in
          if ch = LF then Halt sl_done r else Halt sl_error r
      | _ \<Rightarrow> sl_version_step ch r)"

text \<open>The label \<^verbatim>\<open>done\<close>.\<close>

definition status_done :: "nat \<Rightarrow> status_line \<Rightarrow> status_line" where
  "status_done p r = r\<lparr>sl_end := (if sl_end r = None then Some p else sl_end r),
     sl_version := sl_major r * 1000 + sl_minor r, sl_st := sl_begin\<rparr>"

text \<open>The return code, \<^verbatim>\<open>b->pos\<close> and the fields; an error leaves \<^verbatim>\<open>b->pos\<close> and \<^verbatim>\<open>r->state\<close>.\<close>

definition status_result :: "ngx_str \<Rightarrow> nat \<Rightarrow> sl_state \<Rightarrow> (sl_stop, status_line) scanned \<Rightarrow> ngx_rc \<times> nat \<times> status_line" where
  "status_result buf pos st res =
     (case res of
        Again r \<Rightarrow> (NGX_AGAIN, length buf, r)
      | Halted sl_done p r \<Rightarrow> (NGX_OK, p + 1, status_done p r)
      | Halted sl_error p r \<Rightarrow> (NGX_ERROR, pos, r\<lparr>sl_st := st\<rparr>))"

definition ngx_http_parse_status_line :: "ngx_str \<Rightarrow> nat \<Rightarrow> status_line \<Rightarrow> ngx_rc \<times> nat \<times> status_line" where
  "ngx_http_parse_status_line buf pos r = status_result buf pos (sl_st r) (scan status_step buf pos r)"

interpretation status: resumable status_step
  by standard (simp add: status_step_def)

section \<open>What is kept in range\<close>

text \<open>
  The numbers stay small, and a code that is complete has three digits: nothing wraps round.
\<close>

definition status_ok :: "status_line \<Rightarrow> bool" where
  "status_ok r \<longleftrightarrow> sl_major r \<le> 999 \<and> sl_minor r \<le> 999 \<and> sl_code r < 10 ^ sl_count r
     \<and> (if sl_st r \<in> {sl_space_after_status, sl_status_text, sl_almost_done} then sl_count r = 3 \<and> sl_start r \<noteq> None
        else sl_count r \<le> 2 \<and> (sl_st r \<noteq> sl_status \<longrightarrow> sl_count r = 0))"

lemma digit_le_999: "is_digit ch \<Longrightarrow> digit ch \<le> 999"
  using digit_le [of ch] by simp

lemma status_step_ok:
  assumes "status_ok r"
  shows "case status_step buf p ch r of Next r' \<Rightarrow> status_ok r' | Halt e r' \<Rightarrow> e = sl_done \<longrightarrow>
      status_ok r' \<and> sl_count r' = 3 \<and> sl_start r' \<noteq> None"
proof -
  have first: "\<not> (ch < chr CHR ''1'' \<or> chr CHR ''9'' < ch) \<Longrightarrow> is_digit ch"
    by (simp add: is_digit_uint word_less_def)
  show ?thesis
  proof (cases "sl_st r")
    case sl_status
    have "sl_code r * 10 + digit ch < 10 ^ Suc (sl_count r)" if "is_digit ch"
      using assms digit_le [OF that] by (simp add: status_ok_def)
    with sl_status assms show ?thesis
      by (auto simp: status_step_def sl_code_step_def status_ok_def Let_def)
  qed (use assms first digit_le_999 in \<open>auto simp: status_step_def sl_expect_def sl_version_step_def status_ok_def Let_def
      dest: first digit_le\<close>)
qed

section \<open>A well-formed line\<close>

lemma eat_append: "eat step buf p (xs @ ys) s =
    (case eat step buf p xs s of Again s' \<Rightarrow> eat step buf (p + length xs) ys s' | Halted e q s' \<Rightarrow> Halted e q s')"
  by (induction xs arbitrary: p s) (simp_all split: outcome.split scanned.split)

lemma eat_reason: "\<forall>c\<in>set reason. c \<noteq> CR \<and> c \<noteq> LF \<Longrightarrow> sl_st r = sl_status_text \<Longrightarrow> eat status_step buf p reason r = Again r"
  by (induction reason arbitrary: p) (simp_all add: status_step_def)

lemma digit_not: "is_digit c \<Longrightarrow> c \<noteq> chr CHR '' '' \<and> c \<noteq> chr CHR ''.''"
  by (auto simp: is_digit_def)

lemma eat_version:
  assumes "is_digit M" "M \<noteq> chr CHR ''0''" "is_digit N"
  shows "eat status_step buf 0 (bytes ''HTTP/'' @ [M] @ bytes ''.'' @ [N] @ bytes '' '') new_status
    = Again (new_status\<lparr>sl_major := digit M, sl_minor := digit N, sl_st := sl_status\<rparr>)"
proof -
  have "\<not> (M < chr CHR ''1'' \<or> chr CHR ''9'' < M)"
    using assms(1,2) unfolding is_digit_def by (auto simp: word_less_def word_le_def word_uint_eq_iff)
  then show ?thesis
    using assms(3) digit_not [OF assms(3)]
    by (simp add: status_step_def sl_expect_def sl_version_step_def new_status_def)
qed

lemma eat_code:
  assumes "is_digit a" "is_digit b" "is_digit c" "sl_st r = sl_status" "sl_code r = 0" "sl_count r = 0"
  shows "eat status_step buf p ([a, b, c] @ bytes '' '') r
    = Again (r\<lparr>sl_code := digit a * 100 + digit b * 10 + digit c, sl_count := 3, sl_st := sl_status_text, sl_start := Some p\<rparr>)"
  using assms(4-6) assms(1-3) digit_not [OF assms(1)] digit_not [OF assms(2)] digit_not [OF assms(3)]
  by (simp add: status_step_def sl_code_step_def Let_def eval_nat_numeral)

lemma line_scanned:
  fixes M N a b c :: u8
  assumes "is_digit M" "M \<noteq> chr CHR ''0''" "is_digit N" "is_digit a" "is_digit b" "is_digit c"
    and "\<forall>ch\<in>set reason. ch \<noteq> CR \<and> ch \<noteq> LF"
    and line: "line = bytes ''HTTP/'' @ [M] @ bytes ''.'' @ [N] @ bytes '' '' @ [a, b, c] @ bytes '' '' @ reason @ [CR, LF]"
  shows "scan status_step (line @ rest) 0 new_status = Halted sl_done (length line - 1)
    \<lparr>sl_st = sl_almost_done, sl_major = digit M, sl_minor = digit N,
     sl_code = digit a * 100 + digit b * 10 + digit c, sl_count = 3, sl_start = Some 9,
     sl_end = Some (length line - 2), sl_version = 0\<rparr>"
proof -
  let ?v = "bytes ''HTTP/'' @ [M] @ bytes ''.'' @ [N] @ bytes '' ''"
  let ?c = "[a, b, c] @ bytes '' ''"
  have whole: "line = ?v @ ?c @ reason @ [CR, LF]" by (simp add: line)
  have "holds_at (line @ rest) 0 line" by (simp add: holds_at_def)
  moreover have "eat status_step (line @ rest) 0 line new_status = Halted sl_done (length line - 1)
    \<lparr>sl_st = sl_almost_done, sl_major = digit M, sl_minor = digit N,
     sl_code = digit a * 100 + digit b * 10 + digit c, sl_count = 3, sl_start = Some 9,
     sl_end = Some (length line - 2), sl_version = 0\<rparr>"
    unfolding whole eat_append [of _ _ _ ?v] eat_version [OF assms(1-3)] scanned.case
      eat_append [of _ _ _ ?c] 
    by (simp only: eat_code [OF assms(4-6)] scanned.case eat_append [of _ _ _ reason] eat_reason [OF assms(7)] new_status_def status_line.select_convs status_line.update_convs)
     (simp add: status_step_def)
  ultimately show ?thesis by (simp add: scan_eat)
qed

lemma status_scan_ok:
  "case scan status_step buf 0 new_status of
     Again r \<Rightarrow> status_ok r
   | Halted e q r \<Rightarrow> (e = sl_done \<longrightarrow> status_ok r \<and> sl_count r = 3 \<and> sl_start r \<noteq> None) \<and> 0 \<le> q \<and> q < length buf"
  by (rule scan_invariant [where I = "\<lambda>p. status_ok"])
    (use status_step_ok in \<open>simp_all add: new_status_def status_ok_def [of "status_line.make _ _ _ _ _ _ _ _"]\<close>, simp add: status_ok_def)

section \<open>Properties\<close>

text \<open>A status line \<^verbatim>\<open>HTTP/M.N SP abc SP reason CRLF\<close> is accepted wherever the reads cut it and
  whatever follows it, with the code and the version computed, the pointers at the code and
  the end of the reason, and exactly the line consumed.\<close>

theorem status_line_accepted:
  fixes M N a b c :: u8
  assumes "is_digit M" "M \<noteq> chr CHR ''0''" "is_digit N" "is_digit a" "is_digit b" "is_digit c"
    and "\<forall>ch\<in>set reason. ch \<noteq> CR \<and> ch \<noteq> LF"
    and "line = bytes ''HTTP/'' @ [M] @ bytes ''.'' @ [N] @ bytes '' '' @ [a, b, c] @ bytes '' '' @ reason @ [CR, LF]"
    and "concat pieces = line @ rest"
  shows "\<exists>p r. feed status_step [] pieces (Again new_status) = Halted sl_done p r \<and> p + 1 = length line
    \<and> sl_code (status_done p r) = digit a * 100 + digit b * 10 + digit c
    \<and> sl_version (status_done p r) = digit M * 1000 + digit N
    \<and> sl_start (status_done p r) = Some 9 \<and> sl_end (status_done p r) = Some (length line - 2)"
proof -
  have "feed status_step [] pieces (Again new_status) = scan status_step (line @ rest) 0 new_status"
    using status.feed_whole [of 0 "[]" pieces new_status] assms(9) by simp
  with line_scanned [OF assms(1-8)] show ?thesis
    by (simp add: status_done_def assms(8))
qed

theorem status_line_accepted_witness:
  "\<exists>p r. feed status_step [] [bytes ''HTTP/1.'', bytes ''1 404 No'' @ [CR], [LF] @ bytes ''X''] (Again new_status) = Halted sl_done p r
    \<and> sl_code (status_done p r) = 404 \<and> sl_version (status_done p r) = 1001 \<and> sl_start (status_done p r) = Some 9"
proof -
  have digits: "is_digit (chr CHR ''1'')" "chr CHR ''1'' \<noteq> chr CHR ''0''" "is_digit (chr CHR ''4'')" "is_digit (chr CHR ''0'')"
    by (simp_all add: is_digit_def)
  have numbers: "digit (chr CHR ''4'') = 4" "digit (chr CHR ''0'') = 0" "digit (chr CHR ''1'') = 1"
    by (simp_all add: digit_def)
  have reason: "\<forall>ch\<in>set (bytes ''No''). ch \<noteq> CR \<and> ch \<noteq> LF" by simp
  have pieces: "concat [bytes ''HTTP/1.'', bytes ''1 404 No'' @ [CR], [LF] @ bytes ''X''] =
     (bytes ''HTTP/'' @ [chr CHR ''1''] @ bytes ''.'' @ [chr CHR ''1''] @ bytes '' '' @ [chr CHR ''4'', chr CHR ''0'', chr CHR ''4'']
       @ bytes '' '' @ bytes ''No'' @ [CR, LF]) @ bytes ''X''" by simp
  from status_line_accepted [OF digits(1,2,1,3,4,3) reason refl pieces] show ?thesis
    unfolding numbers by (auto simp del: feed.simps)
qed

text \<open>Whatever a backend sends, the numbers that \<^verbatim>\<open>ngx_http_parse_status_line\<close> computes stay in
  range, and when it accepts a line the code has three digits and a position, and the read
  position is inside the buffer.\<close>

theorem status_line_bounded:
  assumes "ngx_http_parse_status_line buf 0 new_status = (rc, pos, r)" "rc = NGX_OK"
  shows "sl_code r \<le> 999 \<and> sl_count r = 3 \<and> sl_start r \<noteq> None \<and> sl_end r \<noteq> None
    \<and> sl_version r = sl_major r * 1000 + sl_minor r \<and> sl_major r \<le> 999 \<and> sl_minor r \<le> 999 \<and> pos \<le> length buf"
proof -
  obtain p s where s: "scan status_step buf 0 new_status = Halted sl_done p s" "pos = p + 1" "r = status_done p s"
    using assms by (auto simp: ngx_http_parse_status_line_def status_result_def split: scanned.splits sl_stop.splits)
  from status_scan_ok [of buf] s(1) have "status_ok s" "sl_count s = 3" "sl_start s \<noteq> None" "p < length buf" by simp_all
  then show ?thesis by (simp add: s(2,3) status_done_def status_ok_def)
qed

theorem status_line_bounded_witness:
  "sl_code (status_done 12 \<lparr>sl_st = sl_space_after_status, sl_major = 1, sl_minor = 0, sl_code = 200, sl_count = 3,
     sl_start = Some 9, sl_end = None, sl_version = 0\<rparr>) \<le> 999"
proof -
  have "ngx_http_parse_status_line (bytes ''HTTP/1.0 200'' @ [LF]) 0 new_status =
    (NGX_OK, 13, status_done 12 \<lparr>sl_st = sl_space_after_status, sl_major = 1, sl_minor = 0, sl_code = 200, sl_count = 3,
     sl_start = Some 9, sl_end = None, sl_version = 0\<rparr>)" by code_simp
  from status_line_bounded [OF this] show ?thesis by simp
qed

end
