(* ===== verification/Ngx_Compare.thy ===== *)
theory Ngx_Compare
  imports Ngx_Prelude "HOL-Library.List_Lexorder" "HOL-Library.Multiset"
begin

text \<open>
  The comparisons, the searches and the sort of \<^verbatim>\<open>core/ngx_string.c\<close>.  The comparisons read
  up to a zero byte: an argument is the string before it, and reading on gives the zero.
  Their results are \<^verbatim>\<open>ngx_int_t\<close>, so a difference of two characters is an integer.  What
  \<^verbatim>\<open>ngx_sort\<close> needs of a comparison is the locale \<open>comparison\<close>.
\<close>

section \<open>Comparisons\<close>

text \<open>\<^verbatim>\<open>*s\<close> and \<^verbatim>\<open>s + 1\<close> in a string that ends with a zero.\<close>

fun first :: "ngx_str \<Rightarrow> u8" where
  "first [] = 0"
| "first (c # _) = c"

definition difference :: "u8 \<Rightarrow> u8 \<Rightarrow> int" where
  "difference c1 c2 = uint c1 - uint c2"

lemma difference_zero [simp]: "difference c c = 0"
  by (simp add: difference_def)

lemma tolower_first_not_empty: "ngx_tolower (first s) \<noteq> 0 \<Longrightarrow> s \<noteq> []"
  by (cases s) (simp_all add: ngx_tolower_def)

function ngx_strcasecmp :: "ngx_str \<Rightarrow> ngx_str \<Rightarrow> int" where
  "ngx_strcasecmp s1 s2 =
     (let c1 = ngx_tolower (first s1); c2 = ngx_tolower (first s2) in
      if c1 = c2 then (if c1 \<noteq> 0 then ngx_strcasecmp (tl s1) (tl s2) else 0)
      else difference c1 c2)"
  by pat_completeness auto
termination
  by (relation "measure (\<lambda>(s1, s2). length s1)") (auto dest: tolower_first_not_empty)

fun ngx_strncasecmp :: "ngx_str \<Rightarrow> ngx_str \<Rightarrow> nat \<Rightarrow> int" where
  "ngx_strncasecmp s1 s2 0 = 0"
| "ngx_strncasecmp s1 s2 (Suc n) =
     (let c1 = ngx_tolower (first s1); c2 = ngx_tolower (first s2) in
      if c1 = c2 then (if c1 \<noteq> 0 then ngx_strncasecmp (tl s1) (tl s2) n else 0)
      else difference c1 c2)"

text \<open>In \<^verbatim>\<open>ngx_dns_strcmp\<close> the dot is the lowest character of a name.\<close>

definition dns_char :: "u8 \<Rightarrow> u8" where
  "dns_char c = (if c = chr CHR ''.'' then chr CHR '' '' else c)"

function ngx_dns_strcmp :: "ngx_str \<Rightarrow> ngx_str \<Rightarrow> int" where
  "ngx_dns_strcmp s1 s2 =
     (let c1 = ngx_tolower (first s1); c2 = ngx_tolower (first s2) in
      if c1 = c2 then (if c1 \<noteq> 0 then ngx_dns_strcmp (tl s1) (tl s2) else 0)
      else difference (dns_char c1) (dns_char c2))"
  by pat_completeness auto
termination
  by (relation "measure (\<lambda>(s1, s2). length s1)") (auto dest: tolower_first_not_empty)

text \<open>In \<^verbatim>\<open>ngx_filename_cmp\<close> the slash is the lowest but for the end of the string.\<close>

definition path_char :: "u8 \<Rightarrow> u8" where
  "path_char c = (if c = chr CHR ''/'' then 0 else c)"

fun ngx_filename_cmp :: "ngx_str \<Rightarrow> ngx_str \<Rightarrow> nat \<Rightarrow> int" where
  "ngx_filename_cmp s1 s2 0 = 0"
| "ngx_filename_cmp s1 s2 (Suc n) =
     (let c1 = first s1; c2 = first s2 in
      if c1 = c2 then (if c1 \<noteq> 0 then ngx_filename_cmp (tl s1) (tl s2) n else 0)
      else if c1 = 0 \<or> c2 = 0 then difference c1 c2
      else difference (path_char c1) (path_char c2))"

text \<open>Two counted strings; \<^verbatim>\<open>memcmp\<close> is the sign of the first difference.\<close>

fun memcmp :: "ngx_str \<Rightarrow> ngx_str \<Rightarrow> nat \<Rightarrow> int" where
  "memcmp s1 s2 0 = 0"
| "memcmp s1 s2 (Suc n) =
     (if first s1 = first s2 then memcmp (tl s1) (tl s2) n else difference (first s1) (first s2))"

definition ngx_memn2cmp :: "ngx_str \<Rightarrow> ngx_str \<Rightarrow> nat \<Rightarrow> nat \<Rightarrow> int" where
  "ngx_memn2cmp s1 s2 n1 n2 =
     (let (n, z) = (if n1 \<le> n2 then (n1, - 1) else (n2, 1));
          m = memcmp s1 s2 n in
      if m \<noteq> 0 \<or> n1 = n2 then m else z)"

text \<open>From the last byte down.\<close>

fun ngx_rstrncmp :: "ngx_str \<Rightarrow> ngx_str \<Rightarrow> nat \<Rightarrow> int" where
  "ngx_rstrncmp s1 s2 0 = 0"
| "ngx_rstrncmp s1 s2 (Suc n) =
     (if s1 ! n \<noteq> s2 ! n then difference (s1 ! n) (s2 ! n) else ngx_rstrncmp s1 s2 n)"

definition rstrn_upper :: "u8 \<Rightarrow> u8" where
  "rstrn_upper c = (if chr CHR ''a'' \<le> c \<and> c \<le> chr CHR ''z'' then c - 32 else c)"

fun ngx_rstrncasecmp :: "ngx_str \<Rightarrow> ngx_str \<Rightarrow> nat \<Rightarrow> int" where
  "ngx_rstrncasecmp s1 s2 0 = 0"
| "ngx_rstrncasecmp s1 s2 (Suc n) =
     (let c1 = rstrn_upper (s1 ! n); c2 = rstrn_upper (s2 ! n) in
      if c1 \<noteq> c2 then difference c1 c2 else ngx_rstrncasecmp s1 s2 n)"

section \<open>Searches\<close>

text \<open>
  A position is what is left of the string there; the needle is its first character and the
  rest, a string without a zero byte, for which \<^verbatim>\<open>strncmp\<close> fails where \<^verbatim>\<open>memcmp\<close> does.
\<close>

fun ngx_strnstr :: "ngx_str \<Rightarrow> ngx_str \<Rightarrow> nat \<Rightarrow> ngx_str option" where
  "ngx_strnstr s1 s2 0 = None"
| "ngx_strnstr s1 s2 (Suc len) =
     (if first s1 = 0 then None
      else if first s1 \<noteq> first s2 then ngx_strnstr (tl s1) s2 len
      else if length (tl s2) > len then None
      else if memcmp (tl s1) (tl s2) (length (tl s2)) \<noteq> 0 then ngx_strnstr (tl s1) s2 len
      else Some s1)"

fun ngx_strstrn :: "ngx_str \<Rightarrow> ngx_str \<Rightarrow> nat \<Rightarrow> ngx_str option" where
  "ngx_strstrn [] s2 n = None"
| "ngx_strstrn (c # s1) s2 n =
     (if c = 0 then None
      else if c \<noteq> first s2 then ngx_strstrn s1 s2 n
      else if memcmp s1 (tl s2) n \<noteq> 0 then ngx_strstrn s1 s2 n
      else Some (c # s1))"

fun ngx_strcasestrn :: "ngx_str \<Rightarrow> ngx_str \<Rightarrow> nat \<Rightarrow> ngx_str option" where
  "ngx_strcasestrn [] s2 n = None"
| "ngx_strcasestrn (c # s1) s2 n =
     (if c = 0 then None
      else if ngx_tolower c \<noteq> ngx_tolower (first s2) then ngx_strcasestrn s1 s2 n
      else if ngx_strncasecmp s1 (tl s2) n \<noteq> 0 then ngx_strcasestrn s1 s2 n
      else Some (c # s1))"

text \<open>\<open>s1\<close> is the string up to \<^verbatim>\<open>last\<close>, and \<^verbatim>\<open>last -= n\<close> leaves no room for the rest of the needle.\<close>

fun ngx_strlcasestrn :: "ngx_str \<Rightarrow> ngx_str \<Rightarrow> nat \<Rightarrow> ngx_str option" where
  "ngx_strlcasestrn [] s2 n = None"
| "ngx_strlcasestrn (c # s1) s2 n =
     (if length s1 < n then None
      else if ngx_tolower c \<noteq> ngx_tolower (first s2) then ngx_strlcasestrn s1 s2 n
      else if ngx_strncasecmp s1 (tl s2) n \<noteq> 0 then ngx_strlcasestrn s1 s2 n
      else Some (c # s1))"

fun ngx_strlchr :: "ngx_str \<Rightarrow> u8 \<Rightarrow> ngx_str option" where
  "ngx_strlchr [] c = None"
| "ngx_strlchr (a # p) c = (if a = c then Some (a # p) else ngx_strlchr p c)"

section \<open>Sorting\<close>

text \<open>
  One round of the insertion sort: \<open>done\<close> is what lies before, the last element first, and
  the elements that compare greater are moved up.
\<close>

fun sort_shift :: "('a \<Rightarrow> 'a \<Rightarrow> int) \<Rightarrow> 'a \<Rightarrow> 'a list \<Rightarrow> 'a list" where
  "sort_shift cmp x [] = [x]"
| "sort_shift cmp x (y # before) = (if cmp y x > 0 then y # sort_shift cmp x before else x # y # before)"

definition ngx_sort :: "('a \<Rightarrow> 'a \<Rightarrow> int) \<Rightarrow> 'a list \<Rightarrow> 'a list" where
  "ngx_sort cmp xs = rev (fold (sort_shift cmp) xs [])"

section \<open>What a comparison promises\<close>

text \<open>The elements of \<open>A\<close> are compared by a key.\<close>

locale comparison =
  fixes A :: "'a set" and cmp :: "'a \<Rightarrow> 'a \<Rightarrow> int" and key :: "'a \<Rightarrow> 'b::linorder"
  assumes positive: "a \<in> A \<Longrightarrow> b \<in> A \<Longrightarrow> cmp a b > 0 \<longleftrightarrow> key b < key a"
begin

lemma shift_mset: "mset (sort_shift cmp x ys) = add_mset x (mset ys)"
  by (induction ys) auto

lemma shift_set: "set (sort_shift cmp x ys) = insert x (set ys)"
  by (induction ys) auto

lemma shift_sorted:
  "x \<in> A \<Longrightarrow> set ys \<subseteq> A \<Longrightarrow> sorted_wrt (\<lambda>a b. key b \<le> key a) ys \<Longrightarrow> sorted_wrt (\<lambda>a b. key b \<le> key a) (sort_shift cmp x ys)"
  by (induction ys) (auto simp: positive shift_set)

lemma shift_stable:
  "x \<in> A \<Longrightarrow> set ys \<subseteq> A \<Longrightarrow> filter (\<lambda>y. k = key y) (sort_shift cmp x ys) =
     (if k = key x then x # filter (\<lambda>y. k = key y) ys else filter (\<lambda>y. k = key y) ys)"
  by (induction ys) (auto simp: positive)

lemma fold_shift:
  assumes "set xs \<subseteq> A" "set acc \<subseteq> A" "sorted_wrt (\<lambda>a b. key b \<le> key a) acc"
  defines "out \<equiv> fold (sort_shift cmp) xs acc"
  shows "mset out = mset xs + mset acc" "sorted_wrt (\<lambda>a b. key b \<le> key a) out"
    "filter (\<lambda>y. k = key y) out = rev (filter (\<lambda>y. k = key y) xs) @ filter (\<lambda>y. k = key y) acc"
  using assms(1-3) unfolding out_def
proof (induction xs arbitrary: acc)
  case (Cons x xs)
  {
    case 1
    with Cons.IH(1) [of "sort_shift cmp x acc"] show ?case
      by (simp add: shift_mset shift_set shift_sorted)
  next
    case 2
    with Cons.IH(2) [of "sort_shift cmp x acc"] show ?case
      by (simp add: shift_set shift_sorted)
  next
    case 3
    with Cons.IH(3) [of "sort_shift cmp x acc"] show ?case
      by (simp add: shift_set shift_sorted shift_stable)
  }
qed simp_all

lemma sort: "set xs \<subseteq> A \<Longrightarrow> ngx_sort cmp xs = sort_key key xs"
  using fold_shift [of xs "[]"] unfolding ngx_sort_def
  by (intro properties_for_sort_key [symmetric])
    (simp_all add: rev_filter sorted_map sorted_wrt_rev flip: rev_filter)

end

text \<open>The keys of the comparisons above.\<close>

definition dns_key :: "ngx_str \<Rightarrow> ngx_str" where
  "dns_key s = map (\<lambda>c. dns_char (ngx_tolower c)) s"

definition path_key :: "ngx_str \<Rightarrow> ngx_str" where
  "path_key s = map path_char s"

lemma difference_pos: "difference a b > 0 \<longleftrightarrow> b < a"
  by (simp add: difference_def word_less_def)

lemma tolower_zero [simp]: "ngx_tolower c = 0 \<longleftrightarrow> c = 0"
proof -
  have "\<forall>c. ngx_tolower c = 0 \<longleftrightarrow> c = 0" unfolding all_byte by (simp add: ngx_tolower_def upto_rec1)
  then show ?thesis by blast
qed

lemma zero_least: "(0 :: u8) < c \<longleftrightarrow> c \<noteq> 0"
  by (rule word_greater_zero_iff)

lemma tolower_nil [simp]: "ngx_tolower 0 = 0"
  by simp

lemma strcasecmp_simps [simp]:
  "ngx_strcasecmp [] [] = 0"
  "ngx_strcasecmp (a # s1) [] = (if a = 0 then 0 else difference (ngx_tolower a) 0)"
  "ngx_strcasecmp [] (b # s2) = (if b = 0 then 0 else difference 0 (ngx_tolower b))"
  "ngx_strcasecmp (a # s1) (b # s2) = (if ngx_tolower a = ngx_tolower b then (if a = 0 then 0 else ngx_strcasecmp s1 s2)
     else difference (ngx_tolower a) (ngx_tolower b))"
  by (subst ngx_strcasecmp.simps; auto simp: Let_def)+

lemma dns_strcmp_simps [simp]:
  "ngx_dns_strcmp [] [] = 0"
  "ngx_dns_strcmp (a # s1) [] = (if a = 0 then 0 else difference (dns_char (ngx_tolower a)) 0)"
  "ngx_dns_strcmp [] (b # s2) = (if b = 0 then 0 else difference 0 (dns_char (ngx_tolower b)))"
  "ngx_dns_strcmp (a # s1) (b # s2) = (if ngx_tolower a = ngx_tolower b then (if a = 0 then 0 else ngx_dns_strcmp s1 s2)
     else difference (dns_char (ngx_tolower a)) (dns_char (ngx_tolower b)))"
  by (subst ngx_dns_strcmp.simps; auto simp: Let_def dns_char_def [of 0])+

declare ngx_strcasecmp.simps [simp del] ngx_dns_strcmp.simps [simp del]

lemma strcasecmp_key: "0 \<notin> set a \<Longrightarrow> 0 \<notin> set b \<Longrightarrow> ngx_strcasecmp a b > 0 \<longleftrightarrow> map ngx_tolower b < map ngx_tolower a"
proof (induction a arbitrary: b)
  case Nil
  then show ?case by (cases b) (auto simp: difference_pos)
next
  case (Cons c a)
  then show ?case by (cases b) (auto simp: difference_pos zero_least)
qed

text \<open>Two characters of a name that \<^verbatim>\<open>ngx_dns_strcmp\<close> tells apart have different places.\<close>

definition dns_name :: "ngx_str \<Rightarrow> bool" where
  "dns_name s \<longleftrightarrow> 0 \<notin> set s \<and> chr CHR '' '' \<notin> set s"

lemma tolower_space: "ngx_tolower c = chr CHR '' '' \<longleftrightarrow> c = chr CHR '' ''"
proof -
  have "\<forall>c. ngx_tolower c = 32 \<longleftrightarrow> c = 32" unfolding all_byte by (simp add: ngx_tolower_def upto_rec1)
  then show ?thesis by simp
qed

lemma dns_char_inj: "ngx_tolower a \<noteq> chr CHR '' '' \<Longrightarrow> ngx_tolower b \<noteq> chr CHR '' '' \<Longrightarrow>
    dns_char (ngx_tolower a) = dns_char (ngx_tolower b) \<longleftrightarrow> ngx_tolower a = ngx_tolower b"
  by (auto simp: dns_char_def)

lemma dns_key: "dns_name a \<Longrightarrow> dns_name b \<Longrightarrow> ngx_dns_strcmp a b > 0 \<longleftrightarrow> dns_key b < dns_key a"
proof (induction a arbitrary: b)
  case Nil
  then show ?case by (cases b) (auto simp: difference_pos dns_key_def dns_name_def)
next
  case (Cons c a)
  show ?case
  proof (cases b)
    case Nil
    then show ?thesis
      using Cons.prems by (auto simp: difference_pos zero_least dns_key_def dns_name_def dns_char_def)
  next
    case (Cons d b')
    have "c \<noteq> 0" "ngx_tolower c \<noteq> chr CHR '' ''" "ngx_tolower d \<noteq> chr CHR '' ''" "dns_name a" "dns_name b'"
      using Cons.prems unfolding Cons tolower_space by (auto simp: dns_name_def)
    with Cons.IH [of b'] dns_char_inj [of c d] show ?thesis
      by (auto simp: Cons difference_pos dns_key_def)
  qed
qed

lemma filename_key:
  "0 \<notin> set a \<Longrightarrow> 0 \<notin> set b \<Longrightarrow> ngx_filename_cmp a b (min (length a) (length b) + 1) > 0 \<longleftrightarrow> path_key b < path_key a"
proof (induction a arbitrary: b)
  case Nil
  then show ?case by (cases b) (auto simp: difference_pos path_key_def)
next
  case (Cons c a)
  show ?case
  proof (cases b)
    case Nil
    then show ?thesis using Cons.prems by (auto simp: difference_pos zero_least path_key_def)
  next
    case (Cons d b')
    have "c \<noteq> 0" "d \<noteq> 0" using Cons.prems Cons by auto
    then have "path_char c = path_char d \<longleftrightarrow> c = d" by (auto simp: path_char_def)
    with Cons.IH [of b'] Cons.prems show ?thesis
      by (auto simp: Cons difference_pos path_key_def Let_def)
  qed
qed

interpretation case_order: comparison "{s. 0 \<notin> set s}" ngx_strcasecmp "map ngx_tolower"
  by standard (simp add: strcasecmp_key)

interpretation dns_order: comparison "{s. dns_name s}" ngx_dns_strcmp dns_key
  by standard (simp add: dns_key)

interpretation path_order: comparison "{s. 0 \<notin> set s}" "\<lambda>a b. ngx_filename_cmp a b (min (length a) (length b) + 1)" path_key
  by standard (use filename_key in simp)

section \<open>Properties\<close>

text \<open>\<^verbatim>\<open>ngx_sort\<close> of the names of the wildcard servers with \<^verbatim>\<open>ngx_dns_strcmp\<close> is the stable sort of
  the library in the order where the dot is the lowest character, for names that hold no space.
  (The order of the names that compare equal is kept.)\<close>

theorem dns_sort:
  assumes "\<forall>s\<in>set names. dns_name s"
  shows "ngx_sort ngx_dns_strcmp names = sort_key dns_key names"
  by (rule dns_order.sort) (use assms in blast)

theorem dns_sort_witness:
  "ngx_sort ngx_dns_strcmp [bytes ''a-b.c'', bytes ''A.b'', bytes ''a.b.c'', bytes ''a''] =
     sort_key dns_key [bytes ''a-b.c'', bytes ''A.b'', bytes ''a.b.c'', bytes ''a'']
   \<and> ngx_sort ngx_dns_strcmp [bytes ''a-b.c'', bytes ''A.b'', bytes ''a.b.c'', bytes ''a''] =
     [bytes ''a'', bytes ''A.b'', bytes ''a.b.c'', bytes ''a-b.c'']"
proof (rule conjI)
  show "ngx_sort ngx_dns_strcmp [bytes ''a-b.c'', bytes ''A.b'', bytes ''a.b.c'', bytes ''a''] =
     sort_key dns_key [bytes ''a-b.c'', bytes ''A.b'', bytes ''a.b.c'', bytes ''a'']"
    by (rule dns_sort) (simp add: dns_name_def)
qed code_simp

end
