(* ===== verification/Ngx_Http_Args.thy ===== *)
theory Ngx_Http_Args
  imports Ngx_Compare
begin

text \<open>
  The arguments of a request and the parameters of a header, of \<^verbatim>\<open>http/ngx_http_parse.c\<close>:
  \<^verbatim>\<open>ngx_http_arg\<close>, \<^verbatim>\<open>ngx_http_split_args\<close>, \<^verbatim>\<open>ngx_http_parse_multi_header_lines\<close> (a cookie of a
  request) and \<^verbatim>\<open>ngx_http_parse_set_cookie_lines\<close>.
\<close>

section \<open>Arguments\<close>

lemma strlcasestrn_length: "ngx_strlcasestrn s needle n = Some r \<Longrightarrow> length r \<le> length s \<and> r \<noteq> []"
  by (induction s) (auto split: if_splits)

text \<open>
  The loop at offset \<open>p\<close>: the search ends one byte before the arguments do, for the \<open>=\<close>.  The
  value ends at the next \<open>&\<close> after the name began.
\<close>

definition arg_value :: "ngx_str \<Rightarrow> nat \<Rightarrow> nat \<Rightarrow> ngx_str" where
  "arg_value args q len =
     (let from = q + len + 1;
          to = (case ngx_strlchr (drop q args) (chr CHR ''&'') of
                  None \<Rightarrow> length args | Some rest \<Rightarrow> length args - length rest) in
      take (to - from) (drop from args))"

function arg_loop :: "ngx_str \<Rightarrow> ngx_str \<Rightarrow> nat \<Rightarrow> ngx_str option" where
  "arg_loop args name p =
     (if p < length args then
        (case ngx_strlcasestrn (drop p (butlast args)) name (length name - 1) of
           None \<Rightarrow> None
         | Some found \<Rightarrow>
             let q = length args - 1 - length found in
             if (q = 0 \<or> args ! (q - 1) = chr CHR ''&'') \<and> args ! (q + length name) = chr CHR ''=''
             then Some (arg_value args q (length name))
             else arg_loop args name (q + 1))
      else None)"
  by pat_completeness auto
termination
  by (relation "measure (\<lambda>(args, name, p). length args - p)") (auto dest: strlcasestrn_length)

definition ngx_http_arg :: "ngx_str \<Rightarrow> ngx_str \<Rightarrow> ngx_str option" where
  "ngx_http_arg args name = (if length args = 0 then None else arg_loop args name 0)"

definition ngx_http_split_args :: "ngx_str \<Rightarrow> ngx_str \<times> ngx_str" where
  "ngx_http_split_args uri =
     (case ngx_strlchr uri (chr CHR ''?'') of
        Some p \<Rightarrow> (take (length uri - length p) uri, tl p)
      | None \<Rightarrow> (uri, []))"

section \<open>What an argument is\<close>

text \<open>The arguments between the ampersands.\<close>

fun arguments :: "ngx_str \<Rightarrow> ngx_str list" where
  "arguments [] = [[]]"
| "arguments (c # cs) =
     (if c = chr CHR ''&'' then [] # arguments cs else (c # hd (arguments cs)) # tl (arguments cs))"

definition named :: "ngx_str \<Rightarrow> ngx_str \<Rightarrow> bool" where
  "named name x \<longleftrightarrow> length name < length x \<and> map ngx_tolower (take (length name) x) = map ngx_tolower name
     \<and> x ! length name = chr CHR ''=''"

definition argument :: "ngx_str \<Rightarrow> ngx_str \<Rightarrow> ngx_str option" where
  "argument args name = map_option (drop (length name + 1)) (find (named name) (arguments args))"

lemma arguments_not_empty [simp]: "arguments cs \<noteq> []"
  by (cases cs) simp_all

lemma first_argument: "hd (arguments cs) = takeWhile (\<lambda>c. c \<noteq> chr CHR ''&'') cs"
  by (induction cs) simp_all

text \<open>The same by looking at every offset.\<close>

fun argument_from :: "ngx_str \<Rightarrow> bool \<Rightarrow> ngx_str \<Rightarrow> ngx_str option" where
  "argument_from name start [] = None"
| "argument_from name start (c # cs) =
     (if start \<and> named name (c # cs) then Some (drop (length name + 1) (takeWhile (\<lambda>c. c \<noteq> chr CHR ''&'') (c # cs)))
      else argument_from name (c = chr CHR ''&'') cs)"

lemma named_append: "named name w \<Longrightarrow> named name (w @ t)"
  by (auto simp: named_def nth_append)

lemma named_prefix: "named name (w @ t) \<Longrightarrow> length name < length w \<Longrightarrow> named name w"
  by (auto simp: named_def nth_append)

text \<open>A name without an ampersand is found in the whole string as in its first argument.\<close>

lemma named_first:
  assumes "chr CHR ''&'' \<notin> set name" "name \<noteq> []"
  shows "named name cs \<longleftrightarrow> named name (takeWhile (\<lambda>c. c \<noteq> chr CHR ''&'') cs)"
proof -
  have amp: "ngx_tolower c = ngx_tolower (chr CHR ''&'') \<longleftrightarrow> c = chr CHR ''&''" for c
  proof -
    have "\<forall>c. ngx_tolower c = 38 \<longleftrightarrow> c = 38" unfolding all_byte by (simp add: ngx_tolower_def upto_rec1)
    then show ?thesis by (simp add: ngx_tolower_def [of 38])
  qed
  let ?w = "takeWhile (\<lambda>c. c \<noteq> chr CHR ''&'') cs"
  have pre: "cs = ?w @ drop (length ?w) cs" by (metis takeWhile_eq_take append_take_drop_id)
  show ?thesis
  proof
    assume n: "named name cs"
    have "length name < length ?w"
    proof (rule ccontr)
      assume "\<not> length name < length ?w"
      then have "length ?w \<le> length name" "length ?w < length cs" using n by (auto simp: named_def)
      then have at: "cs ! length ?w = chr CHR ''&''" using nth_length_takeWhile by blast
      consider "length ?w = length name" | "length ?w < length name" using \<open>length ?w \<le> length name\<close> by linarith
      then show False
      proof cases
        case 1
        then show False using n at by (simp add: named_def)
      next
        case 2
        have "map ngx_tolower (take (length name) cs) ! length ?w = ngx_tolower (cs ! length ?w)"
          using 2 \<open>length ?w < length cs\<close> by simp
        moreover have "map ngx_tolower (take (length name) cs) ! length ?w = ngx_tolower (name ! length ?w)"
          using n 2 by (simp add: named_def)
        ultimately have "name ! length ?w = chr CHR ''&''" using at amp by metis
        then show False using assms(1) 2 by (metis nth_mem)
      qed
    qed
    then show "named name ?w"
      using n pre named_prefix by metis
  next
    assume "named name ?w"
    then show "named name cs" using named_append pre by metis
  qed
qed

lemma argument_from:
  assumes "chr CHR ''&'' \<notin> set name" "name \<noteq> []"
  shows "argument_from name True cs = argument cs name"
    "argument_from name False cs = map_option (drop (length name + 1)) (find (named name) (tl (arguments cs)))"
proof (induction cs)
  case Nil
  {
    case 1
    have "\<not> named name []" by (simp add: named_def)
    then show ?case by (simp add: argument_def)
  next
    case 2
    show ?case by simp
  }
next
  case (Cons c cs)
  {
    case 2
    then show ?case using Cons by (simp add: argument_def)
  next
    case 1
    have unfolded: "argument (c # cs) name = (if named name (hd (arguments (c # cs)))
        then Some (drop (length name + 1) (hd (arguments (c # cs))))
        else map_option (drop (length name + 1)) (find (named name) (tl (arguments (c # cs)))))"
      by (cases "arguments (c # cs)") (simp_all add: argument_def del: arguments.simps)
    show ?case
    proof (cases "named name (c # cs)")
      case True
      then show ?thesis
        using named_first [OF assms, of "c # cs"] unfolding unfolded first_argument by simp
    next
      case False
      then have "argument (c # cs) name = map_option (drop (length name + 1)) (find (named name) (tl (arguments (c # cs))))"
        using named_first [OF assms, of "c # cs"] unfolding unfolded first_argument by simp
      then show ?thesis using False Cons by (simp add: argument_def)
    qed
  }
qed

section \<open>The loop finds it\<close>

lemma strncasecmp_zero:
  "0 \<notin> set b \<Longrightarrow> n = length b \<Longrightarrow> n \<le> length a \<Longrightarrow>
     ngx_strncasecmp a b n = 0 \<longleftrightarrow> map ngx_tolower (take n a) = map ngx_tolower b"
proof (induction b arbitrary: a n)
  case (Cons d b)
  then obtain c a' where a: "a = c # a'" by (cases a) auto
  have "difference (ngx_tolower c) (ngx_tolower d) \<noteq> 0" if "ngx_tolower c \<noteq> ngx_tolower d"
    using that by (simp add: difference_def word_uint_eq_iff)
  then show ?case using Cons by (auto simp: a Let_def)
qed simp

lemma strl_short: "length s \<le> n \<Longrightarrow> ngx_strlcasestrn s needle n = None"
  by (cases s) auto

text \<open>The argument at offset \<open>q\<close>.\<close>

definition found_at :: "ngx_str \<Rightarrow> ngx_str \<Rightarrow> nat \<Rightarrow> bool" where
  "found_at args name q \<longleftrightarrow> (q = 0 \<or> args ! (q - 1) = chr CHR ''&'') \<and> named name (drop q args)"

lemma strlcasestrn_step:
  assumes "0 \<notin> set name" "name \<noteq> []" "p + length name < length args"
  shows "ngx_strlcasestrn (drop p (butlast args)) name (length name - 1) =
     (if map ngx_tolower (take (length name) (drop p args)) = map ngx_tolower name
      then Some (drop p (butlast args))
      else ngx_strlcasestrn (drop (Suc p) (butlast args)) name (length name - 1))"
proof -
  obtain d b where name: "name = d # b" using assms(2) by (cases name) auto
  have p: "p < length (butlast args)" using assms(3) name by simp
  then have c: "drop p (butlast args) = args ! p # drop (Suc p) (butlast args)"
    by (simp add: nth_butlast Cons_nth_drop_Suc [symmetric])
  have room: "length b \<le> length (drop (Suc p) (butlast args))" using assms(3) name by simp
  have "take (length b) (drop (Suc p) (butlast args)) = take (length b) (drop (Suc p) args)"
    using assms(3) name by (simp add: butlast_conv_take drop_take min.absorb1)
  moreover have "drop p args = args ! p # drop (Suc p) args"
    using assms(3) by (simp add: Cons_nth_drop_Suc [symmetric])
  ultimately show ?thesis
    using strncasecmp_zero [of b "length b" "drop (Suc p) (butlast args)"] assms(1) room
    by (auto simp: c name)
qed

lemma arg_loop_step:
  assumes "0 \<notin> set name" "name \<noteq> []" "p < length args"
  shows "arg_loop args name p =
    (if found_at args name p then Some (arg_value args p (length name)) else arg_loop args name (Suc p))"
proof (cases "p + length name < length args")
  case False
  have none: "arg_loop args name q = None" if "length args \<le> q + length name" for q
    using that assms(2) by (simp add: arg_loop.simps [of _ _ q] strl_short)
  moreover have "\<not> found_at args name p" using False by (auto simp: found_at_def named_def)
  ultimately show ?thesis using False by simp
next
  case True
  let ?m = "map ngx_tolower (take (length name) (drop p args)) = map ngx_tolower name"
  show ?thesis
  proof (cases ?m)
    case m: True
    have there: "length args - 1 - length (drop p (butlast args)) = p" using True by simp
    have found: "found_at args name p \<longleftrightarrow> (p = 0 \<or> args ! (p - 1) = chr CHR ''&'') \<and> args ! (p + length name) = chr CHR ''=''"
      using True m by (auto simp: found_at_def named_def)
    show ?thesis
      unfolding found arg_loop.simps [of args name p] strlcasestrn_step [OF assms(1,2) True] if_P [OF m]
      by (simp only: there option.case Let_def assms(3) if_True Suc_eq_plus1)
  next
    case False
    have "arg_loop args name p = arg_loop args name (Suc p)"
      using False True strlcasestrn_step [OF assms(1,2) True]
      by (simp add: arg_loop.simps [of _ _ p] arg_loop.simps [of _ _ "Suc p"] strl_short)
    then show ?thesis using False by (simp add: found_at_def named_def)
  qed
qed

declare arg_loop.simps [simp del]

lemma strlchr_rest: "length cs - length (case ngx_strlchr cs c of None \<Rightarrow> [] | Some r \<Rightarrow> r) = length (takeWhile (\<lambda>d. d \<noteq> c) cs)"
  "ngx_strlchr cs c = Some r \<Longrightarrow> length r \<le> length cs"
proof -
  show le: "ngx_strlchr cs c = Some r \<Longrightarrow> length r \<le> length cs" for cs r
    by (induction cs) (auto split: if_splits)
  show "length cs - length (case ngx_strlchr cs c of None \<Rightarrow> [] | Some r \<Rightarrow> r) = length (takeWhile (\<lambda>d. d \<noteq> c) cs)"
    by (induction cs) (auto split: option.splits dest: le)
qed

lemma arg_value_first:
  assumes "q \<le> length args"
  shows "arg_value args q len = drop (len + 1) (takeWhile (\<lambda>c. c \<noteq> chr CHR ''&'') (drop q args))"
proof -
  let ?w = "takeWhile (\<lambda>c. c \<noteq> chr CHR ''&'') (drop q args)"
  have "(case ngx_strlchr (drop q args) (chr CHR ''&'') of None \<Rightarrow> length args | Some rest \<Rightarrow> length args - length rest)
      = q + length ?w"
    using strlchr_rest(1) [of "drop q args" "chr CHR ''&''"] strlchr_rest(2) [of "drop q args" "chr CHR ''&''"] assms
    by (cases "ngx_strlchr (drop q args) (chr CHR ''&'')") auto
  moreover have "drop (len + 1) (take n (drop q args)) = take (n - (len + 1)) (drop (q + len + 1) args)" for n
    by (simp add: drop_take ac_simps)
  then have "drop (len + 1) ?w = take (length ?w - (len + 1)) (drop (q + len + 1) args)"
    by (metis takeWhile_eq_take)
  ultimately show ?thesis
    unfolding arg_value_def Let_def by simp
qed

lemma arg_loop_argument:
  assumes "0 \<notin> set name" "name \<noteq> []"
  shows "arg_loop args name p = argument_from name (p = 0 \<or> args ! (p - 1) = chr CHR ''&'') (drop p args)"
proof (induction "length args - p" arbitrary: p)
  case 0
  then show ?case by (simp add: arg_loop.simps [of _ _ p])
next
  case (Suc n)
  then have p: "p < length args" by simp
  then have cs: "drop p args = args ! p # drop (Suc p) args" by (simp add: Cons_nth_drop_Suc)
  have "arg_loop args name (Suc p) = argument_from name (args ! p = chr CHR ''&'') (drop (Suc p) args)"
    using Suc by simp
  then show ?case
    using p unfolding arg_loop_step [OF assms p] cs argument_from.simps found_at_def
    by (simp add: arg_value_first flip: cs)
qed

section \<open>Parameters of a header\<close>

text \<open>The label \<^verbatim>\<open>skip\<close>: behind the next separator, and the spaces after it.\<close>

definition spaces_skipped :: "ngx_str \<Rightarrow> ngx_str" where
  "spaces_skipped = dropWhile (\<lambda>c. c = chr CHR '' '')"

definition separator :: "u8 \<Rightarrow> bool" where
  "separator c \<longleftrightarrow> c = chr CHR '';'' \<or> c = chr CHR '',''"

definition skip_parameter :: "ngx_str \<Rightarrow> ngx_str" where
  "skip_parameter start = spaces_skipped (tl (dropWhile (\<lambda>c. \<not> separator c) start))"

lemma spaces_skipped_length: "length (spaces_skipped s) \<le> length s"
  by (simp add: spaces_skipped_def length_dropWhile_le)

lemma skip_length: "length (skip_parameter s) \<le> length s - 1"
  using spaces_skipped_length [of "tl (dropWhile (\<lambda>c. \<not> separator c) s)"] length_dropWhile_le [of "\<lambda>c. \<not> separator c" s]
  unfolding skip_parameter_def length_tl by linarith

text \<open>
  The loop over one header value: \<open>start\<close> is what is left up to \<^verbatim>\<open>end\<close>.  Without a \<open>value\<close> to
  set, the name has to stand alone.  When a character other than \<open>=\<close> follows the name, it is
  consumed before \<^verbatim>\<open>skip\<close>.
\<close>

definition header_parameter_step :: "ngx_str \<Rightarrow> bool \<Rightarrow> ngx_str \<Rightarrow> ngx_str option + ngx_str" where
  "header_parameter_step name with_value start =
     (if ngx_strncasecmp start name (length name) \<noteq> 0 then Inr (skip_parameter start)
      else
        let start = spaces_skipped (drop (length name) start) in
        if \<not> with_value then
          (if start = [] \<or> hd start = chr CHR '','' then Inl None else Inr (skip_parameter start))
        else if start = [] then Inr (skip_parameter start)
        else if hd start \<noteq> chr CHR ''='' then Inr (skip_parameter (tl start))
        else Inl (Some (takeWhile (\<lambda>c. c \<noteq> chr CHR '';'') (spaces_skipped (tl start)))))"

lemma parameter_step_shorter:
  "header_parameter_step name w start = Inr rest \<Longrightarrow> start \<noteq> [] \<Longrightarrow> length rest < length start"
proof -
  have step: "length (skip_parameter s) < length start" if "length s \<le> length start" "start \<noteq> []" for s :: ngx_str
    using skip_length [of s] that by (cases start) auto
  have after: "length (spaces_skipped (drop (length name) start)) \<le> length start"
    using spaces_skipped_length [of "drop (length name) start"] by simp
  show "header_parameter_step name w start = Inr rest \<Longrightarrow> start \<noteq> [] \<Longrightarrow> length rest < length start"
    using step after by (auto simp: header_parameter_step_def Let_def split: if_splits)
qed

function header_parameter :: "ngx_str \<Rightarrow> bool \<Rightarrow> ngx_str \<Rightarrow> ngx_str option option" where
  "header_parameter name with_value start =
     (if start = [] then None
      else case header_parameter_step name with_value start of
        Inl value \<Rightarrow> Some value
      | Inr rest \<Rightarrow> header_parameter name with_value rest)"
  by pat_completeness auto
termination
  by (relation "measure (\<lambda>(name, w, start). length start)") (auto dest: parameter_step_shorter)

declare header_parameter.simps [simp del]

text \<open>Over the header lines of the same name; the header found and the value.\<close>

fun ngx_http_parse_multi_header_lines :: "ngx_str list \<Rightarrow> ngx_str \<Rightarrow> bool \<Rightarrow> (ngx_str \<times> ngx_str option) option" where
  "ngx_http_parse_multi_header_lines [] name with_value = None"
| "ngx_http_parse_multi_header_lines (h # headers) name with_value =
     (if length name > length h then ngx_http_parse_multi_header_lines headers name with_value
      else case header_parameter name with_value h of
        Some value \<Rightarrow> Some (h, value)
      | None \<Rightarrow> ngx_http_parse_multi_header_lines headers name with_value)"

definition set_cookie_value :: "ngx_str \<Rightarrow> ngx_str \<Rightarrow> ngx_str option" where
  "set_cookie_value name h =
     (if length name \<ge> length h then None
      else if ngx_strncasecmp h name (length name) \<noteq> 0 then None
      else
        let start = spaces_skipped (drop (length name) h) in
        if start = [] \<or> hd start \<noteq> chr CHR ''='' then None
        else Some (takeWhile (\<lambda>c. c \<noteq> chr CHR '';'') (spaces_skipped (tl start))))"

fun ngx_http_parse_set_cookie_lines :: "ngx_str list \<Rightarrow> ngx_str \<Rightarrow> (ngx_str \<times> ngx_str) option" where
  "ngx_http_parse_set_cookie_lines [] name = None"
| "ngx_http_parse_set_cookie_lines (h # headers) name =
     (case set_cookie_value name h of
        Some value \<Rightarrow> Some (h, value)
      | None \<Rightarrow> ngx_http_parse_set_cookie_lines headers name)"

section \<open>The cookies of a request\<close>

text \<open>As a browser sends them.\<close>

fun cookie_header :: "(ngx_str \<times> ngx_str) list \<Rightarrow> ngx_str" where
  "cookie_header [] = []"
| "cookie_header [(n, v)] = n @ bytes ''='' @ v"
| "cookie_header ((n, v) # cs) = n @ bytes ''='' @ v @ bytes ''; '' @ cookie_header cs"

definition cookie_name :: "ngx_str \<Rightarrow> bool" where
  "cookie_name n \<longleftrightarrow> n \<noteq> [] \<and> (\<forall>c\<in>set n. c \<noteq> 0 \<and> c \<noteq> chr CHR '' '' \<and> c \<noteq> chr CHR ''='' \<and> \<not> separator c)"

definition cookie_value :: "ngx_str \<Rightarrow> bool" where
  "cookie_value v \<longleftrightarrow> (\<forall>c\<in>set v. \<not> separator c) \<and> (v \<noteq> [] \<longrightarrow> hd v \<noteq> chr CHR '' '')"

definition same_name :: "ngx_str \<Rightarrow> ngx_str \<Rightarrow> bool" where
  "same_name a b \<longleftrightarrow> map ngx_tolower a = map ngx_tolower b"

lemma tolower_special: "ngx_tolower c = chr CHR ''='' \<longleftrightarrow> c = chr CHR ''=''"
proof -
  have "\<forall>c. ngx_tolower c = 61 \<longleftrightarrow> c = 61" unfolding all_byte by (simp add: ngx_tolower_def upto_rec1)
  then show ?thesis by simp
qed

text \<open>Where the comparison of a prefix succeeds.\<close>

lemma difference_iff: "difference a b = 0 \<longleftrightarrow> a = b"
  by (simp add: difference_def word_uint_eq_iff)

lemma strncasecmp_long: "0 \<notin> set b \<Longrightarrow> length a < length b \<Longrightarrow> ngx_strncasecmp a b (length b) \<noteq> 0"
proof (induction b arbitrary: a)
  case (Cons d b)
  then show ?case
    by (cases a) (auto simp: Let_def difference_iff)
qed simp

lemma strncasecmp_prefix:
  "0 \<notin> set b \<Longrightarrow> ngx_strncasecmp a b (length b) = 0 \<longleftrightarrow>
     length b \<le> length a \<and> map ngx_tolower (take (length b) a) = map ngx_tolower b"
  using strncasecmp_zero [of b "length b" a] strncasecmp_long [of b a] by (cases "length b \<le> length a") auto

text \<open>From anywhere in a cookie \<^verbatim>\<open>skip\<close> leads to the next one.\<close>

lemma skip_to_next:
  assumes "\<forall>c\<in>set xs. \<not> separator c"
  shows "skip_parameter xs = []" "ys = [] \<or> hd ys \<noteq> chr CHR '' '' \<Longrightarrow> skip_parameter (xs @ bytes ''; '' @ ys) = ys"
proof -
  have none: "dropWhile (\<lambda>c. \<not> separator c) xs = []" using assms by simp
  show "skip_parameter xs = []" unfolding skip_parameter_def none by (simp add: spaces_skipped_def)
  have "dropWhile (\<lambda>c. \<not> separator c) (xs @ bytes ''; '' @ ys) = bytes ''; '' @ ys"
    using assms by (simp add: dropWhile_append2 separator_def)
  then show "ys = [] \<or> hd ys \<noteq> chr CHR '' '' \<Longrightarrow> skip_parameter (xs @ bytes ''; '' @ ys) = ys"
    by (cases ys) (auto simp: skip_parameter_def spaces_skipped_def)
qed

lemma equals_plain: "\<not> separator (chr CHR ''='')" "chr CHR ''='' \<noteq> chr CHR '' ''"
  by (simp_all add: separator_def)

lemma name_value_plain: "cookie_name n \<Longrightarrow> cookie_value v \<Longrightarrow> \<forall>c\<in>set (n @ bytes ''='' @ v). \<not> separator c"
  using equals_plain by (auto simp: cookie_name_def cookie_value_def)

text \<open>One cookie, with what follows it: \<open>t\<close> is empty or the separator and the next cookies.\<close>

lemma cookie_taken:
  assumes "cookie_name n" "cookie_name name" "cookie_value v" "same_name n name" "t = [] \<or> (\<exists>ys. t = bytes ''; '' @ ys)"
  shows "header_parameter_step name True (n @ bytes ''='' @ v @ t) = Inl (Some v)"
proof -
  have len: "length n = length name" using assms(4) by (auto simp: same_name_def dest: map_eq_imp_length_eq)
  have zero: "ngx_strncasecmp (n @ bytes ''='' @ v @ t) name (length name) = 0"
    using assms(2,4) len by (subst strncasecmp_prefix) (auto simp: cookie_name_def same_name_def)
  have start: "spaces_skipped (drop (length name) (n @ bytes ''='' @ v @ t)) = bytes ''='' @ v @ t"
    using len by (simp add: spaces_skipped_def)
  have "spaces_skipped (v @ t) = v @ t"
    using assms(3,5) by (cases v) (auto simp: spaces_skipped_def cookie_value_def)
  moreover have "takeWhile (\<lambda>c. c \<noteq> chr CHR '';'') (v @ t) = v"
    using assms(3,5) by (auto simp: cookie_value_def separator_def takeWhile_append2)
  ultimately show ?thesis using zero start by (simp add: header_parameter_step_def)
qed

lemma cookie_skipped:
  assumes "cookie_name n" "cookie_name name" "cookie_value v" "\<not> same_name n name"
  obtains xs where "\<forall>c\<in>set xs. \<not> separator c"
    "\<And>t. header_parameter_step name True (n @ bytes ''='' @ v @ t) = Inr (skip_parameter (xs @ t))"
proof -
  let ?w = "n @ bytes ''='' @ v"
  have plain: "\<forall>c\<in>set ?w. \<not> separator c" by (rule name_value_plain [OF assms(1,3)])
  show ?thesis
  proof (cases "length name < length n \<and> map ngx_tolower (take (length name) n) = map ngx_tolower name")
    case True
    define n' where "n' = drop (length name) n"
    obtain c m where n': "n' = c # m" using True by (cases n') (auto simp: n'_def)
    have "c \<in> set n" using n' in_set_dropD [of c "length name" n] by (simp add: n'_def)
    then have c: "c \<noteq> chr CHR '' ''" "c \<noteq> chr CHR ''=''" using assms(1) by (auto simp: cookie_name_def)
    have "header_parameter_step name True (?w @ t) = Inr (skip_parameter ((m @ bytes ''='' @ v) @ t))" for t
    proof -
      have "ngx_strncasecmp (?w @ t) name (length name) = 0"
        using assms(2) True by (subst strncasecmp_prefix) (auto simp: cookie_name_def)
      moreover have "drop (length name) (?w @ t) = c # m @ bytes ''='' @ v @ t"
        using True n' by (simp add: n'_def)
      ultimately show ?thesis using c by (simp add: header_parameter_step_def spaces_skipped_def)
    qed
    moreover have "\<forall>d\<in>set (m @ bytes ''='' @ v). \<not> separator d"
      using plain n' in_set_dropD [of _ "length name" n] by (auto simp: n'_def)
    ultimately show ?thesis using that [of "m @ bytes ''='' @ v"] by simp
  next
    case False
    have "ngx_strncasecmp (?w @ t) name (length name) \<noteq> 0" for t
    proof
      assume "ngx_strncasecmp (?w @ t) name (length name) = 0"
      then have match: "length name \<le> length (?w @ t)" "map ngx_tolower (take (length name) (?w @ t)) = map ngx_tolower name"
        using assms(2) strncasecmp_prefix [of name] by (auto simp: cookie_name_def)
      consider "length name \<le> length n" | "length n < length name" by linarith
      then show False
      proof cases
        case 1
        then have "map ngx_tolower (take (length name) n) = map ngx_tolower name" using match(2) by simp
        with 1 False assms(4) show False by (auto simp: same_name_def)
      next
        case 2
        have "map ngx_tolower (take (length name) (?w @ t)) ! length n = ngx_tolower (chr CHR ''='')"
          using 2 match(1) by (simp add: nth_append)
        then have "ngx_tolower (name ! length n) = chr CHR ''=''"
          using match(2) 2 by (simp add: ngx_tolower_def [of 61])
        then show False using assms(2) 2 unfolding tolower_special by (auto simp: cookie_name_def)
      qed
    qed
    then show ?thesis using that [of ?w] plain by (simp add: header_parameter_step_def)
  qed
qed

lemma cookie_header_Cons: "cookie_header ((n, v) # cs) = n @ bytes ''='' @ v @ (if cs = [] then [] else bytes ''; '' @ cookie_header cs)"
  by (cases cs) simp_all

lemma cookie_header_start: "\<forall>(n, v)\<in>set cs. cookie_name n \<Longrightarrow> cookie_header cs = [] \<or> hd (cookie_header cs) \<noteq> chr CHR '' ''"
proof (cases cs)
  case (Cons c cs')
  moreover assume "\<forall>(n, v)\<in>set cs. cookie_name n"
  ultimately show ?thesis by (cases c; cases "fst c") (auto simp: cookie_header_Cons cookie_name_def)
qed simp

lemma cookie_lookup:
  "\<forall>(n, v)\<in>set cs. cookie_name n \<and> cookie_value v \<Longrightarrow> cookie_name name \<Longrightarrow>
   header_parameter name True (cookie_header cs) = map_option (\<lambda>(n, v). Some v) (find (\<lambda>(n, v). same_name n name) cs)"
proof (induction cs)
  case Nil
  then show ?case by (simp add: header_parameter.simps)
next
  case (Cons c cs)
  obtain n v where c: "c = (n, v)" by (cases c)
  have nv: "cookie_name n" "cookie_value v" using Cons.prems(1) c by auto
  define t where "t = (if cs = [] then [] else bytes ''; '' @ cookie_header cs)"
  have cookie: "cookie_header (c # cs) = n @ bytes ''='' @ v @ t" by (simp add: c cookie_header_Cons t_def)
  have some: "n @ bytes ''='' @ v @ t \<noteq> []" by simp
  show ?case
  proof (cases "same_name n name")
    case True
    have "t = [] \<or> (\<exists>ys. t = bytes ''; '' @ ys)" by (auto simp: t_def)
    from cookie_taken [OF nv(1) Cons.prems(2) nv(2) True this] show ?thesis
      using True c some unfolding cookie by (simp add: header_parameter.simps)
  next
    case False
    obtain xs where xs: "\<forall>c\<in>set xs. \<not> separator c"
        "\<And>t. header_parameter_step name True (n @ bytes ''='' @ v @ t) = Inr (skip_parameter (xs @ t))"
      using cookie_skipped [OF nv(1) Cons.prems(2) nv(2) False] by blast
    have "cookie_header cs = [] \<or> hd (cookie_header cs) \<noteq> chr CHR '' ''"
      by (rule cookie_header_start) (use Cons.prems(1) in auto)
    then have "skip_parameter (xs @ t) = cookie_header cs"
      using skip_to_next [OF xs(1)] by (auto simp: t_def)
    then have "header_parameter name True (cookie_header (c # cs)) = header_parameter name True (cookie_header cs)"
      using some xs(2) [of t] unfolding cookie by (subst header_parameter.simps) simp
    then show ?thesis using Cons False c by simp
  qed
qed

lemma cookie_room: "(n, v) \<in> set cs \<Longrightarrow> length n < length (cookie_header cs)"
  by (induction cs) (auto simp: cookie_header_Cons)

section \<open>Properties\<close>

text \<open>C31: \<^verbatim>\<open>ngx_http_arg\<close> gives the value of the first argument between ampersands that begins with
  the name, in any case, and an equals sign, and declines when there is none: the search for
  the name as a substring, which may first find it inside another name or a value, misses
  none and takes no other.\<close>

theorem http_arg_correct:
  assumes "name \<noteq> []" "0 \<notin> set name" "chr CHR ''&'' \<notin> set name"
  shows "ngx_http_arg args name = argument args name"
proof -
  have "argument [] name = None" by (simp add: argument_def named_def)
  then show ?thesis
    using arg_loop_argument [OF assms(2,1), of args 0] argument_from(1) [OF assms(3,1), of args]
    by (simp add: ngx_http_arg_def)
qed

theorem http_arg_correct_witness:
  "ngx_http_arg (bytes ''xid=1&y=id=2&ID=3&id=4'') (bytes ''id'') = Some (bytes ''3'')"
proof -
  have "argument_from (bytes ''id'') True (bytes ''xid=1&y=id=2&ID=3&id=4'') = Some (bytes ''3'')"
    by (simp add: named_def ngx_tolower_def)
  then have "argument (bytes ''xid=1&y=id=2&ID=3&id=4'') (bytes ''id'') = Some (bytes ''3'')"
    by (subst argument_from(1) [symmetric]) simp_all
  moreover have "ngx_http_arg (bytes ''xid=1&y=id=2&ID=3&id=4'') (bytes ''id'') = argument (bytes ''xid=1&y=id=2&ID=3&id=4'') (bytes ''id'')"
    by (rule http_arg_correct) simp_all
  ultimately show ?thesis by (rule trans [rotated])
qed

text \<open>\<^verbatim>\<open>ngx_http_parse_multi_header_lines\<close> reads the \<^verbatim>\<open>Cookie\<close> line that a browser sends: it finds
  the value of the first cookie with the name, in any case, and no other, for cookies whose names
  and values hold no separator.\<close>

theorem cookie_round_trip:
  assumes "\<forall>(n, v)\<in>set cookies. cookie_name n \<and> cookie_value v" "cookie_name name"
  shows "ngx_http_parse_multi_header_lines [cookie_header cookies] name True =
    map_option (\<lambda>(n, v). (cookie_header cookies, Some v)) (find (\<lambda>(n, v). same_name n name) cookies)"
proof (cases "find (\<lambda>(n, v). same_name n name) cookies")
  case None
  then show ?thesis using cookie_lookup [OF assms] by simp
next
  case (Some c)
  obtain n v where c: "c = (n, v)" by (cases c)
  with Some have "(n, v) \<in> set cookies" "same_name n name" by (auto simp: find_Some_iff in_set_conv_nth)
  then have "length name \<le> length (cookie_header cookies)"
    using cookie_room [of n v cookies] by (auto simp: same_name_def dest!: map_eq_imp_length_eq)
  then show ?thesis using cookie_lookup [OF assms] Some c by simp
qed

theorem cookie_round_trip_witness:
  "ngx_http_parse_multi_header_lines [bytes ''sid=1; id=a=b; ID=3''] (bytes ''Id'') True
     = Some (bytes ''sid=1; id=a=b; ID=3'', Some (bytes ''a=b''))"
  using cookie_round_trip [of "[(bytes ''sid'', bytes ''1''), (bytes ''id'', bytes ''a=b''), (bytes ''ID'', bytes ''3'')]" "bytes ''Id''"]
  by (simp add: cookie_name_def cookie_value_def separator_def same_name_def ngx_tolower_def del: ngx_http_parse_multi_header_lines.simps)

text \<open>
  A cookie without an equals sign hides the one after it: the separator is consumed as the
  character that is not \<open>=\<close>, and \<^verbatim>\<open>skip\<close> goes on to the separator behind the next cookie.
\<close>

lemma cookie_hidden: "ngx_http_parse_multi_header_lines [bytes ''id; id=1''] (bytes ''id'') True = None"
  by (simp add: header_parameter.simps header_parameter_step_def skip_parameter_def spaces_skipped_def separator_def
      ngx_tolower_def difference_def)

end
