(* ===== verification/Ngx_Radix.thy ===== *)
theory Ngx_Radix
  imports Ngx_Prelude "HOL-Library.Sublist"
begin

text \<open>
  The radix tree of \<^verbatim>\<open>core/ngx_radix_tree.c\<close>, which the geo, realip and access code searches
  for the network of an address.  A node is a value with its two children; the parent
  pointers, which only \<^verbatim>\<open>ngx_radix32tree_delete\<close> follows, are the recursion.  The contract is
  a map from prefixes (the bits below the mask) to values and a lookup of the longest one.
\<close>

section \<open>The tree and its memory\<close>

definition NGX_RADIX_NO_VALUE :: u64 where
  "NGX_RADIX_NO_VALUE = - 1"

datatype radix = Null | Node (left: radix) (val: u64) (right: radix)

text \<open>
  What \<^verbatim>\<open>ngx_radix_alloc\<close> takes its nodes from: the list of freed nodes, the rest of the page
  (\<^verbatim>\<open>size\<close> over the size of a node) and the pages that the pool can still give.
\<close>

record radix_memory =
  freed :: nat
  room :: nat
  pages :: nat

definition page_nodes :: nat where
  "page_nodes = 4096 div 32"

definition ngx_radix_alloc :: "radix_memory \<Rightarrow> radix_memory option" where
  "ngx_radix_alloc m =
     (if freed m \<noteq> 0 then Some (m\<lparr>freed := freed m - 1\<rparr>)
      else if room m = 0 then
        (if pages m = 0 then None else Some (m\<lparr>pages := pages m - 1, room := page_nodes - 1\<rparr>))
      else Some (m\<lparr>room := room m - 1\<rparr>))"

section \<open>The bits of a key\<close>

text \<open>
  The loops \<^verbatim>\<open>while (bit & mask)\<close> test the bits of the key from the highest down, each with
  whether it is set; \<open>path\<close> lists them.
\<close>

lemma shift_less: "b \<noteq> 0 \<Longrightarrow> unat (drop_bit 1 b) < unat (b :: 'a::len word)"
proof -
  assume "b \<noteq> 0"
  then have "0 < unat b" by (simp add: unat_gt_0)
  moreover have "unat (drop_bit 1 b) = unat b div 2"
    unfolding unat_drop_bit_eq by (simp add: drop_bit_Suc)
  ultimately show ?thesis by simp
qed

function path32 :: "u32 \<Rightarrow> u32 \<Rightarrow> u32 \<Rightarrow> bool list" where
  "path32 key msk b =
     (if b AND msk \<noteq> 0 then (key AND b \<noteq> 0) # path32 key msk (drop_bit 1 b) else [])"
  by pat_completeness auto
termination
proof (relation "measure (\<lambda>(key, msk, b). unat b)")
  fix key msk b :: u32
  assume "b AND msk \<noteq> 0"
  then have "b \<noteq> 0" by auto
  then show "((key, msk, drop_bit 1 b), key, msk, b) \<in> measure (\<lambda>(key, msk, b). unat b)"
    using shift_less [of b] by simp
qed simp

declare path32.simps [simp del]

text \<open>In sixteen bytes, with the offset of the byte; \<^verbatim>\<open>break\<close> at the last one.\<close>

function path128 :: "ngx_str \<Rightarrow> ngx_str \<Rightarrow> nat \<Rightarrow> u8 \<Rightarrow> bool list" where
  "path128 key msk i b =
     (if i < 16 \<and> b AND msk ! i \<noteq> 0 then
        (key ! i AND b \<noteq> 0) #
          (if drop_bit 1 b = 0 then (if i + 1 = 16 then [] else path128 key msk (i + 1) 0x80)
           else path128 key msk i (drop_bit 1 b))
      else [])"
  by pat_completeness auto
termination
proof (relation "measures [\<lambda>(key, msk, i, b). 16 - i, \<lambda>(key, msk, i, b). unat b]")
  fix key msk :: ngx_str and i and b :: u8
  assume "i < 16 \<and> b AND msk ! i \<noteq> 0"
  then have "b \<noteq> 0" by auto
  then show "((key, msk, i, drop_bit 1 b), key, msk, i, b) \<in>
      measures [\<lambda>(key, msk, i, b). 16 - i, \<lambda>(key, msk, i, b). unat b]"
    using shift_less [of b] by simp
qed auto

declare path128.simps [simp del]

section \<open>Insertion\<close>

text \<open>The second loop: a chain of new nodes below an empty link, which stays when memory ends.\<close>

fun radix_grow :: "bool list \<Rightarrow> u64 \<Rightarrow> radix_memory \<Rightarrow> ngx_rc \<times> radix \<times> radix_memory" where
  "radix_grow [] v m =
     (case ngx_radix_alloc m of None \<Rightarrow> (NGX_ERROR, Null, m) | Some m \<Rightarrow> (NGX_OK, Node Null v Null, m))"
| "radix_grow (b # bs) v m =
     (case ngx_radix_alloc m of
        None \<Rightarrow> (NGX_ERROR, Null, m)
      | Some m \<Rightarrow>
          (case radix_grow bs v m of
             (rc, t, m) \<Rightarrow> (rc, if b then Node Null NGX_RADIX_NO_VALUE t else Node t NGX_RADIX_NO_VALUE Null, m)))"

fun radix_insert :: "bool list \<Rightarrow> u64 \<Rightarrow> radix \<Rightarrow> radix_memory \<Rightarrow> ngx_rc \<times> radix \<times> radix_memory" where
  "radix_insert bs v Null m = radix_grow bs v m"
| "radix_insert [] v (Node l x r) m =
     (if x \<noteq> NGX_RADIX_NO_VALUE then (NGX_BUSY, Node l x r, m) else (NGX_OK, Node l v r, m))"
| "radix_insert (b # bs) v (Node l x r) m =
     (if b then (case radix_insert bs v r m of (rc, r, m) \<Rightarrow> (rc, Node l x r, m))
      else (case radix_insert bs v l m of (rc, l, m) \<Rightarrow> (rc, Node l x r, m)))"

section \<open>Deletion\<close>

text \<open>
  A node without children is unlinked, and after it every node above that is left without
  children and value, but not the root.  \<open>None\<close> is the node that is gone.  Deleting the root
  itself when it has no children follows its null parent; that is \<open>radix_crash\<close>.
\<close>

datatype delete_result = radix_done ngx_rc radix radix_memory | radix_crash

definition is_leaf :: "radix \<Rightarrow> bool" where
  "is_leaf t \<longleftrightarrow> left t = Null \<and> right t = Null"

definition release :: "radix_memory \<Rightarrow> radix_memory" where
  "release m = m\<lparr>freed := freed m + 1\<rparr>"

text \<open>The loop up: what becomes of a node whose child has been unlinked, below the root.\<close>

definition prune :: "bool \<Rightarrow> radix \<times> radix_memory \<Rightarrow> radix \<times> radix_memory" where
  "prune root tm =
     (case tm of (t, m) \<Rightarrow>
        if \<not> root \<and> is_leaf t \<and> val t = NGX_RADIX_NO_VALUE then (Null, release m) else (t, m))"

fun radix_delete :: "bool \<Rightarrow> bool list \<Rightarrow> radix \<Rightarrow> radix_memory \<Rightarrow> delete_result" where
  "radix_delete root bs Null m = radix_done NGX_ERROR Null m"
| "radix_delete root [] (Node l x r) m =
     (if r \<noteq> Null \<or> l \<noteq> Null then
        (if x \<noteq> NGX_RADIX_NO_VALUE then radix_done NGX_OK (Node l NGX_RADIX_NO_VALUE r) m
         else radix_done NGX_ERROR (Node l x r) m)
      else if root then radix_crash
      else radix_done NGX_OK Null (release m))"
| "radix_delete root (b # bs) (Node l x r) m =
     (case radix_delete False bs (if b then r else l) m of
        radix_crash \<Rightarrow> radix_crash
      | radix_done rc t m' \<Rightarrow>
          (let n = (if b then Node l x t else Node t x r) in
           if (if b then r else l) \<noteq> Null \<and> t = Null
           then (case prune root (n, m') of (n, m') \<Rightarrow> radix_done rc n m')
           else radix_done rc n m'))"

section \<open>Search\<close>

fun radix32_find :: "u32 \<Rightarrow> u32 \<Rightarrow> u64 \<Rightarrow> radix \<Rightarrow> u64" where
  "radix32_find key b v Null = v"
| "radix32_find key b v (Node l x r) =
     radix32_find key (drop_bit 1 b) (if x \<noteq> NGX_RADIX_NO_VALUE then x else v) (if key AND b \<noteq> 0 then r else l)"

text \<open>\<open>key\<close> is the memory at the pointer: below a node of the full depth its byte 16 is read.\<close>

fun radix128_find :: "ngx_str \<Rightarrow> nat \<Rightarrow> u8 \<Rightarrow> u64 \<Rightarrow> radix \<Rightarrow> u64" where
  "radix128_find key i b v Null = v"
| "radix128_find key i b v (Node l x r) =
     radix128_find key (if drop_bit 1 b = 0 then i + 1 else i) (if drop_bit 1 b = 0 then 0x80 else drop_bit 1 b)
       (if x \<noteq> NGX_RADIX_NO_VALUE then x else v) (if key ! i AND b \<noteq> 0 then r else l)"

section \<open>The interface\<close>

definition ngx_radix32tree_insert :: "u32 \<Rightarrow> u32 \<Rightarrow> u64 \<Rightarrow> radix \<Rightarrow> radix_memory \<Rightarrow> ngx_rc \<times> radix \<times> radix_memory" where
  "ngx_radix32tree_insert key msk v t m = radix_insert (path32 key msk 0x80000000) v t m"

definition ngx_radix32tree_delete :: "u32 \<Rightarrow> u32 \<Rightarrow> radix \<Rightarrow> radix_memory \<Rightarrow> delete_result" where
  "ngx_radix32tree_delete key msk t m = radix_delete True (path32 key msk 0x80000000) t m"

definition ngx_radix32tree_find :: "u32 \<Rightarrow> radix \<Rightarrow> u64" where
  "ngx_radix32tree_find key t = radix32_find key 0x80000000 NGX_RADIX_NO_VALUE t"

definition ngx_radix128tree_insert :: "ngx_str \<Rightarrow> ngx_str \<Rightarrow> u64 \<Rightarrow> radix \<Rightarrow> radix_memory \<Rightarrow> ngx_rc \<times> radix \<times> radix_memory" where
  "ngx_radix128tree_insert key msk v t m = radix_insert (path128 key msk 0 0x80) v t m"

definition ngx_radix128tree_delete :: "ngx_str \<Rightarrow> ngx_str \<Rightarrow> radix \<Rightarrow> radix_memory \<Rightarrow> delete_result" where
  "ngx_radix128tree_delete key msk t m = radix_delete True (path128 key msk 0 0x80) t m"

definition ngx_radix128tree_find :: "ngx_str \<Rightarrow> radix \<Rightarrow> u64" where
  "ngx_radix128tree_find key t = radix128_find key 0 0x80 NGX_RADIX_NO_VALUE t"

text \<open>
  A new tree is a root; with \<open>preallocate\<close> the nodes of that many first bits are made, each
  insertion without a value, for the keys of a depth until \<^verbatim>\<open>key += inc\<close> wraps round to zero.
\<close>

definition prealloc_keys :: "u32 \<Rightarrow> u32 list" where
  "prealloc_keys inc = map (\<lambda>k. of_nat k * inc) [0..<2 ^ 32 div unat inc]"

fun prealloc_level :: "u32 list \<Rightarrow> u32 \<Rightarrow> radix \<Rightarrow> radix_memory \<Rightarrow> (radix \<times> radix_memory) option" where
  "prealloc_level [] msk t m = Some (t, m)"
| "prealloc_level (key # keys) msk t m =
     (case ngx_radix32tree_insert key msk NGX_RADIX_NO_VALUE t m of
        (rc, t, m) \<Rightarrow> if rc \<noteq> NGX_OK then None else prealloc_level keys msk t m)"

fun prealloc :: "nat \<Rightarrow> u32 \<Rightarrow> u32 \<Rightarrow> radix \<Rightarrow> radix_memory \<Rightarrow> (radix \<times> radix_memory) option" where
  "prealloc 0 msk inc t m = Some (t, m)"
| "prealloc (Suc n) msk inc t m =
     (let msk = drop_bit 1 msk OR 0x80000000 in
      case prealloc_level (prealloc_keys inc) msk t m of
        None \<Rightarrow> None
      | Some (t, m) \<Rightarrow> prealloc n msk (drop_bit 1 inc) t m)"

definition ngx_radix_tree_create :: "int \<Rightarrow> nat \<Rightarrow> (radix \<times> radix_memory) option" where
  "ngx_radix_tree_create preallocate pool_pages =
     (case ngx_radix_alloc \<lparr>freed = 0, room = 0, pages = pool_pages\<rparr> of
        None \<Rightarrow> None
      | Some m \<Rightarrow> prealloc (if preallocate = - 1 then 6 else nat preallocate) 0 0x80000000
          (Node Null NGX_RADIX_NO_VALUE Null) m)"

section \<open>The tree as a map from prefixes\<close>

definition entry :: "u64 \<Rightarrow> u64 option" where
  "entry v = (if v = NGX_RADIX_NO_VALUE then None else Some v)"

fun value_at :: "radix \<Rightarrow> bool list \<Rightarrow> u64 option" where
  "value_at Null p = None"
| "value_at (Node l x r) [] = entry x"
| "value_at (Node l x r) (b # bs) = value_at (if b then r else l) bs"

fun depth :: "radix \<Rightarrow> nat" where
  "depth Null = 0"
| "depth (Node l x r) = Suc (max (depth l) (depth r))"

lemma depth_Null [simp]: "depth t = 0 \<longleftrightarrow> t = Null"
  by (cases t) simp_all

lemma no_entry [simp]: "entry NGX_RADIX_NO_VALUE = None"
  by (simp add: entry_def)

lemma leaf_value_at: "value_at (Node Null x Null) p = (if p = [] then entry x else None)"
  by (cases p) simp_all

lemma grow_map:
  "radix_grow bs v m = (rc, t, m') \<Longrightarrow>
     value_at t = (if rc = NGX_OK then (\<lambda>p. None)(bs := entry v) else (\<lambda>p. None))
     \<and> rc \<in> {NGX_OK, NGX_ERROR} \<and> depth t \<le> Suc (length bs)"
proof (induction bs arbitrary: rc t m m')
  case Nil
  then show ?case by (auto simp: leaf_value_at split: option.splits)
next
  case (Cons b bs)
  show ?case
  proof (cases "ngx_radix_alloc m")
    case None
    then show ?thesis using Cons.prems by auto
  next
    case (Some m1)
    obtain rc1 t1 m2 where g: "radix_grow bs v m1 = (rc1, t1, m2)" by (cases "radix_grow bs v m1")
    note IH = Cons.IH [OF g]
    have t: "rc = rc1" "t = (if b then Node Null NGX_RADIX_NO_VALUE t1 else Node t1 NGX_RADIX_NO_VALUE Null)"
      using Cons.prems Some g by auto
    have "value_at t p = (if rc = NGX_OK then (\<lambda>p. None)(b # bs := entry v) else (\<lambda>p. None)) p" for p
      using IH t by (cases p) auto
    then show ?thesis using IH t by auto
  qed
qed

lemma insert_map:
  "radix_insert bs v t m = (rc, t', m') \<Longrightarrow>
     value_at t' = (if rc = NGX_OK then (value_at t)(bs := entry v) else value_at t)
     \<and> rc \<in> {NGX_OK, NGX_BUSY, NGX_ERROR} \<and> (rc = NGX_BUSY \<longleftrightarrow> value_at t bs \<noteq> None)
     \<and> depth t' \<le> max (depth t) (Suc (length bs))"
proof (induction bs v t m arbitrary: rc t' m' rule: radix_insert.induct)
  case (1 bs v m)
  have "value_at Null = (\<lambda>p. None)" by (rule ext) simp
  then show ?case using grow_map [of bs v m rc t' m'] 1 by auto
next
  case (2 v l x r m)
  have "value_at (Node l v r) p = ((value_at (Node l x r))([] := entry v)) p" for p by (cases p) simp_all
  then show ?case using 2 by (auto simp: entry_def split: if_splits)
next
  case (3 b bs v l x r m)
  show ?case
  proof (cases b)
    case True
    obtain rc1 t1 m2 where i: "radix_insert bs v r m = (rc1, t1, m2)" by (cases "radix_insert bs v r m")
    note IH = 3(1) [OF True i]
    have t: "rc = rc1" "t' = Node l x t1" using 3(3) True i by auto
    have "value_at t' p = (if rc = NGX_OK then (value_at (Node l x r))(b # bs := entry v) else value_at (Node l x r)) p" for p
      using IH t True by (cases p) auto
    then show ?thesis using IH t True by auto
  next
    case False
    obtain rc1 t1 m2 where i: "radix_insert bs v l m = (rc1, t1, m2)" by (cases "radix_insert bs v l m")
    note IH = 3(2) [OF False i]
    have t: "rc = rc1" "t' = Node t1 x r" using 3(3) False i by auto
    have "value_at t' p = (if rc = NGX_OK then (value_at (Node l x r))(b # bs := entry v) else value_at (Node l x r)) p" for p
      using IH t False by (cases p) auto
    then show ?thesis using IH t False by auto
  qed
qed

lemma delete_map:
  "radix_delete root bs t m = radix_done rc t' m' \<Longrightarrow>
     value_at t' = (value_at t)(bs := None) \<and> rc \<in> {NGX_OK, NGX_ERROR}
     \<and> (rc = NGX_ERROR \<longrightarrow> t' = t \<and> m' = m) \<and> (value_at t bs \<noteq> None \<longrightarrow> rc = NGX_OK) \<and> depth t' \<le> depth t"
proof (induction root bs t m arbitrary: rc t' m' rule: radix_delete.induct)
  case (1 root bs m)
  have "value_at Null = (\<lambda>p. None)" by (rule ext) simp
  then show ?case using 1 by auto
next
  case (2 root l x r m)
  have "value_at (Node l NGX_RADIX_NO_VALUE r) p = ((value_at (Node l x r))([] := None)) p" for p by (cases p) simp_all
  moreover have "((value_at (Node Null x Null))([] := None)) p = value_at Null p" for p by (cases p) simp_all
  ultimately show ?case using 2 by (auto simp: entry_def split: if_splits)
next
  case (3 root b bs l x r m)
  let ?c = "if b then r else l"
  obtain rc1 t1 m1 where d: "radix_delete False bs ?c m = radix_done rc1 t1 m1"
    using 3(2) by (cases "radix_delete False bs ?c m") auto
  note IH = 3(1) [OF d]
  let ?n = "if b then Node l x t1 else Node t1 x r"
  have n: "value_at ?n p = ((value_at (Node l x r))(b # bs := None)) p" for p
    using IH by (cases p; cases b) auto
  have dn: "depth ?n \<le> depth (Node l x r)" using IH by (cases b) auto
  show ?case
  proof (cases "?c \<noteq> Null \<and> t1 = Null \<and> \<not> root \<and> is_leaf ?n \<and> x = NGX_RADIX_NO_VALUE")
    case True
    then have "t' = Null" "rc = rc1" using 3(2) d by (auto simp: prune_def Let_def split: if_splits)
    moreover have "?n = Node Null NGX_RADIX_NO_VALUE Null" using True by (cases b) (auto simp: is_leaf_def)
    moreover have "rc1 \<noteq> NGX_ERROR" using IH True by auto
    moreover have "value_at (Node Null NGX_RADIX_NO_VALUE Null) p = value_at Null p" for p by (cases p) simp_all
    ultimately show ?thesis using n IH by (auto simp flip: fun_eq_iff)
  next
    case False
    then have "t' = ?n" "rc = rc1" "m' = m1"
      using 3(2) d by (auto simp: prune_def Let_def is_leaf_def split: if_splits)
    then show ?thesis using n dn IH by (cases b) auto
  qed
qed

lemma delete_crash: "radix_delete root bs t m = radix_crash \<longleftrightarrow> root \<and> bs = [] \<and> t \<noteq> Null \<and> is_leaf t"
proof (induction root bs t m rule: radix_delete.induct)
  case (3 root b bs l x r m)
  then show ?case by (auto simp: prune_def Let_def split: delete_result.split if_splits prod.splits)
qed (auto simp: is_leaf_def)

section \<open>The longest prefix\<close>

fun find_bits :: "bool list \<Rightarrow> u64 \<Rightarrow> radix \<Rightarrow> u64" where
  "find_bits ks v Null = v"
| "find_bits [] v (Node l x r) = (if x \<noteq> NGX_RADIX_NO_VALUE then x else v)"
| "find_bits (k # ks) v (Node l x r) =
     find_bits ks (if x \<noteq> NGX_RADIX_NO_VALUE then x else v) (if k then r else l)"

lemma value_at_entry: "value_at t p = Some x \<Longrightarrow> entry x = Some x"
  by (induction t p rule: value_at.induct) (auto simp: entry_def split: if_splits)

text \<open>The prefixes of a key that have a value, the shortest first.\<close>

abbreviation hits :: "radix \<Rightarrow> bool list \<Rightarrow> bool list list" where
  "hits t ks \<equiv> filter (\<lambda>p. value_at t p \<noteq> None) (prefixes ks)"

lemma find_bits_hits: "find_bits ks v t = (if hits t ks = [] then v else the (value_at t (last (hits t ks))))"
proof (induction ks v t rule: find_bits.induct)
  case (3 k ks v l x r)
  let ?c = "if k then r else l"
  have "hits (Node l x r) (k # ks) = (if entry x = None then [] else [[]]) @ map ((#) k) (hits ?c ks)"
    by (simp add: filter_map o_def)
  then show ?case
    using 3 by (auto simp: entry_def last_map split: if_splits)
qed (auto simp: entry_def)

lemma sorted_wrt_last: "sorted_wrt R xs \<Longrightarrow> x \<in> set xs \<Longrightarrow> x \<noteq> last xs \<Longrightarrow> R x (last xs)"
  by (cases xs rule: rev_cases) (auto simp: sorted_wrt_append)

lemma sorted_hits: "sorted_wrt (\<lambda>a b. length a < length b) (hits t ks)"
proof -
  have "sorted_wrt (\<lambda>a b. length a < length b) (prefixes ks)"
    by (induction ks) (auto simp: sorted_wrt_map)
  then show ?thesis by (rule sorted_wrt_filter)
qed

locale longest_prefix =
  fixes key_bits :: "'k \<Rightarrow> bool list" and deep :: "radix \<Rightarrow> bool" and search :: "'k \<Rightarrow> radix \<Rightarrow> u64"
  assumes searches: "deep t \<Longrightarrow> search key t = find_bits (key_bits key) NGX_RADIX_NO_VALUE t"
begin

lemma none: "deep t \<Longrightarrow> \<forall>p. prefix p (key_bits key) \<longrightarrow> value_at t p = None \<Longrightarrow> search key t = NGX_RADIX_NO_VALUE"
  by (auto simp: searches find_bits_hits filter_empty_conv)

lemma longest:
  assumes "deep t" "prefix p (key_bits key)" "value_at t p = Some v"
    "\<forall>q. prefix q (key_bits key) \<longrightarrow> length p < length q \<longrightarrow> value_at t q = None"
  shows "search key t = v"
proof -
  let ?hs = "hits t (key_bits key)"
  have p: "p \<in> set ?hs" using assms(2,3) by simp
  then have some: "?hs \<noteq> []" by (metis empty_iff empty_set)
  then have last: "last ?hs \<in> set ?hs" by (rule last_in_set)
  have "last ?hs = p"
  proof (rule ccontr)
    assume other: "last ?hs \<noteq> p"
    have "length p < length (last ?hs)"
      by (rule sorted_wrt_last [OF sorted_hits p]) (use other in simp)
    then show False using assms(4) last by auto
  qed
  then show ?thesis
    unfolding searches [OF assms(1)] find_bits_hits using assms(3) some by simp
qed

end

text \<open>The bits of an address.\<close>

definition bits32 :: "u32 \<Rightarrow> bool list" where
  "bits32 key = map (bit key) (rev [0..<32])"

definition bits128 :: "ngx_str \<Rightarrow> bool list" where
  "bits128 key = map (\<lambda>i. bit (key ! (i div 8)) (7 - i mod 8)) [0..<128]"

lemma and_power: "key AND 2 ^ j = 0 \<longleftrightarrow> \<not> bit (key :: 'a::len word) j"
  by (rule and_exp_eq_0_iff_not_bit)

lemma shift_power: "Suc j < LENGTH('a) \<Longrightarrow> drop_bit 1 (2 ^ Suc j :: 'a::len word) = 2 ^ j"
  by (intro bit_eqI) (auto simp: bit_simps)

lemma find32:
  assumes "depth t \<le> Suc (Suc j)" "j < 32"
  shows "radix32_find key (2 ^ j) v t = find_bits (map (bit key) (rev [0..<Suc j])) v t"
  using assms
proof (induction j arbitrary: v t)
  case 0
  then show ?case
    by (cases t; cases "left t"; cases "right t") (auto simp: and_power [of key 0, simplified])
next
  case (Suc j)
  show ?case
  proof (cases t)
    case (Node l x r)
    have "radix32_find key (drop_bit 1 (2 ^ Suc j)) w (if bit key (Suc j) then r else l) =
        find_bits (map (bit key) (rev [0..<Suc j])) w (if bit key (Suc j) then r else l)" for w
      using Suc.IH [of "if bit key (Suc j) then r else l" w] Suc.prems shift_power [of j, where 'a = 32]
      by (simp add: Node del: power_Suc split: if_splits)
    then show ?thesis
      by (simp add: Node and_power del: power_Suc split: if_splits)
  qed simp
qed

lemma byte_bits: "map (\<lambda>k. bit (key ! (k div 8)) (7 - k mod 8)) [i * 8..<i * 8 + 8] = map (bit (key ! i)) (rev [0..<8])"
proof (rule nth_equalityI)
  fix k
  assume "k < length (map (\<lambda>k. bit (key ! (k div 8)) (7 - k mod 8)) [i * 8..<i * 8 + 8])"
  then have "k < 8" by simp
  then show "map (\<lambda>k. bit (key ! (k div 8)) (7 - k mod 8)) [i * 8..<i * 8 + 8] ! k = map (bit (key ! i)) (rev [0..<8]) ! k"
    by (simp add: rev_nth del: upt_Suc)
qed simp

lemma find128:
  assumes "depth t \<le> Suc (Suc j + (15 - i) * 8)" "j < 8" "i < 16"
  shows "radix128_find key i (2 ^ j) v t =
    find_bits (map (bit (key ! i)) (rev [0..<Suc j]) @ map (\<lambda>k. bit (key ! (k div 8)) (7 - k mod 8)) [Suc i * 8..<128]) v t"
  using assms
proof (induction "Suc j + (15 - i) * 8" arbitrary: i j v t rule: less_induct)
  case less
  let ?next = "\<lambda>key. map (\<lambda>k. bit (key ! (k div 8)) (7 - k mod 8))"
  show ?case
  proof (cases t)
    case (Node l x r)
    let ?w = "if x \<noteq> NGX_RADIX_NO_VALUE then x else v" and ?c = "if bit (key ! i) j then r else l"
    have dc: "depth ?c \<le> Suc j + (15 - i) * 8" using less.prems(1) Node by auto
    show ?thesis
    proof (cases j)
      case (Suc j')
      have "drop_bit 1 (2 ^ j :: u8) = 2 ^ j'" "(2 ^ j' :: u8) \<noteq> 0"
        using shift_power [of j', where 'a = 8] less.prems(2) Suc by simp_all
      then show ?thesis
        using less.hyps [of j' i ?c ?w] less.prems dc
        by (simp add: Node and_power Suc del: power_Suc split: if_splits)
    next
      case 0
      have shift: "drop_bit 1 (2 ^ j :: u8) = 0" by (simp add: 0)
      have first: "key ! i AND 1 = 0 \<longleftrightarrow> \<not> bit (key ! i) 0" using and_power [of "key ! i" 0] by simp
      show ?thesis
      proof (cases "i = 15")
        case True
        then have "depth ?c \<le> Suc 0" using dc 0 by simp
        then show ?thesis
          using first by (cases ?c) (auto simp: Node 0 True split: if_splits)
      next
        case False
        have eight: "[Suc i * 8..<128] = [Suc i * 8..<Suc i * 8 + 8] @ [Suc (Suc i) * 8..<128]"
          
          using less.prems(3) False upt_add_eq_append [of "Suc i * 8" "Suc i * 8 + 8" "128 - (Suc i * 8 + 8)"] by simp
        note byte = byte_bits [of key "Suc i"]
        have "radix128_find key (Suc i) (2 ^ 7) ?w ?c =
            find_bits (map (bit (key ! Suc i)) (rev [0..<8]) @ ?next key [Suc (Suc i) * 8..<128]) ?w ?c"
          using less.hyps [of 7 "Suc i" ?c ?w] less.prems dc 0 False by simp
        then show ?thesis
          unfolding eight map_append byte
          using first by (simp add: Node 0 split: if_splits)
      qed
    qed
  qed simp
qed

interpretation v4: longest_prefix bits32 "\<lambda>t. depth t \<le> 33" ngx_radix32tree_find
  by standard (use find32 [of _ 31] in \<open>simp add: ngx_radix32tree_find_def bits32_def del: upt_Suc\<close>)

lemma bits128_first: "bits128 key = map (bit (key ! 0)) (rev [0..<8]) @ map (\<lambda>k. bit (key ! (k div 8)) (7 - k mod 8)) [8..<128]"
proof -
  have "[0..<128] = [0..<8] @ [8..<(128::nat)]" using upt_add_eq_append [of 0 8 120] by simp
  then show ?thesis using byte_bits [of key 0] by (simp add: bits128_def del: upt_Suc)
qed

interpretation v6: longest_prefix bits128 "\<lambda>t. depth t \<le> 129" ngx_radix128tree_find
proof
  fix t key
  assume "depth t \<le> 129"
  then show "ngx_radix128tree_find key t = find_bits (bits128 key) NGX_RADIX_NO_VALUE t"
    using find128 [of t 7 0 key NGX_RADIX_NO_VALUE] unfolding bits128_first ngx_radix128tree_find_def
    by (simp del: upt_Suc)
qed

section \<open>Networks\<close>

definition netmask32 :: "nat \<Rightarrow> u32" where
  "netmask32 n = push_bit (32 - n) (- 1)"

lemma path32_power:
  "j < 32 \<Longrightarrow> path32 key msk (2 ^ j) =
     (if bit msk j then bit key j # (if j = 0 then [] else path32 key msk (2 ^ (j - 1))) else [])"
proof (cases j)
  case 0
  have "path32 key msk (drop_bit 1 1) = []" by (simp add: path32.simps [of _ _ "0"])
  then show ?thesis
    using and_power [of msk 0] and_power [of key 0] 0
    by (simp add: path32.simps [of _ _ "1"] and.commute)
next
  case (Suc k)
  assume "j < 32"
  then have "drop_bit 1 (2 ^ j :: u32) = 2 ^ k" using shift_power [of k, where 'a = 32] Suc by simp
  then show ?thesis
    by (subst path32.simps) (simp add: and_power Suc and.commute [of _ msk] del: power_Suc)
qed

lemma path32_net:
  assumes "n \<le> 32" "j < 32"
  shows "path32 key (netmask32 n) (2 ^ j) = take (n - (31 - j)) (map (bit key) (rev [0..<Suc j]))"
  using assms(2)
proof (induction j)
  case 0
  show ?case
    using assms(1) by (cases "n = 32") (auto simp: path32_power [of 0, simplified] netmask32_def bit_simps)
next
  case (Suc j)
  show ?case
  proof (cases "32 - n \<le> Suc j")
    case True
    then have "n - (31 - Suc j) = Suc (n - (31 - j))" using assms(1) Suc.prems by simp
    then show ?thesis
      using Suc True by (simp add: path32_power [of "Suc j"] netmask32_def bit_simps del: power_Suc)
  next
    case False
    then have "n - (31 - Suc j) = 0" by simp
    then show ?thesis
      using Suc.prems False by (simp add: path32_power [of "Suc j"] netmask32_def bit_simps del: power_Suc)
  qed
qed

lemma path32_network: "n \<le> 32 \<Longrightarrow> path32 key (netmask32 n) 0x80000000 = take n (bits32 key)"
  using path32_net [of n 31 key] by (simp add: bits32_def del: upt_Suc)

definition in_network :: "u32 \<Rightarrow> nat \<Rightarrow> u32 \<Rightarrow> bool" where
  "in_network addr n key \<longleftrightarrow> addr AND netmask32 n = key AND netmask32 n"

lemma bits32_nth: "i < 32 \<Longrightarrow> bits32 key ! i = bit key (31 - i)"
  by (simp add: bits32_def rev_nth)

lemma length_bits32 [simp]: "length (bits32 key) = 32"
  by (simp add: bits32_def)

lemma in_network_prefix:
  assumes "n \<le> 32"
  shows "in_network addr n key \<longleftrightarrow> prefix (take n (bits32 addr)) (bits32 key)"
proof -
  have "in_network addr n key \<longleftrightarrow> (\<forall>j<32. 32 - n \<le> j \<longrightarrow> bit addr j = bit key j)"
    unfolding in_network_def netmask32_def bit_eq_iff by (auto simp: bit_simps)
  also have "\<dots> \<longleftrightarrow> (\<forall>i<n. bit addr (31 - i) = bit key (31 - i))"
  proof safe
    fix j :: nat
    assume "\<forall>i<n. bit addr (31 - i) = bit key (31 - i)" "j < 32" "32 - n \<le> j"
    moreover from this have "31 - j < n" "31 - (31 - j) = j" using assms by auto
    ultimately show "bit addr j \<Longrightarrow> bit key j" "bit key j \<Longrightarrow> bit addr j" by metis+
  qed (use assms in auto)
  also have "\<dots> \<longleftrightarrow> take n (bits32 addr) = take n (bits32 key)"
    using assms by (simp add: list_eq_iff_nth_eq bits32_nth)
  also have "\<dots> \<longleftrightarrow> prefix (take n (bits32 addr)) (bits32 key)"
    using assms by (metis append_eq_conv_conj length_bits32 length_take min.absorb2 prefix_def take_is_prefix)
  finally show ?thesis .
qed

text \<open>A table of networks, entered one after the other into an empty tree.\<close>

fun add_networks :: "(u32 \<times> nat \<times> u64) list \<Rightarrow> radix \<Rightarrow> radix_memory \<Rightarrow> (radix \<times> radix_memory) option" where
  "add_networks [] t m = Some (t, m)"
| "add_networks ((addr, n, v) # rs) t m =
     (case ngx_radix32tree_insert addr (netmask32 n) v t m of
        (rc, t, m) \<Rightarrow> if rc = NGX_OK then add_networks rs t m else None)"

abbreviation network_ok :: "u32 \<times> nat \<times> u64 \<Rightarrow> bool" where
  "network_ok r \<equiv> fst (snd r) \<le> 32 \<and> snd (snd r) \<noteq> NGX_RADIX_NO_VALUE"

abbreviation network_path :: "u32 \<times> nat \<times> u64 \<Rightarrow> bool list" where
  "network_path r \<equiv> take (fst (snd r)) (bits32 (fst r))"

lemma insert32_map:
  assumes "ngx_radix32tree_insert addr (netmask32 n) v t m = (NGX_OK, t', m')" "n \<le> 32" "v \<noteq> NGX_RADIX_NO_VALUE"
  shows "value_at t' = (value_at t)(take n (bits32 addr) := Some v)" "value_at t (take n (bits32 addr)) = None"
    "depth t \<le> 33 \<Longrightarrow> depth t' \<le> 33"
  using insert_map [of "take n (bits32 addr)" v t m NGX_OK t' m'] assms
  by (auto simp: ngx_radix32tree_insert_def path32_network entry_def)

lemma add_networks_map:
  assumes "add_networks rs t m = Some (t', m')" "\<forall>r\<in>set rs. network_ok r" "depth t \<le> 33"
  shows "depth t' \<le> 33 \<and> (\<forall>p v. value_at t p = Some v \<longrightarrow> value_at t' p = Some v)
    \<and> (\<forall>r\<in>set rs. value_at t' (network_path r) = Some (snd (snd r)))
    \<and> (\<forall>p v. value_at t' p = Some v \<longrightarrow> value_at t p = Some v \<or> (\<exists>r\<in>set rs. network_path r = p))"
  using assms
proof (induction rs arbitrary: t m)
  case (Cons r rs)
  obtain addr n v where r: "r = (addr, n, v)" by (cases r)
  obtain t1 m1 where i: "ngx_radix32tree_insert addr (netmask32 n) v t m = (NGX_OK, t1, m1)"
      and rest: "add_networks rs t1 m1 = Some (t', m')"
    using Cons.prems(1) r by (auto split: prod.splits if_splits)
  have ok: "n \<le> 32" "v \<noteq> NGX_RADIX_NO_VALUE" using Cons.prems(2) r by auto
  note map1 = insert32_map [OF i ok]
  have IH: "depth t' \<le> 33" "\<And>p v. value_at t1 p = Some v \<Longrightarrow> value_at t' p = Some v"
      "\<And>r. r \<in> set rs \<Longrightarrow> value_at t' (network_path r) = Some (snd (snd r))"
      "\<And>p v. value_at t' p = Some v \<Longrightarrow> value_at t1 p = Some v \<or> (\<exists>r\<in>set rs. network_path r = p)"
    using Cons.IH [OF rest _ map1(3) [OF Cons.prems(3)]] Cons.prems(2) by auto
  have keep: "value_at t1 p = Some w" if "value_at t p = Some w" for p w
    using that map1(1,2) by (cases "p = take n (bits32 addr)") auto
  have own: "value_at t1 (take n (bits32 addr)) = Some v" using map1(1) by simp
  have "value_at t p = Some w \<or> p = take n (bits32 addr)" if "value_at t1 p = Some w" for p w
    using that map1(1) by (cases "p = take n (bits32 addr)") auto
  then show ?case using IH keep own r by (auto, blast+)
qed simp

section \<open>Properties\<close>

text \<open>C17: The geo lookup finds the most specific network: when networks have been entered into a new
  radix tree, \<^verbatim>\<open>ngx_radix32tree_find\<close> gives the value of the longest one that holds the address,
  in whatever order they were entered, and \<^verbatim>\<open>NGX_RADIX_NO_VALUE\<close> when none does.\<close>

theorem radix_longest_network:
  assumes "add_networks nets (Node Null NGX_RADIX_NO_VALUE Null) m = Some (t, m')"
    and "\<forall>r\<in>set nets. network_ok r"
  shows "((\<forall>(addr, n, v)\<in>set nets. \<not> in_network addr n key) \<longrightarrow> ngx_radix32tree_find key t = NGX_RADIX_NO_VALUE)
    \<and> (\<forall>(addr, n, v)\<in>set nets. in_network addr n key
         \<and> (\<forall>(addr', n', v')\<in>set nets. in_network addr' n' key \<longrightarrow> n' \<le> n)
         \<longrightarrow> ngx_radix32tree_find key t = v)"
proof -
  have empty: "value_at (Node Null NGX_RADIX_NO_VALUE Null) p = None" for p by (simp add: leaf_value_at)
  have facts: "depth t \<le> 33" "\<And>r. r \<in> set nets \<Longrightarrow> value_at t (network_path r) = Some (snd (snd r))"
      "\<And>p v. value_at t p = Some v \<Longrightarrow> \<exists>r\<in>set nets. network_path r = p"
    using add_networks_map [OF assms] by (auto simp: empty)
  have nets: "in_network (fst r) (fst (snd r)) key \<longleftrightarrow> prefix (network_path r) (bits32 key)" if "r \<in> set nets" for r
    using in_network_prefix assms(2) that by blast
  have len: "length (network_path r) = fst (snd r)" if "r \<in> set nets" for r
    using assms(2) that by auto
  have "ngx_radix32tree_find key t = NGX_RADIX_NO_VALUE" if "\<forall>r\<in>set nets. \<not> in_network (fst r) (fst (snd r)) key"
    by (rule v4.none [OF facts(1)]) (use that nets facts(3) in \<open>metis not_Some_eq\<close>)
  moreover have "ngx_radix32tree_find key t = snd (snd r)"
    if r: "r \<in> set nets" "in_network (fst r) (fst (snd r)) key"
      and most: "\<forall>r'\<in>set nets. in_network (fst r') (fst (snd r')) key \<longrightarrow> fst (snd r') \<le> fst (snd r)" for r
  proof (rule v4.longest [OF facts(1)])
    show "prefix (network_path r) (bits32 key)" using r nets by blast
    show "value_at t (network_path r) = Some (snd (snd r))" using facts(2) r(1) .
    show "\<forall>q. prefix q (bits32 key) \<longrightarrow> length (network_path r) < length q \<longrightarrow> value_at t q = None"
    proof safe
      fix q
      assume q: "prefix q (bits32 key)" "length (network_path r) < length q"
      show "value_at t q = None"
      proof (rule ccontr)
        assume "value_at t q \<noteq> None"
        then obtain w where "value_at t q = Some w" by blast
        from facts(3) [OF this] obtain r' where r': "r' \<in> set nets" "network_path r' = q" by blast
        then have "fst (snd r') \<le> fst (snd r)" using most nets q(1) by blast
        then show False using q(2) len [OF r(1)] len [OF r'(1)] r'(2) by simp
      qed
    qed
  qed
  ultimately show ?thesis by fastforce
qed

theorem radix_longest_network_witness:
  "\<exists>t m'. add_networks [(0x80000000, 1, 1), (0, 0, 2), (0xc0000000, 3, 3)] (Node Null NGX_RADIX_NO_VALUE Null)
       \<lparr>freed = 0, room = 20, pages = 0\<rparr> = Some (t, m') \<and> ngx_radix32tree_find 0xc0010203 t = 3"
proof -
  let ?nets = "[(0x80000000, 1, 1), (0, 0, 2), (0xc0000000, 3, 3)] :: (u32 \<times> nat \<times> u64) list"
  have "add_networks ?nets (Node Null NGX_RADIX_NO_VALUE Null) \<lparr>freed = 0, room = 20, pages = 0\<rparr> \<noteq> None"
    by code_simp
  then obtain t m' where t: "add_networks ?nets (Node Null NGX_RADIX_NO_VALUE Null)
       \<lparr>freed = 0, room = 20, pages = 0\<rparr> = Some (t, m')" by (auto simp del: add_networks.simps)
  have "(\<forall>(addr, n, v)\<in>set ?nets. in_network addr n 0xc0010203
         \<and> (\<forall>(addr', n', v')\<in>set ?nets. in_network addr' n' 0xc0010203 \<longrightarrow> n' \<le> n)
         \<longrightarrow> ngx_radix32tree_find 0xc0010203 t = v)"
    by (rule conjunct2 [OF radix_longest_network [OF t]]) (simp add: NGX_RADIX_NO_VALUE_def)
  moreover have "in_network 0x80000000 1 0xc0010203" "in_network 0 0 0xc0010203" "in_network 0xc0000000 3 0xc0010203"
    by code_simp+
  ultimately have "ngx_radix32tree_find 0xc0010203 t = 3" by simp
  with t show ?thesis by blast
qed

text \<open>An insertion tells what it did: \<^verbatim>\<open>NGX_OK\<close> sets the value of exactly the prefix below the mask,
  \<^verbatim>\<open>NGX_BUSY\<close> is returned for exactly the prefixes that have one, and it and \<^verbatim>\<open>NGX_ERROR\<close>, when
  memory ends in the middle of a chain of new nodes, change no value; in both widths.\<close>

theorem radix_insert_result:
  "(case ngx_radix32tree_insert key msk v t m of (rc, t', m') \<Rightarrow>
      rc \<in> {NGX_OK, NGX_BUSY, NGX_ERROR} \<and> (rc = NGX_BUSY \<longleftrightarrow> value_at t (path32 key msk 0x80000000) \<noteq> None)
      \<and> value_at t' = (if rc = NGX_OK then (value_at t)(path32 key msk 0x80000000 := entry v) else value_at t))
   \<and> (case ngx_radix128tree_insert key6 msk6 v t m of (rc, t', m') \<Rightarrow>
      rc \<in> {NGX_OK, NGX_BUSY, NGX_ERROR} \<and> (rc = NGX_BUSY \<longleftrightarrow> value_at t (path128 key6 msk6 0 0x80) \<noteq> None)
      \<and> value_at t' = (if rc = NGX_OK then (value_at t)(path128 key6 msk6 0 0x80 := entry v) else value_at t))"
proof -
  have result: "case radix_insert bs v t m of (rc, t', m') \<Rightarrow>
      rc \<in> {NGX_OK, NGX_BUSY, NGX_ERROR} \<and> (rc = NGX_BUSY \<longleftrightarrow> value_at t bs \<noteq> None)
      \<and> value_at t' = (if rc = NGX_OK then (value_at t)(bs := entry v) else value_at t)" for bs
    using insert_map [of bs v t m] by (auto split: prod.split)
  show ?thesis
    unfolding ngx_radix32tree_insert_def ngx_radix128tree_insert_def by (intro conjI result)
qed

text \<open>C33: A deletion removes the value of exactly the prefix below the mask and leaves every other one,
  whatever nodes it unlinks, and \<^verbatim>\<open>NGX_ERROR\<close> leaves the tree alone and means that there was no
  value.  The one exception is the prefix of length zero in a tree that has only its root: there
  the code follows the null parent of the root.\<close>

theorem radix_delete_result:
  "case ngx_radix32tree_delete key msk t m of
     radix_done rc t' m' \<Rightarrow> value_at t' = (value_at t)(path32 key msk 0x80000000 := None)
       \<and> (rc = NGX_OK \<or> rc = NGX_ERROR \<and> t' = t \<and> m' = m \<and> value_at t (path32 key msk 0x80000000) = None)
   | radix_crash \<Rightarrow> path32 key msk 0x80000000 = [] \<and> (\<exists>v. t = Node Null v Null)"
proof (cases "ngx_radix32tree_delete key msk t m")
  case (radix_done rc t' m')
  from delete_map [OF this [unfolded ngx_radix32tree_delete_def]] radix_done show ?thesis by auto
next
  case radix_crash
  then have "path32 key msk 0x80000000 = []" "t \<noteq> Null" "is_leaf t"
    using delete_crash unfolding ngx_radix32tree_delete_def by auto
  then have "path32 key msk 0x80000000 = [] \<and> (\<exists>v. t = Node Null v Null)"
    by (cases t) (simp_all add: is_leaf_def)
  then show ?thesis using radix_crash by simp
qed

text \<open>
  The lookup of an IPv6 address does not depend on what lies behind its sixteen bytes, although
  the byte is read when the tree holds a whole address.
\<close>

lemma radix128_behind: "length key = 16 \<Longrightarrow> depth t \<le> 129 \<Longrightarrow>
    ngx_radix128tree_find (key @ a) t = ngx_radix128tree_find (key @ b) t"
proof -
  assume "length key = 16" "depth t \<le> 129"
  moreover from this have "bits128 (key @ a) = bits128 (key @ b)" 
    unfolding bits128_def by (intro map_cong) (auto simp: nth_append)
  ultimately show ?thesis by (simp add: v6.searches)
qed

end
