(* ===== verification/Ngx_Limit_Req.thy ===== *)
theory Ngx_Limit_Req
  imports Ngx_Prelude
begin

text \<open>
  The leaky bucket of \<^verbatim>\<open>http/modules/ngx_http_limit_req_module.c\<close>.  A zone keeps a node per
  key, with the excess over the rate in thousandths of a request and the time it was
  computed.  The nodes hang in a red-black tree, by hash and key, and in a queue, the one
  looked at last first: the zone is that queue, and the search of the tree, which compares
  keys as equal only when they are, is a search by key.  How many more nodes the slab pool can
  hold is \<open>zn_room\<close>.
\<close>

section \<open>The zone\<close>

record limit_node =
  nd_last :: u64
  nd_excess :: u64
  nd_count :: u64

text \<open>\<open>zn_node\<close> is the node that a lookup without accounting leaves in \<^verbatim>\<open>ctx->node\<close>.\<close>

record limit_zone =
  zn_rate :: u64
  zn_queue :: "(ngx_str \<times> limit_node) list"
  zn_room :: nat
  zn_node :: "ngx_str option"

record limit =
  lm_burst :: u64
  lm_delay :: u64

definition find_node :: "ngx_str \<Rightarrow> limit_zone \<Rightarrow> limit_node option" where
  "find_node key z = map_of (zn_queue z) key"

definition remove_node :: "ngx_str \<Rightarrow> (ngx_str \<times> limit_node) list \<Rightarrow> (ngx_str \<times> limit_node) list" where
  "remove_node key q = filter (\<lambda>(k, nd). k \<noteq> key) q"

definition set_node :: "ngx_str \<Rightarrow> limit_node \<Rightarrow> limit_zone \<Rightarrow> limit_zone" where
  "set_node key nd z = z\<lparr>zn_queue := map (\<lambda>(k, n). if k = key then (k, nd) else (k, n)) (zn_queue z)\<rparr>"

definition move_to_head :: "ngx_str \<Rightarrow> limit_node \<Rightarrow> limit_zone \<Rightarrow> limit_zone" where
  "move_to_head key nd z = z\<lparr>zn_queue := (key, nd) # remove_node key (zn_queue z)\<rparr>"

section \<open>Excess\<close>

text \<open>\<^verbatim>\<open>ms\<close>: a clock that went back a little gives 0, one that was set back gives 1.\<close>

definition elapsed :: "u64 \<Rightarrow> u64 \<Rightarrow> int" where
  "elapsed now was = (let ms = sint (now - was) in if ms < - 60000 then 1 else if ms < 0 then 0 else ms)"

text \<open>
  The expression is computed in \<^verbatim>\<open>ngx_uint_t\<close> and stored in an \<^verbatim>\<open>ngx_int_t\<close>.
\<close>

definition charged :: "u64 \<Rightarrow> limit_node \<Rightarrow> u64 \<Rightarrow> u64" where
  "charged rate nd now =
     (let excess = nd_excess nd - rate * of_int (elapsed now (nd_last nd)) div 1000 + 1000 in
      if sint excess < 0 then 0 else excess)"

definition account_node :: "u64 \<Rightarrow> u64 \<Rightarrow> limit_node \<Rightarrow> limit_node" where
  "account_node excess now nd =
     nd\<lparr>nd_excess := excess, nd_last := (if elapsed now (nd_last nd) \<noteq> 0 then now else nd_last nd)\<rparr>"

section \<open>Expiry\<close>

text \<open>
  The last node of the queue goes when it is idle: not referenced, a minute old and without
  excess; the first one (with \<^verbatim>\<open>n == 0\<close>) goes by force.
\<close>

definition idle :: "u64 \<Rightarrow> u64 \<Rightarrow> limit_node \<Rightarrow> bool" where
  "idle rate now nd =
     (let ms = \<bar>sint (now - nd_last nd)\<bar> in
      \<not> (ms < 60000) \<and> \<not> (sint (nd_excess nd - rate * of_int ms div 1000) > 0))"

function ngx_http_limit_req_expire :: "nat \<Rightarrow> u64 \<Rightarrow> limit_zone \<Rightarrow> limit_zone" where
  "ngx_http_limit_req_expire n now z =
     (if n < 3 \<and> zn_queue z \<noteq> [] then
        (case last (zn_queue z) of
           (key, nd) \<Rightarrow>
             if nd_count nd \<noteq> 0 then z
             else if n \<noteq> 0 \<and> \<not> idle (zn_rate z) now nd then z
             else ngx_http_limit_req_expire (n + 1) now
                    (z\<lparr>zn_queue := butlast (zn_queue z), zn_room := zn_room z + 1\<rparr>))
      else z)"
  by pat_completeness auto
termination
  by (relation "measure (\<lambda>(n, now, z). 3 - n)") auto

declare ngx_http_limit_req_expire.simps [simp del]

section \<open>Lookup\<close>

text \<open>A new node at the head of the queue; \<open>account\<close> says whether this is the last limit.\<close>

definition new_node :: "ngx_str \<Rightarrow> u64 \<Rightarrow> bool \<Rightarrow> limit_zone \<Rightarrow> ngx_rc \<times> u64 \<times> limit_zone" where
  "new_node key now account z =
     (let z = ngx_http_limit_req_expire 1 now z;
          z = (if zn_room z = 0 then ngx_http_limit_req_expire 0 now z else z) in
      if zn_room z = 0 then (NGX_ERROR, 0, z)
      else
        let nd = \<lparr>nd_last = (if account then now else 0), nd_excess = 0, nd_count = (if account then 0 else 1)\<rparr>;
            z = z\<lparr>zn_queue := (key, nd) # zn_queue z, zn_room := zn_room z - 1\<rparr> in
        if account then (NGX_OK, 0, z) else (NGX_AGAIN, 0, z\<lparr>zn_node := Some key\<rparr>))"

definition ngx_http_limit_req_lookup ::
    "limit \<Rightarrow> ngx_str \<Rightarrow> u64 \<Rightarrow> bool \<Rightarrow> limit_zone \<Rightarrow> ngx_rc \<times> u64 \<times> limit_zone" where
  "ngx_http_limit_req_lookup l key now account z =
     (case find_node key z of
        None \<Rightarrow> new_node key now account z
      | Some nd \<Rightarrow>
          let excess = charged (zn_rate z) nd now in
          if excess > lm_burst l then (NGX_BUSY, excess, move_to_head key nd z)
          else if account then (NGX_OK, excess, move_to_head key (account_node excess now nd) z)
          else (NGX_AGAIN, excess, (move_to_head key (nd\<lparr>nd_count := nd_count nd + 1\<rparr>) z)\<lparr>zn_node := Some key\<rparr>))"

section \<open>Several limits\<close>

type_synonym limits = "(limit \<times> limit_zone) list"

definition delay_of :: "limit \<Rightarrow> u64 \<Rightarrow> u64 \<Rightarrow> u64" where
  "delay_of l excess rate = (if excess \<le> lm_delay l then 0 else (excess - lm_delay l) * 1000 div rate)"

text \<open>
  \<^verbatim>\<open>while (n--)\<close>: the limits before the last one are accounted from the last to the first; the
  largest delay is kept.
\<close>

definition account_zone :: "u64 \<Rightarrow> limit \<Rightarrow> limit_zone \<Rightarrow> u64 \<Rightarrow> limit_zone \<times> u64" where
  "account_zone now l z max_delay =
     (case zn_node z of
        None \<Rightarrow> (z, max_delay)
      | Some key \<Rightarrow>
          (case find_node key z of
             None \<Rightarrow> (z, max_delay)
           | Some nd \<Rightarrow>
               let excess = charged (zn_rate z) nd now;
                   nd = (account_node excess now nd)\<lparr>nd_count := nd_count nd - 1\<rparr>;
                   z' = (set_node key nd z)\<lparr>zn_node := None\<rparr>;
                   delay = delay_of l excess (zn_rate z) in
               (z', if delay > max_delay then delay else max_delay)))"

fun account_zones :: "u64 \<Rightarrow> limits \<Rightarrow> u64 \<Rightarrow> limits \<times> u64" where
  "account_zones now [] max_delay = ([], max_delay)"
| "account_zones now ((l, z) # ls) max_delay =
     (case account_zones now ls max_delay of
        (ls, max_delay) \<Rightarrow> (case account_zone now l z max_delay of (z, max_delay) \<Rightarrow> ((l, z) # ls, max_delay)))"

definition ngx_http_limit_req_account ::
    "u64 \<Rightarrow> limits \<Rightarrow> u64 \<Rightarrow> (limit \<times> u64) \<Rightarrow> limits \<times> u64" where
  "ngx_http_limit_req_account now ls excess lr = account_zones now ls (delay_of (fst lr) excess (snd lr))"

definition unlock_zone :: "limit_zone \<Rightarrow> limit_zone" where
  "unlock_zone z =
     (case zn_node z of
        None \<Rightarrow> z
      | Some key \<Rightarrow>
          (case find_node key z of
             None \<Rightarrow> z
           | Some nd \<Rightarrow> (set_node key (nd\<lparr>nd_count := nd_count nd - 1\<rparr>) z)\<lparr>zn_node := None\<rparr>))"

definition ngx_http_limit_req_unlock :: "limits \<Rightarrow> limits" where
  "ngx_http_limit_req_unlock ls = map (\<lambda>(l, z). (l, unlock_zone z)) ls"

text \<open>
  The loop of the handler: what is behind, in reverse, and what is to come, each limit with
  the value of its key (\<open>None\<close> when it cannot be evaluated).  It stops at the first limit
  whose lookup does not return \<^verbatim>\<open>NGX_AGAIN\<close>; a key that is empty or too long is skipped.
\<close>

datatype handler_stop =
    key_failed limits
  | looked ngx_rc u64 "(limit \<times> u64) option" limits limits

fun handler_loop :: "u64 \<Rightarrow> ngx_rc \<Rightarrow> u64 \<Rightarrow> (limit \<times> u64) option \<Rightarrow> limits \<Rightarrow>
    (limit \<times> limit_zone \<times> ngx_str option) list \<Rightarrow> handler_stop" where
  "handler_loop now rc excess lr before [] = looked rc excess lr (rev before) []"
| "handler_loop now rc excess lr before ((l, z, key) # rest) =
     (case key of
        None \<Rightarrow> key_failed (ngx_http_limit_req_unlock (rev before) @ (l, z) # map (\<lambda>(l, z, k). (l, z)) rest)
      | Some key \<Rightarrow>
          if length key = 0 \<or> length key > 65535
          then handler_loop now rc excess (Some (l, zn_rate z)) ((l, z) # before) rest
          else
            (case ngx_http_limit_req_lookup l key now (rest = []) z of
               (rc, excess, z) \<Rightarrow>
                 if rc \<noteq> NGX_AGAIN
                 then looked rc excess (Some (l, zn_rate z)) (rev before) ((l, z) # map (\<lambda>(l, z, k). (l, z)) rest)
                 else handler_loop now rc excess (Some (l, zn_rate z)) ((l, z) # before) rest))"

text \<open>
  What is answered: the next phase, the configured status, an internal error, or a timer.  The handler of a request that
  has not been limited before (else it declines at once), and whose read event can be waited for when it is delayed (else
  it is an internal error, with the zones as here).
\<close>

datatype limit_verdict = req_declined | req_passed | req_rejected | req_rejected_dry_run
  | req_delayed u64 | req_delayed_dry_run | req_error

definition ngx_http_limit_req_handler ::
    "bool \<Rightarrow> u64 \<Rightarrow> (limit \<times> limit_zone \<times> ngx_str option) list \<Rightarrow> limit_verdict \<times> limits" where
  "ngx_http_limit_req_handler dry_run now ls =
     (case handler_loop now NGX_DECLINED 0 None [] ls of
        key_failed ls \<Rightarrow> (req_error, ls)
      | looked rc excess lr before rest \<Rightarrow>
          if rc = NGX_DECLINED then (req_declined, before @ rest)
          else if rc = NGX_BUSY \<or> rc = NGX_ERROR then
            (if dry_run then req_rejected_dry_run else req_rejected, ngx_http_limit_req_unlock before @ rest)
          else
            (case lr of
               None \<Rightarrow> (req_declined, before @ rest)
             | Some lr \<Rightarrow>
                 (case ngx_http_limit_req_account now before (if rc = NGX_AGAIN then 0 else excess) lr of
                    (before, delay) \<Rightarrow>
                      (if delay = 0 then req_passed
                       else if dry_run then req_delayed_dry_run
                       else req_delayed delay, before @ rest))))"

section \<open>Without wrap-around\<close>

text \<open>
  The clock goes forward, and the product of the rate and the time since the node was used
  and the excess stay below 2^62: at a million requests a second that is a century.
\<close>

definition in_range :: "u64 \<Rightarrow> limit_node \<Rightarrow> u64 \<Rightarrow> bool" where
  "in_range rate nd now \<longleftrightarrow> uint (nd_last nd) \<le> uint now \<and> uint now < 2 ^ 62
     \<and> uint rate * (uint now - uint (nd_last nd)) < 2 ^ 62 \<and> uint (nd_excess nd) < 2 ^ 62"

lemma sint_of_int_small: "- (2 ^ 63) \<le> k \<Longrightarrow> k < 2 ^ 63 \<Longrightarrow> sint (word_of_int k :: u64) = k"
  by (simp add: sint_sbintrunc' signed_take_bit_int_eq_self)

lemma sint_small: "uint (x :: u64) < 2 ^ 63 \<Longrightarrow> sint x = uint x"
  using sint_of_int_small [of "uint x"] uint_ge_0 [of x] by simp

lemma elapsed_forward: "uint was \<le> uint now \<Longrightarrow> uint now < 2 ^ 62 \<Longrightarrow> elapsed now was = uint now - uint was"
proof -
  assume le: "uint was \<le> uint now" "uint now < 2 ^ 62"
  moreover have "(2 :: int) ^ 62 < 2 ^ 64" by simp
  ultimately have "uint now - uint was < 2 ^ 64" using uint_ge_0 [of was] by linarith
  then have "uint (now - was) = uint now - uint was" using le(1) by (simp add: uint_word_ariths(2))
  moreover have "uint now - uint was < 2 ^ 63"
  proof -
    have "(2 :: int) ^ 62 < 2 ^ 63" by simp
    then show ?thesis using le uint_ge_0 [of was] by linarith
  qed
  ultimately have "sint (now - was) = uint now - uint was" by (simp add: sint_small)
  then show ?thesis using le by (simp add: elapsed_def)
qed

lemma charged_int:
  assumes "in_range rate nd now"
  shows "uint (charged rate nd now) =
    max 0 (uint (nd_excess nd) - uint rate * (uint now - uint (nd_last nd)) div 1000 + 1000)"
proof -
  define ms where "ms = uint now - uint (nd_last nd)"
  define L where "L = uint rate * ms div 1000"
  have ms: "elapsed now (nd_last nd) = ms" "0 \<le> ms" "ms < 2 ^ 62"
    using assms elapsed_forward [of "nd_last nd" now] uint_ge_0 [of "nd_last nd"]
    unfolding in_range_def ms_def by linarith+
  have small: "uint rate * ms < 2 ^ 62" using assms by (simp add: in_range_def ms_def)
  have "uint (of_int ms :: u64) = ms" using ms(2,3) by (simp add: uint_word_of_int_eq take_bit_int_eq_self)
  then have prod: "uint (rate * of_int ms) = uint rate * ms"
    using small ms(2) by (simp add: uint_word_ariths(3))
  have leak: "uint (rate * of_int ms div 1000) = L"
    unfolding L_def by (simp add: uint_div prod)
  have L: "0 \<le> L" "L < 2 ^ 62" using small ms(2) unfolding L_def by (simp_all add: pos_imp_zdiv_nonneg_iff zdiv_mono1 div_less_dividend)
  let ?e = "uint (nd_excess nd) - L + 1000"
  let ?x = "nd_excess nd - rate * of_int ms div 1000 + 1000"
  have e: "- (2 ^ 62) < ?e" "?e < 2 ^ 62 + 1000" using L assms uint_ge_0 [of "nd_excess nd"] unfolding in_range_def by linarith+
  have x: "?x = of_int ?e" by (simp flip: leak)
  have signed: "sint ?x = ?e" unfolding x by (rule sint_of_int_small) (use e in simp_all)
  have unsigned: "uint ?x = ?e" if "0 \<le> ?e"
    unfolding x uint_word_of_int_eq by (rule take_bit_int_eq_self) (use e that in simp_all)
  have "uint (charged rate nd now) = (if ?e < 0 then 0 else ?e)"
    unfolding charged_def ms(1) Let_def signed using unsigned by simp
  then show ?thesis by (simp add: L_def ms_def)
qed

section \<open>The rate is kept\<close>

text \<open>
  Requests for any keys, one after the other, in a zone that is the last limit of their location: for each the zone
  before, its key, its time, what the lookup returned, and the zone after.
\<close>

type_synonym zone_log = "(limit_zone \<times> ngx_str \<times> u64 \<times> ngx_rc \<times> limit_zone) list"

fun zone_run :: "limit \<Rightarrow> (ngx_str \<times> u64) list \<Rightarrow> limit_zone \<Rightarrow> zone_log" where
  "zone_run l [] z = []"
| "zone_run l ((key, now) # rs) z =
     (case ngx_http_limit_req_lookup l key now True z of
        (rc, excess, z') \<Rightarrow> (z, key, now, rc, z') # zone_run l rs z')"

text \<open>
  Of the requests for a key: those that are admitted, and those among them that found no node.  And how often its node
  was driven out of the zone by a request for another key before it was idle.
\<close>

definition admitted :: "ngx_str \<Rightarrow> zone_log \<Rightarrow> nat" where
  "admitted key log = length (filter (\<lambda>(z, k, now, rc, z'). k = key \<and> rc = NGX_OK) log)"

definition restarted :: "ngx_str \<Rightarrow> zone_log \<Rightarrow> nat" where
  "restarted key log = length (filter (\<lambda>(z, k, now, rc, z'). k = key \<and> rc = NGX_OK \<and> find_node key z = None) log)"

definition driven_out :: "ngx_str \<Rightarrow> zone_log \<Rightarrow> nat" where
  "driven_out key log = length (filter (\<lambda>(z, k, now, rc, z').
     case find_node key z of None \<Rightarrow> False
     | Some nd \<Rightarrow> find_node key z' = None \<and> \<not> idle (zn_rate z) now nd) log)"

lemmas log_counts = admitted_def restarted_def driven_out_def

lemma find_head [simp]: "find_node key (move_to_head key nd z) = Some nd" "zn_rate (move_to_head k nd z) = zn_rate z"
  by (simp_all add: find_node_def move_to_head_def)

lemma find_removed: "k \<noteq> key \<Longrightarrow> map_of (remove_node k q) key = map_of q key"
  by (induction q) (auto simp: remove_node_def)

lemma find_head_other [simp]: "k \<noteq> key \<Longrightarrow> find_node key (move_to_head k nd z) = find_node key z"
  by (simp add: find_node_def move_to_head_def find_removed)

lemma map_of_butlast: "map_of (butlast xs) k = map_of xs k \<or> map_of (butlast xs) k = None"
  by (induction xs) auto

lemma expire_other:
  "(find_node key (ngx_http_limit_req_expire n now z) = find_node key z
      \<or> find_node key (ngx_http_limit_req_expire n now z) = None)
    \<and> zn_rate (ngx_http_limit_req_expire n now z) = zn_rate z"
proof (induction n now z rule: ngx_http_limit_req_expire.induct)
  case (1 n now z)
  note expire = ngx_http_limit_req_expire.simps [of n now z]
  obtain k nd where kn: "last (zn_queue z) = (k, nd)" by fastforce
  let ?z = "z\<lparr>zn_queue := butlast (zn_queue z), zn_room := zn_room z + 1\<rparr>"
  have cut: "find_node key ?z = find_node key z \<or> find_node key ?z = None"
    using map_of_butlast [of "zn_queue z" key] by (simp add: find_node_def)
  show ?case
  proof (cases "n < 3 \<and> zn_queue z \<noteq> [] \<and> nd_count nd = 0 \<and> (n = 0 \<or> idle (zn_rate z) now nd)")
    case True
    then have "ngx_http_limit_req_expire n now z = ngx_http_limit_req_expire (n + 1) now ?z" using kn expire by auto
    then show ?thesis using 1 [OF _ kn [symmetric]] True cut by auto
  next
    case False
    then have "ngx_http_limit_req_expire n now z = z" using kn expire by auto
    then show ?thesis by simp
  qed
qed

lemma new_node_find:
  assumes "new_node k now True z = (rc, e, z')"
  shows "zn_rate z' = zn_rate z"
    and "k \<noteq> key \<Longrightarrow> find_node key z' = find_node key z \<or> find_node key z' = None"
    and "rc = NGX_OK \<Longrightarrow> find_node k z' = Some \<lparr>nd_last = now, nd_excess = 0, nd_count = 0\<rparr>"
    and "rc \<noteq> NGX_OK \<Longrightarrow> find_node key z' = find_node key z \<or> find_node key z' = None"
proof -
  define z1 where "z1 = ngx_http_limit_req_expire 1 now z"
  define z2 where "z2 = (if zn_room z1 = 0 then ngx_http_limit_req_expire 0 now z1 else z1)"
  have z2: "zn_rate z2 = zn_rate z" "find_node key z2 = find_node key z \<or> find_node key z2 = None" for key
    using expire_other [of key 1 now z, folded z1_def] expire_other [of key 0 now z1] by (auto simp: z2_def)
  have new: "new_node k now True z = (if zn_room z2 = 0 then (NGX_ERROR, 0, z2)
      else (NGX_OK, 0, z2\<lparr>zn_queue := (k, \<lparr>nd_last = now, nd_excess = 0, nd_count = 0\<rparr>) # zn_queue z2, zn_room := zn_room z2 - 1\<rparr>))"
    unfolding new_node_def Let_def z1_def [symmetric] z2_def [symmetric] by simp
  show "zn_rate z' = zn_rate z" using assms z2(1) by (auto simp: new split: if_splits)
  show "find_node key z' = find_node key z \<or> find_node key z' = None" if "k \<noteq> key"
    using assms z2(2) [of key] that by (auto simp: new find_node_def split: if_splits)
  show "find_node k z' = Some \<lparr>nd_last = now, nd_excess = 0, nd_count = 0\<rparr>" if "rc = NGX_OK"
    using assms that by (auto simp: new find_node_def split: if_splits)
  show "find_node key z' = find_node key z \<or> find_node key z' = None" if "rc \<noteq> NGX_OK"
    using assms z2(2) [of key] that by (auto simp: new split: if_splits)
qed

text \<open>A request for another key leaves the node as it is, or drives it out.\<close>

lemma lookup_other:
  assumes "ngx_http_limit_req_lookup l k now True z = (rc, e, z')" "k \<noteq> key"
  shows "find_node key z' = find_node key z \<or> find_node key z' = None" "zn_rate z' = zn_rate z"
  using assms new_node_find [of k now z rc e z']
  by (auto simp: ngx_http_limit_req_lookup_def Let_def split: option.splits if_splits)

text \<open>The clock goes forward from \<open>now\<close> to \<open>T\<close>; the node of the key, if any, is from \<open>t0\<close> on.  Nothing overflows.\<close>

definition bucket_ok :: "u64 \<Rightarrow> limit \<Rightarrow> limit_node option \<Rightarrow> int \<Rightarrow> int \<Rightarrow> int \<Rightarrow> bool" where
  "bucket_ok rate l node t0 now T \<longleftrightarrow> 0 \<le> t0 \<and> t0 \<le> now \<and> now \<le> T \<and> T < 2 ^ 62 \<and> uint rate * (T - t0) < 2 ^ 62
     \<and> uint (lm_burst l) < 2 ^ 62
     \<and> (case node of None \<Rightarrow> True
        | Some nd \<Rightarrow> t0 \<le> uint (nd_last nd) \<and> uint (nd_last nd) \<le> now \<and> uint (nd_excess nd) < 2 ^ 62)"

fun times_ok :: "int \<Rightarrow> u64 list \<Rightarrow> int \<Rightarrow> bool" where
  "times_ok now [] T \<longleftrightarrow> now \<le> T"
| "times_ok now (t # ts) T \<longleftrightarrow> now \<le> uint t \<and> times_ok (uint t) ts T"

lemma times_end: "times_ok now ts T \<Longrightarrow> now \<le> T"
  by (induction ts arbitrary: now) fastforce+

lemma bucket_ok_later: "bucket_ok rate l node t0 now T \<Longrightarrow> now \<le> now' \<Longrightarrow> now' \<le> T \<Longrightarrow> bucket_ok rate l node t0 now' T"
  by (auto simp: bucket_ok_def split: option.splits)

lemma bucket_ok_range:
  assumes "bucket_ok rate l (Some nd) t0 (uint now) T"
  shows "in_range rate nd now"
proof -
  have nd: "t0 \<le> uint (nd_last nd)" "uint now \<le> T" "uint rate * (T - t0) < 2 ^ 62" using assms by (simp_all add: bucket_ok_def)
  then have "uint rate * (uint now - uint (nd_last nd)) \<le> uint rate * (T - t0)"
    by (intro mult_left_mono) simp_all
  then show ?thesis using assms nd unfolding bucket_ok_def in_range_def by simp
qed

lemma account_last: "in_range rate nd now \<Longrightarrow> nd_last (account_node e now nd) = now"
  using elapsed_forward [of "nd_last nd" now] by (auto simp: account_node_def in_range_def word_uint_eq_iff)

lemma idle_excess:
  assumes "in_range rate nd now" "idle rate now nd"
  shows "uint (nd_excess nd) \<le> uint rate * (uint now - uint (nd_last nd)) div 1000"
proof -
  have le: "uint (nd_last nd) \<le> uint now" "uint now < 2 ^ 62" "uint (nd_excess nd) < 2 ^ 62"
      "uint rate * (uint now - uint (nd_last nd)) < 2 ^ 62" using assms(1) by (simp_all add: in_range_def)
  define ms where "ms = uint now - uint (nd_last nd)"
  have ms: "0 \<le> ms" "ms < 2 ^ 62" "uint rate * ms < 2 ^ 62" using le uint_ge_0 [of "nd_last nd"] unfolding ms_def by linarith+
  have "elapsed now (nd_last nd) = ms" using elapsed_forward [OF le(1,2)] by (simp add: ms_def)
  moreover have "uint (now - nd_last nd) = ms"
    using le(1) ms by (simp add: uint_word_ariths(2) ms_def)
  then have abs: "\<bar>sint (now - nd_last nd)\<bar> = ms" using ms(1,2) sint_small [of "now - nd_last nd"] by simp
  define L where "L = uint rate * ms div 1000"
  have "uint (of_int ms :: u64) = ms" using ms(1,2) by (simp add: uint_word_of_int_eq take_bit_int_eq_self)
  then have "uint (rate * of_int ms) = uint rate * ms" using ms(1,3) by (simp add: uint_word_ariths(3))
  then have leak: "uint (rate * of_int ms div 1000) = L" unfolding L_def by (simp add: uint_div)
  have L: "0 \<le> L" "L < 2 ^ 62" using ms(1,3) unfolding L_def by (simp_all add: pos_imp_zdiv_nonneg_iff)
  have x: "nd_excess nd - rate * of_int ms div 1000 = of_int (uint (nd_excess nd) - L)" by (simp flip: leak)
  have "- (2 ^ 62) < uint (nd_excess nd) - L" "uint (nd_excess nd) - L < 2 ^ 62"
    using L le(3) uint_ge_0 [of "nd_excess nd"] by linarith+
  then have "sint (nd_excess nd - rate * of_int ms div 1000) = uint (nd_excess nd) - L"
    unfolding x by (intro sint_of_int_small) simp_all
  then show ?thesis using assms(2) by (simp add: idle_def Let_def abs L_def ms_def)
qed

lemma div_sum_le: "(a div 1000) + (b div 1000) \<le> (a + b) div 1000" for a b :: int
  by linarith

text \<open>
  What the requests for a key may still be given up to \<open>T\<close>, in thousandths: what its bucket has left of the burst, and
  what leaks out of it.
\<close>

definition lent :: "limit \<Rightarrow> ngx_str \<Rightarrow> limit_zone \<Rightarrow> int \<Rightarrow> int \<Rightarrow> int" where
  "lent l key z now T =
     (case find_node key z of
        None \<Rightarrow> uint (lm_burst l) + uint (zn_rate z) * (T - now) div 1000
      | Some nd \<Rightarrow> max (uint (nd_excess nd)) (uint (lm_burst l)) - uint (nd_excess nd)
          + uint (zn_rate z) * (T - uint (nd_last nd)) div 1000)"

lemma leak_sum: "0 \<le> rate \<Longrightarrow> rate * (T - b) div 1000 + rate * (b - a) div 1000 \<le> rate * (T - a) div 1000" for rate :: int
  using div_sum_le [of "rate * (T - b)" "rate * (b - a)"] by (simp add: algebra_simps)

lemma leak_mono: "0 \<le> rate \<Longrightarrow> a \<le> b \<Longrightarrow> rate * (T - b) div 1000 \<le> rate * (T - a) div 1000" for rate :: int
  by (intro zdiv_mono1 mult_left_mono) simp_all

lemma charge_lent:
  "e = max 0 (x - d + 1000) \<Longrightarrow> a + d \<le> c \<Longrightarrow> e \<le> burst \<Longrightarrow> 1000 + (max e burst - e + a) \<le> max x burst - x + c"
  for e x d a c burst :: int
  by (simp add: max_def split: if_splits)

lemma max_rest: "0 \<le> x \<Longrightarrow> 0 \<le> burst \<Longrightarrow> max x burst - x \<le> burst" for x burst :: int
  by (simp add: max_def)

text \<open>One request for another key.\<close>

lemma other_lent:
  assumes "ngx_http_limit_req_lookup l k t True z = (rc, e, z')" "k \<noteq> key"
    and "bucket_ok (zn_rate z) l (find_node key z) t0 now T" "now \<le> uint t" "uint t \<le> T"
  shows "bucket_ok (zn_rate z') l (find_node key z') t0 (uint t) T
    \<and> lent l key z' (uint t) T \<le> lent l key z now T + uint (lm_burst l) * int (driven_out key [(z, k, t, rc, z')])"
proof -
  note other = lookup_other [OF assms(1,2)]
  note later = bucket_ok_later [OF assms(3,4,5)]
  show ?thesis
  proof (cases "find_node key z' = find_node key z")
    case True
    then have "lent l key z' (uint t) T \<le> lent l key z now T"
      using other(2) leak_mono [OF uint_ge_0 assms(4)] by (auto simp: lent_def split: option.split)
    then show ?thesis using True other(2) later uint_ge_0 [of "lm_burst l"]
      by (simp add: add_increasing2)
  next
    case False
    then obtain nd where nd: "find_node key z = Some nd" "find_node key z' = None" using other(1) by fastforce
    have "bucket_ok (zn_rate z') l None t0 (uint t) T" using later other(2) by (simp add: bucket_ok_def)
    moreover have range: "in_range (zn_rate z) nd t" using later nd(1) by (intro bucket_ok_range) simp
    then have sum: "uint (zn_rate z) * (T - uint t) div 1000 + uint (zn_rate z) * (uint t - uint (nd_last nd)) div 1000
        \<le> uint (zn_rate z) * (T - uint (nd_last nd)) div 1000" by (intro leak_sum) simp
    have "lent l key z' (uint t) T \<le> lent l key z now T + (if idle (zn_rate z) t nd then 0 else uint (lm_burst l))"
    proof (cases "idle (zn_rate z) t nd")
      case True
      then show ?thesis using idle_excess [OF range True] sum nd other(2) by (simp add: lent_def)
    next
      case False
      have "uint (zn_rate z) * (T - uint t) div 1000 \<le> uint (zn_rate z) * (T - uint (nd_last nd)) div 1000"
        using range by (intro leak_mono) (simp_all add: in_range_def)
      then show ?thesis using False nd other(2) by (simp add: lent_def)
    qed
    moreover have "driven_out key [(z, k, t, rc, z')] = (if idle (zn_rate z) t nd then 0 else 1)"
      using nd by (simp add: driven_out_def)
    ultimately show ?thesis using nd(2) by (simp split: if_splits)
  qed
qed

text \<open>One request for the key.\<close>

lemma same_lent:
  assumes "ngx_http_limit_req_lookup l key t True z = (rc, e, z')"
    and "bucket_ok (zn_rate z) l (find_node key z) t0 now T" "now \<le> uint t" "uint t \<le> T"
  shows "bucket_ok (zn_rate z') l (find_node key z') t0 (uint t) T
    \<and> 1000 * of_bool (rc = NGX_OK) + lent l key z' (uint t) T
        \<le> lent l key z now T + 1000 * of_bool (rc = NGX_OK \<and> find_node key z = None)"
proof (cases "find_node key z")
  case None
  then have new: "new_node key t True z = (rc, e, z')" using assms(1) by (simp add: ngx_http_limit_req_lookup_def)
  note later = bucket_ok_later [OF assms(2-4)]
  note found = new_node_find [OF new]
  have mono: "uint (zn_rate z) * (T - uint t) div 1000 \<le> uint (zn_rate z) * (T - now) div 1000"
    using assms(3) by (intro leak_mono) simp_all
  show ?thesis
  proof (cases "rc = NGX_OK")
    case True
    then show ?thesis using found(1,3) None later mono uint_ge_0 [of "lm_burst l"]
      by (auto simp: lent_def bucket_ok_def)
  next
    case False
    then have "find_node key z' = None" using found(4) [of key] None by auto
    then show ?thesis using False found(1) None later mono by (simp add: lent_def bucket_ok_def)
  qed
next
  case (Some nd)
  note later = bucket_ok_later [OF assms(2-4)]
  have range: "in_range (zn_rate z) nd t" using later Some by (intro bucket_ok_range) simp
  let ?e = "charged (zn_rate z) nd t"
  show ?thesis
  proof (cases "?e > lm_burst l")
    case True
    then have "rc = NGX_BUSY" "z' = move_to_head key nd z"
      using assms(1) Some by (simp_all add: ngx_http_limit_req_lookup_def Let_def)
    then show ?thesis using Some later by (simp add: lent_def)
  next
    case False
    define nd1 where "nd1 = account_node ?e t nd"
    have z': "rc = NGX_OK" "z' = move_to_head key nd1 z"
      using assms(1) Some False by (auto simp: ngx_http_limit_req_lookup_def Let_def nd1_def)
    have nd1: "nd_last nd1 = t" "nd_excess nd1 = ?e" "uint ?e \<le> uint (lm_burst l)"
      using account_last [OF range] False by (simp_all add: nd1_def account_node_def word_le_def not_less)
    have "uint (zn_rate z) * (T - uint t) div 1000 + uint (zn_rate z) * (uint t - uint (nd_last nd)) div 1000
        \<le> uint (zn_rate z) * (T - uint (nd_last nd)) div 1000" by (intro leak_sum) simp
    then have "1000 + lent l key z' (uint t) T \<le> lent l key z now T"
      using charge_lent [OF charged_int [OF range], of "uint (zn_rate z) * (T - uint t) div 1000"
          "uint (zn_rate z) * (T - uint (nd_last nd)) div 1000" "uint (lm_burst l)"] Some z'(2) nd1
      by (simp add: lent_def)
    moreover have "bucket_ok (zn_rate z') l (Some nd1) t0 (uint t) T"
      using later Some z'(2) nd1 by (simp add: bucket_ok_def)
    ultimately show ?thesis using z' Some by simp
  qed
qed

lemma admitted_bound:
  "bucket_ok (zn_rate z) l (find_node key z) t0 now T \<Longrightarrow> times_ok now (map snd rs) T \<Longrightarrow>
    1000 * int (admitted key (zone_run l rs z))
    \<le> lent l key z now T + uint (lm_burst l) * int (driven_out key (zone_run l rs z))
      + 1000 * int (restarted key (zone_run l rs z))"
proof (induction rs arbitrary: z now)
  case Nil
  have "0 \<le> lent l key z now T"
    using Nil uint_ge_0 [of "lm_burst l"]
    by (auto simp: lent_def bucket_ok_def pos_imp_zdiv_nonneg_iff split: option.splits intro!: add_nonneg_nonneg)
  then show ?case by (simp add: log_counts)
next
  case (Cons r rs)
  obtain k t where r: "r = (k, t)" by fastforce
  obtain rc e z' where look: "ngx_http_limit_req_lookup l k t True z = (rc, e, z')" by (metis prod_cases3)
  have t: "now \<le> uint t" "times_ok (uint t) (map snd rs) T" "uint t \<le> T"
    using Cons.prems(2) times_end r by auto
  have run: "zone_run l (r # rs) z = (z, k, t, rc, z') # zone_run l rs z'" by (simp add: r look)
  show ?case
  proof (cases "k = key")
    case True
    note step = same_lent [OF look [unfolded True] Cons.prems(1) t(1,3)]
    have "driven_out key [(z, k, t, rc, z')] \<ge> 0" by simp
    have gone: "int (driven_out key (zone_run l rs z')) \<le> int (driven_out key (zone_run l (r # rs) z))"
      by (simp add: run driven_out_def)
    have "uint (lm_burst l) * int (driven_out key (zone_run l rs z'))
        \<le> uint (lm_burst l) * int (driven_out key (zone_run l (r # rs) z))"
      by (rule mult_left_mono [OF gone uint_ge_0])
    then show ?thesis using Cons.IH [OF conjunct1 [OF step] t(2)] conjunct2 [OF step] True
      by (auto simp: run admitted_def restarted_def split: if_splits)
  next
    case False
    note step = other_lent [OF look False Cons.prems(1) t(1,3)]
    have "driven_out key (zone_run l (r # rs) z)
        = driven_out key [(z, k, t, rc, z')] + driven_out key (zone_run l rs z')"
      by (simp add: run driven_out_def)
    then have "uint (lm_burst l) * int (driven_out key (zone_run l (r # rs) z))
        = uint (lm_burst l) * int (driven_out key [(z, k, t, rc, z')])
          + uint (lm_burst l) * int (driven_out key (zone_run l rs z'))" by (simp add: algebra_simps)
    then show ?thesis using Cons.IH [OF conjunct1 [OF step] t(2)] conjunct2 [OF step] False
      by (simp add: run admitted_def restarted_def)
  qed
qed

section \<open>References are given back\<close>

text \<open>Between requests no node is referenced; a lookup without accounting holds one.\<close>

definition quiet :: "limit_zone \<Rightarrow> bool" where
  "quiet z \<longleftrightarrow> zn_node z = None \<and> (\<forall>(k, nd)\<in>set (zn_queue z). nd_count nd = 0)"

definition held :: "limit_zone \<Rightarrow> bool" where
  "held z \<longleftrightarrow> (\<exists>key nd. zn_node z = Some key \<and> find_node key z = Some nd \<and> nd_count nd = 1
     \<and> (\<forall>(k, n)\<in>set (zn_queue z). k \<noteq> key \<longrightarrow> nd_count n = 0))"

lemma find_node_in: "find_node key z = Some nd \<Longrightarrow> (key, nd) \<in> set (zn_queue z)"
  by (simp add: find_node_def map_of_SomeD)

lemma quiet_expire: "quiet z \<Longrightarrow> quiet (ngx_http_limit_req_expire n now z)"
proof (induction n now z rule: ngx_http_limit_req_expire.induct)
  case (1 n now z)
  obtain key nd where l: "last (zn_queue z) = (key, nd)" by (cases "last (zn_queue z)")
  have "quiet (z\<lparr>zn_queue := butlast (zn_queue z), zn_room := zn_room z + 1\<rparr>)"
    using 1(2) by (auto simp: quiet_def dest: in_set_butlastD)
  then show ?case
    using 1 l by (subst ngx_http_limit_req_expire.simps) auto
qed

lemma lookup_quiet:
  assumes "quiet z" "ngx_http_limit_req_lookup l key now account z = (rc, excess, z')"
  shows "rc \<in> {NGX_OK, NGX_BUSY, NGX_ERROR, NGX_AGAIN} \<and> (if rc = NGX_AGAIN then held z' else quiet z')"
proof (cases "find_node key z")
  case None
  let ?z1 = "ngx_http_limit_req_expire 1 now z"
  let ?z2 = "if zn_room ?z1 = 0 then ngx_http_limit_req_expire 0 now ?z1 else ?z1"
  have "quiet ?z2" using assms(1) quiet_expire by simp
  then show ?thesis
    using assms(2) None
    by (auto simp: ngx_http_limit_req_lookup_def new_node_def Let_def quiet_def held_def find_node_def split: if_splits)
next
  case (Some nd)
  have zero: "nd_count nd = 0" using find_node_in [OF Some] assms(1) by (auto simp: quiet_def)
  have other: "\<forall>(k, n)\<in>set (remove_node key (zn_queue z)). nd_count n = 0"
    using assms(1) by (auto simp: quiet_def remove_node_def)
  show ?thesis
    using assms Some zero other
    by (auto simp: ngx_http_limit_req_lookup_def Let_def quiet_def held_def move_to_head_def account_node_def
        find_node_def split: if_splits)
qed

lemma set_node_quiet:
  assumes "held z" "zn_node z = Some key" "nd_count nd = 0"
  shows "quiet ((set_node key nd z)\<lparr>zn_node := None\<rparr>)"
  using assms by (auto simp: held_def quiet_def set_node_def split: if_splits)

lemma held_node: "held z \<Longrightarrow> \<exists>key nd. zn_node z = Some key \<and> find_node key z = Some nd \<and> nd_count nd = 1"
  by (auto simp: held_def)

lemma account_quiet: "quiet z \<or> held z \<Longrightarrow> quiet (fst (account_zone now l z d))"
proof (elim disjE)
  assume "quiet z"
  then show ?thesis by (simp add: account_zone_def quiet_def)
next
  assume h: "held z"
  from held_node [OF h] obtain key nd where k: "zn_node z = Some key" "find_node key z = Some nd" "nd_count nd = 1" by blast
  show ?thesis
    using set_node_quiet [OF h k(1)] k by (simp add: account_zone_def Let_def account_node_def)
qed

lemma unlock_quiet: "quiet z \<or> held z \<Longrightarrow> quiet (unlock_zone z)"
proof (elim disjE)
  assume "quiet z"
  then show ?thesis by (simp add: unlock_zone_def quiet_def)
next
  assume h: "held z"
  from held_node [OF h] obtain key nd where k: "zn_node z = Some key" "find_node key z = Some nd" "nd_count nd = 1" by blast
  show ?thesis using set_node_quiet [OF h k(1)] k by (simp add: unlock_zone_def)
qed

abbreviation all_quiet :: "limits \<Rightarrow> bool" where
  "all_quiet ls \<equiv> \<forall>(l, z)\<in>set ls. quiet z"

abbreviation settled :: "limits \<Rightarrow> bool" where
  "settled ls \<equiv> \<forall>(l, z)\<in>set ls. quiet z \<or> held z"

lemma account_zones_quiet: "settled ls \<Longrightarrow> all_quiet (fst (account_zones now ls d))"
proof (induction ls)
  case (Cons lz ls)
  obtain l z where lz: "lz = (l, z)" by (cases lz)
  obtain ls' d' where a: "account_zones now ls d = (ls', d')" by (cases "account_zones now ls d")
  obtain z' d'' where b: "account_zone now l z d' = (z', d'')" by (cases "account_zone now l z d'")
  have "quiet z'" using account_quiet [of z now l d'] Cons.prems lz b by simp
  moreover have "all_quiet ls'" using Cons a by simp
  ultimately show ?case by (simp add: lz a b)
qed simp

lemma unlocked_quiet: "settled ls \<Longrightarrow> all_quiet (ngx_http_limit_req_unlock ls)"
  using unlock_quiet by (auto simp: ngx_http_limit_req_unlock_def)

lemma handler_loop_quiet:
  assumes "settled before" "rc = NGX_DECLINED \<longrightarrow> all_quiet before" "rc \<noteq> NGX_DECLINED \<longrightarrow> lr \<noteq> None"
    "\<forall>(l, z, k)\<in>set ls. quiet z"
  shows "case handler_loop now rc excess lr before ls of
      key_failed ls' \<Rightarrow> all_quiet ls'
    | looked rc' excess' lr' before' rest \<Rightarrow> settled before' \<and> all_quiet rest
        \<and> (rc' = NGX_DECLINED \<longrightarrow> all_quiet before') \<and> (rc' \<noteq> NGX_DECLINED \<longrightarrow> lr' \<noteq> None)"
  using assms
proof (induction now rc excess lr before ls rule: handler_loop.induct)
  case (2 now rc excess lr before l z key rest)
  have rest: "all_quiet (map (\<lambda>(l, z, k). (l, z)) rest)" using 2(6) by auto
  have z: "quiet z" using 2(6) by simp
  show ?case
  proof (cases key)
    case None
    have "all_quiet (ngx_http_limit_req_unlock (rev before))" by (rule unlocked_quiet) (use 2(3) in auto)
    then show ?thesis using None rest z by auto
  next
    case (Some k)
    show ?thesis
    proof (cases "length k = 0 \<or> length k > 65535")
      case True
      then show ?thesis using 2(1) [OF Some True] Some 2(3-6) z by auto
    next
      case False
      obtain rc1 e1 z1 where look: "ngx_http_limit_req_lookup l k now (rest = []) z = (rc1, e1, z1)"
        by (cases "ngx_http_limit_req_lookup l k now (rest = []) z")
      note q = lookup_quiet [OF z look]
      show ?thesis
      proof (cases "rc1 = NGX_AGAIN")
        case again: True
        have "\<not> rc1 \<noteq> NGX_AGAIN" using again by simp
        from 2(2) [OF Some False look [symmetric] refl this] show ?thesis
          using 2(3,6) q look Some False again by auto
      next
        case other: False
        then show ?thesis using look Some False q rest 2(3) by auto
      qed
    qed
  qed
qed simp

lemma handler_quiet:
  assumes "\<forall>(l, z, k)\<in>set ls. quiet z"
  shows "all_quiet (snd (ngx_http_limit_req_handler dry_run now ls))"
proof -
  note loop = handler_loop_quiet [of "[]" NGX_DECLINED None ls now 0, simplified, OF assms]
  show ?thesis
  proof (cases "handler_loop now NGX_DECLINED 0 None [] ls")
    case (key_failed ls')
    then show ?thesis using loop by (simp add: ngx_http_limit_req_handler_def)
  next
    case (looked rc excess lr before rest)
    then have facts: "settled before" "all_quiet rest" "rc = NGX_DECLINED \<longrightarrow> all_quiet before"
        "rc \<noteq> NGX_DECLINED \<longrightarrow> lr \<noteq> None" using loop by auto
    have acc: "all_quiet (fst (ngx_http_limit_req_account now before e x))" for e x
      using account_zones_quiet [OF facts(1)] by (simp add: ngx_http_limit_req_account_def)
    consider "rc = NGX_DECLINED" | "rc = NGX_BUSY \<or> rc = NGX_ERROR"
      | x where "rc \<noteq> NGX_DECLINED" "\<not> (rc = NGX_BUSY \<or> rc = NGX_ERROR)" "lr = Some x"
      using facts(4) by blast
    then show ?thesis
    proof cases
      case 1
      then show ?thesis using facts(2,3) looked by (auto simp: ngx_http_limit_req_handler_def)
    next
      case 2
      then show ?thesis
        using facts(2) unlocked_quiet [OF facts(1)] looked by (auto simp: ngx_http_limit_req_handler_def)
    next
      case (3 x)
      obtain b d where bd: "ngx_http_limit_req_account now before (if rc = NGX_AGAIN then 0 else excess) x = (b, d)"
        by (cases "ngx_http_limit_req_account now before (if rc = NGX_AGAIN then 0 else excess) x")
      then have "all_quiet b" using acc [of "if rc = NGX_AGAIN then 0 else excess" x] by simp
      then show ?thesis
        using 3 bd facts(2) looked by (simp add: ngx_http_limit_req_handler_def ball_Un)
    qed
  qed
qed

section \<open>Properties\<close>

text \<open>C16: The rate limit is kept, whatever is asked for in between.  Requests with any keys pass through a zone that is
  the last limit of their location, in the order of their times, which go on from \<open>t0\<close>, the time in the node of a key
  if it has one, up to \<open>T\<close>, with all numbers below 2 to the 62.  In thousandths, the requests of that key that are admitted
  are at most the burst and the rate times \<open>T - t0\<close>; plus the burst for each time the node of the key was driven out of
  a full zone before it was idle, and one request for each that found no node.  So while the key keeps its node, burst
  and rate bound what is admitted, with the code's rounding, its words and its signed comparison.  A zone too
  small for its keys does not keep the limit: \<open>full_zone_forgets\<close> below.\<close>

theorem limit_req_rate:
  assumes "times_ok t0 (map snd rs) T" "0 \<le> t0" "T < 2 ^ 62" "uint (zn_rate z) * (T - t0) < 2 ^ 62" "uint (lm_burst l) < 2 ^ 62"
    and "\<forall>nd. find_node key z = Some nd \<longrightarrow> uint (nd_last nd) = t0 \<and> uint (nd_excess nd) < 2 ^ 62"
  shows "1000 * int (admitted key (zone_run l rs z))
    \<le> uint (lm_burst l) * (1 + int (driven_out key (zone_run l rs z)))
      + 1000 * int (restarted key (zone_run l rs z)) + uint (zn_rate z) * (T - t0) div 1000"
proof -
  have ok: "bucket_ok (zn_rate z) l (find_node key z) t0 t0 T"
    using assms times_end [OF assms(1)] by (auto simp: bucket_ok_def split: option.split)
  have "lent l key z t0 T \<le> uint (lm_burst l) + uint (zn_rate z) * (T - t0) div 1000"
    using assms(6) max_rest [OF uint_ge_0 uint_ge_0] by (auto simp: lent_def split: option.split)
  then show ?thesis using admitted_bound [OF ok assms(1)] by (simp add: algebra_simps)
qed

definition two_keys :: limit_zone where
  "two_keys = \<lparr>zn_rate = 1000, zn_queue = [(bytes ''a'', \<lparr>nd_last = 100, nd_excess = 0, nd_count = 0\<rparr>)], zn_room = 1, zn_node = None\<rparr>"

theorem limit_req_rate_witness:
  "let log = zone_run \<lparr>lm_burst = 2000, lm_delay = 0\<rparr>
       [(bytes ''a'', 100), (bytes ''b'', 100), (bytes ''a'', 150), (bytes ''a'', 300), (bytes ''b'', 400), (bytes ''a'', 5000)] two_keys in
   1000 * int (admitted (bytes ''a'') log)
     \<le> 2000 * (1 + int (driven_out (bytes ''a'') log)) + 1000 * int (restarted (bytes ''a'') log) + 4900"
proof -
  let ?rs = "[(bytes ''a'', 100), (bytes ''b'', 100), (bytes ''a'', 150), (bytes ''a'', 300), (bytes ''b'', 400), (bytes ''a'', 5000)]"
  have "find_node (bytes ''a'') two_keys = Some \<lparr>nd_last = 100, nd_excess = 0, nd_count = 0\<rparr>" "zn_rate two_keys = 1000"
    by (simp_all add: find_node_def two_keys_def)
  then show ?thesis
    using limit_req_rate [of 100 ?rs 5000 two_keys "\<lparr>lm_burst = 2000, lm_delay = 0\<rparr>" "bytes ''a''"]
    by (simp add: Let_def del: zone_run.simps)
qed

text \<open>
  In a zone with room for one node a request drives the node of the other key out, whatever its excess, and starts with
  none of its own: two keys in turn are always admitted.
\<close>

lemma full_zone_forgets:
  assumes "zn_room z = 0" "zn_queue z = [(other, nd)]" "nd_count nd = 0" "other \<noteq> key" "\<not> idle (zn_rate z) now nd"
  shows "ngx_http_limit_req_lookup l key now True z
    = (NGX_OK, 0, z\<lparr>zn_queue := [(key, \<lparr>nd_last = now, nd_excess = 0, nd_count = 0\<rparr>)]\<rparr>)"
proof -
  have one: "ngx_http_limit_req_expire 1 now z = z"
    using assms by (subst ngx_http_limit_req_expire.simps) simp
  let ?z = "z\<lparr>zn_queue := [], zn_room := 1\<rparr>"
  have "ngx_http_limit_req_expire (0 + 1) now ?z = ?z" by (subst ngx_http_limit_req_expire.simps) simp
  then have zero: "ngx_http_limit_req_expire 0 now z = ?z"
    using assms by (subst ngx_http_limit_req_expire.simps) simp
  have "find_node key z = None" using assms by (simp add: find_node_def)
  then show ?thesis using assms(1)
    by (simp add: ngx_http_limit_req_lookup_def new_node_def one [simplified] zero Let_def)
qed

text \<open>A client that waits is served: once the bucket has leaked so much that one more request fits
  into the burst, the next lookup does not refuse it.\<close>

theorem limit_req_admits:
  assumes "find_node key z = Some nd" "in_range (zn_rate z) nd now"
    and "uint (nd_excess nd) + 1000 \<le> uint (lm_burst l) + uint (zn_rate z) * (uint now - uint (nd_last nd)) div 1000"
  shows "fst (ngx_http_limit_req_lookup l key now account z) = (if account then NGX_OK else NGX_AGAIN)"
proof -
  have "uint (charged (zn_rate z) nd now) \<le> uint (lm_burst l)"
    using charged_int [OF assms(2)] assms(3) uint_ge_0 [of "lm_burst l"] by linarith
  then have "\<not> charged (zn_rate z) nd now > lm_burst l" by (simp add: word_le_def not_less)
  then show ?thesis using assms(1) by (simp add: ngx_http_limit_req_lookup_def Let_def)
qed

theorem limit_req_admits_witness:
  "fst (ngx_http_limit_req_lookup \<lparr>lm_burst = 0, lm_delay = 0\<rparr> (bytes ''a'') 1600 True
     \<lparr>zn_rate = 2000, zn_queue = [(bytes ''a'', \<lparr>nd_last = 1000, nd_excess = 0, nd_count = 0\<rparr>)], zn_room = 0, zn_node = None\<rparr>) = NGX_OK"
  using limit_req_admits [of "bytes ''a''" "\<lparr>zn_rate = 2000, zn_queue = [(bytes ''a'', \<lparr>nd_last = 1000, nd_excess = 0, nd_count = 0\<rparr>)],
      zn_room = 0, zn_node = None\<rparr>" "\<lparr>nd_last = 1000, nd_excess = 0, nd_count = 0\<rparr>" 1600 "\<lparr>lm_burst = 0, lm_delay = 0\<rparr>" True]
  by (simp add: find_node_def in_range_def)

text \<open>C34: References are given back: when no node of any zone is referenced before a request, none is
  after it, whether it is passed, delayed, refused at any of its limits, or fails because a key
  cannot be evaluated or memory has run out; so every idle node can expire.\<close>

theorem limit_req_references:
  assumes "\<forall>(l, z, k)\<in>set ls. quiet z"
  shows "\<forall>(l, z)\<in>set (snd (ngx_http_limit_req_handler dry_run now ls)). quiet z"
  by (rule handler_quiet [OF assms])

theorem limit_req_references_witness:
  "list_all (\<lambda>(l, z). quiet z) (snd (ngx_http_limit_req_handler False 5
     [(\<lparr>lm_burst = 0, lm_delay = 0\<rparr>, \<lparr>zn_rate = 1, zn_queue = [], zn_room = 1, zn_node = None\<rparr>, Some (bytes ''a'')),
      (\<lparr>lm_burst = 0, lm_delay = 0\<rparr>, \<lparr>zn_rate = 1, zn_queue = [], zn_room = 0, zn_node = None\<rparr>, Some (bytes ''b''))]))"
  unfolding list_all_iff by (rule limit_req_references) (simp add: quiet_def)

end
