(* ===== verification/Ngx_Round_Robin.thy ===== *)
theory Ngx_Round_Robin
  imports Ngx_Prelude
begin

text \<open>
  The weighted balancer of \<^verbatim>\<open>http/ngx_http_upstream_round_robin.c\<close>: the choice of a peer for a
  request, the report of its failure, and the fall back to the backup servers.  The peers of
  a group are a list in the order of their links, a peer is its position in it; the bits of
  \<^verbatim>\<open>rrp->tried\<close> are words as in the code.  Weights and times are integers: they are signed in
  the code and far from the limits of their types, which a signed overflow would leave undefined.
\<close>

section \<open>Peers\<close>

record rr_peer =
  current_weight :: int
  effective_weight :: int
  weight :: int
  conns :: u64
  max_conns :: u64
  fails :: u64
  accessed :: int
  checked :: int
  max_fails :: u64
  fail_timeout :: int
  down :: bool

record rr_peers =
  rp_single :: bool
  rp_peers :: "rr_peer list"

text \<open>\<^verbatim>\<open>n = i / (8 * sizeof(uintptr_t)); m = (uintptr_t) 1 << i % (8 * sizeof(uintptr_t))\<close>\<close>

definition is_tried :: "u64 list \<Rightarrow> nat \<Rightarrow> bool" where
  "is_tried tried i \<longleftrightarrow> tried ! (i div 64) AND push_bit (i mod 64) 1 \<noteq> 0"

definition set_tried :: "u64 list \<Rightarrow> nat \<Rightarrow> u64 list" where
  "set_tried tried i = tried[i div 64 := tried ! (i div 64) OR push_bit (i mod 64) 1]"

section \<open>The choice\<close>

text \<open>A peer that the loop looks at and does not skip.\<close>

definition usable :: "int \<Rightarrow> rr_peer \<Rightarrow> bool" where
  "usable now p \<longleftrightarrow> \<not> down p
     \<and> \<not> (max_fails p \<noteq> 0 \<and> fails p \<ge> max_fails p \<and> now - checked p \<le> fail_timeout p)
     \<and> \<not> (max_conns p \<noteq> 0 \<and> conns p \<ge> max_conns p)"

definition raised :: "rr_peer \<Rightarrow> rr_peer" where
  "raised p = p\<lparr>current_weight := current_weight p + effective_weight p,
     effective_weight := (if effective_weight p < weight p then effective_weight p + 1 else effective_weight p)\<rparr>"

text \<open>
  The loop from peer \<open>i\<close> on: the peers as it leaves them, the sum of the weights, and the best
  peer with its current weight, the first of those with the highest.
\<close>

fun get_peer_loop :: "int \<Rightarrow> u64 list \<Rightarrow> nat \<Rightarrow> rr_peer list \<Rightarrow> int \<Rightarrow> (nat \<times> int) option \<Rightarrow>
    rr_peer list \<times> int \<times> (nat \<times> int) option" where
  "get_peer_loop now tried i [] tot best = ([], tot, best)"
| "get_peer_loop now tried i (p # ps) tot best =
     (if is_tried tried i \<or> \<not> usable now p
      then (case get_peer_loop now tried (i + 1) ps tot best of (ps, tot, best) \<Rightarrow> (p # ps, tot, best))
      else
        let tot = tot + effective_weight p;
            p = raised p;
            best = (case best of
                      None \<Rightarrow> Some (i, current_weight p)
                    | Some (j, w) \<Rightarrow> if current_weight p > w then Some (i, current_weight p) else Some (j, w)) in
        (case get_peer_loop now tried (i + 1) ps tot best of (ps, tot, best) \<Rightarrow> (p # ps, tot, best)))"

definition chosen_peer :: "int \<Rightarrow> int \<Rightarrow> rr_peer \<Rightarrow> rr_peer" where
  "chosen_peer now tot p =
     p\<lparr>current_weight := current_weight p - tot,
       checked := (if now - checked p > fail_timeout p then now else checked p)\<rparr>"

definition ngx_http_upstream_get_peer :: "int \<Rightarrow> u64 list \<Rightarrow> rr_peer list \<Rightarrow> nat option \<times> u64 list \<times> rr_peer list" where
  "ngx_http_upstream_get_peer now tried ps =
     (case get_peer_loop now tried 0 ps 0 None of
        (ps, tot, None) \<Rightarrow> (None, tried, ps)
      | (ps, tot, Some (best, w)) \<Rightarrow>
          (Some best, set_tried tried best, ps[best := chosen_peer now tot (ps ! best)]))"

text \<open>
  The groups from \<^verbatim>\<open>rrp->peers\<close> on, each followed by its backup group, the first with number \<open>k\<close>:
  the peer that was chosen, by the number of its group and its position, the bits tried in that
  group, and the groups.
\<close>

definition tried_words :: "nat \<Rightarrow> nat" where
  "tried_words number = (number + 63) div 64"

definition connected :: "nat \<Rightarrow> rr_peers \<Rightarrow> rr_peers" where
  "connected i g = g\<lparr>rp_peers := (rp_peers g)[i := (rp_peers g ! i)\<lparr>conns := conns (rp_peers g ! i) + 1\<rparr>]\<rparr>"

definition get_in_group :: "int \<Rightarrow> u64 list \<Rightarrow> rr_peers \<Rightarrow> nat option \<times> u64 list \<times> rr_peers" where
  "get_in_group now tried g =
     (if rp_single g then
        let p = rp_peers g ! 0 in
        if down p \<or> (max_conns p \<noteq> 0 \<and> conns p \<ge> max_conns p) then (None, tried, g)
        else (Some 0, tried, connected 0 g)
      else
        case ngx_http_upstream_get_peer now tried (rp_peers g) of
          (None, tried, ps) \<Rightarrow> (None, tried, g\<lparr>rp_peers := ps\<rparr>)
        | (Some i, tried, ps) \<Rightarrow> (Some i, tried, connected i (g\<lparr>rp_peers := ps\<rparr>)))"

fun ngx_http_upstream_get_round_robin_peer ::
    "int \<Rightarrow> nat \<Rightarrow> u64 list \<Rightarrow> rr_peers list \<Rightarrow> (nat \<times> nat) option \<times> u64 list \<times> rr_peers list" where
  "ngx_http_upstream_get_round_robin_peer now k tried [] = (None, tried, [])"
| "ngx_http_upstream_get_round_robin_peer now k tried (g # gs) =
     (case get_in_group now tried g of
        (Some i, tried, g) \<Rightarrow> (Some (k, i), tried, g # gs)
      | (None, tried, g) \<Rightarrow>
          if gs = [] then (None, tried, [g])
          else
            let n = tried_words (length (rp_peers (hd gs)));
                tried = replicate n 0 @ drop n tried in
            (case ngx_http_upstream_get_round_robin_peer now (k + 1) tried gs of
               (r, tried, gs) \<Rightarrow> (r, tried, g # gs)))"

section \<open>The report\<close>

text \<open>
  \<^verbatim>\<open>peer->weight / peer->max_fails\<close> is a division of two counts, since no weight is negative;
  the effective weight does not go below zero.
\<close>

definition failed_peer :: "int \<Rightarrow> rr_peer \<Rightarrow> rr_peer" where
  "failed_peer now p =
     (let w = (if max_fails p \<noteq> 0 then effective_weight p - weight p div uint (max_fails p) else effective_weight p) in
      p\<lparr>fails := fails p + 1, accessed := now, checked := now, effective_weight := (if w < 0 then 0 else w)\<rparr>)"

definition live_peer :: "rr_peer \<Rightarrow> rr_peer" where
  "live_peer p = (if accessed p < checked p then p\<lparr>fails := 0\<rparr> else p)"

definition ngx_http_upstream_free_round_robin_peer :: "int \<Rightarrow> bool \<Rightarrow> nat \<Rightarrow> rr_peers \<Rightarrow> nat \<Rightarrow> rr_peers \<times> nat" where
  "ngx_http_upstream_free_round_robin_peer now peer_failed i g tries =
     (let p = rp_peers g ! i in
      if rp_single g then (g\<lparr>rp_peers := (rp_peers g)[i := p\<lparr>conns := conns p - 1\<rparr>]\<rparr>, 0)
      else
        let p = (if peer_failed then failed_peer now p else live_peer p) in
        (g\<lparr>rp_peers := (rp_peers g)[i := p\<lparr>conns := conns p - 1\<rparr>]\<rparr>, tries - 1))"

section \<open>Weights stay in range\<close>

definition weight_ok :: "rr_peer \<Rightarrow> bool" where
  "weight_ok p \<longleftrightarrow> 0 \<le> effective_weight p \<and> effective_weight p \<le> weight p"

lemma raised_ok: "weight_ok p \<Longrightarrow> weight_ok (raised p)"
  by (simp add: weight_ok_def raised_def)

lemma failed_ok: "weight_ok p \<Longrightarrow> weight_ok (failed_peer now p)"
proof -
  assume ok: "weight_ok p"
  then have "0 \<le> weight p div uint (max_fails p)"
    by (simp add: weight_ok_def div_int_pos_iff)
  then show ?thesis using ok by (auto simp: weight_ok_def failed_peer_def Let_def)
qed

section \<open>The loop when no peer is skipped\<close>

text \<open>A peer in normal service: its failures are below the limit and its weight is whole.\<close>

definition steady :: "rr_peer \<Rightarrow> bool" where
  "steady p \<longleftrightarrow> \<not> down p \<and> (max_fails p = 0 \<or> fails p < max_fails p) \<and> max_conns p = 0
     \<and> effective_weight p = weight p \<and> 0 < weight p"

lemma steady_usable: "steady p \<Longrightarrow> usable now p"
  by (auto simp: steady_def usable_def)

lemma raised_steady: "steady p \<Longrightarrow> raised p = p\<lparr>current_weight := current_weight p + weight p\<rparr>"
  by (simp add: steady_def raised_def)

lemma not_tried: "i < 64 * n \<Longrightarrow> \<not> is_tried (replicate n 0) i"
  by (simp add: is_tried_def)

lemma loop_steady:
  assumes "\<forall>p\<in>set ps. steady p" "i + length ps \<le> 64 * n"
    and "get_peer_loop now (replicate n 0) i ps tot best = (ps', tot', best')"
  shows "ps' = map raised ps \<and> tot' = tot + sum_list (map weight ps)
    \<and> (\<forall>p\<in>set ps'. \<exists>b w. best' = Some (b, w) \<and> current_weight p \<le> w)
    \<and> (best' = best \<or> (\<exists>b w. best' = Some (b, w) \<and> i \<le> b \<and> b < i + length ps \<and> w = current_weight (ps' ! (b - i))))
    \<and> (\<forall>b w. best = Some (b, w) \<longrightarrow> (\<exists>b' w'. best' = Some (b', w') \<and> w \<le> w'))"
  using assms
proof (induction ps arbitrary: i tot best ps' tot' best')
  case (Cons p ps)
  let ?p = "raised p"
  define best1 where "best1 = (case best of None \<Rightarrow> Some (i, current_weight ?p)
      | Some (j, w) \<Rightarrow> if current_weight ?p > w then Some (i, current_weight ?p) else Some (j, w))"
  obtain ps1 where loop: "get_peer_loop now (replicate n 0) (i + 1) ps (tot + weight p) best1 = (ps1, tot', best')" "ps' = ?p # ps1"
    using Cons.prems not_tried [of i n] steady_usable [of p now]
    by (auto simp: best1_def steady_def Let_def split: prod.splits)
  note IH = Cons.IH [OF _ _ loop(1)]
  have prem: "\<forall>p\<in>set ps. steady p" "i + 1 + length ps \<le> 64 * n" using Cons.prems by auto
  from IH [OF prem] have facts:
    "ps1 = map raised ps" "tot' = tot + weight p + sum_list (map weight ps)"
    "\<forall>p\<in>set ps1. \<exists>b w. best' = Some (b, w) \<and> current_weight p \<le> w"
    "best' = best1 \<or> (\<exists>b w. best' = Some (b, w) \<and> i + 1 \<le> b \<and> b < i + 1 + length ps \<and> w = current_weight (ps1 ! (b - (i + 1))))"
    "\<forall>b w. best1 = Some (b, w) \<longrightarrow> (\<exists>b' w'. best' = Some (b', w') \<and> w \<le> w')" by blast+
  obtain b1 w1 where b1: "best1 = Some (b1, w1)" "current_weight ?p \<le> w1" "\<forall>b w. best = Some (b, w) \<longrightarrow> w \<le> w1"
      "best1 = best \<or> b1 = i \<and> w1 = current_weight ?p"
  proof (cases best)
    case None
    then show ?thesis using that [of i "current_weight ?p"] by (simp add: best1_def)
  next
    case (Some jw)
    obtain j w where "jw = (j, w)" by fastforce
    then show ?thesis
      using that [of i "current_weight ?p"] that [of j w] Some
      by (cases "w < current_weight ?p") (simp_all add: best1_def)
  qed
  from facts(5) b1(1) obtain b' w' where b': "best' = Some (b', w')" "w1 \<le> w'" by blast
  have "best' = best \<or> (\<exists>b w. best' = Some (b, w) \<and> i \<le> b \<and> b < i + length (p # ps) \<and> w = current_weight (ps' ! (b - i)))"
  proof (cases "best' = best1")
    case True
    then show ?thesis using b1(1,4) loop(2) by auto
  next
    case False
    then obtain b w where bw: "best' = Some (b, w)" "i + 1 \<le> b" "b < i + 1 + length ps"
        "w = current_weight (ps1 ! (b - (i + 1)))"
      using facts(4) by blast
    then have "b - i = Suc (b - (i + 1))" by simp
    then have "ps' ! (b - i) = ps1 ! (b - (i + 1))" using loop(2) by (simp del: Suc_diff_Suc)
    then show ?thesis using bw by auto
  qed
  moreover have "\<forall>b w. best = Some (b, w) \<longrightarrow> (\<exists>b' w'. best' = Some (b', w') \<and> w \<le> w')"
    using b1(3) b' by fastforce
  moreover have "\<forall>p\<in>set ps'. \<exists>b w. best' = Some (b, w) \<and> current_weight p \<le> w"
    using facts(3) b1(2) b' loop(2) by (auto intro: order_trans)
  ultimately show ?case using facts(1,2) loop(2) by simp
qed simp

section \<open>A cycle\<close>

text \<open>The group after \<open>n\<close> requests of which \<open>cnt i\<close> went to peer \<open>i\<close>.\<close>

definition after_requests :: "int list \<Rightarrow> int \<Rightarrow> (nat \<Rightarrow> int) \<Rightarrow> rr_peer list \<Rightarrow> bool" where
  "after_requests ws n cnt ps \<longleftrightarrow> map weight ps = ws \<and> (\<forall>p\<in>set ps. steady p)
     \<and> (\<Sum>i<length ws. cnt i) = n
     \<and> (\<forall>i<length ws. current_weight (ps ! i) = n * ws ! i - sum_list ws * cnt i \<and> - sum_list ws < current_weight (ps ! i))"

lemma sum_weights: "(\<Sum>i<length ws. ws ! i) = sum_list (ws :: int list)"
  by (simp add: sum_list_sum_nth atLeast0LessThan)

lemma sum_credits:
  assumes "(\<Sum>i<length ws. cnt i) = n"
  shows "(\<Sum>i<length ws. (n + 1) * ws ! i - sum_list ws * cnt i) = sum_list (ws :: int list)"
proof -
  have "(\<Sum>i<length ws. (n + 1) * ws ! i - sum_list ws * cnt i)
      = (n + 1) * (\<Sum>i<length ws. ws ! i) - sum_list ws * (\<Sum>i<length ws. cnt i)"
    by (simp only: sum_subtractf sum_distrib_left)
  then show ?thesis using assms by (simp add: sum_weights algebra_simps)
qed

lemma tried_words_enough: "n \<le> 64 * tried_words n"
  by (simp add: tried_words_def)

lemma steady_total:
  assumes "\<forall>p\<in>set ps. steady p" "ps \<noteq> []"
  shows "0 < sum_list (map weight ps)"
proof -
  have "0 \<le> sum_list (map weight (tl ps))"
    using assms by (intro sum_list_nonneg) (auto simp: steady_def dest!: list.set_sel(2) intro: less_imp_le)
  moreover have "0 < weight (hd ps)" using assms by (auto simp: steady_def)
  ultimately show ?thesis using assms(2) by (cases ps) auto
qed

lemma chosen_steady: "steady p \<Longrightarrow> steady (chosen_peer now tot p)"
  by (simp add: steady_def chosen_peer_def)

lemma get_peer_step:
  assumes after: "after_requests ws n cnt ps" and ne: "ps \<noteq> []"
  obtains b tried ps' where
    "ngx_http_upstream_get_peer now (replicate (tried_words (length ps)) 0) ps = (Some b, tried, ps')"
    "b < length ps" "after_requests ws (n + 1) (cnt(b := cnt b + 1)) ps'"
proof -
  let ?k = "tried_words (length ps)" and ?W = "sum_list ws"
  have st: "\<forall>p\<in>set ps. steady p" and ws: "map weight ps = ws" and n: "(\<Sum>i<length ws. cnt i) = n"
    and cw: "\<And>i. i < length ws \<Longrightarrow> current_weight (ps ! i) = n * ws ! i - ?W * cnt i"
    and low: "\<And>i. i < length ws \<Longrightarrow> - ?W < current_weight (ps ! i)"
    using after by (auto simp: after_requests_def)
  have len: "length ws = length ps" using ws by auto
  obtain ps1 tot best where loop: "get_peer_loop now (replicate ?k 0) 0 ps 0 None = (ps1, tot, best)"
    by (metis prod_cases3)
  note facts = loop_steady [OF st _ loop, simplified, OF tried_words_enough]
  have ps1: "ps1 = map raised ps" and tot: "tot = ?W" using facts ws by auto
  obtain b w where best: "best = Some (b, w)" "b < length ps" "w = current_weight (ps1 ! b)"
    and highest: "\<And>p. p \<in> set ps1 \<Longrightarrow> current_weight p \<le> w"
    using facts ne ps1 by (cases ps) auto
  have raise: "ps1 ! i = (ps ! i)\<lparr>current_weight := (n + 1) * ws ! i - ?W * cnt i\<rparr>" "0 < ws ! i"
      if "i < length ps" for i
    using that st ws ps1 len cw [of i] raised_steady [of "ps ! i"] by (auto simp: algebra_simps steady_def)
  have "0 < ?W" using steady_total [OF st ne] ws by simp
  have "0 < w"
  proof (rule ccontr)
    assume "\<not> 0 < w"
    then have "(\<Sum>i<length ws. (n + 1) * ws ! i - ?W * cnt i) \<le> (\<Sum>i<length ws. 0)"
      using raise(1) highest len ps1 by (intro sum_mono) (fastforce simp: in_set_conv_nth)
    then show False using sum_credits [OF n] \<open>0 < ?W\<close> by simp
  qed
  define ps' where "ps' = ps1[b := chosen_peer now tot (ps1 ! b)]"
  have nth: "ps' ! i = (if i = b then chosen_peer now tot (ps1 ! b) else ps1 ! i)" if "i < length ps" for i
    using that ps1 by (simp add: ps'_def nth_list_update)
  have len': "length ps' = length ps" using ps1 by (simp add: ps'_def)
  have one: "steady (ps' ! i) \<and> weight (ps' ! i) = ws ! i \<and> - ?W < current_weight (ps' ! i)
      \<and> current_weight (ps' ! i) = (n + 1) * ws ! i - ?W * (cnt(b := cnt b + 1)) i"
    if i: "i < length ps" for i
  proof -
    have "steady (ps ! i)" "weight (ps ! i) = ws ! i" using i st ws by auto
    moreover have "- ?W < (n + 1) * ws ! i - ?W * cnt i"
      using low [of i] cw [of i] raise(2) [OF i] i len by (simp add: algebra_simps)
    ultimately show ?thesis
      using i nth [OF i] raise [OF i] tot best(3) \<open>0 < w\<close>
      by (auto simp: steady_def chosen_peer_def algebra_simps)
  qed
  have sum: "(\<Sum>i<length ws. (cnt(b := cnt b + 1)) i) = n + 1"
  proof -
    have "(\<Sum>i<length ws. (cnt(b := cnt b + 1)) i) = (\<Sum>i<length ws. cnt i + (if i = b then 1 else 0))"
      by (rule sum.cong) auto
    then show ?thesis using n best(2) len by (simp add: sum.distrib sum.delta)
  qed
  have "map weight ps' = ws"
    using one len len' by (intro nth_equalityI) auto
  moreover have "\<forall>p\<in>set ps'. steady p"
    using one len' by (auto simp: in_set_conv_nth)
  ultimately have "after_requests ws (n + 1) (cnt(b := cnt b + 1)) ps'"
    using one sum len unfolding after_requests_def by metis
  then show thesis
    using that [of b _ ps'] best loop by (simp add: ngx_http_upstream_get_peer_def ps'_def)
qed

section \<open>Requests in a row\<close>

text \<open>
  One request after the other, each with fresh bits and each reported as a success: the
  positions of the peers, and the group.
\<close>

definition one_request :: "int \<Rightarrow> rr_peers \<Rightarrow> (nat \<times> nat) option \<times> rr_peers" where
  "one_request now g =
     (case ngx_http_upstream_get_round_robin_peer now 0 (replicate (tried_words (length (rp_peers g))) 0) [g] of
        (None, tried, gs) \<Rightarrow> (None, hd gs)
      | (Some (k, i), tried, gs) \<Rightarrow>
          (Some (k, i), fst (ngx_http_upstream_free_round_robin_peer now False i (hd gs) 1)))"

fun requests_in_a_row :: "int list \<Rightarrow> rr_peers \<Rightarrow> (nat \<times> nat) option list \<times> rr_peers" where
  "requests_in_a_row [] g = ([], g)"
| "requests_in_a_row (now # ts) g =
     (case one_request now g of (r, g) \<Rightarrow> (case requests_in_a_row ts g of (rs, g) \<Rightarrow> (r # rs, g)))"

lemma after_requests_upd:
  assumes "after_requests ws n cnt ps" "i < length ps" "weight p = weight (ps ! i)"
    "current_weight p = current_weight (ps ! i)" "steady p"
  shows "after_requests ws n cnt (ps[i := p])"
proof -
  have "map weight (ps[i := p]) = map weight ps"
    using assms(2,3) by (metis list_update_id map_update)
  then show ?thesis
    using assms set_update_subset_insert [of ps i p] length_map [of weight ps]
    by (fastforce simp: after_requests_def nth_list_update)
qed

lemma live_steady: "steady p \<Longrightarrow> steady (live_peer p\<lparr>conns := c\<rparr>)"
  by (auto simp: steady_def live_peer_def word_gt_0 intro: order_le_less_trans)

lemma one_request_step:
  assumes "after_requests ws n cnt (rp_peers g)" "rp_peers g \<noteq> []" "\<not> rp_single g"
  obtains b g' where "one_request now g = (Some (0, b), g')" "b < length (rp_peers g)"
    "after_requests ws (n + 1) (cnt(b := cnt b + 1)) (rp_peers g')"
    "\<not> rp_single g'" "length (rp_peers g') = length (rp_peers g)"
proof -
  obtain b tried ps where
    get: "ngx_http_upstream_get_peer now (replicate (tried_words (length (rp_peers g))) 0) (rp_peers g) = (Some b, tried, ps)"
    and b: "b < length (rp_peers g)" and after: "after_requests ws (n + 1) (cnt(b := cnt b + 1)) ps"
    by (rule get_peer_step [OF assms(1,2)])
  have len: "length ps = length (rp_peers g)"
    using after assms(1) unfolding after_requests_def by (metis length_map)
  let ?p = "ps ! b"
  let ?q = "live_peer (?p\<lparr>conns := conns ?p + 1\<rparr>)"
  let ?ps = "ps[b := ?q\<lparr>conns := conns ?q - 1\<rparr>]"
  have st: "steady ?p" using after b len by (auto simp: after_requests_def)
  have "after_requests ws (n + 1) (cnt(b := cnt b + 1)) ?ps"
    using after b len st
    by (intro after_requests_upd live_steady) (auto simp: live_peer_def steady_def)
  then show thesis
    using that [of b "g\<lparr>rp_peers := ?ps\<rparr>"] get assms(3) b len
    by (simp add: one_request_def get_in_group_def connected_def Let_def
        ngx_http_upstream_free_round_robin_peer_def)
qed

lemma requests_steady:
  assumes "after_requests ws n cnt (rp_peers g)" "rp_peers g \<noteq> []" "\<not> rp_single g"
    "requests_in_a_row ts g = (rs, g')"
  shows "set rs \<subseteq> {Some (0, i) | i. i < length (rp_peers g)} \<and> length rs = length ts
    \<and> after_requests ws (n + int (length ts)) (\<lambda>i. cnt i + int (count_list rs (Some (0, i)))) (rp_peers g')"
  using assms
proof (induction ts arbitrary: n cnt g rs g')
  case (Cons now ts)
  obtain b g1 where one: "one_request now g = (Some (0, b), g1)" "b < length (rp_peers g)"
    "after_requests ws (n + 1) (cnt(b := cnt b + 1)) (rp_peers g1)"
    "\<not> rp_single g1" "length (rp_peers g1) = length (rp_peers g)"
    by (rule one_request_step [OF Cons.prems(1-3)])
  obtain rs1 where rest: "requests_in_a_row ts g1 = (rs1, g')" "rs = Some (0, b) # rs1"
    using Cons.prems(4) one(1) by (auto split: prod.splits)
  have ne: "rp_peers g1 \<noteq> []" using one(5) Cons.prems(2) by auto
  have fn: "(\<lambda>i. (cnt(b := cnt b + 1)) i + int (count_list rs1 (Some (0, i))))
      = (\<lambda>i. cnt i + int (count_list rs (Some (0, i))))"
    using rest(2) by auto
  show ?case
    using Cons.IH [OF one(3) ne one(4) rest(1)] rest(2) one(2,5)
    unfolding fn by (simp add: algebra_simps)
qed simp

lemma counts_are_weights:
  assumes "after_requests ws (sum_list ws) cnt ps" "i < length ws" "0 < sum_list ws"
  shows "cnt i = ws ! i \<and> current_weight (ps ! i) = 0"
proof -
  have le: "cnt j \<le> ws ! j" if "j < length ws" for j
  proof -
    have "- sum_list ws < sum_list ws * (ws ! j - cnt j)"
      using assms(1) that by (auto simp: after_requests_def algebra_simps)
    then have "sum_list ws * (- 1) < sum_list ws * (ws ! j - cnt j)" by simp
    then have "- 1 < ws ! j - cnt j" using assms(3) by (simp only: mult_less_cancel_left_pos)
    then show ?thesis by simp
  qed
  have "(\<Sum>j<length ws. ws ! j - cnt j) = 0"
    using assms(1) by (simp add: after_requests_def sum_subtractf sum_weights)
  then have "ws ! i - cnt i = 0"
    using le assms(2) by (subst (asm) sum_nonneg_eq_0_iff) auto
  then show ?thesis using assms(1,2) by (auto simp: after_requests_def)
qed

text \<open>C15: Smooth weighted round robin is fair.  In a group of peers in normal service whose current
  weights are zero, whatever the clock reads, as many requests as the sum of the weights are all
  served by that group, each peer is chosen exactly as often as its weight, and at
  the end every current weight is zero again, so the next cycle starts alike.\<close>

theorem round_robin_cycle:
  assumes "rp_peers g \<noteq> []" "\<not> rp_single g" "\<forall>p\<in>set (rp_peers g). steady p \<and> current_weight p = 0"
    and "int (length ts) = sum_list (map weight (rp_peers g))"
  shows "\<exists>rs g'. requests_in_a_row ts g = (rs, g') \<and> None \<notin> set rs
    \<and> (\<forall>i<length (rp_peers g). int (count_list rs (Some (0, i))) = weight (rp_peers g ! i))
    \<and> (\<forall>p\<in>set (rp_peers g'). steady p \<and> current_weight p = 0)
    \<and> map weight (rp_peers g') = map weight (rp_peers g)"
proof -
  let ?ws = "map weight (rp_peers g)"
  obtain rs g' where run: "requests_in_a_row ts g = (rs, g')" by fastforce
  have W: "0 < sum_list ?ws" using steady_total assms(1,3) by blast
  have "after_requests ?ws 0 (\<lambda>i. 0) (rp_peers g)"
    using assms(3) W by (auto simp: after_requests_def)
  note served = requests_steady [OF this assms(1,2) run]
  then have after: "after_requests ?ws (sum_list ?ws) (\<lambda>i. int (count_list rs (Some (0, i)))) (rp_peers g')"
    using assms(4) by simp
  note eq = counts_are_weights [OF this _ W]
  have map: "map weight (rp_peers g') = ?ws" and st: "\<forall>p\<in>set (rp_peers g'). steady p"
    using after by (simp_all add: after_requests_def)
  then have "length (rp_peers g') = length (rp_peers g)" by (metis length_map)
  then have "\<forall>p\<in>set (rp_peers g'). current_weight p = 0"
    using eq by (auto simp: in_set_conv_nth)
  moreover have "None \<notin> set rs" using served by auto
  ultimately show ?thesis using run eq map st by (intro exI [of _ rs] exI [of _ g']) auto
qed

text \<open>Two servers with the weights 2 and 1 serve three requests.\<close>

definition new_peer :: "int \<Rightarrow> rr_peer" where
  "new_peer w = \<lparr>current_weight = 0, effective_weight = w, weight = w, conns = 0, max_conns = 0, fails = 0,
     accessed = 0, checked = 0, max_fails = 1, fail_timeout = 10, down = False\<rparr>"

lemma new_peer_steady: "0 < w \<Longrightarrow> steady (new_peer w)"
  by (simp add: steady_def new_peer_def)

lemma round_robin_cycle_witness:
  "\<exists>rs g'. requests_in_a_row [5, 5, 6] \<lparr>rp_single = False, rp_peers = [new_peer 2, new_peer 1]\<rparr> = (rs, g')
    \<and> None \<notin> set rs \<and> int (count_list rs (Some (0, 0))) = 2 \<and> int (count_list rs (Some (0, 1))) = 1"
proof -
  let ?g = "\<lparr>rp_single = False, rp_peers = [new_peer 2, new_peer 1]\<rparr>"
  have "weight (new_peer w) = w \<and> current_weight (new_peer w) = 0" for w by (simp add: new_peer_def)
  then have "\<exists>rs g'. requests_in_a_row [5, 5, 6] ?g = (rs, g') \<and> None \<notin> set rs
      \<and> (\<forall>i<length (rp_peers ?g). int (count_list rs (Some (0, i))) = weight (rp_peers ?g ! i))
      \<and> (\<forall>p\<in>set (rp_peers g'). steady p \<and> current_weight p = 0)
      \<and> map weight (rp_peers g') = map weight (rp_peers ?g)"
    by (intro round_robin_cycle) (simp_all add: new_peer_steady)
  then show ?thesis by (auto simp: new_peer_def less_Suc_eq numeral_2_eq_2)
qed

section \<open>Which peer is chosen\<close>

lemma is_tried_bit: "is_tried tried i \<longleftrightarrow> bit (tried ! (i div 64)) (i mod 64)"
  by (simp add: is_tried_def push_bit_eq_mult and_exp_eq_0_iff_not_bit)

lemma is_tried_set_tried:
  assumes "b < 64 * length tried"
  shows "is_tried (set_tried tried b) i \<longleftrightarrow> i = b \<or> is_tried tried i"
proof (cases "i div 64 = b div 64")
  case True
  have "i mod 64 = b mod 64 \<longleftrightarrow> i = b" using True by (metis div_mod_decomp)
  moreover have "b div 64 < length tried" using assms by (simp add: less_mult_imp_div_less mult.commute)
  moreover have "i mod 64 < 64" by simp
  ultimately show ?thesis using True by (auto simp: is_tried_bit set_tried_def bit_simps)
next
  case False
  then show ?thesis by (auto simp: is_tried_bit set_tried_def nth_list_update)
qed

lemma is_tried_fresh: "i < 64 * n \<Longrightarrow> \<not> is_tried (replicate n 0 @ xs) i"
  using less_mult_imp_div_less [of i n 64] by (simp add: is_tried_def nth_append mult.commute)

lemma length_set_tried [simp]: "length (set_tried tried b) = length tried"
  by (simp add: set_tried_def)

lemma loop_best:
  assumes "get_peer_loop now tried i ps tot best = (ps', tot', best')"
  shows "length ps' = length ps
    \<and> (\<forall>j<length ps. ps' ! j = (if is_tried tried (i + j) \<or> \<not> usable now (ps ! j) then ps ! j else raised (ps ! j)))
    \<and> (best' = None \<longleftrightarrow> best = None \<and> (\<forall>j<length ps. is_tried tried (i + j) \<or> \<not> usable now (ps ! j)))
    \<and> (best' = best \<or> (\<exists>j w. best' = Some (i + j, w) \<and> j < length ps \<and> \<not> is_tried tried (i + j) \<and> usable now (ps ! j)))"
  using assms
proof (induction ps arbitrary: i tot best ps' tot' best')
  case (Cons p ps)
  show ?case
  proof (cases "is_tried tried i \<or> \<not> usable now p")
    case True
    then obtain ps1 where loop: "get_peer_loop now tried (i + 1) ps tot best = (ps1, tot', best')" "ps' = p # ps1"
      using Cons.prems by (auto split: prod.splits)
    show ?thesis using Cons.IH [OF loop(1)] True loop(2)
      by (simp add: All_less_Suc2 Ex_less_Suc2) fastforce
  next
    case False
    define best1 where "best1 = (case best of None \<Rightarrow> Some (i, current_weight (raised p))
      | Some (j, w) \<Rightarrow> if current_weight (raised p) > w then Some (i, current_weight (raised p)) else Some (j, w))"
    obtain ps1 where loop: "get_peer_loop now tried (i + 1) ps (tot + effective_weight p) best1 = (ps1, tot', best')"
        "ps' = raised p # ps1"
      using Cons.prems False by (auto simp: best1_def Let_def split: prod.splits)
    have best1: "best1 = best \<or> best1 = Some (i, current_weight (raised p))" "best1 \<noteq> None"
      by (auto simp: best1_def split: option.splits prod.splits)
    show ?thesis using Cons.IH [OF loop(1)] False loop(2) best1
      by (simp add: All_less_Suc2 Ex_less_Suc2) fastforce
  qed
qed simp

text \<open>A peer of a group that the search may pick, the bits tried being those that \<open>skip\<close> tells.\<close>

definition spare :: "int \<Rightarrow> (nat \<Rightarrow> bool) \<Rightarrow> rr_peers \<Rightarrow> nat \<Rightarrow> bool" where
  "spare now skip g i \<longleftrightarrow> i < length (rp_peers g) \<and>
     (let p = rp_peers g ! i in
      if rp_single g then i = 0 \<and> \<not> down p \<and> \<not> (max_conns p \<noteq> 0 \<and> conns p \<ge> max_conns p)
      else \<not> skip i \<and> usable now p)"

definition group_ok :: "nat \<Rightarrow> rr_peers \<Rightarrow> bool" where
  "group_ok n g \<longleftrightarrow> rp_peers g \<noteq> [] \<and> length (rp_peers g) \<le> 64 * n"

lemma get_in_group_choice:
  assumes "group_ok (length tried) g" "get_in_group now tried g = (r, tried', g')"
  shows "length tried' = length tried \<and> length (rp_peers g') = length (rp_peers g)
    \<and> (case r of
        None \<Rightarrow> \<forall>i. \<not> spare now (is_tried tried) g i
      | Some i \<Rightarrow> spare now (is_tried tried) g i \<and> conns (rp_peers g' ! i) = conns (rp_peers g ! i) + 1
          \<and> (\<not> rp_single g \<longrightarrow> (\<forall>j. is_tried tried' j \<longleftrightarrow> j = i \<or> is_tried tried j)))"
proof (cases "rp_single g")
  case True
  then show ?thesis using assms
    by (auto simp: group_ok_def get_in_group_def spare_def connected_def Let_def split: if_splits)
next
  case False
  obtain ps tot best where loop: "get_peer_loop now tried 0 (rp_peers g) 0 None = (ps, tot, best)"
    by (metis prod_cases3)
  note facts = loop_best [OF loop, simplified]
  show ?thesis
  proof (cases best)
    case None
    then show ?thesis using assms(2) False loop facts
      by (auto simp: get_in_group_def ngx_http_upstream_get_peer_def spare_def Let_def)
  next
    case (Some bw)
    then obtain b w where b: "best = Some (b, w)" "b < length (rp_peers g)" "\<not> is_tried tried b"
        "usable now (rp_peers g ! b)"
      using facts by auto
    have "b < 64 * length tried" using b(2) assms(1) by (simp add: group_ok_def)
    then show ?thesis using assms(2) False loop facts b is_tried_set_tried [of b tried]
      by (auto simp: get_in_group_def ngx_http_upstream_get_peer_def spare_def connected_def chosen_peer_def
          raised_def Let_def)
  qed
qed

lemma search_spare:
  assumes "\<forall>g\<in>set gs. group_ok (length tried) g"
    and "ngx_http_upstream_get_round_robin_peer now k tried gs = (r, tried', gs')"
  shows "case r of
      None \<Rightarrow> \<forall>j<length gs. \<forall>i. \<not> spare now (\<lambda>i. j = 0 \<and> is_tried tried i) (gs ! j) i
    | Some (k', i) \<Rightarrow> k \<le> k' \<and> k' - k < length gs \<and> length tried' = length tried
        \<and> spare now (\<lambda>i. k' = k \<and> is_tried tried i) (gs ! (k' - k)) i
        \<and> conns (rp_peers (gs' ! (k' - k)) ! i) = conns (rp_peers (gs ! (k' - k)) ! i) + 1
        \<and> (\<not> rp_single (gs ! (k' - k)) \<longrightarrow> is_tried tried' i
            \<and> (k' = k \<longrightarrow> (\<forall>j. is_tried tried' j \<longleftrightarrow> j = i \<or> is_tried tried j)))
        \<and> (\<forall>j<k' - k. \<forall>i. \<not> spare now (\<lambda>i. j = 0 \<and> is_tried tried i) (gs ! j) i)"
  using assms
proof (induction gs arbitrary: k tried r gs')
  case (Cons g gs)
  obtain r1 tried1 g1 where one: "get_in_group now tried g = (r1, tried1, g1)" by (metis prod_cases3)
  have ok: "group_ok (length tried) g" using Cons.prems(1) by simp
  note first = get_in_group_choice [OF ok one]
  show ?case
  proof (cases r1)
    case (Some i)
    then show ?thesis using first Cons.prems(2) one by auto
  next
    case None
    show ?thesis
    proof (cases "gs = []")
      case True
      then show ?thesis using first Cons.prems(2) one None by (auto simp: less_Suc_eq)
    next
      case False
      let ?n = "tried_words (length (rp_peers (hd gs)))"
      let ?t = "replicate ?n 0 @ drop ?n tried1"
      have hd_ok: "group_ok (length tried) (hd gs)" using Cons.prems(1) False by simp
      then have len: "length ?t = length tried" using first by (auto simp: group_ok_def tried_words_def)
      obtain gs1 where rest: "ngx_http_upstream_get_round_robin_peer now (k + 1) ?t gs = (r, tried', gs1)" "gs' = g1 # gs1"
        using Cons.prems(2) one None False by (auto simp: Let_def split: prod.splits)
      have fresh: "spare now (\<lambda>i. j = 0 \<and> is_tried ?t i) (gs ! j) i = spare now (\<lambda>i. False) (gs ! j) i"
          if "j < length gs" for i j
      proof (cases "j = 0 \<and> i < length (rp_peers (hd gs))")
        case True
        then have "i < 64 * ?n" using tried_words_enough order_less_le_trans by blast
        then show ?thesis by (simp add: spare_def is_tried_fresh)
      next
        case no: False
        then show ?thesis using False by (cases "j = 0") (auto simp: spare_def hd_conv_nth)
      qed
      have "\<forall>g\<in>set gs. group_ok (length ?t) g" using Cons.prems(1) len by simp
      note IH = Cons.IH [OF this rest(1)]
      have none: "\<forall>i. \<not> spare now (is_tried tried) g i" using first None by simp
      show ?thesis
      proof (cases r)
        case None
        then show ?thesis using IH none fresh by (auto simp: less_Suc_eq_0_disj nth_Cons')
      next
        case (Some ki)
        then obtain k' i where r: "r = Some (k', i)" by (cases ki) auto
        then have k': "k' - k = Suc (k' - (k + 1))" "k + 1 \<le> k'" "k' - (k + 1) < length gs" using IH by auto
        then have "k' = k + 1 \<longleftrightarrow> k' - (k + 1) = 0" by auto
        then have "spare now (\<lambda>i. k' = k + 1 \<and> is_tried ?t i) (gs ! (k' - (k + 1))) i
            = spare now (\<lambda>i. False) (gs ! (k' - (k + 1))) i"
          using fresh [OF k'(3)] by presburger
        then show ?thesis using IH none fresh len rest(2) r k'
          by (auto simp: less_Suc_eq_0_disj nth_Cons')
      qed
    qed
  qed
qed simp

text \<open>The balancer chooses only a peer that may serve the request, and refuses only when there is
  none.  If it answers with a peer, the peer is in service, below its limits of failures
  and connections and not tried yet by this request; its connections are counted up and its bit is set; and
  no group before it had such a peer.  The answer BUSY means that no group has one.  A backup group is searched
  with all its bits cleared.\<close>

theorem round_robin_choice:
  assumes "\<forall>g\<in>set gs. group_ok (length tried) g"
    and "ngx_http_upstream_get_round_robin_peer now k tried gs = (r, tried', gs')"
  shows "case r of
      None \<Rightarrow> \<forall>j<length gs. \<forall>i. \<not> spare now (\<lambda>i. j = 0 \<and> is_tried tried i) (gs ! j) i
    | Some (k', i) \<Rightarrow> k \<le> k' \<and> k' - k < length gs \<and> length tried' = length tried
        \<and> spare now (\<lambda>i. k' = k \<and> is_tried tried i) (gs ! (k' - k)) i
        \<and> conns (rp_peers (gs' ! (k' - k)) ! i) = conns (rp_peers (gs ! (k' - k)) ! i) + 1
        \<and> (\<not> rp_single (gs ! (k' - k)) \<longrightarrow> is_tried tried' i)
        \<and> (\<forall>j<k' - k. \<forall>i. \<not> spare now (\<lambda>i. j = 0 \<and> is_tried tried i) (gs ! j) i)"
  using search_spare [OF assms] by (auto split: option.splits)

lemma round_robin_choice_witness:
  "case fst (ngx_http_upstream_get_round_robin_peer 7 0 [0]
      [\<lparr>rp_single = False, rp_peers = [new_peer 2\<lparr>down := True\<rparr>, new_peer 1]\<rparr>]) of
      None \<Rightarrow> False
    | Some (k', i) \<Rightarrow> k' = 0 \<and> i = 1"
proof -
  let ?gs = "[\<lparr>rp_single = False, rp_peers = [new_peer 2\<lparr>down := True\<rparr>, new_peer 1]\<rparr>]"
  obtain r tried' gs' where get: "ngx_http_upstream_get_round_robin_peer 7 0 [0] ?gs = (r, tried', gs')"
    by (metis prod_cases3)
  have "\<forall>g\<in>set ?gs. group_ok (length [0 :: u64]) g" by (simp add: group_ok_def)
  note choice = round_robin_choice [OF this get]
  have one: "spare 7 (is_tried [0]) (?gs ! 0) 1"
    by (simp add: spare_def usable_def is_tried_def new_peer_def)
  have zero: "i = 1" if "spare 7 skip (?gs ! 0) i" for skip i
    using that by (cases i) (auto simp: spare_def usable_def)
  show ?thesis
  proof (cases r)
    case None
    then show ?thesis using choice one by simp
  next
    case (Some ki)
    then obtain k' i where "r = Some (k', i)" by (cases ki) auto
    moreover from this choice have "k' = 0" "spare 7 (\<lambda>i. k' = 0 \<and> is_tried [0] i) (?gs ! k') i" by auto
    ultimately show ?thesis using zero unfolding get by simp
  qed
qed

section \<open>The attempts of one request\<close>

text \<open>
  A request that fails on one peer asks again with the bits that are set by then, at its group
  from then on; what the other requests have done to the groups meanwhile is given with each attempt.
\<close>

fun attempts :: "(int \<times> rr_peers list) list \<Rightarrow> nat \<Rightarrow> u64 list \<Rightarrow> (nat \<times> nat) option list" where
  "attempts [] k tried = []"
| "attempts ((now, gs) # rest) k tried =
     (case ngx_http_upstream_get_round_robin_peer now k tried (drop k gs) of
        (None, tried, _) \<Rightarrow> [None]
      | (Some (k', i), tried, _) \<Rightarrow> Some (k', i) # attempts rest k' tried)"

definition shaped :: "nat list \<Rightarrow> nat \<Rightarrow> rr_peers list \<Rightarrow> bool" where
  "shaped lens n gs \<longleftrightarrow> map (\<lambda>g. length (rp_peers g)) gs = lens \<and> (\<forall>g\<in>set gs. group_ok n g \<and> \<not> rp_single g)"

lemma attempts_distinct:
  assumes "\<forall>(now, gs)\<in>set rounds. shaped lens (length tried) gs" "k \<le> length lens"
  shows "distinct (attempts rounds k tried)
    \<and> (\<forall>k' i. Some (k', i) \<in> set (attempts rounds k tried) \<longrightarrow>
        k \<le> k' \<and> k' < length lens \<and> i < lens ! k' \<and> (k' = k \<longrightarrow> \<not> is_tried tried i))
    \<and> (None \<in> set (attempts rounds k tried) \<or> length (attempts rounds k tried) = length rounds)"
  using assms
proof (induction rounds arbitrary: k tried)
  case (Cons round rounds)
  obtain now gs where round: "round = (now, gs)" by fastforce
  have sh: "shaped lens (length tried) gs" using Cons.prems(1) round by simp
  obtain r tried' gs' where get: "ngx_http_upstream_get_round_robin_peer now k tried (drop k gs) = (r, tried', gs')"
    by (metis prod_cases3)
  have "\<forall>g\<in>set (drop k gs). group_ok (length tried) g" using sh by (auto simp: shaped_def dest: in_set_dropD)
  note facts = search_spare [OF this get]
  show ?case
  proof (cases r)
    case None
    then show ?thesis using get round by simp
  next
    case (Some ki)
    then obtain k1 i1 where r: "r = Some (k1, i1)" by (cases ki) auto
    have len: "length gs = length lens" using sh by (auto simp: shaped_def)
    have k1: "k \<le> k1" "k1 < length lens" "length tried' = length tried" using facts r len Cons.prems(2) by auto
    have nth: "drop k gs ! (k1 - k) = gs ! k1" using k1 len Cons.prems(2) by simp
    have "\<not> rp_single (gs ! k1)" "length (rp_peers (gs ! k1)) = lens ! k1"
      using sh k1(2) len nth_map [of k1 gs "\<lambda>g. length (rp_peers g)"] unfolding shaped_def by simp_all
    then have i1: "i1 < lens ! k1" "k1 = k \<longrightarrow> \<not> is_tried tried i1" "is_tried tried' i1"
        "k1 = k \<longrightarrow> (\<forall>j. is_tried tried' j \<longleftrightarrow> j = i1 \<or> is_tried tried j)"
      using facts unfolding r spare_def Let_def option.case prod.case nth by simp_all
    have IH: "distinct (attempts rounds k1 tried')"
      "\<And>k' i. Some (k', i) \<in> set (attempts rounds k1 tried') \<Longrightarrow>
        k1 \<le> k' \<and> k' < length lens \<and> i < lens ! k' \<and> (k' = k1 \<longrightarrow> \<not> is_tried tried' i)"
      "None \<in> set (attempts rounds k1 tried') \<or> length (attempts rounds k1 tried') = length rounds"
      using Cons.IH [of tried' k1] Cons.prems(1) k1 by auto
    have eq: "attempts (round # rounds) k tried = Some (k1, i1) # attempts rounds k1 tried'"
      using get round r by simp
    have "Some (k1, i1) \<notin> set (attempts rounds k1 tried')" using IH(2) i1(3) by blast
    moreover have "k \<le> k' \<and> k' < length lens \<and> i < lens ! k' \<and> (k' = k \<longrightarrow> \<not> is_tried tried i)"
      if "Some (k', i) \<in> set (attempts (round # rounds) k tried)" for k' i
    proof (cases "Some (k', i) \<in> set (attempts rounds k1 tried')")
      case True
      from IH(2) [OF True] show ?thesis using k1(1) i1(4) by (cases "k' = k1") auto
    next
      case False
      then show ?thesis using that k1 i1 by (simp add: eq)
    qed
    ultimately show ?thesis using IH(1,3) by (simp add: eq)
  qed
qed simp

text \<open>C32: A request that is passed from peer to peer ends.  Whatever the other requests do to the
  peers in between, its attempts pick pairwise different peers, those of the backup groups after the others, so
  that it is refused at the latest when it has been given every peer of every group once.\<close>

theorem round_robin_attempts_end:
  assumes "\<forall>(now, gs)\<in>set rounds. shaped lens (length tried) gs"
  shows "distinct (attempts rounds 0 tried) \<and> length (attempts rounds 0 tried) \<le> sum_list lens + 1
    \<and> (sum_list lens < length rounds \<longrightarrow> None \<in> set (attempts rounds 0 tried))"
proof -
  let ?as = "attempts rounds 0 tried"
  let ?all = "Sigma {..<length lens} (\<lambda>k. {..<lens ! k})"
  note facts = attempts_distinct [OF assms, of 0, simplified]
  have card: "card ?all = sum_list lens" by (simp add: sum_list_sum_nth atLeast0LessThan)
  have sub: "set ?as - {None} \<subseteq> Some ` ?all"
  proof
    fix a assume "a \<in> set ?as - {None}"
    then show "a \<in> Some ` ?all" using facts by (cases a) auto
  qed
  have "card (Some ` ?all) = sum_list lens" using card by (simp add: card_image)
  moreover have fin: "finite (Some ` ?all)" by simp
  ultimately have le: "card (set ?as - {None}) \<le> sum_list lens" using card_mono [OF fin sub] by simp
  have "length ?as = card (set ?as)" using facts by (simp add: distinct_card)
  also have "\<dots> \<le> card (set ?as - {None}) + 1" by (cases "None \<in> set ?as") (simp_all add: card_Diff_singleton)
  finally have "length ?as \<le> sum_list lens + 1" using le by simp
  moreover have "length ?as \<le> sum_list lens" if "None \<notin> set ?as"
    using that le facts by (simp add: distinct_card)
  ultimately show ?thesis using facts by fastforce
qed

lemma round_robin_attempts_end_witness:
  "None \<in> set (attempts (replicate 3 (7, [\<lparr>rp_single = False, rp_peers = [new_peer 2, new_peer 1]\<rparr>])) 0 [0])"
  using round_robin_attempts_end [where lens = "[2]" and tried = "[0]"
      and rounds = "replicate 3 (7, [\<lparr>rp_single = False, rp_peers = [new_peer 2, new_peer 1]\<rparr>])"]
  by (simp add: shaped_def group_ok_def)

end
