(* ===== verification/Ngx_Huff_Tables.thy ===== *)
theory Ngx_Huff_Tables
  imports Ngx_Prelude
begin

text \<open>
  The tables of the Huffman code of HTTP/2 header fields: the code of each byte and of its lower-case
  form, \<^verbatim>\<open>http/ngx_http_huff_encode.c\<close>, and the transitions of the decoder,
  \<^verbatim>\<open>http/ngx_http_huff_decode.c\<close>, as rows of 16 entries \<^verbatim>\<open>{next, emit, sym, ending}\<close> for each state.  The
  states are the inner nodes of the tree of the code; the nodes and their paths are a specification of
  the tables, which are checked against it entry by entry.
\<close>

section \<open>The encoder\<close>

type_synonym huff_encode_code = "nat \<times> nat"

definition ngx_http_huff_encode_table :: "huff_encode_code list" where
  "ngx_http_huff_encode_table = [
   (0x1ff8, 13), (0x7fffd8, 23), (0xfffffe2, 28), (0xfffffe3, 28), (0xfffffe4, 28), (0xfffffe5, 28),
   (0xfffffe6, 28), (0xfffffe7, 28), (0xfffffe8, 28), (0xffffea, 24), (0x3ffffffc, 30), (0xfffffe9, 28),
   (0xfffffea, 28), (0x3ffffffd, 30), (0xfffffeb, 28), (0xfffffec, 28), (0xfffffed, 28), (0xfffffee, 28),
   (0xfffffef, 28), (0xffffff0, 28), (0xffffff1, 28), (0xffffff2, 28), (0x3ffffffe, 30), (0xffffff3, 28),
   (0xffffff4, 28), (0xffffff5, 28), (0xffffff6, 28), (0xffffff7, 28), (0xffffff8, 28), (0xffffff9, 28),
   (0xffffffa, 28), (0xffffffb, 28), (0x14, 6), (0x3f8, 10), (0x3f9, 10), (0xffa, 12),
   (0x1ff9, 13), (0x15, 6), (0xf8, 8), (0x7fa, 11), (0x3fa, 10), (0x3fb, 10),
   (0xf9, 8), (0x7fb, 11), (0xfa, 8), (0x16, 6), (0x17, 6), (0x18, 6),
   (0x0, 5), (0x1, 5), (0x2, 5), (0x19, 6), (0x1a, 6), (0x1b, 6),
   (0x1c, 6), (0x1d, 6), (0x1e, 6), (0x1f, 6), (0x5c, 7), (0xfb, 8),
   (0x7ffc, 15), (0x20, 6), (0xffb, 12), (0x3fc, 10), (0x1ffa, 13), (0x21, 6),
   (0x5d, 7), (0x5e, 7), (0x5f, 7), (0x60, 7), (0x61, 7), (0x62, 7),
   (0x63, 7), (0x64, 7), (0x65, 7), (0x66, 7), (0x67, 7), (0x68, 7),
   (0x69, 7), (0x6a, 7), (0x6b, 7), (0x6c, 7), (0x6d, 7), (0x6e, 7),
   (0x6f, 7), (0x70, 7), (0x71, 7), (0x72, 7), (0xfc, 8), (0x73, 7),
   (0xfd, 8), (0x1ffb, 13), (0x7fff0, 19), (0x1ffc, 13), (0x3ffc, 14), (0x22, 6),
   (0x7ffd, 15), (0x3, 5), (0x23, 6), (0x4, 5), (0x24, 6), (0x5, 5),
   (0x25, 6), (0x26, 6), (0x27, 6), (0x6, 5), (0x74, 7), (0x75, 7),
   (0x28, 6), (0x29, 6), (0x2a, 6), (0x7, 5), (0x2b, 6), (0x76, 7),
   (0x2c, 6), (0x8, 5), (0x9, 5), (0x2d, 6), (0x77, 7), (0x78, 7),
   (0x79, 7), (0x7a, 7), (0x7b, 7), (0x7ffe, 15), (0x7fc, 11), (0x3ffd, 14),
   (0x1ffd, 13), (0xffffffc, 28), (0xfffe6, 20), (0x3fffd2, 22), (0xfffe7, 20), (0xfffe8, 20),
   (0x3fffd3, 22), (0x3fffd4, 22), (0x3fffd5, 22), (0x7fffd9, 23), (0x3fffd6, 22), (0x7fffda, 23),
   (0x7fffdb, 23), (0x7fffdc, 23), (0x7fffdd, 23), (0x7fffde, 23), (0xffffeb, 24), (0x7fffdf, 23),
   (0xffffec, 24), (0xffffed, 24), (0x3fffd7, 22), (0x7fffe0, 23), (0xffffee, 24), (0x7fffe1, 23),
   (0x7fffe2, 23), (0x7fffe3, 23), (0x7fffe4, 23), (0x1fffdc, 21), (0x3fffd8, 22), (0x7fffe5, 23),
   (0x3fffd9, 22), (0x7fffe6, 23), (0x7fffe7, 23), (0xffffef, 24), (0x3fffda, 22), (0x1fffdd, 21),
   (0xfffe9, 20), (0x3fffdb, 22), (0x3fffdc, 22), (0x7fffe8, 23), (0x7fffe9, 23), (0x1fffde, 21),
   (0x7fffea, 23), (0x3fffdd, 22), (0x3fffde, 22), (0xfffff0, 24), (0x1fffdf, 21), (0x3fffdf, 22),
   (0x7fffeb, 23), (0x7fffec, 23), (0x1fffe0, 21), (0x1fffe1, 21), (0x3fffe0, 22), (0x1fffe2, 21),
   (0x7fffed, 23), (0x3fffe1, 22), (0x7fffee, 23), (0x7fffef, 23), (0xfffea, 20), (0x3fffe2, 22),
   (0x3fffe3, 22), (0x3fffe4, 22), (0x7ffff0, 23), (0x3fffe5, 22), (0x3fffe6, 22), (0x7ffff1, 23),
   (0x3ffffe0, 26), (0x3ffffe1, 26), (0xfffeb, 20), (0x7fff1, 19), (0x3fffe7, 22), (0x7ffff2, 23),
   (0x3fffe8, 22), (0x1ffffec, 25), (0x3ffffe2, 26), (0x3ffffe3, 26), (0x3ffffe4, 26), (0x7ffffde, 27),
   (0x7ffffdf, 27), (0x3ffffe5, 26), (0xfffff1, 24), (0x1ffffed, 25), (0x7fff2, 19), (0x1fffe3, 21),
   (0x3ffffe6, 26), (0x7ffffe0, 27), (0x7ffffe1, 27), (0x3ffffe7, 26), (0x7ffffe2, 27), (0xfffff2, 24),
   (0x1fffe4, 21), (0x1fffe5, 21), (0x3ffffe8, 26), (0x3ffffe9, 26), (0xffffffd, 28), (0x7ffffe3, 27),
   (0x7ffffe4, 27), (0x7ffffe5, 27), (0xfffec, 20), (0xfffff3, 24), (0xfffed, 20), (0x1fffe6, 21),
   (0x3fffe9, 22), (0x1fffe7, 21), (0x1fffe8, 21), (0x7ffff3, 23), (0x3fffea, 22), (0x3fffeb, 22),
   (0x1ffffee, 25), (0x1ffffef, 25), (0xfffff4, 24), (0xfffff5, 24), (0x3ffffea, 26), (0x7ffff4, 23),
   (0x3ffffeb, 26), (0x7ffffe6, 27), (0x3ffffec, 26), (0x3ffffed, 26), (0x7ffffe7, 27), (0x7ffffe8, 27),
   (0x7ffffe9, 27), (0x7ffffea, 27), (0x7ffffeb, 27), (0xffffffe, 28), (0x7ffffec, 27), (0x7ffffed, 27),
   (0x7ffffee, 27), (0x7ffffef, 27), (0x7fffff0, 27), (0x3ffffee, 26)]"

definition ngx_http_huff_encode_table_lc :: "huff_encode_code list" where
  "ngx_http_huff_encode_table_lc = [
   (0x1ff8, 13), (0x7fffd8, 23), (0xfffffe2, 28), (0xfffffe3, 28), (0xfffffe4, 28), (0xfffffe5, 28),
   (0xfffffe6, 28), (0xfffffe7, 28), (0xfffffe8, 28), (0xffffea, 24), (0x3ffffffc, 30), (0xfffffe9, 28),
   (0xfffffea, 28), (0x3ffffffd, 30), (0xfffffeb, 28), (0xfffffec, 28), (0xfffffed, 28), (0xfffffee, 28),
   (0xfffffef, 28), (0xffffff0, 28), (0xffffff1, 28), (0xffffff2, 28), (0x3ffffffe, 30), (0xffffff3, 28),
   (0xffffff4, 28), (0xffffff5, 28), (0xffffff6, 28), (0xffffff7, 28), (0xffffff8, 28), (0xffffff9, 28),
   (0xffffffa, 28), (0xffffffb, 28), (0x14, 6), (0x3f8, 10), (0x3f9, 10), (0xffa, 12),
   (0x1ff9, 13), (0x15, 6), (0xf8, 8), (0x7fa, 11), (0x3fa, 10), (0x3fb, 10),
   (0xf9, 8), (0x7fb, 11), (0xfa, 8), (0x16, 6), (0x17, 6), (0x18, 6),
   (0x0, 5), (0x1, 5), (0x2, 5), (0x19, 6), (0x1a, 6), (0x1b, 6),
   (0x1c, 6), (0x1d, 6), (0x1e, 6), (0x1f, 6), (0x5c, 7), (0xfb, 8),
   (0x7ffc, 15), (0x20, 6), (0xffb, 12), (0x3fc, 10), (0x1ffa, 13), (0x3, 5),
   (0x23, 6), (0x4, 5), (0x24, 6), (0x5, 5), (0x25, 6), (0x26, 6),
   (0x27, 6), (0x6, 5), (0x74, 7), (0x75, 7), (0x28, 6), (0x29, 6),
   (0x2a, 6), (0x7, 5), (0x2b, 6), (0x76, 7), (0x2c, 6), (0x8, 5),
   (0x9, 5), (0x2d, 6), (0x77, 7), (0x78, 7), (0x79, 7), (0x7a, 7),
   (0x7b, 7), (0x1ffb, 13), (0x7fff0, 19), (0x1ffc, 13), (0x3ffc, 14), (0x22, 6),
   (0x7ffd, 15), (0x3, 5), (0x23, 6), (0x4, 5), (0x24, 6), (0x5, 5),
   (0x25, 6), (0x26, 6), (0x27, 6), (0x6, 5), (0x74, 7), (0x75, 7),
   (0x28, 6), (0x29, 6), (0x2a, 6), (0x7, 5), (0x2b, 6), (0x76, 7),
   (0x2c, 6), (0x8, 5), (0x9, 5), (0x2d, 6), (0x77, 7), (0x78, 7),
   (0x79, 7), (0x7a, 7), (0x7b, 7), (0x7ffe, 15), (0x7fc, 11), (0x3ffd, 14),
   (0x1ffd, 13), (0xffffffc, 28), (0xfffe6, 20), (0x3fffd2, 22), (0xfffe7, 20), (0xfffe8, 20),
   (0x3fffd3, 22), (0x3fffd4, 22), (0x3fffd5, 22), (0x7fffd9, 23), (0x3fffd6, 22), (0x7fffda, 23),
   (0x7fffdb, 23), (0x7fffdc, 23), (0x7fffdd, 23), (0x7fffde, 23), (0xffffeb, 24), (0x7fffdf, 23),
   (0xffffec, 24), (0xffffed, 24), (0x3fffd7, 22), (0x7fffe0, 23), (0xffffee, 24), (0x7fffe1, 23),
   (0x7fffe2, 23), (0x7fffe3, 23), (0x7fffe4, 23), (0x1fffdc, 21), (0x3fffd8, 22), (0x7fffe5, 23),
   (0x3fffd9, 22), (0x7fffe6, 23), (0x7fffe7, 23), (0xffffef, 24), (0x3fffda, 22), (0x1fffdd, 21),
   (0xfffe9, 20), (0x3fffdb, 22), (0x3fffdc, 22), (0x7fffe8, 23), (0x7fffe9, 23), (0x1fffde, 21),
   (0x7fffea, 23), (0x3fffdd, 22), (0x3fffde, 22), (0xfffff0, 24), (0x1fffdf, 21), (0x3fffdf, 22),
   (0x7fffeb, 23), (0x7fffec, 23), (0x1fffe0, 21), (0x1fffe1, 21), (0x3fffe0, 22), (0x1fffe2, 21),
   (0x7fffed, 23), (0x3fffe1, 22), (0x7fffee, 23), (0x7fffef, 23), (0xfffea, 20), (0x3fffe2, 22),
   (0x3fffe3, 22), (0x3fffe4, 22), (0x7ffff0, 23), (0x3fffe5, 22), (0x3fffe6, 22), (0x7ffff1, 23),
   (0x3ffffe0, 26), (0x3ffffe1, 26), (0xfffeb, 20), (0x7fff1, 19), (0x3fffe7, 22), (0x7ffff2, 23),
   (0x3fffe8, 22), (0x1ffffec, 25), (0x3ffffe2, 26), (0x3ffffe3, 26), (0x3ffffe4, 26), (0x7ffffde, 27),
   (0x7ffffdf, 27), (0x3ffffe5, 26), (0xfffff1, 24), (0x1ffffed, 25), (0x7fff2, 19), (0x1fffe3, 21),
   (0x3ffffe6, 26), (0x7ffffe0, 27), (0x7ffffe1, 27), (0x3ffffe7, 26), (0x7ffffe2, 27), (0xfffff2, 24),
   (0x1fffe4, 21), (0x1fffe5, 21), (0x3ffffe8, 26), (0x3ffffe9, 26), (0xffffffd, 28), (0x7ffffe3, 27),
   (0x7ffffe4, 27), (0x7ffffe5, 27), (0xfffec, 20), (0xfffff3, 24), (0xfffed, 20), (0x1fffe6, 21),
   (0x3fffe9, 22), (0x1fffe7, 21), (0x1fffe8, 21), (0x7ffff3, 23), (0x3fffea, 22), (0x3fffeb, 22),
   (0x1ffffee, 25), (0x1ffffef, 25), (0xfffff4, 24), (0xfffff5, 24), (0x3ffffea, 26), (0x7ffff4, 23),
   (0x3ffffeb, 26), (0x7ffffe6, 27), (0x3ffffec, 26), (0x3ffffed, 26), (0x7ffffe7, 27), (0x7ffffe8, 27),
   (0x7ffffe9, 27), (0x7ffffea, 27), (0x7ffffeb, 27), (0xffffffe, 28), (0x7ffffec, 27), (0x7ffffed, 27),
   (0x7ffffee, 27), (0x7ffffef, 27), (0x7fffff0, 27), (0x3ffffee, 26)]"

section \<open>The decoder\<close>

text \<open>Rows 16 by 16.\<close>

type_synonym huff_decode_code = "nat \<times> nat \<times> nat \<times> nat"

definition huff_codes_0 :: "huff_decode_code list list" where
  "huff_codes_0 = [
    [(4, 0, 0, 0), (5, 0, 0, 0), (7, 0, 0, 0), (8, 0, 0, 0), (11, 0, 0, 0), (12, 0, 0, 0), (16, 0, 0, 0), (19, 0, 0, 0),
     (25, 0, 0, 0), (28, 0, 0, 0), (32, 0, 0, 0), (35, 0, 0, 0), (42, 0, 0, 0), (49, 0, 0, 0), (57, 0, 0, 0), (64, 0, 0, 1)],
    [(0, 1, 48, 1), (0, 1, 49, 1), (0, 1, 50, 1), (0, 1, 97, 1), (0, 1, 99, 1), (0, 1, 101, 1), (0, 1, 105, 1), (0, 1, 111, 1),
     (0, 1, 115, 1), (0, 1, 116, 1), (13, 0, 0, 0), (14, 0, 0, 0), (17, 0, 0, 0), (18, 0, 0, 0), (20, 0, 0, 0), (21, 0, 0, 0)],
    [(1, 1, 48, 0), (22, 1, 48, 1), (1, 1, 49, 0), (22, 1, 49, 1), (1, 1, 50, 0), (22, 1, 50, 1), (1, 1, 97, 0), (22, 1, 97, 1),
     (1, 1, 99, 0), (22, 1, 99, 1), (1, 1, 101, 0), (22, 1, 101, 1), (1, 1, 105, 0), (22, 1, 105, 1), (1, 1, 111, 0), (22, 1, 111, 1)],
    [(2, 1, 48, 0), (9, 1, 48, 0), (23, 1, 48, 0), (40, 1, 48, 1), (2, 1, 49, 0), (9, 1, 49, 0), (23, 1, 49, 0), (40, 1, 49, 1),
     (2, 1, 50, 0), (9, 1, 50, 0), (23, 1, 50, 0), (40, 1, 50, 1), (2, 1, 97, 0), (9, 1, 97, 0), (23, 1, 97, 0), (40, 1, 97, 1)],
    [(3, 1, 48, 0), (6, 1, 48, 0), (10, 1, 48, 0), (15, 1, 48, 0), (24, 1, 48, 0), (31, 1, 48, 0), (41, 1, 48, 0), (56, 1, 48, 1),
     (3, 1, 49, 0), (6, 1, 49, 0), (10, 1, 49, 0), (15, 1, 49, 0), (24, 1, 49, 0), (31, 1, 49, 0), (41, 1, 49, 0), (56, 1, 49, 1)],
    [(3, 1, 50, 0), (6, 1, 50, 0), (10, 1, 50, 0), (15, 1, 50, 0), (24, 1, 50, 0), (31, 1, 50, 0), (41, 1, 50, 0), (56, 1, 50, 1),
     (3, 1, 97, 0), (6, 1, 97, 0), (10, 1, 97, 0), (15, 1, 97, 0), (24, 1, 97, 0), (31, 1, 97, 0), (41, 1, 97, 0), (56, 1, 97, 1)],
    [(2, 1, 99, 0), (9, 1, 99, 0), (23, 1, 99, 0), (40, 1, 99, 1), (2, 1, 101, 0), (9, 1, 101, 0), (23, 1, 101, 0), (40, 1, 101, 1),
     (2, 1, 105, 0), (9, 1, 105, 0), (23, 1, 105, 0), (40, 1, 105, 1), (2, 1, 111, 0), (9, 1, 111, 0), (23, 1, 111, 0), (40, 1, 111, 1)],
    [(3, 1, 99, 0), (6, 1, 99, 0), (10, 1, 99, 0), (15, 1, 99, 0), (24, 1, 99, 0), (31, 1, 99, 0), (41, 1, 99, 0), (56, 1, 99, 1),
     (3, 1, 101, 0), (6, 1, 101, 0), (10, 1, 101, 0), (15, 1, 101, 0), (24, 1, 101, 0), (31, 1, 101, 0), (41, 1, 101, 0), (56, 1, 101, 1)],
    [(3, 1, 105, 0), (6, 1, 105, 0), (10, 1, 105, 0), (15, 1, 105, 0), (24, 1, 105, 0), (31, 1, 105, 0), (41, 1, 105, 0), (56, 1, 105, 1),
     (3, 1, 111, 0), (6, 1, 111, 0), (10, 1, 111, 0), (15, 1, 111, 0), (24, 1, 111, 0), (31, 1, 111, 0), (41, 1, 111, 0), (56, 1, 111, 1)],
    [(1, 1, 115, 0), (22, 1, 115, 1), (1, 1, 116, 0), (22, 1, 116, 1), (0, 1, 32, 1), (0, 1, 37, 1), (0, 1, 45, 1), (0, 1, 46, 1),
     (0, 1, 47, 1), (0, 1, 51, 1), (0, 1, 52, 1), (0, 1, 53, 1), (0, 1, 54, 1), (0, 1, 55, 1), (0, 1, 56, 1), (0, 1, 57, 1)],
    [(2, 1, 115, 0), (9, 1, 115, 0), (23, 1, 115, 0), (40, 1, 115, 1), (2, 1, 116, 0), (9, 1, 116, 0), (23, 1, 116, 0), (40, 1, 116, 1),
     (1, 1, 32, 0), (22, 1, 32, 1), (1, 1, 37, 0), (22, 1, 37, 1), (1, 1, 45, 0), (22, 1, 45, 1), (1, 1, 46, 0), (22, 1, 46, 1)],
    [(3, 1, 115, 0), (6, 1, 115, 0), (10, 1, 115, 0), (15, 1, 115, 0), (24, 1, 115, 0), (31, 1, 115, 0), (41, 1, 115, 0), (56, 1, 115, 1),
     (3, 1, 116, 0), (6, 1, 116, 0), (10, 1, 116, 0), (15, 1, 116, 0), (24, 1, 116, 0), (31, 1, 116, 0), (41, 1, 116, 0), (56, 1, 116, 1)],
    [(2, 1, 32, 0), (9, 1, 32, 0), (23, 1, 32, 0), (40, 1, 32, 1), (2, 1, 37, 0), (9, 1, 37, 0), (23, 1, 37, 0), (40, 1, 37, 1),
     (2, 1, 45, 0), (9, 1, 45, 0), (23, 1, 45, 0), (40, 1, 45, 1), (2, 1, 46, 0), (9, 1, 46, 0), (23, 1, 46, 0), (40, 1, 46, 1)],
    [(3, 1, 32, 0), (6, 1, 32, 0), (10, 1, 32, 0), (15, 1, 32, 0), (24, 1, 32, 0), (31, 1, 32, 0), (41, 1, 32, 0), (56, 1, 32, 1),
     (3, 1, 37, 0), (6, 1, 37, 0), (10, 1, 37, 0), (15, 1, 37, 0), (24, 1, 37, 0), (31, 1, 37, 0), (41, 1, 37, 0), (56, 1, 37, 1)],
    [(3, 1, 45, 0), (6, 1, 45, 0), (10, 1, 45, 0), (15, 1, 45, 0), (24, 1, 45, 0), (31, 1, 45, 0), (41, 1, 45, 0), (56, 1, 45, 1),
     (3, 1, 46, 0), (6, 1, 46, 0), (10, 1, 46, 0), (15, 1, 46, 0), (24, 1, 46, 0), (31, 1, 46, 0), (41, 1, 46, 0), (56, 1, 46, 1)],
    [(1, 1, 47, 0), (22, 1, 47, 1), (1, 1, 51, 0), (22, 1, 51, 1), (1, 1, 52, 0), (22, 1, 52, 1), (1, 1, 53, 0), (22, 1, 53, 1),
     (1, 1, 54, 0), (22, 1, 54, 1), (1, 1, 55, 0), (22, 1, 55, 1), (1, 1, 56, 0), (22, 1, 56, 1), (1, 1, 57, 0), (22, 1, 57, 1)]]"

definition huff_codes_1 :: "huff_decode_code list list" where
  "huff_codes_1 = [
    [(2, 1, 47, 0), (9, 1, 47, 0), (23, 1, 47, 0), (40, 1, 47, 1), (2, 1, 51, 0), (9, 1, 51, 0), (23, 1, 51, 0), (40, 1, 51, 1),
     (2, 1, 52, 0), (9, 1, 52, 0), (23, 1, 52, 0), (40, 1, 52, 1), (2, 1, 53, 0), (9, 1, 53, 0), (23, 1, 53, 0), (40, 1, 53, 1)],
    [(3, 1, 47, 0), (6, 1, 47, 0), (10, 1, 47, 0), (15, 1, 47, 0), (24, 1, 47, 0), (31, 1, 47, 0), (41, 1, 47, 0), (56, 1, 47, 1),
     (3, 1, 51, 0), (6, 1, 51, 0), (10, 1, 51, 0), (15, 1, 51, 0), (24, 1, 51, 0), (31, 1, 51, 0), (41, 1, 51, 0), (56, 1, 51, 1)],
    [(3, 1, 52, 0), (6, 1, 52, 0), (10, 1, 52, 0), (15, 1, 52, 0), (24, 1, 52, 0), (31, 1, 52, 0), (41, 1, 52, 0), (56, 1, 52, 1),
     (3, 1, 53, 0), (6, 1, 53, 0), (10, 1, 53, 0), (15, 1, 53, 0), (24, 1, 53, 0), (31, 1, 53, 0), (41, 1, 53, 0), (56, 1, 53, 1)],
    [(2, 1, 54, 0), (9, 1, 54, 0), (23, 1, 54, 0), (40, 1, 54, 1), (2, 1, 55, 0), (9, 1, 55, 0), (23, 1, 55, 0), (40, 1, 55, 1),
     (2, 1, 56, 0), (9, 1, 56, 0), (23, 1, 56, 0), (40, 1, 56, 1), (2, 1, 57, 0), (9, 1, 57, 0), (23, 1, 57, 0), (40, 1, 57, 1)],
    [(3, 1, 54, 0), (6, 1, 54, 0), (10, 1, 54, 0), (15, 1, 54, 0), (24, 1, 54, 0), (31, 1, 54, 0), (41, 1, 54, 0), (56, 1, 54, 1),
     (3, 1, 55, 0), (6, 1, 55, 0), (10, 1, 55, 0), (15, 1, 55, 0), (24, 1, 55, 0), (31, 1, 55, 0), (41, 1, 55, 0), (56, 1, 55, 1)],
    [(3, 1, 56, 0), (6, 1, 56, 0), (10, 1, 56, 0), (15, 1, 56, 0), (24, 1, 56, 0), (31, 1, 56, 0), (41, 1, 56, 0), (56, 1, 56, 1),
     (3, 1, 57, 0), (6, 1, 57, 0), (10, 1, 57, 0), (15, 1, 57, 0), (24, 1, 57, 0), (31, 1, 57, 0), (41, 1, 57, 0), (56, 1, 57, 1)],
    [(26, 0, 0, 0), (27, 0, 0, 0), (29, 0, 0, 0), (30, 0, 0, 0), (33, 0, 0, 0), (34, 0, 0, 0), (36, 0, 0, 0), (37, 0, 0, 0),
     (43, 0, 0, 0), (46, 0, 0, 0), (50, 0, 0, 0), (53, 0, 0, 0), (58, 0, 0, 0), (61, 0, 0, 0), (65, 0, 0, 0), (68, 0, 0, 1)],
    [(0, 1, 61, 1), (0, 1, 65, 1), (0, 1, 95, 1), (0, 1, 98, 1), (0, 1, 100, 1), (0, 1, 102, 1), (0, 1, 103, 1), (0, 1, 104, 1),
     (0, 1, 108, 1), (0, 1, 109, 1), (0, 1, 110, 1), (0, 1, 112, 1), (0, 1, 114, 1), (0, 1, 117, 1), (38, 0, 0, 0), (39, 0, 0, 0)],
    [(1, 1, 61, 0), (22, 1, 61, 1), (1, 1, 65, 0), (22, 1, 65, 1), (1, 1, 95, 0), (22, 1, 95, 1), (1, 1, 98, 0), (22, 1, 98, 1),
     (1, 1, 100, 0), (22, 1, 100, 1), (1, 1, 102, 0), (22, 1, 102, 1), (1, 1, 103, 0), (22, 1, 103, 1), (1, 1, 104, 0), (22, 1, 104, 1)],
    [(2, 1, 61, 0), (9, 1, 61, 0), (23, 1, 61, 0), (40, 1, 61, 1), (2, 1, 65, 0), (9, 1, 65, 0), (23, 1, 65, 0), (40, 1, 65, 1),
     (2, 1, 95, 0), (9, 1, 95, 0), (23, 1, 95, 0), (40, 1, 95, 1), (2, 1, 98, 0), (9, 1, 98, 0), (23, 1, 98, 0), (40, 1, 98, 1)],
    [(3, 1, 61, 0), (6, 1, 61, 0), (10, 1, 61, 0), (15, 1, 61, 0), (24, 1, 61, 0), (31, 1, 61, 0), (41, 1, 61, 0), (56, 1, 61, 1),
     (3, 1, 65, 0), (6, 1, 65, 0), (10, 1, 65, 0), (15, 1, 65, 0), (24, 1, 65, 0), (31, 1, 65, 0), (41, 1, 65, 0), (56, 1, 65, 1)],
    [(3, 1, 95, 0), (6, 1, 95, 0), (10, 1, 95, 0), (15, 1, 95, 0), (24, 1, 95, 0), (31, 1, 95, 0), (41, 1, 95, 0), (56, 1, 95, 1),
     (3, 1, 98, 0), (6, 1, 98, 0), (10, 1, 98, 0), (15, 1, 98, 0), (24, 1, 98, 0), (31, 1, 98, 0), (41, 1, 98, 0), (56, 1, 98, 1)],
    [(2, 1, 100, 0), (9, 1, 100, 0), (23, 1, 100, 0), (40, 1, 100, 1), (2, 1, 102, 0), (9, 1, 102, 0), (23, 1, 102, 0), (40, 1, 102, 1),
     (2, 1, 103, 0), (9, 1, 103, 0), (23, 1, 103, 0), (40, 1, 103, 1), (2, 1, 104, 0), (9, 1, 104, 0), (23, 1, 104, 0), (40, 1, 104, 1)],
    [(3, 1, 100, 0), (6, 1, 100, 0), (10, 1, 100, 0), (15, 1, 100, 0), (24, 1, 100, 0), (31, 1, 100, 0), (41, 1, 100, 0), (56, 1, 100, 1),
     (3, 1, 102, 0), (6, 1, 102, 0), (10, 1, 102, 0), (15, 1, 102, 0), (24, 1, 102, 0), (31, 1, 102, 0), (41, 1, 102, 0), (56, 1, 102, 1)],
    [(3, 1, 103, 0), (6, 1, 103, 0), (10, 1, 103, 0), (15, 1, 103, 0), (24, 1, 103, 0), (31, 1, 103, 0), (41, 1, 103, 0), (56, 1, 103, 1),
     (3, 1, 104, 0), (6, 1, 104, 0), (10, 1, 104, 0), (15, 1, 104, 0), (24, 1, 104, 0), (31, 1, 104, 0), (41, 1, 104, 0), (56, 1, 104, 1)],
    [(1, 1, 108, 0), (22, 1, 108, 1), (1, 1, 109, 0), (22, 1, 109, 1), (1, 1, 110, 0), (22, 1, 110, 1), (1, 1, 112, 0), (22, 1, 112, 1),
     (1, 1, 114, 0), (22, 1, 114, 1), (1, 1, 117, 0), (22, 1, 117, 1), (0, 1, 58, 1), (0, 1, 66, 1), (0, 1, 67, 1), (0, 1, 68, 1)]]"

definition huff_codes_2 :: "huff_decode_code list list" where
  "huff_codes_2 = [
    [(2, 1, 108, 0), (9, 1, 108, 0), (23, 1, 108, 0), (40, 1, 108, 1), (2, 1, 109, 0), (9, 1, 109, 0), (23, 1, 109, 0), (40, 1, 109, 1),
     (2, 1, 110, 0), (9, 1, 110, 0), (23, 1, 110, 0), (40, 1, 110, 1), (2, 1, 112, 0), (9, 1, 112, 0), (23, 1, 112, 0), (40, 1, 112, 1)],
    [(3, 1, 108, 0), (6, 1, 108, 0), (10, 1, 108, 0), (15, 1, 108, 0), (24, 1, 108, 0), (31, 1, 108, 0), (41, 1, 108, 0), (56, 1, 108, 1),
     (3, 1, 109, 0), (6, 1, 109, 0), (10, 1, 109, 0), (15, 1, 109, 0), (24, 1, 109, 0), (31, 1, 109, 0), (41, 1, 109, 0), (56, 1, 109, 1)],
    [(3, 1, 110, 0), (6, 1, 110, 0), (10, 1, 110, 0), (15, 1, 110, 0), (24, 1, 110, 0), (31, 1, 110, 0), (41, 1, 110, 0), (56, 1, 110, 1),
     (3, 1, 112, 0), (6, 1, 112, 0), (10, 1, 112, 0), (15, 1, 112, 0), (24, 1, 112, 0), (31, 1, 112, 0), (41, 1, 112, 0), (56, 1, 112, 1)],
    [(2, 1, 114, 0), (9, 1, 114, 0), (23, 1, 114, 0), (40, 1, 114, 1), (2, 1, 117, 0), (9, 1, 117, 0), (23, 1, 117, 0), (40, 1, 117, 1),
     (1, 1, 58, 0), (22, 1, 58, 1), (1, 1, 66, 0), (22, 1, 66, 1), (1, 1, 67, 0), (22, 1, 67, 1), (1, 1, 68, 0), (22, 1, 68, 1)],
    [(3, 1, 114, 0), (6, 1, 114, 0), (10, 1, 114, 0), (15, 1, 114, 0), (24, 1, 114, 0), (31, 1, 114, 0), (41, 1, 114, 0), (56, 1, 114, 1),
     (3, 1, 117, 0), (6, 1, 117, 0), (10, 1, 117, 0), (15, 1, 117, 0), (24, 1, 117, 0), (31, 1, 117, 0), (41, 1, 117, 0), (56, 1, 117, 1)],
    [(2, 1, 58, 0), (9, 1, 58, 0), (23, 1, 58, 0), (40, 1, 58, 1), (2, 1, 66, 0), (9, 1, 66, 0), (23, 1, 66, 0), (40, 1, 66, 1),
     (2, 1, 67, 0), (9, 1, 67, 0), (23, 1, 67, 0), (40, 1, 67, 1), (2, 1, 68, 0), (9, 1, 68, 0), (23, 1, 68, 0), (40, 1, 68, 1)],
    [(3, 1, 58, 0), (6, 1, 58, 0), (10, 1, 58, 0), (15, 1, 58, 0), (24, 1, 58, 0), (31, 1, 58, 0), (41, 1, 58, 0), (56, 1, 58, 1),
     (3, 1, 66, 0), (6, 1, 66, 0), (10, 1, 66, 0), (15, 1, 66, 0), (24, 1, 66, 0), (31, 1, 66, 0), (41, 1, 66, 0), (56, 1, 66, 1)],
    [(3, 1, 67, 0), (6, 1, 67, 0), (10, 1, 67, 0), (15, 1, 67, 0), (24, 1, 67, 0), (31, 1, 67, 0), (41, 1, 67, 0), (56, 1, 67, 1),
     (3, 1, 68, 0), (6, 1, 68, 0), (10, 1, 68, 0), (15, 1, 68, 0), (24, 1, 68, 0), (31, 1, 68, 0), (41, 1, 68, 0), (56, 1, 68, 1)],
    [(44, 0, 0, 0), (45, 0, 0, 0), (47, 0, 0, 0), (48, 0, 0, 0), (51, 0, 0, 0), (52, 0, 0, 0), (54, 0, 0, 0), (55, 0, 0, 0),
     (59, 0, 0, 0), (60, 0, 0, 0), (62, 0, 0, 0), (63, 0, 0, 0), (66, 0, 0, 0), (67, 0, 0, 0), (69, 0, 0, 0), (72, 0, 0, 1)],
    [(0, 1, 69, 1), (0, 1, 70, 1), (0, 1, 71, 1), (0, 1, 72, 1), (0, 1, 73, 1), (0, 1, 74, 1), (0, 1, 75, 1), (0, 1, 76, 1),
     (0, 1, 77, 1), (0, 1, 78, 1), (0, 1, 79, 1), (0, 1, 80, 1), (0, 1, 81, 1), (0, 1, 82, 1), (0, 1, 83, 1), (0, 1, 84, 1)],
    [(1, 1, 69, 0), (22, 1, 69, 1), (1, 1, 70, 0), (22, 1, 70, 1), (1, 1, 71, 0), (22, 1, 71, 1), (1, 1, 72, 0), (22, 1, 72, 1),
     (1, 1, 73, 0), (22, 1, 73, 1), (1, 1, 74, 0), (22, 1, 74, 1), (1, 1, 75, 0), (22, 1, 75, 1), (1, 1, 76, 0), (22, 1, 76, 1)],
    [(2, 1, 69, 0), (9, 1, 69, 0), (23, 1, 69, 0), (40, 1, 69, 1), (2, 1, 70, 0), (9, 1, 70, 0), (23, 1, 70, 0), (40, 1, 70, 1),
     (2, 1, 71, 0), (9, 1, 71, 0), (23, 1, 71, 0), (40, 1, 71, 1), (2, 1, 72, 0), (9, 1, 72, 0), (23, 1, 72, 0), (40, 1, 72, 1)],
    [(3, 1, 69, 0), (6, 1, 69, 0), (10, 1, 69, 0), (15, 1, 69, 0), (24, 1, 69, 0), (31, 1, 69, 0), (41, 1, 69, 0), (56, 1, 69, 1),
     (3, 1, 70, 0), (6, 1, 70, 0), (10, 1, 70, 0), (15, 1, 70, 0), (24, 1, 70, 0), (31, 1, 70, 0), (41, 1, 70, 0), (56, 1, 70, 1)],
    [(3, 1, 71, 0), (6, 1, 71, 0), (10, 1, 71, 0), (15, 1, 71, 0), (24, 1, 71, 0), (31, 1, 71, 0), (41, 1, 71, 0), (56, 1, 71, 1),
     (3, 1, 72, 0), (6, 1, 72, 0), (10, 1, 72, 0), (15, 1, 72, 0), (24, 1, 72, 0), (31, 1, 72, 0), (41, 1, 72, 0), (56, 1, 72, 1)],
    [(2, 1, 73, 0), (9, 1, 73, 0), (23, 1, 73, 0), (40, 1, 73, 1), (2, 1, 74, 0), (9, 1, 74, 0), (23, 1, 74, 0), (40, 1, 74, 1),
     (2, 1, 75, 0), (9, 1, 75, 0), (23, 1, 75, 0), (40, 1, 75, 1), (2, 1, 76, 0), (9, 1, 76, 0), (23, 1, 76, 0), (40, 1, 76, 1)],
    [(3, 1, 73, 0), (6, 1, 73, 0), (10, 1, 73, 0), (15, 1, 73, 0), (24, 1, 73, 0), (31, 1, 73, 0), (41, 1, 73, 0), (56, 1, 73, 1),
     (3, 1, 74, 0), (6, 1, 74, 0), (10, 1, 74, 0), (15, 1, 74, 0), (24, 1, 74, 0), (31, 1, 74, 0), (41, 1, 74, 0), (56, 1, 74, 1)]]"

definition huff_codes_3 :: "huff_decode_code list list" where
  "huff_codes_3 = [
    [(3, 1, 75, 0), (6, 1, 75, 0), (10, 1, 75, 0), (15, 1, 75, 0), (24, 1, 75, 0), (31, 1, 75, 0), (41, 1, 75, 0), (56, 1, 75, 1),
     (3, 1, 76, 0), (6, 1, 76, 0), (10, 1, 76, 0), (15, 1, 76, 0), (24, 1, 76, 0), (31, 1, 76, 0), (41, 1, 76, 0), (56, 1, 76, 1)],
    [(1, 1, 77, 0), (22, 1, 77, 1), (1, 1, 78, 0), (22, 1, 78, 1), (1, 1, 79, 0), (22, 1, 79, 1), (1, 1, 80, 0), (22, 1, 80, 1),
     (1, 1, 81, 0), (22, 1, 81, 1), (1, 1, 82, 0), (22, 1, 82, 1), (1, 1, 83, 0), (22, 1, 83, 1), (1, 1, 84, 0), (22, 1, 84, 1)],
    [(2, 1, 77, 0), (9, 1, 77, 0), (23, 1, 77, 0), (40, 1, 77, 1), (2, 1, 78, 0), (9, 1, 78, 0), (23, 1, 78, 0), (40, 1, 78, 1),
     (2, 1, 79, 0), (9, 1, 79, 0), (23, 1, 79, 0), (40, 1, 79, 1), (2, 1, 80, 0), (9, 1, 80, 0), (23, 1, 80, 0), (40, 1, 80, 1)],
    [(3, 1, 77, 0), (6, 1, 77, 0), (10, 1, 77, 0), (15, 1, 77, 0), (24, 1, 77, 0), (31, 1, 77, 0), (41, 1, 77, 0), (56, 1, 77, 1),
     (3, 1, 78, 0), (6, 1, 78, 0), (10, 1, 78, 0), (15, 1, 78, 0), (24, 1, 78, 0), (31, 1, 78, 0), (41, 1, 78, 0), (56, 1, 78, 1)],
    [(3, 1, 79, 0), (6, 1, 79, 0), (10, 1, 79, 0), (15, 1, 79, 0), (24, 1, 79, 0), (31, 1, 79, 0), (41, 1, 79, 0), (56, 1, 79, 1),
     (3, 1, 80, 0), (6, 1, 80, 0), (10, 1, 80, 0), (15, 1, 80, 0), (24, 1, 80, 0), (31, 1, 80, 0), (41, 1, 80, 0), (56, 1, 80, 1)],
    [(2, 1, 81, 0), (9, 1, 81, 0), (23, 1, 81, 0), (40, 1, 81, 1), (2, 1, 82, 0), (9, 1, 82, 0), (23, 1, 82, 0), (40, 1, 82, 1),
     (2, 1, 83, 0), (9, 1, 83, 0), (23, 1, 83, 0), (40, 1, 83, 1), (2, 1, 84, 0), (9, 1, 84, 0), (23, 1, 84, 0), (40, 1, 84, 1)],
    [(3, 1, 81, 0), (6, 1, 81, 0), (10, 1, 81, 0), (15, 1, 81, 0), (24, 1, 81, 0), (31, 1, 81, 0), (41, 1, 81, 0), (56, 1, 81, 1),
     (3, 1, 82, 0), (6, 1, 82, 0), (10, 1, 82, 0), (15, 1, 82, 0), (24, 1, 82, 0), (31, 1, 82, 0), (41, 1, 82, 0), (56, 1, 82, 1)],
    [(3, 1, 83, 0), (6, 1, 83, 0), (10, 1, 83, 0), (15, 1, 83, 0), (24, 1, 83, 0), (31, 1, 83, 0), (41, 1, 83, 0), (56, 1, 83, 1),
     (3, 1, 84, 0), (6, 1, 84, 0), (10, 1, 84, 0), (15, 1, 84, 0), (24, 1, 84, 0), (31, 1, 84, 0), (41, 1, 84, 0), (56, 1, 84, 1)],
    [(0, 1, 85, 1), (0, 1, 86, 1), (0, 1, 87, 1), (0, 1, 89, 1), (0, 1, 106, 1), (0, 1, 107, 1), (0, 1, 113, 1), (0, 1, 118, 1),
     (0, 1, 119, 1), (0, 1, 120, 1), (0, 1, 121, 1), (0, 1, 122, 1), (70, 0, 0, 0), (71, 0, 0, 0), (73, 0, 0, 0), (74, 0, 0, 1)],
    [(1, 1, 85, 0), (22, 1, 85, 1), (1, 1, 86, 0), (22, 1, 86, 1), (1, 1, 87, 0), (22, 1, 87, 1), (1, 1, 89, 0), (22, 1, 89, 1),
     (1, 1, 106, 0), (22, 1, 106, 1), (1, 1, 107, 0), (22, 1, 107, 1), (1, 1, 113, 0), (22, 1, 113, 1), (1, 1, 118, 0), (22, 1, 118, 1)],
    [(2, 1, 85, 0), (9, 1, 85, 0), (23, 1, 85, 0), (40, 1, 85, 1), (2, 1, 86, 0), (9, 1, 86, 0), (23, 1, 86, 0), (40, 1, 86, 1),
     (2, 1, 87, 0), (9, 1, 87, 0), (23, 1, 87, 0), (40, 1, 87, 1), (2, 1, 89, 0), (9, 1, 89, 0), (23, 1, 89, 0), (40, 1, 89, 1)],
    [(3, 1, 85, 0), (6, 1, 85, 0), (10, 1, 85, 0), (15, 1, 85, 0), (24, 1, 85, 0), (31, 1, 85, 0), (41, 1, 85, 0), (56, 1, 85, 1),
     (3, 1, 86, 0), (6, 1, 86, 0), (10, 1, 86, 0), (15, 1, 86, 0), (24, 1, 86, 0), (31, 1, 86, 0), (41, 1, 86, 0), (56, 1, 86, 1)],
    [(3, 1, 87, 0), (6, 1, 87, 0), (10, 1, 87, 0), (15, 1, 87, 0), (24, 1, 87, 0), (31, 1, 87, 0), (41, 1, 87, 0), (56, 1, 87, 1),
     (3, 1, 89, 0), (6, 1, 89, 0), (10, 1, 89, 0), (15, 1, 89, 0), (24, 1, 89, 0), (31, 1, 89, 0), (41, 1, 89, 0), (56, 1, 89, 1)],
    [(2, 1, 106, 0), (9, 1, 106, 0), (23, 1, 106, 0), (40, 1, 106, 1), (2, 1, 107, 0), (9, 1, 107, 0), (23, 1, 107, 0), (40, 1, 107, 1),
     (2, 1, 113, 0), (9, 1, 113, 0), (23, 1, 113, 0), (40, 1, 113, 1), (2, 1, 118, 0), (9, 1, 118, 0), (23, 1, 118, 0), (40, 1, 118, 1)],
    [(3, 1, 106, 0), (6, 1, 106, 0), (10, 1, 106, 0), (15, 1, 106, 0), (24, 1, 106, 0), (31, 1, 106, 0), (41, 1, 106, 0), (56, 1, 106, 1),
     (3, 1, 107, 0), (6, 1, 107, 0), (10, 1, 107, 0), (15, 1, 107, 0), (24, 1, 107, 0), (31, 1, 107, 0), (41, 1, 107, 0), (56, 1, 107, 1)],
    [(3, 1, 113, 0), (6, 1, 113, 0), (10, 1, 113, 0), (15, 1, 113, 0), (24, 1, 113, 0), (31, 1, 113, 0), (41, 1, 113, 0), (56, 1, 113, 1),
     (3, 1, 118, 0), (6, 1, 118, 0), (10, 1, 118, 0), (15, 1, 118, 0), (24, 1, 118, 0), (31, 1, 118, 0), (41, 1, 118, 0), (56, 1, 118, 1)]]"

definition huff_codes_4 :: "huff_decode_code list list" where
  "huff_codes_4 = [
    [(1, 1, 119, 0), (22, 1, 119, 1), (1, 1, 120, 0), (22, 1, 120, 1), (1, 1, 121, 0), (22, 1, 121, 1), (1, 1, 122, 0), (22, 1, 122, 1),
     (0, 1, 38, 1), (0, 1, 42, 1), (0, 1, 44, 1), (0, 1, 59, 1), (0, 1, 88, 1), (0, 1, 90, 1), (75, 0, 0, 0), (78, 0, 0, 1)],
    [(2, 1, 119, 0), (9, 1, 119, 0), (23, 1, 119, 0), (40, 1, 119, 1), (2, 1, 120, 0), (9, 1, 120, 0), (23, 1, 120, 0), (40, 1, 120, 1),
     (2, 1, 121, 0), (9, 1, 121, 0), (23, 1, 121, 0), (40, 1, 121, 1), (2, 1, 122, 0), (9, 1, 122, 0), (23, 1, 122, 0), (40, 1, 122, 1)],
    [(3, 1, 119, 0), (6, 1, 119, 0), (10, 1, 119, 0), (15, 1, 119, 0), (24, 1, 119, 0), (31, 1, 119, 0), (41, 1, 119, 0), (56, 1, 119, 1),
     (3, 1, 120, 0), (6, 1, 120, 0), (10, 1, 120, 0), (15, 1, 120, 0), (24, 1, 120, 0), (31, 1, 120, 0), (41, 1, 120, 0), (56, 1, 120, 1)],
    [(3, 1, 121, 0), (6, 1, 121, 0), (10, 1, 121, 0), (15, 1, 121, 0), (24, 1, 121, 0), (31, 1, 121, 0), (41, 1, 121, 0), (56, 1, 121, 1),
     (3, 1, 122, 0), (6, 1, 122, 0), (10, 1, 122, 0), (15, 1, 122, 0), (24, 1, 122, 0), (31, 1, 122, 0), (41, 1, 122, 0), (56, 1, 122, 1)],
    [(1, 1, 38, 0), (22, 1, 38, 1), (1, 1, 42, 0), (22, 1, 42, 1), (1, 1, 44, 0), (22, 1, 44, 1), (1, 1, 59, 0), (22, 1, 59, 1),
     (1, 1, 88, 0), (22, 1, 88, 1), (1, 1, 90, 0), (22, 1, 90, 1), (76, 0, 0, 0), (77, 0, 0, 0), (79, 0, 0, 0), (81, 0, 0, 1)],
    [(2, 1, 38, 0), (9, 1, 38, 0), (23, 1, 38, 0), (40, 1, 38, 1), (2, 1, 42, 0), (9, 1, 42, 0), (23, 1, 42, 0), (40, 1, 42, 1),
     (2, 1, 44, 0), (9, 1, 44, 0), (23, 1, 44, 0), (40, 1, 44, 1), (2, 1, 59, 0), (9, 1, 59, 0), (23, 1, 59, 0), (40, 1, 59, 1)],
    [(3, 1, 38, 0), (6, 1, 38, 0), (10, 1, 38, 0), (15, 1, 38, 0), (24, 1, 38, 0), (31, 1, 38, 0), (41, 1, 38, 0), (56, 1, 38, 1),
     (3, 1, 42, 0), (6, 1, 42, 0), (10, 1, 42, 0), (15, 1, 42, 0), (24, 1, 42, 0), (31, 1, 42, 0), (41, 1, 42, 0), (56, 1, 42, 1)],
    [(3, 1, 44, 0), (6, 1, 44, 0), (10, 1, 44, 0), (15, 1, 44, 0), (24, 1, 44, 0), (31, 1, 44, 0), (41, 1, 44, 0), (56, 1, 44, 1),
     (3, 1, 59, 0), (6, 1, 59, 0), (10, 1, 59, 0), (15, 1, 59, 0), (24, 1, 59, 0), (31, 1, 59, 0), (41, 1, 59, 0), (56, 1, 59, 1)],
    [(2, 1, 88, 0), (9, 1, 88, 0), (23, 1, 88, 0), (40, 1, 88, 1), (2, 1, 90, 0), (9, 1, 90, 0), (23, 1, 90, 0), (40, 1, 90, 1),
     (0, 1, 33, 1), (0, 1, 34, 1), (0, 1, 40, 1), (0, 1, 41, 1), (0, 1, 63, 1), (80, 0, 0, 0), (82, 0, 0, 0), (84, 0, 0, 1)],
    [(3, 1, 88, 0), (6, 1, 88, 0), (10, 1, 88, 0), (15, 1, 88, 0), (24, 1, 88, 0), (31, 1, 88, 0), (41, 1, 88, 0), (56, 1, 88, 1),
     (3, 1, 90, 0), (6, 1, 90, 0), (10, 1, 90, 0), (15, 1, 90, 0), (24, 1, 90, 0), (31, 1, 90, 0), (41, 1, 90, 0), (56, 1, 90, 1)],
    [(1, 1, 33, 0), (22, 1, 33, 1), (1, 1, 34, 0), (22, 1, 34, 1), (1, 1, 40, 0), (22, 1, 40, 1), (1, 1, 41, 0), (22, 1, 41, 1),
     (1, 1, 63, 0), (22, 1, 63, 1), (0, 1, 39, 1), (0, 1, 43, 1), (0, 1, 124, 1), (83, 0, 0, 0), (85, 0, 0, 0), (88, 0, 0, 1)],
    [(2, 1, 33, 0), (9, 1, 33, 0), (23, 1, 33, 0), (40, 1, 33, 1), (2, 1, 34, 0), (9, 1, 34, 0), (23, 1, 34, 0), (40, 1, 34, 1),
     (2, 1, 40, 0), (9, 1, 40, 0), (23, 1, 40, 0), (40, 1, 40, 1), (2, 1, 41, 0), (9, 1, 41, 0), (23, 1, 41, 0), (40, 1, 41, 1)],
    [(3, 1, 33, 0), (6, 1, 33, 0), (10, 1, 33, 0), (15, 1, 33, 0), (24, 1, 33, 0), (31, 1, 33, 0), (41, 1, 33, 0), (56, 1, 33, 1),
     (3, 1, 34, 0), (6, 1, 34, 0), (10, 1, 34, 0), (15, 1, 34, 0), (24, 1, 34, 0), (31, 1, 34, 0), (41, 1, 34, 0), (56, 1, 34, 1)],
    [(3, 1, 40, 0), (6, 1, 40, 0), (10, 1, 40, 0), (15, 1, 40, 0), (24, 1, 40, 0), (31, 1, 40, 0), (41, 1, 40, 0), (56, 1, 40, 1),
     (3, 1, 41, 0), (6, 1, 41, 0), (10, 1, 41, 0), (15, 1, 41, 0), (24, 1, 41, 0), (31, 1, 41, 0), (41, 1, 41, 0), (56, 1, 41, 1)],
    [(2, 1, 63, 0), (9, 1, 63, 0), (23, 1, 63, 0), (40, 1, 63, 1), (1, 1, 39, 0), (22, 1, 39, 1), (1, 1, 43, 0), (22, 1, 43, 1),
     (1, 1, 124, 0), (22, 1, 124, 1), (0, 1, 35, 1), (0, 1, 62, 1), (86, 0, 0, 0), (87, 0, 0, 0), (89, 0, 0, 0), (90, 0, 0, 1)],
    [(3, 1, 63, 0), (6, 1, 63, 0), (10, 1, 63, 0), (15, 1, 63, 0), (24, 1, 63, 0), (31, 1, 63, 0), (41, 1, 63, 0), (56, 1, 63, 1),
     (2, 1, 39, 0), (9, 1, 39, 0), (23, 1, 39, 0), (40, 1, 39, 1), (2, 1, 43, 0), (9, 1, 43, 0), (23, 1, 43, 0), (40, 1, 43, 1)]]"

definition huff_codes_5 :: "huff_decode_code list list" where
  "huff_codes_5 = [
    [(3, 1, 39, 0), (6, 1, 39, 0), (10, 1, 39, 0), (15, 1, 39, 0), (24, 1, 39, 0), (31, 1, 39, 0), (41, 1, 39, 0), (56, 1, 39, 1),
     (3, 1, 43, 0), (6, 1, 43, 0), (10, 1, 43, 0), (15, 1, 43, 0), (24, 1, 43, 0), (31, 1, 43, 0), (41, 1, 43, 0), (56, 1, 43, 1)],
    [(2, 1, 124, 0), (9, 1, 124, 0), (23, 1, 124, 0), (40, 1, 124, 1), (1, 1, 35, 0), (22, 1, 35, 1), (1, 1, 62, 0), (22, 1, 62, 1),
     (0, 1, 0, 1), (0, 1, 36, 1), (0, 1, 64, 1), (0, 1, 91, 1), (0, 1, 93, 1), (0, 1, 126, 1), (91, 0, 0, 0), (92, 0, 0, 1)],
    [(3, 1, 124, 0), (6, 1, 124, 0), (10, 1, 124, 0), (15, 1, 124, 0), (24, 1, 124, 0), (31, 1, 124, 0), (41, 1, 124, 0), (56, 1, 124, 1),
     (2, 1, 35, 0), (9, 1, 35, 0), (23, 1, 35, 0), (40, 1, 35, 1), (2, 1, 62, 0), (9, 1, 62, 0), (23, 1, 62, 0), (40, 1, 62, 1)],
    [(3, 1, 35, 0), (6, 1, 35, 0), (10, 1, 35, 0), (15, 1, 35, 0), (24, 1, 35, 0), (31, 1, 35, 0), (41, 1, 35, 0), (56, 1, 35, 1),
     (3, 1, 62, 0), (6, 1, 62, 0), (10, 1, 62, 0), (15, 1, 62, 0), (24, 1, 62, 0), (31, 1, 62, 0), (41, 1, 62, 0), (56, 1, 62, 1)],
    [(1, 1, 0, 0), (22, 1, 0, 1), (1, 1, 36, 0), (22, 1, 36, 1), (1, 1, 64, 0), (22, 1, 64, 1), (1, 1, 91, 0), (22, 1, 91, 1),
     (1, 1, 93, 0), (22, 1, 93, 1), (1, 1, 126, 0), (22, 1, 126, 1), (0, 1, 94, 1), (0, 1, 125, 1), (93, 0, 0, 0), (94, 0, 0, 1)],
    [(2, 1, 0, 0), (9, 1, 0, 0), (23, 1, 0, 0), (40, 1, 0, 1), (2, 1, 36, 0), (9, 1, 36, 0), (23, 1, 36, 0), (40, 1, 36, 1),
     (2, 1, 64, 0), (9, 1, 64, 0), (23, 1, 64, 0), (40, 1, 64, 1), (2, 1, 91, 0), (9, 1, 91, 0), (23, 1, 91, 0), (40, 1, 91, 1)],
    [(3, 1, 0, 0), (6, 1, 0, 0), (10, 1, 0, 0), (15, 1, 0, 0), (24, 1, 0, 0), (31, 1, 0, 0), (41, 1, 0, 0), (56, 1, 0, 1),
     (3, 1, 36, 0), (6, 1, 36, 0), (10, 1, 36, 0), (15, 1, 36, 0), (24, 1, 36, 0), (31, 1, 36, 0), (41, 1, 36, 0), (56, 1, 36, 1)],
    [(3, 1, 64, 0), (6, 1, 64, 0), (10, 1, 64, 0), (15, 1, 64, 0), (24, 1, 64, 0), (31, 1, 64, 0), (41, 1, 64, 0), (56, 1, 64, 1),
     (3, 1, 91, 0), (6, 1, 91, 0), (10, 1, 91, 0), (15, 1, 91, 0), (24, 1, 91, 0), (31, 1, 91, 0), (41, 1, 91, 0), (56, 1, 91, 1)],
    [(2, 1, 93, 0), (9, 1, 93, 0), (23, 1, 93, 0), (40, 1, 93, 1), (2, 1, 126, 0), (9, 1, 126, 0), (23, 1, 126, 0), (40, 1, 126, 1),
     (1, 1, 94, 0), (22, 1, 94, 1), (1, 1, 125, 0), (22, 1, 125, 1), (0, 1, 60, 1), (0, 1, 96, 1), (0, 1, 123, 1), (95, 0, 0, 1)],
    [(3, 1, 93, 0), (6, 1, 93, 0), (10, 1, 93, 0), (15, 1, 93, 0), (24, 1, 93, 0), (31, 1, 93, 0), (41, 1, 93, 0), (56, 1, 93, 1),
     (3, 1, 126, 0), (6, 1, 126, 0), (10, 1, 126, 0), (15, 1, 126, 0), (24, 1, 126, 0), (31, 1, 126, 0), (41, 1, 126, 0), (56, 1, 126, 1)],
    [(2, 1, 94, 0), (9, 1, 94, 0), (23, 1, 94, 0), (40, 1, 94, 1), (2, 1, 125, 0), (9, 1, 125, 0), (23, 1, 125, 0), (40, 1, 125, 1),
     (1, 1, 60, 0), (22, 1, 60, 1), (1, 1, 96, 0), (22, 1, 96, 1), (1, 1, 123, 0), (22, 1, 123, 1), (96, 0, 0, 0), (110, 0, 0, 1)],
    [(3, 1, 94, 0), (6, 1, 94, 0), (10, 1, 94, 0), (15, 1, 94, 0), (24, 1, 94, 0), (31, 1, 94, 0), (41, 1, 94, 0), (56, 1, 94, 1),
     (3, 1, 125, 0), (6, 1, 125, 0), (10, 1, 125, 0), (15, 1, 125, 0), (24, 1, 125, 0), (31, 1, 125, 0), (41, 1, 125, 0), (56, 1, 125, 1)],
    [(2, 1, 60, 0), (9, 1, 60, 0), (23, 1, 60, 0), (40, 1, 60, 1), (2, 1, 96, 0), (9, 1, 96, 0), (23, 1, 96, 0), (40, 1, 96, 1),
     (2, 1, 123, 0), (9, 1, 123, 0), (23, 1, 123, 0), (40, 1, 123, 1), (97, 0, 0, 0), (101, 0, 0, 0), (111, 0, 0, 0), (133, 0, 0, 1)],
    [(3, 1, 60, 0), (6, 1, 60, 0), (10, 1, 60, 0), (15, 1, 60, 0), (24, 1, 60, 0), (31, 1, 60, 0), (41, 1, 60, 0), (56, 1, 60, 1),
     (3, 1, 96, 0), (6, 1, 96, 0), (10, 1, 96, 0), (15, 1, 96, 0), (24, 1, 96, 0), (31, 1, 96, 0), (41, 1, 96, 0), (56, 1, 96, 1)],
    [(3, 1, 123, 0), (6, 1, 123, 0), (10, 1, 123, 0), (15, 1, 123, 0), (24, 1, 123, 0), (31, 1, 123, 0), (41, 1, 123, 0), (56, 1, 123, 1),
     (98, 0, 0, 0), (99, 0, 0, 0), (102, 0, 0, 0), (105, 0, 0, 0), (112, 0, 0, 0), (119, 0, 0, 0), (134, 0, 0, 0), (153, 0, 0, 1)],
    [(0, 1, 92, 1), (0, 1, 195, 1), (0, 1, 208, 1), (100, 0, 0, 0), (103, 0, 0, 0), (104, 0, 0, 0), (106, 0, 0, 0), (107, 0, 0, 0),
     (113, 0, 0, 0), (116, 0, 0, 0), (120, 0, 0, 0), (126, 0, 0, 0), (135, 0, 0, 0), (142, 0, 0, 0), (154, 0, 0, 0), (169, 0, 0, 1)]]"

definition huff_codes_6 :: "huff_decode_code list list" where
  "huff_codes_6 = [
    [(1, 1, 92, 0), (22, 1, 92, 1), (1, 1, 195, 0), (22, 1, 195, 1), (1, 1, 208, 0), (22, 1, 208, 1), (0, 1, 128, 1), (0, 1, 130, 1),
     (0, 1, 131, 1), (0, 1, 162, 1), (0, 1, 184, 1), (0, 1, 194, 1), (0, 1, 224, 1), (0, 1, 226, 1), (108, 0, 0, 0), (109, 0, 0, 0)],
    [(2, 1, 92, 0), (9, 1, 92, 0), (23, 1, 92, 0), (40, 1, 92, 1), (2, 1, 195, 0), (9, 1, 195, 0), (23, 1, 195, 0), (40, 1, 195, 1),
     (2, 1, 208, 0), (9, 1, 208, 0), (23, 1, 208, 0), (40, 1, 208, 1), (1, 1, 128, 0), (22, 1, 128, 1), (1, 1, 130, 0), (22, 1, 130, 1)],
    [(3, 1, 92, 0), (6, 1, 92, 0), (10, 1, 92, 0), (15, 1, 92, 0), (24, 1, 92, 0), (31, 1, 92, 0), (41, 1, 92, 0), (56, 1, 92, 1),
     (3, 1, 195, 0), (6, 1, 195, 0), (10, 1, 195, 0), (15, 1, 195, 0), (24, 1, 195, 0), (31, 1, 195, 0), (41, 1, 195, 0), (56, 1, 195, 1)],
    [(3, 1, 208, 0), (6, 1, 208, 0), (10, 1, 208, 0), (15, 1, 208, 0), (24, 1, 208, 0), (31, 1, 208, 0), (41, 1, 208, 0), (56, 1, 208, 1),
     (2, 1, 128, 0), (9, 1, 128, 0), (23, 1, 128, 0), (40, 1, 128, 1), (2, 1, 130, 0), (9, 1, 130, 0), (23, 1, 130, 0), (40, 1, 130, 1)],
    [(3, 1, 128, 0), (6, 1, 128, 0), (10, 1, 128, 0), (15, 1, 128, 0), (24, 1, 128, 0), (31, 1, 128, 0), (41, 1, 128, 0), (56, 1, 128, 1),
     (3, 1, 130, 0), (6, 1, 130, 0), (10, 1, 130, 0), (15, 1, 130, 0), (24, 1, 130, 0), (31, 1, 130, 0), (41, 1, 130, 0), (56, 1, 130, 1)],
    [(1, 1, 131, 0), (22, 1, 131, 1), (1, 1, 162, 0), (22, 1, 162, 1), (1, 1, 184, 0), (22, 1, 184, 1), (1, 1, 194, 0), (22, 1, 194, 1),
     (1, 1, 224, 0), (22, 1, 224, 1), (1, 1, 226, 0), (22, 1, 226, 1), (0, 1, 153, 1), (0, 1, 161, 1), (0, 1, 167, 1), (0, 1, 172, 1)],
    [(2, 1, 131, 0), (9, 1, 131, 0), (23, 1, 131, 0), (40, 1, 131, 1), (2, 1, 162, 0), (9, 1, 162, 0), (23, 1, 162, 0), (40, 1, 162, 1),
     (2, 1, 184, 0), (9, 1, 184, 0), (23, 1, 184, 0), (40, 1, 184, 1), (2, 1, 194, 0), (9, 1, 194, 0), (23, 1, 194, 0), (40, 1, 194, 1)],
    [(3, 1, 131, 0), (6, 1, 131, 0), (10, 1, 131, 0), (15, 1, 131, 0), (24, 1, 131, 0), (31, 1, 131, 0), (41, 1, 131, 0), (56, 1, 131, 1),
     (3, 1, 162, 0), (6, 1, 162, 0), (10, 1, 162, 0), (15, 1, 162, 0), (24, 1, 162, 0), (31, 1, 162, 0), (41, 1, 162, 0), (56, 1, 162, 1)],
    [(3, 1, 184, 0), (6, 1, 184, 0), (10, 1, 184, 0), (15, 1, 184, 0), (24, 1, 184, 0), (31, 1, 184, 0), (41, 1, 184, 0), (56, 1, 184, 1),
     (3, 1, 194, 0), (6, 1, 194, 0), (10, 1, 194, 0), (15, 1, 194, 0), (24, 1, 194, 0), (31, 1, 194, 0), (41, 1, 194, 0), (56, 1, 194, 1)],
    [(2, 1, 224, 0), (9, 1, 224, 0), (23, 1, 224, 0), (40, 1, 224, 1), (2, 1, 226, 0), (9, 1, 226, 0), (23, 1, 226, 0), (40, 1, 226, 1),
     (1, 1, 153, 0), (22, 1, 153, 1), (1, 1, 161, 0), (22, 1, 161, 1), (1, 1, 167, 0), (22, 1, 167, 1), (1, 1, 172, 0), (22, 1, 172, 1)],
    [(3, 1, 224, 0), (6, 1, 224, 0), (10, 1, 224, 0), (15, 1, 224, 0), (24, 1, 224, 0), (31, 1, 224, 0), (41, 1, 224, 0), (56, 1, 224, 1),
     (3, 1, 226, 0), (6, 1, 226, 0), (10, 1, 226, 0), (15, 1, 226, 0), (24, 1, 226, 0), (31, 1, 226, 0), (41, 1, 226, 0), (56, 1, 226, 1)],
    [(2, 1, 153, 0), (9, 1, 153, 0), (23, 1, 153, 0), (40, 1, 153, 1), (2, 1, 161, 0), (9, 1, 161, 0), (23, 1, 161, 0), (40, 1, 161, 1),
     (2, 1, 167, 0), (9, 1, 167, 0), (23, 1, 167, 0), (40, 1, 167, 1), (2, 1, 172, 0), (9, 1, 172, 0), (23, 1, 172, 0), (40, 1, 172, 1)],
    [(3, 1, 153, 0), (6, 1, 153, 0), (10, 1, 153, 0), (15, 1, 153, 0), (24, 1, 153, 0), (31, 1, 153, 0), (41, 1, 153, 0), (56, 1, 153, 1),
     (3, 1, 161, 0), (6, 1, 161, 0), (10, 1, 161, 0), (15, 1, 161, 0), (24, 1, 161, 0), (31, 1, 161, 0), (41, 1, 161, 0), (56, 1, 161, 1)],
    [(3, 1, 167, 0), (6, 1, 167, 0), (10, 1, 167, 0), (15, 1, 167, 0), (24, 1, 167, 0), (31, 1, 167, 0), (41, 1, 167, 0), (56, 1, 167, 1),
     (3, 1, 172, 0), (6, 1, 172, 0), (10, 1, 172, 0), (15, 1, 172, 0), (24, 1, 172, 0), (31, 1, 172, 0), (41, 1, 172, 0), (56, 1, 172, 1)],
    [(114, 0, 0, 0), (115, 0, 0, 0), (117, 0, 0, 0), (118, 0, 0, 0), (121, 0, 0, 0), (123, 0, 0, 0), (127, 0, 0, 0), (130, 0, 0, 0),
     (136, 0, 0, 0), (139, 0, 0, 0), (143, 0, 0, 0), (146, 0, 0, 0), (155, 0, 0, 0), (162, 0, 0, 0), (170, 0, 0, 0), (180, 0, 0, 1)],
    [(0, 1, 176, 1), (0, 1, 177, 1), (0, 1, 179, 1), (0, 1, 209, 1), (0, 1, 216, 1), (0, 1, 217, 1), (0, 1, 227, 1), (0, 1, 229, 1),
     (0, 1, 230, 1), (122, 0, 0, 0), (124, 0, 0, 0), (125, 0, 0, 0), (128, 0, 0, 0), (129, 0, 0, 0), (131, 0, 0, 0), (132, 0, 0, 0)]]"

definition huff_codes_7 :: "huff_decode_code list list" where
  "huff_codes_7 = [
    [(1, 1, 176, 0), (22, 1, 176, 1), (1, 1, 177, 0), (22, 1, 177, 1), (1, 1, 179, 0), (22, 1, 179, 1), (1, 1, 209, 0), (22, 1, 209, 1),
     (1, 1, 216, 0), (22, 1, 216, 1), (1, 1, 217, 0), (22, 1, 217, 1), (1, 1, 227, 0), (22, 1, 227, 1), (1, 1, 229, 0), (22, 1, 229, 1)],
    [(2, 1, 176, 0), (9, 1, 176, 0), (23, 1, 176, 0), (40, 1, 176, 1), (2, 1, 177, 0), (9, 1, 177, 0), (23, 1, 177, 0), (40, 1, 177, 1),
     (2, 1, 179, 0), (9, 1, 179, 0), (23, 1, 179, 0), (40, 1, 179, 1), (2, 1, 209, 0), (9, 1, 209, 0), (23, 1, 209, 0), (40, 1, 209, 1)],
    [(3, 1, 176, 0), (6, 1, 176, 0), (10, 1, 176, 0), (15, 1, 176, 0), (24, 1, 176, 0), (31, 1, 176, 0), (41, 1, 176, 0), (56, 1, 176, 1),
     (3, 1, 177, 0), (6, 1, 177, 0), (10, 1, 177, 0), (15, 1, 177, 0), (24, 1, 177, 0), (31, 1, 177, 0), (41, 1, 177, 0), (56, 1, 177, 1)],
    [(3, 1, 179, 0), (6, 1, 179, 0), (10, 1, 179, 0), (15, 1, 179, 0), (24, 1, 179, 0), (31, 1, 179, 0), (41, 1, 179, 0), (56, 1, 179, 1),
     (3, 1, 209, 0), (6, 1, 209, 0), (10, 1, 209, 0), (15, 1, 209, 0), (24, 1, 209, 0), (31, 1, 209, 0), (41, 1, 209, 0), (56, 1, 209, 1)],
    [(2, 1, 216, 0), (9, 1, 216, 0), (23, 1, 216, 0), (40, 1, 216, 1), (2, 1, 217, 0), (9, 1, 217, 0), (23, 1, 217, 0), (40, 1, 217, 1),
     (2, 1, 227, 0), (9, 1, 227, 0), (23, 1, 227, 0), (40, 1, 227, 1), (2, 1, 229, 0), (9, 1, 229, 0), (23, 1, 229, 0), (40, 1, 229, 1)],
    [(3, 1, 216, 0), (6, 1, 216, 0), (10, 1, 216, 0), (15, 1, 216, 0), (24, 1, 216, 0), (31, 1, 216, 0), (41, 1, 216, 0), (56, 1, 216, 1),
     (3, 1, 217, 0), (6, 1, 217, 0), (10, 1, 217, 0), (15, 1, 217, 0), (24, 1, 217, 0), (31, 1, 217, 0), (41, 1, 217, 0), (56, 1, 217, 1)],
    [(3, 1, 227, 0), (6, 1, 227, 0), (10, 1, 227, 0), (15, 1, 227, 0), (24, 1, 227, 0), (31, 1, 227, 0), (41, 1, 227, 0), (56, 1, 227, 1),
     (3, 1, 229, 0), (6, 1, 229, 0), (10, 1, 229, 0), (15, 1, 229, 0), (24, 1, 229, 0), (31, 1, 229, 0), (41, 1, 229, 0), (56, 1, 229, 1)],
    [(1, 1, 230, 0), (22, 1, 230, 1), (0, 1, 129, 1), (0, 1, 132, 1), (0, 1, 133, 1), (0, 1, 134, 1), (0, 1, 136, 1), (0, 1, 146, 1),
     (0, 1, 154, 1), (0, 1, 156, 1), (0, 1, 160, 1), (0, 1, 163, 1), (0, 1, 164, 1), (0, 1, 169, 1), (0, 1, 170, 1), (0, 1, 173, 1)],
    [(2, 1, 230, 0), (9, 1, 230, 0), (23, 1, 230, 0), (40, 1, 230, 1), (1, 1, 129, 0), (22, 1, 129, 1), (1, 1, 132, 0), (22, 1, 132, 1),
     (1, 1, 133, 0), (22, 1, 133, 1), (1, 1, 134, 0), (22, 1, 134, 1), (1, 1, 136, 0), (22, 1, 136, 1), (1, 1, 146, 0), (22, 1, 146, 1)],
    [(3, 1, 230, 0), (6, 1, 230, 0), (10, 1, 230, 0), (15, 1, 230, 0), (24, 1, 230, 0), (31, 1, 230, 0), (41, 1, 230, 0), (56, 1, 230, 1),
     (2, 1, 129, 0), (9, 1, 129, 0), (23, 1, 129, 0), (40, 1, 129, 1), (2, 1, 132, 0), (9, 1, 132, 0), (23, 1, 132, 0), (40, 1, 132, 1)],
    [(3, 1, 129, 0), (6, 1, 129, 0), (10, 1, 129, 0), (15, 1, 129, 0), (24, 1, 129, 0), (31, 1, 129, 0), (41, 1, 129, 0), (56, 1, 129, 1),
     (3, 1, 132, 0), (6, 1, 132, 0), (10, 1, 132, 0), (15, 1, 132, 0), (24, 1, 132, 0), (31, 1, 132, 0), (41, 1, 132, 0), (56, 1, 132, 1)],
    [(2, 1, 133, 0), (9, 1, 133, 0), (23, 1, 133, 0), (40, 1, 133, 1), (2, 1, 134, 0), (9, 1, 134, 0), (23, 1, 134, 0), (40, 1, 134, 1),
     (2, 1, 136, 0), (9, 1, 136, 0), (23, 1, 136, 0), (40, 1, 136, 1), (2, 1, 146, 0), (9, 1, 146, 0), (23, 1, 146, 0), (40, 1, 146, 1)],
    [(3, 1, 133, 0), (6, 1, 133, 0), (10, 1, 133, 0), (15, 1, 133, 0), (24, 1, 133, 0), (31, 1, 133, 0), (41, 1, 133, 0), (56, 1, 133, 1),
     (3, 1, 134, 0), (6, 1, 134, 0), (10, 1, 134, 0), (15, 1, 134, 0), (24, 1, 134, 0), (31, 1, 134, 0), (41, 1, 134, 0), (56, 1, 134, 1)],
    [(3, 1, 136, 0), (6, 1, 136, 0), (10, 1, 136, 0), (15, 1, 136, 0), (24, 1, 136, 0), (31, 1, 136, 0), (41, 1, 136, 0), (56, 1, 136, 1),
     (3, 1, 146, 0), (6, 1, 146, 0), (10, 1, 146, 0), (15, 1, 146, 0), (24, 1, 146, 0), (31, 1, 146, 0), (41, 1, 146, 0), (56, 1, 146, 1)],
    [(1, 1, 154, 0), (22, 1, 154, 1), (1, 1, 156, 0), (22, 1, 156, 1), (1, 1, 160, 0), (22, 1, 160, 1), (1, 1, 163, 0), (22, 1, 163, 1),
     (1, 1, 164, 0), (22, 1, 164, 1), (1, 1, 169, 0), (22, 1, 169, 1), (1, 1, 170, 0), (22, 1, 170, 1), (1, 1, 173, 0), (22, 1, 173, 1)],
    [(2, 1, 154, 0), (9, 1, 154, 0), (23, 1, 154, 0), (40, 1, 154, 1), (2, 1, 156, 0), (9, 1, 156, 0), (23, 1, 156, 0), (40, 1, 156, 1),
     (2, 1, 160, 0), (9, 1, 160, 0), (23, 1, 160, 0), (40, 1, 160, 1), (2, 1, 163, 0), (9, 1, 163, 0), (23, 1, 163, 0), (40, 1, 163, 1)]]"

definition huff_codes_8 :: "huff_decode_code list list" where
  "huff_codes_8 = [
    [(3, 1, 154, 0), (6, 1, 154, 0), (10, 1, 154, 0), (15, 1, 154, 0), (24, 1, 154, 0), (31, 1, 154, 0), (41, 1, 154, 0), (56, 1, 154, 1),
     (3, 1, 156, 0), (6, 1, 156, 0), (10, 1, 156, 0), (15, 1, 156, 0), (24, 1, 156, 0), (31, 1, 156, 0), (41, 1, 156, 0), (56, 1, 156, 1)],
    [(3, 1, 160, 0), (6, 1, 160, 0), (10, 1, 160, 0), (15, 1, 160, 0), (24, 1, 160, 0), (31, 1, 160, 0), (41, 1, 160, 0), (56, 1, 160, 1),
     (3, 1, 163, 0), (6, 1, 163, 0), (10, 1, 163, 0), (15, 1, 163, 0), (24, 1, 163, 0), (31, 1, 163, 0), (41, 1, 163, 0), (56, 1, 163, 1)],
    [(2, 1, 164, 0), (9, 1, 164, 0), (23, 1, 164, 0), (40, 1, 164, 1), (2, 1, 169, 0), (9, 1, 169, 0), (23, 1, 169, 0), (40, 1, 169, 1),
     (2, 1, 170, 0), (9, 1, 170, 0), (23, 1, 170, 0), (40, 1, 170, 1), (2, 1, 173, 0), (9, 1, 173, 0), (23, 1, 173, 0), (40, 1, 173, 1)],
    [(3, 1, 164, 0), (6, 1, 164, 0), (10, 1, 164, 0), (15, 1, 164, 0), (24, 1, 164, 0), (31, 1, 164, 0), (41, 1, 164, 0), (56, 1, 164, 1),
     (3, 1, 169, 0), (6, 1, 169, 0), (10, 1, 169, 0), (15, 1, 169, 0), (24, 1, 169, 0), (31, 1, 169, 0), (41, 1, 169, 0), (56, 1, 169, 1)],
    [(3, 1, 170, 0), (6, 1, 170, 0), (10, 1, 170, 0), (15, 1, 170, 0), (24, 1, 170, 0), (31, 1, 170, 0), (41, 1, 170, 0), (56, 1, 170, 1),
     (3, 1, 173, 0), (6, 1, 173, 0), (10, 1, 173, 0), (15, 1, 173, 0), (24, 1, 173, 0), (31, 1, 173, 0), (41, 1, 173, 0), (56, 1, 173, 1)],
    [(137, 0, 0, 0), (138, 0, 0, 0), (140, 0, 0, 0), (141, 0, 0, 0), (144, 0, 0, 0), (145, 0, 0, 0), (147, 0, 0, 0), (150, 0, 0, 0),
     (156, 0, 0, 0), (159, 0, 0, 0), (163, 0, 0, 0), (166, 0, 0, 0), (171, 0, 0, 0), (174, 0, 0, 0), (181, 0, 0, 0), (190, 0, 0, 1)],
    [(0, 1, 178, 1), (0, 1, 181, 1), (0, 1, 185, 1), (0, 1, 186, 1), (0, 1, 187, 1), (0, 1, 189, 1), (0, 1, 190, 1), (0, 1, 196, 1),
     (0, 1, 198, 1), (0, 1, 228, 1), (0, 1, 232, 1), (0, 1, 233, 1), (148, 0, 0, 0), (149, 0, 0, 0), (151, 0, 0, 0), (152, 0, 0, 0)],
    [(1, 1, 178, 0), (22, 1, 178, 1), (1, 1, 181, 0), (22, 1, 181, 1), (1, 1, 185, 0), (22, 1, 185, 1), (1, 1, 186, 0), (22, 1, 186, 1),
     (1, 1, 187, 0), (22, 1, 187, 1), (1, 1, 189, 0), (22, 1, 189, 1), (1, 1, 190, 0), (22, 1, 190, 1), (1, 1, 196, 0), (22, 1, 196, 1)],
    [(2, 1, 178, 0), (9, 1, 178, 0), (23, 1, 178, 0), (40, 1, 178, 1), (2, 1, 181, 0), (9, 1, 181, 0), (23, 1, 181, 0), (40, 1, 181, 1),
     (2, 1, 185, 0), (9, 1, 185, 0), (23, 1, 185, 0), (40, 1, 185, 1), (2, 1, 186, 0), (9, 1, 186, 0), (23, 1, 186, 0), (40, 1, 186, 1)],
    [(3, 1, 178, 0), (6, 1, 178, 0), (10, 1, 178, 0), (15, 1, 178, 0), (24, 1, 178, 0), (31, 1, 178, 0), (41, 1, 178, 0), (56, 1, 178, 1),
     (3, 1, 181, 0), (6, 1, 181, 0), (10, 1, 181, 0), (15, 1, 181, 0), (24, 1, 181, 0), (31, 1, 181, 0), (41, 1, 181, 0), (56, 1, 181, 1)],
    [(3, 1, 185, 0), (6, 1, 185, 0), (10, 1, 185, 0), (15, 1, 185, 0), (24, 1, 185, 0), (31, 1, 185, 0), (41, 1, 185, 0), (56, 1, 185, 1),
     (3, 1, 186, 0), (6, 1, 186, 0), (10, 1, 186, 0), (15, 1, 186, 0), (24, 1, 186, 0), (31, 1, 186, 0), (41, 1, 186, 0), (56, 1, 186, 1)],
    [(2, 1, 187, 0), (9, 1, 187, 0), (23, 1, 187, 0), (40, 1, 187, 1), (2, 1, 189, 0), (9, 1, 189, 0), (23, 1, 189, 0), (40, 1, 189, 1),
     (2, 1, 190, 0), (9, 1, 190, 0), (23, 1, 190, 0), (40, 1, 190, 1), (2, 1, 196, 0), (9, 1, 196, 0), (23, 1, 196, 0), (40, 1, 196, 1)],
    [(3, 1, 187, 0), (6, 1, 187, 0), (10, 1, 187, 0), (15, 1, 187, 0), (24, 1, 187, 0), (31, 1, 187, 0), (41, 1, 187, 0), (56, 1, 187, 1),
     (3, 1, 189, 0), (6, 1, 189, 0), (10, 1, 189, 0), (15, 1, 189, 0), (24, 1, 189, 0), (31, 1, 189, 0), (41, 1, 189, 0), (56, 1, 189, 1)],
    [(3, 1, 190, 0), (6, 1, 190, 0), (10, 1, 190, 0), (15, 1, 190, 0), (24, 1, 190, 0), (31, 1, 190, 0), (41, 1, 190, 0), (56, 1, 190, 1),
     (3, 1, 196, 0), (6, 1, 196, 0), (10, 1, 196, 0), (15, 1, 196, 0), (24, 1, 196, 0), (31, 1, 196, 0), (41, 1, 196, 0), (56, 1, 196, 1)],
    [(1, 1, 198, 0), (22, 1, 198, 1), (1, 1, 228, 0), (22, 1, 228, 1), (1, 1, 232, 0), (22, 1, 232, 1), (1, 1, 233, 0), (22, 1, 233, 1),
     (0, 1, 1, 1), (0, 1, 135, 1), (0, 1, 137, 1), (0, 1, 138, 1), (0, 1, 139, 1), (0, 1, 140, 1), (0, 1, 141, 1), (0, 1, 143, 1)],
    [(2, 1, 198, 0), (9, 1, 198, 0), (23, 1, 198, 0), (40, 1, 198, 1), (2, 1, 228, 0), (9, 1, 228, 0), (23, 1, 228, 0), (40, 1, 228, 1),
     (2, 1, 232, 0), (9, 1, 232, 0), (23, 1, 232, 0), (40, 1, 232, 1), (2, 1, 233, 0), (9, 1, 233, 0), (23, 1, 233, 0), (40, 1, 233, 1)]]"

definition huff_codes_9 :: "huff_decode_code list list" where
  "huff_codes_9 = [
    [(3, 1, 198, 0), (6, 1, 198, 0), (10, 1, 198, 0), (15, 1, 198, 0), (24, 1, 198, 0), (31, 1, 198, 0), (41, 1, 198, 0), (56, 1, 198, 1),
     (3, 1, 228, 0), (6, 1, 228, 0), (10, 1, 228, 0), (15, 1, 228, 0), (24, 1, 228, 0), (31, 1, 228, 0), (41, 1, 228, 0), (56, 1, 228, 1)],
    [(3, 1, 232, 0), (6, 1, 232, 0), (10, 1, 232, 0), (15, 1, 232, 0), (24, 1, 232, 0), (31, 1, 232, 0), (41, 1, 232, 0), (56, 1, 232, 1),
     (3, 1, 233, 0), (6, 1, 233, 0), (10, 1, 233, 0), (15, 1, 233, 0), (24, 1, 233, 0), (31, 1, 233, 0), (41, 1, 233, 0), (56, 1, 233, 1)],
    [(1, 1, 1, 0), (22, 1, 1, 1), (1, 1, 135, 0), (22, 1, 135, 1), (1, 1, 137, 0), (22, 1, 137, 1), (1, 1, 138, 0), (22, 1, 138, 1),
     (1, 1, 139, 0), (22, 1, 139, 1), (1, 1, 140, 0), (22, 1, 140, 1), (1, 1, 141, 0), (22, 1, 141, 1), (1, 1, 143, 0), (22, 1, 143, 1)],
    [(2, 1, 1, 0), (9, 1, 1, 0), (23, 1, 1, 0), (40, 1, 1, 1), (2, 1, 135, 0), (9, 1, 135, 0), (23, 1, 135, 0), (40, 1, 135, 1),
     (2, 1, 137, 0), (9, 1, 137, 0), (23, 1, 137, 0), (40, 1, 137, 1), (2, 1, 138, 0), (9, 1, 138, 0), (23, 1, 138, 0), (40, 1, 138, 1)],
    [(3, 1, 1, 0), (6, 1, 1, 0), (10, 1, 1, 0), (15, 1, 1, 0), (24, 1, 1, 0), (31, 1, 1, 0), (41, 1, 1, 0), (56, 1, 1, 1),
     (3, 1, 135, 0), (6, 1, 135, 0), (10, 1, 135, 0), (15, 1, 135, 0), (24, 1, 135, 0), (31, 1, 135, 0), (41, 1, 135, 0), (56, 1, 135, 1)],
    [(3, 1, 137, 0), (6, 1, 137, 0), (10, 1, 137, 0), (15, 1, 137, 0), (24, 1, 137, 0), (31, 1, 137, 0), (41, 1, 137, 0), (56, 1, 137, 1),
     (3, 1, 138, 0), (6, 1, 138, 0), (10, 1, 138, 0), (15, 1, 138, 0), (24, 1, 138, 0), (31, 1, 138, 0), (41, 1, 138, 0), (56, 1, 138, 1)],
    [(2, 1, 139, 0), (9, 1, 139, 0), (23, 1, 139, 0), (40, 1, 139, 1), (2, 1, 140, 0), (9, 1, 140, 0), (23, 1, 140, 0), (40, 1, 140, 1),
     (2, 1, 141, 0), (9, 1, 141, 0), (23, 1, 141, 0), (40, 1, 141, 1), (2, 1, 143, 0), (9, 1, 143, 0), (23, 1, 143, 0), (40, 1, 143, 1)],
    [(3, 1, 139, 0), (6, 1, 139, 0), (10, 1, 139, 0), (15, 1, 139, 0), (24, 1, 139, 0), (31, 1, 139, 0), (41, 1, 139, 0), (56, 1, 139, 1),
     (3, 1, 140, 0), (6, 1, 140, 0), (10, 1, 140, 0), (15, 1, 140, 0), (24, 1, 140, 0), (31, 1, 140, 0), (41, 1, 140, 0), (56, 1, 140, 1)],
    [(3, 1, 141, 0), (6, 1, 141, 0), (10, 1, 141, 0), (15, 1, 141, 0), (24, 1, 141, 0), (31, 1, 141, 0), (41, 1, 141, 0), (56, 1, 141, 1),
     (3, 1, 143, 0), (6, 1, 143, 0), (10, 1, 143, 0), (15, 1, 143, 0), (24, 1, 143, 0), (31, 1, 143, 0), (41, 1, 143, 0), (56, 1, 143, 1)],
    [(157, 0, 0, 0), (158, 0, 0, 0), (160, 0, 0, 0), (161, 0, 0, 0), (164, 0, 0, 0), (165, 0, 0, 0), (167, 0, 0, 0), (168, 0, 0, 0),
     (172, 0, 0, 0), (173, 0, 0, 0), (175, 0, 0, 0), (177, 0, 0, 0), (182, 0, 0, 0), (185, 0, 0, 0), (191, 0, 0, 0), (207, 0, 0, 1)],
    [(0, 1, 147, 1), (0, 1, 149, 1), (0, 1, 150, 1), (0, 1, 151, 1), (0, 1, 152, 1), (0, 1, 155, 1), (0, 1, 157, 1), (0, 1, 158, 1),
     (0, 1, 165, 1), (0, 1, 166, 1), (0, 1, 168, 1), (0, 1, 174, 1), (0, 1, 175, 1), (0, 1, 180, 1), (0, 1, 182, 1), (0, 1, 183, 1)],
    [(1, 1, 147, 0), (22, 1, 147, 1), (1, 1, 149, 0), (22, 1, 149, 1), (1, 1, 150, 0), (22, 1, 150, 1), (1, 1, 151, 0), (22, 1, 151, 1),
     (1, 1, 152, 0), (22, 1, 152, 1), (1, 1, 155, 0), (22, 1, 155, 1), (1, 1, 157, 0), (22, 1, 157, 1), (1, 1, 158, 0), (22, 1, 158, 1)],
    [(2, 1, 147, 0), (9, 1, 147, 0), (23, 1, 147, 0), (40, 1, 147, 1), (2, 1, 149, 0), (9, 1, 149, 0), (23, 1, 149, 0), (40, 1, 149, 1),
     (2, 1, 150, 0), (9, 1, 150, 0), (23, 1, 150, 0), (40, 1, 150, 1), (2, 1, 151, 0), (9, 1, 151, 0), (23, 1, 151, 0), (40, 1, 151, 1)],
    [(3, 1, 147, 0), (6, 1, 147, 0), (10, 1, 147, 0), (15, 1, 147, 0), (24, 1, 147, 0), (31, 1, 147, 0), (41, 1, 147, 0), (56, 1, 147, 1),
     (3, 1, 149, 0), (6, 1, 149, 0), (10, 1, 149, 0), (15, 1, 149, 0), (24, 1, 149, 0), (31, 1, 149, 0), (41, 1, 149, 0), (56, 1, 149, 1)],
    [(3, 1, 150, 0), (6, 1, 150, 0), (10, 1, 150, 0), (15, 1, 150, 0), (24, 1, 150, 0), (31, 1, 150, 0), (41, 1, 150, 0), (56, 1, 150, 1),
     (3, 1, 151, 0), (6, 1, 151, 0), (10, 1, 151, 0), (15, 1, 151, 0), (24, 1, 151, 0), (31, 1, 151, 0), (41, 1, 151, 0), (56, 1, 151, 1)],
    [(2, 1, 152, 0), (9, 1, 152, 0), (23, 1, 152, 0), (40, 1, 152, 1), (2, 1, 155, 0), (9, 1, 155, 0), (23, 1, 155, 0), (40, 1, 155, 1),
     (2, 1, 157, 0), (9, 1, 157, 0), (23, 1, 157, 0), (40, 1, 157, 1), (2, 1, 158, 0), (9, 1, 158, 0), (23, 1, 158, 0), (40, 1, 158, 1)]]"

definition huff_codes_a :: "huff_decode_code list list" where
  "huff_codes_a = [
    [(3, 1, 152, 0), (6, 1, 152, 0), (10, 1, 152, 0), (15, 1, 152, 0), (24, 1, 152, 0), (31, 1, 152, 0), (41, 1, 152, 0), (56, 1, 152, 1),
     (3, 1, 155, 0), (6, 1, 155, 0), (10, 1, 155, 0), (15, 1, 155, 0), (24, 1, 155, 0), (31, 1, 155, 0), (41, 1, 155, 0), (56, 1, 155, 1)],
    [(3, 1, 157, 0), (6, 1, 157, 0), (10, 1, 157, 0), (15, 1, 157, 0), (24, 1, 157, 0), (31, 1, 157, 0), (41, 1, 157, 0), (56, 1, 157, 1),
     (3, 1, 158, 0), (6, 1, 158, 0), (10, 1, 158, 0), (15, 1, 158, 0), (24, 1, 158, 0), (31, 1, 158, 0), (41, 1, 158, 0), (56, 1, 158, 1)],
    [(1, 1, 165, 0), (22, 1, 165, 1), (1, 1, 166, 0), (22, 1, 166, 1), (1, 1, 168, 0), (22, 1, 168, 1), (1, 1, 174, 0), (22, 1, 174, 1),
     (1, 1, 175, 0), (22, 1, 175, 1), (1, 1, 180, 0), (22, 1, 180, 1), (1, 1, 182, 0), (22, 1, 182, 1), (1, 1, 183, 0), (22, 1, 183, 1)],
    [(2, 1, 165, 0), (9, 1, 165, 0), (23, 1, 165, 0), (40, 1, 165, 1), (2, 1, 166, 0), (9, 1, 166, 0), (23, 1, 166, 0), (40, 1, 166, 1),
     (2, 1, 168, 0), (9, 1, 168, 0), (23, 1, 168, 0), (40, 1, 168, 1), (2, 1, 174, 0), (9, 1, 174, 0), (23, 1, 174, 0), (40, 1, 174, 1)],
    [(3, 1, 165, 0), (6, 1, 165, 0), (10, 1, 165, 0), (15, 1, 165, 0), (24, 1, 165, 0), (31, 1, 165, 0), (41, 1, 165, 0), (56, 1, 165, 1),
     (3, 1, 166, 0), (6, 1, 166, 0), (10, 1, 166, 0), (15, 1, 166, 0), (24, 1, 166, 0), (31, 1, 166, 0), (41, 1, 166, 0), (56, 1, 166, 1)],
    [(3, 1, 168, 0), (6, 1, 168, 0), (10, 1, 168, 0), (15, 1, 168, 0), (24, 1, 168, 0), (31, 1, 168, 0), (41, 1, 168, 0), (56, 1, 168, 1),
     (3, 1, 174, 0), (6, 1, 174, 0), (10, 1, 174, 0), (15, 1, 174, 0), (24, 1, 174, 0), (31, 1, 174, 0), (41, 1, 174, 0), (56, 1, 174, 1)],
    [(2, 1, 175, 0), (9, 1, 175, 0), (23, 1, 175, 0), (40, 1, 175, 1), (2, 1, 180, 0), (9, 1, 180, 0), (23, 1, 180, 0), (40, 1, 180, 1),
     (2, 1, 182, 0), (9, 1, 182, 0), (23, 1, 182, 0), (40, 1, 182, 1), (2, 1, 183, 0), (9, 1, 183, 0), (23, 1, 183, 0), (40, 1, 183, 1)],
    [(3, 1, 175, 0), (6, 1, 175, 0), (10, 1, 175, 0), (15, 1, 175, 0), (24, 1, 175, 0), (31, 1, 175, 0), (41, 1, 175, 0), (56, 1, 175, 1),
     (3, 1, 180, 0), (6, 1, 180, 0), (10, 1, 180, 0), (15, 1, 180, 0), (24, 1, 180, 0), (31, 1, 180, 0), (41, 1, 180, 0), (56, 1, 180, 1)],
    [(3, 1, 182, 0), (6, 1, 182, 0), (10, 1, 182, 0), (15, 1, 182, 0), (24, 1, 182, 0), (31, 1, 182, 0), (41, 1, 182, 0), (56, 1, 182, 1),
     (3, 1, 183, 0), (6, 1, 183, 0), (10, 1, 183, 0), (15, 1, 183, 0), (24, 1, 183, 0), (31, 1, 183, 0), (41, 1, 183, 0), (56, 1, 183, 1)],
    [(0, 1, 188, 1), (0, 1, 191, 1), (0, 1, 197, 1), (0, 1, 231, 1), (0, 1, 239, 1), (176, 0, 0, 0), (178, 0, 0, 0), (179, 0, 0, 0),
     (183, 0, 0, 0), (184, 0, 0, 0), (186, 0, 0, 0), (187, 0, 0, 0), (192, 0, 0, 0), (199, 0, 0, 0), (208, 0, 0, 0), (223, 0, 0, 1)],
    [(1, 1, 188, 0), (22, 1, 188, 1), (1, 1, 191, 0), (22, 1, 191, 1), (1, 1, 197, 0), (22, 1, 197, 1), (1, 1, 231, 0), (22, 1, 231, 1),
     (1, 1, 239, 0), (22, 1, 239, 1), (0, 1, 9, 1), (0, 1, 142, 1), (0, 1, 144, 1), (0, 1, 145, 1), (0, 1, 148, 1), (0, 1, 159, 1)],
    [(2, 1, 188, 0), (9, 1, 188, 0), (23, 1, 188, 0), (40, 1, 188, 1), (2, 1, 191, 0), (9, 1, 191, 0), (23, 1, 191, 0), (40, 1, 191, 1),
     (2, 1, 197, 0), (9, 1, 197, 0), (23, 1, 197, 0), (40, 1, 197, 1), (2, 1, 231, 0), (9, 1, 231, 0), (23, 1, 231, 0), (40, 1, 231, 1)],
    [(3, 1, 188, 0), (6, 1, 188, 0), (10, 1, 188, 0), (15, 1, 188, 0), (24, 1, 188, 0), (31, 1, 188, 0), (41, 1, 188, 0), (56, 1, 188, 1),
     (3, 1, 191, 0), (6, 1, 191, 0), (10, 1, 191, 0), (15, 1, 191, 0), (24, 1, 191, 0), (31, 1, 191, 0), (41, 1, 191, 0), (56, 1, 191, 1)],
    [(3, 1, 197, 0), (6, 1, 197, 0), (10, 1, 197, 0), (15, 1, 197, 0), (24, 1, 197, 0), (31, 1, 197, 0), (41, 1, 197, 0), (56, 1, 197, 1),
     (3, 1, 231, 0), (6, 1, 231, 0), (10, 1, 231, 0), (15, 1, 231, 0), (24, 1, 231, 0), (31, 1, 231, 0), (41, 1, 231, 0), (56, 1, 231, 1)],
    [(2, 1, 239, 0), (9, 1, 239, 0), (23, 1, 239, 0), (40, 1, 239, 1), (1, 1, 9, 0), (22, 1, 9, 1), (1, 1, 142, 0), (22, 1, 142, 1),
     (1, 1, 144, 0), (22, 1, 144, 1), (1, 1, 145, 0), (22, 1, 145, 1), (1, 1, 148, 0), (22, 1, 148, 1), (1, 1, 159, 0), (22, 1, 159, 1)],
    [(3, 1, 239, 0), (6, 1, 239, 0), (10, 1, 239, 0), (15, 1, 239, 0), (24, 1, 239, 0), (31, 1, 239, 0), (41, 1, 239, 0), (56, 1, 239, 1),
     (2, 1, 9, 0), (9, 1, 9, 0), (23, 1, 9, 0), (40, 1, 9, 1), (2, 1, 142, 0), (9, 1, 142, 0), (23, 1, 142, 0), (40, 1, 142, 1)]]"

definition huff_codes_b :: "huff_decode_code list list" where
  "huff_codes_b = [
    [(3, 1, 9, 0), (6, 1, 9, 0), (10, 1, 9, 0), (15, 1, 9, 0), (24, 1, 9, 0), (31, 1, 9, 0), (41, 1, 9, 0), (56, 1, 9, 1),
     (3, 1, 142, 0), (6, 1, 142, 0), (10, 1, 142, 0), (15, 1, 142, 0), (24, 1, 142, 0), (31, 1, 142, 0), (41, 1, 142, 0), (56, 1, 142, 1)],
    [(2, 1, 144, 0), (9, 1, 144, 0), (23, 1, 144, 0), (40, 1, 144, 1), (2, 1, 145, 0), (9, 1, 145, 0), (23, 1, 145, 0), (40, 1, 145, 1),
     (2, 1, 148, 0), (9, 1, 148, 0), (23, 1, 148, 0), (40, 1, 148, 1), (2, 1, 159, 0), (9, 1, 159, 0), (23, 1, 159, 0), (40, 1, 159, 1)],
    [(3, 1, 144, 0), (6, 1, 144, 0), (10, 1, 144, 0), (15, 1, 144, 0), (24, 1, 144, 0), (31, 1, 144, 0), (41, 1, 144, 0), (56, 1, 144, 1),
     (3, 1, 145, 0), (6, 1, 145, 0), (10, 1, 145, 0), (15, 1, 145, 0), (24, 1, 145, 0), (31, 1, 145, 0), (41, 1, 145, 0), (56, 1, 145, 1)],
    [(3, 1, 148, 0), (6, 1, 148, 0), (10, 1, 148, 0), (15, 1, 148, 0), (24, 1, 148, 0), (31, 1, 148, 0), (41, 1, 148, 0), (56, 1, 148, 1),
     (3, 1, 159, 0), (6, 1, 159, 0), (10, 1, 159, 0), (15, 1, 159, 0), (24, 1, 159, 0), (31, 1, 159, 0), (41, 1, 159, 0), (56, 1, 159, 1)],
    [(0, 1, 171, 1), (0, 1, 206, 1), (0, 1, 215, 1), (0, 1, 225, 1), (0, 1, 236, 1), (0, 1, 237, 1), (188, 0, 0, 0), (189, 0, 0, 0),
     (193, 0, 0, 0), (196, 0, 0, 0), (200, 0, 0, 0), (203, 0, 0, 0), (209, 0, 0, 0), (216, 0, 0, 0), (224, 0, 0, 0), (238, 0, 0, 1)],
    [(1, 1, 171, 0), (22, 1, 171, 1), (1, 1, 206, 0), (22, 1, 206, 1), (1, 1, 215, 0), (22, 1, 215, 1), (1, 1, 225, 0), (22, 1, 225, 1),
     (1, 1, 236, 0), (22, 1, 236, 1), (1, 1, 237, 0), (22, 1, 237, 1), (0, 1, 199, 1), (0, 1, 207, 1), (0, 1, 234, 1), (0, 1, 235, 1)],
    [(2, 1, 171, 0), (9, 1, 171, 0), (23, 1, 171, 0), (40, 1, 171, 1), (2, 1, 206, 0), (9, 1, 206, 0), (23, 1, 206, 0), (40, 1, 206, 1),
     (2, 1, 215, 0), (9, 1, 215, 0), (23, 1, 215, 0), (40, 1, 215, 1), (2, 1, 225, 0), (9, 1, 225, 0), (23, 1, 225, 0), (40, 1, 225, 1)],
    [(3, 1, 171, 0), (6, 1, 171, 0), (10, 1, 171, 0), (15, 1, 171, 0), (24, 1, 171, 0), (31, 1, 171, 0), (41, 1, 171, 0), (56, 1, 171, 1),
     (3, 1, 206, 0), (6, 1, 206, 0), (10, 1, 206, 0), (15, 1, 206, 0), (24, 1, 206, 0), (31, 1, 206, 0), (41, 1, 206, 0), (56, 1, 206, 1)],
    [(3, 1, 215, 0), (6, 1, 215, 0), (10, 1, 215, 0), (15, 1, 215, 0), (24, 1, 215, 0), (31, 1, 215, 0), (41, 1, 215, 0), (56, 1, 215, 1),
     (3, 1, 225, 0), (6, 1, 225, 0), (10, 1, 225, 0), (15, 1, 225, 0), (24, 1, 225, 0), (31, 1, 225, 0), (41, 1, 225, 0), (56, 1, 225, 1)],
    [(2, 1, 236, 0), (9, 1, 236, 0), (23, 1, 236, 0), (40, 1, 236, 1), (2, 1, 237, 0), (9, 1, 237, 0), (23, 1, 237, 0), (40, 1, 237, 1),
     (1, 1, 199, 0), (22, 1, 199, 1), (1, 1, 207, 0), (22, 1, 207, 1), (1, 1, 234, 0), (22, 1, 234, 1), (1, 1, 235, 0), (22, 1, 235, 1)],
    [(3, 1, 236, 0), (6, 1, 236, 0), (10, 1, 236, 0), (15, 1, 236, 0), (24, 1, 236, 0), (31, 1, 236, 0), (41, 1, 236, 0), (56, 1, 236, 1),
     (3, 1, 237, 0), (6, 1, 237, 0), (10, 1, 237, 0), (15, 1, 237, 0), (24, 1, 237, 0), (31, 1, 237, 0), (41, 1, 237, 0), (56, 1, 237, 1)],
    [(2, 1, 199, 0), (9, 1, 199, 0), (23, 1, 199, 0), (40, 1, 199, 1), (2, 1, 207, 0), (9, 1, 207, 0), (23, 1, 207, 0), (40, 1, 207, 1),
     (2, 1, 234, 0), (9, 1, 234, 0), (23, 1, 234, 0), (40, 1, 234, 1), (2, 1, 235, 0), (9, 1, 235, 0), (23, 1, 235, 0), (40, 1, 235, 1)],
    [(3, 1, 199, 0), (6, 1, 199, 0), (10, 1, 199, 0), (15, 1, 199, 0), (24, 1, 199, 0), (31, 1, 199, 0), (41, 1, 199, 0), (56, 1, 199, 1),
     (3, 1, 207, 0), (6, 1, 207, 0), (10, 1, 207, 0), (15, 1, 207, 0), (24, 1, 207, 0), (31, 1, 207, 0), (41, 1, 207, 0), (56, 1, 207, 1)],
    [(3, 1, 234, 0), (6, 1, 234, 0), (10, 1, 234, 0), (15, 1, 234, 0), (24, 1, 234, 0), (31, 1, 234, 0), (41, 1, 234, 0), (56, 1, 234, 1),
     (3, 1, 235, 0), (6, 1, 235, 0), (10, 1, 235, 0), (15, 1, 235, 0), (24, 1, 235, 0), (31, 1, 235, 0), (41, 1, 235, 0), (56, 1, 235, 1)],
    [(194, 0, 0, 0), (195, 0, 0, 0), (197, 0, 0, 0), (198, 0, 0, 0), (201, 0, 0, 0), (202, 0, 0, 0), (204, 0, 0, 0), (205, 0, 0, 0),
     (210, 0, 0, 0), (213, 0, 0, 0), (217, 0, 0, 0), (220, 0, 0, 0), (225, 0, 0, 0), (231, 0, 0, 0), (239, 0, 0, 0), (246, 0, 0, 1)],
    [(0, 1, 192, 1), (0, 1, 193, 1), (0, 1, 200, 1), (0, 1, 201, 1), (0, 1, 202, 1), (0, 1, 205, 1), (0, 1, 210, 1), (0, 1, 213, 1),
     (0, 1, 218, 1), (0, 1, 219, 1), (0, 1, 238, 1), (0, 1, 240, 1), (0, 1, 242, 1), (0, 1, 243, 1), (0, 1, 255, 1), (206, 0, 0, 0)]]"

definition huff_codes_c :: "huff_decode_code list list" where
  "huff_codes_c = [
    [(1, 1, 192, 0), (22, 1, 192, 1), (1, 1, 193, 0), (22, 1, 193, 1), (1, 1, 200, 0), (22, 1, 200, 1), (1, 1, 201, 0), (22, 1, 201, 1),
     (1, 1, 202, 0), (22, 1, 202, 1), (1, 1, 205, 0), (22, 1, 205, 1), (1, 1, 210, 0), (22, 1, 210, 1), (1, 1, 213, 0), (22, 1, 213, 1)],
    [(2, 1, 192, 0), (9, 1, 192, 0), (23, 1, 192, 0), (40, 1, 192, 1), (2, 1, 193, 0), (9, 1, 193, 0), (23, 1, 193, 0), (40, 1, 193, 1),
     (2, 1, 200, 0), (9, 1, 200, 0), (23, 1, 200, 0), (40, 1, 200, 1), (2, 1, 201, 0), (9, 1, 201, 0), (23, 1, 201, 0), (40, 1, 201, 1)],
    [(3, 1, 192, 0), (6, 1, 192, 0), (10, 1, 192, 0), (15, 1, 192, 0), (24, 1, 192, 0), (31, 1, 192, 0), (41, 1, 192, 0), (56, 1, 192, 1),
     (3, 1, 193, 0), (6, 1, 193, 0), (10, 1, 193, 0), (15, 1, 193, 0), (24, 1, 193, 0), (31, 1, 193, 0), (41, 1, 193, 0), (56, 1, 193, 1)],
    [(3, 1, 200, 0), (6, 1, 200, 0), (10, 1, 200, 0), (15, 1, 200, 0), (24, 1, 200, 0), (31, 1, 200, 0), (41, 1, 200, 0), (56, 1, 200, 1),
     (3, 1, 201, 0), (6, 1, 201, 0), (10, 1, 201, 0), (15, 1, 201, 0), (24, 1, 201, 0), (31, 1, 201, 0), (41, 1, 201, 0), (56, 1, 201, 1)],
    [(2, 1, 202, 0), (9, 1, 202, 0), (23, 1, 202, 0), (40, 1, 202, 1), (2, 1, 205, 0), (9, 1, 205, 0), (23, 1, 205, 0), (40, 1, 205, 1),
     (2, 1, 210, 0), (9, 1, 210, 0), (23, 1, 210, 0), (40, 1, 210, 1), (2, 1, 213, 0), (9, 1, 213, 0), (23, 1, 213, 0), (40, 1, 213, 1)],
    [(3, 1, 202, 0), (6, 1, 202, 0), (10, 1, 202, 0), (15, 1, 202, 0), (24, 1, 202, 0), (31, 1, 202, 0), (41, 1, 202, 0), (56, 1, 202, 1),
     (3, 1, 205, 0), (6, 1, 205, 0), (10, 1, 205, 0), (15, 1, 205, 0), (24, 1, 205, 0), (31, 1, 205, 0), (41, 1, 205, 0), (56, 1, 205, 1)],
    [(3, 1, 210, 0), (6, 1, 210, 0), (10, 1, 210, 0), (15, 1, 210, 0), (24, 1, 210, 0), (31, 1, 210, 0), (41, 1, 210, 0), (56, 1, 210, 1),
     (3, 1, 213, 0), (6, 1, 213, 0), (10, 1, 213, 0), (15, 1, 213, 0), (24, 1, 213, 0), (31, 1, 213, 0), (41, 1, 213, 0), (56, 1, 213, 1)],
    [(1, 1, 218, 0), (22, 1, 218, 1), (1, 1, 219, 0), (22, 1, 219, 1), (1, 1, 238, 0), (22, 1, 238, 1), (1, 1, 240, 0), (22, 1, 240, 1),
     (1, 1, 242, 0), (22, 1, 242, 1), (1, 1, 243, 0), (22, 1, 243, 1), (1, 1, 255, 0), (22, 1, 255, 1), (0, 1, 203, 1), (0, 1, 204, 1)],
    [(2, 1, 218, 0), (9, 1, 218, 0), (23, 1, 218, 0), (40, 1, 218, 1), (2, 1, 219, 0), (9, 1, 219, 0), (23, 1, 219, 0), (40, 1, 219, 1),
     (2, 1, 238, 0), (9, 1, 238, 0), (23, 1, 238, 0), (40, 1, 238, 1), (2, 1, 240, 0), (9, 1, 240, 0), (23, 1, 240, 0), (40, 1, 240, 1)],
    [(3, 1, 218, 0), (6, 1, 218, 0), (10, 1, 218, 0), (15, 1, 218, 0), (24, 1, 218, 0), (31, 1, 218, 0), (41, 1, 218, 0), (56, 1, 218, 1),
     (3, 1, 219, 0), (6, 1, 219, 0), (10, 1, 219, 0), (15, 1, 219, 0), (24, 1, 219, 0), (31, 1, 219, 0), (41, 1, 219, 0), (56, 1, 219, 1)],
    [(3, 1, 238, 0), (6, 1, 238, 0), (10, 1, 238, 0), (15, 1, 238, 0), (24, 1, 238, 0), (31, 1, 238, 0), (41, 1, 238, 0), (56, 1, 238, 1),
     (3, 1, 240, 0), (6, 1, 240, 0), (10, 1, 240, 0), (15, 1, 240, 0), (24, 1, 240, 0), (31, 1, 240, 0), (41, 1, 240, 0), (56, 1, 240, 1)],
    [(2, 1, 242, 0), (9, 1, 242, 0), (23, 1, 242, 0), (40, 1, 242, 1), (2, 1, 243, 0), (9, 1, 243, 0), (23, 1, 243, 0), (40, 1, 243, 1),
     (2, 1, 255, 0), (9, 1, 255, 0), (23, 1, 255, 0), (40, 1, 255, 1), (1, 1, 203, 0), (22, 1, 203, 1), (1, 1, 204, 0), (22, 1, 204, 1)],
    [(3, 1, 242, 0), (6, 1, 242, 0), (10, 1, 242, 0), (15, 1, 242, 0), (24, 1, 242, 0), (31, 1, 242, 0), (41, 1, 242, 0), (56, 1, 242, 1),
     (3, 1, 243, 0), (6, 1, 243, 0), (10, 1, 243, 0), (15, 1, 243, 0), (24, 1, 243, 0), (31, 1, 243, 0), (41, 1, 243, 0), (56, 1, 243, 1)],
    [(3, 1, 255, 0), (6, 1, 255, 0), (10, 1, 255, 0), (15, 1, 255, 0), (24, 1, 255, 0), (31, 1, 255, 0), (41, 1, 255, 0), (56, 1, 255, 1),
     (2, 1, 203, 0), (9, 1, 203, 0), (23, 1, 203, 0), (40, 1, 203, 1), (2, 1, 204, 0), (9, 1, 204, 0), (23, 1, 204, 0), (40, 1, 204, 1)],
    [(3, 1, 203, 0), (6, 1, 203, 0), (10, 1, 203, 0), (15, 1, 203, 0), (24, 1, 203, 0), (31, 1, 203, 0), (41, 1, 203, 0), (56, 1, 203, 1),
     (3, 1, 204, 0), (6, 1, 204, 0), (10, 1, 204, 0), (15, 1, 204, 0), (24, 1, 204, 0), (31, 1, 204, 0), (41, 1, 204, 0), (56, 1, 204, 1)],
    [(211, 0, 0, 0), (212, 0, 0, 0), (214, 0, 0, 0), (215, 0, 0, 0), (218, 0, 0, 0), (219, 0, 0, 0), (221, 0, 0, 0), (222, 0, 0, 0),
     (226, 0, 0, 0), (228, 0, 0, 0), (232, 0, 0, 0), (235, 0, 0, 0), (240, 0, 0, 0), (243, 0, 0, 0), (247, 0, 0, 0), (250, 0, 0, 1)]]"

definition huff_codes_d :: "huff_decode_code list list" where
  "huff_codes_d = [
    [(0, 1, 211, 1), (0, 1, 212, 1), (0, 1, 214, 1), (0, 1, 221, 1), (0, 1, 222, 1), (0, 1, 223, 1), (0, 1, 241, 1), (0, 1, 244, 1),
     (0, 1, 245, 1), (0, 1, 246, 1), (0, 1, 247, 1), (0, 1, 248, 1), (0, 1, 250, 1), (0, 1, 251, 1), (0, 1, 252, 1), (0, 1, 253, 1)],
    [(1, 1, 211, 0), (22, 1, 211, 1), (1, 1, 212, 0), (22, 1, 212, 1), (1, 1, 214, 0), (22, 1, 214, 1), (1, 1, 221, 0), (22, 1, 221, 1),
     (1, 1, 222, 0), (22, 1, 222, 1), (1, 1, 223, 0), (22, 1, 223, 1), (1, 1, 241, 0), (22, 1, 241, 1), (1, 1, 244, 0), (22, 1, 244, 1)],
    [(2, 1, 211, 0), (9, 1, 211, 0), (23, 1, 211, 0), (40, 1, 211, 1), (2, 1, 212, 0), (9, 1, 212, 0), (23, 1, 212, 0), (40, 1, 212, 1),
     (2, 1, 214, 0), (9, 1, 214, 0), (23, 1, 214, 0), (40, 1, 214, 1), (2, 1, 221, 0), (9, 1, 221, 0), (23, 1, 221, 0), (40, 1, 221, 1)],
    [(3, 1, 211, 0), (6, 1, 211, 0), (10, 1, 211, 0), (15, 1, 211, 0), (24, 1, 211, 0), (31, 1, 211, 0), (41, 1, 211, 0), (56, 1, 211, 1),
     (3, 1, 212, 0), (6, 1, 212, 0), (10, 1, 212, 0), (15, 1, 212, 0), (24, 1, 212, 0), (31, 1, 212, 0), (41, 1, 212, 0), (56, 1, 212, 1)],
    [(3, 1, 214, 0), (6, 1, 214, 0), (10, 1, 214, 0), (15, 1, 214, 0), (24, 1, 214, 0), (31, 1, 214, 0), (41, 1, 214, 0), (56, 1, 214, 1),
     (3, 1, 221, 0), (6, 1, 221, 0), (10, 1, 221, 0), (15, 1, 221, 0), (24, 1, 221, 0), (31, 1, 221, 0), (41, 1, 221, 0), (56, 1, 221, 1)],
    [(2, 1, 222, 0), (9, 1, 222, 0), (23, 1, 222, 0), (40, 1, 222, 1), (2, 1, 223, 0), (9, 1, 223, 0), (23, 1, 223, 0), (40, 1, 223, 1),
     (2, 1, 241, 0), (9, 1, 241, 0), (23, 1, 241, 0), (40, 1, 241, 1), (2, 1, 244, 0), (9, 1, 244, 0), (23, 1, 244, 0), (40, 1, 244, 1)],
    [(3, 1, 222, 0), (6, 1, 222, 0), (10, 1, 222, 0), (15, 1, 222, 0), (24, 1, 222, 0), (31, 1, 222, 0), (41, 1, 222, 0), (56, 1, 222, 1),
     (3, 1, 223, 0), (6, 1, 223, 0), (10, 1, 223, 0), (15, 1, 223, 0), (24, 1, 223, 0), (31, 1, 223, 0), (41, 1, 223, 0), (56, 1, 223, 1)],
    [(3, 1, 241, 0), (6, 1, 241, 0), (10, 1, 241, 0), (15, 1, 241, 0), (24, 1, 241, 0), (31, 1, 241, 0), (41, 1, 241, 0), (56, 1, 241, 1),
     (3, 1, 244, 0), (6, 1, 244, 0), (10, 1, 244, 0), (15, 1, 244, 0), (24, 1, 244, 0), (31, 1, 244, 0), (41, 1, 244, 0), (56, 1, 244, 1)],
    [(1, 1, 245, 0), (22, 1, 245, 1), (1, 1, 246, 0), (22, 1, 246, 1), (1, 1, 247, 0), (22, 1, 247, 1), (1, 1, 248, 0), (22, 1, 248, 1),
     (1, 1, 250, 0), (22, 1, 250, 1), (1, 1, 251, 0), (22, 1, 251, 1), (1, 1, 252, 0), (22, 1, 252, 1), (1, 1, 253, 0), (22, 1, 253, 1)],
    [(2, 1, 245, 0), (9, 1, 245, 0), (23, 1, 245, 0), (40, 1, 245, 1), (2, 1, 246, 0), (9, 1, 246, 0), (23, 1, 246, 0), (40, 1, 246, 1),
     (2, 1, 247, 0), (9, 1, 247, 0), (23, 1, 247, 0), (40, 1, 247, 1), (2, 1, 248, 0), (9, 1, 248, 0), (23, 1, 248, 0), (40, 1, 248, 1)],
    [(3, 1, 245, 0), (6, 1, 245, 0), (10, 1, 245, 0), (15, 1, 245, 0), (24, 1, 245, 0), (31, 1, 245, 0), (41, 1, 245, 0), (56, 1, 245, 1),
     (3, 1, 246, 0), (6, 1, 246, 0), (10, 1, 246, 0), (15, 1, 246, 0), (24, 1, 246, 0), (31, 1, 246, 0), (41, 1, 246, 0), (56, 1, 246, 1)],
    [(3, 1, 247, 0), (6, 1, 247, 0), (10, 1, 247, 0), (15, 1, 247, 0), (24, 1, 247, 0), (31, 1, 247, 0), (41, 1, 247, 0), (56, 1, 247, 1),
     (3, 1, 248, 0), (6, 1, 248, 0), (10, 1, 248, 0), (15, 1, 248, 0), (24, 1, 248, 0), (31, 1, 248, 0), (41, 1, 248, 0), (56, 1, 248, 1)],
    [(2, 1, 250, 0), (9, 1, 250, 0), (23, 1, 250, 0), (40, 1, 250, 1), (2, 1, 251, 0), (9, 1, 251, 0), (23, 1, 251, 0), (40, 1, 251, 1),
     (2, 1, 252, 0), (9, 1, 252, 0), (23, 1, 252, 0), (40, 1, 252, 1), (2, 1, 253, 0), (9, 1, 253, 0), (23, 1, 253, 0), (40, 1, 253, 1)],
    [(3, 1, 250, 0), (6, 1, 250, 0), (10, 1, 250, 0), (15, 1, 250, 0), (24, 1, 250, 0), (31, 1, 250, 0), (41, 1, 250, 0), (56, 1, 250, 1),
     (3, 1, 251, 0), (6, 1, 251, 0), (10, 1, 251, 0), (15, 1, 251, 0), (24, 1, 251, 0), (31, 1, 251, 0), (41, 1, 251, 0), (56, 1, 251, 1)],
    [(3, 1, 252, 0), (6, 1, 252, 0), (10, 1, 252, 0), (15, 1, 252, 0), (24, 1, 252, 0), (31, 1, 252, 0), (41, 1, 252, 0), (56, 1, 252, 1),
     (3, 1, 253, 0), (6, 1, 253, 0), (10, 1, 253, 0), (15, 1, 253, 0), (24, 1, 253, 0), (31, 1, 253, 0), (41, 1, 253, 0), (56, 1, 253, 1)],
    [(0, 1, 254, 1), (227, 0, 0, 0), (229, 0, 0, 0), (230, 0, 0, 0), (233, 0, 0, 0), (234, 0, 0, 0), (236, 0, 0, 0), (237, 0, 0, 0),
     (241, 0, 0, 0), (242, 0, 0, 0), (244, 0, 0, 0), (245, 0, 0, 0), (248, 0, 0, 0), (249, 0, 0, 0), (251, 0, 0, 0), (252, 0, 0, 1)]]"

definition huff_codes_e :: "huff_decode_code list list" where
  "huff_codes_e = [
    [(1, 1, 254, 0), (22, 1, 254, 1), (0, 1, 2, 1), (0, 1, 3, 1), (0, 1, 4, 1), (0, 1, 5, 1), (0, 1, 6, 1), (0, 1, 7, 1),
     (0, 1, 8, 1), (0, 1, 11, 1), (0, 1, 12, 1), (0, 1, 14, 1), (0, 1, 15, 1), (0, 1, 16, 1), (0, 1, 17, 1), (0, 1, 18, 1)],
    [(2, 1, 254, 0), (9, 1, 254, 0), (23, 1, 254, 0), (40, 1, 254, 1), (1, 1, 2, 0), (22, 1, 2, 1), (1, 1, 3, 0), (22, 1, 3, 1),
     (1, 1, 4, 0), (22, 1, 4, 1), (1, 1, 5, 0), (22, 1, 5, 1), (1, 1, 6, 0), (22, 1, 6, 1), (1, 1, 7, 0), (22, 1, 7, 1)],
    [(3, 1, 254, 0), (6, 1, 254, 0), (10, 1, 254, 0), (15, 1, 254, 0), (24, 1, 254, 0), (31, 1, 254, 0), (41, 1, 254, 0), (56, 1, 254, 1),
     (2, 1, 2, 0), (9, 1, 2, 0), (23, 1, 2, 0), (40, 1, 2, 1), (2, 1, 3, 0), (9, 1, 3, 0), (23, 1, 3, 0), (40, 1, 3, 1)],
    [(3, 1, 2, 0), (6, 1, 2, 0), (10, 1, 2, 0), (15, 1, 2, 0), (24, 1, 2, 0), (31, 1, 2, 0), (41, 1, 2, 0), (56, 1, 2, 1),
     (3, 1, 3, 0), (6, 1, 3, 0), (10, 1, 3, 0), (15, 1, 3, 0), (24, 1, 3, 0), (31, 1, 3, 0), (41, 1, 3, 0), (56, 1, 3, 1)],
    [(2, 1, 4, 0), (9, 1, 4, 0), (23, 1, 4, 0), (40, 1, 4, 1), (2, 1, 5, 0), (9, 1, 5, 0), (23, 1, 5, 0), (40, 1, 5, 1),
     (2, 1, 6, 0), (9, 1, 6, 0), (23, 1, 6, 0), (40, 1, 6, 1), (2, 1, 7, 0), (9, 1, 7, 0), (23, 1, 7, 0), (40, 1, 7, 1)],
    [(3, 1, 4, 0), (6, 1, 4, 0), (10, 1, 4, 0), (15, 1, 4, 0), (24, 1, 4, 0), (31, 1, 4, 0), (41, 1, 4, 0), (56, 1, 4, 1),
     (3, 1, 5, 0), (6, 1, 5, 0), (10, 1, 5, 0), (15, 1, 5, 0), (24, 1, 5, 0), (31, 1, 5, 0), (41, 1, 5, 0), (56, 1, 5, 1)],
    [(3, 1, 6, 0), (6, 1, 6, 0), (10, 1, 6, 0), (15, 1, 6, 0), (24, 1, 6, 0), (31, 1, 6, 0), (41, 1, 6, 0), (56, 1, 6, 1),
     (3, 1, 7, 0), (6, 1, 7, 0), (10, 1, 7, 0), (15, 1, 7, 0), (24, 1, 7, 0), (31, 1, 7, 0), (41, 1, 7, 0), (56, 1, 7, 1)],
    [(1, 1, 8, 0), (22, 1, 8, 1), (1, 1, 11, 0), (22, 1, 11, 1), (1, 1, 12, 0), (22, 1, 12, 1), (1, 1, 14, 0), (22, 1, 14, 1),
     (1, 1, 15, 0), (22, 1, 15, 1), (1, 1, 16, 0), (22, 1, 16, 1), (1, 1, 17, 0), (22, 1, 17, 1), (1, 1, 18, 0), (22, 1, 18, 1)],
    [(2, 1, 8, 0), (9, 1, 8, 0), (23, 1, 8, 0), (40, 1, 8, 1), (2, 1, 11, 0), (9, 1, 11, 0), (23, 1, 11, 0), (40, 1, 11, 1),
     (2, 1, 12, 0), (9, 1, 12, 0), (23, 1, 12, 0), (40, 1, 12, 1), (2, 1, 14, 0), (9, 1, 14, 0), (23, 1, 14, 0), (40, 1, 14, 1)],
    [(3, 1, 8, 0), (6, 1, 8, 0), (10, 1, 8, 0), (15, 1, 8, 0), (24, 1, 8, 0), (31, 1, 8, 0), (41, 1, 8, 0), (56, 1, 8, 1),
     (3, 1, 11, 0), (6, 1, 11, 0), (10, 1, 11, 0), (15, 1, 11, 0), (24, 1, 11, 0), (31, 1, 11, 0), (41, 1, 11, 0), (56, 1, 11, 1)],
    [(3, 1, 12, 0), (6, 1, 12, 0), (10, 1, 12, 0), (15, 1, 12, 0), (24, 1, 12, 0), (31, 1, 12, 0), (41, 1, 12, 0), (56, 1, 12, 1),
     (3, 1, 14, 0), (6, 1, 14, 0), (10, 1, 14, 0), (15, 1, 14, 0), (24, 1, 14, 0), (31, 1, 14, 0), (41, 1, 14, 0), (56, 1, 14, 1)],
    [(2, 1, 15, 0), (9, 1, 15, 0), (23, 1, 15, 0), (40, 1, 15, 1), (2, 1, 16, 0), (9, 1, 16, 0), (23, 1, 16, 0), (40, 1, 16, 1),
     (2, 1, 17, 0), (9, 1, 17, 0), (23, 1, 17, 0), (40, 1, 17, 1), (2, 1, 18, 0), (9, 1, 18, 0), (23, 1, 18, 0), (40, 1, 18, 1)],
    [(3, 1, 15, 0), (6, 1, 15, 0), (10, 1, 15, 0), (15, 1, 15, 0), (24, 1, 15, 0), (31, 1, 15, 0), (41, 1, 15, 0), (56, 1, 15, 1),
     (3, 1, 16, 0), (6, 1, 16, 0), (10, 1, 16, 0), (15, 1, 16, 0), (24, 1, 16, 0), (31, 1, 16, 0), (41, 1, 16, 0), (56, 1, 16, 1)],
    [(3, 1, 17, 0), (6, 1, 17, 0), (10, 1, 17, 0), (15, 1, 17, 0), (24, 1, 17, 0), (31, 1, 17, 0), (41, 1, 17, 0), (56, 1, 17, 1),
     (3, 1, 18, 0), (6, 1, 18, 0), (10, 1, 18, 0), (15, 1, 18, 0), (24, 1, 18, 0), (31, 1, 18, 0), (41, 1, 18, 0), (56, 1, 18, 1)],
    [(0, 1, 19, 1), (0, 1, 20, 1), (0, 1, 21, 1), (0, 1, 23, 1), (0, 1, 24, 1), (0, 1, 25, 1), (0, 1, 26, 1), (0, 1, 27, 1),
     (0, 1, 28, 1), (0, 1, 29, 1), (0, 1, 30, 1), (0, 1, 31, 1), (0, 1, 127, 1), (0, 1, 220, 1), (0, 1, 249, 1), (253, 0, 0, 1)],
    [(1, 1, 19, 0), (22, 1, 19, 1), (1, 1, 20, 0), (22, 1, 20, 1), (1, 1, 21, 0), (22, 1, 21, 1), (1, 1, 23, 0), (22, 1, 23, 1),
     (1, 1, 24, 0), (22, 1, 24, 1), (1, 1, 25, 0), (22, 1, 25, 1), (1, 1, 26, 0), (22, 1, 26, 1), (1, 1, 27, 0), (22, 1, 27, 1)]]"

definition huff_codes_f :: "huff_decode_code list list" where
  "huff_codes_f = [
    [(2, 1, 19, 0), (9, 1, 19, 0), (23, 1, 19, 0), (40, 1, 19, 1), (2, 1, 20, 0), (9, 1, 20, 0), (23, 1, 20, 0), (40, 1, 20, 1),
     (2, 1, 21, 0), (9, 1, 21, 0), (23, 1, 21, 0), (40, 1, 21, 1), (2, 1, 23, 0), (9, 1, 23, 0), (23, 1, 23, 0), (40, 1, 23, 1)],
    [(3, 1, 19, 0), (6, 1, 19, 0), (10, 1, 19, 0), (15, 1, 19, 0), (24, 1, 19, 0), (31, 1, 19, 0), (41, 1, 19, 0), (56, 1, 19, 1),
     (3, 1, 20, 0), (6, 1, 20, 0), (10, 1, 20, 0), (15, 1, 20, 0), (24, 1, 20, 0), (31, 1, 20, 0), (41, 1, 20, 0), (56, 1, 20, 1)],
    [(3, 1, 21, 0), (6, 1, 21, 0), (10, 1, 21, 0), (15, 1, 21, 0), (24, 1, 21, 0), (31, 1, 21, 0), (41, 1, 21, 0), (56, 1, 21, 1),
     (3, 1, 23, 0), (6, 1, 23, 0), (10, 1, 23, 0), (15, 1, 23, 0), (24, 1, 23, 0), (31, 1, 23, 0), (41, 1, 23, 0), (56, 1, 23, 1)],
    [(2, 1, 24, 0), (9, 1, 24, 0), (23, 1, 24, 0), (40, 1, 24, 1), (2, 1, 25, 0), (9, 1, 25, 0), (23, 1, 25, 0), (40, 1, 25, 1),
     (2, 1, 26, 0), (9, 1, 26, 0), (23, 1, 26, 0), (40, 1, 26, 1), (2, 1, 27, 0), (9, 1, 27, 0), (23, 1, 27, 0), (40, 1, 27, 1)],
    [(3, 1, 24, 0), (6, 1, 24, 0), (10, 1, 24, 0), (15, 1, 24, 0), (24, 1, 24, 0), (31, 1, 24, 0), (41, 1, 24, 0), (56, 1, 24, 1),
     (3, 1, 25, 0), (6, 1, 25, 0), (10, 1, 25, 0), (15, 1, 25, 0), (24, 1, 25, 0), (31, 1, 25, 0), (41, 1, 25, 0), (56, 1, 25, 1)],
    [(3, 1, 26, 0), (6, 1, 26, 0), (10, 1, 26, 0), (15, 1, 26, 0), (24, 1, 26, 0), (31, 1, 26, 0), (41, 1, 26, 0), (56, 1, 26, 1),
     (3, 1, 27, 0), (6, 1, 27, 0), (10, 1, 27, 0), (15, 1, 27, 0), (24, 1, 27, 0), (31, 1, 27, 0), (41, 1, 27, 0), (56, 1, 27, 1)],
    [(1, 1, 28, 0), (22, 1, 28, 1), (1, 1, 29, 0), (22, 1, 29, 1), (1, 1, 30, 0), (22, 1, 30, 1), (1, 1, 31, 0), (22, 1, 31, 1),
     (1, 1, 127, 0), (22, 1, 127, 1), (1, 1, 220, 0), (22, 1, 220, 1), (1, 1, 249, 0), (22, 1, 249, 1), (254, 0, 0, 0), (255, 0, 0, 1)],
    [(2, 1, 28, 0), (9, 1, 28, 0), (23, 1, 28, 0), (40, 1, 28, 1), (2, 1, 29, 0), (9, 1, 29, 0), (23, 1, 29, 0), (40, 1, 29, 1),
     (2, 1, 30, 0), (9, 1, 30, 0), (23, 1, 30, 0), (40, 1, 30, 1), (2, 1, 31, 0), (9, 1, 31, 0), (23, 1, 31, 0), (40, 1, 31, 1)],
    [(3, 1, 28, 0), (6, 1, 28, 0), (10, 1, 28, 0), (15, 1, 28, 0), (24, 1, 28, 0), (31, 1, 28, 0), (41, 1, 28, 0), (56, 1, 28, 1),
     (3, 1, 29, 0), (6, 1, 29, 0), (10, 1, 29, 0), (15, 1, 29, 0), (24, 1, 29, 0), (31, 1, 29, 0), (41, 1, 29, 0), (56, 1, 29, 1)],
    [(3, 1, 30, 0), (6, 1, 30, 0), (10, 1, 30, 0), (15, 1, 30, 0), (24, 1, 30, 0), (31, 1, 30, 0), (41, 1, 30, 0), (56, 1, 30, 1),
     (3, 1, 31, 0), (6, 1, 31, 0), (10, 1, 31, 0), (15, 1, 31, 0), (24, 1, 31, 0), (31, 1, 31, 0), (41, 1, 31, 0), (56, 1, 31, 1)],
    [(2, 1, 127, 0), (9, 1, 127, 0), (23, 1, 127, 0), (40, 1, 127, 1), (2, 1, 220, 0), (9, 1, 220, 0), (23, 1, 220, 0), (40, 1, 220, 1),
     (2, 1, 249, 0), (9, 1, 249, 0), (23, 1, 249, 0), (40, 1, 249, 1), (0, 1, 10, 1), (0, 1, 13, 1), (0, 1, 22, 1), (250, 0, 0, 0)],
    [(3, 1, 127, 0), (6, 1, 127, 0), (10, 1, 127, 0), (15, 1, 127, 0), (24, 1, 127, 0), (31, 1, 127, 0), (41, 1, 127, 0), (56, 1, 127, 1),
     (3, 1, 220, 0), (6, 1, 220, 0), (10, 1, 220, 0), (15, 1, 220, 0), (24, 1, 220, 0), (31, 1, 220, 0), (41, 1, 220, 0), (56, 1, 220, 1)],
    [(3, 1, 249, 0), (6, 1, 249, 0), (10, 1, 249, 0), (15, 1, 249, 0), (24, 1, 249, 0), (31, 1, 249, 0), (41, 1, 249, 0), (56, 1, 249, 1),
     (1, 1, 10, 0), (22, 1, 10, 1), (1, 1, 13, 0), (22, 1, 13, 1), (1, 1, 22, 0), (22, 1, 22, 1), (252, 0, 0, 0), (252, 0, 0, 0)],
    [(2, 1, 10, 0), (9, 1, 10, 0), (23, 1, 10, 0), (40, 1, 10, 1), (2, 1, 13, 0), (9, 1, 13, 0), (23, 1, 13, 0), (40, 1, 13, 1),
     (2, 1, 22, 0), (9, 1, 22, 0), (23, 1, 22, 0), (40, 1, 22, 1), (253, 0, 0, 0), (253, 0, 0, 0), (253, 0, 0, 0), (253, 0, 0, 0)],
    [(3, 1, 10, 0), (6, 1, 10, 0), (10, 1, 10, 0), (15, 1, 10, 0), (24, 1, 10, 0), (31, 1, 10, 0), (41, 1, 10, 0), (56, 1, 10, 1),
     (3, 1, 13, 0), (6, 1, 13, 0), (10, 1, 13, 0), (15, 1, 13, 0), (24, 1, 13, 0), (31, 1, 13, 0), (41, 1, 13, 0), (56, 1, 13, 1)],
    [(3, 1, 22, 0), (6, 1, 22, 0), (10, 1, 22, 0), (15, 1, 22, 0), (24, 1, 22, 0), (31, 1, 22, 0), (41, 1, 22, 0), (56, 1, 22, 1),
     (255, 0, 0, 0), (255, 0, 0, 0), (255, 0, 0, 0), (255, 0, 0, 0), (255, 0, 0, 0), (255, 0, 0, 0), (255, 0, 0, 0), (255, 0, 0, 0)]]"

definition ngx_http_huff_decode_codes :: "huff_decode_code list list" where
  "ngx_http_huff_decode_codes = concat
     [huff_codes_0, huff_codes_1, huff_codes_2, huff_codes_3, huff_codes_4, huff_codes_5, huff_codes_6, huff_codes_7,
      huff_codes_8, huff_codes_9, huff_codes_a, huff_codes_b, huff_codes_c, huff_codes_d, huff_codes_e, huff_codes_f]"

section \<open>The tree of the code\<close>

text \<open>
  For each inner node, whether its path has only ones, which makes it the start of a padding, and its
  children.  The code of 30 ones is that of the end of the string, which is never sent.
\<close>

datatype kid = Inner nat | Symbol nat | Eos

definition huff_nodes :: "(bool \<times> kid \<times> kid) list" where
  "huff_nodes = [
   (True, Inner 1, Inner 22), (False, Inner 2, Inner 9), (False, Inner 3, Inner 6),
   (False, Inner 4, Inner 5), (False, Symbol 48, Symbol 49), (False, Symbol 50, Symbol 97),
   (False, Inner 7, Inner 8), (False, Symbol 99, Symbol 101), (False, Symbol 105, Symbol 111),
   (False, Inner 10, Inner 15), (False, Inner 11, Inner 12), (False, Symbol 115, Symbol 116),
   (False, Inner 13, Inner 14), (False, Symbol 32, Symbol 37), (False, Symbol 45, Symbol 46),
   (False, Inner 16, Inner 19), (False, Inner 17, Inner 18), (False, Symbol 47, Symbol 51),
   (False, Symbol 52, Symbol 53), (False, Inner 20, Inner 21), (False, Symbol 54, Symbol 55),
   (False, Symbol 56, Symbol 57), (True, Inner 23, Inner 40), (False, Inner 24, Inner 31),
   (False, Inner 25, Inner 28), (False, Inner 26, Inner 27), (False, Symbol 61, Symbol 65),
   (False, Symbol 95, Symbol 98), (False, Inner 29, Inner 30), (False, Symbol 100, Symbol 102),
   (False, Symbol 103, Symbol 104), (False, Inner 32, Inner 35), (False, Inner 33, Inner 34),
   (False, Symbol 108, Symbol 109), (False, Symbol 110, Symbol 112), (False, Inner 36, Inner 37),
   (False, Symbol 114, Symbol 117), (False, Inner 38, Inner 39), (False, Symbol 58, Symbol 66),
   (False, Symbol 67, Symbol 68), (True, Inner 41, Inner 56), (False, Inner 42, Inner 49),
   (False, Inner 43, Inner 46), (False, Inner 44, Inner 45), (False, Symbol 69, Symbol 70),
   (False, Symbol 71, Symbol 72), (False, Inner 47, Inner 48), (False, Symbol 73, Symbol 74),
   (False, Symbol 75, Symbol 76), (False, Inner 50, Inner 53), (False, Inner 51, Inner 52),
   (False, Symbol 77, Symbol 78), (False, Symbol 79, Symbol 80), (False, Inner 54, Inner 55),
   (False, Symbol 81, Symbol 82), (False, Symbol 83, Symbol 84), (True, Inner 57, Inner 64),
   (False, Inner 58, Inner 61), (False, Inner 59, Inner 60), (False, Symbol 85, Symbol 86),
   (False, Symbol 87, Symbol 89), (False, Inner 62, Inner 63), (False, Symbol 106, Symbol 107),
   (False, Symbol 113, Symbol 118), (True, Inner 65, Inner 68), (False, Inner 66, Inner 67),
   (False, Symbol 119, Symbol 120), (False, Symbol 121, Symbol 122), (True, Inner 69, Inner 72),
   (False, Inner 70, Inner 71), (False, Symbol 38, Symbol 42), (False, Symbol 44, Symbol 59),
   (True, Inner 73, Inner 74), (False, Symbol 88, Symbol 90), (True, Inner 75, Inner 78),
   (False, Inner 76, Inner 77), (False, Symbol 33, Symbol 34), (False, Symbol 40, Symbol 41),
   (True, Inner 79, Inner 81), (False, Symbol 63, Inner 80), (False, Symbol 39, Symbol 43),
   (True, Inner 82, Inner 84), (False, Symbol 124, Inner 83), (False, Symbol 35, Symbol 62),
   (True, Inner 85, Inner 88), (False, Inner 86, Inner 87), (False, Symbol 0, Symbol 36),
   (False, Symbol 64, Symbol 91), (True, Inner 89, Inner 90), (False, Symbol 93, Symbol 126),
   (True, Inner 91, Inner 92), (False, Symbol 94, Symbol 125), (True, Inner 93, Inner 94),
   (False, Symbol 60, Symbol 96), (True, Symbol 123, Inner 95), (True, Inner 96, Inner 110),
   (False, Inner 97, Inner 101), (False, Inner 98, Inner 99), (False, Symbol 92, Symbol 195),
   (False, Symbol 208, Inner 100), (False, Symbol 128, Symbol 130), (False, Inner 102, Inner 105),
   (False, Inner 103, Inner 104), (False, Symbol 131, Symbol 162), (False, Symbol 184, Symbol 194),
   (False, Inner 106, Inner 107), (False, Symbol 224, Symbol 226), (False, Inner 108, Inner 109),
   (False, Symbol 153, Symbol 161), (False, Symbol 167, Symbol 172), (True, Inner 111, Inner 133),
   (False, Inner 112, Inner 119), (False, Inner 113, Inner 116), (False, Inner 114, Inner 115),
   (False, Symbol 176, Symbol 177), (False, Symbol 179, Symbol 209), (False, Inner 117, Inner 118),
   (False, Symbol 216, Symbol 217), (False, Symbol 227, Symbol 229), (False, Inner 120, Inner 126),
   (False, Inner 121, Inner 123), (False, Symbol 230, Inner 122), (False, Symbol 129, Symbol 132),
   (False, Inner 124, Inner 125), (False, Symbol 133, Symbol 134), (False, Symbol 136, Symbol 146),
   (False, Inner 127, Inner 130), (False, Inner 128, Inner 129), (False, Symbol 154, Symbol 156),
   (False, Symbol 160, Symbol 163), (False, Inner 131, Inner 132), (False, Symbol 164, Symbol 169),
   (False, Symbol 170, Symbol 173), (True, Inner 134, Inner 153), (False, Inner 135, Inner 142),
   (False, Inner 136, Inner 139), (False, Inner 137, Inner 138), (False, Symbol 178, Symbol 181),
   (False, Symbol 185, Symbol 186), (False, Inner 140, Inner 141), (False, Symbol 187, Symbol 189),
   (False, Symbol 190, Symbol 196), (False, Inner 143, Inner 146), (False, Inner 144, Inner 145),
   (False, Symbol 198, Symbol 228), (False, Symbol 232, Symbol 233), (False, Inner 147, Inner 150),
   (False, Inner 148, Inner 149), (False, Symbol 1, Symbol 135), (False, Symbol 137, Symbol 138),
   (False, Inner 151, Inner 152), (False, Symbol 139, Symbol 140), (False, Symbol 141, Symbol 143),
   (True, Inner 154, Inner 169), (False, Inner 155, Inner 162), (False, Inner 156, Inner 159),
   (False, Inner 157, Inner 158), (False, Symbol 147, Symbol 149), (False, Symbol 150, Symbol 151),
   (False, Inner 160, Inner 161), (False, Symbol 152, Symbol 155), (False, Symbol 157, Symbol 158),
   (False, Inner 163, Inner 166), (False, Inner 164, Inner 165), (False, Symbol 165, Symbol 166),
   (False, Symbol 168, Symbol 174), (False, Inner 167, Inner 168), (False, Symbol 175, Symbol 180),
   (False, Symbol 182, Symbol 183), (True, Inner 170, Inner 180), (False, Inner 171, Inner 174),
   (False, Inner 172, Inner 173), (False, Symbol 188, Symbol 191), (False, Symbol 197, Symbol 231),
   (False, Inner 175, Inner 177), (False, Symbol 239, Inner 176), (False, Symbol 9, Symbol 142),
   (False, Inner 178, Inner 179), (False, Symbol 144, Symbol 145), (False, Symbol 148, Symbol 159),
   (True, Inner 181, Inner 190), (False, Inner 182, Inner 185), (False, Inner 183, Inner 184),
   (False, Symbol 171, Symbol 206), (False, Symbol 215, Symbol 225), (False, Inner 186, Inner 187),
   (False, Symbol 236, Symbol 237), (False, Inner 188, Inner 189), (False, Symbol 199, Symbol 207),
   (False, Symbol 234, Symbol 235), (True, Inner 191, Inner 207), (False, Inner 192, Inner 199),
   (False, Inner 193, Inner 196), (False, Inner 194, Inner 195), (False, Symbol 192, Symbol 193),
   (False, Symbol 200, Symbol 201), (False, Inner 197, Inner 198), (False, Symbol 202, Symbol 205),
   (False, Symbol 210, Symbol 213), (False, Inner 200, Inner 203), (False, Inner 201, Inner 202),
   (False, Symbol 218, Symbol 219), (False, Symbol 238, Symbol 240), (False, Inner 204, Inner 205),
   (False, Symbol 242, Symbol 243), (False, Symbol 255, Inner 206), (False, Symbol 203, Symbol 204),
   (True, Inner 208, Inner 223), (False, Inner 209, Inner 216), (False, Inner 210, Inner 213),
   (False, Inner 211, Inner 212), (False, Symbol 211, Symbol 212), (False, Symbol 214, Symbol 221),
   (False, Inner 214, Inner 215), (False, Symbol 222, Symbol 223), (False, Symbol 241, Symbol 244),
   (False, Inner 217, Inner 220), (False, Inner 218, Inner 219), (False, Symbol 245, Symbol 246),
   (False, Symbol 247, Symbol 248), (False, Inner 221, Inner 222), (False, Symbol 250, Symbol 251),
   (False, Symbol 252, Symbol 253), (True, Inner 224, Inner 238), (False, Inner 225, Inner 231),
   (False, Inner 226, Inner 228), (False, Symbol 254, Inner 227), (False, Symbol 2, Symbol 3),
   (False, Inner 229, Inner 230), (False, Symbol 4, Symbol 5), (False, Symbol 6, Symbol 7),
   (False, Inner 232, Inner 235), (False, Inner 233, Inner 234), (False, Symbol 8, Symbol 11),
   (False, Symbol 12, Symbol 14), (False, Inner 236, Inner 237), (False, Symbol 15, Symbol 16),
   (False, Symbol 17, Symbol 18), (True, Inner 239, Inner 246), (False, Inner 240, Inner 243),
   (False, Inner 241, Inner 242), (False, Symbol 19, Symbol 20), (False, Symbol 21, Symbol 23),
   (False, Inner 244, Inner 245), (False, Symbol 24, Symbol 25), (False, Symbol 26, Symbol 27),
   (True, Inner 247, Inner 250), (False, Inner 248, Inner 249), (False, Symbol 28, Symbol 29),
   (False, Symbol 30, Symbol 31), (True, Inner 251, Inner 252), (False, Symbol 127, Symbol 220),
   (True, Symbol 249, Inner 253), (True, Inner 254, Inner 255), (False, Symbol 10, Symbol 13),
   (True, Symbol 22, Eos)]"

definition child :: "nat \<Rightarrow> bool \<Rightarrow> kid" where
  "child s b = (case huff_nodes ! s of (_, l, r) \<Rightarrow> if b then r else l)"

definition padding :: "nat \<Rightarrow> bool" where
  "padding s = fst (huff_nodes ! s)"

text \<open>The walk along bits from a node: where it ends and the symbols on its way.\<close>

fun run :: "nat \<Rightarrow> bool list \<Rightarrow> (nat \<times> nat list) option" where
  "run s [] = Some (s, [])"
| "run s (b # bs) =
     (case child s b of
        Inner t \<Rightarrow> run t bs
      | Symbol c \<Rightarrow> (case run 0 bs of None \<Rightarrow> None | Some (t, cs) \<Rightarrow> Some (t, c # cs))
      | Eos \<Rightarrow> None)"

lemma node_0:
  "huff_nodes ! 0 = (True, Inner 1, Inner 22)"
  "huff_nodes ! 1 = (False, Inner 2, Inner 9)"
  "huff_nodes ! 2 = (False, Inner 3, Inner 6)"
  "huff_nodes ! 3 = (False, Inner 4, Inner 5)"
  "huff_nodes ! 4 = (False, Symbol 48, Symbol 49)"
  "huff_nodes ! 5 = (False, Symbol 50, Symbol 97)"
  "huff_nodes ! 6 = (False, Inner 7, Inner 8)"
  "huff_nodes ! 7 = (False, Symbol 99, Symbol 101)"
  "huff_nodes ! 8 = (False, Symbol 105, Symbol 111)"
  "huff_nodes ! 9 = (False, Inner 10, Inner 15)"
  "huff_nodes ! 10 = (False, Inner 11, Inner 12)"
  "huff_nodes ! 11 = (False, Symbol 115, Symbol 116)"
  "huff_nodes ! 12 = (False, Inner 13, Inner 14)"
  "huff_nodes ! 13 = (False, Symbol 32, Symbol 37)"
  "huff_nodes ! 14 = (False, Symbol 45, Symbol 46)"
  "huff_nodes ! 15 = (False, Inner 16, Inner 19)"
  "huff_nodes ! 16 = (False, Inner 17, Inner 18)"
  "huff_nodes ! 17 = (False, Symbol 47, Symbol 51)"
  "huff_nodes ! 18 = (False, Symbol 52, Symbol 53)"
  "huff_nodes ! 19 = (False, Inner 20, Inner 21)"
  "huff_nodes ! 20 = (False, Symbol 54, Symbol 55)"
  "huff_nodes ! 21 = (False, Symbol 56, Symbol 57)"
  "huff_nodes ! 22 = (True, Inner 23, Inner 40)"
  "huff_nodes ! 23 = (False, Inner 24, Inner 31)"
  "huff_nodes ! 24 = (False, Inner 25, Inner 28)"
  "huff_nodes ! 25 = (False, Inner 26, Inner 27)"
  "huff_nodes ! 26 = (False, Symbol 61, Symbol 65)"
  "huff_nodes ! 27 = (False, Symbol 95, Symbol 98)"
  "huff_nodes ! 28 = (False, Inner 29, Inner 30)"
  "huff_nodes ! 29 = (False, Symbol 100, Symbol 102)"
  "huff_nodes ! 30 = (False, Symbol 103, Symbol 104)"
  "huff_nodes ! 31 = (False, Inner 32, Inner 35)"
  by (simp_all add: huff_nodes_def)

lemma node_1:
  "huff_nodes ! 32 = (False, Inner 33, Inner 34)"
  "huff_nodes ! 33 = (False, Symbol 108, Symbol 109)"
  "huff_nodes ! 34 = (False, Symbol 110, Symbol 112)"
  "huff_nodes ! 35 = (False, Inner 36, Inner 37)"
  "huff_nodes ! 36 = (False, Symbol 114, Symbol 117)"
  "huff_nodes ! 37 = (False, Inner 38, Inner 39)"
  "huff_nodes ! 38 = (False, Symbol 58, Symbol 66)"
  "huff_nodes ! 39 = (False, Symbol 67, Symbol 68)"
  "huff_nodes ! 40 = (True, Inner 41, Inner 56)"
  "huff_nodes ! 41 = (False, Inner 42, Inner 49)"
  "huff_nodes ! 42 = (False, Inner 43, Inner 46)"
  "huff_nodes ! 43 = (False, Inner 44, Inner 45)"
  "huff_nodes ! 44 = (False, Symbol 69, Symbol 70)"
  "huff_nodes ! 45 = (False, Symbol 71, Symbol 72)"
  "huff_nodes ! 46 = (False, Inner 47, Inner 48)"
  "huff_nodes ! 47 = (False, Symbol 73, Symbol 74)"
  "huff_nodes ! 48 = (False, Symbol 75, Symbol 76)"
  "huff_nodes ! 49 = (False, Inner 50, Inner 53)"
  "huff_nodes ! 50 = (False, Inner 51, Inner 52)"
  "huff_nodes ! 51 = (False, Symbol 77, Symbol 78)"
  "huff_nodes ! 52 = (False, Symbol 79, Symbol 80)"
  "huff_nodes ! 53 = (False, Inner 54, Inner 55)"
  "huff_nodes ! 54 = (False, Symbol 81, Symbol 82)"
  "huff_nodes ! 55 = (False, Symbol 83, Symbol 84)"
  "huff_nodes ! 56 = (True, Inner 57, Inner 64)"
  "huff_nodes ! 57 = (False, Inner 58, Inner 61)"
  "huff_nodes ! 58 = (False, Inner 59, Inner 60)"
  "huff_nodes ! 59 = (False, Symbol 85, Symbol 86)"
  "huff_nodes ! 60 = (False, Symbol 87, Symbol 89)"
  "huff_nodes ! 61 = (False, Inner 62, Inner 63)"
  "huff_nodes ! 62 = (False, Symbol 106, Symbol 107)"
  "huff_nodes ! 63 = (False, Symbol 113, Symbol 118)"
  by (simp_all add: huff_nodes_def)

lemma node_2:
  "huff_nodes ! 64 = (True, Inner 65, Inner 68)"
  "huff_nodes ! 65 = (False, Inner 66, Inner 67)"
  "huff_nodes ! 66 = (False, Symbol 119, Symbol 120)"
  "huff_nodes ! 67 = (False, Symbol 121, Symbol 122)"
  "huff_nodes ! 68 = (True, Inner 69, Inner 72)"
  "huff_nodes ! 69 = (False, Inner 70, Inner 71)"
  "huff_nodes ! 70 = (False, Symbol 38, Symbol 42)"
  "huff_nodes ! 71 = (False, Symbol 44, Symbol 59)"
  "huff_nodes ! 72 = (True, Inner 73, Inner 74)"
  "huff_nodes ! 73 = (False, Symbol 88, Symbol 90)"
  "huff_nodes ! 74 = (True, Inner 75, Inner 78)"
  "huff_nodes ! 75 = (False, Inner 76, Inner 77)"
  "huff_nodes ! 76 = (False, Symbol 33, Symbol 34)"
  "huff_nodes ! 77 = (False, Symbol 40, Symbol 41)"
  "huff_nodes ! 78 = (True, Inner 79, Inner 81)"
  "huff_nodes ! 79 = (False, Symbol 63, Inner 80)"
  "huff_nodes ! 80 = (False, Symbol 39, Symbol 43)"
  "huff_nodes ! 81 = (True, Inner 82, Inner 84)"
  "huff_nodes ! 82 = (False, Symbol 124, Inner 83)"
  "huff_nodes ! 83 = (False, Symbol 35, Symbol 62)"
  "huff_nodes ! 84 = (True, Inner 85, Inner 88)"
  "huff_nodes ! 85 = (False, Inner 86, Inner 87)"
  "huff_nodes ! 86 = (False, Symbol 0, Symbol 36)"
  "huff_nodes ! 87 = (False, Symbol 64, Symbol 91)"
  "huff_nodes ! 88 = (True, Inner 89, Inner 90)"
  "huff_nodes ! 89 = (False, Symbol 93, Symbol 126)"
  "huff_nodes ! 90 = (True, Inner 91, Inner 92)"
  "huff_nodes ! 91 = (False, Symbol 94, Symbol 125)"
  "huff_nodes ! 92 = (True, Inner 93, Inner 94)"
  "huff_nodes ! 93 = (False, Symbol 60, Symbol 96)"
  "huff_nodes ! 94 = (True, Symbol 123, Inner 95)"
  "huff_nodes ! 95 = (True, Inner 96, Inner 110)"
  by (simp_all add: huff_nodes_def)

lemma node_3:
  "huff_nodes ! 96 = (False, Inner 97, Inner 101)"
  "huff_nodes ! 97 = (False, Inner 98, Inner 99)"
  "huff_nodes ! 98 = (False, Symbol 92, Symbol 195)"
  "huff_nodes ! 99 = (False, Symbol 208, Inner 100)"
  "huff_nodes ! 100 = (False, Symbol 128, Symbol 130)"
  "huff_nodes ! 101 = (False, Inner 102, Inner 105)"
  "huff_nodes ! 102 = (False, Inner 103, Inner 104)"
  "huff_nodes ! 103 = (False, Symbol 131, Symbol 162)"
  "huff_nodes ! 104 = (False, Symbol 184, Symbol 194)"
  "huff_nodes ! 105 = (False, Inner 106, Inner 107)"
  "huff_nodes ! 106 = (False, Symbol 224, Symbol 226)"
  "huff_nodes ! 107 = (False, Inner 108, Inner 109)"
  "huff_nodes ! 108 = (False, Symbol 153, Symbol 161)"
  "huff_nodes ! 109 = (False, Symbol 167, Symbol 172)"
  "huff_nodes ! 110 = (True, Inner 111, Inner 133)"
  "huff_nodes ! 111 = (False, Inner 112, Inner 119)"
  "huff_nodes ! 112 = (False, Inner 113, Inner 116)"
  "huff_nodes ! 113 = (False, Inner 114, Inner 115)"
  "huff_nodes ! 114 = (False, Symbol 176, Symbol 177)"
  "huff_nodes ! 115 = (False, Symbol 179, Symbol 209)"
  "huff_nodes ! 116 = (False, Inner 117, Inner 118)"
  "huff_nodes ! 117 = (False, Symbol 216, Symbol 217)"
  "huff_nodes ! 118 = (False, Symbol 227, Symbol 229)"
  "huff_nodes ! 119 = (False, Inner 120, Inner 126)"
  "huff_nodes ! 120 = (False, Inner 121, Inner 123)"
  "huff_nodes ! 121 = (False, Symbol 230, Inner 122)"
  "huff_nodes ! 122 = (False, Symbol 129, Symbol 132)"
  "huff_nodes ! 123 = (False, Inner 124, Inner 125)"
  "huff_nodes ! 124 = (False, Symbol 133, Symbol 134)"
  "huff_nodes ! 125 = (False, Symbol 136, Symbol 146)"
  "huff_nodes ! 126 = (False, Inner 127, Inner 130)"
  "huff_nodes ! 127 = (False, Inner 128, Inner 129)"
  by (simp_all add: huff_nodes_def)

lemma node_4:
  "huff_nodes ! 128 = (False, Symbol 154, Symbol 156)"
  "huff_nodes ! 129 = (False, Symbol 160, Symbol 163)"
  "huff_nodes ! 130 = (False, Inner 131, Inner 132)"
  "huff_nodes ! 131 = (False, Symbol 164, Symbol 169)"
  "huff_nodes ! 132 = (False, Symbol 170, Symbol 173)"
  "huff_nodes ! 133 = (True, Inner 134, Inner 153)"
  "huff_nodes ! 134 = (False, Inner 135, Inner 142)"
  "huff_nodes ! 135 = (False, Inner 136, Inner 139)"
  "huff_nodes ! 136 = (False, Inner 137, Inner 138)"
  "huff_nodes ! 137 = (False, Symbol 178, Symbol 181)"
  "huff_nodes ! 138 = (False, Symbol 185, Symbol 186)"
  "huff_nodes ! 139 = (False, Inner 140, Inner 141)"
  "huff_nodes ! 140 = (False, Symbol 187, Symbol 189)"
  "huff_nodes ! 141 = (False, Symbol 190, Symbol 196)"
  "huff_nodes ! 142 = (False, Inner 143, Inner 146)"
  "huff_nodes ! 143 = (False, Inner 144, Inner 145)"
  "huff_nodes ! 144 = (False, Symbol 198, Symbol 228)"
  "huff_nodes ! 145 = (False, Symbol 232, Symbol 233)"
  "huff_nodes ! 146 = (False, Inner 147, Inner 150)"
  "huff_nodes ! 147 = (False, Inner 148, Inner 149)"
  "huff_nodes ! 148 = (False, Symbol 1, Symbol 135)"
  "huff_nodes ! 149 = (False, Symbol 137, Symbol 138)"
  "huff_nodes ! 150 = (False, Inner 151, Inner 152)"
  "huff_nodes ! 151 = (False, Symbol 139, Symbol 140)"
  "huff_nodes ! 152 = (False, Symbol 141, Symbol 143)"
  "huff_nodes ! 153 = (True, Inner 154, Inner 169)"
  "huff_nodes ! 154 = (False, Inner 155, Inner 162)"
  "huff_nodes ! 155 = (False, Inner 156, Inner 159)"
  "huff_nodes ! 156 = (False, Inner 157, Inner 158)"
  "huff_nodes ! 157 = (False, Symbol 147, Symbol 149)"
  "huff_nodes ! 158 = (False, Symbol 150, Symbol 151)"
  "huff_nodes ! 159 = (False, Inner 160, Inner 161)"
  by (simp_all add: huff_nodes_def)

lemma node_5:
  "huff_nodes ! 160 = (False, Symbol 152, Symbol 155)"
  "huff_nodes ! 161 = (False, Symbol 157, Symbol 158)"
  "huff_nodes ! 162 = (False, Inner 163, Inner 166)"
  "huff_nodes ! 163 = (False, Inner 164, Inner 165)"
  "huff_nodes ! 164 = (False, Symbol 165, Symbol 166)"
  "huff_nodes ! 165 = (False, Symbol 168, Symbol 174)"
  "huff_nodes ! 166 = (False, Inner 167, Inner 168)"
  "huff_nodes ! 167 = (False, Symbol 175, Symbol 180)"
  "huff_nodes ! 168 = (False, Symbol 182, Symbol 183)"
  "huff_nodes ! 169 = (True, Inner 170, Inner 180)"
  "huff_nodes ! 170 = (False, Inner 171, Inner 174)"
  "huff_nodes ! 171 = (False, Inner 172, Inner 173)"
  "huff_nodes ! 172 = (False, Symbol 188, Symbol 191)"
  "huff_nodes ! 173 = (False, Symbol 197, Symbol 231)"
  "huff_nodes ! 174 = (False, Inner 175, Inner 177)"
  "huff_nodes ! 175 = (False, Symbol 239, Inner 176)"
  "huff_nodes ! 176 = (False, Symbol 9, Symbol 142)"
  "huff_nodes ! 177 = (False, Inner 178, Inner 179)"
  "huff_nodes ! 178 = (False, Symbol 144, Symbol 145)"
  "huff_nodes ! 179 = (False, Symbol 148, Symbol 159)"
  "huff_nodes ! 180 = (True, Inner 181, Inner 190)"
  "huff_nodes ! 181 = (False, Inner 182, Inner 185)"
  "huff_nodes ! 182 = (False, Inner 183, Inner 184)"
  "huff_nodes ! 183 = (False, Symbol 171, Symbol 206)"
  "huff_nodes ! 184 = (False, Symbol 215, Symbol 225)"
  "huff_nodes ! 185 = (False, Inner 186, Inner 187)"
  "huff_nodes ! 186 = (False, Symbol 236, Symbol 237)"
  "huff_nodes ! 187 = (False, Inner 188, Inner 189)"
  "huff_nodes ! 188 = (False, Symbol 199, Symbol 207)"
  "huff_nodes ! 189 = (False, Symbol 234, Symbol 235)"
  "huff_nodes ! 190 = (True, Inner 191, Inner 207)"
  "huff_nodes ! 191 = (False, Inner 192, Inner 199)"
  by (simp_all add: huff_nodes_def)

lemma node_6:
  "huff_nodes ! 192 = (False, Inner 193, Inner 196)"
  "huff_nodes ! 193 = (False, Inner 194, Inner 195)"
  "huff_nodes ! 194 = (False, Symbol 192, Symbol 193)"
  "huff_nodes ! 195 = (False, Symbol 200, Symbol 201)"
  "huff_nodes ! 196 = (False, Inner 197, Inner 198)"
  "huff_nodes ! 197 = (False, Symbol 202, Symbol 205)"
  "huff_nodes ! 198 = (False, Symbol 210, Symbol 213)"
  "huff_nodes ! 199 = (False, Inner 200, Inner 203)"
  "huff_nodes ! 200 = (False, Inner 201, Inner 202)"
  "huff_nodes ! 201 = (False, Symbol 218, Symbol 219)"
  "huff_nodes ! 202 = (False, Symbol 238, Symbol 240)"
  "huff_nodes ! 203 = (False, Inner 204, Inner 205)"
  "huff_nodes ! 204 = (False, Symbol 242, Symbol 243)"
  "huff_nodes ! 205 = (False, Symbol 255, Inner 206)"
  "huff_nodes ! 206 = (False, Symbol 203, Symbol 204)"
  "huff_nodes ! 207 = (True, Inner 208, Inner 223)"
  "huff_nodes ! 208 = (False, Inner 209, Inner 216)"
  "huff_nodes ! 209 = (False, Inner 210, Inner 213)"
  "huff_nodes ! 210 = (False, Inner 211, Inner 212)"
  "huff_nodes ! 211 = (False, Symbol 211, Symbol 212)"
  "huff_nodes ! 212 = (False, Symbol 214, Symbol 221)"
  "huff_nodes ! 213 = (False, Inner 214, Inner 215)"
  "huff_nodes ! 214 = (False, Symbol 222, Symbol 223)"
  "huff_nodes ! 215 = (False, Symbol 241, Symbol 244)"
  "huff_nodes ! 216 = (False, Inner 217, Inner 220)"
  "huff_nodes ! 217 = (False, Inner 218, Inner 219)"
  "huff_nodes ! 218 = (False, Symbol 245, Symbol 246)"
  "huff_nodes ! 219 = (False, Symbol 247, Symbol 248)"
  "huff_nodes ! 220 = (False, Inner 221, Inner 222)"
  "huff_nodes ! 221 = (False, Symbol 250, Symbol 251)"
  "huff_nodes ! 222 = (False, Symbol 252, Symbol 253)"
  "huff_nodes ! 223 = (True, Inner 224, Inner 238)"
  by (simp_all add: huff_nodes_def)

lemma node_7:
  "huff_nodes ! 224 = (False, Inner 225, Inner 231)"
  "huff_nodes ! 225 = (False, Inner 226, Inner 228)"
  "huff_nodes ! 226 = (False, Symbol 254, Inner 227)"
  "huff_nodes ! 227 = (False, Symbol 2, Symbol 3)"
  "huff_nodes ! 228 = (False, Inner 229, Inner 230)"
  "huff_nodes ! 229 = (False, Symbol 4, Symbol 5)"
  "huff_nodes ! 230 = (False, Symbol 6, Symbol 7)"
  "huff_nodes ! 231 = (False, Inner 232, Inner 235)"
  "huff_nodes ! 232 = (False, Inner 233, Inner 234)"
  "huff_nodes ! 233 = (False, Symbol 8, Symbol 11)"
  "huff_nodes ! 234 = (False, Symbol 12, Symbol 14)"
  "huff_nodes ! 235 = (False, Inner 236, Inner 237)"
  "huff_nodes ! 236 = (False, Symbol 15, Symbol 16)"
  "huff_nodes ! 237 = (False, Symbol 17, Symbol 18)"
  "huff_nodes ! 238 = (True, Inner 239, Inner 246)"
  "huff_nodes ! 239 = (False, Inner 240, Inner 243)"
  "huff_nodes ! 240 = (False, Inner 241, Inner 242)"
  "huff_nodes ! 241 = (False, Symbol 19, Symbol 20)"
  "huff_nodes ! 242 = (False, Symbol 21, Symbol 23)"
  "huff_nodes ! 243 = (False, Inner 244, Inner 245)"
  "huff_nodes ! 244 = (False, Symbol 24, Symbol 25)"
  "huff_nodes ! 245 = (False, Symbol 26, Symbol 27)"
  "huff_nodes ! 246 = (True, Inner 247, Inner 250)"
  "huff_nodes ! 247 = (False, Inner 248, Inner 249)"
  "huff_nodes ! 248 = (False, Symbol 28, Symbol 29)"
  "huff_nodes ! 249 = (False, Symbol 30, Symbol 31)"
  "huff_nodes ! 250 = (True, Inner 251, Inner 252)"
  "huff_nodes ! 251 = (False, Symbol 127, Symbol 220)"
  "huff_nodes ! 252 = (True, Symbol 249, Inner 253)"
  "huff_nodes ! 253 = (True, Inner 254, Inner 255)"
  "huff_nodes ! 254 = (False, Symbol 10, Symbol 13)"
  "huff_nodes ! 255 = (True, Symbol 22, Eos)"
  by (simp_all add: huff_nodes_def)

lemmas nodes = node_0 node_1 node_2 node_3 node_4 node_5 node_6 node_7

lemma length_nodes: "length huff_nodes = 256"
  by (simp add: huff_nodes_def)

section \<open>The transitions are walks of four bits\<close>

definition entry_ok :: "nat \<Rightarrow> huff_decode_code \<Rightarrow> bool list \<Rightarrow> bool" where
  "entry_ok s e bs = (case e of (nx, em, sy, en) \<Rightarrow>
     (case run s bs of
        None \<Rightarrow> nx = s
      | Some (t, cs) \<Rightarrow> t = nx \<and> nx \<noteq> s \<and> cs = (if em = 0 then [] else [sy]) \<and> (en \<noteq> 0) = padding nx))"

definition nibbles :: "bool list list" where
  "nibbles = [
   [False, False, False, False], [False, False, False, True], [False, False, True, False], [False, False, True, True],
   [False, True, False, False], [False, True, False, True], [False, True, True, False], [False, True, True, True],
   [True, False, False, False], [True, False, False, True], [True, False, True, False], [True, False, True, True],
   [True, True, False, False], [True, True, False, True], [True, True, True, False], [True, True, True, True]]"

definition rows_ok :: "nat list \<Rightarrow> huff_decode_code list list \<Rightarrow> bool" where
  "rows_ok ss rows = list_all2 (\<lambda>s row. list_all2 (entry_ok s) row nibbles) ss rows"

lemma codes_0: "rows_ok [0, 1, 2, 3, 4, 5, 6, 7, 8, 9, 10, 11, 12, 13, 14, 15] huff_codes_0"
  by (simp add: rows_ok_def huff_codes_0_def nibbles_def entry_ok_def padding_def child_def nodes del: One_nat_def)

lemma codes_1: "rows_ok [16, 17, 18, 19, 20, 21, 22, 23, 24, 25, 26, 27, 28, 29, 30, 31] huff_codes_1"
  by (simp add: rows_ok_def huff_codes_1_def nibbles_def entry_ok_def padding_def child_def nodes del: One_nat_def)

lemma codes_2: "rows_ok [32, 33, 34, 35, 36, 37, 38, 39, 40, 41, 42, 43, 44, 45, 46, 47] huff_codes_2"
  by (simp add: rows_ok_def huff_codes_2_def nibbles_def entry_ok_def padding_def child_def nodes del: One_nat_def)

lemma codes_3: "rows_ok [48, 49, 50, 51, 52, 53, 54, 55, 56, 57, 58, 59, 60, 61, 62, 63] huff_codes_3"
  by (simp add: rows_ok_def huff_codes_3_def nibbles_def entry_ok_def padding_def child_def nodes del: One_nat_def)

lemma codes_4: "rows_ok [64, 65, 66, 67, 68, 69, 70, 71, 72, 73, 74, 75, 76, 77, 78, 79] huff_codes_4"
  by (simp add: rows_ok_def huff_codes_4_def nibbles_def entry_ok_def padding_def child_def nodes del: One_nat_def)

lemma codes_5: "rows_ok [80, 81, 82, 83, 84, 85, 86, 87, 88, 89, 90, 91, 92, 93, 94, 95] huff_codes_5"
  by (simp add: rows_ok_def huff_codes_5_def nibbles_def entry_ok_def padding_def child_def nodes del: One_nat_def)

lemma codes_6: "rows_ok [96, 97, 98, 99, 100, 101, 102, 103, 104, 105, 106, 107, 108, 109, 110, 111] huff_codes_6"
  by (simp add: rows_ok_def huff_codes_6_def nibbles_def entry_ok_def padding_def child_def nodes del: One_nat_def)

lemma codes_7: "rows_ok [112, 113, 114, 115, 116, 117, 118, 119, 120, 121, 122, 123, 124, 125, 126, 127] huff_codes_7"
  by (simp add: rows_ok_def huff_codes_7_def nibbles_def entry_ok_def padding_def child_def nodes del: One_nat_def)

lemma codes_8: "rows_ok [128, 129, 130, 131, 132, 133, 134, 135, 136, 137, 138, 139, 140, 141, 142, 143] huff_codes_8"
  by (simp add: rows_ok_def huff_codes_8_def nibbles_def entry_ok_def padding_def child_def nodes del: One_nat_def)

lemma codes_9: "rows_ok [144, 145, 146, 147, 148, 149, 150, 151, 152, 153, 154, 155, 156, 157, 158, 159] huff_codes_9"
  by (simp add: rows_ok_def huff_codes_9_def nibbles_def entry_ok_def padding_def child_def nodes del: One_nat_def)

lemma codes_a: "rows_ok [160, 161, 162, 163, 164, 165, 166, 167, 168, 169, 170, 171, 172, 173, 174, 175] huff_codes_a"
  by (simp add: rows_ok_def huff_codes_a_def nibbles_def entry_ok_def padding_def child_def nodes del: One_nat_def)

lemma codes_b: "rows_ok [176, 177, 178, 179, 180, 181, 182, 183, 184, 185, 186, 187, 188, 189, 190, 191] huff_codes_b"
  by (simp add: rows_ok_def huff_codes_b_def nibbles_def entry_ok_def padding_def child_def nodes del: One_nat_def)

lemma codes_c: "rows_ok [192, 193, 194, 195, 196, 197, 198, 199, 200, 201, 202, 203, 204, 205, 206, 207] huff_codes_c"
  by (simp add: rows_ok_def huff_codes_c_def nibbles_def entry_ok_def padding_def child_def nodes del: One_nat_def)

lemma codes_d: "rows_ok [208, 209, 210, 211, 212, 213, 214, 215, 216, 217, 218, 219, 220, 221, 222, 223] huff_codes_d"
  by (simp add: rows_ok_def huff_codes_d_def nibbles_def entry_ok_def padding_def child_def nodes del: One_nat_def)

lemma codes_e: "rows_ok [224, 225, 226, 227, 228, 229, 230, 231, 232, 233, 234, 235, 236, 237, 238, 239] huff_codes_e"
  by (simp add: rows_ok_def huff_codes_e_def nibbles_def entry_ok_def padding_def child_def nodes del: One_nat_def)

lemma codes_f: "rows_ok [240, 241, 242, 243, 244, 245, 246, 247, 248, 249, 250, 251, 252, 253, 254, 255] huff_codes_f"
  by (simp add: rows_ok_def huff_codes_f_def nibbles_def entry_ok_def padding_def child_def nodes del: One_nat_def)

lemma rows_ok_append: "rows_ok ss rows \<Longrightarrow> rows_ok ss' rows' \<Longrightarrow> rows_ok (ss @ ss') (rows @ rows')"
  by (simp add: rows_ok_def list_all2_appendI)

lemma rows_ok_Nil: "rows_ok [] []"
  by (simp add: rows_ok_def)

lemma upt_256: "[0..<256] = 0 # 1 # [2..<256 :: nat]"
proof -
  have "[0..<256] = 0 # [1..<256 :: nat]" by (subst upt_conv_Cons) simp_all
  also have "[1..<256] = 1 # [2..<256 :: nat]" by (subst upt_conv_Cons) (simp_all only: one_add_one [symmetric], simp_all)
  finally show ?thesis .
qed

lemma all_rows: "rows_ok [0..<256] ngx_http_huff_decode_codes"
proof -
  have "rows_ok
    ([0, 1, 2, 3, 4, 5, 6, 7, 8, 9, 10, 11, 12, 13, 14, 15] @
     [16, 17, 18, 19, 20, 21, 22, 23, 24, 25, 26, 27, 28, 29, 30, 31] @
     [32, 33, 34, 35, 36, 37, 38, 39, 40, 41, 42, 43, 44, 45, 46, 47] @
     [48, 49, 50, 51, 52, 53, 54, 55, 56, 57, 58, 59, 60, 61, 62, 63] @
     [64, 65, 66, 67, 68, 69, 70, 71, 72, 73, 74, 75, 76, 77, 78, 79] @
     [80, 81, 82, 83, 84, 85, 86, 87, 88, 89, 90, 91, 92, 93, 94, 95] @
     [96, 97, 98, 99, 100, 101, 102, 103, 104, 105, 106, 107, 108, 109, 110, 111] @
     [112, 113, 114, 115, 116, 117, 118, 119, 120, 121, 122, 123, 124, 125, 126, 127] @
     [128, 129, 130, 131, 132, 133, 134, 135, 136, 137, 138, 139, 140, 141, 142, 143] @
     [144, 145, 146, 147, 148, 149, 150, 151, 152, 153, 154, 155, 156, 157, 158, 159] @
     [160, 161, 162, 163, 164, 165, 166, 167, 168, 169, 170, 171, 172, 173, 174, 175] @
     [176, 177, 178, 179, 180, 181, 182, 183, 184, 185, 186, 187, 188, 189, 190, 191] @
     [192, 193, 194, 195, 196, 197, 198, 199, 200, 201, 202, 203, 204, 205, 206, 207] @
     [208, 209, 210, 211, 212, 213, 214, 215, 216, 217, 218, 219, 220, 221, 222, 223] @
     [224, 225, 226, 227, 228, 229, 230, 231, 232, 233, 234, 235, 236, 237, 238, 239] @
     [240, 241, 242, 243, 244, 245, 246, 247, 248, 249, 250, 251, 252, 253, 254, 255] @ [])
    ngx_http_huff_decode_codes"
    unfolding ngx_http_huff_decode_codes_def concat.simps
    by (intro rows_ok_append rows_ok_Nil codes_0 codes_1 codes_2 codes_3 codes_4 codes_5 codes_6 codes_7 codes_8 codes_9 codes_a codes_b codes_c codes_d codes_e codes_f)
  then show ?thesis unfolding upt_256 by simp
qed

section \<open>The paths of the nodes and the codes of the symbols\<close>

text \<open>The \<open>l\<close> low bits of a number, the most significant first.\<close>

fun msb :: "nat \<Rightarrow> nat \<Rightarrow> bool list" where
  "msb 0 n = []"
| "msb (Suc l) n = msb l (n div 2) @ [odd n]"

lemma msb_numeral: "msb (numeral k) n = msb (pred_numeral k) (n div 2) @ [odd n]"
  by (simp add: numeral_eq_Suc)

lemma msb_one: "msb 1 n = [odd n]"
  by simp

lemma length_msb [simp]: "length (msb l n) = l"
  by (induction l arbitrary: n) simp_all

lemma msb_nth: "i < l \<Longrightarrow> msb l n ! i = bit n (l - 1 - i)"
proof (induction l arbitrary: n)
  case (Suc l)
  show ?case
  proof (cases "i < l")
    case True
    then have "l - i = Suc (l - 1 - i)" by simp
    then show ?thesis using Suc.IH [OF True, of "n div 2"] True by (simp add: nth_append bit_Suc)
  next
    case False
    then show ?thesis using Suc.prems by (simp add: nth_append bit_0)
  qed
qed simp

definition huff_paths :: "(nat \<times> nat) list" where
  "huff_paths = [
   (0x0, 0), (0x0, 1), (0x0, 2), (0x0, 3), (0x0, 4), (0x1, 4),
   (0x1, 3), (0x2, 4), (0x3, 4), (0x1, 2), (0x2, 3), (0x4, 4),
   (0x5, 4), (0xa, 5), (0xb, 5), (0x3, 3), (0x6, 4), (0xc, 5),
   (0xd, 5), (0x7, 4), (0xe, 5), (0xf, 5), (0x1, 1), (0x2, 2),
   (0x4, 3), (0x8, 4), (0x10, 5), (0x11, 5), (0x9, 4), (0x12, 5),
   (0x13, 5), (0x5, 3), (0xa, 4), (0x14, 5), (0x15, 5), (0xb, 4),
   (0x16, 5), (0x17, 5), (0x2e, 6), (0x2f, 6), (0x3, 2), (0x6, 3),
   (0xc, 4), (0x18, 5), (0x30, 6), (0x31, 6), (0x19, 5), (0x32, 6),
   (0x33, 6), (0xd, 4), (0x1a, 5), (0x34, 6), (0x35, 6), (0x1b, 5),
   (0x36, 6), (0x37, 6), (0x7, 3), (0xe, 4), (0x1c, 5), (0x38, 6),
   (0x39, 6), (0x1d, 5), (0x3a, 6), (0x3b, 6), (0xf, 4), (0x1e, 5),
   (0x3c, 6), (0x3d, 6), (0x1f, 5), (0x3e, 6), (0x7c, 7), (0x7d, 7),
   (0x3f, 6), (0x7e, 7), (0x7f, 7), (0xfe, 8), (0x1fc, 9), (0x1fd, 9),
   (0xff, 8), (0x1fe, 9), (0x3fd, 10), (0x1ff, 9), (0x3fe, 10), (0x7fd, 11),
   (0x3ff, 10), (0x7fe, 11), (0xffc, 12), (0xffd, 12), (0x7ff, 11), (0xffe, 12),
   (0xfff, 12), (0x1ffe, 13), (0x1fff, 13), (0x3ffe, 14), (0x3fff, 14), (0x7fff, 15),
   (0xfffe, 16), (0x1fffc, 17), (0x3fff8, 18), (0x3fff9, 18), (0x7fff3, 19), (0x1fffd, 17),
   (0x3fffa, 18), (0x7fff4, 19), (0x7fff5, 19), (0x3fffb, 18), (0x7fff6, 19), (0x7fff7, 19),
   (0xfffee, 20), (0xfffef, 20), (0xffff, 16), (0x1fffe, 17), (0x3fffc, 18), (0x7fff8, 19),
   (0xffff0, 20), (0xffff1, 20), (0x7fff9, 19), (0xffff2, 20), (0xffff3, 20), (0x3fffd, 18),
   (0x7fffa, 19), (0xffff4, 20), (0x1fffe9, 21), (0xffff5, 20), (0x1fffea, 21), (0x1fffeb, 21),
   (0x7fffb, 19), (0xffff6, 20), (0x1fffec, 21), (0x1fffed, 21), (0xffff7, 20), (0x1fffee, 21),
   (0x1fffef, 21), (0x1ffff, 17), (0x3fffe, 18), (0x7fffc, 19), (0xffff8, 20), (0x1ffff0, 21),
   (0x1ffff1, 21), (0xffff9, 20), (0x1ffff2, 21), (0x1ffff3, 21), (0x7fffd, 19), (0xffffa, 20),
   (0x1ffff4, 21), (0x1ffff5, 21), (0xffffb, 20), (0x1ffff6, 21), (0x3fffec, 22), (0x3fffed, 22),
   (0x1ffff7, 21), (0x3fffee, 22), (0x3fffef, 22), (0x3ffff, 18), (0x7fffe, 19), (0xffffc, 20),
   (0x1ffff8, 21), (0x3ffff0, 22), (0x3ffff1, 22), (0x1ffff9, 21), (0x3ffff2, 22), (0x3ffff3, 22),
   (0xffffd, 20), (0x1ffffa, 21), (0x3ffff4, 22), (0x3ffff5, 22), (0x1ffffb, 21), (0x3ffff6, 22),
   (0x3ffff7, 22), (0x7ffff, 19), (0xffffe, 20), (0x1ffffc, 21), (0x3ffff8, 22), (0x3ffff9, 22),
   (0x1ffffd, 21), (0x3ffffa, 22), (0x7ffff5, 23), (0x3ffffb, 22), (0x7ffff6, 23), (0x7ffff7, 23),
   (0xfffff, 20), (0x1ffffe, 21), (0x3ffffc, 22), (0x7ffff8, 23), (0x7ffff9, 23), (0x3ffffd, 22),
   (0x7ffffa, 23), (0x7ffffb, 23), (0xfffff6, 24), (0xfffff7, 24), (0x1fffff, 21), (0x3ffffe, 22),
   (0x7ffffc, 23), (0xfffff8, 24), (0x1fffff0, 25), (0x1fffff1, 25), (0xfffff9, 24), (0x1fffff2, 25),
   (0x1fffff3, 25), (0x7ffffd, 23), (0xfffffa, 24), (0x1fffff4, 25), (0x1fffff5, 25), (0xfffffb, 24),
   (0x1fffff6, 25), (0x1fffff7, 25), (0x3ffffef, 26), (0x3fffff, 22), (0x7ffffe, 23), (0xfffffc, 24),
   (0x1fffff8, 25), (0x3fffff0, 26), (0x3fffff1, 26), (0x1fffff9, 25), (0x3fffff2, 26), (0x3fffff3, 26),
   (0xfffffd, 24), (0x1fffffa, 25), (0x3fffff4, 26), (0x3fffff5, 26), (0x1fffffb, 25), (0x3fffff6, 26),
   (0x3fffff7, 26), (0x7fffff, 23), (0xfffffe, 24), (0x1fffffc, 25), (0x3fffff8, 26), (0x7fffff1, 27),
   (0x3fffff9, 26), (0x7fffff2, 27), (0x7fffff3, 27), (0x1fffffd, 25), (0x3fffffa, 26), (0x7fffff4, 27),
   (0x7fffff5, 27), (0x3fffffb, 26), (0x7fffff6, 27), (0x7fffff7, 27), (0xffffff, 24), (0x1fffffe, 25),
   (0x3fffffc, 26), (0x7fffff8, 27), (0x7fffff9, 27), (0x3fffffd, 26), (0x7fffffa, 27), (0x7fffffb, 27),
   (0x1ffffff, 25), (0x3fffffe, 26), (0x7fffffc, 27), (0x7fffffd, 27), (0x3ffffff, 26), (0x7fffffe, 27),
   (0x7ffffff, 27), (0xfffffff, 28), (0x1ffffffe, 29), (0x1fffffff, 29)]"

lemma path_0:
  "huff_paths ! 0 = (0x0, 0)"
  "huff_paths ! 1 = (0x0, 1)"
  "huff_paths ! 2 = (0x0, 2)"
  "huff_paths ! 3 = (0x0, 3)"
  "huff_paths ! 4 = (0x0, 4)"
  "huff_paths ! 5 = (0x1, 4)"
  "huff_paths ! 6 = (0x1, 3)"
  "huff_paths ! 7 = (0x2, 4)"
  "huff_paths ! 8 = (0x3, 4)"
  "huff_paths ! 9 = (0x1, 2)"
  "huff_paths ! 10 = (0x2, 3)"
  "huff_paths ! 11 = (0x4, 4)"
  "huff_paths ! 12 = (0x5, 4)"
  "huff_paths ! 13 = (0xa, 5)"
  "huff_paths ! 14 = (0xb, 5)"
  "huff_paths ! 15 = (0x3, 3)"
  "huff_paths ! 16 = (0x6, 4)"
  "huff_paths ! 17 = (0xc, 5)"
  "huff_paths ! 18 = (0xd, 5)"
  "huff_paths ! 19 = (0x7, 4)"
  "huff_paths ! 20 = (0xe, 5)"
  "huff_paths ! 21 = (0xf, 5)"
  "huff_paths ! 22 = (0x1, 1)"
  "huff_paths ! 23 = (0x2, 2)"
  "huff_paths ! 24 = (0x4, 3)"
  "huff_paths ! 25 = (0x8, 4)"
  "huff_paths ! 26 = (0x10, 5)"
  "huff_paths ! 27 = (0x11, 5)"
  "huff_paths ! 28 = (0x9, 4)"
  "huff_paths ! 29 = (0x12, 5)"
  "huff_paths ! 30 = (0x13, 5)"
  "huff_paths ! 31 = (0x5, 3)"
  by (simp_all add: huff_paths_def)

lemma path_1:
  "huff_paths ! 32 = (0xa, 4)"
  "huff_paths ! 33 = (0x14, 5)"
  "huff_paths ! 34 = (0x15, 5)"
  "huff_paths ! 35 = (0xb, 4)"
  "huff_paths ! 36 = (0x16, 5)"
  "huff_paths ! 37 = (0x17, 5)"
  "huff_paths ! 38 = (0x2e, 6)"
  "huff_paths ! 39 = (0x2f, 6)"
  "huff_paths ! 40 = (0x3, 2)"
  "huff_paths ! 41 = (0x6, 3)"
  "huff_paths ! 42 = (0xc, 4)"
  "huff_paths ! 43 = (0x18, 5)"
  "huff_paths ! 44 = (0x30, 6)"
  "huff_paths ! 45 = (0x31, 6)"
  "huff_paths ! 46 = (0x19, 5)"
  "huff_paths ! 47 = (0x32, 6)"
  "huff_paths ! 48 = (0x33, 6)"
  "huff_paths ! 49 = (0xd, 4)"
  "huff_paths ! 50 = (0x1a, 5)"
  "huff_paths ! 51 = (0x34, 6)"
  "huff_paths ! 52 = (0x35, 6)"
  "huff_paths ! 53 = (0x1b, 5)"
  "huff_paths ! 54 = (0x36, 6)"
  "huff_paths ! 55 = (0x37, 6)"
  "huff_paths ! 56 = (0x7, 3)"
  "huff_paths ! 57 = (0xe, 4)"
  "huff_paths ! 58 = (0x1c, 5)"
  "huff_paths ! 59 = (0x38, 6)"
  "huff_paths ! 60 = (0x39, 6)"
  "huff_paths ! 61 = (0x1d, 5)"
  "huff_paths ! 62 = (0x3a, 6)"
  "huff_paths ! 63 = (0x3b, 6)"
  by (simp_all add: huff_paths_def)

lemma path_2:
  "huff_paths ! 64 = (0xf, 4)"
  "huff_paths ! 65 = (0x1e, 5)"
  "huff_paths ! 66 = (0x3c, 6)"
  "huff_paths ! 67 = (0x3d, 6)"
  "huff_paths ! 68 = (0x1f, 5)"
  "huff_paths ! 69 = (0x3e, 6)"
  "huff_paths ! 70 = (0x7c, 7)"
  "huff_paths ! 71 = (0x7d, 7)"
  "huff_paths ! 72 = (0x3f, 6)"
  "huff_paths ! 73 = (0x7e, 7)"
  "huff_paths ! 74 = (0x7f, 7)"
  "huff_paths ! 75 = (0xfe, 8)"
  "huff_paths ! 76 = (0x1fc, 9)"
  "huff_paths ! 77 = (0x1fd, 9)"
  "huff_paths ! 78 = (0xff, 8)"
  "huff_paths ! 79 = (0x1fe, 9)"
  "huff_paths ! 80 = (0x3fd, 10)"
  "huff_paths ! 81 = (0x1ff, 9)"
  "huff_paths ! 82 = (0x3fe, 10)"
  "huff_paths ! 83 = (0x7fd, 11)"
  "huff_paths ! 84 = (0x3ff, 10)"
  "huff_paths ! 85 = (0x7fe, 11)"
  "huff_paths ! 86 = (0xffc, 12)"
  "huff_paths ! 87 = (0xffd, 12)"
  "huff_paths ! 88 = (0x7ff, 11)"
  "huff_paths ! 89 = (0xffe, 12)"
  "huff_paths ! 90 = (0xfff, 12)"
  "huff_paths ! 91 = (0x1ffe, 13)"
  "huff_paths ! 92 = (0x1fff, 13)"
  "huff_paths ! 93 = (0x3ffe, 14)"
  "huff_paths ! 94 = (0x3fff, 14)"
  "huff_paths ! 95 = (0x7fff, 15)"
  by (simp_all add: huff_paths_def)

lemma path_3:
  "huff_paths ! 96 = (0xfffe, 16)"
  "huff_paths ! 97 = (0x1fffc, 17)"
  "huff_paths ! 98 = (0x3fff8, 18)"
  "huff_paths ! 99 = (0x3fff9, 18)"
  "huff_paths ! 100 = (0x7fff3, 19)"
  "huff_paths ! 101 = (0x1fffd, 17)"
  "huff_paths ! 102 = (0x3fffa, 18)"
  "huff_paths ! 103 = (0x7fff4, 19)"
  "huff_paths ! 104 = (0x7fff5, 19)"
  "huff_paths ! 105 = (0x3fffb, 18)"
  "huff_paths ! 106 = (0x7fff6, 19)"
  "huff_paths ! 107 = (0x7fff7, 19)"
  "huff_paths ! 108 = (0xfffee, 20)"
  "huff_paths ! 109 = (0xfffef, 20)"
  "huff_paths ! 110 = (0xffff, 16)"
  "huff_paths ! 111 = (0x1fffe, 17)"
  "huff_paths ! 112 = (0x3fffc, 18)"
  "huff_paths ! 113 = (0x7fff8, 19)"
  "huff_paths ! 114 = (0xffff0, 20)"
  "huff_paths ! 115 = (0xffff1, 20)"
  "huff_paths ! 116 = (0x7fff9, 19)"
  "huff_paths ! 117 = (0xffff2, 20)"
  "huff_paths ! 118 = (0xffff3, 20)"
  "huff_paths ! 119 = (0x3fffd, 18)"
  "huff_paths ! 120 = (0x7fffa, 19)"
  "huff_paths ! 121 = (0xffff4, 20)"
  "huff_paths ! 122 = (0x1fffe9, 21)"
  "huff_paths ! 123 = (0xffff5, 20)"
  "huff_paths ! 124 = (0x1fffea, 21)"
  "huff_paths ! 125 = (0x1fffeb, 21)"
  "huff_paths ! 126 = (0x7fffb, 19)"
  "huff_paths ! 127 = (0xffff6, 20)"
  by (simp_all add: huff_paths_def)

lemma path_4:
  "huff_paths ! 128 = (0x1fffec, 21)"
  "huff_paths ! 129 = (0x1fffed, 21)"
  "huff_paths ! 130 = (0xffff7, 20)"
  "huff_paths ! 131 = (0x1fffee, 21)"
  "huff_paths ! 132 = (0x1fffef, 21)"
  "huff_paths ! 133 = (0x1ffff, 17)"
  "huff_paths ! 134 = (0x3fffe, 18)"
  "huff_paths ! 135 = (0x7fffc, 19)"
  "huff_paths ! 136 = (0xffff8, 20)"
  "huff_paths ! 137 = (0x1ffff0, 21)"
  "huff_paths ! 138 = (0x1ffff1, 21)"
  "huff_paths ! 139 = (0xffff9, 20)"
  "huff_paths ! 140 = (0x1ffff2, 21)"
  "huff_paths ! 141 = (0x1ffff3, 21)"
  "huff_paths ! 142 = (0x7fffd, 19)"
  "huff_paths ! 143 = (0xffffa, 20)"
  "huff_paths ! 144 = (0x1ffff4, 21)"
  "huff_paths ! 145 = (0x1ffff5, 21)"
  "huff_paths ! 146 = (0xffffb, 20)"
  "huff_paths ! 147 = (0x1ffff6, 21)"
  "huff_paths ! 148 = (0x3fffec, 22)"
  "huff_paths ! 149 = (0x3fffed, 22)"
  "huff_paths ! 150 = (0x1ffff7, 21)"
  "huff_paths ! 151 = (0x3fffee, 22)"
  "huff_paths ! 152 = (0x3fffef, 22)"
  "huff_paths ! 153 = (0x3ffff, 18)"
  "huff_paths ! 154 = (0x7fffe, 19)"
  "huff_paths ! 155 = (0xffffc, 20)"
  "huff_paths ! 156 = (0x1ffff8, 21)"
  "huff_paths ! 157 = (0x3ffff0, 22)"
  "huff_paths ! 158 = (0x3ffff1, 22)"
  "huff_paths ! 159 = (0x1ffff9, 21)"
  by (simp_all add: huff_paths_def)

lemma path_5:
  "huff_paths ! 160 = (0x3ffff2, 22)"
  "huff_paths ! 161 = (0x3ffff3, 22)"
  "huff_paths ! 162 = (0xffffd, 20)"
  "huff_paths ! 163 = (0x1ffffa, 21)"
  "huff_paths ! 164 = (0x3ffff4, 22)"
  "huff_paths ! 165 = (0x3ffff5, 22)"
  "huff_paths ! 166 = (0x1ffffb, 21)"
  "huff_paths ! 167 = (0x3ffff6, 22)"
  "huff_paths ! 168 = (0x3ffff7, 22)"
  "huff_paths ! 169 = (0x7ffff, 19)"
  "huff_paths ! 170 = (0xffffe, 20)"
  "huff_paths ! 171 = (0x1ffffc, 21)"
  "huff_paths ! 172 = (0x3ffff8, 22)"
  "huff_paths ! 173 = (0x3ffff9, 22)"
  "huff_paths ! 174 = (0x1ffffd, 21)"
  "huff_paths ! 175 = (0x3ffffa, 22)"
  "huff_paths ! 176 = (0x7ffff5, 23)"
  "huff_paths ! 177 = (0x3ffffb, 22)"
  "huff_paths ! 178 = (0x7ffff6, 23)"
  "huff_paths ! 179 = (0x7ffff7, 23)"
  "huff_paths ! 180 = (0xfffff, 20)"
  "huff_paths ! 181 = (0x1ffffe, 21)"
  "huff_paths ! 182 = (0x3ffffc, 22)"
  "huff_paths ! 183 = (0x7ffff8, 23)"
  "huff_paths ! 184 = (0x7ffff9, 23)"
  "huff_paths ! 185 = (0x3ffffd, 22)"
  "huff_paths ! 186 = (0x7ffffa, 23)"
  "huff_paths ! 187 = (0x7ffffb, 23)"
  "huff_paths ! 188 = (0xfffff6, 24)"
  "huff_paths ! 189 = (0xfffff7, 24)"
  "huff_paths ! 190 = (0x1fffff, 21)"
  "huff_paths ! 191 = (0x3ffffe, 22)"
  by (simp_all add: huff_paths_def)

lemma path_6:
  "huff_paths ! 192 = (0x7ffffc, 23)"
  "huff_paths ! 193 = (0xfffff8, 24)"
  "huff_paths ! 194 = (0x1fffff0, 25)"
  "huff_paths ! 195 = (0x1fffff1, 25)"
  "huff_paths ! 196 = (0xfffff9, 24)"
  "huff_paths ! 197 = (0x1fffff2, 25)"
  "huff_paths ! 198 = (0x1fffff3, 25)"
  "huff_paths ! 199 = (0x7ffffd, 23)"
  "huff_paths ! 200 = (0xfffffa, 24)"
  "huff_paths ! 201 = (0x1fffff4, 25)"
  "huff_paths ! 202 = (0x1fffff5, 25)"
  "huff_paths ! 203 = (0xfffffb, 24)"
  "huff_paths ! 204 = (0x1fffff6, 25)"
  "huff_paths ! 205 = (0x1fffff7, 25)"
  "huff_paths ! 206 = (0x3ffffef, 26)"
  "huff_paths ! 207 = (0x3fffff, 22)"
  "huff_paths ! 208 = (0x7ffffe, 23)"
  "huff_paths ! 209 = (0xfffffc, 24)"
  "huff_paths ! 210 = (0x1fffff8, 25)"
  "huff_paths ! 211 = (0x3fffff0, 26)"
  "huff_paths ! 212 = (0x3fffff1, 26)"
  "huff_paths ! 213 = (0x1fffff9, 25)"
  "huff_paths ! 214 = (0x3fffff2, 26)"
  "huff_paths ! 215 = (0x3fffff3, 26)"
  "huff_paths ! 216 = (0xfffffd, 24)"
  "huff_paths ! 217 = (0x1fffffa, 25)"
  "huff_paths ! 218 = (0x3fffff4, 26)"
  "huff_paths ! 219 = (0x3fffff5, 26)"
  "huff_paths ! 220 = (0x1fffffb, 25)"
  "huff_paths ! 221 = (0x3fffff6, 26)"
  "huff_paths ! 222 = (0x3fffff7, 26)"
  "huff_paths ! 223 = (0x7fffff, 23)"
  by (simp_all add: huff_paths_def)

lemma path_7:
  "huff_paths ! 224 = (0xfffffe, 24)"
  "huff_paths ! 225 = (0x1fffffc, 25)"
  "huff_paths ! 226 = (0x3fffff8, 26)"
  "huff_paths ! 227 = (0x7fffff1, 27)"
  "huff_paths ! 228 = (0x3fffff9, 26)"
  "huff_paths ! 229 = (0x7fffff2, 27)"
  "huff_paths ! 230 = (0x7fffff3, 27)"
  "huff_paths ! 231 = (0x1fffffd, 25)"
  "huff_paths ! 232 = (0x3fffffa, 26)"
  "huff_paths ! 233 = (0x7fffff4, 27)"
  "huff_paths ! 234 = (0x7fffff5, 27)"
  "huff_paths ! 235 = (0x3fffffb, 26)"
  "huff_paths ! 236 = (0x7fffff6, 27)"
  "huff_paths ! 237 = (0x7fffff7, 27)"
  "huff_paths ! 238 = (0xffffff, 24)"
  "huff_paths ! 239 = (0x1fffffe, 25)"
  "huff_paths ! 240 = (0x3fffffc, 26)"
  "huff_paths ! 241 = (0x7fffff8, 27)"
  "huff_paths ! 242 = (0x7fffff9, 27)"
  "huff_paths ! 243 = (0x3fffffd, 26)"
  "huff_paths ! 244 = (0x7fffffa, 27)"
  "huff_paths ! 245 = (0x7fffffb, 27)"
  "huff_paths ! 246 = (0x1ffffff, 25)"
  "huff_paths ! 247 = (0x3fffffe, 26)"
  "huff_paths ! 248 = (0x7fffffc, 27)"
  "huff_paths ! 249 = (0x7fffffd, 27)"
  "huff_paths ! 250 = (0x3ffffff, 26)"
  "huff_paths ! 251 = (0x7fffffe, 27)"
  "huff_paths ! 252 = (0x7ffffff, 27)"
  "huff_paths ! 253 = (0xfffffff, 28)"
  "huff_paths ! 254 = (0x1ffffffe, 29)"
  "huff_paths ! 255 = (0x1fffffff, 29)"
  by (simp_all add: huff_paths_def)

lemma symbol_0:
  "ngx_http_huff_encode_table ! 0 = (0x1ff8, 13)"
  "ngx_http_huff_encode_table ! 1 = (0x7fffd8, 23)"
  "ngx_http_huff_encode_table ! 2 = (0xfffffe2, 28)"
  "ngx_http_huff_encode_table ! 3 = (0xfffffe3, 28)"
  "ngx_http_huff_encode_table ! 4 = (0xfffffe4, 28)"
  "ngx_http_huff_encode_table ! 5 = (0xfffffe5, 28)"
  "ngx_http_huff_encode_table ! 6 = (0xfffffe6, 28)"
  "ngx_http_huff_encode_table ! 7 = (0xfffffe7, 28)"
  "ngx_http_huff_encode_table ! 8 = (0xfffffe8, 28)"
  "ngx_http_huff_encode_table ! 9 = (0xffffea, 24)"
  "ngx_http_huff_encode_table ! 10 = (0x3ffffffc, 30)"
  "ngx_http_huff_encode_table ! 11 = (0xfffffe9, 28)"
  "ngx_http_huff_encode_table ! 12 = (0xfffffea, 28)"
  "ngx_http_huff_encode_table ! 13 = (0x3ffffffd, 30)"
  "ngx_http_huff_encode_table ! 14 = (0xfffffeb, 28)"
  "ngx_http_huff_encode_table ! 15 = (0xfffffec, 28)"
  "ngx_http_huff_encode_table ! 16 = (0xfffffed, 28)"
  "ngx_http_huff_encode_table ! 17 = (0xfffffee, 28)"
  "ngx_http_huff_encode_table ! 18 = (0xfffffef, 28)"
  "ngx_http_huff_encode_table ! 19 = (0xffffff0, 28)"
  "ngx_http_huff_encode_table ! 20 = (0xffffff1, 28)"
  "ngx_http_huff_encode_table ! 21 = (0xffffff2, 28)"
  "ngx_http_huff_encode_table ! 22 = (0x3ffffffe, 30)"
  "ngx_http_huff_encode_table ! 23 = (0xffffff3, 28)"
  "ngx_http_huff_encode_table ! 24 = (0xffffff4, 28)"
  "ngx_http_huff_encode_table ! 25 = (0xffffff5, 28)"
  "ngx_http_huff_encode_table ! 26 = (0xffffff6, 28)"
  "ngx_http_huff_encode_table ! 27 = (0xffffff7, 28)"
  "ngx_http_huff_encode_table ! 28 = (0xffffff8, 28)"
  "ngx_http_huff_encode_table ! 29 = (0xffffff9, 28)"
  "ngx_http_huff_encode_table ! 30 = (0xffffffa, 28)"
  "ngx_http_huff_encode_table ! 31 = (0xffffffb, 28)"
  by (simp_all add: ngx_http_huff_encode_table_def)

lemma symbol_1:
  "ngx_http_huff_encode_table ! 32 = (0x14, 6)"
  "ngx_http_huff_encode_table ! 33 = (0x3f8, 10)"
  "ngx_http_huff_encode_table ! 34 = (0x3f9, 10)"
  "ngx_http_huff_encode_table ! 35 = (0xffa, 12)"
  "ngx_http_huff_encode_table ! 36 = (0x1ff9, 13)"
  "ngx_http_huff_encode_table ! 37 = (0x15, 6)"
  "ngx_http_huff_encode_table ! 38 = (0xf8, 8)"
  "ngx_http_huff_encode_table ! 39 = (0x7fa, 11)"
  "ngx_http_huff_encode_table ! 40 = (0x3fa, 10)"
  "ngx_http_huff_encode_table ! 41 = (0x3fb, 10)"
  "ngx_http_huff_encode_table ! 42 = (0xf9, 8)"
  "ngx_http_huff_encode_table ! 43 = (0x7fb, 11)"
  "ngx_http_huff_encode_table ! 44 = (0xfa, 8)"
  "ngx_http_huff_encode_table ! 45 = (0x16, 6)"
  "ngx_http_huff_encode_table ! 46 = (0x17, 6)"
  "ngx_http_huff_encode_table ! 47 = (0x18, 6)"
  "ngx_http_huff_encode_table ! 48 = (0x0, 5)"
  "ngx_http_huff_encode_table ! 49 = (0x1, 5)"
  "ngx_http_huff_encode_table ! 50 = (0x2, 5)"
  "ngx_http_huff_encode_table ! 51 = (0x19, 6)"
  "ngx_http_huff_encode_table ! 52 = (0x1a, 6)"
  "ngx_http_huff_encode_table ! 53 = (0x1b, 6)"
  "ngx_http_huff_encode_table ! 54 = (0x1c, 6)"
  "ngx_http_huff_encode_table ! 55 = (0x1d, 6)"
  "ngx_http_huff_encode_table ! 56 = (0x1e, 6)"
  "ngx_http_huff_encode_table ! 57 = (0x1f, 6)"
  "ngx_http_huff_encode_table ! 58 = (0x5c, 7)"
  "ngx_http_huff_encode_table ! 59 = (0xfb, 8)"
  "ngx_http_huff_encode_table ! 60 = (0x7ffc, 15)"
  "ngx_http_huff_encode_table ! 61 = (0x20, 6)"
  "ngx_http_huff_encode_table ! 62 = (0xffb, 12)"
  "ngx_http_huff_encode_table ! 63 = (0x3fc, 10)"
  by (simp_all add: ngx_http_huff_encode_table_def)

lemma symbol_2:
  "ngx_http_huff_encode_table ! 64 = (0x1ffa, 13)"
  "ngx_http_huff_encode_table ! 65 = (0x21, 6)"
  "ngx_http_huff_encode_table ! 66 = (0x5d, 7)"
  "ngx_http_huff_encode_table ! 67 = (0x5e, 7)"
  "ngx_http_huff_encode_table ! 68 = (0x5f, 7)"
  "ngx_http_huff_encode_table ! 69 = (0x60, 7)"
  "ngx_http_huff_encode_table ! 70 = (0x61, 7)"
  "ngx_http_huff_encode_table ! 71 = (0x62, 7)"
  "ngx_http_huff_encode_table ! 72 = (0x63, 7)"
  "ngx_http_huff_encode_table ! 73 = (0x64, 7)"
  "ngx_http_huff_encode_table ! 74 = (0x65, 7)"
  "ngx_http_huff_encode_table ! 75 = (0x66, 7)"
  "ngx_http_huff_encode_table ! 76 = (0x67, 7)"
  "ngx_http_huff_encode_table ! 77 = (0x68, 7)"
  "ngx_http_huff_encode_table ! 78 = (0x69, 7)"
  "ngx_http_huff_encode_table ! 79 = (0x6a, 7)"
  "ngx_http_huff_encode_table ! 80 = (0x6b, 7)"
  "ngx_http_huff_encode_table ! 81 = (0x6c, 7)"
  "ngx_http_huff_encode_table ! 82 = (0x6d, 7)"
  "ngx_http_huff_encode_table ! 83 = (0x6e, 7)"
  "ngx_http_huff_encode_table ! 84 = (0x6f, 7)"
  "ngx_http_huff_encode_table ! 85 = (0x70, 7)"
  "ngx_http_huff_encode_table ! 86 = (0x71, 7)"
  "ngx_http_huff_encode_table ! 87 = (0x72, 7)"
  "ngx_http_huff_encode_table ! 88 = (0xfc, 8)"
  "ngx_http_huff_encode_table ! 89 = (0x73, 7)"
  "ngx_http_huff_encode_table ! 90 = (0xfd, 8)"
  "ngx_http_huff_encode_table ! 91 = (0x1ffb, 13)"
  "ngx_http_huff_encode_table ! 92 = (0x7fff0, 19)"
  "ngx_http_huff_encode_table ! 93 = (0x1ffc, 13)"
  "ngx_http_huff_encode_table ! 94 = (0x3ffc, 14)"
  "ngx_http_huff_encode_table ! 95 = (0x22, 6)"
  by (simp_all add: ngx_http_huff_encode_table_def)

lemma symbol_3:
  "ngx_http_huff_encode_table ! 96 = (0x7ffd, 15)"
  "ngx_http_huff_encode_table ! 97 = (0x3, 5)"
  "ngx_http_huff_encode_table ! 98 = (0x23, 6)"
  "ngx_http_huff_encode_table ! 99 = (0x4, 5)"
  "ngx_http_huff_encode_table ! 100 = (0x24, 6)"
  "ngx_http_huff_encode_table ! 101 = (0x5, 5)"
  "ngx_http_huff_encode_table ! 102 = (0x25, 6)"
  "ngx_http_huff_encode_table ! 103 = (0x26, 6)"
  "ngx_http_huff_encode_table ! 104 = (0x27, 6)"
  "ngx_http_huff_encode_table ! 105 = (0x6, 5)"
  "ngx_http_huff_encode_table ! 106 = (0x74, 7)"
  "ngx_http_huff_encode_table ! 107 = (0x75, 7)"
  "ngx_http_huff_encode_table ! 108 = (0x28, 6)"
  "ngx_http_huff_encode_table ! 109 = (0x29, 6)"
  "ngx_http_huff_encode_table ! 110 = (0x2a, 6)"
  "ngx_http_huff_encode_table ! 111 = (0x7, 5)"
  "ngx_http_huff_encode_table ! 112 = (0x2b, 6)"
  "ngx_http_huff_encode_table ! 113 = (0x76, 7)"
  "ngx_http_huff_encode_table ! 114 = (0x2c, 6)"
  "ngx_http_huff_encode_table ! 115 = (0x8, 5)"
  "ngx_http_huff_encode_table ! 116 = (0x9, 5)"
  "ngx_http_huff_encode_table ! 117 = (0x2d, 6)"
  "ngx_http_huff_encode_table ! 118 = (0x77, 7)"
  "ngx_http_huff_encode_table ! 119 = (0x78, 7)"
  "ngx_http_huff_encode_table ! 120 = (0x79, 7)"
  "ngx_http_huff_encode_table ! 121 = (0x7a, 7)"
  "ngx_http_huff_encode_table ! 122 = (0x7b, 7)"
  "ngx_http_huff_encode_table ! 123 = (0x7ffe, 15)"
  "ngx_http_huff_encode_table ! 124 = (0x7fc, 11)"
  "ngx_http_huff_encode_table ! 125 = (0x3ffd, 14)"
  "ngx_http_huff_encode_table ! 126 = (0x1ffd, 13)"
  "ngx_http_huff_encode_table ! 127 = (0xffffffc, 28)"
  by (simp_all add: ngx_http_huff_encode_table_def)

lemma symbol_4:
  "ngx_http_huff_encode_table ! 128 = (0xfffe6, 20)"
  "ngx_http_huff_encode_table ! 129 = (0x3fffd2, 22)"
  "ngx_http_huff_encode_table ! 130 = (0xfffe7, 20)"
  "ngx_http_huff_encode_table ! 131 = (0xfffe8, 20)"
  "ngx_http_huff_encode_table ! 132 = (0x3fffd3, 22)"
  "ngx_http_huff_encode_table ! 133 = (0x3fffd4, 22)"
  "ngx_http_huff_encode_table ! 134 = (0x3fffd5, 22)"
  "ngx_http_huff_encode_table ! 135 = (0x7fffd9, 23)"
  "ngx_http_huff_encode_table ! 136 = (0x3fffd6, 22)"
  "ngx_http_huff_encode_table ! 137 = (0x7fffda, 23)"
  "ngx_http_huff_encode_table ! 138 = (0x7fffdb, 23)"
  "ngx_http_huff_encode_table ! 139 = (0x7fffdc, 23)"
  "ngx_http_huff_encode_table ! 140 = (0x7fffdd, 23)"
  "ngx_http_huff_encode_table ! 141 = (0x7fffde, 23)"
  "ngx_http_huff_encode_table ! 142 = (0xffffeb, 24)"
  "ngx_http_huff_encode_table ! 143 = (0x7fffdf, 23)"
  "ngx_http_huff_encode_table ! 144 = (0xffffec, 24)"
  "ngx_http_huff_encode_table ! 145 = (0xffffed, 24)"
  "ngx_http_huff_encode_table ! 146 = (0x3fffd7, 22)"
  "ngx_http_huff_encode_table ! 147 = (0x7fffe0, 23)"
  "ngx_http_huff_encode_table ! 148 = (0xffffee, 24)"
  "ngx_http_huff_encode_table ! 149 = (0x7fffe1, 23)"
  "ngx_http_huff_encode_table ! 150 = (0x7fffe2, 23)"
  "ngx_http_huff_encode_table ! 151 = (0x7fffe3, 23)"
  "ngx_http_huff_encode_table ! 152 = (0x7fffe4, 23)"
  "ngx_http_huff_encode_table ! 153 = (0x1fffdc, 21)"
  "ngx_http_huff_encode_table ! 154 = (0x3fffd8, 22)"
  "ngx_http_huff_encode_table ! 155 = (0x7fffe5, 23)"
  "ngx_http_huff_encode_table ! 156 = (0x3fffd9, 22)"
  "ngx_http_huff_encode_table ! 157 = (0x7fffe6, 23)"
  "ngx_http_huff_encode_table ! 158 = (0x7fffe7, 23)"
  "ngx_http_huff_encode_table ! 159 = (0xffffef, 24)"
  by (simp_all add: ngx_http_huff_encode_table_def)

lemma symbol_5:
  "ngx_http_huff_encode_table ! 160 = (0x3fffda, 22)"
  "ngx_http_huff_encode_table ! 161 = (0x1fffdd, 21)"
  "ngx_http_huff_encode_table ! 162 = (0xfffe9, 20)"
  "ngx_http_huff_encode_table ! 163 = (0x3fffdb, 22)"
  "ngx_http_huff_encode_table ! 164 = (0x3fffdc, 22)"
  "ngx_http_huff_encode_table ! 165 = (0x7fffe8, 23)"
  "ngx_http_huff_encode_table ! 166 = (0x7fffe9, 23)"
  "ngx_http_huff_encode_table ! 167 = (0x1fffde, 21)"
  "ngx_http_huff_encode_table ! 168 = (0x7fffea, 23)"
  "ngx_http_huff_encode_table ! 169 = (0x3fffdd, 22)"
  "ngx_http_huff_encode_table ! 170 = (0x3fffde, 22)"
  "ngx_http_huff_encode_table ! 171 = (0xfffff0, 24)"
  "ngx_http_huff_encode_table ! 172 = (0x1fffdf, 21)"
  "ngx_http_huff_encode_table ! 173 = (0x3fffdf, 22)"
  "ngx_http_huff_encode_table ! 174 = (0x7fffeb, 23)"
  "ngx_http_huff_encode_table ! 175 = (0x7fffec, 23)"
  "ngx_http_huff_encode_table ! 176 = (0x1fffe0, 21)"
  "ngx_http_huff_encode_table ! 177 = (0x1fffe1, 21)"
  "ngx_http_huff_encode_table ! 178 = (0x3fffe0, 22)"
  "ngx_http_huff_encode_table ! 179 = (0x1fffe2, 21)"
  "ngx_http_huff_encode_table ! 180 = (0x7fffed, 23)"
  "ngx_http_huff_encode_table ! 181 = (0x3fffe1, 22)"
  "ngx_http_huff_encode_table ! 182 = (0x7fffee, 23)"
  "ngx_http_huff_encode_table ! 183 = (0x7fffef, 23)"
  "ngx_http_huff_encode_table ! 184 = (0xfffea, 20)"
  "ngx_http_huff_encode_table ! 185 = (0x3fffe2, 22)"
  "ngx_http_huff_encode_table ! 186 = (0x3fffe3, 22)"
  "ngx_http_huff_encode_table ! 187 = (0x3fffe4, 22)"
  "ngx_http_huff_encode_table ! 188 = (0x7ffff0, 23)"
  "ngx_http_huff_encode_table ! 189 = (0x3fffe5, 22)"
  "ngx_http_huff_encode_table ! 190 = (0x3fffe6, 22)"
  "ngx_http_huff_encode_table ! 191 = (0x7ffff1, 23)"
  by (simp_all add: ngx_http_huff_encode_table_def)

lemma symbol_6:
  "ngx_http_huff_encode_table ! 192 = (0x3ffffe0, 26)"
  "ngx_http_huff_encode_table ! 193 = (0x3ffffe1, 26)"
  "ngx_http_huff_encode_table ! 194 = (0xfffeb, 20)"
  "ngx_http_huff_encode_table ! 195 = (0x7fff1, 19)"
  "ngx_http_huff_encode_table ! 196 = (0x3fffe7, 22)"
  "ngx_http_huff_encode_table ! 197 = (0x7ffff2, 23)"
  "ngx_http_huff_encode_table ! 198 = (0x3fffe8, 22)"
  "ngx_http_huff_encode_table ! 199 = (0x1ffffec, 25)"
  "ngx_http_huff_encode_table ! 200 = (0x3ffffe2, 26)"
  "ngx_http_huff_encode_table ! 201 = (0x3ffffe3, 26)"
  "ngx_http_huff_encode_table ! 202 = (0x3ffffe4, 26)"
  "ngx_http_huff_encode_table ! 203 = (0x7ffffde, 27)"
  "ngx_http_huff_encode_table ! 204 = (0x7ffffdf, 27)"
  "ngx_http_huff_encode_table ! 205 = (0x3ffffe5, 26)"
  "ngx_http_huff_encode_table ! 206 = (0xfffff1, 24)"
  "ngx_http_huff_encode_table ! 207 = (0x1ffffed, 25)"
  "ngx_http_huff_encode_table ! 208 = (0x7fff2, 19)"
  "ngx_http_huff_encode_table ! 209 = (0x1fffe3, 21)"
  "ngx_http_huff_encode_table ! 210 = (0x3ffffe6, 26)"
  "ngx_http_huff_encode_table ! 211 = (0x7ffffe0, 27)"
  "ngx_http_huff_encode_table ! 212 = (0x7ffffe1, 27)"
  "ngx_http_huff_encode_table ! 213 = (0x3ffffe7, 26)"
  "ngx_http_huff_encode_table ! 214 = (0x7ffffe2, 27)"
  "ngx_http_huff_encode_table ! 215 = (0xfffff2, 24)"
  "ngx_http_huff_encode_table ! 216 = (0x1fffe4, 21)"
  "ngx_http_huff_encode_table ! 217 = (0x1fffe5, 21)"
  "ngx_http_huff_encode_table ! 218 = (0x3ffffe8, 26)"
  "ngx_http_huff_encode_table ! 219 = (0x3ffffe9, 26)"
  "ngx_http_huff_encode_table ! 220 = (0xffffffd, 28)"
  "ngx_http_huff_encode_table ! 221 = (0x7ffffe3, 27)"
  "ngx_http_huff_encode_table ! 222 = (0x7ffffe4, 27)"
  "ngx_http_huff_encode_table ! 223 = (0x7ffffe5, 27)"
  by (simp_all add: ngx_http_huff_encode_table_def)

lemma symbol_7:
  "ngx_http_huff_encode_table ! 224 = (0xfffec, 20)"
  "ngx_http_huff_encode_table ! 225 = (0xfffff3, 24)"
  "ngx_http_huff_encode_table ! 226 = (0xfffed, 20)"
  "ngx_http_huff_encode_table ! 227 = (0x1fffe6, 21)"
  "ngx_http_huff_encode_table ! 228 = (0x3fffe9, 22)"
  "ngx_http_huff_encode_table ! 229 = (0x1fffe7, 21)"
  "ngx_http_huff_encode_table ! 230 = (0x1fffe8, 21)"
  "ngx_http_huff_encode_table ! 231 = (0x7ffff3, 23)"
  "ngx_http_huff_encode_table ! 232 = (0x3fffea, 22)"
  "ngx_http_huff_encode_table ! 233 = (0x3fffeb, 22)"
  "ngx_http_huff_encode_table ! 234 = (0x1ffffee, 25)"
  "ngx_http_huff_encode_table ! 235 = (0x1ffffef, 25)"
  "ngx_http_huff_encode_table ! 236 = (0xfffff4, 24)"
  "ngx_http_huff_encode_table ! 237 = (0xfffff5, 24)"
  "ngx_http_huff_encode_table ! 238 = (0x3ffffea, 26)"
  "ngx_http_huff_encode_table ! 239 = (0x7ffff4, 23)"
  "ngx_http_huff_encode_table ! 240 = (0x3ffffeb, 26)"
  "ngx_http_huff_encode_table ! 241 = (0x7ffffe6, 27)"
  "ngx_http_huff_encode_table ! 242 = (0x3ffffec, 26)"
  "ngx_http_huff_encode_table ! 243 = (0x3ffffed, 26)"
  "ngx_http_huff_encode_table ! 244 = (0x7ffffe7, 27)"
  "ngx_http_huff_encode_table ! 245 = (0x7ffffe8, 27)"
  "ngx_http_huff_encode_table ! 246 = (0x7ffffe9, 27)"
  "ngx_http_huff_encode_table ! 247 = (0x7ffffea, 27)"
  "ngx_http_huff_encode_table ! 248 = (0x7ffffeb, 27)"
  "ngx_http_huff_encode_table ! 249 = (0xffffffe, 28)"
  "ngx_http_huff_encode_table ! 250 = (0x7ffffec, 27)"
  "ngx_http_huff_encode_table ! 251 = (0x7ffffed, 27)"
  "ngx_http_huff_encode_table ! 252 = (0x7ffffee, 27)"
  "ngx_http_huff_encode_table ! 253 = (0x7ffffef, 27)"
  "ngx_http_huff_encode_table ! 254 = (0x7fffff0, 27)"
  "ngx_http_huff_encode_table ! 255 = (0x3ffffee, 26)"
  by (simp_all add: ngx_http_huff_encode_table_def)

lemmas paths = path_0 path_1 path_2 path_3 path_4 path_5 path_6 path_7

lemmas symbols = symbol_0 symbol_1 symbol_2 symbol_3 symbol_4 symbol_5 symbol_6 symbol_7

definition kid_ok :: "kid \<Rightarrow> nat \<times> nat \<Rightarrow> bool" where
  "kid_ok k p = (case k of
     Inner t \<Rightarrow> t < 256 \<and> huff_paths ! t = p
   | Symbol c \<Rightarrow> c < 256 \<and> ngx_http_huff_encode_table ! c = p
   | Eos \<Rightarrow> p = (2 ^ 30 - 1, 30))"

definition node_ok :: "bool \<times> kid \<times> kid \<Rightarrow> nat \<times> nat \<Rightarrow> bool" where
  "node_ok node p = (case node of (f, k, k') \<Rightarrow> case p of (n, l) \<Rightarrow>
     (f \<longleftrightarrow> n = 2 ^ l - 1) \<and> l < 30 \<and> kid_ok k (2 * n, l + 1) \<and> kid_ok k' (2 * n + 1, l + 1))"

lemma all_nodes: "list_all2 node_ok huff_nodes huff_paths"
  unfolding huff_nodes_def huff_paths_def
  by (simp add: node_ok_def kid_ok_def paths symbols del: One_nat_def)

lemma encode_walks: "list_all2 (\<lambda>c e. run 0 (msb (snd e) (fst e)) = Some (0, [c])) [0..<256] ngx_http_huff_encode_table"
  unfolding upt_256
  by (simp add: ngx_http_huff_encode_table_def msb_numeral msb_one child_def nodes del: One_nat_def)

end
