(* ===== verification/Ngx_Http_Huff.thy ===== *)
theory Ngx_Http_Huff
  imports Ngx_Huff_Tables
begin

text \<open>
  The Huffman code of HTTP/2: the encoder, which collects the codes in 64 bits and gives up when
  nothing is gained, and the decoder, which takes four bits at a time and may be fed in pieces.
\<close>

section \<open>The encoder\<close>

text \<open>\<^verbatim>\<open>ngx_http_huff_encode_buf\<close>: eight bytes, the most significant first.\<close>

definition ngx_http_huff_encode_buf :: "u64 \<Rightarrow> u8 list" where
  "ngx_http_huff_encode_buf buf =
     [ucast (drop_bit 56 buf), ucast (drop_bit 48 buf), ucast (drop_bit 40 buf), ucast (drop_bit 32 buf),
      ucast (drop_bit 24 buf), ucast (drop_bit 16 buf), ucast (drop_bit 8 buf), ucast buf]"

text \<open>
  The loop over \<open>src\<close>, where \<open>len\<close> is the length of the whole string and \<^verbatim>\<open>hlen\<close> that of \<open>dst\<close>; \<open>None\<close> is the
  return of 0.
\<close>

fun huff_encode_loop :: "huff_encode_code list \<Rightarrow> nat \<Rightarrow> u8 list \<Rightarrow> u8 list \<Rightarrow> u64 \<Rightarrow> nat \<Rightarrow> (u8 list \<times> u64 \<times> nat) option" where
  "huff_encode_loop table len [] dst buf pending = Some (dst, buf, pending)"
| "huff_encode_loop table len (c # src) dst buf pending =
     (let code = (word_of_nat (fst (table ! unat c)) :: u64);
          pending = pending + snd (table ! unat c) in
      if pending < 64 then huff_encode_loop table len src dst (buf OR push_bit (64 - pending) code) pending
      else if length dst + 8 \<ge> len then None
      else
        let pending = pending - 64;
            buf = buf OR drop_bit pending code in
        huff_encode_loop table len src (dst @ ngx_http_huff_encode_buf buf)
          (if pending \<noteq> 0 then push_bit (64 - pending) code else 0) pending)"

text \<open>\<^verbatim>\<open>do { pending -= 8; dst[hlen++] = (u_char) (buf >> pending); } while (pending)\<close>\<close>

fun huff_tail :: "u64 \<Rightarrow> nat \<Rightarrow> u8 list" where
  "huff_tail buf 0 = []"
| "huff_tail buf (Suc k) = ucast (drop_bit (8 * k) buf) # huff_tail buf k"

text \<open>The bytes written, whose number is the result of the function.\<close>

definition ngx_http_huff_encode :: "u8 list \<Rightarrow> bool \<Rightarrow> u8 list" where
  "ngx_http_huff_encode src lower =
     (case huff_encode_loop (if lower then ngx_http_huff_encode_table_lc else ngx_http_huff_encode_table)
         (length src) src [] 0 0 of
        None \<Rightarrow> []
      | Some (dst, buf, pending) \<Rightarrow>
          if pending = 0 then dst
          else
            let buf = buf OR drop_bit pending (- 1);
                pending = (pending + 7) div 8 * 8 in
            if length dst + pending div 8 \<ge> length src then []
            else dst @ huff_tail (drop_bit (64 - pending) buf) (pending div 8))"

section \<open>The decoder\<close>

text \<open>The state and \<open>ending\<close> after four bits with the symbol, if one is complete; \<open>None\<close> is the error.\<close>

definition ngx_http_huff_decode_bits :: "nat \<Rightarrow> nat \<Rightarrow> (nat \<times> bool \<times> u8 list) option" where
  "ngx_http_huff_decode_bits state bits =
     (case ngx_http_huff_decode_codes ! state ! bits of (next, emit, symbol, ending) \<Rightarrow>
        if next = state then None
        else Some (next, ending \<noteq> 0, if emit \<noteq> 0 then [word_of_nat symbol] else []))"

fun huff_decode_loop :: "nat \<Rightarrow> bool \<Rightarrow> u8 list \<Rightarrow> u8 list \<Rightarrow> bool \<times> nat \<times> bool \<times> u8 list" where
  "huff_decode_loop state ending [] dst = (True, state, ending, dst)"
| "huff_decode_loop state ending (ch # src) dst =
     (case ngx_http_huff_decode_bits state (unat (drop_bit 4 ch)) of
        None \<Rightarrow> (False, state, ending, dst)
      | Some (state, ending, out) \<Rightarrow>
          (case ngx_http_huff_decode_bits state (unat (ch AND 0xf)) of
             None \<Rightarrow> (False, state, ending, dst @ out)
           | Some (state, ending, out') \<Rightarrow> huff_decode_loop state ending src (dst @ out @ out')))"

definition ngx_http_huff_decode :: "nat \<Rightarrow> u8 list \<Rightarrow> u8 list \<Rightarrow> bool \<Rightarrow> ngx_rc \<times> nat \<times> u8 list" where
  "ngx_http_huff_decode state src dst is_last =
     (case huff_decode_loop state True src dst of
        (False, state, _, dst) \<Rightarrow> (NGX_ERROR, state, dst)
      | (True, state, ending, dst) \<Rightarrow>
          if is_last then (if \<not> ending then (NGX_ERROR, state, dst) else (NGX_OK, 0, dst))
          else (NGX_OK, state, dst))"

text \<open>
  A string that arrives in pieces, as \<^verbatim>\<open>ngx_http_v2_state_field_huff\<close> passes them on: the state is kept
  between them and \<open>last\<close> is set for the last one.
\<close>

fun huff_decode_pieces :: "nat \<Rightarrow> u8 list list \<Rightarrow> u8 list \<Rightarrow> ngx_rc \<times> u8 list" where
  "huff_decode_pieces state [] dst = (NGX_OK, dst)"
| "huff_decode_pieces state [p] dst = (case ngx_http_huff_decode state p dst True of (rc, _, dst) \<Rightarrow> (rc, dst))"
| "huff_decode_pieces state (p # ps) dst =
     (case ngx_http_huff_decode state p dst False of
        (rc, state, dst) \<Rightarrow> if rc \<noteq> NGX_OK then (rc, dst) else huff_decode_pieces state ps dst)"

section \<open>Bits\<close>

definition byte_bits :: "u8 \<Rightarrow> bool list" where
  "byte_bits c = map (\<lambda>i. bit c (7 - i)) [0..<8]"

definition bits_of :: "u8 list \<Rightarrow> bool list" where
  "bits_of bs = concat (map byte_bits bs)"

definition sym_bits :: "nat \<Rightarrow> bool list" where
  "sym_bits c = msb (snd (ngx_http_huff_encode_table ! c)) (fst (ngx_http_huff_encode_table ! c))"

definition codes_of :: "u8 list \<Rightarrow> bool list" where
  "codes_of bs = concat (map (\<lambda>c. sym_bits (unat c)) bs)"

lemma bits_of_simps [simp]:
  "bits_of [] = []" "bits_of (c # bs) = byte_bits c @ bits_of bs" "bits_of (bs @ bs') = bits_of bs @ bits_of bs'"
  by (simp_all add: bits_of_def)

lemma codes_of_simps [simp]:
  "codes_of [] = []" "codes_of (c # bs) = sym_bits (unat c) @ codes_of bs" "codes_of (bs @ bs') = codes_of bs @ codes_of bs'"
  by (simp_all add: codes_of_def)

lemma length_byte_bits [simp]: "length (byte_bits c) = 8"
  by (simp add: byte_bits_def)

lemma length_bits_of [simp]: "length (bits_of bs) = 8 * length bs"
  by (induction bs) simp_all

lemma huff_tail_bits: "bits_of (huff_tail buf k) = map (\<lambda>i. bit buf (8 * k - 1 - i)) [0..<8 * k]"
proof (induction k)
  case (Suc k)
  have "byte_bits (ucast (drop_bit (8 * k) buf)) = map (\<lambda>i. bit buf (8 * k + 7 - i)) [0..<8]"
    by (auto simp: byte_bits_def bit_simps)
  moreover have "map (\<lambda>i. bit buf (8 * k - 1 - i)) [0..<8 * k] = map (\<lambda>i. bit buf (8 * k + 7 - i)) [8..<8 * k + 8]"
    by (rule nth_equalityI) (simp_all add: add.commute)
  moreover have "[0..<8 * Suc k] = [0..<8] @ [8..<8 * k + 8]"
    using upt_add_eq_append [of 0 8 "8 * k"] by (simp add: add.commute)
  ultimately show ?case using Suc by (simp add: add.commute)
qed simp

lemma length_huff_tail [simp]: "length (huff_tail buf k) = k"
  by (induction k) simp_all

lemma encode_buf_tail: "ngx_http_huff_encode_buf buf = huff_tail buf 8"
  by (simp add: ngx_http_huff_encode_buf_def eval_nat_numeral)

lemma byte_bits_split: "byte_bits c = [bit c 7, bit c 6, bit c 5, bit c 4, bit c 3, bit c 2, bit c 1, bit c 0]"
  by (simp add: byte_bits_def upt_conv_Cons)

lemma nibbles_bits:
  "n < 16 \<Longrightarrow> nibbles ! n = [bit n 3, bit n 2, bit n 1, bit n 0]"
proof -
  have "\<forall>n\<in>set [0..<16]. nibbles ! n = [bit n 3, bit n 2, bit n 1, bit (n :: nat) 0]"
    by (simp add: nibbles_def upt_conv_Cons bit_iff_odd)
  then show "n < 16 \<Longrightarrow> nibbles ! n = [bit n 3, bit n 2, bit n 1, bit n 0]" by simp
qed

lemma high_nibble_bits:
  fixes ch :: u8
  shows "unat (drop_bit 4 ch) < 16" "nibbles ! unat (drop_bit 4 ch) = take 4 (byte_bits ch)"
proof -
  have "unat (drop_bit 4 ch) = unat ch div 16" by (simp add: drop_bit_eq_div unat_div_distrib)
  then show less: "unat (drop_bit 4 ch) < 16" using byte_unat_range [of ch] by (simp add: less_mult_imp_div_less)
  show "nibbles ! unat (drop_bit 4 ch) = take 4 (byte_bits ch)"
    unfolding nibbles_bits [OF less] byte_bits_split
    by (simp add: bit_unsigned_iff bit_simps)
qed

lemma low_nibble_bits:
  fixes ch :: u8
  shows "unat (ch AND 0xf) < 16" "nibbles ! unat (ch AND 0xf) = drop 4 (byte_bits ch)"
proof -
  have "ch AND 0xf = ch mod 16"
    using take_bit_eq_mask [of 4 ch] by (simp add: take_bit_eq_mod mask_eq_exp_minus_1)
  then have "unat (ch AND 0xf) = unat ch mod 16" by (simp add: unat_mod_distrib)
  then show less: "unat (ch AND 0xf) < 16" by simp
  show "nibbles ! unat (ch AND 0xf) = drop 4 (byte_bits ch)"
    unfolding nibbles_bits [OF less] byte_bits_split
    by (simp add: bit_unsigned_iff bit_simps)
qed

section \<open>Walks\<close>

lemma node_ok_nth: "s < 256 \<Longrightarrow> node_ok (huff_nodes ! s) (huff_paths ! s)"
  using list_all2_nthD [OF all_nodes, of s] by (simp add: length_nodes)

definition path :: "nat \<Rightarrow> bool list" where
  "path s = msb (snd (huff_paths ! s)) (fst (huff_paths ! s))"

lemma msb_child: "msb (l + 1) (2 * n) = msb l n @ [False]" "msb (l + 1) (2 * n + 1) = msb l n @ [True]"
  by simp_all

lemma kid_path:
  "kid_ok k (m, l + 1) \<Longrightarrow> case k of Inner t \<Rightarrow> t < 256 \<and> path t = msb (l + 1) m
    | Symbol c \<Rightarrow> c < 256 \<and> sym_bits c = msb (l + 1) m | Eos \<Rightarrow> True"
  by (cases k) (simp_all add: kid_ok_def path_def sym_bits_def del: msb.simps)

lemma child_path:
  assumes "s < 256"
  shows "case child s b of Inner t \<Rightarrow> t < 256 \<and> path t = path s @ [b]
    | Symbol c \<Rightarrow> c < 256 \<and> sym_bits c = path s @ [b] | Eos \<Rightarrow> True"
proof -
  obtain f k k' n l where "huff_nodes ! s = (f, k, k')" "huff_paths ! s = (n, l)" by (metis prod_cases3 prod.exhaust)
  then have "kid_ok k (2 * n, l + 1)" "kid_ok k' (2 * n + 1, l + 1)" "child s b = (if b then k' else k)"
      "path s = msb l n"
    using node_ok_nth [OF assms] by (simp_all add: child_def node_ok_def path_def)
  then show ?thesis using kid_path [of k "2 * n" l] kid_path [of k' "2 * n + 1" l] msb_child [of l n]
    by (cases b) (simp_all split: kid.splits)
qed

lemma run_path:
  "s < 256 \<Longrightarrow> run s bs = Some (t, cs) \<Longrightarrow> t < 256 \<and> path s @ bs = concat (map sym_bits cs) @ path t \<and> (\<forall>c\<in>set cs. c < 256)"
proof (induction bs arbitrary: s t cs)
  case (Cons b bs)
  have path0: "path 0 = []" by (simp add: path_def path_0)
  show ?case
  proof (cases "child s b")
    case (Inner u)
    then show ?thesis using Cons.IH [of u t cs] Cons.prems child_path [OF Cons.prems(1), of b] by auto
  next
    case (Symbol c)
    then obtain cs' where "run 0 bs = Some (t, cs')" "cs = c # cs'"
      using Cons.prems(2) by (auto split: option.splits)
    then show ?thesis using Symbol Cons.IH [of 0 t cs'] child_path [OF Cons.prems(1), of b] path0 by auto
  next
    case Eos
    then show ?thesis using Cons.prems(2) by simp
  qed
qed simp

lemma run_join:
  "run s (xs @ ys) = (case run s xs of None \<Rightarrow> None
    | Some (t, cs) \<Rightarrow> (case run t ys of None \<Rightarrow> None | Some (u, ds) \<Rightarrow> Some (u, cs @ ds)))"
  by (induction xs arbitrary: s) (auto split: kid.splits option.splits)

lemma run_symbol: "c < 256 \<Longrightarrow> run 0 (sym_bits c) = Some (0, [c])"
  using list_all2_nthD [OF encode_walks, of c] by (simp add: sym_bits_def)

lemma run_symbols: "\<forall>c\<in>set cs. c < 256 \<Longrightarrow> run 0 (concat (map sym_bits cs)) = Some (0, cs)"
  by (induction cs) (simp_all add: run_join run_symbol)

lemma run_codes: "run 0 (codes_of bs) = Some (0, map unat bs)"
  using run_symbols [of "map unat bs"] by (simp add: codes_of_def comp_def)

text \<open>The paths with only ones are those of the paddings.\<close>

lemma msb_ones: "msb l (2 ^ l - 1) = replicate l True"
proof (induction l)
  case (Suc l)
  have "(2 ^ Suc l - 1) div 2 = (2 ^ l - 1 :: nat)" by (cases "(2 :: nat) ^ l") auto
  then show ?case using Suc by (simp add: replicate_append_same)
qed simp

lemma padding_path: "t < 256 \<Longrightarrow> padding t \<Longrightarrow> \<exists>k<30. path t = replicate k True"
  using node_ok_nth [of t] msb_ones by (auto simp: node_ok_def padding_def path_def split: prod.splits)

lemma ones_numeral: "replicate (numeral k) x = x # replicate (pred_numeral k) x"
  by (simp add: numeral_eq_Suc)

lemma run_ones: "k < 30 \<Longrightarrow> \<exists>t. run 0 (replicate k True) = Some (t, []) \<and> padding t"
proof -
  have "list_all (\<lambda>k. case run 0 (replicate k True) of Some (t, cs) \<Rightarrow> cs = [] \<and> padding t | None \<Rightarrow> False) [0..<30]"
    by (simp add: upt_conv_Cons ones_numeral child_def padding_def nodes del: One_nat_def)
  then show "k < 30 \<Longrightarrow> \<exists>t. run 0 (replicate k True) = Some (t, []) \<and> padding t"
    by (fastforce simp: list_all_iff split: option.splits)
qed

section \<open>The decoder follows the walks\<close>

lemma transition:
  assumes "s < 256" "n < 16"
  shows "ngx_http_huff_decode_bits s n = (case run s (nibbles ! n) of None \<Rightarrow> None
    | Some (t, cs) \<Rightarrow> Some (t, padding t, map word_of_nat cs))"
proof -
  have "list_all2 (entry_ok s) (ngx_http_huff_decode_codes ! s) nibbles"
    using list_all2_nthD [OF all_rows [unfolded rows_ok_def], of s] assms(1) by simp
  moreover have "length nibbles = 16" by (simp add: nibbles_def)
  ultimately have "entry_ok s (ngx_http_huff_decode_codes ! s ! n) (nibbles ! n)"
    using assms(2) by (metis list_all2_lengthD list_all2_nthD)
  then show ?thesis
    by (auto simp: entry_ok_def ngx_http_huff_decode_bits_def split: option.splits prod.splits if_splits)
qed

lemma run_byte: "run s (byte_bits ch @ bs) = (case run s (nibbles ! unat (drop_bit 4 ch)) of None \<Rightarrow> None
    | Some (t, cs) \<Rightarrow> (case run t (nibbles ! unat (ch AND 0xf)) of None \<Rightarrow> None
    | Some (u, ds) \<Rightarrow> (case run u bs of None \<Rightarrow> None | Some (v, es) \<Rightarrow> Some (v, cs @ ds @ es))))"
proof -
  have "byte_bits ch @ bs = take 4 (byte_bits ch) @ drop 4 (byte_bits ch) @ bs" by simp
  then show ?thesis
    unfolding high_nibble_bits(2) low_nibble_bits(2) by (simp only: run_join) (auto split: option.splits)
qed

lemma loop_run:
  "s < 256 \<Longrightarrow> case run s (bits_of src) of
      None \<Rightarrow> fst (huff_decode_loop s e src dst) = False
    | Some (t, cs) \<Rightarrow> huff_decode_loop s e src dst = (True, t, if src = [] then e else padding t, dst @ map word_of_nat cs)"
proof (induction src arbitrary: s e dst)
  case (Cons ch src)
  let ?hi = "run s (nibbles ! unat (drop_bit 4 ch))"
  note hi = transition [OF Cons.prems high_nibble_bits(1) [of ch]]
  show ?case
  proof (cases ?hi)
    case None
    then show ?thesis using hi by (simp add: run_byte)
  next
    case (Some tc)
    obtain t cs where tc: "?hi = Some (t, cs)" using Some by (cases tc) auto
    have t: "t < 256" using run_path [OF Cons.prems tc] by simp
    note lo = transition [OF t low_nibble_bits(1) [of ch]]
    let ?lo = "run t (nibbles ! unat (ch AND 0xf))"
    show ?thesis
    proof (cases ?lo)
      case None
      then show ?thesis using hi lo tc by (simp add: run_byte)
    next
      case (Some ud)
      obtain u ds where ud: "?lo = Some (u, ds)" using Some by (cases ud) auto
      have u: "u < 256" using run_path [OF t ud] by simp
      note IH = Cons.IH [OF u, of "padding u" "dst @ map word_of_nat cs @ map word_of_nat ds"]
      have step: "huff_decode_loop s e (ch # src) dst
          = huff_decode_loop u (padding u) src (dst @ map word_of_nat cs @ map word_of_nat ds)"
        using hi lo tc ud by simp
      show ?thesis unfolding step using IH tc ud
        by (cases "run u (bits_of src)") (auto simp: run_byte)
    qed
  qed
qed simp

lemma decode_run:
  assumes "s < 256"
  shows "case run s (bits_of src) of
      None \<Rightarrow> fst (ngx_http_huff_decode s src dst is_last) = NGX_ERROR
    | Some (t, cs) \<Rightarrow> ngx_http_huff_decode s src dst is_last =
        (if is_last then if src = [] \<or> padding t then (NGX_OK, 0, dst @ map word_of_nat cs) else (NGX_ERROR, t, dst @ map word_of_nat cs)
         else (NGX_OK, t, dst @ map word_of_nat cs))"
  using loop_run [OF assms, where src = src and e = True and dst = dst]
  by (auto simp: ngx_http_huff_decode_def split: option.splits prod.splits bool.splits)

lemma pieces_run:
  "s < 256 \<Longrightarrow> ps \<noteq> [] \<Longrightarrow> last ps \<noteq> [] \<Longrightarrow> case run s (bits_of (concat ps)) of
      None \<Rightarrow> fst (huff_decode_pieces s ps dst) = NGX_ERROR
    | Some (t, cs) \<Rightarrow> huff_decode_pieces s ps dst = (if padding t then NGX_OK else NGX_ERROR, dst @ map word_of_nat cs)"
proof (induction s ps dst rule: huff_decode_pieces.induct)
  case (2 s p dst)
  then show ?case using decode_run [of s p dst True] by (auto split: option.splits prod.splits if_splits)
next
  case (3 s p q ps dst)
  obtain rc t d where one: "ngx_http_huff_decode s p dst False = (rc, t, d)" by (metis prod_cases3)
  show ?case
  proof (cases "run s (bits_of p)")
    case None
    then show ?thesis using decode_run [of s p dst False] 3(2) one by (simp add: run_join)
  next
    case (Some tc)
    then obtain t' cs where tc: "run s (bits_of p) = Some (t', cs)" by (cases tc) auto
    then have eq: "rc = NGX_OK" "t = t'" "d = dst @ map word_of_nat cs"
      using decode_run [of s p dst False] 3(2) one by simp_all
    have "t' < 256" using run_path [OF 3(2) tc] by simp
    then show ?thesis using 3(1) [OF one [symmetric] refl] 3(3,4) tc one eq
      by (auto simp: run_join split: option.splits)
  qed
qed simp

text \<open>C12: The decoder accepts exactly the strings of codes.  However a string of bytes is cut into pieces,
  it is decoded to \<open>out\<close> if and only if its bits are the codes of the bytes of \<open>out\<close> one after the other,
  followed by fewer than 30 ones.\<close>

theorem huff_decode_exact:
  assumes "ps \<noteq> []" "last ps \<noteq> []"
  shows "huff_decode_pieces 0 ps [] = (NGX_OK, out)
    \<longleftrightarrow> (\<exists>k<30. bits_of (concat ps) = codes_of out @ replicate k True)"
proof
  assume ok: "huff_decode_pieces 0 ps [] = (NGX_OK, out)"
  then obtain t cs where run: "run 0 (bits_of (concat ps)) = Some (t, cs)" and t: "padding t" "out = map word_of_nat cs"
    using pieces_run [OF _ assms, of 0 "[]"] by (auto split: option.splits if_splits)
  have path: "t < 256" "bits_of (concat ps) = concat (map sym_bits cs) @ path t" "\<forall>c\<in>set cs. c < 256"
    using run_path [OF _ run] by (simp_all add: path_def path_0)
  then have "concat (map sym_bits cs) = codes_of out"
    using t(2) by (auto simp: codes_of_def unat_of_nat intro!: arg_cong [where f = concat])
  then show "\<exists>k<30. bits_of (concat ps) = codes_of out @ replicate k True"
    using padding_path [OF path(1) t(1)] path(2) by auto
next
  assume "\<exists>k<30. bits_of (concat ps) = codes_of out @ replicate k True"
  then obtain k where k: "k < 30" "bits_of (concat ps) = codes_of out @ replicate k True" by blast
  obtain t where ones: "run 0 (replicate k True) = Some (t, [])" "padding t" using run_ones [OF k(1)] by blast
  have "run 0 (bits_of (concat ps)) = Some (t, map unat out)" using k(2) ones(1) by (simp add: run_join run_codes)
  then show "huff_decode_pieces 0 ps [] = (NGX_OK, out)"
    using pieces_run [OF _ assms, of 0 "[]"] ones(2) by (simp add: comp_def)
qed

text \<open>
  RFC 7541 allows at most seven ones at the end; the table marks the longer runs of ones as an ending too, so
  two bytes of ones are the empty string here.
\<close>

lemma huff_decode_exact_witness: "huff_decode_pieces 0 [[0xff], [0xff]] [] = (NGX_OK, [])"
proof -
  have "\<exists>k<30. bits_of (concat [[0xff], [0xff]]) = codes_of [] @ replicate k True"
    by (intro exI [of _ 16]) (simp add: byte_bits_split ones_numeral)
  then show ?thesis using huff_decode_exact [of "[[0xff], [0xff]]" "[]"] by simp
qed

section \<open>The room of the decoder\<close>

lemma short_codes: "c < 256 \<Longrightarrow> 5 \<le> length (sym_bits c) \<and> length (sym_bits c) \<le> 30"
proof -
  have "list_all (\<lambda>e. 5 \<le> snd e \<and> snd e \<le> 30) ngx_http_huff_encode_table"
    by (simp add: ngx_http_huff_encode_table_def)
  moreover have "length ngx_http_huff_encode_table = 256" by (simp add: ngx_http_huff_encode_table_def)
  ultimately show "c < 256 \<Longrightarrow> 5 \<le> length (sym_bits c) \<and> length (sym_bits c) \<le> 30"
    by (auto simp: sym_bits_def list_all_length)
qed

lemma symbols_length: "\<forall>c\<in>set cs. c < 256 \<Longrightarrow> 5 * length cs \<le> length (concat (map sym_bits cs))"
  using short_codes by (induction cs) fastforce+

lemma decode_bits_room:
  assumes "s < 256" "n < 16" "ngx_http_huff_decode_bits s n = Some (t, e, out)"
  shows "t < 256 \<and> 5 * length out + length (path t) \<le> length (path s) + 4"
proof -
  obtain cs where run: "run s (nibbles ! n) = Some (t, cs)" "out = map word_of_nat cs"
    using transition [OF assms(1,2)] assms(3) by (auto split: option.splits)
  have four: "length (nibbles ! n) = 4" using assms(2) by (simp add: nibbles_bits)
  note path = run_path [OF assms(1) run(1)]
  then have "length (path s @ nibbles ! n) = length (concat (map sym_bits cs) @ path t)" by (simp only:)
  then have "length (path s) + 4 = length (concat (map sym_bits cs)) + length (path t)" using four by simp
  moreover have "5 * length cs \<le> length (concat (map sym_bits cs))" "t < 256" using path symbols_length by auto
  ultimately show ?thesis using run(2) by simp
qed

lemma loop_room:
  "s < 256 \<Longrightarrow> case huff_decode_loop s e src dst of (ok, t, e', dst') \<Rightarrow>
    t < 256 \<and> 5 * length dst' + length (path t) \<le> 5 * length dst + length (path s) + 8 * length src"
proof (induction src arbitrary: s e dst)
  case (Cons ch src)
  let ?hi = "ngx_http_huff_decode_bits s (unat (drop_bit 4 ch))"
  show ?case
  proof (cases ?hi)
    case None
    then show ?thesis using Cons.prems by simp
  next
    case (Some hi)
    obtain t e1 out where hi: "?hi = Some (t, e1, out)" using Some by (cases hi) auto
    note room = decode_bits_room [OF Cons.prems high_nibble_bits(1) hi]
    let ?lo = "ngx_http_huff_decode_bits t (unat (ch AND 0xf))"
    show ?thesis
    proof (cases ?lo)
      case None
      then show ?thesis using hi room by simp
    next
      case (Some lo)
      obtain u e2 out' where lo: "?lo = Some (u, e2, out')" using Some by (cases lo) auto
      have "u < 256 \<and> 5 * length out' + length (path u) \<le> length (path t) + 4"
        using decode_bits_room [OF _ low_nibble_bits(1) lo] room by simp
      then show ?thesis using Cons.IH [of u, where e = e2 and dst = "dst @ out @ out'"] hi lo room by (auto split: prod.splits)
    qed
  qed
qed simp

lemma decode_room:
  assumes "s < 256" "ngx_http_huff_decode s src dst is_last = (rc, t, dst')"
  shows "t < 256 \<and> 5 * length dst' \<le> 5 * length dst + length (path s) + 8 * length src
    \<and> (\<not> is_last \<longrightarrow> 5 * length dst' + length (path t) \<le> 5 * length dst + length (path s) + 8 * length src)"
  using loop_room [OF assms(1), where e = True and src = src and dst = dst] assms(2)
  by (auto simp: ngx_http_huff_decode_def split: prod.splits bool.splits if_splits)

lemma pieces_room:
  "s < 256 \<Longrightarrow> 5 * length (snd (huff_decode_pieces s ps dst)) \<le> 5 * length dst + length (path s) + 8 * length (concat ps)"
proof (induction s ps dst rule: huff_decode_pieces.induct)
  case (2 s p dst)
  obtain rc t d where "ngx_http_huff_decode s p dst True = (rc, t, d)" by (metis prod_cases3)
  then show ?case using decode_room [OF 2] by simp
next
  case (3 s p q ps dst)
  obtain rc t d where one: "ngx_http_huff_decode s p dst False = (rc, t, d)" by (metis prod_cases3)
  note room = decode_room [OF 3(2) one]
  show ?case
  proof (cases "rc = NGX_OK")
    case True
    then show ?thesis using 3(1) [OF one [symmetric] refl] room one by simp
  next
    case False
    then show ?thesis using room one by simp
  qed
qed simp

text \<open>C30: The decoder stays within the memory that is allocated for it.  Whatever bytes are received, in
  whatever pieces and whether they are well formed or not, at most 8/5 as many bytes are written: the
  amount that \<^verbatim>\<open>ngx_http_v2_state_field_len\<close> allocates.\<close>

theorem huff_decode_room:
  "length (snd (huff_decode_pieces 0 ps [])) \<le> length (concat ps) * 8 div 5"
proof -
  have "5 * length (snd (huff_decode_pieces 0 ps [])) \<le> length (path 0) + 8 * length (concat ps)"
    using pieces_room [of 0 ps "[]"] by simp
  moreover have "path 0 = []" by (simp add: path_def path_0)
  ultimately show ?thesis by simp
qed

section \<open>The encoder writes the codes\<close>

lemma symbol_entry:
  assumes "c < 256"
  obtains n l where "ngx_http_huff_encode_table ! c = (n, l)" "n < 2 ^ l" "5 \<le> l" "l \<le> 30" "sym_bits c = msb l n"
proof -
  have "list_all (\<lambda>e. fst e < 2 ^ snd e) ngx_http_huff_encode_table"
    by (simp add: ngx_http_huff_encode_table_def)
  moreover have "length ngx_http_huff_encode_table = 256" by (simp add: ngx_http_huff_encode_table_def)
  ultimately have "fst (ngx_http_huff_encode_table ! c) < 2 ^ snd (ngx_http_huff_encode_table ! c)"
    using assms by (simp add: list_all_length)
  then show thesis using that short_codes [OF assms] by (simp add: sym_bits_def split: prod.splits) (metis prod.collapse)
qed

text \<open>The pending bits are at the top of \<open>buf\<close>, zeros below.\<close>

definition holds :: "u64 \<Rightarrow> bool list \<Rightarrow> bool" where
  "holds buf q \<longleftrightarrow> (\<forall>i<64. bit buf (63 - i) \<longleftrightarrow> i < length q \<and> q ! i)"

definition word_bits :: "u64 \<Rightarrow> bool list" where
  "word_bits w = map (\<lambda>i. bit w (63 - i)) [0..<64]"

lemma encode_buf_bits: "bits_of (ngx_http_huff_encode_buf w) = word_bits w"
  by (simp add: encode_buf_tail huff_tail_bits word_bits_def)

lemma append_code_nth:
  assumes "n < 2 ^ l" "i < length q + l"
  shows "(q @ msb l n) ! i \<longleftrightarrow> (if i < length q then q ! i else bit n (length q + l - 1 - i))"
  using assms by (auto simp: nth_append msb_nth add.commute)

lemma small_bit: "n < 2 ^ l \<Longrightarrow> l \<le> k \<Longrightarrow> \<not> bit (n :: nat) k"
  by (metis bit_take_bit_iff not_le take_bit_nat_eq_self)

lemma bit_code: "bit (word_of_nat n :: u64) k \<longleftrightarrow> k < 64 \<and> bit n k"
  by (simp add: bit_of_nat_iff)

lemma accumulate:
  assumes "holds buf q" "n < 2 ^ l" "length q + l < 64"
  shows "holds (buf OR push_bit (64 - (length q + l)) (word_of_nat n)) (q @ msb l n)"
  unfolding holds_def
proof (intro allI impI)
  fix i :: nat assume i: "i < 64"
  let ?p = "length q + l"
  have old: "bit buf (63 - i) \<longleftrightarrow> i < length q \<and> q ! i" using assms(1) i by (simp add: holds_def)
  have new: "bit (push_bit (64 - ?p) (word_of_nat n :: u64)) (63 - i) \<longleftrightarrow> i < ?p \<and> bit n (?p - 1 - i)"
    using i assms(3) by (auto simp: bit_push_bit_iff bit_code)
  have none: "\<not> bit n (?p - 1 - i)" if "i < length q" using that by (intro small_bit [OF assms(2)]) simp
  show "bit (buf OR push_bit (64 - ?p) (word_of_nat n)) (63 - i) \<longleftrightarrow> i < length (q @ msb l n) \<and> (q @ msb l n) ! i"
  proof (cases "i < ?p")
    case True
    then show ?thesis using old new none append_code_nth [OF assms(2) True] by (auto simp: bit_or_iff)
  next
    case False
    then show ?thesis using old new by (auto simp: bit_or_iff)
  qed
qed

lemma flush:
  assumes "holds buf q" "length q < 64" "n < 2 ^ l" "l \<le> 30" "64 \<le> length q + l"
  defines "p \<equiv> length q + l - 64"
  shows "word_bits (buf OR drop_bit p (word_of_nat n)) = take 64 (q @ msb l n)"
    "holds (if p \<noteq> 0 then push_bit (64 - p) (word_of_nat n) else 0) (drop 64 (q @ msb l n))"
proof -
  show "word_bits (buf OR drop_bit p (word_of_nat n)) = take 64 (q @ msb l n)"
  proof (rule nth_equalityI)
    fix i assume "i < length (word_bits (buf OR drop_bit p (word_of_nat n)))"
    then have i: "i < 64" by (simp add: word_bits_def)
    have old: "bit buf (63 - i) \<longleftrightarrow> i < length q \<and> q ! i" using assms(1) i by (simp add: holds_def)
    have pos: "p + (63 - i) = length q + l - 1 - i" using i assms(5) by (simp add: p_def)
    have new: "bit (drop_bit p (word_of_nat n :: u64)) (63 - i) \<longleftrightarrow> bit n (length q + l - 1 - i)"
    proof (cases "length q + l - 1 - i < 64")
      case True
      then show ?thesis using pos by (simp add: bit_drop_bit_eq bit_code)
    next
      case False
      then have "\<not> bit n (length q + l - 1 - i)" using assms(4) by (intro small_bit [OF assms(3)]) simp
      then show ?thesis using pos False by (simp add: bit_drop_bit_eq bit_code)
    qed
    have none: "\<not> bit n (length q + l - 1 - i)" if "i < length q"
      using that by (intro small_bit [OF assms(3)]) simp
    have less: "i < length q + l" using i assms(5) by simp
    show "word_bits (buf OR drop_bit p (word_of_nat n)) ! i = take 64 (q @ msb l n) ! i"
      unfolding nth_take [OF i] append_code_nth [OF assms(3) less]
      using i old new none by (auto simp: word_bits_def bit_or_iff)
  qed (use assms(5) in \<open>simp add: word_bits_def\<close>)
  show "holds (if p \<noteq> 0 then push_bit (64 - p) (word_of_nat n) else 0) (drop 64 (q @ msb l n))"
  proof (cases "p = 0")
    case True
    then show ?thesis using assms(5) by (simp add: p_def holds_def)
  next
    case False
    have "bit (push_bit (64 - p) (word_of_nat n :: u64)) (63 - i) \<longleftrightarrow>
        i < length (drop 64 (q @ msb l n)) \<and> drop 64 (q @ msb l n) ! i" if i: "i < 64" for i
    proof (cases "i < p")
      case True
      then have "64 + i < length q + l" by (simp add: p_def)
      note append_code_nth [OF assms(3) this]
      moreover have "drop 64 (q @ msb l n) ! i = (q @ msb l n) ! (64 + i)"
        using assms(5) by (intro nth_drop) simp
      moreover have "length q + l - 1 - (64 + i) = p - 1 - i" by (simp add: p_def)
      ultimately have "drop 64 (q @ msb l n) ! i \<longleftrightarrow> bit n (p - 1 - i)" using assms(2) by (simp only:) simp
      moreover have "p \<le> 30" using assms(2,4) by (simp add: p_def)
      ultimately show ?thesis using i True False by (auto simp: bit_push_bit_iff bit_code p_def)
    next
      case no: False
      moreover have "p \<le> 30" using assms(2,4) by (simp add: p_def)
      ultimately show ?thesis using i False by (auto simp: bit_push_bit_iff p_def)
    qed
    then show ?thesis using False by (simp add: holds_def)
  qed
qed

lemma lower_table:
  "ngx_http_huff_encode_table_lc ! unat c = ngx_http_huff_encode_table ! unat (ngx_tolower c)"
proof -
  have lc: "ngx_http_huff_encode_table_lc
      = map (\<lambda>i. ngx_http_huff_encode_table ! (if 65 \<le> i \<and> i \<le> 90 then i + 32 else i)) [0..<256]"
    unfolding upt_256 ngx_http_huff_encode_table_lc_def by (simp add: symbols del: One_nat_def)
  have low: "unat (ngx_tolower c) = (if 65 \<le> unat c \<and> unat c \<le> 90 then unat c + 32 else unat c)"
  proof -
    have "\<forall>c. unat (ngx_tolower c) = (if 65 \<le> unat c \<and> unat c \<le> 90 then unat c + 32 else unat c)"
      unfolding all_byte by (simp add: ngx_tolower_def upto_rec1) (simp add: word_le_def)
    then show ?thesis by blast
  qed
  have "map f [0..<256] ! unat c = f (unat c)" for f :: "nat \<Rightarrow> huff_encode_code" by simp
  then show ?thesis unfolding lc low .
qed

text \<open>The bits that have gone through the loop, for a table that maps the bytes by \<open>g\<close> first.\<close>

lemma encode_loop:
  assumes table: "\<And>c. table ! unat c = ngx_http_huff_encode_table ! unat (g c)"
  shows "holds buf q \<Longrightarrow> length q < 64 \<Longrightarrow>
    huff_encode_loop table len src dst buf (length q) = Some (dst', buf', pending) \<Longrightarrow>
    \<exists>q'. holds buf' q' \<and> length q' = pending \<and> pending < 64
      \<and> bits_of dst' @ q' = bits_of dst @ q @ codes_of (map g src)
      \<and> (length dst < len \<or> dst = [] \<longrightarrow> length dst' < len \<or> dst' = [])"
proof (induction src arbitrary: dst buf q)
  case (Cons c src)
  obtain n l where entry: "ngx_http_huff_encode_table ! unat (g c) = (n, l)" "n < 2 ^ l" "5 \<le> l" "l \<le> 30"
      "sym_bits (unat (g c)) = msb l n"
    using symbol_entry [of "unat (g c)"] by (metis byte_unat_range)
  show ?case
  proof (cases "length q + l < 64")
    case True
    let ?buf = "buf OR push_bit (64 - (length q + l)) (word_of_nat n)"
    have "holds ?buf (q @ msb l n)" using accumulate [OF Cons.prems(1) entry(2) True] .
    then show ?thesis using Cons.IH [of ?buf "q @ msb l n" dst] Cons.prems(3) True entry
      by (simp add: table Let_def)
  next
    case False
    then have long: "64 \<le> length q + l" by simp
    let ?p = "length q + l - 64"
    let ?out = "ngx_http_huff_encode_buf (buf OR drop_bit ?p (word_of_nat n))"
    let ?buf = "if ?p \<noteq> 0 then push_bit (64 - ?p) (word_of_nat n) else 0"
    let ?q = "drop 64 (q @ msb l n)"
    note f = flush [OF Cons.prems(1,2) entry(2,4) long]
    have room: "length dst + 8 < len"
      using Cons.prems(3) False entry(1) by (simp add: table Let_def split: if_splits)
    have rest: "huff_encode_loop table len src (dst @ ?out) ?buf (length ?q) = Some (dst', buf', pending)"
    proof -
      have "\<not> len \<le> length dst + 8" "length ?q = ?p" using room assms by simp_all
      then show ?thesis using Cons.prems(3) False
        by (simp only: huff_encode_loop.simps Let_def table entry(1) fst_conv snd_conv if_False)
    qed
    have len: "length ?q < 64" using Cons.prems(2) entry(4) by simp
    have out: "bits_of ?out @ ?q = q @ msb l n" using f(1) by (simp only: encode_buf_bits append_take_drop_id)
    have eight: "length (dst @ ?out) = length dst + 8" by (simp add: encode_buf_tail)
    obtain q' where q': "holds buf' q'" "length q' = pending" "pending < 64"
        "bits_of dst' @ q' = bits_of (dst @ ?out) @ ?q @ codes_of (map g src)"
        "length (dst @ ?out) < len \<or> dst @ ?out = [] \<longrightarrow> length dst' < len \<or> dst' = []"
      using Cons.IH [OF f(2) len rest] by blast
    have "bits_of (dst @ ?out) @ ?q @ codes_of (map g src) = bits_of dst @ q @ codes_of (map g (c # src))"
      using out entry(5) by (metis append.assoc bits_of_simps(3) codes_of_simps(2) list.simps(9))
    then show ?thesis using q' room eight by auto
  qed
qed simp

lemma encode_tail:
  assumes "holds buf q" "length q < 64"
  shows "bits_of (huff_tail (drop_bit (64 - (length q + 7) div 8 * 8) (buf OR drop_bit (length q) (- 1))) ((length q + 7) div 8))
    = q @ replicate ((length q + 7) div 8 * 8 - length q) True"
proof -
  let ?k = "(length q + 7) div 8"
  let ?w = "buf OR drop_bit (length q) (- 1)"
  have k: "8 * ?k \<le> 64" "length q \<le> 8 * ?k" using assms(2) by simp_all
  have "bit (drop_bit (64 - ?k * 8) ?w) (8 * ?k - 1 - i) \<longleftrightarrow> (i < length q \<longrightarrow> q ! i)" if i: "i < 8 * ?k" for i
  proof -
    have less: "i < 64" using i k(1) by simp
    have "64 - ?k * 8 + (8 * ?k - 1 - i) = 63 - i" using i k(1) by simp
    then have "bit (drop_bit (64 - ?k * 8) ?w) (8 * ?k - 1 - i) \<longleftrightarrow> bit ?w (63 - i)"
      by (simp only: bit_drop_bit_eq comp_def)
    also have "\<dots> \<longleftrightarrow> (i < length q \<and> q ! i) \<or> length q \<le> i"
      using assms less by (auto simp: holds_def bit_or_iff bit_drop_bit_eq bit_mask_iff)
    finally show ?thesis by auto
  qed
  then show ?thesis
    by (intro nth_equalityI) (use k in \<open>auto simp: huff_tail_bits nth_append mult.commute\<close>)
qed

lemma encode_bits:
  assumes "ngx_http_huff_encode src lower \<noteq> []"
  shows "\<exists>k<8. bits_of (ngx_http_huff_encode src lower)
      = codes_of (if lower then ngx_strlow src else src) @ replicate k True"
    and "length (ngx_http_huff_encode src lower) < length src"
proof -
  let ?table = "if lower then ngx_http_huff_encode_table_lc else ngx_http_huff_encode_table"
  let ?g = "if lower then ngx_tolower else id"
  have table: "?table ! unat c = ngx_http_huff_encode_table ! unat (?g c)" for c
    by (simp add: lower_table)
  obtain dst buf pending where loop: "huff_encode_loop ?table (length src) src [] 0 0 = Some (dst, buf, pending)"
    using assms by (auto simp: ngx_http_huff_encode_def split: option.splits)
  have zero: "holds 0 []" by (simp add: holds_def)
  obtain q where q: "holds buf q" "length q = pending" "pending < 64" "bits_of dst @ q = codes_of (map ?g src)"
      "length dst < length src \<or> dst = []"
    using encode_loop [OF table zero, of "length src" src "[]" dst buf pending] loop by auto
  have src: "map ?g src = (if lower then ngx_strlow src else src)" by (simp add: ngx_strlow_def)
  have "(\<exists>k<8. bits_of (ngx_http_huff_encode src lower) = codes_of (map ?g src) @ replicate k True)
      \<and> length (ngx_http_huff_encode src lower) < length src"
  proof (cases "pending = 0")
    case True
    then have "ngx_http_huff_encode src lower = dst" using loop by (simp add: ngx_http_huff_encode_def)
    then show ?thesis using q assms True by auto
  next
    case False
    let ?k = "(pending + 7) div 8"
    have "ngx_http_huff_encode src lower
        = dst @ huff_tail (drop_bit (64 - ?k * 8) (buf OR drop_bit pending (- 1))) ?k"
      "length dst + ?k < length src"
      using loop assms False by (auto simp: ngx_http_huff_encode_def Let_def split: if_splits)
    moreover have "?k * 8 - pending < 8" by simp
    ultimately show ?thesis using encode_tail [OF q(1)] q(2,3) q(4) [symmetric]
      by (intro conjI exI [of _ "?k * 8 - pending"]) simp_all
  qed
  then show "\<exists>k<8. bits_of (ngx_http_huff_encode src lower)
      = codes_of (if lower then ngx_strlow src else src) @ replicate k True"
    "length (ngx_http_huff_encode src lower) < length src" by (simp_all add: src)
qed

text \<open>C10: The Huffman coding of header fields loses nothing.  When the encoder finds that the code of a string is
  shorter than the string, its output, cut into any pieces, is decoded to the string again, or to its
  lower-case form where that was asked for; and the output is shorter.\<close>

theorem huff_round_trip:
  assumes "ngx_http_huff_encode src lower \<noteq> []" "concat ps = ngx_http_huff_encode src lower" "last ps \<noteq> []"
  shows "huff_decode_pieces 0 ps [] = (NGX_OK, if lower then ngx_strlow src else src)
    \<and> length (concat ps) < length src"
proof -
  let ?out = "if lower then ngx_strlow src else src"
  obtain k where k: "k < 8" "bits_of (concat ps) = codes_of ?out @ replicate k True"
    using encode_bits(1) [OF assms(1)] unfolding assms(2) by blast
  obtain t where ones: "run 0 (replicate k True) = Some (t, [])" "padding t"
    using run_ones [of k] k(1) by auto
  have ne: "ps \<noteq> []" using assms(1,2) by auto
  have "run 0 (bits_of (concat ps)) = Some (t, map unat ?out)"
    using k(2) ones(1) by (simp add: run_join run_codes)
  then show ?thesis
    using pieces_run [OF _ ne assms(3), of 0 "[]"] ones(2) encode_bits(2) [OF assms(1)] assms(2) by (simp add: comp_def)
qed

text \<open>Four letters with codes of five bits, and four ones.\<close>

lemma encode_site: "ngx_http_huff_encode (bytes ''site'') False = [0x41, 0x92, 0x5f]"
proof -
  have "huff_encode_loop ngx_http_huff_encode_table (length (bytes ''site'')) (bytes ''site'') [] 0 0 = Some ([], 0x41925 * 2 ^ 44, 20)"
    by (simp add: symbols Let_def)
  then show ?thesis
    by (simp add: ngx_http_huff_encode_def Let_def numeral_3_eq_3 mask_eq_exp_minus_1 del: huff_encode_loop.simps)
qed

lemma huff_round_trip_witness:
  "huff_decode_pieces 0 [[0x41], [0x92, 0x5f]] [] = (NGX_OK, bytes ''site'')"
proof -
  have "concat [[0x41], [0x92, 0x5f]] = ngx_http_huff_encode (bytes ''site'') False" unfolding encode_site by simp
  then show ?thesis
    using huff_round_trip [where src = "bytes ''site''" and lower = False and ps = "[[0x41], [0x92, 0x5f]]"]
    unfolding encode_site by simp
qed

end
