(* ===== verification/Ngx_Http_V2_Int.thy ===== *)
theory Ngx_Http_V2_Int
  imports Ngx_Http_Huff
begin

text \<open>
  The numbers and the strings of HTTP/2 header fields: the writers of \<^verbatim>\<open>http/v2/ngx_http_v2_encode.c\<close> and
  the reader of numbers of \<^verbatim>\<open>http/v2/ngx_http_v2.c\<close>.  A prefix is given as its greatest value.
\<close>

section \<open>Writing\<close>

definition ngx_http_v2_prefix :: "nat \<Rightarrow> nat" where
  "ngx_http_v2_prefix bits = 2 ^ bits - 1"

text \<open>\<^verbatim>\<open>while (value >= 128) { ... } *pos++ = (u_char) value;\<close>\<close>

fun int_octets :: "nat \<Rightarrow> u8 list" where
  "int_octets v =
     (if v \<ge> 128 then word_of_nat (v mod 128 + 128) # int_octets (v div 128) else [word_of_nat v])"

declare int_octets.simps [simp del]

text \<open>The first byte already has the bits before the prefix.\<close>

definition ngx_http_v2_write_int :: "u8 \<Rightarrow> nat \<Rightarrow> nat \<Rightarrow> u8 list" where
  "ngx_http_v2_write_int first prefix v =
     (if v < prefix then [first OR word_of_nat v]
      else (first OR word_of_nat prefix) # int_octets (v - prefix))"

definition NGX_HTTP_V2_ENCODE_RAW :: u8 where
  "NGX_HTTP_V2_ENCODE_RAW = 0"

definition NGX_HTTP_V2_ENCODE_HUFF :: u8 where
  "NGX_HTTP_V2_ENCODE_HUFF = 0x80"

definition ngx_http_v2_string_encode :: "u8 list \<Rightarrow> bool \<Rightarrow> u8 list" where
  "ngx_http_v2_string_encode src lower =
     (let tmp = ngx_http_huff_encode src lower;
          hlen = length tmp in
      if hlen > 0 then ngx_http_v2_write_int NGX_HTTP_V2_ENCODE_HUFF (ngx_http_v2_prefix 7) hlen @ tmp
      else ngx_http_v2_write_int NGX_HTTP_V2_ENCODE_RAW (ngx_http_v2_prefix 7) (length src)
        @ (if lower then ngx_strlow src else src))"

section \<open>Reading\<close>

definition NGX_HTTP_V2_INT_OCTETS :: nat where
  "NGX_HTTP_V2_INT_OCTETS = 4"

text \<open>The loop over the octets before \<^verbatim>\<open>end\<close>: the value and \<^verbatim>\<open>p - start\<close>, or \<open>None\<close> when none is the last.\<close>

fun int_loop :: "nat \<Rightarrow> nat \<Rightarrow> nat \<Rightarrow> u8 list \<Rightarrow> (nat \<times> nat) option" where
  "int_loop v shift n [] = None"
| "int_loop v shift n (octet # cs) =
     (let v = v + push_bit shift (unat (octet AND 0x7f)) in
      if octet < 128 then Some (v, n + 1) else int_loop v (shift + 7) (n + 1) cs)"

text \<open>
  From the bytes between \<^verbatim>\<open>*pos\<close> and \<^verbatim>\<open>end\<close>, of which there is one at least, and \<^verbatim>\<open>h2c->state.length\<close>: the
  value, by how much \<^verbatim>\<open>*pos\<close> advances, and the new length.
\<close>

definition ngx_http_v2_parse_int :: "nat \<Rightarrow> u8 list \<Rightarrow> nat \<Rightarrow> ngx_rc + (nat \<times> nat \<times> nat)" where
  "ngx_http_v2_parse_int len inp prefix =
     (let v = unat (hd inp AND word_of_nat prefix) in
      if v \<noteq> prefix then (if len = 0 then Inl NGX_ERROR else Inr (v, 1, len - 1))
      else
        let octets = take NGX_HTTP_V2_INT_OCTETS inp in
        case int_loop v 0 1 (tl octets) of
          Some (v, n) \<Rightarrow> if n > len then Inl NGX_ERROR else Inr (v, n, len - n)
        | None \<Rightarrow>
            if length octets \<ge> len then Inl NGX_ERROR
            else if length octets = NGX_HTTP_V2_INT_OCTETS then Inl NGX_DECLINED
            else Inl NGX_AGAIN)"

section \<open>What is written is read\<close>

lemma low_bits: "unat (c AND 0x7f :: u8) = unat c mod 128"
proof -
  have "c AND 0x7f = c mod 128"
    using take_bit_eq_mask [of 7 c] by (simp add: take_bit_eq_mod mask_eq_exp_minus_1)
  then show ?thesis by (simp add: unat_mod_distrib)
qed

lemma unat_byte: "n < 256 \<Longrightarrow> unat (word_of_nat n :: u8) = n"
  by (simp add: unsigned_of_nat take_bit_nat_eq_self)

lemma octet_more: "v < 128 \<Longrightarrow> \<not> word_of_nat (v + 128) < (128 :: u8) \<and> unat ((word_of_nat (v + 128) :: u8) AND 0x7f) = v"
proof -
  assume v: "v < 128"
  then have "unat (word_of_nat (v + 128) :: u8) = v + 128" by (intro unat_byte) simp
  then show ?thesis using v unfolding low_bits word_less_nat_alt by simp
qed

lemma octet_last: "v < 128 \<Longrightarrow> word_of_nat v < (128 :: u8) \<and> unat ((word_of_nat v :: u8) AND 0x7f) = v"
  by (simp add: low_bits word_less_nat_alt unat_of_nat)

lemma int_loop_octets:
  "int_loop v shift n (int_octets d @ rest) = Some (v + d * 2 ^ shift, n + length (int_octets d))"
proof (induction d arbitrary: v shift n rule: int_octets.induct)
  case (1 d)
  show ?case
  proof (cases "d \<ge> 128")
    case True
    have "d mod 128 * 2 ^ shift + d div 128 * 2 ^ (shift + 7) = (d mod 128 + d div 128 * 128) * 2 ^ shift"
      unfolding power_add distrib_right by simp
    then have "d mod 128 * 2 ^ shift + d div 128 * 2 ^ (shift + 7) = d * 2 ^ shift"
      by (simp only: mod_div_mult_eq)
    then show ?thesis using True 1 [OF True] octet_more [of "d mod 128"]
      by (simp add: int_octets.simps [of d] push_bit_eq_mult)
  next
    case False
    then show ?thesis using octet_last [of d] by (simp add: int_octets.simps [of d] push_bit_eq_mult)
  qed
qed

lemma length_octets: "d < 2 ^ 21 \<Longrightarrow> length (int_octets d) \<le> 3"
proof -
  have one: "d < 128 \<Longrightarrow> length (int_octets d) = 1" for d by (simp add: int_octets.simps [of d])
  have two: "d < 2 ^ 14 \<Longrightarrow> length (int_octets d) \<le> 2" for d
    using one [of "d div 128"] one [of d] by (cases "d < 128") (auto simp: int_octets.simps [of d])
  show "d < 2 ^ 21 \<Longrightarrow> length (int_octets d) \<le> 3"
    using two [of "d div 128"] one [of d] by (cases "d < 128") (auto simp: int_octets.simps [of d])
qed

text \<open>A prefix of \<open>k\<close> bits, and a byte that has only bits above them.\<close>

lemma prefix_bits:
  assumes "k \<le> 7" "first AND word_of_nat (ngx_http_v2_prefix k) = (0 :: u8)" "v \<le> ngx_http_v2_prefix k"
  shows "unat ((first OR word_of_nat v) AND word_of_nat (ngx_http_v2_prefix k) :: u8) = v"
proof -
  have p: "(word_of_nat (ngx_http_v2_prefix k) :: u8) = mask k"
    by (simp add: ngx_http_v2_prefix_def mask_eq_exp_minus_1 of_nat_diff)
  have v: "v < 2 ^ k" using assms(3) by (simp add: ngx_http_v2_prefix_def) (metis Suc_pred le_imp_less_Suc zero_less_numeral zero_less_power)
  have "(first OR word_of_nat v) AND mask k = take_bit k (word_of_nat v)"
    using assms(2) unfolding p by (simp add: bit.conj_disj_distrib2 take_bit_eq_mask)
  also have "unat (take_bit k (word_of_nat v :: u8)) = take_bit k (unat (word_of_nat v :: u8))"
    by (simp add: unsigned_take_bit_eq)
  also have "unat (word_of_nat v :: u8) = v"
  proof (rule unat_byte)
    have "(2 :: nat) ^ k \<le> 2 ^ 8" using assms(1) by (intro power_increasing) simp_all
    then show "v < 256" using v by simp
  qed
  finally show ?thesis using v unfolding p by (simp add: take_bit_nat_eq_self)
qed

lemma parse_written:
  assumes "k \<le> 7" "first AND word_of_nat (ngx_http_v2_prefix k) = (0 :: u8)" "v < ngx_http_v2_prefix k + 2 ^ 21"
    and "w = ngx_http_v2_write_int first (ngx_http_v2_prefix k) v"
  shows "ngx_http_v2_parse_int len (w @ rest) (ngx_http_v2_prefix k)
      = (if length w \<le> len then Inr (v, length w, len - length w) else Inl NGX_ERROR)"
    "length w \<le> 4" "w \<noteq> []"
proof -
  let ?p = "ngx_http_v2_prefix k"
  have "ngx_http_v2_parse_int len (w @ rest) ?p
      = (if length w \<le> len then Inr (v, length w, len - length w) else Inl NGX_ERROR) \<and> length w \<le> 4 \<and> w \<noteq> []"
  proof (cases "v < ?p")
    case True
    then have w: "w = [first OR word_of_nat v]" using assms(4) by (simp add: ngx_http_v2_write_int_def)
    have "unat ((first OR word_of_nat v) AND word_of_nat ?p) = v" using True assms by (intro prefix_bits) auto
    then show ?thesis using True by (auto simp: w ngx_http_v2_parse_int_def Let_def)
  next
    case False
    let ?d = "v - ?p"
    have w: "w = (first OR word_of_nat ?p) # int_octets ?d" using False assms(4) by (simp add: ngx_http_v2_write_int_def)
    have short: "length (int_octets ?d) \<le> 3"
      using length_octets [of ?d] assms(3) False by simp
    have "unat ((first OR word_of_nat ?p) AND word_of_nat ?p) = ?p" using assms by (intro prefix_bits) auto
    moreover have "tl (take 4 (w @ rest)) = int_octets ?d @ take (3 - length (int_octets ?d)) rest"
      using short by (simp add: w)
    ultimately show ?thesis using short False
      by (auto simp: w ngx_http_v2_parse_int_def NGX_HTTP_V2_INT_OCTETS_def Let_def int_loop_octets)
  qed
  then show "ngx_http_v2_parse_int len (w @ rest) ?p
      = (if length w \<le> len then Inr (v, length w, len - length w) else Inl NGX_ERROR)"
    "length w \<le> 4" "w \<noteq> []" by blast+
qed

end
