(* ===== verification/Ngx_Http_V2_Table.thy ===== *)
theory Ngx_Http_V2_Table
  imports Ngx_Prelude
begin

text \<open>
  The table of header fields of an HTTP/2 connection, \<^verbatim>\<open>http/v2/ngx_http_v2_table.c\<close>: the static
  entries, and the dynamic ones in a ring of 4096 bytes with a ring of pointers to records that are
  used again.  Pointers into the storage are offsets, 4096 being the one behind its end; an entry of the
  ring of pointers is an index into the records allocated so far.  Counters and sizes are natural
  numbers: they are bounded by the storage, but for the counters of additions and deletions, which
  would wrap around after 2 to the 64 headers.
\<close>

section \<open>The state\<close>

type_synonym header = "ngx_str \<times> ngx_str"

definition NGX_HTTP_V2_TABLE_SIZE :: nat where
  "NGX_HTTP_V2_TABLE_SIZE = 4096"

record table_entry =
  name_len :: nat
  name_data :: nat
  value_len :: nat
  value_data :: nat

record hpack =
  hp_entries :: "nat list option"
  hp_added :: nat
  hp_deleted :: nat
  hp_reused :: nat
  hp_allocated :: nat
  hp_size :: nat
  hp_free :: nat
  hp_storage :: "u8 list"
  hp_pos :: nat
  hp_records :: "table_entry list"

text \<open>The state of a new connection, zeroed by \<^verbatim>\<open>ngx_pcalloc\<close>; \<^verbatim>\<open>NULL\<close> for the entries is \<open>None\<close>.\<close>

definition new_hpack :: hpack where
  "new_hpack = \<lparr>hp_entries = None, hp_added = 0, hp_deleted = 0, hp_reused = 0, hp_allocated = 0,
     hp_size = 0, hp_free = 0, hp_storage = [], hp_pos = 0, hp_records = []\<rparr>"

text \<open>The allocations of the file, each of which may return \<^verbatim>\<open>NULL\<close>.\<close>

datatype allocation = Entries | Storage | Record | Growth | Name | Value

section \<open>The static table\<close>

definition ngx_http_v2_static_table :: "header list" where
  "ngx_http_v2_static_table =
  [(bytes '':authority'', bytes ''''),
   (bytes '':method'', bytes ''GET''),
   (bytes '':method'', bytes ''POST''),
   (bytes '':path'', bytes ''/''),
   (bytes '':path'', bytes ''/index.html''),
   (bytes '':scheme'', bytes ''http''),
   (bytes '':scheme'', bytes ''https''),
   (bytes '':status'', bytes ''200''),
   (bytes '':status'', bytes ''204''),
   (bytes '':status'', bytes ''206''),
   (bytes '':status'', bytes ''304''),
   (bytes '':status'', bytes ''400''),
   (bytes '':status'', bytes ''404''),
   (bytes '':status'', bytes ''500''),
   (bytes ''accept-charset'', bytes ''''),
   (bytes ''accept-encoding'', bytes ''gzip, deflate''),
   (bytes ''accept-language'', bytes ''''),
   (bytes ''accept-ranges'', bytes ''''),
   (bytes ''accept'', bytes ''''),
   (bytes ''access-control-allow-origin'', bytes ''''),
   (bytes ''age'', bytes ''''),
   (bytes ''allow'', bytes ''''),
   (bytes ''authorization'', bytes ''''),
   (bytes ''cache-control'', bytes ''''),
   (bytes ''content-disposition'', bytes ''''),
   (bytes ''content-encoding'', bytes ''''),
   (bytes ''content-language'', bytes ''''),
   (bytes ''content-length'', bytes ''''),
   (bytes ''content-location'', bytes ''''),
   (bytes ''content-range'', bytes ''''),
   (bytes ''content-type'', bytes ''''),
   (bytes ''cookie'', bytes ''''),
   (bytes ''date'', bytes ''''),
   (bytes ''etag'', bytes ''''),
   (bytes ''expect'', bytes ''''),
   (bytes ''expires'', bytes ''''),
   (bytes ''from'', bytes ''''),
   (bytes ''host'', bytes ''''),
   (bytes ''if-match'', bytes ''''),
   (bytes ''if-modified-since'', bytes ''''),
   (bytes ''if-none-match'', bytes ''''),
   (bytes ''if-range'', bytes ''''),
   (bytes ''if-unmodified-since'', bytes ''''),
   (bytes ''last-modified'', bytes ''''),
   (bytes ''link'', bytes ''''),
   (bytes ''location'', bytes ''''),
   (bytes ''max-forwards'', bytes ''''),
   (bytes ''proxy-authenticate'', bytes ''''),
   (bytes ''proxy-authorization'', bytes ''''),
   (bytes ''range'', bytes ''''),
   (bytes ''referer'', bytes ''''),
   (bytes ''refresh'', bytes ''''),
   (bytes ''retry-after'', bytes ''''),
   (bytes ''server'', bytes ''''),
   (bytes ''set-cookie'', bytes ''''),
   (bytes ''strict-transport-security'', bytes ''''),
   (bytes ''transfer-encoding'', bytes ''''),
   (bytes ''user-agent'', bytes ''''),
   (bytes ''vary'', bytes ''''),
   (bytes ''via'', bytes ''''),
   (bytes ''www-authenticate'', bytes '''')]"

definition NGX_HTTP_V2_STATIC_TABLE_ENTRIES :: nat where
  "NGX_HTTP_V2_STATIC_TABLE_ENTRIES = length ngx_http_v2_static_table"

lemma static_entries: "NGX_HTTP_V2_STATIC_TABLE_ENTRIES = 61"
  by (simp add: NGX_HTTP_V2_STATIC_TABLE_ENTRIES_def ngx_http_v2_static_table_def)

definition ngx_http_v2_get_static_name :: "nat \<Rightarrow> ngx_str" where
  "ngx_http_v2_get_static_name index = fst (ngx_http_v2_static_table ! (index - 1))"

definition ngx_http_v2_get_static_value :: "nat \<Rightarrow> ngx_str" where
  "ngx_http_v2_get_static_value index = snd (ngx_http_v2_static_table ! (index - 1))"

section \<open>Reading\<close>

text \<open>The two ways of copying \<open>n\<close> bytes from the offset \<open>off\<close>.\<close>

definition copy_out :: "u8 list \<Rightarrow> nat \<Rightarrow> nat \<Rightarrow> u8 list" where
  "copy_out s off n =
     (let rest = NGX_HTTP_V2_TABLE_SIZE - off in
      if n > rest then take rest (drop off s) @ take (n - rest) s else take n (drop off s))"

definition slot :: "hpack \<Rightarrow> nat \<Rightarrow> nat" where
  "slot h i = the (hp_entries h) ! (i mod hp_allocated h)"

text \<open>The return code, and \<^verbatim>\<open>h2c->state.header\<close> after the call.\<close>

definition ngx_http_v2_get_indexed_header ::
    "(allocation \<Rightarrow> bool) \<Rightarrow> hpack \<Rightarrow> nat \<Rightarrow> bool \<Rightarrow> header \<Rightarrow> ngx_rc \<times> header" where
  "ngx_http_v2_get_indexed_header null h index name_only header =
     (if index = 0 then (NGX_ERROR, header)
      else
        let index = index - 1 in
        if index < NGX_HTTP_V2_STATIC_TABLE_ENTRIES then (NGX_OK, ngx_http_v2_static_table ! index)
        else
          let index = index - NGX_HTTP_V2_STATIC_TABLE_ENTRIES in
          if index < hp_added h - hp_deleted h then
            let e = hp_records h ! slot h (hp_added h - index - 1) in
            if null Name then (NGX_ERROR, header)
            else
              let name = copy_out (hp_storage h) (name_data e) (name_len e) in
              if name_only then (NGX_OK, (name, snd header))
              else if null Value then (NGX_ERROR, (name, snd header))
              else (NGX_OK, (name, copy_out (hp_storage h) (value_data e) (value_len e)))
          else (NGX_ERROR, header))"

section \<open>Eviction\<close>

text \<open>\<^verbatim>\<open>do { ... } while (size > h2c->hpack.free)\<close>: each round frees 32 bytes at least.\<close>

definition evict_one :: "hpack \<Rightarrow> hpack" where
  "evict_one h =
     (let e = hp_records h ! slot h (hp_deleted h) in
      h\<lparr>hp_deleted := hp_deleted h + 1, hp_free := hp_free h + (32 + name_len e + value_len e)\<rparr>)"

function evict :: "nat \<Rightarrow> hpack \<Rightarrow> hpack" where
  "evict wanted h = (let h = evict_one h in if wanted > hp_free h then evict wanted h else h)"
  by pat_completeness auto
termination
  by (relation "measure (\<lambda>(wanted, h). wanted - hp_free h)") (auto simp: evict_one_def Let_def)

declare evict.simps [simp del]

definition ngx_http_v2_table_account :: "hpack \<Rightarrow> nat \<Rightarrow> ngx_rc \<times> hpack" where
  "ngx_http_v2_table_account h len =
     (let len = len + 32 in
      if len \<le> hp_free h then (NGX_OK, h\<lparr>hp_free := hp_free h - len\<rparr>)
      else if len > hp_size h then (NGX_DECLINED, h\<lparr>hp_deleted := hp_added h, hp_free := hp_size h\<rparr>)
      else let h = evict len h in (NGX_OK, h\<lparr>hp_free := hp_free h - len\<rparr>))"

definition ngx_http_v2_table_size :: "hpack \<Rightarrow> nat \<Rightarrow> ngx_rc \<times> hpack" where
  "ngx_http_v2_table_size h len =
     (if len > NGX_HTTP_V2_TABLE_SIZE then (NGX_ERROR, h)
      else
        let needed = int (hp_size h) - int len;
            h = (if needed > int (hp_free h) then evict (nat needed) h else h) in
        (NGX_OK, h\<lparr>hp_size := len, hp_free := nat (int (hp_free h) - needed)\<rparr>))"

section \<open>Insertion\<close>

text \<open>\<^verbatim>\<open>ngx_memcpy\<close> into the storage, and a string written with \<open>avail\<close> bytes before the wrap.\<close>

definition poke :: "u8 list \<Rightarrow> nat \<Rightarrow> u8 list \<Rightarrow> u8 list" where
  "poke s off w = take off s @ w @ drop (off + length w) s"

definition put_string :: "u8 list \<Rightarrow> nat \<Rightarrow> nat \<Rightarrow> u8 list \<Rightarrow> u8 list \<times> nat" where
  "put_string s pos avail w =
     (if avail \<ge> length w then (poke s pos w, pos + length w)
      else (poke (poke s pos (take avail w)) 0 (drop avail w), length w - avail))"

text \<open>
  The first insertion makes the ring; a failed allocation leaves what was done before it.  The contents of
  new memory, which nothing reads before it is written, are zeros here.
\<close>

definition make_ring :: "(allocation \<Rightarrow> bool) \<Rightarrow> hpack \<Rightarrow> bool \<times> hpack" where
  "make_ring null h =
     (if hp_entries h \<noteq> None then (True, h)
      else
        let h = h\<lparr>hp_allocated := 64, hp_size := NGX_HTTP_V2_TABLE_SIZE, hp_free := NGX_HTTP_V2_TABLE_SIZE\<rparr> in
        if null Entries then (False, h)
        else
          let h = h\<lparr>hp_entries := Some (replicate (hp_allocated h) 0)\<rparr> in
          if null Storage then (False, h)
          else (True, h\<lparr>hp_storage := replicate (hp_free h) 0, hp_pos := 0\<rparr>))"

text \<open>A record of a deleted entry, or a new one.\<close>

definition take_record :: "hpack \<Rightarrow> nat \<times> hpack" where
  "take_record h =
     (if hp_reused h = hp_deleted h then
        (length (hp_records h), h\<lparr>hp_records := hp_records h @ [\<lparr>name_len = 0, name_data = 0, value_len = 0, value_data = 0\<rparr>]\<rparr>)
      else (slot h (hp_reused h), h\<lparr>hp_reused := hp_reused h + 1\<rparr>))"

definition fill_record :: "nat \<Rightarrow> header \<Rightarrow> hpack \<Rightarrow> hpack" where
  "fill_record e header h =
     (case header of (name, value) \<Rightarrow>
        let avail = NGX_HTTP_V2_TABLE_SIZE - hp_pos h;
            at_name = hp_pos h in
        case put_string (hp_storage h) at_name avail name of (s, at_value) \<Rightarrow>
        let avail = (if avail \<ge> length name then avail else NGX_HTTP_V2_TABLE_SIZE) - length name in
        case put_string s at_value avail value of (s, pos) \<Rightarrow>
        h\<lparr>hp_storage := s, hp_pos := pos,
          hp_records := (hp_records h)[e := \<lparr>name_len = length name, name_data = at_name,
             value_len = length value, value_data = at_value\<rparr>]\<rparr>)"

definition grow :: "hpack \<Rightarrow> hpack" where
  "grow h =
     (let es = the (hp_entries h);
          index = hp_deleted h mod hp_allocated h in
      h\<lparr>hp_entries := Some (drop index es @ take index es @ replicate 64 0),
        hp_added := hp_allocated h, hp_deleted := 0, hp_reused := 0,
        hp_allocated := hp_allocated h + 64\<rparr>)"

definition append_entry :: "nat \<Rightarrow> hpack \<Rightarrow> hpack" where
  "append_entry e h =
     h\<lparr>hp_entries := Some ((the (hp_entries h))[hp_added h mod hp_allocated h := e]),
       hp_added := hp_added h + 1\<rparr>"

definition ngx_http_v2_add_header :: "(allocation \<Rightarrow> bool) \<Rightarrow> hpack \<Rightarrow> header \<Rightarrow> ngx_rc \<times> hpack" where
  "ngx_http_v2_add_header null h header =
     (case make_ring null h of
        (False, h) \<Rightarrow> (NGX_ERROR, h)
      | (True, h) \<Rightarrow>
          (case ngx_http_v2_table_account h (length (fst header) + length (snd header)) of (rc, h) \<Rightarrow>
             if rc \<noteq> NGX_OK then (NGX_OK, h)
             else if hp_reused h = hp_deleted h \<and> null Record then (NGX_ERROR, h)
             else
               (case take_record h of (e, h) \<Rightarrow>
                  let h = fill_record e header h in
                  if hp_allocated h = hp_added h - hp_deleted h then
                    if null Growth then (NGX_ERROR, h) else (NGX_OK, append_entry e (grow h))
                  else (NGX_OK, append_entry e h))))"

section \<open>The ring of bytes\<close>

text \<open>\<open>n\<close> bytes of the ring from an offset on.\<close>

definition ring :: "u8 list \<Rightarrow> nat \<Rightarrow> nat \<Rightarrow> u8 list" where
  "ring s off n = map (\<lambda>i. s ! ((off + i) mod 4096)) [0..<n]"

lemma length_ring [simp]: "length (ring s off n) = n"
  by (simp add: ring_def)

lemma mod_ring: "j < 8192 \<Longrightarrow> j mod 4096 = (if j < 4096 then j else j - 4096 :: nat)"
  by (simp add: le_mod_geq)

lemma copy_out_ring:
  assumes "length s = 4096" "off \<le> 4096" "n \<le> 4096"
  shows "copy_out s off n = ring s off n"
proof (rule nth_equalityI)
  show "length (copy_out s off n) = length (ring s off n)"
    using assms by (auto simp: copy_out_def NGX_HTTP_V2_TABLE_SIZE_def Let_def)
  fix i assume "i < length (copy_out s off n)"
  then have i: "i < n" using assms by (auto simp: copy_out_def NGX_HTTP_V2_TABLE_SIZE_def Let_def split: if_splits)
  show "copy_out s off n ! i = ring s off n ! i"
  proof (cases "i < 4096 - off")
    case True
    then show ?thesis using i assms
      by (simp add: copy_out_def NGX_HTTP_V2_TABLE_SIZE_def ring_def nth_append Let_def)
  next
    case False
    then obtain k where "i = 4096 - off + k" by (metis le_add_diff_inverse not_less)
    moreover obtain r where r: "off + r = 4096" "4096 - off = r" using assms(2) that [of "4096 - off"] by simp
    ultimately have k: "i = r + k" "off + i = 4096 + k" by auto
    have "k < 4096" using k(1) i assms(3) by simp
    moreover have "off + (r + k) = 4096 + k" using r by simp
    ultimately have m: "(off + (r + k)) mod 4096 = k" by (simp only: mod_add_self1 mod_less)
    then show ?thesis using i assms k(1) r
      by (simp add: copy_out_def NGX_HTTP_V2_TABLE_SIZE_def ring_def nth_append Let_def)
  qed
qed

text \<open>How far behind \<open>pos\<close> an offset is.\<close>

definition behind :: "nat \<Rightarrow> nat \<Rightarrow> nat" where
  "behind pos j = (j + 4096 - pos) mod 4096"

lemma length_poke [simp]: "off + length w \<le> length s \<Longrightarrow> length (poke s off w) = length s"
  by (simp add: poke_def)

lemma nth_poke:
  "off + length w \<le> length s \<Longrightarrow> poke s off w ! j = (if off \<le> j \<and> j < off + length w then w ! (j - off) else s ! j)"
  by (auto simp: poke_def nth_append)

lemma put_ring:
  assumes "length s = 4096" "pos \<le> 4096" "length w \<le> 4096"
    and "length w \<le> avail \<and> avail \<le> 4096 - pos \<or> avail = 4096 - pos"
    and "put_string s pos avail w = (s', pos')"
  shows "length s' = 4096" "pos' \<le> 4096" "(pos + length w) mod 4096 = pos' mod 4096"
    "\<And>j. j < 4096 \<Longrightarrow> s' ! j = (if behind pos j < length w then w ! behind pos j else s ! j)"
proof -
  show "length s' = 4096" "pos' \<le> 4096"
    using assms by (auto simp: put_string_def split: if_splits)
  show "(pos + length w) mod 4096 = pos' mod 4096"
  proof (cases "length w \<le> avail")
    case True
    then show ?thesis using assms(5) by (simp add: put_string_def)
  next
    case False
    then have "pos + length w = pos' + 4096" using assms(2-5) by (auto simp: put_string_def)
    then show ?thesis by simp
  qed
  fix j :: nat assume j: "j < 4096"
  have b: "behind pos j = (if pos \<le> j then j - pos else j + (4096 - pos))"
    using j assms(2) by (simp add: behind_def mod_ring)
  show "s' ! j = (if behind pos j < length w then w ! behind pos j else s ! j)"
  proof (cases "length w \<le> avail")
    case True
    then show ?thesis using assms j unfolding b by (auto simp: put_string_def nth_poke split: if_splits)
  next
    case False
    define a where "a = 4096 - pos"
    have a: "avail = a" "pos + a = 4096" "4096 - pos = a" "length w - a \<le> pos"
      using False assms(2-4) by (auto simp: a_def)
    have "s' ! j = (if j < length w - a then w ! (a + j) else if pos \<le> j then w ! (j - pos) else s ! j)"
    proof -
      have "s' = poke (poke s pos (take a w)) 0 (drop a w)" using False assms(5) a by (simp add: put_string_def)
      then show ?thesis using False assms(1,3) j a
        by (simp add: nth_poke [where off = 0] nth_poke [where off = pos] min_def)
    qed
    moreover have "j < length w - a \<longleftrightarrow> j + a < length w" by auto
    moreover have "j - pos < length w" if "pos \<le> j" using that j a False by auto
    ultimately show ?thesis using a unfolding b by (cases "pos \<le> j") (simp_all add: add.commute)
  qed
qed

lemma behind_of:
  assumes "pos \<le> 4096" "(x + d) mod 4096 = pos mod 4096" "0 < d" "d \<le> 4096"
  shows "behind pos (x mod 4096) = 4096 - d"
proof -
  have y: "x mod 4096 < 4096" by simp
  have "(x mod 4096 + d) mod 4096 = pos mod 4096" using assms(2) by (simp add: mod_simps)
  then have "x mod 4096 + d = pos \<or> x mod 4096 + d = pos + 4096 \<or> pos = 4096 \<and> x mod 4096 + d = 4096"
    using y assms(1,3,4) by (cases "pos = 4096") (auto simp: mod_ring split: if_splits)
  then show ?thesis using y assms(1,3,4) unfolding behind_def by (auto simp: mod_ring)
qed

lemma ring_put_new:
  assumes "length s = 4096" "pos \<le> 4096" "length w \<le> 4096"
    and "length w \<le> avail \<and> avail \<le> 4096 - pos \<or> avail = 4096 - pos"
    and "put_string s pos avail w = (s', pos')"
  shows "ring s' pos (length w) = w"
proof (rule nth_equalityI)
  fix i assume "i < length (ring s' pos (length w))"
  then have i: "i < length w" by simp
  then have "behind pos ((pos + i) mod 4096) = i"
    using assms(2,3) behind_of [of pos "pos + i" "4096 - i"] by simp
  then show "ring s' pos (length w) ! i = w ! i"
    using put_ring(4) [OF assms, of "(pos + i) mod 4096"] i by (simp add: ring_def)
qed simp

lemma ring_put_old:
  assumes "length s = 4096" "pos \<le> 4096" "length w \<le> 4096"
    and "length w \<le> avail \<and> avail \<le> 4096 - pos \<or> avail = 4096 - pos"
    and "put_string s pos avail w = (s', pos')"
    and "(off + n + g) mod 4096 = pos mod 4096" "n + g + length w \<le> 4096"
  shows "ring s' off n = ring s off n"
proof (rule nth_equalityI)
  fix i assume "i < length (ring s' off n)"
  then have i: "i < n" by simp
  have "behind pos ((off + i) mod 4096) = 4096 - (n - i + g)"
    using assms(2,6,7) i by (intro behind_of) (auto simp: add.assoc)
  then show "ring s' off n ! i = ring s off n ! i"
    using put_ring(4) [OF assms(1-5), of "(off + i) mod 4096"] i assms(7) by (auto simp: ring_def)
qed simp

section \<open>Where the entries lie\<close>

definition header_bytes :: "header \<Rightarrow> nat" where
  "header_bytes x = length (fst x) + length (snd x)"

definition header_size :: "header \<Rightarrow> nat" where
  "header_size x = 32 + header_bytes x"

text \<open>
  The entries, the newest first, lie one behind the other in the ring and end at \<open>p\<close>; the bytes of an
  entry are those of its header.
\<close>

fun laid :: "u8 list \<Rightarrow> nat \<Rightarrow> table_entry list \<Rightarrow> header list \<Rightarrow> bool" where
  "laid s p [] [] \<longleftrightarrow> True"
| "laid s p (e # es) (x # xs) \<longleftrightarrow>
     name_len e = length (fst x) \<and> value_len e = length (snd x) \<and> name_data e \<le> 4096 \<and> value_data e \<le> 4096
     \<and> ring s (name_data e) (name_len e) = fst x \<and> ring s (value_data e) (value_len e) = snd x
     \<and> (value_data e + value_len e) mod 4096 = p mod 4096
     \<and> (name_data e + name_len e) mod 4096 = value_data e mod 4096
     \<and> laid s (name_data e) es xs"
| "laid s p _ _ \<longleftrightarrow> False"

lemma laid_length: "laid s p es xs \<Longrightarrow> length es = length xs"
  by (induction s p es xs rule: laid.induct) auto

lemma laid_nth:
  "laid s p es xs \<Longrightarrow> i < length xs \<Longrightarrow>
    name_len (es ! i) = length (fst (xs ! i)) \<and> value_len (es ! i) = length (snd (xs ! i))
    \<and> name_data (es ! i) \<le> 4096 \<and> value_data (es ! i) \<le> 4096
    \<and> ring s (name_data (es ! i)) (length (fst (xs ! i))) = fst (xs ! i)
    \<and> ring s (value_data (es ! i)) (length (snd (xs ! i))) = snd (xs ! i)"
proof (induction s p es xs arbitrary: i rule: laid.induct)
  case (2 s p e es x xs)
  then show ?case by (cases i) auto
qed simp_all

lemma laid_take: "laid s p es xs \<Longrightarrow> laid s p (take n es) (take n xs)"
  by (induction s p es xs arbitrary: n rule: laid.induct) (auto simp: take_Cons' split: if_splits)

lemma laid_end: "p mod 4096 = q mod 4096 \<Longrightarrow> laid s p es xs \<Longrightarrow> laid s q es xs"
  by (cases es; cases xs) auto

lemma add_mod_cong: "(a + b) mod 4096 = c mod 4096 \<Longrightarrow> (a + (b + d)) mod 4096 = (c + d) mod (4096 :: nat)"
  by (metis add.assoc mod_add_left_eq)

lemma laid_put:
  assumes "length s = 4096" "pos \<le> 4096" "length w \<le> 4096"
    and "length w \<le> avail \<and> avail \<le> 4096 - pos \<or> avail = 4096 - pos"
    and "put_string s pos avail w = (s', pos')"
  shows "laid s p es xs \<Longrightarrow> (p + g) mod 4096 = pos mod 4096 \<Longrightarrow>
    g + sum_list (map header_bytes xs) + length w \<le> 4096 \<Longrightarrow> laid s' p es xs"
proof (induction es arbitrary: xs p g)
  case Nil
  then show ?case by (cases xs) simp_all
next
  case (Cons e es ys)
  then obtain x xs where ys: "ys = x # xs" by (cases ys) simp_all
  note prems = Cons.prems [unfolded ys]
  let ?v = "value_len e" and ?n = "name_len e"
  have lens: "?n = length (fst x)" "?v = length (snd x)" using prems(1) by simp_all
  have ends: "(value_data e + ?v) mod 4096 = p mod 4096" "(name_data e + ?n) mod 4096 = value_data e mod 4096"
    using prems(1) by auto
  have v: "(value_data e + ?v + g) mod 4096 = pos mod 4096"
    using prems(2) add_mod_cong [OF ends(1), of g] by (simp only: add.assoc)
  have n: "(name_data e + ?n + (?v + g)) mod 4096 = pos mod 4096"
    using v add_mod_cong [OF ends(2), of "?v + g"] by (simp only: add.assoc)
  have "ring s' (value_data e) ?v = ring s (value_data e) ?v"
    using ring_put_old [OF assms v] prems(3) lens by (simp add: header_bytes_def)
  moreover have "ring s' (name_data e) ?n = ring s (name_data e) ?n"
    using ring_put_old [OF assms n] prems(3) lens by (simp add: header_bytes_def)
  moreover have "laid s' (name_data e) es xs"
    using prems n lens by (intro Cons.IH [where g = "?n + (?v + g)"]) (simp_all add: header_bytes_def add.assoc)
  ultimately show ?case using prems(1) ys by auto
qed

section \<open>The table that a state stands for\<close>

definition live :: "hpack \<Rightarrow> table_entry list" where
  "live h = map (\<lambda>i. hp_records h ! slot h i) (rev [hp_deleted h..<hp_added h])"

text \<open>
  The slots from \<open>reused\<close> on hold different records: first those of deleted entries that have not been
  used again, then those of the entries.
\<close>

definition pointers_ok :: "hpack \<Rightarrow> bool" where
  "pointers_ok h \<longleftrightarrow> hp_entries h \<noteq> None \<and> length (the (hp_entries h)) = hp_allocated h \<and> 0 < hp_allocated h
     \<and> hp_reused h \<le> hp_deleted h \<and> hp_deleted h \<le> hp_added h \<and> hp_added h \<le> hp_reused h + hp_allocated h
     \<and> distinct (map (slot h) [hp_reused h..<hp_added h])
     \<and> (\<forall>i\<in>{hp_reused h..<hp_added h}. slot h i < length (hp_records h))"

definition represents :: "nat \<Rightarrow> hpack \<Rightarrow> header list \<Rightarrow> bool" where
  "represents r h xs \<longleftrightarrow> pointers_ok h \<and> length (hp_storage h) = 4096 \<and> hp_pos h \<le> 4096 \<and> hp_size h \<le> 4096
     \<and> hp_free h + r + sum_list (map header_size xs) = hp_size h \<and> laid (hp_storage h) (hp_pos h) (live h) xs"

text \<open>The queue of RFC 7541: the newest headers, as many as fit.\<close>

fun fit :: "nat \<Rightarrow> header list \<Rightarrow> header list" where
  "fit room [] = []"
| "fit room (x # xs) = (if header_size x \<le> room then x # fit (room - header_size x) xs else [])"

lemma fit_take:
  assumes "n \<le> length xs" "sum_list (map header_size (take n xs)) \<le> room"
    and "n < length xs \<longrightarrow> room < sum_list (map header_size (take (Suc n) xs))"
  shows "fit room xs = take n xs"
  using assms
proof (induction xs arbitrary: n room)
  case (Cons x xs)
  show ?case
  proof (cases n)
    case 0
    then show ?thesis using Cons.prems by simp
  next
    case (Suc m)
    then have "fit (room - header_size x) xs = take m xs" using Cons.prems by (intro Cons.IH) auto
    then show ?thesis using Cons.prems Suc by simp
  qed
qed simp

lemma fit_all: "sum_list (map header_size xs) \<le> room \<Longrightarrow> fit room xs = xs"
  by (induction xs arbitrary: room) auto

lemma live_length: "pointers_ok h \<Longrightarrow> length (live h) = hp_added h - hp_deleted h"
  by (simp add: live_def)

lemma live_nth: "i < hp_added h - hp_deleted h \<Longrightarrow> live h ! i = hp_records h ! slot h (hp_added h - i - 1)"
  by (simp add: live_def rev_nth)

lemma slot_simps [simp]:
  "slot (h\<lparr>hp_added := a\<rparr>) = slot h" "slot (h\<lparr>hp_deleted := a\<rparr>) = slot h" "slot (h\<lparr>hp_reused := a\<rparr>) = slot h"
  "slot (h\<lparr>hp_size := a\<rparr>) = slot h" "slot (h\<lparr>hp_free := a\<rparr>) = slot h" "slot (h\<lparr>hp_records := es\<rparr>) = slot h"
  "slot (h\<lparr>hp_storage := s\<rparr>) = slot h" "slot (h\<lparr>hp_pos := a\<rparr>) = slot h"
  by (simp_all add: slot_def fun_eq_iff)

lemma live_simps [simp]:
  "live (h\<lparr>hp_reused := a\<rparr>) = live h" "live (h\<lparr>hp_size := a\<rparr>) = live h" "live (h\<lparr>hp_free := a\<rparr>) = live h"
  "live (h\<lparr>hp_storage := s\<rparr>) = live h" "live (h\<lparr>hp_pos := a\<rparr>) = live h"
  by (simp_all add: live_def)

lemma represents_length: "represents r h xs \<Longrightarrow> length xs = hp_added h - hp_deleted h"
  unfolding represents_def using laid_length live_length by metis

lemma evict_one_represents:
  assumes "represents r h xs" "xs \<noteq> []"
  shows "represents r (evict_one h) (butlast xs)" "hp_size (evict_one h) = hp_size h"
    "hp_free (evict_one h) = hp_free h + header_size (last xs)"
proof -
  let ?d = "hp_deleted h" and ?e = "hp_records h ! slot h (hp_deleted h)"
  have ok: "pointers_ok h" and laid: "laid (hp_storage h) (hp_pos h) (live h) xs"
    using assms(1) by (simp_all add: represents_def)
  have len: "length xs = hp_added h - ?d" by (rule represents_length [OF assms(1)])
  then have less: "?d < hp_added h" using assms(2) by (cases xs) auto
  have "live h ! (length xs - 1) = ?e" using len less by (simp add: live_nth)
  then have e: "name_len ?e = length (fst (last xs))" "value_len ?e = length (snd (last xs))"
    using laid_nth [OF laid, of "length xs - 1"] assms(2) by (simp_all add: last_conv_nth)
  have live: "live (evict_one h) = butlast (live h)"
    using less by (simp add: live_def evict_one_def Let_def upt_conv_Cons map_butlast [symmetric])
  show "hp_size (evict_one h) = hp_size h" by (simp add: evict_one_def Let_def)
  show free: "hp_free (evict_one h) = hp_free h + header_size (last xs)"
    using e by (simp add: evict_one_def Let_def header_size_def header_bytes_def)
  have "sum_list (map header_size xs) = sum_list (map header_size (butlast xs)) + header_size (last xs)"
    using assms(2) by (cases xs rule: rev_cases) simp_all
  moreover have "laid (hp_storage h) (hp_pos h) (butlast (live h)) (butlast xs)"
    using laid_take [OF laid, of "length xs - 1"] laid_length [OF laid] by (simp add: butlast_conv_take)
  moreover have "pointers_ok (evict_one h)"
    using ok less by (auto simp: pointers_ok_def evict_one_def Let_def)
  ultimately show "represents r (evict_one h) (butlast xs)"
    using assms(1) live free unfolding represents_def
    by (simp add: evict_one_def Let_def)
qed

lemma evict_represents:
  assumes "represents 0 h xs" "wanted \<le> hp_size h" "hp_free h < wanted"
  shows "represents 0 (evict wanted h) (fit (hp_size h - wanted) xs)" "wanted \<le> hp_free (evict wanted h)"
    "hp_size (evict wanted h) = hp_size h"
proof -
  have "\<exists>n<length xs. represents 0 (evict wanted h) (take n xs) \<and> wanted \<le> hp_free (evict wanted h)
      \<and> hp_size (evict wanted h) = hp_size h
      \<and> hp_size h < wanted + sum_list (map header_size (take (Suc n) xs))"
    using assms
  proof (induction wanted h arbitrary: xs rule: evict.induct)
    case (1 wanted h)
    have eq: "hp_free h + sum_list (map header_size xs) = hp_size h" using 1(2) by (simp add: represents_def)
    then have ne: "xs \<noteq> []" using 1(3,4) by auto
    note one = evict_one_represents [OF 1(2) ne]
    let ?n = "length xs - 1"
    have n: "?n < length xs" "take ?n xs = butlast xs" "take (Suc ?n) xs = xs"
      using ne by (simp_all add: butlast_conv_take)
    show ?case
    proof (cases "wanted > hp_free (evict_one h)")
      case True
      have "evict wanted h = evict wanted (evict_one h)" using True by (subst evict.simps) (simp add: Let_def)
      moreover have "wanted \<le> hp_size (evict_one h)" using 1(3) one(2) by simp
      ultimately obtain m where m: "m < length (butlast xs)" "represents 0 (evict wanted h) (take m (butlast xs))"
          "wanted \<le> hp_free (evict wanted h)" "hp_size (evict wanted h) = hp_size h"
          "hp_size h < wanted + sum_list (map header_size (take (Suc m) (butlast xs)))"
        using 1(1) [OF refl True one(1)] True one(2) by auto
      then have "take m (butlast xs) = take m xs" "take (Suc m) (butlast xs) = take (Suc m) xs" "m < length xs"
        by (auto simp: butlast_conv_take)
      then show ?thesis using m by auto
    next
      case False
      then have "evict wanted h = evict_one h" by (subst evict.simps) (simp add: Let_def)
      moreover have "hp_size h < wanted + sum_list (map header_size xs)" using eq 1(4) by simp
      ultimately show ?thesis using False one n by (intro exI [of _ ?n]) simp
    qed
  qed
  then obtain n where n: "n < length xs" "represents 0 (evict wanted h) (take n xs)" "wanted \<le> hp_free (evict wanted h)"
      "hp_size (evict wanted h) = hp_size h" "hp_size h < wanted + sum_list (map header_size (take (Suc n) xs))"
    by blast
  moreover from this have "fit (hp_size h - wanted) xs = take n xs"
    by (intro fit_take) (auto simp: represents_def)
  ultimately show "represents 0 (evict wanted h) (fit (hp_size h - wanted) xs)" "wanted \<le> hp_free (evict wanted h)"
    "hp_size (evict wanted h) = hp_size h" by simp_all
qed

lemma represents_free:
  "represents r h xs \<Longrightarrow> hp_free h + r = f + r' \<Longrightarrow> represents r' (h\<lparr>hp_free := f\<rparr>) xs"
  by (simp add: represents_def pointers_ok_def)

text \<open>The account of a new header reserves its size, or empties the table.\<close>

lemma account_represents:
  assumes "represents 0 h xs" "ngx_http_v2_table_account h (header_bytes x) = (rc, h')"
  shows "if header_size x \<le> hp_size h
    then rc = NGX_OK \<and> represents (header_size x) h' (fit (hp_size h - header_size x) xs) \<and> hp_size h' = hp_size h
    else rc = NGX_DECLINED \<and> represents 0 h' [] \<and> hp_size h' = hp_size h"
proof -
  have eq: "hp_free h + sum_list (map header_size xs) = hp_size h" using assms(1) by (simp add: represents_def)
  consider (room) "header_size x \<le> hp_free h" | (evict) "hp_free h < header_size x" "header_size x \<le> hp_size h"
    | (large) "hp_free h < header_size x" "hp_size h < header_size x" by linarith
  then show ?thesis
  proof cases
    case room
    then have "fit (hp_size h - header_size x) xs = xs" using eq by (intro fit_all) simp
    then show ?thesis using room eq assms represents_free [OF assms(1)]
      by (auto simp: ngx_http_v2_table_account_def header_size_def add.commute)
  next
    case evict
    note out = evict_represents [OF assms(1) evict(2,1)]
    have "(rc, h') = (NGX_OK, (evict (header_size x) h)\<lparr>hp_free := hp_free (evict (header_size x) h) - header_size x\<rparr>)"
      using evict assms(2) by (simp add: ngx_http_v2_table_account_def header_size_def add.commute Let_def)
    then show ?thesis using evict out represents_free [OF out(1)] by simp
  next
    case large
    then have "rc = NGX_DECLINED" "h' = h\<lparr>hp_deleted := hp_added h, hp_free := hp_size h\<rparr>"
      using assms(2) by (simp_all add: ngx_http_v2_table_account_def header_size_def add.commute Let_def split: if_splits)
    then show ?thesis using large assms(1)
      by (auto simp: represents_def pointers_ok_def live_def)
  qed
qed

lemma table_size_represents:
  assumes "represents 0 h xs" "ngx_http_v2_table_size h n = (rc, h')"
  shows "if n \<le> 4096 then rc = NGX_OK \<and> represents 0 h' (fit n xs) \<and> hp_size h' = n
    else rc = NGX_ERROR \<and> h' = h"
proof (cases "n \<le> 4096")
  case True
  have eq: "hp_free h + sum_list (map header_size xs) = hp_size h" using assms(1) by (simp add: represents_def)
  define h1 where "h1 = (if hp_size h - n > hp_free h then evict (hp_size h - n) h else h)"
  have h': "rc = NGX_OK" "h' = h1\<lparr>hp_size := n, hp_free := hp_free h1 + n - hp_size h\<rparr>"
    using assms(2) True by (auto simp: ngx_http_v2_table_size_def NGX_HTTP_V2_TABLE_SIZE_def Let_def h1_def nat_diff_distrib
        split: if_splits)
  have "represents 0 h1 (fit n xs) \<and> hp_size h \<le> hp_free h1 + n \<and> hp_size h1 = hp_size h"
  proof (cases "hp_size h - n > hp_free h")
    case True
    then have "hp_size h - (hp_size h - n) = n" by simp
    then show ?thesis using True evict_represents [OF assms(1), of "hp_size h - n"] by (simp add: h1_def)
  next
    case False
    then have "fit n xs = xs" using eq by (intro fit_all) simp
    then show ?thesis using False assms(1) by (simp add: h1_def)
  qed
  then show ?thesis using h' True by (auto simp: represents_def pointers_ok_def)
next
  case False
  then show ?thesis using assms(2) by (simp add: ngx_http_v2_table_size_def NGX_HTTP_V2_TABLE_SIZE_def)
qed

section \<open>Insertion\<close>

text \<open>A record outside the slots in use.\<close>

definition fresh :: "nat \<Rightarrow> hpack \<Rightarrow> bool" where
  "fresh e h \<longleftrightarrow> e < length (hp_records h) \<and> e \<notin> slot h ` {hp_reused h..<hp_added h}"

lemma take_record_represents:
  assumes "represents r h xs" "take_record h = (e, h')"
  shows "represents r h' xs" "fresh e h'" "hp_size h' = hp_size h" "hp_added h' = hp_added h"
    "hp_deleted h' = hp_deleted h" "hp_allocated h' = hp_allocated h"
    "if hp_added h - hp_deleted h = hp_allocated h then hp_reused h' = hp_deleted h'
      else hp_added h' < hp_reused h' + hp_allocated h'"
proof -
  have ok: "pointers_ok h" using assms(1) by (simp add: represents_def)
  have "represents r h' xs \<and> fresh e h' \<and> hp_size h' = hp_size h \<and> hp_added h' = hp_added h
      \<and> hp_deleted h' = hp_deleted h \<and> hp_allocated h' = hp_allocated h
      \<and> (if hp_added h - hp_deleted h = hp_allocated h then hp_reused h' = hp_deleted h'
        else hp_added h' < hp_reused h' + hp_allocated h')"
  proof (cases "hp_reused h = hp_deleted h")
    case True
    let ?recs = "hp_records h @ [\<lparr>name_len = 0, name_data = 0, value_len = 0, value_data = 0\<rparr>]"
    have e: "e = length (hp_records h)" "h' = h\<lparr>hp_records := ?recs\<rparr>"
      using assms(2) True by (simp_all add: take_record_def)
    have "live h' = live h"
      using ok by (auto simp: live_def e pointers_ok_def nth_append)
    moreover have "pointers_ok h'" using ok by (auto simp: pointers_ok_def e less_Suc_eq)
    moreover have "fresh e h'" using ok by (auto simp: fresh_def e pointers_ok_def)
    ultimately show ?thesis using assms(1) ok True by (auto simp: represents_def e pointers_ok_def)
  next
    case False
    then have less: "hp_reused h < hp_deleted h" using ok by (simp add: pointers_ok_def)
    have e: "e = slot h (hp_reused h)" "h' = h\<lparr>hp_reused := hp_reused h + 1\<rparr>"
      using assms(2) False by (simp_all add: take_record_def)
    have split: "[hp_reused h..<hp_added h] = hp_reused h # [hp_reused h + 1..<hp_added h]"
      using ok less by (simp add: pointers_ok_def upt_conv_Cons)
    have "pointers_ok h'" "fresh e h'"
      using ok less by (auto simp: pointers_ok_def fresh_def e split)
    then show ?thesis using assms(1) ok less by (auto simp: represents_def e pointers_ok_def)
  qed
  then show "represents r h' xs" "fresh e h'" "hp_size h' = hp_size h" "hp_added h' = hp_added h"
    "hp_deleted h' = hp_deleted h" "hp_allocated h' = hp_allocated h"
    "if hp_added h - hp_deleted h = hp_allocated h then hp_reused h' = hp_deleted h'
      else hp_added h' < hp_reused h' + hp_allocated h'" by blast+
qed

text \<open>The bytes of the new header are written behind those of the entries, and its record is not theirs.\<close>

lemma fill_record_represents:
  assumes "represents (header_size x) h xs" "fresh e h"
  shows "\<exists>s pos rec. fill_record e x h = h\<lparr>hp_storage := s, hp_pos := pos, hp_records := (hp_records h)[e := rec]\<rparr>
    \<and> length s = 4096 \<and> pos \<le> 4096 \<and> laid s pos (rec # live h) (x # xs)
    \<and> live (fill_record e x h) = live h"
proof -
  obtain name val where x: "x = (name, val)" by fastforce
  let ?p = "hp_pos h"
  have s: "length (hp_storage h) = 4096" "?p \<le> 4096" and laid: "laid (hp_storage h) ?p (live h) xs"
    using assms(1) by (simp_all add: represents_def)
  have "header_bytes x + sum_list (map header_bytes xs) \<le> header_size x + sum_list (map header_size xs)"
    by (intro add_mono sum_list_mono) (simp_all add: header_size_def)
  then have room: "length name + length val + sum_list (map header_bytes xs) \<le> 4096"
    using assms(1) x by (simp add: represents_def header_bytes_def)
  obtain s1 p1 where put1: "put_string (hp_storage h) ?p (4096 - ?p) name = (s1, p1)" by fastforce
  let ?a = "(if 4096 - ?p \<ge> length name then 4096 - ?p else 4096) - length name"
  obtain s2 p2 where put2: "put_string s1 p1 ?a val = (s2, p2)" by fastforce
  note first = put_ring [OF s _ _ put1] laid_put [OF s _ _ put1] ring_put_new [OF s _ _ put1]
  have s1: "length s1 = 4096" "p1 \<le> 4096" and e1: "(?p + length name) mod 4096 = p1 mod 4096"
    using first(1-3) room by simp_all
  have p1: "p1 = (if 4096 - ?p \<ge> length name then ?p + length name else length name - (4096 - ?p))"
    using put1 by (auto simp: put_string_def split: if_splits)
  have a: "length val \<le> ?a \<and> ?a \<le> 4096 - p1 \<or> ?a = 4096 - p1"
    using p1 room s(2) by auto
  have val: "length val \<le> 4096" using room by simp
  note second = put_ring [OF s1 val a put2] laid_put [OF s1 val a put2] ring_put_new [OF s1 val a put2]
  let ?rec = "\<lparr>name_len = length name, name_data = ?p, value_len = length val, value_data = p1\<rparr>"
  have "laid s1 ?p (live h) xs" using first(5) [OF _ _ laid, of 0] room by simp
  then have old: "laid s2 ?p (live h) xs" using second(5) [of ?p "live h" xs "length name"] e1 room by simp
  have "ring s2 ?p (length name) = ring s1 ?p (length name)"
    using ring_put_old [OF s1 val a put2, of ?p "length name" 0] e1 room by simp
  then have "laid s2 p2 (?rec # live h) (x # xs)"
    using old first(6) second(3,6) e1 s s1 room by (simp add: x)
  moreover have fill: "fill_record e x h = h\<lparr>hp_storage := s2, hp_pos := p2, hp_records := (hp_records h)[e := ?rec]\<rparr>"
    by (simp only: fill_record_def x prod.case Let_def NGX_HTTP_V2_TABLE_SIZE_def put1 put2)
  moreover have "live (fill_record e x h) = live h"
  proof -
    have "e \<noteq> slot h i" if "hp_deleted h \<le> i" "i < hp_added h" for i
      using assms that by (auto simp: fresh_def represents_def pointers_ok_def)
    then show ?thesis unfolding fill by (simp add: live_def)
  qed
  ultimately show ?thesis using second(1,2) by blast
qed

lemma mod_window:
  assumes "(i :: nat) < j" "j < i + a"
  shows "i mod a \<noteq> j mod a"
proof
  assume "i mod a = j mod a"
  then have "a dvd j - i" using assms(1) by (metis mod_eq_dvd_iff_nat less_imp_le)
  then show False using assms by (auto dest: dvd_imp_le)
qed

lemma append_entry_represents:
  assumes ok: "pointers_ok h" and e: "fresh e h" and room: "hp_added h < hp_reused h + hp_allocated h"
  shows "pointers_ok (append_entry e h)" "live (append_entry e h) = hp_records h ! e # live h"
proof -
  let ?h = "append_entry e h" and ?a = "hp_allocated h"
  have es: "length (the (hp_entries h)) = ?a" "0 < ?a" "hp_reused h \<le> hp_deleted h" "hp_deleted h \<le> hp_added h"
    using ok by (simp_all add: pointers_ok_def)
  have new: "slot ?h (hp_added h) = e" using es by (simp add: slot_def append_entry_def)
  have old: "slot ?h i = slot h i" if "hp_reused h \<le> i" "i < hp_added h" for i
    using mod_window [of i "hp_added h" ?a] that room by (simp add: slot_def append_entry_def)
  have up: "[hp_reused h..<hp_added ?h] = [hp_reused h..<hp_added h] @ [hp_added h]"
    using es by (simp add: append_entry_def)
  have "map (slot ?h) [hp_reused h..<hp_added ?h] = map (slot h) [hp_reused h..<hp_added h] @ [e]"
    unfolding up using new old by simp
  then have "distinct (map (slot ?h) [hp_reused h..<hp_added ?h])"
    using ok e by (simp add: pointers_ok_def fresh_def)
  moreover have "\<forall>i\<in>{hp_reused h..<hp_added ?h}. slot ?h i < length (hp_records h)"
    using ok e new old by (auto simp: pointers_ok_def fresh_def append_entry_def less_Suc_eq)
  ultimately show "pointers_ok ?h"
    using ok room by (simp add: pointers_ok_def append_entry_def)
  have "map (\<lambda>i. hp_records h ! slot ?h i) [hp_deleted h..<hp_added h]
      = map (\<lambda>i. hp_records h ! slot h i) [hp_deleted h..<hp_added h]"
    using old es by simp
  then have "rev (map (\<lambda>i. hp_records h ! slot ?h i) [hp_deleted h..<hp_added h]) = live h"
    by (simp add: live_def rev_map)
  then show "live ?h = hp_records h ! e # live h"
    using new es by (simp add: live_def append_entry_def rev_map)
qed

lemma grow_represents:
  assumes ok: "pointers_ok h" and e: "fresh e h"
    and full: "hp_added h - hp_deleted h = hp_allocated h" "hp_reused h = hp_deleted h"
  shows "pointers_ok (grow h)" "live (grow h) = live h" "fresh e (grow h)"
    "hp_added (grow h) < hp_reused (grow h) + hp_allocated (grow h)"
proof -
  let ?a = "hp_allocated h" and ?d = "hp_deleted h"
  have es: "length (the (hp_entries h)) = ?a" "0 < ?a" "?d \<le> hp_added h" "hp_added h = ?d + ?a"
    using ok full by (auto simp: pointers_ok_def)
  have slot: "slot (grow h) i = slot h (?d + i)" if "i < ?a" for i
  proof (cases "i < ?a - ?d mod ?a")
    case True
    then have "(?d + i) mod ?a = ?d mod ?a + i" by (metis add.commute less_diff_conv mod_add_left_eq mod_less)
    then show ?thesis using True es that by (simp add: slot_def grow_def nth_append Let_def)
  next
    case False
    define k where "k = i - (?a - ?d mod ?a)"
    have m: "?d mod ?a < ?a" using es(2) by simp
    then have k: "k < ?d mod ?a" "?d mod ?a + i = ?a + k" using False that by (auto simp: k_def)
    have "(?d + i) mod ?a = (?d mod ?a + i) mod ?a" by (simp add: mod_add_left_eq)
    also have "\<dots> = k" using less_trans [OF k(1) m] k(2) by simp
    finally show ?thesis using False es that k m by (simp add: slot_def grow_def nth_append Let_def k_def [symmetric])
  qed
  have range: "map (slot (grow h)) [0..<?a] = map (slot h) [?d..<?d + ?a]"
    using slot by (intro nth_equalityI) simp_all
  have h: "hp_added (grow h) = ?a" "hp_deleted (grow h) = 0" "hp_reused (grow h) = 0"
      "hp_allocated (grow h) = ?a + 64" "hp_records (grow h) = hp_records h"
      "length (the (hp_entries (grow h))) = ?a + 64" "hp_entries (grow h) \<noteq> None"
    using es mod_less_divisor [OF es(2), of ?d] by (simp_all add: grow_def min_def Let_def)
  have inj: "distinct (map (slot (grow h)) [0..<?a])"
    unfolding range using ok full(2) es(4) by (simp add: pointers_ok_def)
  have inside: "slot (grow h) i < length (hp_records h)" if "i < ?a" for i
    using ok full(2) es(4) that by (simp add: slot pointers_ok_def)
  show "pointers_ok (grow h)"
    using inj inside h by (simp add: pointers_ok_def)
  show "hp_added (grow h) < hp_reused (grow h) + hp_allocated (grow h)" using h by simp
  have "slot (grow h) ` {0..<?a} = slot h ` {?d..<?d + ?a}"
    using arg_cong [OF range, of set] by simp
  then show "fresh e (grow h)" using e full(2) es(4) h by (simp add: fresh_def)
  have "rev (map (\<lambda>i. hp_records h ! i) (map (slot (grow h)) [0..<?a]))
      = rev (map (\<lambda>i. hp_records h ! i) (map (slot h) [?d..<?d + ?a]))" by (simp only: range)
  then show "live (grow h) = live h"
    using h es(4) by (simp add: live_def rev_map comp_def)
qed

text \<open>No allocation fails.\<close>

definition never :: "allocation \<Rightarrow> bool" where
  "never a = False"

lemma add_header_represents:
  assumes "represents 0 h xs" "ngx_http_v2_add_header never h x = (rc, h')"
  shows "rc = NGX_OK \<and> hp_size h' = hp_size h \<and> represents 0 h' (fit (hp_size h) (x # xs))"
proof -
  have made: "make_ring never h = (True, h)"
    using assms(1) by (simp add: make_ring_def represents_def pointers_ok_def)
  obtain rc1 h1 where account: "ngx_http_v2_table_account h (header_bytes x) = (rc1, h1)" by fastforce
  note account1 = account_represents [OF assms(1) account]
  note account2 = account [unfolded header_bytes_def]
  show ?thesis
  proof (cases "header_size x \<le> hp_size h")
    case False
    then show ?thesis using assms(2) made account1 account2 by (auto simp: ngx_http_v2_add_header_def)
  next
    case True
    let ?xs = "fit (hp_size h - header_size x) xs"
    have rep1: "represents (header_size x) h1 ?xs" "hp_size h1 = hp_size h" "rc1 = NGX_OK"
      using account1 True by simp_all
    obtain e h2 where take: "take_record h1 = (e, h2)" by fastforce
    note taken = take_record_represents [OF rep1(1) take]
    obtain s pos rec where fill: "fill_record e x h2 = h2\<lparr>hp_storage := s, hp_pos := pos, hp_records := (hp_records h2)[e := rec]\<rparr>"
        "length s = 4096" "pos \<le> 4096" "laid s pos (rec # live h2) (x # ?xs)" "live (fill_record e x h2) = live h2"
      using fill_record_represents [OF taken(1,2)] by blast
    let ?h3 = "fill_record e x h2"
    have ok3: "pointers_ok ?h3" "fresh e ?h3" and e3: "hp_records ?h3 ! e = rec"
      using taken(1,2) fill(1) by (auto simp: represents_def pointers_ok_def fresh_def)
    define h4 where "h4 = (if hp_allocated ?h3 = hp_added ?h3 - hp_deleted ?h3 then grow ?h3 else ?h3)"
    have h4: "pointers_ok h4" "live h4 = live ?h3" "fresh e h4" "hp_added h4 < hp_reused h4 + hp_allocated h4"
        "hp_records h4 = hp_records ?h3" "hp_storage h4 = s" "hp_pos h4 = pos" "hp_size h4 = hp_size h2" "hp_free h4 = hp_free h2"
      using taken(3-7) fill(1) ok3 grow_represents [OF ok3] by (auto simp: h4_def grow_def Let_def)
    have "h' = append_entry e h4" "rc = NGX_OK"
      using assms(2) made account2 rep1(3) take
      by (auto simp: ngx_http_v2_add_header_def never_def h4_def Let_def split: if_splits)
    moreover have "represents 0 (append_entry e h4) (x # ?xs)"
      using append_entry_represents [OF h4(1,3,4)] h4 fill e3 taken(1)
      by (auto simp: represents_def append_entry_def)
    ultimately show ?thesis using True h4(8) taken(3) rep1(2) by (simp add: append_entry_def)
  qed
qed

section \<open>Lookup\<close>

lemma get_indexed_represents:
  assumes "represents r h xs"
  shows "ngx_http_v2_get_indexed_header never h (62 + i) name_only header =
    (if i < length xs then (NGX_OK, if name_only then (fst (xs ! i), snd header) else xs ! i) else (NGX_ERROR, header))"
proof -
  have len: "length xs = hp_added h - hp_deleted h" by (rule represents_length [OF assms])
  have laid: "laid (hp_storage h) (hp_pos h) (live h) xs" and s: "length (hp_storage h) = 4096"
    and room: "sum_list (map header_size xs) \<le> 4096"
    using assms by (auto simp: represents_def)
  show ?thesis
  proof (cases "i < length xs")
    case True
    let ?e = "hp_records h ! slot h (hp_added h - i - 1)"
    have e: "live h ! i = ?e" using True len by (simp add: live_nth)
    note entry = laid_nth [OF laid True, unfolded e]
    have "header_size (xs ! i) \<le> sum_list (map header_size xs)"
      using True elem_le_sum_list [of i "map header_size xs"] by simp
    then have short: "length (fst (xs ! i)) \<le> 4096" "length (snd (xs ! i)) \<le> 4096"
      using room by (simp_all add: header_size_def header_bytes_def)
    have "copy_out (hp_storage h) (name_data ?e) (name_len ?e) = fst (xs ! i)"
      "copy_out (hp_storage h) (value_data ?e) (value_len ?e) = snd (xs ! i)"
      using entry copy_out_ring [OF s _ short(1)] copy_out_ring [OF s _ short(2)] by simp_all
    then show ?thesis using True len
      by (simp add: ngx_http_v2_get_indexed_header_def static_entries never_def Let_def)
  next
    case False
    then show ?thesis using len by (simp add: ngx_http_v2_get_indexed_header_def static_entries Let_def)
  qed
qed

section \<open>The life of a table\<close>

datatype hpack_op = Insert header | Resize nat

fun hpack_step :: "hpack_op \<Rightarrow> hpack \<Rightarrow> hpack" where
  "hpack_step (Insert x) h = snd (ngx_http_v2_add_header never h x)"
| "hpack_step (Resize n) h = snd (ngx_http_v2_table_size h n)"

text \<open>
  The dynamic table of RFC 7541 with its capacity, first 4096: an insertion puts the header in front and drops those
  at the end that no longer fit, a size update sets the capacity and drops them too.  An update above 4096 is an error
  (and ends the connection): the table stays as it is.
\<close>

fun rfc_step :: "hpack_op \<Rightarrow> nat \<times> header list \<Rightarrow> nat \<times> header list" where
  "rfc_step (Insert x) (cap, xs) = (cap, fit cap (x # xs))"
| "rfc_step (Resize n) (cap, xs) = (if n \<le> 4096 then (n, fit n xs) else (cap, xs))"

definition rfc_run :: "hpack_op list \<Rightarrow> nat \<times> header list" where
  "rfc_run ops = fold rfc_step ops (4096, [])"

definition rfc_table :: "hpack_op list \<Rightarrow> header list" where
  "rfc_table ops = snd (rfc_run ops)"

text \<open>
  What the code does with its table, which it makes at the first insertion: it then sets the capacity to 4096, whatever
  the size updates before were.  This queue is a step of the proofs; the properties speak of the table of the RFC.
\<close>

fun queue_step :: "hpack_op \<Rightarrow> bool \<times> nat \<times> header list \<Rightarrow> bool \<times> nat \<times> header list" where
  "queue_step (Insert x) (made, cap, xs) =
     (let cap = (if made then cap else 4096) in (True, cap, fit cap (x # xs)))"
| "queue_step (Resize n) (made, cap, xs) = (if n \<le> 4096 then (made, n, fit n xs) else (made, cap, xs))"

definition hpack_run :: "hpack_op list \<Rightarrow> hpack" where
  "hpack_run ops = fold hpack_step ops new_hpack"

definition queue_lookup :: "header list \<Rightarrow> nat \<Rightarrow> header option" where
  "queue_lookup xs index =
     (if index = 0 then None
      else if index \<le> 61 then Some (ngx_http_v2_static_table ! (index - 1))
      else if index - 62 < length xs then Some (xs ! (index - 62)) else None)"

definition unmade :: "hpack \<Rightarrow> bool" where
  "unmade h \<longleftrightarrow> hp_entries h = None \<and> hp_added h = 0 \<and> hp_deleted h = 0 \<and> hp_reused h = 0
     \<and> hp_free h = hp_size h \<and> hp_records h = []"

fun simulates :: "hpack \<Rightarrow> bool \<times> nat \<times> header list \<Rightarrow> bool" where
  "simulates h (made, cap, xs) \<longleftrightarrow> hp_size h = cap \<and> (if made then represents 0 h xs else xs = [] \<and> unmade h)"

lemma first_insertion:
  assumes "unmade h"
  obtains h1 where "make_ring never h = (True, h1)" "represents 0 h1 []" "hp_size h1 = 4096"
    "ngx_http_v2_add_header never h x = ngx_http_v2_add_header never h1 x"
proof -
  obtain h1 where made: "make_ring never h = (True, h1)" "hp_entries h1 \<noteq> None"
      "represents 0 h1 []" "hp_size h1 = 4096"
    using assms by (auto simp: unmade_def make_ring_def never_def NGX_HTTP_V2_TABLE_SIZE_def Let_def represents_def
        pointers_ok_def live_def)
  moreover from this have "make_ring never h1 = (True, h1)" by (simp add: make_ring_def)
  ultimately show thesis using that by (simp add: ngx_http_v2_add_header_def)
qed

lemma step_simulates: "simulates h q \<Longrightarrow> simulates (hpack_step op h) (queue_step op q)"
proof -
  assume sim: "simulates h q"
  obtain made cap xs where q: "q = (made, cap, xs)" by (cases q) auto
  show "simulates (hpack_step op h) (queue_step op q)"
  proof (cases op)
    case (Insert x)
    show ?thesis
    proof (cases made)
      case True
      then have "represents 0 h xs" "hp_size h = cap" using sim q by simp_all
      moreover obtain rc h' where "ngx_http_v2_add_header never h x = (rc, h')" by fastforce
      ultimately show ?thesis using add_header_represents [of h xs x rc h'] Insert q True by simp
    next
      case False
      then have u: "unmade h" "xs = []" using sim q by simp_all
      obtain h1 where h1: "represents 0 h1 []" "hp_size h1 = 4096"
          "ngx_http_v2_add_header never h x = ngx_http_v2_add_header never h1 x"
        using first_insertion [OF u(1)] by metis
      obtain rc h' where "ngx_http_v2_add_header never h1 x = (rc, h')" by fastforce
      then show ?thesis using add_header_represents [OF h1(1), of x rc h'] h1 Insert q False u by simp
    qed
  next
    case (Resize n)
    obtain rc h' where size: "ngx_http_v2_table_size h n = (rc, h')" by fastforce
    show ?thesis
    proof (cases made)
      case True
      then have "represents 0 h xs" "hp_size h = cap" using sim q by simp_all
      then show ?thesis using table_size_represents [of h xs n rc h'] size Resize q True by auto
    next
      case False
      then have "unmade h" "xs = []" "hp_size h = cap" using sim q by simp_all
      then show ?thesis using size Resize q False
        by (auto simp: unmade_def ngx_http_v2_table_size_def NGX_HTTP_V2_TABLE_SIZE_def Let_def split: if_splits)
    qed
  qed
qed

lemma run_simulates: "simulates h q \<Longrightarrow> simulates (fold hpack_step ops h) (fold queue_step ops q)"
  by (induction ops arbitrary: h q) (simp_all add: step_simulates)

lemma lookup_simulates:
  assumes "simulates h (made, cap, xs)"
  shows "ngx_http_v2_get_indexed_header never h index False header =
    (case queue_lookup xs index of None \<Rightarrow> (NGX_ERROR, header) | Some x \<Rightarrow> (NGX_OK, x))"
proof (cases "index \<le> 61")
  case True
  then show ?thesis
    by (auto simp: ngx_http_v2_get_indexed_header_def queue_lookup_def static_entries Let_def)
next
  case False
  define i where "i = index - 62"
  with False have i: "index = 62 + i" by simp
  show ?thesis
  proof (cases made)
    case True
    then show ?thesis using get_indexed_represents [of 0 h xs i False header] assms i
      by (simp add: queue_lookup_def)
  next
    case no: False
    then show ?thesis using assms i
      by (simp add: unmade_def queue_lookup_def ngx_http_v2_get_indexed_header_def static_entries Let_def)
  qed
qed

lemma hpack_run_simulates: "simulates (hpack_run ops) (fold queue_step ops (False, 0, []))"
  unfolding hpack_run_def by (rule run_simulates) (simp add: new_hpack_def unmade_def)

section \<open>The table of the code and that of the RFC\<close>

lemma fit_prefix: "\<exists>zs. xs = fit n xs @ zs"
proof (induction xs arbitrary: n)
  case (Cons x xs)
  then show ?case using Cons.IH [of "n - header_size x"] by auto
qed simp

lemma fit_grows:
  assumes "m \<le> n"
  shows "\<exists>ws. fit n (xs @ zs) = fit m xs @ ws"
  using assms
proof (induction xs arbitrary: m n)
  case (Cons x xs)
  show ?case
  proof (cases "header_size x \<le> m")
    case True
    then show ?thesis using Cons.IH [of "m - header_size x" "n - header_size x"] Cons.prems by auto
  qed simp
qed simp

text \<open>
  The table holds the headers of the RFC's, in front of those that it should have dropped by then; and it holds
  these alone.
\<close>

fun covers :: "bool \<times> nat \<times> header list \<Rightarrow> nat \<times> header list \<Rightarrow> bool" where
  "covers (made, c, ys) (cap, xs) \<longleftrightarrow> cap \<le> (if made then c else 4096) \<and> (\<exists>zs. ys = xs @ zs)"

fun same_table :: "bool \<times> nat \<times> header list \<Rightarrow> nat \<times> header list \<Rightarrow> bool" where
  "same_table (made, c, ys) (cap, xs) \<longleftrightarrow> ys = xs \<and> cap = (if made then c else 4096)"

lemma step_covers: "covers q r \<Longrightarrow> covers (queue_step op q) (rfc_step op r)"
proof -
  obtain made c ys where q: "q = (made, c, ys)" by (cases q) auto
  obtain cap xs where r: "r = (cap, xs)" by (cases r) auto
  assume "covers q r"
  then obtain zs where cov: "cap \<le> (if made then c else 4096)" "ys = xs @ zs" using q r by auto
  show "covers (queue_step op q) (rfc_step op r)"
  proof (cases op)
    case (Insert x)
    let ?c = "if made then c else 4096"
    have "queue_step op q = (True, ?c, fit ?c ((x # xs) @ zs))" "rfc_step op r = (cap, fit cap (x # xs))"
      using q r cov(2) Insert by (simp_all only: queue_step.simps rfc_step.simps Let_def append_Cons)
    moreover obtain ws where "fit ?c ((x # xs) @ zs) = fit cap (x # xs) @ ws" using fit_grows [OF cov(1)] by blast
    ultimately show ?thesis using cov(1) by simp
  next
    case (Resize n)
    obtain ws where "fit n (xs @ zs) = fit n xs @ ws" using fit_grows [of n n xs zs] by blast
    then show ?thesis using q r cov Resize by auto
  qed
qed

lemma step_same:
  assumes "same_table q r" "fst q \<or> (\<exists>x. op = Insert x)"
  shows "same_table (queue_step op q) (rfc_step op r)"
  using assms by (cases q; cases r; cases op) auto

lemma run_covers: "covers q r \<Longrightarrow> covers (fold queue_step ops q) (fold rfc_step ops r)"
  by (induction ops arbitrary: q r) (simp_all add: step_covers)

lemma step_made: "fst q \<Longrightarrow> fst (queue_step op q)"
  by (cases q; cases op) (auto simp: Let_def)

lemma run_same: "same_table q r \<Longrightarrow> fst q \<Longrightarrow> same_table (fold queue_step ops q) (fold rfc_step ops r)"
  by (induction ops arbitrary: q r) (simp_all add: step_same step_made)

text \<open>The size updates before the first insertion; the operations from it on.\<close>

fun is_update :: "hpack_op \<Rightarrow> bool" where
  "is_update (Insert x) = False"
| "is_update (Resize n) = True"

definition heard :: "hpack_op list \<Rightarrow> hpack_op list" where
  "heard ops = dropWhile is_update ops"

text \<open>They change nothing: there is no insertion, or they end at the size the table starts with.\<close>

definition honoured :: "hpack_op list \<Rightarrow> bool" where
  "honoured ops \<longleftrightarrow> heard ops = [] \<or> fst (rfc_run (takeWhile is_update ops)) = 4096"

lemma updates_empty: "\<forall>op\<in>set ops. is_update op \<Longrightarrow> \<exists>c. fold queue_step ops (False, c0, []) = (False, c, [])"
proof (induction ops arbitrary: c0)
  case (Cons op ops)
  then obtain n where "op = Resize n" by (cases op) auto
  then show ?case using Cons by simp
qed simp

lemma rfc_updates_empty: "\<forall>op\<in>set ops. is_update op \<Longrightarrow> snd (fold rfc_step ops (c0, [])) = []"
proof (induction ops arbitrary: c0)
  case (Cons op ops)
  then obtain n where "op = Resize n" by (cases op) auto
  then show ?case using Cons by simp
qed simp

lemma all_updates: "\<forall>op\<in>set (takeWhile is_update ops). is_update op"
  by (auto dest: set_takeWhileD)

lemma run_heard: "same_table (fold queue_step ops (False, 0, [])) (rfc_run (heard ops))
    \<or> heard ops = [] \<and> snd (snd (fold queue_step ops (False, 0, []))) = []"
proof -
  let ?us = "takeWhile is_update ops"
  obtain c where c: "fold queue_step ?us (False, 0, []) = (False, c, [])"
    using updates_empty [OF all_updates] by blast
  have "fold queue_step (?us @ heard ops) (False, 0, []) = fold queue_step (heard ops) (False, c, [])"
    by (simp only: fold_append comp_apply c)
  then have run: "fold queue_step ops (False, 0, []) = fold queue_step (heard ops) (False, c, [])"
    by (simp add: heard_def)
  show ?thesis
  proof (cases "heard ops")
    case (Cons op rest)
    have "\<not> is_update op"
      using hd_dropWhile [of is_update ops] Cons unfolding heard_def by (metis list.distinct(1) list.sel(1))
    then obtain x where x: "op = Insert x" by (cases op) auto
    let ?q = "queue_step op (False, c, [])" and ?r = "rfc_step op (4096, [])"
    have "same_table ?q ?r" "fst ?q" using x by (simp_all add: Let_def)
    then have "same_table (fold queue_step rest ?q) (fold rfc_step rest ?r)" by (rule run_same)
    then show ?thesis by (simp add: run Cons rfc_run_def)
  qed (simp add: run)
qed

lemma heard_table: "snd (snd (fold queue_step ops (False, 0, []))) = rfc_table (heard ops)"
  using run_heard [of ops]
  by (cases "fold queue_step ops (False, 0, [])"; cases "rfc_run (heard ops)") (auto simp: rfc_table_def rfc_run_def)

lemma table_covers: "\<exists>zs. rfc_table (heard ops) = rfc_table ops @ zs"
proof -
  have "covers (fold queue_step ops (False, 0, [])) (rfc_run ops)"
    unfolding rfc_run_def by (rule run_covers) simp
  then show ?thesis unfolding heard_table [symmetric]
    by (cases "fold queue_step ops (False, 0, [])"; cases "rfc_run ops") (auto simp: rfc_table_def)
qed

lemma honoured_table: "honoured ops \<Longrightarrow> rfc_table (heard ops) = rfc_table ops"
proof -
  assume hon: "honoured ops"
  let ?us = "takeWhile is_update ops"
  have empty: "snd (rfc_run ?us) = []" unfolding rfc_run_def by (rule rfc_updates_empty [OF all_updates])
  have "rfc_run (?us @ heard ops) = fold rfc_step (heard ops) (rfc_run ?us)" by (simp add: rfc_run_def)
  then have run: "rfc_run ops = fold rfc_step (heard ops) (rfc_run ?us)" by (simp add: heard_def)
  show ?thesis
  proof (cases "heard ops = []")
    case True
    then show ?thesis using run empty by (simp add: rfc_table_def rfc_run_def)
  next
    case False
    then have "rfc_run ?us = (4096, [])" using hon empty by (cases "rfc_run ?us") (auto simp: honoured_def)
    then show ?thesis using run by (simp add: rfc_table_def rfc_run_def)
  qed
qed

lemma run_lookup:
  "ngx_http_v2_get_indexed_header never (hpack_run ops) index False header =
    (case queue_lookup (rfc_table (heard ops)) index of None \<Rightarrow> (NGX_ERROR, header) | Some x \<Rightarrow> (NGX_OK, x))"
  using hpack_run_simulates [of ops] unfolding heard_table [symmetric] by (metis lookup_simulates prod.collapse)

text \<open>C4: The header table of a connection after any sequence of insertions and size updates is the
  dynamic table of RFC 7541 of the same operations, without the size updates before the first insertion, which nginx
  forgets: an index below 62 gives the static entry, the index 62 and those after it the headers still in the table, the
  newest first, byte for byte, and any other index is refused; however the ring of bytes wraps around, whichever
  records are used again and whenever the ring of pointers grows.  If these first updates end at the size 4096, or
  nothing is inserted, nothing is forgotten: it is the RFC's table of all the operations.  Otherwise the RFC's table is
  still the front of it, so that every index that is valid for the RFC gives the RFC's header; only indices that
  the RFC refuses may give headers that should have been dropped.\<close>

theorem hpack_table_refines:
  "ngx_http_v2_get_indexed_header never (hpack_run ops) index False header =
      (case queue_lookup (rfc_table (heard ops)) index of None \<Rightarrow> (NGX_ERROR, header) | Some x \<Rightarrow> (NGX_OK, x))
    \<and> (honoured ops \<longrightarrow> rfc_table (heard ops) = rfc_table ops)
    \<and> (\<exists>dropped. rfc_table (heard ops) = rfc_table ops @ dropped)"
  using run_lookup honoured_table table_covers by blast

lemma hpack_table_refines_witness:
  "rfc_table (heard [Resize 100, Resize 4096, Insert ([1], [2]), Resize 70, Insert ([3], [4])])
     = rfc_table [Resize 100, Resize 4096, Insert ([1], [2]), Resize 70, Insert ([3], [4])]
   \<and> ngx_http_v2_get_indexed_header never
       (hpack_run [Resize 100, Resize 4096, Insert ([1], [2]), Resize 70, Insert ([3], [4])]) 63 False ([], [])
     = (NGX_OK, ([1], [2]))"
proof -
  let ?ops = "[Resize 100, Resize 4096, Insert ([1], [2]), Resize 70, Insert ([3], [4])]"
  have "honoured ?ops" by (simp add: honoured_def heard_def rfc_run_def)
  moreover have "queue_lookup (rfc_table (heard ?ops)) 63 = Some ([1], [2])"
    by (simp add: heard_def rfc_table_def rfc_run_def queue_lookup_def header_size_def header_bytes_def)
  ultimately show ?thesis using hpack_table_refines [of ?ops 63 "([], [])"] by simp
qed

text \<open>
  The size update that is forgotten: \<^verbatim>\<open>ngx_http_v2_add_header\<close> sets the size to 4096 whatever
  \<^verbatim>\<open>ngx_http_v2_table_size\<close> stored, and a header that the RFC's table cannot hold is found.
\<close>

lemma early_size_update_forgotten:
  assumes "header_size x \<le> 4096"
  shows "ngx_http_v2_get_indexed_header never (hpack_run [Resize 0, Insert x]) 62 False header = (NGX_OK, x)
    \<and> rfc_table [Resize 0, Insert x] = []"
  using run_lookup [of "[Resize 0, Insert x]" 62 header] assms
  by (simp add: heard_def rfc_table_def rfc_run_def queue_lookup_def header_size_def)

end
