(* ===== verification/Ngx_Http_V2_Block.thy ===== *)
theory Ngx_Http_V2_Block
  imports Ngx_Http_V2_Int Ngx_Http_V2_Table
begin

text \<open>
  The states of \<^verbatim>\<open>http/v2/ngx_http_v2.c\<close> that read a block of header fields, from
  \<^verbatim>\<open>ngx_http_v2_state_header_block\<close> to \<^verbatim>\<open>ngx_http_v2_state_header_complete\<close>, with the continuation frames
  and the bytes that are kept until more arrive.  A handler gets the bytes between \<^verbatim>\<open>pos\<close> and \<^verbatim>\<open>end\<close>.
  What the request does with a field (\<^verbatim>\<open>ngx_http_v2_validate_header\<close> and what follows it in
  \<^verbatim>\<open>ngx_http_v2_state_process_header\<close>) is a parameter.
\<close>

section \<open>The state\<close>

datatype h2_handler = Header_block | Field_len | Field_huff | Field_raw | Field_skip | Header_complete

text \<open>\<^verbatim>\<open>NGX_HTTP_V2_COMP_ERROR\<close> and the others that the modelled code sends.\<close>

datatype h2_error =
  Comp_error | Size_error | Protocol_error | Enhance_your_calm | Internal_error | Flow_ctrl_error | Stream_closed
  | No_error

text \<open>
  The fields of \<^verbatim>\<open>h2c->state\<close> that the handlers use, with the table of the connection.  \<open>bk_field\<close> has the
  bytes between \<^verbatim>\<open>field_start\<close> and \<^verbatim>\<open>field_end\<close>; \<open>bk_stream\<close> tells whether \<^verbatim>\<open>stream\<close> is not \<^verbatim>\<open>NULL\<close>, and
  \<open>bk_taken\<close> has the fields given to its request.
\<close>

record block =
  bk_sid :: nat
  bk_length :: nat
  bk_padding :: nat
  bk_flags :: u8
  bk_parse_name :: bool
  bk_parse_value :: bool
  bk_index :: bool
  bk_header :: header
  bk_header_limit :: nat
  bk_field_state :: nat
  bk_field :: "u8 list"
  bk_field_rest :: nat
  bk_stream :: bool
  bk_taken :: "header list"
  bk_hpack :: hpack

text \<open>
  The surroundings: \<^verbatim>\<open>large_client_header_buffers.size\<close>, the allocations that fail, that of a field among
  them, and the request: whether a field is taken, makes it end (\<^verbatim>\<open>goto error\<close>), or is an internal error.
\<close>

datatype verdict = Taken | Request_ended | Request_failed

record h2_env =
  he_field_max :: nat
  he_null :: "allocation \<Rightarrow> bool"
  he_null_field :: bool
  he_request :: "header list \<Rightarrow> header \<Rightarrow> verdict"

text \<open>
  How a handler ends: it calls another one at once, returns a position with the handler for it, keeps
  the bytes until there are more, ends the connection, or has read the block.
\<close>

datatype h2_next =
    Goto h2_handler block "u8 list"
  | Return h2_handler block "u8 list"
  | Save h2_handler block "u8 list"
  | Connection_error h2_error
  | Complete block "u8 list"

definition NGX_HTTP_V2_STATE_BUFFER_SIZE :: nat where
  "NGX_HTTP_V2_STATE_BUFFER_SIZE = 16"

definition NGX_HTTP_V2_FRAME_HEADER_SIZE :: nat where
  "NGX_HTTP_V2_FRAME_HEADER_SIZE = 9"

definition NGX_HTTP_V2_CONTINUATION_FRAME :: u8 where
  "NGX_HTTP_V2_CONTINUATION_FRAME = 9"

definition NGX_HTTP_V2_END_HEADERS_FLAG :: u8 where
  "NGX_HTTP_V2_END_HEADERS_FLAG = 4"

definition end_headers :: "block \<Rightarrow> bool" where
  "end_headers b \<longleftrightarrow> bk_flags b AND NGX_HTTP_V2_END_HEADERS_FLAG \<noteq> 0"

section \<open>Keeping bytes and continuation frames\<close>

definition ngx_http_v2_state_save :: "h2_handler \<Rightarrow> block \<Rightarrow> u8 list \<Rightarrow> h2_next" where
  "ngx_http_v2_state_save handler b inp =
     (if length inp > NGX_HTTP_V2_STATE_BUFFER_SIZE then Connection_error Internal_error else Save handler b inp)"

text \<open>\<^verbatim>\<open>ngx_http_v2_state_headers_save\<close> sets a timer besides.\<close>

definition ngx_http_v2_state_headers_save :: "h2_handler \<Rightarrow> block \<Rightarrow> u8 list \<Rightarrow> h2_next" where
  "ngx_http_v2_state_headers_save handler b inp = ngx_http_v2_state_save handler b inp"

text \<open>A number from bytes, the most significant first.\<close>

definition big_endian :: "u8 list \<Rightarrow> nat" where
  "big_endian bs = foldl (\<lambda>n c. n * 256 + unat c) 0 bs"

text \<open>
  The rest of the frame is followed by padding, which is dropped first, and the header of the next
  frame, which is cut out.
\<close>

definition ngx_http_v2_handle_continuation :: "h2_handler \<Rightarrow> block \<Rightarrow> u8 list \<Rightarrow> h2_next" where
  "ngx_http_v2_handle_continuation handler b inp =
     (let len = bk_length b;
          skip = (if bk_padding b \<noteq> 0 \<and> length inp > len then min (bk_padding b) (length inp - len) else 0);
          b = b\<lparr>bk_padding := bk_padding b - skip\<rparr>;
          inp = take len inp @ drop (len + skip) inp in
      if length inp < len + NGX_HTTP_V2_FRAME_HEADER_SIZE then ngx_http_v2_state_headers_save handler b inp
      else
        let p = drop len inp in
        if p ! 3 \<noteq> NGX_HTTP_V2_CONTINUATION_FRAME then Connection_error Protocol_error
        else
          let b = b\<lparr>bk_flags := bk_flags b OR p ! 4\<rparr> in
          if bk_sid b \<noteq> big_endian (take 4 (drop 5 p)) mod 2 ^ 31 then Connection_error Protocol_error
          else
            Return handler (b\<lparr>bk_length := bk_length b + big_endian (take 3 p)\<rparr>)
              (take len inp @ drop NGX_HTTP_V2_FRAME_HEADER_SIZE p))"

section \<open>The handlers\<close>

text \<open>
  \<^verbatim>\<open>ngx_http_v2_state_header_complete\<close>; what follows the block (running the request, the rest of the
  padding, the next frame) is left out.
\<close>

definition ngx_http_v2_state_header_complete :: "block \<Rightarrow> u8 list \<Rightarrow> h2_next" where
  "ngx_http_v2_state_header_complete b inp =
     (if bk_length b \<noteq> 0 then
        if inp \<noteq> [] then Return Header_block b inp
        else ngx_http_v2_state_headers_save Header_block b inp
      else if \<not> end_headers b then ngx_http_v2_handle_continuation Header_complete b inp
      else Complete b inp)"

definition ngx_http_v2_state_process_header :: "h2_env \<Rightarrow> block \<Rightarrow> u8 list \<Rightarrow> h2_next" where
  "ngx_http_v2_state_process_header env b inp =
     (if bk_parse_name b then
        let b = b\<lparr>bk_parse_name := False, bk_header := (bk_field b, snd (bk_header b))\<rparr> in
        if fst (bk_header b) = [] then Connection_error Protocol_error
        else Goto Field_len b inp
      else
        let b = (if bk_parse_value b then b\<lparr>bk_parse_value := False, bk_header := (fst (bk_header b), bk_field b)\<rparr> else b);
            len = length (fst (bk_header b)) + length (snd (bk_header b)) in
        if len > bk_header_limit b then Connection_error Enhance_your_calm
        else
          let b = b\<lparr>bk_header_limit := bk_header_limit b - len\<rparr> in
          case (if bk_index b then ngx_http_v2_add_header (he_null env) (bk_hpack b) (bk_header b) else (NGX_OK, bk_hpack b)) of
            (rc, hpack) \<Rightarrow>
              if rc \<noteq> NGX_OK then Connection_error Internal_error
              else
                let b = b\<lparr>bk_hpack := hpack, bk_index := False\<rparr> in
                if \<not> bk_stream b then Goto Header_complete b inp
                else
                  (case he_request env (bk_taken b) (bk_header b) of
                     Taken \<Rightarrow> Goto Header_complete (b\<lparr>bk_taken := bk_taken b @ [bk_header b]\<rparr>) inp
                   | Request_ended \<Rightarrow> Goto Header_complete (b\<lparr>bk_stream := False\<rparr>) inp
                   | Request_failed \<Rightarrow> Connection_error Internal_error))"

text \<open>What the three states of a field do when they have read what there is.\<close>

definition field_read :: "h2_env \<Rightarrow> h2_handler \<Rightarrow> block \<Rightarrow> u8 list \<Rightarrow> h2_next" where
  "field_read env handler b inp =
     (if bk_field_rest b = 0 then ngx_http_v2_state_process_header env b inp
      else if bk_length b \<noteq> 0 then ngx_http_v2_state_headers_save handler b inp
      else if end_headers b then Connection_error Size_error
      else ngx_http_v2_handle_continuation handler b inp)"

definition field_size :: "block \<Rightarrow> u8 list \<Rightarrow> nat" where
  "field_size b inp = min (min (length inp) (bk_field_rest b)) (bk_length b)"

definition field_consumed :: "nat \<Rightarrow> block \<Rightarrow> block" where
  "field_consumed n b = b\<lparr>bk_length := bk_length b - n, bk_field_rest := bk_field_rest b - n\<rparr>"

definition ngx_http_v2_state_field_huff :: "h2_env \<Rightarrow> block \<Rightarrow> u8 list \<Rightarrow> h2_next" where
  "ngx_http_v2_state_field_huff env b inp =
     (let n = field_size b inp;
          b = field_consumed n b in
      case ngx_http_huff_decode (bk_field_state b) (take n inp) (bk_field b) (bk_field_rest b = 0) of
        (rc, state, field) \<Rightarrow>
          if rc \<noteq> NGX_OK then Connection_error Comp_error
          else field_read env Field_huff (b\<lparr>bk_field_state := state, bk_field := field\<rparr>) (drop n inp))"

definition ngx_http_v2_state_field_raw :: "h2_env \<Rightarrow> block \<Rightarrow> u8 list \<Rightarrow> h2_next" where
  "ngx_http_v2_state_field_raw env b inp =
     (let n = field_size b inp;
          b = field_consumed n b in
      field_read env Field_raw (b\<lparr>bk_field := bk_field b @ take n inp\<rparr>) (drop n inp))"

text \<open>The position of the field stays where an earlier one has left it.\<close>

definition ngx_http_v2_state_field_skip :: "h2_env \<Rightarrow> block \<Rightarrow> u8 list \<Rightarrow> h2_next" where
  "ngx_http_v2_state_field_skip env b inp =
     (let n = field_size b inp in field_read env Field_skip (field_consumed n b) (drop n inp))"

text \<open>The answers to a number that cannot be read.\<close>

definition bad_int :: "ngx_rc \<Rightarrow> h2_handler \<Rightarrow> block \<Rightarrow> u8 list \<Rightarrow> h2_next" where
  "bad_int rc handler b inp =
     (if rc = NGX_AGAIN then ngx_http_v2_state_headers_save handler b inp
      else if rc = NGX_DECLINED then Connection_error Comp_error
      else Connection_error Size_error)"

definition ngx_http_v2_state_field_len :: "h2_env \<Rightarrow> block \<Rightarrow> u8 list \<Rightarrow> h2_next" where
  "ngx_http_v2_state_field_len env b inp =
     (if \<not> end_headers b \<and> bk_length b < NGX_HTTP_V2_INT_OCTETS then ngx_http_v2_handle_continuation Field_len b inp
      else if bk_length b < 1 then Connection_error Size_error
      else if inp = [] then ngx_http_v2_state_headers_save Field_len b inp
      else
        let huff = drop_bit 7 (hd inp) \<noteq> 0 in
        case ngx_http_v2_parse_int (bk_length b) inp (ngx_http_v2_prefix 7) of
          Inl rc \<Rightarrow> bad_int rc Field_len b inp
        | Inr (len, n, rest) \<Rightarrow>
            let b = b\<lparr>bk_length := rest\<rparr>;
                inp = drop n inp in
            if len > he_field_max env then Connection_error Enhance_your_calm
            else
              let b = b\<lparr>bk_field_rest := len\<rparr> in
              if \<not> bk_stream b \<and> \<not> bk_index b then Goto Field_skip b inp
              else if he_null_field env then Connection_error Internal_error
              else Goto (if huff then Field_huff else Field_raw) (b\<lparr>bk_field := []\<rparr>) inp)"

text \<open>The kinds of fields, with the greatest value of their prefix.\<close>

datatype field_kind = Indexed_kind | Incremental_kind | Update_kind | Literal_kind

definition field_kind :: "u8 \<Rightarrow> field_kind \<times> nat" where
  "field_kind ch =
     (if ch \<ge> 128 then (Indexed_kind, ngx_http_v2_prefix 7)
      else if ch \<ge> 64 then (Incremental_kind, ngx_http_v2_prefix 6)
      else if ch \<ge> 32 then (Update_kind, ngx_http_v2_prefix 5)
      else (Literal_kind, ngx_http_v2_prefix 4))"

definition ngx_http_v2_state_header_block :: "h2_env \<Rightarrow> block \<Rightarrow> u8 list \<Rightarrow> h2_next" where
  "ngx_http_v2_state_header_block env b inp =
     (if inp = [] then ngx_http_v2_state_headers_save Header_block b inp
      else if \<not> end_headers b \<and> bk_length b < NGX_HTTP_V2_INT_OCTETS
      then ngx_http_v2_handle_continuation Header_block b inp
      else
        case field_kind (hd inp) of (kind, prefix) \<Rightarrow>
        let b = b\<lparr>bk_index := bk_index b \<or> kind = Incremental_kind\<rparr> in
        case ngx_http_v2_parse_int (bk_length b) inp prefix of
          Inl rc \<Rightarrow> bad_int rc Header_block b inp
        | Inr (v, n, rest) \<Rightarrow>
            let b = b\<lparr>bk_length := rest\<rparr>;
                inp = drop n inp in
            if kind = Indexed_kind then
              (case ngx_http_v2_get_indexed_header (he_null env) (bk_hpack b) v False (bk_header b) of (rc, header) \<Rightarrow>
                 if rc \<noteq> NGX_OK then Connection_error Comp_error
                 else ngx_http_v2_state_process_header env (b\<lparr>bk_header := header\<rparr>) inp)
            else if kind = Update_kind then
              (case ngx_http_v2_table_size (bk_hpack b) v of (rc, hpack) \<Rightarrow>
                 if rc \<noteq> NGX_OK then Connection_error Comp_error
                 else Goto Header_complete (b\<lparr>bk_hpack := hpack\<rparr>) inp)
            else if v = 0 then Goto Field_len (b\<lparr>bk_parse_name := True, bk_parse_value := True\<rparr>) inp
            else
              (case ngx_http_v2_get_indexed_header (he_null env) (bk_hpack b) v True (bk_header b) of (rc, header) \<Rightarrow>
                 if rc \<noteq> NGX_OK then Connection_error Comp_error
                 else Goto Field_len (b\<lparr>bk_header := header, bk_parse_value := True\<rparr>) inp))"

section \<open>The loop of the connection\<close>

fun h2_step :: "h2_env \<Rightarrow> h2_handler \<Rightarrow> block \<Rightarrow> u8 list \<Rightarrow> h2_next" where
  "h2_step env Header_block = ngx_http_v2_state_header_block env"
| "h2_step env Field_len = ngx_http_v2_state_field_len env"
| "h2_step env Field_huff = ngx_http_v2_state_field_huff env"
| "h2_step env Field_raw = ngx_http_v2_state_field_raw env"
| "h2_step env Field_skip = ngx_http_v2_state_field_skip env"
| "h2_step env Header_complete = ngx_http_v2_state_header_complete"

text \<open>Every round reads bytes, or goes on to a state that does.\<close>

fun h2_rank :: "h2_handler \<Rightarrow> nat" where
  "h2_rank Header_complete = 2"
| "h2_rank Header_block = 1"
| "h2_rank Field_len = 1"
| "h2_rank _ = 3"

definition h2_less :: "u8 list \<Rightarrow> h2_handler \<Rightarrow> u8 list \<Rightarrow> h2_handler \<Rightarrow> bool" where
  "h2_less r h' inp h \<longleftrightarrow> length r < length inp \<or> length r = length inp \<and> h2_rank h' < h2_rank h"

definition continues :: "h2_next \<Rightarrow> h2_handler \<Rightarrow> u8 list \<Rightarrow> bool" where
  "continues x h' r \<longleftrightarrow> (\<exists>b'. x = Goto h' b' r \<or> x = Return h' b' r)"

lemma continues_simps [simp]:
  "continues (Goto h b i) h' r \<longleftrightarrow> h = h' \<and> i = r" "continues (Return h b i) h' r \<longleftrightarrow> h = h' \<and> i = r"
  "\<not> continues (Save h b i) h' r" "\<not> continues (Connection_error e) h' r" "\<not> continues (Complete b i) h' r"
  by (auto simp: continues_def)

lemma save_stops [simp]: "\<not> continues (ngx_http_v2_state_headers_save h b inp) h' r"
  by (simp add: ngx_http_v2_state_headers_save_def ngx_http_v2_state_save_def)

lemma continuation_less: "continues (ngx_http_v2_handle_continuation h b inp) h' r \<Longrightarrow> length r < length inp"
  by (auto simp: ngx_http_v2_handle_continuation_def NGX_HTTP_V2_FRAME_HEADER_SIZE_def Let_def split: if_splits)

lemma complete_less:
  "continues (ngx_http_v2_state_header_complete b inp) h' r \<Longrightarrow> h2_less r h' inp Header_complete"
  using continuation_less [of Header_complete b inp h' r]
  by (auto simp: ngx_http_v2_state_header_complete_def h2_less_def split: if_splits)

lemma process_less:
  "continues (ngx_http_v2_state_process_header env b inp) h' r \<Longrightarrow> length r = length inp \<and> h2_rank h' < 3"
  by (auto simp: ngx_http_v2_state_process_header_def Let_def split: if_splits prod.splits verdict.splits)

lemma field_read_less:
  "continues (field_read env h b (drop n inp)) h' r \<Longrightarrow> h2_rank h = 3 \<Longrightarrow> h2_less r h' inp h"
  using process_less [of env b "drop n inp" h' r] continuation_less [of h b "drop n inp" h' r]
  by (auto simp: field_read_def h2_less_def split: if_splits)

lemma int_loop_count: "int_loop v shift n cs = Some (v', n') \<Longrightarrow> n < n'"
  by (induction v shift n cs arbitrary: v' n' rule: int_loop.induct) (fastforce simp: Let_def split: if_splits)+

lemma parse_int_count: "ngx_http_v2_parse_int len inp prefix = Inr (v, n, rest) \<Longrightarrow> 0 < n"
  using int_loop_count
  by (fastforce simp: ngx_http_v2_parse_int_def Let_def split: if_splits option.splits)

lemma bad_int_stops [simp]: "\<not> continues (bad_int rc h b inp) h' r"
  by (simp add: bad_int_def)

lemma field_len_less:
  "continues (ngx_http_v2_state_field_len env b inp) h' r \<Longrightarrow> length r < length inp"
  using continuation_less [of Field_len b inp h' r] parse_int_count [of "bk_length b" inp "ngx_http_v2_prefix 7"]
  by (fastforce simp: ngx_http_v2_state_field_len_def Let_def split: if_splits sum.splits prod.splits)

lemma header_block_less:
  assumes "continues (ngx_http_v2_state_header_block env b inp) h' r"
  shows "length r < length inp"
proof (cases "inp = [] \<or> \<not> end_headers b \<and> bk_length b < NGX_HTTP_V2_INT_OCTETS")
  case True
  then show ?thesis using assms continuation_less [of Header_block b inp h' r]
    by (auto simp: ngx_http_v2_state_header_block_def split: if_splits)
next
  case False
  obtain kind prefix where kind: "field_kind (hd inp) = (kind, prefix)" by fastforce
  show ?thesis
  proof (cases "ngx_http_v2_parse_int (bk_length b) inp prefix")
    case (Inl rc)
    then show ?thesis using assms False kind by (auto simp: ngx_http_v2_state_header_block_def Let_def)
  next
    case (Inr vnr)
    then obtain v n rest where int: "ngx_http_v2_parse_int (bk_length b) inp prefix = Inr (v, n, rest)" by (cases vnr) auto
    have "length (drop n inp) < length inp" using parse_int_count [OF int] False by auto
    then show ?thesis using assms False kind int process_less [of env _ "drop n inp" h' r]
      by (auto simp: ngx_http_v2_state_header_block_def Let_def split: if_splits prod.splits dest!: process_less)
  qed
qed

lemma h2_step_less: "continues (h2_step env h b inp) h' r \<Longrightarrow> h2_less r h' inp h"
proof (cases h)
  case Header_block
  then show "continues (h2_step env h b inp) h' r \<Longrightarrow> ?thesis"
    using header_block_less [of env b inp h' r] by (simp add: h2_less_def)
next
  case Field_len
  then show "continues (h2_step env h b inp) h' r \<Longrightarrow> ?thesis"
    using field_len_less [of env b inp h' r] by (simp add: h2_less_def)
next
  case Header_complete
  then show "continues (h2_step env h b inp) h' r \<Longrightarrow> ?thesis" using complete_less [of b inp h' r] by simp
qed (auto simp: ngx_http_v2_state_field_huff_def ngx_http_v2_state_field_raw_def ngx_http_v2_state_field_skip_def
    Let_def split: prod.splits if_splits intro!: field_read_less)

text \<open>
  The inner loop of \<^verbatim>\<open>ngx_http_v2_read_handler\<close>: it stops when the bytes are used up or kept, when the
  connection ends, and here when the block has been read.
\<close>

datatype h2_result = Waiting h2_handler block "u8 list" | Failed h2_error | Finished block "u8 list"

function h2_run :: "h2_env \<Rightarrow> h2_handler \<Rightarrow> block \<Rightarrow> u8 list \<Rightarrow> h2_result" where
  "h2_run env h b inp =
     (case h2_step env h b inp of
        Goto h b r \<Rightarrow> h2_run env h b r
      | Return h b r \<Rightarrow> if r = [] then Waiting h b [] else h2_run env h b r
      | Save h b r \<Rightarrow> Waiting h b r
      | Connection_error e \<Rightarrow> Failed e
      | Complete b r \<Rightarrow> Finished b r)"
  by pat_completeness auto
termination
  by (relation "measures [\<lambda>(env, h, b, inp). length inp, \<lambda>(env, h, b, inp). h2_rank h]")
    (use h2_step_less in \<open>fastforce simp: h2_less_def continues_def\<close>)+

declare h2_run.simps [simp del]

text \<open>Pieces that arrive one after the other, each behind the bytes that were kept.\<close>

fun h2_feed :: "h2_env \<Rightarrow> h2_result \<Rightarrow> u8 list list \<Rightarrow> h2_result" where
  "h2_feed env (Waiting h b kept) (p # ps) = h2_feed env (h2_run env h b (kept @ p)) ps"
| "h2_feed env (Finished b kept) (p # ps) = h2_feed env (Finished b (kept @ p)) ps"
| "h2_feed env result _ = result"

section \<open>Where the block is cut does not matter\<close>

lemma int_loop_more: "int_loop v shift n cs = Some r \<Longrightarrow> int_loop v shift n (cs @ ds) = Some r"
  by (induction v shift n cs rule: int_loop.induct) (auto simp: Let_def split: if_splits)

lemma int_loop_bounds: "int_loop v shift n cs = Some (v', n') \<Longrightarrow> n' \<le> n + length cs"
  by (induction v shift n cs arbitrary: v' n' rule: int_loop.induct) (fastforce simp: Let_def split: if_splits)+

lemma int_loop_none:
  "int_loop v shift n cs = None \<Longrightarrow> int_loop v shift n (cs @ ds) = Some (v', n') \<Longrightarrow> n + length cs < n'"
  by (induction v shift n cs arbitrary: v' n' rule: int_loop.induct)
    (fastforce simp: Let_def dest: int_loop_count split: if_splits)+

lemma parse_int_more:
  assumes "xs \<noteq> []"
  shows "case ngx_http_v2_parse_int len xs prefix of
      Inr (v, n, rest) \<Rightarrow> n \<le> length xs \<and> ngx_http_v2_parse_int len (xs @ ys) prefix = Inr (v, n, rest)
    | Inl rc \<Rightarrow> if rc = NGX_AGAIN then length xs < 4 else ngx_http_v2_parse_int len (xs @ ys) prefix = Inl rc"
proof -
  obtain c cs where xs: "xs = c # cs" using assms by (cases xs) auto
  let ?v = "unat (c AND word_of_nat prefix)"
  show ?thesis
  proof (cases "?v = prefix")
    case False
    then show ?thesis by (simp add: xs ngx_http_v2_parse_int_def)
  next
    case True
    obtain ds where ds: "take 3 (cs @ ys) = take 3 cs @ ds" "length cs \<ge> 3 \<longrightarrow> ds = []" by simp
    have loop: "ngx_http_v2_parse_int len (c # zs) prefix =
        (case int_loop ?v 0 1 (take 3 zs) of
          Some (v, n) \<Rightarrow> if n > len then Inl NGX_ERROR else Inr (v, n, len - n)
        | None \<Rightarrow>
            if length (take 3 zs) + 1 \<ge> len then Inl NGX_ERROR
            else if length (take 3 zs) = 3 then Inl NGX_DECLINED else Inl NGX_AGAIN)" for zs
      using True by (simp add: ngx_http_v2_parse_int_def NGX_HTTP_V2_INT_OCTETS_def Let_def min_def)
    show ?thesis
    proof (cases "int_loop ?v 0 1 (take 3 cs)")
      case (Some vn)
      obtain v n where vn: "int_loop ?v 0 1 (take 3 cs) = Some (v, n)" using Some by (cases vn) auto
      then have "n \<le> length xs" using int_loop_bounds [OF vn] by (simp add: xs)
      moreover have "int_loop ?v 0 1 (take 3 (cs @ ys)) = Some (v, n)" unfolding ds(1) by (rule int_loop_more [OF vn])
      ultimately show ?thesis using vn by (simp add: xs loop)
    next
      case None
      show ?thesis
      proof (cases "length cs < 3")
        case True
        then show ?thesis
        proof (cases "length (take 3 cs) + 1 \<ge> len")
          case long: True
          have "ngx_http_v2_parse_int len (c # cs @ ys) prefix = Inl NGX_ERROR"
          proof (cases "int_loop ?v 0 1 (take 3 (cs @ ys))")
            case no: None
            then show ?thesis using long unfolding loop ds(1) by auto
          next
            case (Some vn)
            then obtain v n where "int_loop ?v 0 1 (take 3 cs @ ds) = Some (v, n)" unfolding ds(1) by (cases vn) auto
            then show ?thesis using int_loop_none [OF None] long unfolding loop ds(1) by fastforce
          qed
          then show ?thesis using long None by (simp add: xs loop)
        next
          case False
          then show ?thesis using True None by (simp add: xs loop)
        qed
      next
        case False
        then have "take 3 (cs @ ys) = take 3 cs" by simp
        then show ?thesis using None False by (simp add: xs loop)
      qed
    qed
  qed
qed

lemma decode_loop_append:
  "huff_decode_loop s e (xs @ ys) dst = (case huff_decode_loop s e xs dst of
      (True, t, e', dst') \<Rightarrow> huff_decode_loop t e' ys dst' | r \<Rightarrow> r)"
  by (induction s e xs dst rule: huff_decode_loop.induct) (auto split: option.splits prod.splits bool.splits)

lemma decode_loop_ending: "ys \<noteq> [] \<Longrightarrow> huff_decode_loop s True ys dst = (ok, r) \<Longrightarrow> ok \<Longrightarrow>
    huff_decode_loop s e ys dst = (ok, r)"
  by (cases ys) (auto split: option.splits prod.splits)

lemma decode_loop_failed: "\<not> fst (huff_decode_loop s e ys dst) \<Longrightarrow> \<not> fst (huff_decode_loop s e' ys dst)"
  by (cases ys) (auto split: option.splits prod.splits)

lemma decode_more:
  assumes "ngx_http_huff_decode s xs dst False = (rc, t, dst')" "ys \<noteq> []"
  shows "if rc = NGX_OK then
      (case ngx_http_huff_decode t ys dst' is_last of
         (rc', u) \<Rightarrow> rc' = NGX_OK \<and> ngx_http_huff_decode s (xs @ ys) dst is_last = (rc', u)
           \<or> rc' \<noteq> NGX_OK \<and> fst (ngx_http_huff_decode s (xs @ ys) dst is_last) \<noteq> NGX_OK)
    else fst (ngx_http_huff_decode s (xs @ ys) dst is_last) \<noteq> NGX_OK"
proof -
  obtain ok t1 e d where one: "huff_decode_loop s True xs dst = (ok, t1, e, d)" by (metis prod_cases4)
  show ?thesis
  proof (cases ok)
    case False
    then show ?thesis using assms(1) one by (auto simp: ngx_http_huff_decode_def decode_loop_append)
  next
    case True
    then have eq: "rc = NGX_OK" "t = t1" "dst' = d" using assms(1) one by (simp_all add: ngx_http_huff_decode_def)
    obtain ok2 t2 e2 d2 where two: "huff_decode_loop t True ys d = (ok2, t2, e2, d2)" by (metis prod_cases4)
    show ?thesis
    proof (cases ok2)
      case yes: True
      then have "huff_decode_loop t e ys d = (ok2, t2, e2, d2)" using decode_loop_ending [OF assms(2) two] by simp
      then show ?thesis using True yes one two eq by (auto simp: ngx_http_huff_decode_def decode_loop_append)
    next
      case no: False
      then have "\<not> fst (huff_decode_loop t e ys d)" using decode_loop_failed [of t True ys d e] two by simp
      then show ?thesis using True no one two eq
        by (auto simp: ngx_http_huff_decode_def decode_loop_append split: prod.splits bool.splits)
    qed
  qed
qed

text \<open>What a handler does with more bytes than it has.\<close>

definition agrees :: "h2_env \<Rightarrow> h2_next \<Rightarrow> h2_next \<Rightarrow> u8 list \<Rightarrow> bool" where
  "agrees env x y ys \<longleftrightarrow>
     (case x of
        Goto h b r \<Rightarrow> y = Goto h b (r @ ys)
      | Return h b r \<Rightarrow> y = Return h b (r @ ys)
      | Save h b r \<Rightarrow> y = h2_step env h b (r @ ys) \<or> y = Return h b (r @ ys)
      | Connection_error e \<Rightarrow> y = Connection_error e
      | Complete b r \<Rightarrow> y = Complete b (r @ ys))"

lemma complete_more:
  "end_headers b \<Longrightarrow> ys \<noteq> [] \<Longrightarrow>
    agrees env (ngx_http_v2_state_header_complete b xs) (ngx_http_v2_state_header_complete b (xs @ ys)) ys"
  by (auto simp: agrees_def ngx_http_v2_state_header_complete_def ngx_http_v2_state_headers_save_def
      ngx_http_v2_state_save_def NGX_HTTP_V2_STATE_BUFFER_SIZE_def)

lemma process_more:
  "agrees env (ngx_http_v2_state_process_header env' b xs) (ngx_http_v2_state_process_header env' b (xs @ ys)) ys"
  by (auto simp: agrees_def ngx_http_v2_state_process_header_def Let_def split: prod.splits verdict.splits)

text \<open>A field that is not limited by the bytes at hand.\<close>

lemma field_read_more:
  "end_headers b \<Longrightarrow> bk_field_rest b = 0 \<or> bk_length b = 0 \<Longrightarrow>
    agrees env' (field_read env h b xs) (field_read env h b (xs @ ys)) ys"
  using process_more [of env' env b xs ys] by (auto simp: field_read_def agrees_def)

lemma end_headers_simps [simp]:
  "end_headers (b\<lparr>bk_field_state := a\<rparr>) = end_headers b" "end_headers (b\<lparr>bk_field := f\<rparr>) = end_headers b"
  "end_headers (b\<lparr>bk_length := a\<rparr>) = end_headers b" "end_headers (b\<lparr>bk_field_rest := a\<rparr>) = end_headers b"
  "end_headers (b\<lparr>bk_index := c\<rparr>) = end_headers b" "end_headers (b\<lparr>bk_header := x\<rparr>) = end_headers b"
  "end_headers (b\<lparr>bk_parse_name := c\<rparr>) = end_headers b" "end_headers (b\<lparr>bk_parse_value := c\<rparr>) = end_headers b"
  "end_headers (b\<lparr>bk_header_limit := a\<rparr>) = end_headers b" "end_headers (b\<lparr>bk_hpack := p\<rparr>) = end_headers b"
  "end_headers (b\<lparr>bk_taken := ts\<rparr>) = end_headers b" "end_headers (b\<lparr>bk_stream := c\<rparr>) = end_headers b"
  "end_headers (field_consumed a b) = end_headers b"
  by (simp_all add: end_headers_def field_consumed_def)

lemma field_size_cases:
  obtains (limited) "field_size b (xs @ ys) = field_size b xs" "field_size b xs \<le> length xs"
      "field_size b xs = bk_field_rest b \<or> field_size b xs = bk_length b"
  | (partial) "field_size b xs = length xs" "length xs < bk_field_rest b" "length xs < bk_length b"
      "field_size b (xs @ ys) = length xs + field_size (field_consumed (length xs) b) ys"
proof (cases "length xs < bk_field_rest b \<and> length xs < bk_length b")
  case True
  then have "field_size b xs = length xs" by (simp add: field_size_def)
  moreover have "field_size b (xs @ ys) = length xs + field_size (field_consumed (length xs) b) ys"
    using True by (auto simp: field_size_def field_consumed_def min_def)
  ultimately show thesis using True by (intro partial) simp_all
next
  case False
  then have "field_size b (xs @ ys) = field_size b xs" by (simp only: field_size_def length_append) arith
  moreover have "field_size b xs = bk_field_rest b \<or> field_size b xs = bk_length b"
    using False by (auto simp: field_size_def min_def)
  moreover have "field_size b xs \<le> length xs" by (simp add: field_size_def)
  ultimately show thesis by (intro limited)
qed

lemma partial_save:
  assumes "length xs < bk_field_rest b" "length xs < bk_length b" "bk_field_rest b' = bk_field_rest b - length xs"
    "bk_length b' = bk_length b - length xs"
  shows "field_read env h b' [] = Save h b' []"
  using assms by (simp add: field_read_def ngx_http_v2_state_headers_save_def ngx_http_v2_state_save_def)

lemma field_consumed_twice: "field_consumed (n + m) b = field_consumed m (field_consumed n b)"
  by (simp add: field_consumed_def)

lemma raw_more:
  assumes "end_headers b" "ys \<noteq> []"
  shows "agrees env (ngx_http_v2_state_field_raw env b xs) (ngx_http_v2_state_field_raw env b (xs @ ys)) ys"
proof (cases rule: field_size_cases [of b xs ys])
  case limited
  then show ?thesis using assms
    by (auto simp: ngx_http_v2_state_field_raw_def Let_def intro!: field_read_more) (auto simp: field_consumed_def)
next
  case partial
  let ?b = "(field_consumed (length xs) b)\<lparr>bk_field := bk_field b @ xs\<rparr>"
  have "ngx_http_v2_state_field_raw env b xs = Save Field_raw ?b []"
    using partial partial_save [of xs b ?b env Field_raw]
    by (simp add: ngx_http_v2_state_field_raw_def field_consumed_def Let_def)
  moreover have "ngx_http_v2_state_field_raw env b (xs @ ys) = ngx_http_v2_state_field_raw env ?b ys"
    using partial(4) by (simp add: ngx_http_v2_state_field_raw_def field_consumed_def field_size_def Let_def add.commute)
  ultimately show ?thesis by (simp add: agrees_def)
qed

lemma skip_more:
  assumes "end_headers b" "ys \<noteq> []"
  shows "agrees env (ngx_http_v2_state_field_skip env b xs) (ngx_http_v2_state_field_skip env b (xs @ ys)) ys"
proof (cases rule: field_size_cases [of b xs ys])
  case limited
  then show ?thesis using assms
    by (auto simp: ngx_http_v2_state_field_skip_def Let_def intro!: field_read_more) (auto simp: field_consumed_def)
next
  case partial
  let ?b = "field_consumed (length xs) b"
  have "ngx_http_v2_state_field_skip env b xs = Save Field_skip ?b []"
    using partial partial_save [of xs b ?b env Field_skip]
    by (simp add: ngx_http_v2_state_field_skip_def field_consumed_def Let_def)
  moreover have "ngx_http_v2_state_field_skip env b (xs @ ys) = ngx_http_v2_state_field_skip env ?b ys"
    using partial(4) by (simp add: ngx_http_v2_state_field_skip_def field_consumed_twice Let_def)
  ultimately show ?thesis by (simp add: agrees_def)
qed

lemma huff_more:
  assumes "end_headers b" "ys \<noteq> []"
  shows "agrees env (ngx_http_v2_state_field_huff env b xs) (ngx_http_v2_state_field_huff env b (xs @ ys)) ys"
proof (cases rule: field_size_cases [of b xs ys])
  case limited
  let ?b = "field_consumed (field_size b xs) b"
  obtain rc t d where "ngx_http_huff_decode (bk_field_state b) (take (field_size b xs) xs) (bk_field b) (bk_field_rest ?b = 0) = (rc, t, d)"
    by (metis prod_cases3)
  moreover have "bk_field_state ?b = bk_field_state b" "bk_field ?b = bk_field b" by (simp_all add: field_consumed_def)
  moreover have "bk_field_rest ?b = 0 \<or> bk_length ?b = 0" using limited(3) by (auto simp: field_consumed_def)
  ultimately show ?thesis using limited(1,2) assms
    by (auto simp: ngx_http_v2_state_field_huff_def Let_def agrees_def [of _ "Connection_error e" for e] intro!: field_read_more)
next
  case partial
  let ?n = "length xs"
  let ?b = "field_consumed ?n b"
  let ?m = "field_size ?b ys"
  have fields: "bk_field_state ?b = bk_field_state b" "bk_field ?b = bk_field b" "bk_field_rest ?b \<noteq> 0"
      "bk_field_state (field_consumed (?n + ?m) b) = bk_field_state b" "bk_field (field_consumed (?n + ?m) b) = bk_field b"
    using partial by (simp_all add: field_consumed_def)
  have "take ?m ys \<noteq> []" using partial assms(2) by (auto simp: field_size_def field_consumed_def min_def)
  obtain rc t d where one: "ngx_http_huff_decode (bk_field_state b) xs (bk_field b) False = (rc, t, d)"
    by (metis prod_cases3)
  define is_last where "is_last \<longleftrightarrow> bk_field_rest (field_consumed (?n + ?m) b) = 0"
  note more = decode_more [OF one \<open>take ?m ys \<noteq> []\<close>, of is_last]
  have first: "ngx_http_v2_state_field_huff env b xs = (if rc \<noteq> NGX_OK then Connection_error Comp_error
      else field_read env Field_huff (?b\<lparr>bk_field_state := t, bk_field := d\<rparr>) [])"
    using partial(1) one fields by (simp add: ngx_http_v2_state_field_huff_def Let_def)
  have whole: "ngx_http_v2_state_field_huff env b (xs @ ys) =
      (case ngx_http_huff_decode (bk_field_state b) (xs @ take ?m ys) (bk_field b) is_last of (rc, t, d) \<Rightarrow>
        if rc \<noteq> NGX_OK then Connection_error Comp_error
        else field_read env Field_huff ((field_consumed (?n + ?m) b)\<lparr>bk_field_state := t, bk_field := d\<rparr>) (drop ?m ys))"
  proof -
    have cut: "take (?n + ?m) (xs @ ys) = xs @ take ?m ys" "drop (?n + ?m) (xs @ ys) = drop ?m ys" by simp_all
    show ?thesis
      unfolding ngx_http_v2_state_field_huff_def Let_def partial(4) cut fields(4,5) is_last_def ..
  qed
  show ?thesis
  proof (cases "rc = NGX_OK")
    case False
    then have "fst (ngx_http_huff_decode (bk_field_state b) (xs @ take ?m ys) (bk_field b) is_last) \<noteq> NGX_OK"
      using more by simp
    then show ?thesis using False unfolding first whole by (auto simp: agrees_def split: prod.splits)
  next
    case True
    let ?c = "?b\<lparr>bk_field_state := t, bk_field := d\<rparr>"
    have save: "field_read env Field_huff ?c [] = Save Field_huff ?c []"
      using partial(2,3) by (intro partial_save [of xs b]) (simp_all add: field_consumed_def)
    obtain rc' u d' where two: "ngx_http_huff_decode t (take ?m ys) d is_last = (rc', u, d')" by (metis prod_cases3)
    have size: "field_size ?c ys = ?m" "field_consumed ?m ?c = (field_consumed (?n + ?m) b)\<lparr>bk_field_state := t, bk_field := d\<rparr>"
      by (simp_all add: field_size_def field_consumed_def)
    have "ngx_http_v2_state_field_huff env ?c ys = (if rc' \<noteq> NGX_OK then Connection_error Comp_error
        else field_read env Field_huff ((field_consumed (?n + ?m) b)\<lparr>bk_field_state := u, bk_field := d'\<rparr>) (drop ?m ys))"
      using two unfolding ngx_http_v2_state_field_huff_def size Let_def by (simp add: is_last_def)
    then have "ngx_http_v2_state_field_huff env b (xs @ ys) = ngx_http_v2_state_field_huff env ?c ys"
      using more True two unfolding whole by (auto split: prod.splits)
    then show ?thesis using True unfolding first save by (simp add: agrees_def)
  qed
qed

lemma bad_int_more: "rc \<noteq> NGX_AGAIN \<Longrightarrow> agrees env (bad_int rc h b xs) (bad_int rc h b' zs) ys"
  by (simp add: bad_int_def agrees_def)

lemma bad_int_again: "length xs < 4 \<Longrightarrow> bad_int NGX_AGAIN h b xs = Save h b xs"
  by (simp add: bad_int_def ngx_http_v2_state_headers_save_def ngx_http_v2_state_save_def NGX_HTTP_V2_STATE_BUFFER_SIZE_def)

lemma len_more:
  assumes "end_headers b" "ys \<noteq> []"
  shows "agrees env (ngx_http_v2_state_field_len env b xs) (ngx_http_v2_state_field_len env b (xs @ ys)) ys"
proof (cases "xs = [] \<or> bk_length b < 1")
  case True
  then show ?thesis using assms
    by (auto simp: ngx_http_v2_state_field_len_def agrees_def ngx_http_v2_state_headers_save_def
        ngx_http_v2_state_save_def NGX_HTTP_V2_STATE_BUFFER_SIZE_def)
next
  case False
  note int = parse_int_more [where xs = xs and len = "bk_length b" and prefix = "ngx_http_v2_prefix 7" and ys = ys]
  show ?thesis
  proof (cases "ngx_http_v2_parse_int (bk_length b) xs (ngx_http_v2_prefix 7)")
    case (Inl rc)
    show ?thesis
    proof (cases "rc = NGX_AGAIN")
      case True
      then have "ngx_http_v2_state_field_len env b xs = Save Field_len b xs"
        using Inl int False assms(1) bad_int_again [of xs] by (simp add: ngx_http_v2_state_field_len_def)
      then show ?thesis by (simp add: agrees_def)
    next
      case no: False
      then show ?thesis using Inl int False assms bad_int_more [OF no]
        by (simp add: ngx_http_v2_state_field_len_def)
    qed
  next
    case (Inr vnr)
    obtain v n r where vnr: "vnr = (v, n, r)" by (cases vnr) auto
    then show ?thesis using Inr int False assms
      by (simp add: ngx_http_v2_state_field_len_def agrees_def Let_def)
  qed
qed

lemma block_more:
  assumes "end_headers b" "ys \<noteq> []"
  shows "agrees env (ngx_http_v2_state_header_block env b xs) (ngx_http_v2_state_header_block env b (xs @ ys)) ys"
proof (cases xs)
  case Nil
  have "ngx_http_v2_state_header_block env b [] = Save Header_block b []"
    by (simp add: ngx_http_v2_state_header_block_def ngx_http_v2_state_headers_save_def
        ngx_http_v2_state_save_def)
  then show ?thesis by (simp add: Nil agrees_def)
next
  case (Cons c cs)
  obtain kind prefix where kind: "field_kind c = (kind, prefix)" by fastforce
  let ?b = "b\<lparr>bk_index := bk_index b \<or> kind = Incremental_kind\<rparr>"
  have ne: "xs \<noteq> []" and hd: "hd xs = c" "hd (xs @ ys) = c" using Cons by simp_all
  note int = parse_int_more [OF ne, where len = "bk_length b" and prefix = prefix and ys = ys]
  show ?thesis
  proof (cases "ngx_http_v2_parse_int (bk_length b) xs prefix")
    case (Inl rc)
    show ?thesis
    proof (cases "rc = NGX_AGAIN")
      case True
      then have "ngx_http_v2_state_header_block env b xs = Save Header_block ?b xs"
        using Inl int ne hd kind assms(1) bad_int_again [of xs]
        by (simp add: ngx_http_v2_state_header_block_def Let_def)
      moreover have "ngx_http_v2_state_header_block env ?b (xs @ ys) = ngx_http_v2_state_header_block env b (xs @ ys)"
        using ne hd kind assms
        by (cases "kind = Incremental_kind") (simp_all add: ngx_http_v2_state_header_block_def)
      ultimately show ?thesis by (simp add: agrees_def)
    next
      case no: False
      then have "ngx_http_v2_parse_int (bk_length b) (xs @ ys) prefix = Inl rc" using Inl int by simp
      then show ?thesis using Inl ne hd kind assms(1) bad_int_more [OF no]
        by (simp add: ngx_http_v2_state_header_block_def Let_def)
    qed
  next
    case (Inr vnr)
    obtain v n r where vnr: "vnr = (v, n, r)" by (cases vnr) auto
    then have "ngx_http_v2_parse_int (bk_length b) (xs @ ys) prefix = Inr (v, n, r)" "n \<le> length xs" using Inr int by simp_all
    then show ?thesis using Inr vnr ne hd kind assms(1) process_more [of env env _ "drop n xs" ys]
      by (auto simp: ngx_http_v2_state_header_block_def Let_def agrees_def [of _ "Goto h b r" for h b r]
          agrees_def [of _ "Connection_error e" for e] split: prod.splits if_splits)
  qed
qed

lemma step_more:
  "end_headers b \<Longrightarrow> ys \<noteq> [] \<Longrightarrow> agrees env (h2_step env h b xs) (h2_step env h b (xs @ ys)) ys"
  by (cases h) (simp_all add: block_more len_more huff_more raw_more skip_more complete_more)

text \<open>The flags stay as they are.\<close>

definition keeps_flags :: "h2_next \<Rightarrow> bool" where
  "keeps_flags x \<longleftrightarrow> (case x of Goto h b r \<Rightarrow> end_headers b | Return h b r \<Rightarrow> end_headers b
     | Save h b r \<Rightarrow> end_headers b | _ \<Rightarrow> True)"

lemma save_keeps [simp]: "end_headers b \<Longrightarrow> keeps_flags (ngx_http_v2_state_headers_save h b inp)"
  by (simp add: keeps_flags_def ngx_http_v2_state_headers_save_def ngx_http_v2_state_save_def)

lemma process_keeps: "end_headers b \<Longrightarrow> keeps_flags (ngx_http_v2_state_process_header env b inp)"
  by (auto simp: keeps_flags_def ngx_http_v2_state_process_header_def Let_def split: prod.splits verdict.splits)

lemma keeps_flags_simps [simp]:
  "keeps_flags (Goto h b r) = end_headers b" "keeps_flags (Connection_error e)" "keeps_flags (Complete b r)"
  "keeps_flags (Return h b r) = end_headers b"
  by (simp_all add: keeps_flags_def)

lemma field_read_keeps: "end_headers b \<Longrightarrow> keeps_flags (field_read env h b inp)"
  by (auto simp: field_read_def process_keeps)

lemma bad_int_keeps: "end_headers b \<Longrightarrow> keeps_flags (bad_int rc h b inp)"
  by (auto simp: bad_int_def)

lemma step_keeps: "end_headers b \<Longrightarrow> keeps_flags (h2_step env h b inp)"
proof (cases h)
  case Header_block
  then show "end_headers b \<Longrightarrow> ?thesis"
    by (auto simp: ngx_http_v2_state_header_block_def Let_def bad_int_keeps process_keeps split: prod.splits sum.splits)
next
  case Field_len
  then show "end_headers b \<Longrightarrow> ?thesis"
    by (auto simp: ngx_http_v2_state_field_len_def Let_def bad_int_keeps split: prod.splits sum.splits)
next
  case Header_complete
  then show "end_headers b \<Longrightarrow> ?thesis" by (auto simp: ngx_http_v2_state_header_complete_def)
qed (auto simp: ngx_http_v2_state_field_huff_def ngx_http_v2_state_field_raw_def ngx_http_v2_state_field_skip_def
    Let_def field_read_keeps split: prod.splits)

lemma run_more:
  assumes "ys \<noteq> []"
  shows "end_headers b \<Longrightarrow>
    h2_run env h b (xs @ ys) = (case h2_run env h b xs of
        Waiting h' b' r \<Rightarrow> h2_run env h' b' (r @ ys)
      | Failed e \<Rightarrow> Failed e
      | Finished b' r \<Rightarrow> Finished b' (r @ ys))
    \<and> (case h2_run env h b xs of Waiting h' b' r \<Rightarrow> end_headers b' | _ \<Rightarrow> True)"
proof (induction env h b xs rule: h2_run.induct)
  case (1 env h b xs)
  note more = step_more [OF 1(3) assms, of env h xs] and keeps = step_keeps [OF 1(3), of env h xs]
  show ?case
  proof (cases "h2_step env h b xs")
    case (Goto h' b' r)
    then show ?thesis using 1(1) more keeps
      by (simp add: h2_run.simps [of env h b] agrees_def keeps_flags_def)
  next
    case (Return h' b' r)
    then show ?thesis using 1(2) more keeps assms
      by (simp add: h2_run.simps [of env h b] agrees_def keeps_flags_def)
  next
    case (Save h' b' r)
    then show ?thesis using more keeps assms
      by (auto simp: h2_run.simps [of env h b] h2_run.simps [of env h' b' "r @ ys"] agrees_def keeps_flags_def)
  qed (use more in \<open>simp_all add: h2_run.simps [of env h b] agrees_def\<close>)
qed

lemma pieces_whole:
  "end_headers b \<Longrightarrow> [] \<notin> set ps \<Longrightarrow> h2_feed env (h2_run env h b xs) ps = h2_run env h b (xs @ concat ps)"
proof (induction ps arbitrary: h b xs)
  case Nil
  then show ?case by (cases "h2_run env h b xs") simp_all
next
  case (Cons p ps)
  then have p: "p \<noteq> []" "[] \<notin> set ps" by auto
  show ?case
  proof (cases "h2_run env h b xs")
    case (Waiting h' b' r)
    then have "end_headers b'" "h2_run env h b (xs @ p) = h2_run env h' b' (r @ p)"
      using run_more [OF p(1) Cons.prems(1), of env h xs] by simp_all
    moreover have "h2_feed env (h2_run env h' b' (r @ p)) ps = h2_run env h' b' (r @ p @ concat ps)"
      using Cons.IH [OF _ p(2), of b' h' "r @ p"] calculation by simp
    moreover have "h2_run env h b (xs @ p @ concat ps) = h2_run env h' b' (r @ p @ concat ps)"
      using run_more [of "p @ concat ps" b env h xs] Waiting Cons.prems(1) p by simp
    ultimately show ?thesis using Waiting by simp
  next
    case (Failed e)
    then show ?thesis using run_more [of "p @ concat ps" b env h xs] Cons.prems(1) p by simp
  next
    case (Finished b' r)
    have "h2_feed env (Finished b' r) qs = Finished b' (r @ concat qs)" for qs r
      by (induction qs arbitrary: r) simp_all
    then show ?thesis using run_more [of "p @ concat ps" b env h xs] Finished Cons.prems(1) p by simp
  qed
qed

end
