(* ===== verification/Ngx_Http_V2_Fields.thy ===== *)
theory Ngx_Http_V2_Fields
  imports Ngx_Http_V2_Block
begin

text \<open>
  What a block of HTTP/2 header fields means: the grammar of RFC 7541 for the bytes, its effect on the
  dynamic table, and that the handlers of \<^verbatim>\<open>http/v2/ngx_http_v2.c\<close> decode it, wherever the bytes are cut.
\<close>

section \<open>What a block of fields means\<close>

text \<open>A string of at most \<open>m\<close> bytes as it is sent: plain, or in Huffman codes with a padding of ones.\<close>

inductive header_string :: "nat \<Rightarrow> u8 list \<Rightarrow> u8 list \<Rightarrow> bool" for m where
  plain: "length s \<le> m \<Longrightarrow> length s < 2 ^ 21 \<Longrightarrow>
    header_string m (ngx_http_v2_write_int NGX_HTTP_V2_ENCODE_RAW (ngx_http_v2_prefix 7) (length s) @ s) s"
| coded: "bits_of hs = codes_of s @ replicate k True \<Longrightarrow> k < 8 \<Longrightarrow> length hs \<le> m \<Longrightarrow> length hs < 2 ^ 21 \<Longrightarrow>
    header_string m (ngx_http_v2_write_int NGX_HTTP_V2_ENCODE_HUFF (ngx_http_v2_prefix 7) (length hs) @ hs) s"

datatype field_name = Name_index nat | New_name "u8 list"

datatype field = Indexed_field nat | Literal_field bool field_name "u8 list" | Size_update nat

text \<open>The bytes of a field; a literal without indexing starts with 0 or, if it must never be indexed, with 0x10.\<close>

inductive field_code :: "nat \<Rightarrow> u8 list \<Rightarrow> field \<Rightarrow> bool" for m where
  indexed: "i < 2 ^ 21 \<Longrightarrow> field_code m (ngx_http_v2_write_int 0x80 (ngx_http_v2_prefix 7) i) (Indexed_field i)"
| incremental_name: "0 < i \<Longrightarrow> i < 2 ^ 21 \<Longrightarrow> header_string m vs v \<Longrightarrow>
    field_code m (ngx_http_v2_write_int 0x40 (ngx_http_v2_prefix 6) i @ vs) (Literal_field True (Name_index i) v)"
| incremental_new: "header_string m ns n \<Longrightarrow> header_string m vs v \<Longrightarrow>
    field_code m (0x40 # ns @ vs) (Literal_field True (New_name n) v)"
| literal_name: "first = 0 \<or> first = 0x10 \<Longrightarrow> 0 < i \<Longrightarrow> i < 2 ^ 21 \<Longrightarrow> header_string m vs v \<Longrightarrow>
    field_code m (ngx_http_v2_write_int first (ngx_http_v2_prefix 4) i @ vs) (Literal_field False (Name_index i) v)"
| literal_new: "first = 0 \<or> first = 0x10 \<Longrightarrow> header_string m ns n \<Longrightarrow> header_string m vs v \<Longrightarrow>
    field_code m (first # ns @ vs) (Literal_field False (New_name n) v)"
| update: "n < 2 ^ 21 \<Longrightarrow> field_code m (ngx_http_v2_write_int 0x20 (ngx_http_v2_prefix 5) n) (Size_update n)"

text \<open>
  What a field does to the dynamic table of RFC 7541 (its capacity and its headers), and the header that it gives;
  \<open>None\<close> is an error.
\<close>

type_synonym rfc_state = "nat \<times> header list"

fun field_effect :: "field \<Rightarrow> rfc_state \<Rightarrow> (rfc_state \<times> header list) option" where
  "field_effect (Indexed_field i) r =
     (case queue_lookup (snd r) i of None \<Rightarrow> None | Some x \<Rightarrow> Some (r, [x]))"
| "field_effect (Literal_field inc name v) r =
     (case (case name of
              Name_index i \<Rightarrow> map_option fst (queue_lookup (snd r) i)
            | New_name n \<Rightarrow> if n = [] then None else Some n) of
        None \<Rightarrow> None
      | Some n \<Rightarrow> Some (if inc then rfc_step (Insert (n, v)) r else r, [(n, v)]))"
| "field_effect (Size_update n) r = (if n \<le> 4096 then Some (rfc_step (Resize n) r, []) else None)"

fun fields_effect :: "field list \<Rightarrow> rfc_state \<Rightarrow> (rfc_state \<times> header list) option" where
  "fields_effect [] r = Some (r, [])"
| "fields_effect (f # fs) r =
     (case field_effect f r of
        None \<Rightarrow> None
      | Some (r, hs) \<Rightarrow> (case fields_effect fs r of None \<Rightarrow> None | Some (r, hs') \<Rightarrow> Some (r, hs @ hs')))"

text \<open>The same on the queue that the code keeps.\<close>

type_synonym queue = "bool \<times> nat \<times> header list"

definition queue_headers :: "queue \<Rightarrow> header list" where
  "queue_headers q = snd (snd q)"

fun queue_effect :: "field \<Rightarrow> queue \<Rightarrow> (queue \<times> header list) option" where
  "queue_effect (Indexed_field i) q =
     (case queue_lookup (queue_headers q) i of None \<Rightarrow> None | Some x \<Rightarrow> Some (q, [x]))"
| "queue_effect (Literal_field inc name v) q =
     (case (case name of
              Name_index i \<Rightarrow> map_option fst (queue_lookup (queue_headers q) i)
            | New_name n \<Rightarrow> if n = [] then None else Some n) of
        None \<Rightarrow> None
      | Some n \<Rightarrow> Some (if inc then queue_step (Insert (n, v)) q else q, [(n, v)]))"
| "queue_effect (Size_update n) q = (if n \<le> 4096 then Some (queue_step (Resize n) q, []) else None)"

fun queue_effects :: "field list \<Rightarrow> queue \<Rightarrow> (queue \<times> header list) option" where
  "queue_effects [] q = Some (q, [])"
| "queue_effects (f # fs) q =
     (case queue_effect f q of
        None \<Rightarrow> None
      | Some (q, hs) \<Rightarrow> (case queue_effects fs q of None \<Rightarrow> None | Some (q, hs') \<Rightarrow> Some (q, hs @ hs')))"

text \<open>What has a meaning for the RFC has the same one for the code.\<close>

lemma lookup_covers:
  assumes "covers q r" "queue_lookup (snd r) i = Some x"
  shows "queue_lookup (queue_headers q) i = Some x"
  using assms by (cases q; cases r) (auto simp: queue_headers_def queue_lookup_def nth_append split: if_splits)

lemma effect_covers:
  assumes "covers q r" "field_effect f r = Some (r', hs)"
  shows "\<exists>q'. queue_effect f q = Some (q', hs) \<and> covers q' r' \<and> (fst q \<longrightarrow> fst q')
    \<and> (same_table q r \<and> (fst q \<or> (\<forall>n. f \<noteq> Size_update n)) \<longrightarrow> same_table q' r')"
proof (cases f)
  case (Indexed_field i)
  then obtain x where "queue_lookup (snd r) i = Some x" "r' = r" "hs = [x]"
    using assms(2) by (auto split: option.splits)
  then show ?thesis using Indexed_field lookup_covers [OF assms(1)] assms(1) by simp
next
  case (Literal_field inc name v)
  obtain n where n: "(case name of Name_index i \<Rightarrow> map_option fst (queue_lookup (snd r) i)
        | New_name n \<Rightarrow> if n = [] then None else Some n) = Some n"
      "r' = (if inc then rfc_step (Insert (n, v)) r else r)" "hs = [(n, v)]"
    using assms(2) Literal_field by (auto simp del: rfc_step.simps split: option.splits)
  let ?q = "if inc then queue_step (Insert (n, v)) q else q"
  have "(case name of Name_index i \<Rightarrow> map_option fst (queue_lookup (queue_headers q) i)
        | New_name n \<Rightarrow> if n = [] then None else Some n) = Some n"
    using n(1) lookup_covers [OF assms(1)] by (cases name) (auto split: if_splits)
  then have "queue_effect f q = Some (?q, hs)" using Literal_field n(3) by (simp del: queue_step.simps)
  moreover have "covers ?q r'" using n(2) assms(1) step_covers by simp
  moreover have "same_table q r \<longrightarrow> same_table ?q r'" using n(2) step_same by auto
  ultimately show ?thesis using step_made by auto
next
  case (Size_update n)
  then have "queue_effect f q = Some (queue_step (Resize n) q, hs)" "r' = rfc_step (Resize n) r"
    using assms(2) by (auto simp del: queue_step.simps rfc_step.simps split: if_splits)
  then show ?thesis using Size_update step_covers [OF assms(1)] step_same step_made by auto
qed

lemma effects_cover:
  assumes "covers q r" "fields_effect fs r = Some (r', hs)"
  shows "\<exists>q'. queue_effects fs q = Some (q', hs) \<and> covers q' r'
    \<and> (same_table q r \<and> (fst q \<or> (\<forall>n. Size_update n \<notin> set fs)) \<longrightarrow> same_table q' r')"
  using assms
proof (induction fs arbitrary: q r hs)
  case (Cons f fs)
  obtain r1 hs1 hs2 where r: "field_effect f r = Some (r1, hs1)" "fields_effect fs r1 = Some (r', hs2)" "hs = hs1 @ hs2"
    using Cons.prems(2) by (auto split: option.splits)
  obtain q1 where q1: "queue_effect f q = Some (q1, hs1)" "covers q1 r1" "fst q \<longrightarrow> fst q1"
      "same_table q r \<and> (fst q \<or> (\<forall>n. f \<noteq> Size_update n)) \<longrightarrow> same_table q1 r1"
    using effect_covers [OF Cons.prems(1) r(1)] by blast
  obtain q' where "queue_effects fs q1 = Some (q', hs2)" "covers q' r'"
      "same_table q1 r1 \<and> (fst q1 \<or> (\<forall>n. Size_update n \<notin> set fs)) \<longrightarrow> same_table q' r'"
    using Cons.IH [OF q1(2) r(2)] by blast
  then show ?case using q1 r(3) by auto
qed simp

text \<open>
  A table of the code stands for a table of the RFC: it has that one's headers in front; or it is that one.
\<close>

definition stands_for :: "hpack \<Rightarrow> rfc_state \<Rightarrow> bool" where
  "stands_for h r \<longleftrightarrow> (\<exists>q. simulates h q \<and> covers q r)"

definition stands_exactly :: "hpack \<Rightarrow> rfc_state \<Rightarrow> bool" where
  "stands_exactly h r \<longleftrightarrow> (\<exists>q. simulates h q \<and> same_table q r)"

lemma simulates_made: "simulates h q \<Longrightarrow> fst q \<longleftrightarrow> hp_entries h \<noteq> None"
  by (cases q) (auto simp: unmade_def represents_def pointers_ok_def split: if_splits)

lemma same_covers: "same_table q r \<Longrightarrow> covers q r"
  by (cases q; cases r) simp

lemma exactly_stands: "stands_exactly h r \<Longrightarrow> stands_for h r"
  unfolding stands_for_def stands_exactly_def using same_covers by blast

lemma new_table_exact: "stands_exactly new_hpack (4096, [])"
  unfolding stands_exactly_def by (rule exI [of _ "(False, 0, [])"]) (simp add: unmade_def new_hpack_def)

section \<open>Reading a string\<close>

definition h2_go :: "h2_env \<Rightarrow> h2_next \<Rightarrow> h2_result" where
  "h2_go env x = (case x of
        Goto h b r \<Rightarrow> h2_run env h b r
      | Return h b r \<Rightarrow> if r = [] then Waiting h b [] else h2_run env h b r
      | Save h b r \<Rightarrow> Waiting h b r
      | Connection_error e \<Rightarrow> Failed e
      | Complete b r \<Rightarrow> Finished b r)"

lemma h2_run_go: "h2_run env h b inp = h2_go env (h2_step env h b inp)"
  by (subst h2_run.simps) (simp add: h2_go_def)

lemma h2_go_Goto [simp]: "h2_go env (Goto h b r) = h2_run env h b r"
  by (simp add: h2_go_def)

lemma codes_empty: "codes_of s = [] \<Longrightarrow> s = []"
proof (cases s)
  case (Cons c cs)
  moreover have "5 \<le> length (sym_bits (unat c))" using short_codes [of "unat c"] by simp
  ultimately show "codes_of s = [] \<Longrightarrow> s = []" by auto
qed simp

lemma decode_whole:
  assumes "bits_of hs = codes_of s @ replicate k True" "k < 8"
  shows "ngx_http_huff_decode 0 hs [] True = (NGX_OK, 0, s)"
proof -
  obtain t where ones: "run 0 (replicate k True) = Some (t, [])" "padding t"
    using run_ones [of k] assms(2) by auto
  have "run 0 (bits_of hs) = Some (t, map unat s)" using assms(1) ones(1) by (simp add: run_join run_codes)
  then show ?thesis
    using decode_run [where s = 0 and src = hs and dst = "[]" and is_last = True] ones(2) by (simp add: comp_def)
qed

text \<open>The head of a string: its kind and its length.\<close>

lemma top_bit: "drop_bit 7 (c :: u8) \<noteq> 0 \<longleftrightarrow> bit c 7"
proof -
  have "drop_bit 7 c = of_bool (bit c 7)"
    by (rule bit_word_eqI) (use bit_imp_le_length [of c] in \<open>fastforce simp: bit_simps less_Suc_eq_0_disj\<close>)
  then show ?thesis by simp
qed

lemma small_top_bit: "n < 128 \<Longrightarrow> \<not> bit (word_of_nat n :: u8) 7"
proof -
  assume n: "n < 128"
  have "unat (drop_bit 7 (word_of_nat n :: u8)) = unat (word_of_nat n :: u8) div 128"
    by (simp add: drop_bit_eq_div unat_div_distrib)
  then have "drop_bit 7 (word_of_nat n :: u8) = 0" using n by (simp add: unat_byte unat_eq_zero)
  then show ?thesis using top_bit by blast
qed

lemma string_head:
  assumes "w = ngx_http_v2_write_int first (ngx_http_v2_prefix 7) n" "first = 0 \<or> first = 0x80"
  shows "drop_bit 7 (hd w) \<noteq> 0 \<longleftrightarrow> first = 0x80" "(first AND word_of_nat (ngx_http_v2_prefix 7)) = 0"
proof -
  have "bit (hd w) 7 \<longleftrightarrow> bit first 7"
    using small_top_bit [of n] small_top_bit [of 127] assms(1)
    by (simp add: ngx_http_v2_write_int_def ngx_http_v2_prefix_def bit_or_iff)
  then show "drop_bit 7 (hd w) \<noteq> 0 \<longleftrightarrow> first = 0x80" using assms(2) by (auto simp: top_bit)
  show "(first AND word_of_nat (ngx_http_v2_prefix 7)) = 0" using assms(2) by (auto simp: ngx_http_v2_prefix_def)
qed

lemma parse_length:
  assumes "w = ngx_http_v2_write_int first (ngx_http_v2_prefix 7) n" "first = 0 \<or> first = 0x80" "n < 2 ^ 21"
  shows "ngx_http_v2_parse_int (length w + l) (w @ rest) (ngx_http_v2_prefix 7) = Inr (n, length w, l)"
    "w \<noteq> []" "length w \<le> 4"
proof -
  note written = parse_written [where k = 7 and first = first and v = n and w = w]
  have n: "n < ngx_http_v2_prefix 7 + 2 ^ 21" using assms(3) by simp
  show "ngx_http_v2_parse_int (length w + l) (w @ rest) (ngx_http_v2_prefix 7) = Inr (n, length w, l)"
    using written(1) [OF _ string_head(2) [OF assms(1,2)] n assms(1), of "length w + l" rest] by simp
  show "w \<noteq> []" "length w \<le> 4" using written(2,3) [OF _ string_head(2) [OF assms(1,2)] n assms(1)] by simp_all
qed

lemma len_step:
  assumes "w = ngx_http_v2_write_int first (ngx_http_v2_prefix 7) len" "first = 0 \<or> first = 0x80"
    and "len < 2 ^ 21" "len \<le> he_field_max env"
    and "end_headers b" "bk_stream b \<or> bk_index b" "\<not> he_null_field env" "bk_length b = length w + n"
  shows "h2_run env Field_len b (w @ rest) =
    h2_run env (if first = 0x80 then Field_huff else Field_raw)
      (b\<lparr>bk_length := n, bk_field_rest := len, bk_field := []\<rparr>) rest"
proof -
  note parse = parse_length [OF assms(1,2,3)]
  have "hd (w @ rest) = hd w" using parse(2) by simp
  then have "h2_step env Field_len b (w @ rest) = Goto (if first = 0x80 then Field_huff else Field_raw)
      (b\<lparr>bk_length := n, bk_field_rest := len, bk_field := []\<rparr>) rest"
    using parse assms string_head(1) [OF assms(1,2)]
    by (auto simp: ngx_http_v2_state_field_len_def Let_def)
  then show ?thesis by (simp add: h2_run_go)
qed

lemma same_state: "bk_field_state b = 0 \<Longrightarrow> b\<lparr>bk_field_state := 0\<rparr> = b"
  by (cases b) simp

lemma run_string:
  assumes "header_string (he_field_max env) vs s"
    and "end_headers b" "bk_stream b \<or> bk_index b" "\<not> he_null_field env" "bk_field_state b = 0"
    and "bk_length b = length vs + n"
  shows "h2_run env Field_len b (vs @ rest) =
    h2_go env (ngx_http_v2_state_process_header env (b\<lparr>bk_length := n, bk_field_rest := 0, bk_field := s\<rparr>) rest)"
  using assms(1)
proof cases
  case plain
  let ?w = "ngx_http_v2_write_int NGX_HTTP_V2_ENCODE_RAW (ngx_http_v2_prefix 7) (length s)"
  have "h2_run env Field_len b (?w @ s @ rest) = h2_run env Field_raw
      (b\<lparr>bk_length := length s + n, bk_field_rest := length s, bk_field := []\<rparr>) (s @ rest)"
    using len_step [where w = ?w and first = 0 and len = "length s" and n = "length s + n" and b = b and env = env
        and rest = "s @ rest"] plain assms
    by (simp add: NGX_HTTP_V2_ENCODE_RAW_def)
  then show ?thesis
    by (simp add: plain h2_run_go [of env Field_raw] ngx_http_v2_state_field_raw_def field_size_def field_consumed_def
        field_read_def Let_def)
next
  case (coded hs k)
  let ?w = "ngx_http_v2_write_int NGX_HTTP_V2_ENCODE_HUFF (ngx_http_v2_prefix 7) (length hs)"
  have "h2_run env Field_len b (?w @ hs @ rest) = h2_run env Field_huff
      (b\<lparr>bk_length := length hs + n, bk_field_rest := length hs, bk_field := []\<rparr>) (hs @ rest)"
    using len_step [where w = ?w and first = "0x80" and len = "length hs" and n = "length hs + n" and b = b and env = env
        and rest = "hs @ rest"] coded assms
    by (simp add: NGX_HTTP_V2_ENCODE_HUFF_def)
  moreover have "(b\<lparr>bk_length := n, bk_field_rest := 0, bk_field_state := 0, bk_field := s\<rparr>)
      = (b\<lparr>bk_length := n, bk_field_rest := 0, bk_field := s\<rparr>)"
    using same_state [of "b\<lparr>bk_length := n, bk_field_rest := 0, bk_field := s\<rparr>"] assms(5) by simp
  ultimately show ?thesis using decode_whole [OF coded(2,3)] assms(5)
    by (simp add: coded h2_run_go [of env Field_huff] ngx_http_v2_state_field_huff_def field_size_def field_consumed_def
        field_read_def Let_def)
qed

section \<open>The table behind a block\<close>

lemma add_simulates:
  assumes "simulates h q"
  shows "ngx_http_v2_add_header never h x = (NGX_OK, hpack_step (Insert x) h)"
proof -
  obtain made cap xs where q: "q = (made, cap, xs)" by (cases q) auto
  obtain rc h' where add: "ngx_http_v2_add_header never h x = (rc, h')" by fastforce
  have "rc = NGX_OK"
  proof (cases made)
    case True
    then show ?thesis using add_header_represents [OF _ add] assms q by auto
  next
    case False
    then have "unmade h" using assms q by simp
    then obtain h1 where "represents 0 h1 []" "ngx_http_v2_add_header never h x = ngx_http_v2_add_header never h1 x"
      using first_insertion by metis
    then show ?thesis using add_header_represents [of h1 "[]" x rc h'] add by simp
  qed
  then show ?thesis using add by simp
qed

lemma resize_code: "n \<le> 4096 \<Longrightarrow> ngx_http_v2_table_size h n = (NGX_OK, hpack_step (Resize n) h)"
  by (simp add: ngx_http_v2_table_size_def NGX_HTTP_V2_TABLE_SIZE_def Let_def)

lemma name_simulates:
  assumes "simulates h (made, cap, xs)" "queue_lookup xs i = Some x"
  shows "\<exists>v. ngx_http_v2_get_indexed_header never h i True header = (NGX_OK, (fst x, v))"
proof (cases "i \<le> 61")
  case True
  then show ?thesis using assms(2)
    by (auto simp: ngx_http_v2_get_indexed_header_def queue_lookup_def static_entries Let_def
        intro!: exI [of _ "snd (ngx_http_v2_static_table ! (i - 1))"] split: if_splits)
next
  case False
  define j where "j = i - 62"
  with False have i: "i = 62 + j" by simp
  then have "j < length xs" "x = xs ! j" using assms(2) by (auto simp: queue_lookup_def split: if_splits)
  moreover have "represents 0 h xs" using assms calculation by (cases made) auto
  ultimately show ?thesis using get_indexed_represents [of 0 h xs j True header] i by simp
qed

section \<open>One field\<close>

text \<open>Between two fields; and what a field leaves.\<close>

definition ready :: "block \<Rightarrow> bool" where
  "ready b \<longleftrightarrow> end_headers b \<and> bk_stream b \<and> \<not> bk_index b \<and> \<not> bk_parse_name b \<and> \<not> bk_parse_value b
     \<and> bk_field_state b = 0"

definition headers_bytes :: "header list \<Rightarrow> nat" where
  "headers_bytes hs = sum_list (map header_bytes hs)"

lemma headers_bytes_simps [simp]:
  "headers_bytes [] = 0" "headers_bytes (x # hs) = header_bytes x + headers_bytes hs"
  "headers_bytes (hs @ hs') = headers_bytes hs + headers_bytes hs'"
  by (simp_all add: headers_bytes_def)

definition read_to :: "block \<Rightarrow> nat \<Rightarrow> queue \<Rightarrow> header list \<Rightarrow> block \<Rightarrow> bool" where
  "read_to b n q hs b' \<longleftrightarrow> ready b' \<and> bk_length b' = n \<and> simulates (bk_hpack b') q
     \<and> bk_taken b' = bk_taken b @ hs \<and> bk_header_limit b' + headers_bytes hs = bk_header_limit b"

text \<open>The surroundings do not get in the way.\<close>

definition smooth :: "h2_env \<Rightarrow> bool" where
  "smooth env \<longleftrightarrow> he_null env = never \<and> \<not> he_null_field env \<and> (\<forall>hs x. he_request env hs x = Taken)"

lemma process_done:
  assumes "smooth env" "end_headers b" "bk_stream b" "\<not> bk_parse_name b" "bk_field_state b = 0"
    and "x = (if bk_parse_value b then (fst (bk_header b), bk_field b) else bk_header b)"
    and "header_bytes x \<le> bk_header_limit b" "simulates (bk_hpack b) q"
  shows "\<exists>b'. h2_go env (ngx_http_v2_state_process_header env b rest) = h2_run env Header_complete b' rest
    \<and> read_to b (bk_length b) (if bk_index b then queue_step (Insert x) q else q) [x] b'"
proof -
  obtain h where h: "h = hpack_step (Insert x) (bk_hpack b)" "ngx_http_v2_add_header never (bk_hpack b) x = (NGX_OK, h)"
    using add_simulates [OF assms(8)] by blast
  define c where "c = b\<lparr>bk_parse_value := False, bk_header := x, bk_header_limit := bk_header_limit b - header_bytes x,
    bk_hpack := (if bk_index b then h else bk_hpack b), bk_index := False, bk_taken := bk_taken b @ [x]\<rparr>"
  have "ngx_http_v2_state_process_header env b rest = Goto Header_complete c rest"
    using assms(1-7) h(2) unfolding ngx_http_v2_state_process_header_def smooth_def c_def Let_def header_bytes_def
    by (cases b) (auto split: if_splits)
  moreover have "read_to b (bk_length b) (if bk_index b then queue_step (Insert x) q else q) [x] c"
    using assms step_simulates [OF assms(8), of "Insert x", folded h(1)]
    by (auto simp: read_to_def ready_def c_def end_headers_def)
  ultimately show ?thesis by auto
qed

lemma or_sum:
  fixes first :: u8
  assumes "n < 2 ^ k" "first AND mask k = 0" "k \<le> 7" "unat first + n < 256"
  shows "unat (first OR word_of_nat n) = unat first + n"
proof -
  have n: "unat (word_of_nat n :: u8) = n" using assms(4) by (intro unat_byte) simp
  have "(word_of_nat n :: u8) = take_bit k (word_of_nat n)"
    using assms(1) by (simp add: take_bit_of_nat take_bit_nat_eq_self)
  then have "first AND word_of_nat n = (first AND mask k) AND word_of_nat n"
    unfolding take_bit_eq_mask by (metis and.assoc and.commute)
  then have "first OR word_of_nat n = first + word_of_nat n"
    using assms(2) by (simp add: disjunctive_add_eq_or)
  then show ?thesis using n assms(4) by (simp add: unat_plus_if')
qed

text \<open>The first bytes of the kinds of fields.\<close>

inductive kind_code :: "u8 \<Rightarrow> nat \<Rightarrow> field_kind \<Rightarrow> bool" where
  "kind_code 0x80 7 Indexed_kind"
| "kind_code 0x40 6 Incremental_kind"
| "kind_code 0x20 5 Update_kind"
| "kind_code 0 4 Literal_kind"
| "kind_code 0x10 4 Literal_kind"

lemma kind_code_bits:
  "kind_code first k kind \<Longrightarrow> k \<le> 7 \<and> first AND mask k = 0 \<and> unat first + 2 ^ k \<le> 256"
  by (auto elim!: kind_code.cases simp: mask_eq_exp_minus_1)

lemma kind_code_kind:
  "kind_code first k kind \<Longrightarrow> n < 2 ^ k \<Longrightarrow> unat c = unat first + n \<Longrightarrow> field_kind c = (kind, ngx_http_v2_prefix k)"
  by (auto elim!: kind_code.cases simp: field_kind_def word_le_nat_alt)

lemma prefix_mask: "k \<le> 7 \<Longrightarrow> (word_of_nat (ngx_http_v2_prefix k) :: u8) = mask k"
  by (simp add: ngx_http_v2_prefix_def mask_eq_exp_minus_1 of_nat_diff)

lemma block_head:
  assumes "kind_code first k kind" "w = ngx_http_v2_write_int first (ngx_http_v2_prefix k) v" "v < 2 ^ 21"
  shows "field_kind (hd w) = (kind, ngx_http_v2_prefix k)" "w \<noteq> []" "length w \<le> 4"
    "ngx_http_v2_parse_int (length w + l) (w @ rest) (ngx_http_v2_prefix k) = Inr (v, length w, l)"
proof -
  note bits = kind_code_bits [OF assms(1)]
  then have low: "first AND word_of_nat (ngx_http_v2_prefix k) = 0" by (simp add: prefix_mask)
  have less: "ngx_http_v2_prefix k < 2 ^ k" by (simp add: ngx_http_v2_prefix_def)
  define n where "n = min v (ngx_http_v2_prefix k)"
  have n: "n < 2 ^ k" using less by (simp add: n_def min_def)
  have "hd w = first OR word_of_nat n"
    using assms(2) by (simp add: ngx_http_v2_write_int_def n_def min_def)
  then have "unat (hd w) = unat first + n"
    using or_sum [OF n, of first] bits n by simp
  then show "field_kind (hd w) = (kind, ngx_http_v2_prefix k)" by (rule kind_code_kind [OF assms(1) n])
  have v: "v < ngx_http_v2_prefix k + 2 ^ 21" using assms(3) by simp
  note written = parse_written [where k = k and first = first and v = v and w = w, OF _ low v assms(2)]
  show "w \<noteq> []" "length w \<le> 4"
    "ngx_http_v2_parse_int (length w + l) (w @ rest) (ngx_http_v2_prefix k) = Inr (v, length w, l)"
    using written bits by simp_all
qed

lemma block_open:
  assumes "kind_code first k kind" "w = ngx_http_v2_write_int first (ngx_http_v2_prefix k) v" "v < 2 ^ 21"
    and "end_headers b" "bk_length b = length w + l" "\<not> bk_index b" "c = b\<lparr>bk_index := (kind = Incremental_kind), bk_length := l\<rparr>"
  shows "h2_run env Header_block b (w @ rest) = h2_go env
     (if kind = Indexed_kind then
        (case ngx_http_v2_get_indexed_header (he_null env) (bk_hpack c) v False (bk_header c) of (rc, header) \<Rightarrow>
           if rc \<noteq> NGX_OK then Connection_error Comp_error
           else ngx_http_v2_state_process_header env (c\<lparr>bk_header := header\<rparr>) rest)
      else if kind = Update_kind then
        (case ngx_http_v2_table_size (bk_hpack c) v of (rc, hpack) \<Rightarrow>
           if rc \<noteq> NGX_OK then Connection_error Comp_error
           else Goto Header_complete (c\<lparr>bk_hpack := hpack\<rparr>) rest)
      else if v = 0 then Goto Field_len (c\<lparr>bk_parse_name := True, bk_parse_value := True\<rparr>) rest
      else
        (case ngx_http_v2_get_indexed_header (he_null env) (bk_hpack c) v True (bk_header c) of (rc, header) \<Rightarrow>
           if rc \<noteq> NGX_OK then Connection_error Comp_error
           else Goto Field_len (c\<lparr>bk_header := header, bk_parse_value := True\<rparr>) rest))"
proof -
  note head = block_head [OF assms(1-3)]
  then have "hd (w @ rest) = hd w" "w @ rest \<noteq> []" by simp_all
  then show ?thesis using head assms(4-6) unfolding h2_run_go [of env Header_block] assms(7)
    by (simp add: ngx_http_v2_state_header_block_def Let_def cong: if_cong prod.case_cong)
qed

lemma run_value:
  assumes "smooth env" "header_string (he_field_max env) vs v"
    and "end_headers b" "bk_stream b" "\<not> bk_parse_name b" "bk_parse_value b" "bk_field_state b = 0"
    and "bk_length b = length vs + n" "fst (bk_header b) = name" "header_bytes (name, v) \<le> bk_header_limit b"
    and "simulates (bk_hpack b) q"
  shows "\<exists>b'. h2_run env Field_len b (vs @ rest) = h2_run env Header_complete b' rest
    \<and> read_to b n (if bk_index b then queue_step (Insert (name, v)) q else q) [(name, v)] b'"
proof -
  let ?c = "b\<lparr>bk_length := n, bk_field_rest := 0, bk_field := v\<rparr>"
  have "\<exists>b'. h2_go env (ngx_http_v2_state_process_header env ?c rest) = h2_run env Header_complete b' rest
    \<and> read_to ?c (bk_length ?c) (if bk_index ?c then queue_step (Insert (name, v)) q else q) [(name, v)] b'"
    using assms by (intro process_done) (simp_all add: end_headers_def)
  moreover have "h2_run env Field_len b (vs @ rest) = h2_go env (ngx_http_v2_state_process_header env ?c rest)"
    using assms by (intro run_string) (simp_all add: smooth_def)
  ultimately show ?thesis by (simp add: read_to_def)
qed

lemma run_name:
  assumes "smooth env" "header_string (he_field_max env) ns name" "name \<noteq> []"
    and "end_headers b" "bk_stream b" "bk_parse_name b" "bk_field_state b = 0" "bk_length b = length ns + n"
  shows "h2_run env Field_len b (ns @ rest) = h2_run env Field_len
    (b\<lparr>bk_length := n, bk_field_rest := 0, bk_field := name, bk_parse_name := False,
      bk_header := (name, snd (bk_header b))\<rparr>) rest"
proof -
  have "h2_run env Field_len b (ns @ rest)
      = h2_go env (ngx_http_v2_state_process_header env (b\<lparr>bk_length := n, bk_field_rest := 0, bk_field := name\<rparr>) rest)"
    using assms by (intro run_string) (simp_all add: smooth_def)
  then show ?thesis using assms(3,6) by (simp add: ngx_http_v2_state_process_header_def Let_def)
qed

text \<open>A literal whose name is in the table, and one with a new name.\<close>

lemma run_named:
  assumes "smooth env" "ready b" "simulates (bk_hpack b) q" "bk_length b = length w + length vs + n"
    and "kind_code first k kind" "w = ngx_http_v2_write_int first (ngx_http_v2_prefix k) i" "0 < i" "i < 2 ^ 21"
    and "kind = (if inc then Incremental_kind else Literal_kind)"
    and "queue_lookup (queue_headers q) i = Some x" "header_string (he_field_max env) vs v"
    and "header_bytes (fst x, v) \<le> bk_header_limit b"
  shows "\<exists>b'. h2_run env Header_block b (w @ vs @ rest) = h2_run env Header_complete b' rest
    \<and> read_to b n (if inc then queue_step (Insert (fst x, v)) q else q) [(fst x, v)] b'"
proof -
  obtain u where u: "ngx_http_v2_get_indexed_header never (bk_hpack b) i True (bk_header b) = (NGX_OK, (fst x, u))"
    using name_simulates [of "bk_hpack b" "fst q" "fst (snd q)" "snd (snd q)" i x "bk_header b"] assms(3,10)
    by (auto simp: queue_headers_def simp del: split_paired_All)
  let ?c = "b\<lparr>bk_index := inc, bk_length := length vs + n, bk_header := (fst x, u), bk_parse_value := True\<rparr>"
  have "h2_run env Header_block b (w @ vs @ rest) = h2_run env Field_len ?c (vs @ rest)"
    using block_open [OF assms(5,6,8), of b "length vs + n" _ env "vs @ rest"] assms u
    by (auto simp: ready_def smooth_def)
  moreover have "\<exists>b'. h2_run env Field_len ?c (vs @ rest) = h2_run env Header_complete b' rest
    \<and> read_to ?c n (if bk_index ?c then queue_step (Insert (fst x, v)) q else q) [(fst x, v)] b'"
    using assms by (intro run_value) (simp_all add: ready_def end_headers_def)
  ultimately show ?thesis by (simp add: read_to_def)
qed

lemma run_new:
  assumes "smooth env" "ready b" "simulates (bk_hpack b) q" "bk_length b = Suc (length ns + length vs + n)"
    and "kind_code first k kind" "kind = (if inc then Incremental_kind else Literal_kind)"
    and "header_string (he_field_max env) ns name" "name \<noteq> []" "header_string (he_field_max env) vs v"
    and "header_bytes (name, v) \<le> bk_header_limit b"
  shows "\<exists>b'. h2_run env Header_block b (first # ns @ vs @ rest) = h2_run env Header_complete b' rest
    \<and> read_to b n (if inc then queue_step (Insert (name, v)) q else q) [(name, v)] b'"
proof -
  let ?c = "b\<lparr>bk_index := inc, bk_length := length ns + (length vs + n), bk_parse_name := True, bk_parse_value := True\<rparr>"
  let ?d = "?c\<lparr>bk_length := length vs + n, bk_field_rest := 0, bk_field := name, bk_parse_name := False,
      bk_header := (name, snd (bk_header ?c))\<rparr>"
  have "ngx_http_v2_write_int first (ngx_http_v2_prefix k) 0 = [first]"
    using assms(5) by (auto elim!: kind_code.cases simp: ngx_http_v2_write_int_def ngx_http_v2_prefix_def)
  then have "h2_run env Header_block b ([first] @ ns @ vs @ rest) = h2_run env Field_len ?c (ns @ vs @ rest)"
    using block_open [OF assms(5), where w = "[first]" and v = 0 and b = b and l = "length ns + (length vs + n)"
        and env = env and rest = "ns @ vs @ rest"] assms(2,4,6)
    by (auto simp: ready_def)
  moreover have "h2_run env Field_len ?c (ns @ vs @ rest) = h2_run env Field_len ?d (vs @ rest)"
    using assms by (intro run_name) (simp_all add: ready_def end_headers_def)
  moreover have "\<exists>b'. h2_run env Field_len ?d (vs @ rest) = h2_run env Header_complete b' rest
    \<and> read_to ?d n (if bk_index ?d then queue_step (Insert (name, v)) q else q) [(name, v)] b'"
    using assms by (intro run_value) (simp_all add: ready_def end_headers_def)
  ultimately show ?thesis by (simp add: read_to_def)
qed

lemma run_indexed:
  assumes "smooth env" "ready b" "simulates (bk_hpack b) q" "bk_length b = length w + n"
    and "w = ngx_http_v2_write_int 0x80 (ngx_http_v2_prefix 7) i" "i < 2 ^ 21"
    and "queue_lookup (queue_headers q) i = Some x" "header_bytes x \<le> bk_header_limit b"
  shows "\<exists>b'. h2_run env Header_block b (w @ rest) = h2_run env Header_complete b' rest \<and> read_to b n q [x] b'"
proof -
  have found: "ngx_http_v2_get_indexed_header never (bk_hpack b) i False (bk_header b) = (NGX_OK, x)"
    using lookup_simulates [of "bk_hpack b" "fst q" "fst (snd q)" "snd (snd q)" i "bk_header b"] assms(3,7)
    by (simp add: queue_headers_def)
  let ?c = "b\<lparr>bk_index := False, bk_length := n, bk_header := x\<rparr>"
  have "h2_run env Header_block b (w @ rest) = h2_go env (ngx_http_v2_state_process_header env ?c rest)"
    using block_open [OF kind_code.intros(1) assms(5,6), of b n _ env rest] assms found
    by (auto simp: ready_def smooth_def)
  moreover have "\<exists>b'. h2_go env (ngx_http_v2_state_process_header env ?c rest) = h2_run env Header_complete b' rest
    \<and> read_to ?c (bk_length ?c) (if bk_index ?c then queue_step (Insert x) q else q) [x] b'"
    using assms by (intro process_done) (simp_all add: ready_def end_headers_def)
  ultimately show ?thesis by (simp add: read_to_def)
qed

lemma run_update:
  assumes "smooth env" "ready b" "simulates (bk_hpack b) q" "bk_length b = length w + l"
    and "w = ngx_http_v2_write_int 0x20 (ngx_http_v2_prefix 5) n" "n \<le> 4096"
  shows "\<exists>b'. h2_run env Header_block b (w @ rest) = h2_run env Header_complete b' rest
    \<and> read_to b l (queue_step (Resize n) q) [] b'"
proof -
  let ?c = "b\<lparr>bk_index := False, bk_length := l, bk_hpack := hpack_step (Resize n) (bk_hpack b)\<rparr>"
  have "h2_run env Header_block b (w @ rest) = h2_run env Header_complete ?c rest"
    using block_open [OF kind_code.intros(3) assms(5), of b l _ env rest] assms resize_code [OF assms(6), of "bk_hpack b"]
    by (auto simp: ready_def smooth_def simp del: hpack_step.simps)
  moreover have "read_to b l (queue_step (Resize n) q) [] ?c"
    using assms step_simulates [OF assms(3), of "Resize n"]
    by (simp add: read_to_def ready_def end_headers_def del: hpack_step.simps queue_step.simps)
  ultimately show ?thesis by blast
qed

lemma run_field:
  assumes "field_code (he_field_max env) w f" "queue_effect f q = Some (q', hs)"
    and "smooth env" "ready b" "simulates (bk_hpack b) q" "bk_length b = length w + n"
    and "headers_bytes hs \<le> bk_header_limit b"
  shows "\<exists>b'. h2_run env Header_block b (w @ rest) = h2_run env Header_complete b' rest \<and> read_to b n q' hs b'"
  using assms(1)
proof cases
  case (indexed i)
  then show ?thesis using run_indexed [OF assms(3-6) indexed(1,3)] assms(2,7) by (auto split: option.splits)
next
  case (incremental_name i vs v)
  then show ?thesis
    using run_named [OF assms(3-5) _ kind_code.intros(2) refl, where inc = True and i = i and vs = vs and v = v and n = n]
      assms(2,6,7)
    by (auto simp del: queue_step.simps split: option.splits)
next
  case (incremental_new ns name vs v)
  then show ?thesis
    using run_new [OF assms(3-5) _ kind_code.intros(2), where inc = True and ns = ns and name = name and vs = vs and v = v and n = n]
      assms(2,6,7)
    by (auto simp del: queue_step.simps split: if_splits)
next
  case (literal_name first i vs v)
  then have "kind_code first 4 Literal_kind" by (auto intro: kind_code.intros)
  then show ?thesis
    using run_named [OF assms(3-5) _ _ refl, where inc = False and i = i and vs = vs and v = v and n = n and first = first and k = 4]
      literal_name assms(2,6,7)
    by (auto split: option.splits)
next
  case (literal_new first ns name vs v)
  then have "kind_code first 4 Literal_kind" by (auto intro: kind_code.intros)
  then show ?thesis
    using run_new [OF assms(3-5), where inc = False and ns = ns and name = name and vs = vs and v = v and n = n and first = first and k = 4]
      literal_new assms(2,6,7)
    by (auto split: if_splits)
next
  case (update m)
  then show ?thesis using run_update [OF assms(3-6) update(1)] assms(2)
    by (auto simp del: queue_step.simps split: if_splits)
qed

section \<open>A block\<close>

lemma write_int_nonempty [simp]: "ngx_http_v2_write_int first prefix v \<noteq> []"
  by (simp add: ngx_http_v2_write_int_def)

lemma field_code_nonempty: "field_code m w f \<Longrightarrow> w \<noteq> []"
  by (induction rule: field_code.induct) simp_all

lemma run_fields:
  assumes "smooth env"
  shows "list_all2 (field_code (he_field_max env)) ws fs \<Longrightarrow> ws \<noteq> [] \<Longrightarrow> queue_effects fs q = Some (q', hs) \<Longrightarrow>
    ready b \<Longrightarrow> simulates (bk_hpack b) q \<Longrightarrow> bk_length b = length (concat ws) \<Longrightarrow>
    headers_bytes hs \<le> bk_header_limit b \<Longrightarrow>
    \<exists>b'. h2_run env Header_block b (concat ws @ rest) = Finished b' rest \<and> read_to b 0 q' hs b'"
proof (induction ws arbitrary: fs q hs b)
  case (Cons w ws)
  obtain f gs where fs: "fs = f # gs" "field_code (he_field_max env) w f" "list_all2 (field_code (he_field_max env)) ws gs"
    using Cons.prems(1) by (auto simp: list_all2_Cons1)
  obtain p hs1 hs2 where effect: "queue_effect f q = Some (p, hs1)" "queue_effects gs p = Some (q', hs2)" "hs = hs1 @ hs2"
    using Cons.prems(3) fs(1) by (auto split: option.splits)
  obtain b1 where b1: "h2_run env Header_block b (w @ concat ws @ rest) = h2_run env Header_complete b1 (concat ws @ rest)"
      "read_to b (length (concat ws)) p hs1 b1"
    using run_field [OF fs(2) effect(1) assms Cons.prems(4,5), of "length (concat ws)" "concat ws @ rest"] Cons.prems(6,7) effect(3)
    by auto
  show ?case
  proof (cases "ws = []")
    case True
    then have "h2_run env Header_complete b1 (concat ws @ rest) = Finished b1 rest"
      using b1(2) by (simp add: h2_run_go read_to_def ready_def ngx_http_v2_state_header_complete_def h2_go_def)
    moreover have "q' = p" "hs2 = []" using True fs(3) effect(2) by simp_all
    ultimately show ?thesis using True b1 effect(3) by auto
  next
    case False
    then have ne: "concat ws \<noteq> []"
      using fs(3) field_code_nonempty by (cases ws) (auto simp: list_all2_Cons1)
    then have "h2_run env Header_complete b1 (concat ws @ rest) = h2_run env Header_block b1 (concat ws @ rest)"
      using b1(2) by (auto simp: h2_run_go [of env Header_complete] read_to_def ready_def
          ngx_http_v2_state_header_complete_def h2_go_def)
    moreover obtain b2 where "h2_run env Header_block b1 (concat ws @ rest) = Finished b2 rest" "read_to b1 0 q' hs2 b2"
      using Cons.IH [OF fs(3) False effect(2), of b1] b1(2) Cons.prems(7) effect(3) by (auto simp: read_to_def)
    ultimately show ?thesis using b1 effect(3) by (auto simp: read_to_def)
  qed
qed simp

lemma feed_queue:
  assumes "smooth env" "ready b" "simulates (bk_hpack b) q"
    and "list_all2 (field_code (he_field_max env)) ws fs" "ws \<noteq> []" "queue_effects fs q = Some (q', hs)"
    and "bk_length b = length (concat ws)" "headers_bytes hs \<le> bk_header_limit b"
    and "concat ps = concat ws @ rest" "[] \<notin> set ps"
  shows "\<exists>b'. h2_feed env (Waiting Header_block b []) ps = Finished b' rest
    \<and> bk_taken b' = bk_taken b @ hs \<and> simulates (bk_hpack b') q'"
proof -
  obtain b' where b': "h2_run env Header_block b (concat ws @ rest) = Finished b' rest" "read_to b 0 q' hs b'"
    using run_fields [OF assms(1,4,5,6,2,3,7,8), of rest] by blast
  have "concat ws \<noteq> []" using assms(4,5) field_code_nonempty by (cases ws) (auto simp: list_all2_Cons1)
  then obtain p qs where ps: "ps = p # qs" using assms(9) by (cases ps) auto
  have "h2_feed env (Waiting Header_block b []) ps = h2_run env Header_block b (concat ps)"
    using pieces_whole [of b qs env Header_block p] assms(2,10) by (simp add: ps ready_def)
  then show ?thesis using b' assms(9) by (simp add: read_to_def)
qed

text \<open>C2: A block of header fields that ends in one frame is decoded as RFC 7541 says.  Let the bytes be any
  encoding of the fields, each string plain or in Huffman codes, each literal indexed or not, each name given by an
  index or in full, size updates among them; and let the fields mean, for the dynamic table \<open>r\<close> of the RFC, the headers
  \<open>hs\<close> and the new table \<open>r'\<close>.  Then the handlers, given the bytes in whatever pieces they arrive, hand exactly the
  headers \<open>hs\<close> to the request in their order, leave a table with the headers of \<open>r'\<close> in front, and leave the bytes behind
  the block.  If the table was exactly \<open>r\<close>, it is exactly \<open>r'\<close> afterwards, provided that it has had an insertion before
  this block or the block has no size update: nginx forgets a size update before its first insertion, and then keeps
  headers behind those of the RFC's table, at indices that no valid block uses.\<close>

theorem header_block_decoded:
  assumes "smooth env" "ready b" "stands_for (bk_hpack b) r"
    and "list_all2 (field_code (he_field_max env)) ws fs" "ws \<noteq> []" "fields_effect fs r = Some (r', hs)"
    and "bk_length b = length (concat ws)" "headers_bytes hs \<le> bk_header_limit b"
    and "concat ps = concat ws @ rest" "[] \<notin> set ps"
  shows "\<exists>b'. h2_feed env (Waiting Header_block b []) ps = Finished b' rest
    \<and> bk_taken b' = bk_taken b @ hs \<and> stands_for (bk_hpack b') r'
    \<and> (stands_exactly (bk_hpack b) r \<and> (hp_entries (bk_hpack b) \<noteq> None \<or> (\<forall>n. Size_update n \<notin> set fs)) \<longrightarrow>
        stands_exactly (bk_hpack b') r')"
proof -
  have feed: "\<exists>q' b'. h2_feed env (Waiting Header_block b []) ps = Finished b' rest
      \<and> bk_taken b' = bk_taken b @ hs \<and> simulates (bk_hpack b') q' \<and> covers q' r'
      \<and> (same_table q r \<and> (fst q \<or> (\<forall>n. Size_update n \<notin> set fs)) \<longrightarrow> same_table q' r')"
    if q: "simulates (bk_hpack b) q" "covers q r" for q
    using effects_cover [OF q(2) assms(6)] feed_queue [OF assms(1,2) q(1) assms(4,5) _ assms(7-10)] by blast
  obtain b' where b': "h2_feed env (Waiting Header_block b []) ps = Finished b' rest"
      "bk_taken b' = bk_taken b @ hs" "stands_for (bk_hpack b') r'"
    using assms(3) feed unfolding stands_for_def by blast
  have "stands_exactly (bk_hpack b') r'"
    if same: "stands_exactly (bk_hpack b) r" "hp_entries (bk_hpack b) \<noteq> None \<or> (\<forall>n. Size_update n \<notin> set fs)"
  proof -
    obtain q where q: "simulates (bk_hpack b) q" "same_table q r" using same(1) unfolding stands_exactly_def by blast
    obtain q' b'' where fed: "h2_feed env (Waiting Header_block b []) ps = Finished b'' rest"
        "simulates (bk_hpack b'') q'"
        "same_table q r \<and> (fst q \<or> (\<forall>n. Size_update n \<notin> set fs)) \<longrightarrow> same_table q' r'"
      using feed [OF q(1) same_covers [OF q(2)]] by blast
    have "b'' = b'" using fed(1) b'(1) by simp
    moreover have "same_table q' r'" using fed(3) q(2) same(2) simulates_made [OF q(1)] by blast
    ultimately show ?thesis using fed(2) unfolding stands_exactly_def by blast
  qed
  then show ?thesis using b' by blast
qed

definition plain_env :: h2_env where
  "plain_env = \<lparr>he_field_max = 100, he_null = never, he_null_field = False, he_request = \<lambda>hs x. Taken\<rparr>"

definition new_block :: "nat \<Rightarrow> block" where
  "new_block len = \<lparr>bk_sid = 1, bk_length = len, bk_padding = 0, bk_flags = 4, bk_parse_name = False,
     bk_parse_value = False, bk_index = False, bk_header = ([], []), bk_header_limit = 400, bk_field_state = 0,
     bk_field = [], bk_field_rest = 0, bk_stream = True, bk_taken = [], bk_hpack = new_hpack\<rparr>"

lemma block_example:
  "field_code 100 [0x82] (Indexed_field 2)"
  "field_code 100 [0x40, 1, 0x61, 1, 0x62] (Literal_field True (New_name [0x61]) [0x62])"
  "field_code 100 [0xbe] (Indexed_field 62)"
proof -
  show "field_code 100 [0x82] (Indexed_field 2)" "field_code 100 [0xbe] (Indexed_field 62)"
    using field_code.indexed [of 2 100] field_code.indexed [of 62 100]
    by (simp_all add: ngx_http_v2_write_int_def ngx_http_v2_prefix_def)
  have "header_string 100 [1, c] [c]" for c
    using header_string.plain [of "[c]" 100]
    by (simp add: ngx_http_v2_write_int_def ngx_http_v2_prefix_def NGX_HTTP_V2_ENCODE_RAW_def)
  then show "field_code 100 [0x40, 1, 0x61, 1, 0x62] (Literal_field True (New_name [0x61]) [0x62])"
    using field_code.incremental_new [of 100 "[1, 0x61]" "[0x61]" "[1, 0x62]" "[0x62]"] by simp
qed

lemma header_block_decoded_witness:
  "\<exists>b'. h2_feed plain_env (Waiting Header_block (new_block 7) []) [[0x82, 0x40], [1, 0x61, 1], [0x62, 0xbe, 0]]
      = Finished b' [0]
    \<and> bk_taken b' = [(bytes '':method'', bytes ''GET''), ([0x61], [0x62]), ([0x61], [0x62])]
    \<and> stands_exactly (bk_hpack b') (4096, [([0x61], [0x62])])"
proof -
  let ?fs = "[Indexed_field 2, Literal_field True (New_name [0x61]) [0x62], Indexed_field 62]"
  let ?hs = "[(bytes '':method'', bytes ''GET''), ([0x61], [0x62]), ([0x61], [0x62])]"
  have env: "smooth plain_env" "he_field_max plain_env = 100" by (simp_all add: smooth_def plain_env_def)
  have exact: "stands_exactly (bk_hpack (new_block 7)) (4096, [])"
    using new_table_exact by (simp add: new_block_def)
  have b: "ready (new_block 7)" "stands_for (bk_hpack (new_block 7)) (4096, [])"
      "bk_header_limit (new_block 7) = 400" "bk_length (new_block 7) = 7" "bk_taken (new_block 7) = []"
    using exactly_stands [OF exact]
    by (simp_all add: ready_def new_block_def end_headers_def NGX_HTTP_V2_END_HEADERS_FLAG_def)
  have second: "ngx_http_v2_static_table ! Suc 0 = (bytes '':method'', bytes ''GET'')"
    by (simp add: ngx_http_v2_static_table_def)
  have effect: "fields_effect ?fs (4096, []) = Some ((4096, [([0x61], [0x62])]), ?hs)"
    by (simp add: queue_lookup_def header_size_def header_bytes_def second)
  let ?ws = "[[0x82], [0x40, 1, 0x61, 1, 0x62], [0xbe]]" and ?ps = "[[0x82, 0x40], [1, 0x61, 1], [0x62, 0xbe, 0]]"
  have input: "list_all2 (field_code (he_field_max plain_env)) ?ws ?fs" "?ws \<noteq> []"
      "bk_length (new_block 7) = length (concat ?ws)" "headers_bytes ?hs \<le> bk_header_limit (new_block 7)"
      "concat ?ps = concat ?ws @ [0]" "[] \<notin> set ?ps" "\<forall>n. Size_update n \<notin> set ?fs"
    using block_example env(2) b(3-5) by (simp_all add: header_bytes_def)
  note decoded = header_block_decoded [OF env(1) b(1,2) input(1,2) effect input(3-6)]
  have "hp_entries (bk_hpack (new_block 7)) \<noteq> None \<or> (\<forall>n. Size_update n \<notin> set ?fs)" using input(7) by blast
  then show ?thesis using decoded exact unfolding b(5) append_Nil by blast
qed

text \<open>C20: What nginx writes it reads.  A string encoded by \<^verbatim>\<open>ngx_http_v2_string_encode\<close>, in lower case or as it is,
  and read in the states of a field, is given to \<^verbatim>\<open>ngx_http_v2_state_process_header\<close> byte for byte, with the bytes
  behind it left; whichever of the two codings the encoder chose.\<close>

theorem string_encode_read:
  assumes "length src \<le> he_field_max env" "length src < 2 ^ 21" "end_headers b" "bk_stream b \<or> bk_index b"
    and "\<not> he_null_field env" "bk_field_state b = 0" "bk_length b = length (ngx_http_v2_string_encode src lower) + n"
  shows "h2_run env Field_len b (ngx_http_v2_string_encode src lower @ rest) =
    h2_go env (ngx_http_v2_state_process_header env
      (b\<lparr>bk_length := n, bk_field_rest := 0, bk_field := (if lower then ngx_strlow src else src)\<rparr>) rest)"
proof -
  let ?out = "if lower then ngx_strlow src else src"
  have len: "length ?out = length src" by (simp add: ngx_strlow_def)
  have "header_string (he_field_max env) (ngx_http_v2_string_encode src lower) ?out"
  proof (cases "ngx_http_huff_encode src lower = []")
    case True
    then show ?thesis using header_string.plain [of ?out "he_field_max env"] assms(1,2) len
      by (simp add: ngx_http_v2_string_encode_def Let_def)
  next
    case False
    then obtain k where "k < 8" "bits_of (ngx_http_huff_encode src lower) = codes_of ?out @ replicate k True"
      using encode_bits(1) by blast
    then show ?thesis using header_string.coded [of "ngx_http_huff_encode src lower" ?out k "he_field_max env"]
        encode_bits(2) [OF False] assms(1,2) False
      by (simp add: ngx_http_v2_string_encode_def Let_def)
  qed
  then show ?thesis using assms by (intro run_string) simp_all
qed

lemma string_encode_read_witness:
  "h2_run plain_env Field_len ((new_block 0)\<lparr>bk_length := length (ngx_http_v2_string_encode [0x41, 0x42] True) + 3\<rparr>)
      (ngx_http_v2_string_encode [0x41, 0x42] True @ [0, 1, 2]) =
    h2_go plain_env (ngx_http_v2_state_process_header plain_env
      ((new_block 3)\<lparr>bk_field_rest := 0, bk_field := [0x61, 0x62]\<rparr>) [0, 1, 2])"
proof -
  let ?b = "(new_block 0)\<lparr>bk_length := length (ngx_http_v2_string_encode [0x41, 0x42] True) + 3\<rparr>"
  have "length [0x41 :: u8, 0x42] \<le> he_field_max plain_env" "end_headers ?b" "bk_stream ?b \<or> bk_index ?b"
      "\<not> he_null_field plain_env" "bk_field_state ?b = 0"
    by (simp_all add: new_block_def end_headers_def NGX_HTTP_V2_END_HEADERS_FLAG_def plain_env_def)
  moreover have "(if True then ngx_strlow [0x41 :: u8, 0x42] else [0x41, 0x42]) = [0x61, 0x62]"
    by (simp add: ngx_strlow_def ngx_tolower_def)
  moreover have "?b\<lparr>bk_length := 3, bk_field_rest := 0, bk_field := [0x61, 0x62]\<rparr>
      = (new_block 3)\<lparr>bk_field_rest := 0, bk_field := [0x61, 0x62]\<rparr>"
    by (simp add: new_block_def)
  ultimately show ?thesis
    using string_encode_read [of "[0x41, 0x42]" plain_env ?b True 3 "[0, 1, 2]"] by simp
qed

text \<open>C5: Where the bytes of a block are cut does not matter.  In whatever state the handlers are once the frame has
  the flag \<^verbatim>\<open>END_HEADERS\<close>, and whatever the bytes, valid or not: giving them piece by piece has the result of giving
  them at once, the kept bytes, the error and the table included.\<close>

theorem header_block_resume:
  assumes "end_headers b" "[] \<notin> set ps"
  shows "h2_feed env (h2_run env h b xs) ps = h2_run env h b (xs @ concat ps)"
  by (rule pieces_whole [OF assms])

lemma header_block_resume_witness:
  "h2_feed plain_env (h2_run plain_env Header_block (new_block 7) [0x82, 0x40]) [[1, 0x61], [1, 0x62, 0xbe]]
    = h2_run plain_env Header_block (new_block 7) [0x82, 0x40, 1, 0x61, 1, 0x62, 0xbe]"
  using header_block_resume [of "new_block 7" "[[1, 0x61], [1, 0x62, 0xbe]]" plain_env Header_block "[0x82, 0x40]"]
  by (simp add: new_block_def end_headers_def NGX_HTTP_V2_END_HEADERS_FLAG_def)

text \<open>C26: A field that is skipped leaves the place of an earlier one.  On a stream that has been refused, a literal
  without indexing whose name is new ends the whole connection with \<^verbatim>\<open>PROTOCOL_ERROR\<close> when the field read before it was
  empty, or when it is the first field of the connection; a name of any length is taken for an empty one.\<close>

theorem skipped_name_refused:
  assumes "\<not> bk_stream b" "end_headers b" "\<not> bk_index b" "bk_field b = []" "bk_length b = Suc (length ns + n)"
    and "first = 0 \<or> first = 0x10" "ns = ngx_http_v2_write_int 0 (ngx_http_v2_prefix 7) (length name) @ name"
    and "length name < 2 ^ 21" "length name \<le> he_field_max env"
  shows "h2_run env Header_block b (first # ns @ rest) = Failed Protocol_error"
proof -
  let ?w = "ngx_http_v2_write_int 0 (ngx_http_v2_prefix 7) (length name)"
  let ?c = "b\<lparr>bk_index := False, bk_length := length ns + n, bk_parse_name := True, bk_parse_value := True\<rparr>"
  have kind: "kind_code first 4 Literal_kind" using assms(6) by (auto intro: kind_code.intros)
  have "ngx_http_v2_write_int first (ngx_http_v2_prefix 4) 0 = [first]"
    using assms(6) by (simp add: ngx_http_v2_write_int_def ngx_http_v2_prefix_def)
  then have "h2_run env Header_block b ([first] @ ns @ rest) = h2_run env Field_len ?c (ns @ rest)"
    using block_open [OF kind, where w = "[first]" and v = 0 and b = b and l = "length ns + n" and env = env
        and rest = "ns @ rest"] assms(2,3,5)
    by simp
  moreover have "h2_step env Field_len ?c (ns @ rest) = Goto Field_skip
      (?c\<lparr>bk_length := length name + n, bk_field_rest := length name\<rparr>) (name @ rest)"
    using parse_length(1) [where w = ?w and first = 0 and n = "length name" and l = "length name + n" and rest = "name @ rest"]
      parse_length(2) [where w = ?w and first = 0 and n = "length name"] assms
    by (auto simp: ngx_http_v2_state_field_len_def Let_def end_headers_def add.assoc)
  moreover have "h2_step env Field_skip (?c\<lparr>bk_length := length name + n, bk_field_rest := length name\<rparr>) (name @ rest)
      = Connection_error Protocol_error"
    using assms(4) by (simp add: ngx_http_v2_state_field_skip_def field_size_def field_consumed_def field_read_def
        ngx_http_v2_state_process_header_def Let_def)
  ultimately show ?thesis by (simp add: h2_run_go [of env Field_len] h2_run_go [of env Field_skip] h2_go_def)
qed

lemma skipped_name_refused_witness:
  "h2_run plain_env Header_block ((new_block 5)\<lparr>bk_stream := False\<rparr>) [0, 1, 0x61, 1, 0x62] = Failed Protocol_error"
proof -
  let ?b = "(new_block 5)\<lparr>bk_stream := False\<rparr>"
  have name: "[1, 0x61] = ngx_http_v2_write_int 0 (ngx_http_v2_prefix 7) (length [0x61 :: u8]) @ [0x61]"
    by (simp add: ngx_http_v2_write_int_def ngx_http_v2_prefix_def)
  have b: "\<not> bk_stream ?b" "end_headers ?b" "\<not> bk_index ?b" "bk_field ?b = []"
      "bk_length ?b = Suc (length [1 :: u8, 0x61] + 2)" "length [0x61 :: u8] \<le> he_field_max plain_env"
    by (simp_all add: new_block_def end_headers_def NGX_HTTP_V2_END_HEADERS_FLAG_def plain_env_def)
  have "h2_run plain_env Header_block ?b (0 # [1, 0x61] @ [1, 0x62]) = Failed Protocol_error"
    by (rule skipped_name_refused [OF b(1-5) _ name _ b(6)]) simp_all
  then show ?thesis by simp
qed

end
