(* ===== verification/Ngx_Http_V2_Send.thy ===== *)
theory Ngx_Http_V2_Send
  imports Ngx_Prelude
begin

text \<open>
  The body of an HTTP/2 response on its way into DATA frames: \<^verbatim>\<open>ngx_http_v2_send_chain\<close> of
  \<^verbatim>\<open>http/v2/ngx_http_v2_filter_module.c\<close>, which respects the windows of the connection and of the stream.  A buffer is its
  bytes with the flag \<^verbatim>\<open>last_buf\<close>; the part of a buffer that is left (a shadow with an offset) is a buffer.
\<close>

section \<open>Flow control\<close>

type_synonym buf = "u8 list \<times> bool"

text \<open>The result, and whether the stream is marked as exhausted, or put into the queue that waits for the connection.\<close>

datatype flow = Flow_ok | Flow_exhausted | Flow_waiting

definition ngx_http_v2_flow_control :: "nat \<Rightarrow> int \<Rightarrow> flow" where
  "ngx_http_v2_flow_control conn_window stream_window =
     (if stream_window \<le> 0 then Flow_exhausted else if conn_window = 0 then Flow_waiting else Flow_ok)"

text \<open>\<^verbatim>\<open>limit\<close>, 0 for no limit, against the windows.\<close>

definition send_limit :: "nat \<Rightarrow> nat \<Rightarrow> int \<Rightarrow> nat" where
  "send_limit limit conn_window stream_window =
     (let limit = (if limit = 0 \<or> limit > conn_window then conn_window else limit) in
      if int limit > stream_window then (if stream_window > 0 then nat stream_window else 0) else limit)"

section \<open>Frames\<close>

text \<open>
  The buffers of one frame: \<^verbatim>\<open>while ((off_t) rest >= size)\<close> and the part of a buffer after it.  The buffers that go
  into the frame, those left, and what is left of \<^verbatim>\<open>rest\<close> when there are no more.
\<close>

fun fill_frame :: "nat \<Rightarrow> buf list \<Rightarrow> buf list \<times> buf list \<times> nat" where
  "fill_frame rest [] = ([], [], rest)"
| "fill_frame rest ((bs, fin) # bufs) =
     (if rest \<ge> length bs then
        (case fill_frame (rest - length bs) bufs of (out, left, unused) \<Rightarrow> ((bs, fin) # out, left, unused))
      else if rest > 0 then ([(take rest bs, False)], (drop rest bs, fin) # bufs, 0)
      else ([], (bs, fin) # bufs, 0))"

definition buf_bytes :: "buf list \<Rightarrow> u8 list" where
  "buf_bytes bufs = concat (map fst bufs)"

text \<open>A frame: its data, and \<^verbatim>\<open>END_STREAM\<close>.\<close>

type_synonym data_frame = "u8 list \<times> bool"

text \<open>
  \<^verbatim>\<open>for ( ;; )\<close>: the frames and the buffers left.  The loop has no end when \<^verbatim>\<open>frame_size\<close> is zero and there is
  something to send; the configuration refuses a chunk size of zero.  With trailers the last frame does not end the stream,
  and is left out when it is empty.
\<close>

partial_function (option) send_frames :: "bool \<Rightarrow> nat \<Rightarrow> nat \<Rightarrow> buf list \<Rightarrow> (data_frame list \<times> buf list) option" where
  "send_frames trailers frame_size limit bufs =
     (let frame_size = min frame_size limit in
      case fill_frame frame_size bufs of (out, left, unused) \<Rightarrow>
        let n = frame_size - unused;
            fin = (snd (last out) \<and> \<not> trailers);
            frames = (if n > 0 \<or> fin then [(buf_bytes out, fin)] else []) in
        if left = [] then Some (frames, [])
        else if limit - n = 0 then Some (frames, left)
        else Option.bind (send_frames trailers frame_size (limit - n) left)
               (\<lambda>(frames', left'). Some (frames @ frames', left')))"

text \<open>\<^verbatim>\<open>while (in)\<close>: empty buffers before the first with data, or the last, are skipped.\<close>

fun skip_empty :: "buf list \<Rightarrow> buf list" where
  "skip_empty [] = []"
| "skip_empty ((bs, fin) # bufs) = (if bs = [] \<and> \<not> fin then skip_empty bufs else (bs, fin) # bufs)"

datatype sent =
    Sent "data_frame list" "buf list" nat int   \<comment> \<open>frames, the chain returned, and the two windows\<close>
  | Blocked flow "buf list"
  | Send_error

text \<open>
  The two calls of \<^verbatim>\<open>ngx_http_v2_filter_send\<close> and the second test of the windows are left out: they write what is queued.
\<close>

definition ngx_http_v2_send_chain :: "bool \<Rightarrow> bool \<Rightarrow> nat \<Rightarrow> nat \<Rightarrow> nat \<Rightarrow> int \<Rightarrow> buf list \<Rightarrow> sent option" where
  "ngx_http_v2_send_chain out_closed trailers frame_size limit conn_window stream_window bufs =
     (let bufs = skip_empty bufs in
      if bufs = [] then Some (Sent [] [] conn_window stream_window)
      else if out_closed then Some (if fst (hd bufs) \<noteq> [] then Send_error else Sent [] [] conn_window stream_window)
      else if fst (hd bufs) \<noteq> [] \<and> ngx_http_v2_flow_control conn_window stream_window \<noteq> Flow_ok
      then Some (Blocked (ngx_http_v2_flow_control conn_window stream_window) bufs)
      else
        (case send_frames trailers frame_size (send_limit limit conn_window stream_window) bufs of
           None \<Rightarrow> None
         | Some (frames, left) \<Rightarrow>
             let n = sum_list (map (\<lambda>f. length (fst f)) frames) in
             Some (Sent frames left (conn_window - n) (stream_window - int n))))"

section \<open>One frame\<close>

lemma buf_bytes_simps [simp]:
  "buf_bytes [] = []" "buf_bytes (b # bufs) = fst b @ buf_bytes bufs" "buf_bytes (bufs @ bufs') = buf_bytes bufs @ buf_bytes bufs'"
  by (simp_all add: buf_bytes_def)

lemma fill_frame_bytes:
  assumes "fill_frame rest bufs = (out, left, unused)"
  shows "buf_bytes out @ buf_bytes left = buf_bytes bufs" "length (buf_bytes out) + unused = rest"
    and "left \<noteq> [] \<Longrightarrow> unused = 0"
proof -
  have "fill_frame rest bufs = (out, left, unused) \<Longrightarrow> buf_bytes out @ buf_bytes left = buf_bytes bufs
      \<and> length (buf_bytes out) + unused = rest \<and> (left \<noteq> [] \<longrightarrow> unused = 0)"
  proof (induction rest bufs arbitrary: out left unused rule: fill_frame.induct)
    case (2 rest bs fin bufs)
    show ?case
    proof (cases "rest \<ge> length bs")
      case True
      obtain out' left' unused' where fill: "fill_frame (rest - length bs) bufs = (out', left', unused')"
        by (metis prod_cases3)
      then show ?thesis using 2(1) [OF True fill] 2(2) True by auto
    next
      case False
      then show ?thesis using 2(2) by (auto split: if_splits)
    qed
  qed simp
  then show "buf_bytes out @ buf_bytes left = buf_bytes bufs" "length (buf_bytes out) + unused = rest"
    "left \<noteq> [] \<Longrightarrow> unused = 0" using assms by auto
qed

text \<open>Only the last buffer of a chain has \<^verbatim>\<open>last_buf\<close>.\<close>

definition ends_last :: "buf list \<Rightarrow> bool" where
  "ends_last bufs \<longleftrightarrow> bufs \<noteq> [] \<and> list_all (\<lambda>b. \<not> snd b) (butlast bufs)"

lemma ends_last_Cons: "ends_last (b # bufs) \<longleftrightarrow> bufs = [] \<or> \<not> snd b \<and> ends_last bufs"
  by (auto simp: ends_last_def)

lemma fill_frame_last:
  assumes "fill_frame rest bufs = (out, left, unused)" "ends_last bufs" "rest > 0 \<or> fst (hd bufs) = []"
  shows "out \<noteq> []" "snd (last out) \<longleftrightarrow> left = [] \<and> snd (last bufs)"
    and "left \<noteq> [] \<Longrightarrow> ends_last left \<and> snd (last left) = snd (last bufs)"
proof -
  have "fill_frame rest bufs = (out, left, unused) \<Longrightarrow> ends_last bufs \<Longrightarrow>
      (out = [] \<longrightarrow> left = bufs \<and> rest = 0 \<and> fst (hd bufs) \<noteq> []) \<and> (out \<noteq> [] \<longrightarrow> snd (last out) = (left = [] \<and> snd (last bufs)))
      \<and> (left \<noteq> [] \<longrightarrow> ends_last left \<and> snd (last left) = snd (last bufs))"
  proof (induction rest bufs arbitrary: out left unused rule: fill_frame.induct)
    case (2 rest bs fin bufs)
    show ?case
    proof (cases "rest \<ge> length bs")
      case True
      obtain out' left' unused' where fill: "fill_frame (rest - length bs) bufs = (out', left', unused')"
        by (metis prod_cases3)
      show ?thesis
      proof (cases "bufs = []")
        case empty: True
        then show ?thesis using 2(2) fill True by auto
      next
        case False
        then have "ends_last bufs" "\<not> fin" using 2(3) by (auto simp: ends_last_Cons)
        then show ?thesis using 2(1) [OF True fill] 2(2) True fill False by (auto split: if_splits)
      qed
    next
      case False
      then show ?thesis using 2(2,3) by (auto simp: ends_last_Cons split: if_splits)
    qed
  qed (simp add: ends_last_def)
  then show "out \<noteq> []" "snd (last out) \<longleftrightarrow> left = [] \<and> snd (last bufs)"
    "left \<noteq> [] \<Longrightarrow> ends_last left \<and> snd (last left) = snd (last bufs)" using assms by auto
qed

section \<open>The frames of a call\<close>

definition data_of :: "data_frame list \<Rightarrow> u8 list" where
  "data_of frames = concat (map fst frames)"

lemma data_of_simps [simp]:
  "data_of [] = []" "data_of (f # frames) = fst f @ data_of frames" "data_of (fs @ gs) = data_of fs @ data_of gs"
  by (simp_all add: data_of_def)

definition frame_ok :: "nat \<Rightarrow> data_frame \<Rightarrow> bool" where
  "frame_ok m f \<longleftrightarrow> length (fst f) \<le> m \<and> (fst f \<noteq> [] \<or> snd f)"

text \<open>What the frames of a call are for the buffers and the limit given.\<close>

definition frames_ok :: "bool \<Rightarrow> nat \<Rightarrow> nat \<Rightarrow> buf list \<Rightarrow> data_frame list \<Rightarrow> buf list \<Rightarrow> bool" where
  "frames_ok trailers m limit bufs frames left \<longleftrightarrow>
     data_of frames @ buf_bytes left = buf_bytes bufs
     \<and> length (data_of frames) \<le> limit \<and> (left \<noteq> [] \<longrightarrow> length (data_of frames) = limit)
     \<and> list_all (frame_ok m) frames \<and> list_all (\<lambda>f. \<not> snd f) (butlast frames)
     \<and> ((frames \<noteq> [] \<and> snd (last frames)) \<longleftrightarrow> (left = [] \<and> snd (last bufs) \<and> \<not> trailers))
     \<and> (left \<noteq> [] \<longrightarrow> ends_last left \<and> snd (last left) = snd (last bufs))"

lemma send_frames_ok:
  "0 < m \<Longrightarrow> ends_last bufs \<Longrightarrow> 0 < limit \<or> fst (hd bufs) = [] \<Longrightarrow>
    \<exists>frames left. send_frames trailers m limit bufs = Some (frames, left) \<and> frames_ok trailers m limit bufs frames left"
proof (induction limit arbitrary: bufs m rule: less_induct)
  case (less limit)
  let ?m = "min m limit"
  obtain out left unused where fill: "fill_frame ?m bufs = (out, left, unused)" by (metis prod_cases3)
  note bytes = fill_frame_bytes [OF fill]
  have "0 < ?m \<or> fst (hd bufs) = []" using less.prems by auto
  note lasts = fill_frame_last [OF fill less.prems(2) this]
  let ?n = "?m - unused"
  let ?fin = "snd (last out) \<and> \<not> trailers"
  let ?frames = "if ?n > 0 \<or> ?fin then [(buf_bytes out, ?fin)] else []"
  have n: "length (buf_bytes out) = ?n" using bytes(2) by simp
  have data: "data_of ?frames = buf_bytes out" using n by auto
  have here: "list_all (frame_ok m) ?frames" using n by (auto simp: frame_ok_def)
  note step = send_frames.simps [of trailers m limit bufs, unfolded fill Let_def prod.case]
  show ?case
  proof (cases "left = []")
    case True
    then have "send_frames trailers m limit bufs = Some (?frames, [])" using step by simp
    moreover have "frames_ok trailers m limit bufs ?frames []"
      using True bytes n data here lasts by (auto simp: frames_ok_def)
    ultimately show ?thesis by blast
  next
    case False
    then have full: "?n = ?m" and no_fin: "\<not> snd (last out)" and ends: "ends_last left" "snd (last left) = snd (last bufs)"
      using bytes(3) lasts by auto
    show ?thesis
    proof (cases "limit - ?n = 0")
      case True
      then have "send_frames trailers m limit bufs = Some (?frames, left)" using step False by simp
      moreover have "frames_ok trailers m limit bufs ?frames left"
        using True False bytes n data here no_fin ends full by (auto simp: frames_ok_def)
      ultimately show ?thesis by blast
    next
      case more: False
      then have lim: "0 < limit" "limit - ?n < limit" "0 < ?m" using full less.prems(1) by auto
      then obtain frames' left' where rec: "send_frames trailers ?m (limit - ?n) left = Some (frames', left')"
          "frames_ok trailers ?m (limit - ?n) left frames' left'"
        using less.IH [of "limit - ?n" ?m left] ends(1) more by auto
      then have "send_frames trailers m limit bufs = Some (?frames @ frames', left')"
        using step False more by simp
      moreover have "frames_ok trailers m limit bufs (?frames @ frames') left'"
      proof -
        have one: "?frames = [(buf_bytes out, False)]" using no_fin full lim by simp
        have "list_all (frame_ok m) frames'" using rec(2) by (auto simp: frames_ok_def frame_ok_def list_all_iff)
        then show ?thesis unfolding one using rec(2) bytes n ends full lim here unfolding one frames_ok_def
          by (cases "frames' = []") auto
      qed
      ultimately show ?thesis by blast
    qed
  qed
qed

section \<open>The chain\<close>

lemma skip_empty_bytes [simp]: "buf_bytes (skip_empty bufs) = buf_bytes bufs"
  by (induction bufs rule: skip_empty.induct) auto

lemma skip_empty_ends:
  "skip_empty bufs \<noteq> [] \<Longrightarrow> ends_last bufs \<Longrightarrow> ends_last (skip_empty bufs) \<and> last (skip_empty bufs) = last bufs"
proof (induction bufs rule: skip_empty.induct)
  case (2 bs fin bufs)
  then show ?case by (cases "bufs = []") (auto simp: ends_last_Cons)
qed simp

lemma skip_empty_none: "skip_empty bufs = [] \<Longrightarrow> buf_bytes bufs = []"
  using skip_empty_bytes [of bufs] by (simp del: skip_empty_bytes)

lemma send_limit_bounds: "send_limit limit cw sw \<le> cw" "int (send_limit limit cw sw) \<le> max 0 sw"
  by (auto simp: send_limit_def Let_def)

lemma send_limit_pos: "ngx_http_v2_flow_control cw sw = Flow_ok \<Longrightarrow> 0 < send_limit limit cw sw"
  by (auto simp: ngx_http_v2_flow_control_def send_limit_def Let_def split: if_splits)

text \<open>C9: A response body goes into DATA frames without a byte lost or added, and never beyond a window.  The call
  returns; the data of its frames, and the buffers that it hands back for later, are the body; no frame is longer than
  the frame size, or empty unless it ends the stream; both windows shrink by exactly what was sent, never below zero;
  buffers are only handed back when the limit is used up; \<^verbatim>\<open>END_STREAM\<close> is on the last frame, and only when that
  has the end of the body and no trailers follow.  Without a window nothing is sent.\<close>

theorem send_chain_exact:
  assumes "0 < m" "ends_last bufs"
  shows "\<exists>result. ngx_http_v2_send_chain False trailers m limit cw sw bufs = Some result \<and>
    (case result of
       Sent frames left cw' sw' \<Rightarrow>
         data_of frames @ buf_bytes left = buf_bytes bufs
         \<and> cw' + length (data_of frames) = cw \<and> sw' + int (length (data_of frames)) = sw \<and> (sw' < sw \<longrightarrow> 0 \<le> sw')
         \<and> list_all (frame_ok m) frames \<and> list_all (\<lambda>f. \<not> snd f) (butlast frames)
         \<and> (left \<noteq> [] \<longrightarrow> length (data_of frames) = send_limit limit cw sw)
         \<and> ((frames \<noteq> [] \<and> snd (last frames)) \<longleftrightarrow> (skip_empty bufs \<noteq> [] \<and> left = [] \<and> snd (last bufs) \<and> \<not> trailers))
     | Blocked flow left \<Rightarrow> buf_bytes left = buf_bytes bufs \<and> (sw \<le> 0 \<or> cw = 0)
     | Send_error \<Rightarrow> False)"
proof (cases "skip_empty bufs = []")
  case True
  then show ?thesis using skip_empty_none [OF True] by (simp add: ngx_http_v2_send_chain_def)
next
  case False
  let ?bufs = "skip_empty bufs" and ?limit = "send_limit limit cw sw"
  note ends = skip_empty_ends [OF False assms(2)]
  show ?thesis
  proof (cases "fst (hd ?bufs) \<noteq> [] \<and> ngx_http_v2_flow_control cw sw \<noteq> Flow_ok")
    case True
    then show ?thesis using False
      by (auto simp: ngx_http_v2_send_chain_def Let_def ngx_http_v2_flow_control_def split: if_splits)
  next
    case flow: False
    then have "0 < ?limit \<or> fst (hd ?bufs) = []" using send_limit_pos by blast
    then obtain frames left where frames: "send_frames trailers m ?limit ?bufs = Some (frames, left)"
        and ok: "frames_ok trailers m ?limit ?bufs frames left"
      using send_frames_ok [OF assms(1), of ?bufs ?limit trailers] ends by blast
    have n: "sum_list (map (\<lambda>f. length (fst f)) frames) = length (data_of frames)"
      by (simp add: data_of_def length_concat comp_def)
    define k where "k = length (data_of frames)"
    have "k \<le> ?limit" using ok by (simp add: frames_ok_def k_def)
    then have le: "k \<le> cw" "0 < k \<longrightarrow> int k \<le> sw"
      using send_limit_bounds [of limit cw sw] by (auto simp: max_def split: if_splits)
    have result: "ngx_http_v2_send_chain False trailers m limit cw sw bufs = Some (Sent frames left (cw - k) (sw - int k))"
      using False flow frames n by (auto simp: ngx_http_v2_send_chain_def Let_def k_def)
    show ?thesis using ok ends le False unfolding result by (simp add: frames_ok_def k_def [symmetric])
  qed
qed

lemma send_chain_exact_witness:
  "\<exists>frames left cw sw. ngx_http_v2_send_chain False False 4 0 6 100 [([1, 2, 3], False), ([], False), ([4, 5, 6, 7], True)]
     = Some (Sent frames left cw sw) \<and> data_of frames @ buf_bytes left = [1, 2, 3, 4, 5, 6, 7]
     \<and> list_all (frame_ok 4) frames \<and> cw + length (data_of frames) = 6"
proof -
  let ?bufs = "[([1, 2, 3], False), ([], False), ([4, 5, 6, 7], True)] :: buf list"
  have "ends_last ?bufs" by (simp add: ends_last_def)
  note exact = send_chain_exact [OF _ this, of 4 False 0 6 100]
  obtain result where "ngx_http_v2_send_chain False False 4 0 6 100 ?bufs = Some result"
    using exact by auto
  then show ?thesis using exact by (cases result) auto
qed

end
