(* ===== verification/Ngx_System.thy ===== *)
theory Ngx_System
  imports Ngx_Prelude
begin

text \<open>
  Processes that share memory.  A step is one atomic access to it by one process; any order of steps is
  possible.  The processes are the positions of a list, each with its place in the code.
\<close>

section \<open>Reachable states and invariants\<close>

inductive reach :: "('s \<Rightarrow> bool) \<Rightarrow> ('s \<Rightarrow> 's \<Rightarrow> bool) \<Rightarrow> 's \<Rightarrow> bool" for init step where
  start: "init s \<Longrightarrow> reach init step s"
| further: "reach init step s \<Longrightarrow> step s s' \<Longrightarrow> reach init step s'"

locale invariant =
  fixes init :: "'s \<Rightarrow> bool" and step :: "'s \<Rightarrow> 's \<Rightarrow> bool" and inv :: "'s \<Rightarrow> bool"
  assumes initially: "init s \<Longrightarrow> inv s"
    and kept: "inv s \<Longrightarrow> step s s' \<Longrightarrow> inv s'"
begin

lemma always: "reach init step s \<Longrightarrow> inv s"
  by (induction rule: reach.induct) (rule initially, assumption, rule kept)

end

section \<open>Counting processes\<close>

definition count_pcs :: "('p \<Rightarrow> bool) \<Rightarrow> 'p list \<Rightarrow> nat" where
  "count_pcs P ps = length (filter P ps)"

lemma count_update:
  "i < length ps \<Longrightarrow> count_pcs P (ps[i := p]) + of_bool (P (ps ! i)) = count_pcs P ps + of_bool (P p)"
proof (induction ps arbitrary: i)
  case (Cons q ps)
  then show ?case by (cases i) (auto simp: count_pcs_def)
qed simp

lemma count_le: "count_pcs P ps \<le> length ps"
  by (simp add: count_pcs_def)

lemma count_pos: "i < length ps \<Longrightarrow> P (ps ! i) \<Longrightarrow> 0 < count_pcs P ps"
  by (auto simp: count_pcs_def filter_empty_conv)

lemma count_two:
  assumes "i < length ps" "j < length ps" "i \<noteq> j" "P (ps ! i)" "P (ps ! j)"
  shows "2 \<le> count_pcs P ps"
proof -
  have "{i, j} \<subseteq> {k. k < length ps \<and> P (ps ! k)}" using assms by auto
  then have "card {i, j} \<le> card {k. k < length ps \<and> P (ps ! k)}" by (intro card_mono) auto
  then show ?thesis using assms(3) by (simp add: count_pcs_def length_filter_conv_card)
qed

lemma count_none: "count_pcs P ps = 0 \<longleftrightarrow> list_all (\<lambda>p. \<not> P p) ps"
  by (simp add: count_pcs_def filter_empty_conv list_all_iff)

lemma count_less:
  assumes "i < length ps" "\<not> P (ps ! i)"
  shows "count_pcs P ps < length ps"
  using assms length_filter_less [of "ps ! i" ps P] by (simp add: count_pcs_def)

section \<open>Trying again\<close>

text \<open>
  The attempts of a spinning lock: the first one of a round, and on a machine with several processors one after
  each of the pauses of \<^verbatim>\<open>for (n = 1; n < spin; n <<= 1)\<close>; then the processor is given up.  The position in the
  round is \<open>n\<close>, 0 for the first attempt.
\<close>

definition next_try :: "nat \<Rightarrow> nat \<Rightarrow> nat \<Rightarrow> nat" where
  "next_try ncpu spin n =
     (if n = 0 then (if ncpu > 1 \<and> 1 < spin then 1 else 0)
      else if 2 * n < spin then 2 * n else 0)"

text \<open>\<^verbatim>\<open>ngx_atomic_cmp_set\<close>: whether it has stored, and what is there.\<close>

definition ngx_atomic_cmp_set :: "u64 \<Rightarrow> u64 \<Rightarrow> u64 \<Rightarrow> bool \<times> u64" where
  "ngx_atomic_cmp_set lock old new = (if lock = old then (True, new) else (False, lock))"

end
