(* ===== verification/Ngx_Http_V2_Frame.thy ===== *)
theory Ngx_Http_V2_Frame
  imports Ngx_Http_V2_Block Ngx_Http_V2_Send Ngx_System
begin

text \<open>
  The frames of an HTTP/2 connection, \<^verbatim>\<open>http/v2/ngx_http_v2.c\<close>: the head of a frame, SETTINGS, PING, GOAWAY,
  WINDOW_UPDATE, RST_STREAM, DATA with its windows, and the frames that are refused.  Of PRIORITY the checks are
  modelled, the tree of priorities is not; a HEADERS frame goes on in the header block.
\<close>

section \<open>The state of a connection\<close>

definition NGX_HTTP_V2_MAX_WINDOW :: nat where
  "NGX_HTTP_V2_MAX_WINDOW = 2 ^ 31 - 1"

definition NGX_HTTP_V2_DEFAULT_WINDOW :: nat where
  "NGX_HTTP_V2_DEFAULT_WINDOW = 65535"

definition NGX_HTTP_V2_DEFAULT_FRAME_SIZE :: nat where
  "NGX_HTTP_V2_DEFAULT_FRAME_SIZE = 2 ^ 14"

definition NGX_HTTP_V2_MAX_FRAME_SIZE :: nat where
  "NGX_HTTP_V2_MAX_FRAME_SIZE = 2 ^ 24 - 1"

definition NGX_HTTP_V2_ACK_FLAG :: u8 where
  "NGX_HTTP_V2_ACK_FLAG = 1"

definition NGX_HTTP_V2_END_STREAM_FLAG :: u8 where
  "NGX_HTTP_V2_END_STREAM_FLAG = 1"

definition NGX_HTTP_V2_PADDED_FLAG :: u8 where
  "NGX_HTTP_V2_PADDED_FLAG = 8"

record h2_stream =
  hs_send_window :: int
  hs_recv_window :: nat
  hs_exhausted :: bool
  hs_in_closed :: bool
  hs_out_closed :: bool
  hs_rst_sent :: bool
  hs_no_flow_control :: bool
  hs_skip_data :: bool

text \<open>The frames that the modelled code puts into the output queue.\<close>

datatype out_frame = Settings_ack | Ping_ack "u8 list" | Window_update_frame nat nat | Rst_stream_frame nat h2_error

text \<open>A DATA frame in the output queue: its stream, its length, and whether its output has begun.\<close>

record data_out =
  do_sid :: nat
  do_length :: nat
  do_blocked :: bool

text \<open>
  The fields of \<^verbatim>\<open>h2c->state\<close> and of \<^verbatim>\<open>h2c\<close>.  \<open>hc_streams\<close> has the streams in the order of \<^verbatim>\<open>streams_index\<close>; a stream is
  named by its id.  \<open>hc_waiting\<close> is the queue of those that wait for the window of the connection; its order, which
  goes by the priorities, is that of arrival here, as is that of the DATA frames in \<open>hc_last_out\<close>, the newest first.
\<close>

record h2c =
  hc_length :: nat
  hc_padding :: nat
  hc_flags :: u8
  hc_sid :: nat
  hc_stream :: "nat option"
  hc_send_window :: nat
  hc_recv_window :: nat
  hc_init_window :: nat
  hc_frame_size :: nat
  hc_push_disabled :: bool
  hc_concurrent_pushes :: nat
  hc_table_update :: bool
  hc_settings_ack :: bool
  hc_priority_limit :: nat
  hc_streams :: "(nat \<times> h2_stream) list"
  hc_waiting :: "nat list"
  hc_out :: "out_frame list"
  hc_last_out :: "data_out list"

text \<open>
  The surroundings: frames for which there is no memory, \<^verbatim>\<open>http2_max_concurrent_pushes\<close>, how much the write handler of a
  stream that is woken wants to send, and whether the request of a stream takes the data of a frame.
\<close>

datatype body_verdict = Body_taken | Body_skipped | Body_refused | Preread_full

record frame_env =
  fe_null :: "out_frame \<Rightarrow> bool"
  fe_pushes :: nat
  fe_wake :: "nat \<Rightarrow> h2c \<Rightarrow> nat list"
  fe_body :: "nat \<Rightarrow> h2c \<Rightarrow> u8 list \<Rightarrow> bool \<Rightarrow> body_verdict"

datatype frame_handler =
    In_head | In_skip | In_data | In_read_data | In_priority | In_rst_stream | In_settings_params | In_ping
  | In_goaway | In_window_update

text \<open>The frame is complete, bytes are kept for a handler, the connection ends, or a HEADERS frame begins.\<close>

datatype frame_next =
    Frame_complete h2c "u8 list"
  | Frame_save frame_handler h2c "u8 list"
  | Frame_error h2_error
  | Headers_frame h2c "u8 list"

definition find_stream :: "h2c \<Rightarrow> nat \<Rightarrow> h2_stream option" where
  "find_stream c sid = map_of (hc_streams c) sid"

definition set_stream :: "nat \<Rightarrow> h2_stream \<Rightarrow> h2c \<Rightarrow> h2c" where
  "set_stream sid st c = c\<lparr>hc_streams := map (\<lambda>(i, s). if i = sid then (i, st) else (i, s)) (hc_streams c)\<rparr>"

definition queue_frame :: "out_frame \<Rightarrow> h2c \<Rightarrow> h2c" where
  "queue_frame f c = c\<lparr>hc_out := hc_out c @ [f]\<rparr>"

section \<open>The ends of a handler\<close>

definition frame_save :: "frame_handler \<Rightarrow> h2c \<Rightarrow> u8 list \<Rightarrow> frame_next" where
  "frame_save h c inp =
     (if length inp > NGX_HTTP_V2_STATE_BUFFER_SIZE then Frame_error Internal_error else Frame_save h c inp)"

text \<open>From a position behind the end the code would not go on; the handlers below never get there.\<close>

definition ngx_http_v2_state_complete :: "h2c \<Rightarrow> u8 list \<Rightarrow> frame_next" where
  "ngx_http_v2_state_complete c inp = Frame_complete (c\<lparr>hc_stream := None\<rparr>) inp"

definition ngx_http_v2_state_skip :: "h2c \<Rightarrow> u8 list \<Rightarrow> frame_next" where
  "ngx_http_v2_state_skip c inp =
     (if length inp < hc_length c then frame_save In_skip (c\<lparr>hc_length := hc_length c - length inp\<rparr>) []
      else ngx_http_v2_state_complete c (drop (hc_length c) inp))"

definition ngx_http_v2_state_skip_padded :: "h2c \<Rightarrow> u8 list \<Rightarrow> frame_next" where
  "ngx_http_v2_state_skip_padded c inp =
     ngx_http_v2_state_skip (c\<lparr>hc_length := hc_length c + hc_padding c, hc_padding := 0\<rparr>) inp"

section \<open>Sending and waking\<close>

text \<open>
  A write handler that wants to send a DATA frame of \<open>n\<close> bytes of its stream; the windows allow what \<open>send_limit\<close> says.
  A handler that sends several frames is several of these steps.
\<close>

definition write_data :: "nat \<Rightarrow> nat \<Rightarrow> h2c \<Rightarrow> h2c" where
  "write_data sid n c =
     (case find_stream c sid of
        None \<Rightarrow> c
      | Some st \<Rightarrow>
          (case ngx_http_v2_flow_control (hc_send_window c) (hs_send_window st) of
             Flow_exhausted \<Rightarrow> set_stream sid (st\<lparr>hs_exhausted := True\<rparr>) c
           | Flow_waiting \<Rightarrow> (if sid \<in> set (hc_waiting c) then c else c\<lparr>hc_waiting := hc_waiting c @ [sid]\<rparr>)
           | Flow_ok \<Rightarrow>
               let n = min (min n (hc_frame_size c)) (send_limit 0 (hc_send_window c) (hs_send_window st)) in
               set_stream sid (st\<lparr>hs_send_window := hs_send_window st - int n\<rparr>)
                 (c\<lparr>hc_send_window := hc_send_window c - n,
                    hc_last_out := \<lparr>do_sid = sid, do_length = n, do_blocked = False\<rparr> # hc_last_out c\<rparr>)))"

definition wake_stream :: "frame_env \<Rightarrow> nat \<Rightarrow> h2c \<Rightarrow> h2c" where
  "wake_stream env sid c = fold (write_data sid) (fe_wake env sid c) c"

text \<open>\<^verbatim>\<open>ngx_http_v2_terminate_stream\<close>: whether there was memory.  What the request then does is another event.\<close>

definition ngx_http_v2_terminate_stream :: "frame_env \<Rightarrow> nat \<Rightarrow> h2_stream \<Rightarrow> h2_error \<Rightarrow> h2c \<Rightarrow> bool \<times> h2c" where
  "ngx_http_v2_terminate_stream env sid st status c =
     (if hs_rst_sent st then (True, c)
      else if fe_null env (Rst_stream_frame sid status) then (False, c)
      else (True, set_stream sid (st\<lparr>hs_rst_sent := True, hs_skip_data := True\<rparr>) (queue_frame (Rst_stream_frame sid status) c)))"

definition ngx_http_v2_send_window_update :: "frame_env \<Rightarrow> nat \<Rightarrow> nat \<Rightarrow> h2c \<Rightarrow> bool \<times> h2c" where
  "ngx_http_v2_send_window_update env sid n c =
     (if fe_null env (Window_update_frame sid n) then (False, c) else (True, queue_frame (Window_update_frame sid n) c))"

section \<open>SETTINGS\<close>

text \<open>\<^verbatim>\<open>window_delta\<close> for all streams in their order; \<open>False\<close> when there was no memory.\<close>

definition adjust_stream :: "frame_env \<Rightarrow> int \<Rightarrow> nat \<Rightarrow> h2c \<Rightarrow> bool \<times> h2c" where
  "adjust_stream env delta sid c =
     (case find_stream c sid of
        None \<Rightarrow> (True, c)
      | Some st \<Rightarrow>
          if delta > 0 \<and> hs_send_window st > int NGX_HTTP_V2_MAX_WINDOW - delta
          then ngx_http_v2_terminate_stream env sid st Flow_ctrl_error c
          else
            let w = hs_send_window st + delta;
                woken = (w > 0 \<and> hs_exhausted st);
                c = set_stream sid (st\<lparr>hs_send_window := w, hs_exhausted := (hs_exhausted st \<and> \<not> woken)\<rparr>) c in
            (True, if woken then wake_stream env sid c else c))"

fun adjust_streams :: "frame_env \<Rightarrow> int \<Rightarrow> nat list \<Rightarrow> h2c \<Rightarrow> bool \<times> h2c" where
  "adjust_streams env delta [] c = (True, c)"
| "adjust_streams env delta (sid # sids) c =
     (case adjust_stream env delta sid c of (ok, c) \<Rightarrow> if ok then adjust_streams env delta sids c else (False, c))"

definition ngx_http_v2_adjust_windows :: "frame_env \<Rightarrow> int \<Rightarrow> h2c \<Rightarrow> bool \<times> h2c" where
  "ngx_http_v2_adjust_windows env delta c = adjust_streams env delta (map fst (hc_streams c)) c"

text \<open>One parameter: the state and the new \<^verbatim>\<open>window_delta\<close>.\<close>

definition NGX_HTTP_V2_INIT_WINDOW_SIZE_SETTING :: nat where
  "NGX_HTTP_V2_INIT_WINDOW_SIZE_SETTING = 4"

definition settings_param :: "frame_env \<Rightarrow> nat \<Rightarrow> nat \<Rightarrow> h2c \<Rightarrow> int \<Rightarrow> h2_error + (h2c \<times> int)" where
  "settings_param env key v c delta =
     (if key = NGX_HTTP_V2_INIT_WINDOW_SIZE_SETTING then
        if v > NGX_HTTP_V2_MAX_WINDOW then Inl Flow_ctrl_error else Inr (c, int v - int (hc_init_window c))
      else if key = 5 then
        if v > NGX_HTTP_V2_MAX_FRAME_SIZE \<or> v < NGX_HTTP_V2_DEFAULT_FRAME_SIZE then Inl Protocol_error
        else Inr (c\<lparr>hc_frame_size := v\<rparr>, delta)
      else if key = 2 then
        if v > 1 then Inl Protocol_error else Inr (c\<lparr>hc_push_disabled := (v = 0)\<rparr>, delta)
      else if key = 3 then Inr (c\<lparr>hc_concurrent_pushes := min v (fe_pushes env)\<rparr>, delta)
      else if key = 1 then Inr (c\<lparr>hc_table_update := True\<rparr>, delta)
      else Inr (c, delta))"

definition NGX_HTTP_V2_SETTINGS_PARAM_SIZE :: nat where
  "NGX_HTTP_V2_SETTINGS_PARAM_SIZE = 6"

text \<open>\<^verbatim>\<open>while (h2c->state.length)\<close>; the length is a multiple of six.  The loop ends in a result of the handler, or is over.\<close>

function settings_loop :: "frame_env \<Rightarrow> int \<Rightarrow> h2c \<Rightarrow> u8 list \<Rightarrow> frame_next + (int \<times> h2c \<times> u8 list)" where
  "settings_loop env delta c inp =
     (if hc_length c = 0 then Inr (delta, c, inp)
      else if length inp < NGX_HTTP_V2_SETTINGS_PARAM_SIZE then Inl (frame_save In_settings_params c inp)
      else
        let c = c\<lparr>hc_length := hc_length c - NGX_HTTP_V2_SETTINGS_PARAM_SIZE\<rparr> in
        case settings_param env (big_endian (take 2 inp)) (big_endian (take 4 (drop 2 inp))) c delta of
          Inl e \<Rightarrow> Inl (Frame_error e)
        | Inr (c, delta) \<Rightarrow> settings_loop env delta c (drop NGX_HTTP_V2_SETTINGS_PARAM_SIZE inp))"
  by pat_completeness auto
termination
  by (relation "measure (\<lambda>(env, delta, c, inp). length inp)") (auto simp: NGX_HTTP_V2_SETTINGS_PARAM_SIZE_def)

declare settings_loop.simps [simp del]

definition ngx_http_v2_state_settings_params :: "frame_env \<Rightarrow> h2c \<Rightarrow> u8 list \<Rightarrow> frame_next" where
  "ngx_http_v2_state_settings_params env c inp =
     (case settings_loop env 0 c inp of
        Inl result \<Rightarrow> result
      | Inr (delta, c, inp) \<Rightarrow>
          if fe_null env Settings_ack then Frame_error Internal_error
          else
            let c = queue_frame Settings_ack c in
            if delta \<noteq> 0 then
              (case ngx_http_v2_adjust_windows env delta (c\<lparr>hc_init_window := nat (int (hc_init_window c) + delta)\<rparr>) of
                 (ok, c) \<Rightarrow> if ok then ngx_http_v2_state_complete c inp else Frame_error Internal_error)
            else ngx_http_v2_state_complete c inp)"

definition ngx_http_v2_state_settings :: "frame_env \<Rightarrow> h2c \<Rightarrow> u8 list \<Rightarrow> frame_next" where
  "ngx_http_v2_state_settings env c inp =
     (if hc_sid c \<noteq> 0 then Frame_error Protocol_error
      else if hc_flags c = NGX_HTTP_V2_ACK_FLAG then
        if hc_length c \<noteq> 0 then Frame_error Size_error
        else ngx_http_v2_state_complete (c\<lparr>hc_settings_ack := True\<rparr>) inp
      else if hc_length c mod NGX_HTTP_V2_SETTINGS_PARAM_SIZE \<noteq> 0 then Frame_error Size_error
      else ngx_http_v2_state_settings_params env c inp)"

section \<open>WINDOW_UPDATE\<close>

lemma map_of_set:
  "map_of (map (\<lambda>(i, s). if i = sid then (i, st) else (i, s)) xs) i
    = (if i = sid then map_option (\<lambda>_. st) (map_of xs i) else map_of xs i)"
  by (induction xs) auto

lemma find_set_stream [simp]: "find_stream (set_stream sid st c) i
    = (if i = sid then map_option (\<lambda>_. st) (find_stream c i) else find_stream c i)"
  by (simp add: find_stream_def set_stream_def map_of_set)

lemma write_data_waiting:
  "hc_waiting (write_data sid n c) = hc_waiting c \<or> hc_send_window (write_data sid n c) = 0"
  by (auto simp: write_data_def set_stream_def Let_def ngx_http_v2_flow_control_def split: option.splits flow.splits if_splits)

lemma write_data_window: "hc_send_window (write_data sid n c) \<le> hc_send_window c"
  by (auto simp: write_data_def set_stream_def Let_def split: option.splits flow.splits)

lemma write_data_zero: "hc_send_window c = 0 \<Longrightarrow> hc_send_window (write_data sid n c) = 0"
  using write_data_window [of sid n c] by simp

lemma wake_waiting: "hc_waiting (wake_stream env sid c) = hc_waiting c \<or> hc_send_window (wake_stream env sid c) = 0"
proof -
  have zero: "hc_send_window d = 0 \<Longrightarrow> hc_send_window (fold (write_data sid) ns d) = 0" for ns d
    by (induction ns arbitrary: d) (simp_all add: write_data_zero)
  have "hc_waiting (fold (write_data sid) ns c) = hc_waiting c \<or> hc_send_window (fold (write_data sid) ns c) = 0" for ns
  proof (induction ns arbitrary: c)
    case (Cons n ns)
    then show ?case using Cons.IH [of "write_data sid n c"] write_data_waiting [of sid n c] zero by (metis fold_simps(2))
  qed simp
  then show ?thesis by (simp add: wake_stream_def)
qed

text \<open>The streams that wait are woken until the window is used up.\<close>

function wake_waiting_streams :: "frame_env \<Rightarrow> h2c \<Rightarrow> h2c" where
  "wake_waiting_streams env c =
     (case hc_waiting c of
        [] \<Rightarrow> c
      | sid # sids \<Rightarrow>
          let c = wake_stream env sid (c\<lparr>hc_waiting := sids\<rparr>) in
          if hc_send_window c = 0 then c else wake_waiting_streams env c)"
  by pat_completeness auto
termination
proof (relation "measure (\<lambda>(env, c). length (hc_waiting c))")
  fix env :: frame_env and c :: h2c and sid sids x
  assume "hc_waiting c = sid # sids" "x = wake_stream env sid (c\<lparr>hc_waiting := sids\<rparr>)" "hc_send_window x \<noteq> 0"
  then show "((env, x), (env, c)) \<in> measure (\<lambda>(env, c). length (hc_waiting c))"
    using wake_waiting [of env sid "c\<lparr>hc_waiting := sids\<rparr>"] by auto
qed simp

declare wake_waiting_streams.simps [simp del]

definition NGX_HTTP_V2_WINDOW_UPDATE_SIZE :: nat where
  "NGX_HTTP_V2_WINDOW_UPDATE_SIZE = 4"

text \<open>The difference from the greatest window is compared as a \<^verbatim>\<open>size_t\<close>.\<close>

definition ngx_http_v2_state_window_update :: "frame_env \<Rightarrow> h2c \<Rightarrow> u8 list \<Rightarrow> frame_next" where
  "ngx_http_v2_state_window_update env c inp =
     (if hc_length c \<noteq> NGX_HTTP_V2_WINDOW_UPDATE_SIZE then Frame_error Size_error
      else if length inp < NGX_HTTP_V2_WINDOW_UPDATE_SIZE then frame_save In_window_update c inp
      else
        let window = big_endian (take 4 inp) mod 2 ^ 31;
            inp = drop NGX_HTTP_V2_WINDOW_UPDATE_SIZE inp in
        if window = 0 then Frame_error Protocol_error
        else if hc_sid c \<noteq> 0 then
          (case find_stream c (hc_sid c) of
             None \<Rightarrow> ngx_http_v2_state_complete c inp
           | Some st \<Rightarrow>
               if int window > (int NGX_HTTP_V2_MAX_WINDOW - hs_send_window st) mod 2 ^ 64 then
                 (case ngx_http_v2_terminate_stream env (hc_sid c) st Flow_ctrl_error c of
                    (ok, c) \<Rightarrow> if ok then ngx_http_v2_state_complete c inp else Frame_error Internal_error)
               else
                 let c' = set_stream (hc_sid c) (st\<lparr>hs_send_window := hs_send_window st + int window, hs_exhausted := False\<rparr>) c in
                 ngx_http_v2_state_complete (if hs_exhausted st then wake_stream env (hc_sid c) c' else c') inp)
        else if int window > (int NGX_HTTP_V2_MAX_WINDOW - int (hc_send_window c)) mod 2 ^ 64 then Frame_error Flow_ctrl_error
        else
          ngx_http_v2_state_complete (wake_waiting_streams env (c\<lparr>hc_send_window := hc_send_window c + window\<rparr>)) inp)"

section \<open>DATA\<close>

definition ngx_http_v2_state_read_data :: "frame_env \<Rightarrow> h2c \<Rightarrow> u8 list \<Rightarrow> frame_next" where
  "ngx_http_v2_state_read_data env c inp =
     (case hc_stream c of
        None \<Rightarrow> ngx_http_v2_state_skip_padded c inp
      | Some sid \<Rightarrow>
          (case find_stream c sid of
             None \<Rightarrow> ngx_http_v2_state_skip_padded c inp
           | Some st \<Rightarrow>
               let n = min (length inp) (hc_length c);
                   in_closed = (if length inp \<ge> hc_length c then hc_flags c AND NGX_HTTP_V2_END_STREAM_FLAG \<noteq> 0
                                else hs_in_closed st);
                   verdict = fe_body env sid c (take n inp) in_closed in
               if hs_skip_data st \<or> verdict = Body_skipped then ngx_http_v2_state_skip_padded c inp
               else if verdict = Preread_full then Frame_error Internal_error
               else
                 let c = set_stream sid (st\<lparr>hs_in_closed := in_closed, hs_skip_data := (verdict = Body_refused)\<rparr>)
                       (c\<lparr>hc_length := hc_length c - n\<rparr>);
                     inp = drop n inp in
                 if hc_length c \<noteq> 0 then frame_save In_read_data c inp
                 else if hc_padding c \<noteq> 0 then ngx_http_v2_state_skip_padded c inp
                 else ngx_http_v2_state_complete c inp))"

text \<open>The length of the data and of the padding; \<open>None\<close> when a byte is missing.\<close>

definition data_padding :: "h2c \<Rightarrow> u8 list \<Rightarrow> (h2_error + (h2c \<times> u8 list)) option" where
  "data_padding c inp =
     (if hc_flags c AND NGX_HTTP_V2_PADDED_FLAG = 0 then Some (Inr (c, inp))
      else if hc_length c = 0 then Some (Inl Size_error)
      else if inp = [] then None
      else
        let padding = unat (hd inp) in
        if padding \<ge> hc_length c then Some (Inl Protocol_error)
        else Some (Inr (c\<lparr>hc_padding := padding, hc_length := hc_length c - (1 + padding)\<rparr>, tl inp)))"

text \<open>The window of the connection, which is opened again when it is below a quarter; then that of the stream.\<close>

definition data_connection_window :: "frame_env \<Rightarrow> nat \<Rightarrow> h2c \<Rightarrow> h2_error + h2c" where
  "data_connection_window env size1 c =
     (if size1 > hc_recv_window c then Inl Flow_ctrl_error
      else
        let c = c\<lparr>hc_recv_window := hc_recv_window c - size1\<rparr> in
        if hc_recv_window c < NGX_HTTP_V2_MAX_WINDOW div 4 then
          (case ngx_http_v2_send_window_update env 0 (NGX_HTTP_V2_MAX_WINDOW - hc_recv_window c) c of
             (ok, c) \<Rightarrow> if ok then Inr (c\<lparr>hc_recv_window := NGX_HTTP_V2_MAX_WINDOW\<rparr>) else Inl Internal_error)
        else Inr c)"

definition data_stream_window :: "frame_env \<Rightarrow> nat \<Rightarrow> nat \<Rightarrow> h2_stream \<Rightarrow> h2c \<Rightarrow> u8 list \<Rightarrow> frame_next" where
  "data_stream_window env size1 sid st c inp =
     (if size1 > hs_recv_window st then
        (case ngx_http_v2_terminate_stream env sid st Flow_ctrl_error c of
           (ok, c) \<Rightarrow> if ok then ngx_http_v2_state_skip_padded c inp else Frame_error Internal_error)
      else
        let st = st\<lparr>hs_recv_window := hs_recv_window st - size1\<rparr> in
        case (if hs_no_flow_control st \<and> hs_recv_window st < NGX_HTTP_V2_MAX_WINDOW div 4 then
                (case ngx_http_v2_send_window_update env sid (NGX_HTTP_V2_MAX_WINDOW - hs_recv_window st) c of
                   (ok, c) \<Rightarrow> (ok, c, st\<lparr>hs_recv_window := NGX_HTTP_V2_MAX_WINDOW\<rparr>))
              else (True, c, st)) of
          (ok, c, st) \<Rightarrow>
            if \<not> ok then Frame_error Internal_error
            else
              let c = set_stream sid st c in
              if hs_in_closed st then
                (case ngx_http_v2_terminate_stream env sid st Stream_closed c of
                   (ok, c) \<Rightarrow> if ok then ngx_http_v2_state_skip_padded c inp else Frame_error Internal_error)
              else ngx_http_v2_state_read_data env (c\<lparr>hc_stream := Some sid\<rparr>) inp)"

definition ngx_http_v2_state_data :: "frame_env \<Rightarrow> h2c \<Rightarrow> u8 list \<Rightarrow> frame_next" where
  "ngx_http_v2_state_data env c inp =
     (case data_padding c inp of
        None \<Rightarrow> frame_save In_data c inp
      | Some (Inl e) \<Rightarrow> Frame_error e
      | Some (Inr (d, inp)) \<Rightarrow>
          if hc_sid c = 0 then Frame_error Protocol_error
          else
            (case data_connection_window env (hc_length c) d of
               Inl e \<Rightarrow> Frame_error e
             | Inr d \<Rightarrow>
                 (case find_stream d (hc_sid d) of
                    None \<Rightarrow> ngx_http_v2_state_skip_padded d inp
                  | Some st \<Rightarrow> data_stream_window env (hc_length c) (hc_sid d) st d inp)))"

section \<open>The other frames\<close>

definition ngx_http_v2_state_ping :: "frame_env \<Rightarrow> h2c \<Rightarrow> u8 list \<Rightarrow> frame_next" where
  "ngx_http_v2_state_ping env c inp =
     (if hc_length c \<noteq> 8 then Frame_error Size_error
      else if length inp < 8 then frame_save In_ping c inp
      else if hc_sid c \<noteq> 0 then Frame_error Protocol_error
      else if hc_flags c AND NGX_HTTP_V2_ACK_FLAG \<noteq> 0 then ngx_http_v2_state_skip c inp
      else if fe_null env (Ping_ack (take 8 inp)) then Frame_error Internal_error
      else ngx_http_v2_state_complete (queue_frame (Ping_ack (take 8 inp)) c) (drop 8 inp))"

definition ngx_http_v2_state_goaway :: "h2c \<Rightarrow> u8 list \<Rightarrow> frame_next" where
  "ngx_http_v2_state_goaway c inp =
     (if hc_length c < 8 then Frame_error Size_error
      else if length inp < 8 then frame_save In_goaway c inp
      else if hc_sid c \<noteq> 0 then Frame_error Protocol_error
      else ngx_http_v2_state_skip c inp)"

text \<open>After the checks the tree of priorities is changed, which is not modelled.\<close>

definition ngx_http_v2_state_priority :: "h2c \<Rightarrow> u8 list \<Rightarrow> frame_next" where
  "ngx_http_v2_state_priority c inp =
     (if hc_length c \<noteq> 5 then Frame_error Size_error
      else
        let c = c\<lparr>hc_priority_limit := hc_priority_limit c - 1\<rparr> in
        if hc_priority_limit c = 0 then Frame_error Enhance_your_calm
        else if length inp < 5 then frame_save In_priority c inp
        else if hc_sid c = 0 then Frame_error Protocol_error
        else if big_endian (take 4 inp) mod 2 ^ 31 = hc_sid c then Frame_error Protocol_error
        else ngx_http_v2_state_complete c (drop 5 inp))"

definition ngx_http_v2_state_rst_stream :: "h2c \<Rightarrow> u8 list \<Rightarrow> frame_next" where
  "ngx_http_v2_state_rst_stream c inp =
     (if hc_length c \<noteq> 4 then Frame_error Size_error
      else if length inp < 4 then frame_save In_rst_stream c inp
      else if hc_sid c = 0 then Frame_error Protocol_error
      else
        ngx_http_v2_state_complete
          (case find_stream c (hc_sid c) of
             None \<Rightarrow> c
           | Some st \<Rightarrow> set_stream (hc_sid c) (st\<lparr>hs_in_closed := True, hs_out_closed := True\<rparr>) c)
          (drop 4 inp))"

text \<open>PUSH_PROMISE and CONTINUATION are always refused.\<close>

definition ngx_http_v2_state_head :: "frame_env \<Rightarrow> h2c \<Rightarrow> u8 list \<Rightarrow> frame_next" where
  "ngx_http_v2_state_head env c inp =
     (if length inp < NGX_HTTP_V2_FRAME_HEADER_SIZE then frame_save In_head c inp
      else
        let c = c\<lparr>hc_length := big_endian (take 3 inp), hc_flags := inp ! 4,
                  hc_sid := big_endian (take 4 (drop 5 inp)) mod 2 ^ 31\<rparr>;
            key = inp ! 3;
            inp = drop NGX_HTTP_V2_FRAME_HEADER_SIZE inp in
        if key = 0 then ngx_http_v2_state_data env c inp
        else if key = 1 then Headers_frame c inp
        else if key = 2 then ngx_http_v2_state_priority c inp
        else if key = 3 then ngx_http_v2_state_rst_stream c inp
        else if key = 4 then ngx_http_v2_state_settings env c inp
        else if key = 5 then Frame_error Protocol_error
        else if key = 6 then ngx_http_v2_state_ping env c inp
        else if key = 7 then ngx_http_v2_state_goaway c inp
        else if key = 8 then ngx_http_v2_state_window_update env c inp
        else if key = 9 then Frame_error Protocol_error
        else ngx_http_v2_state_skip c inp)"

fun frame_step :: "frame_env \<Rightarrow> frame_handler \<Rightarrow> h2c \<Rightarrow> u8 list \<Rightarrow> frame_next" where
  "frame_step env In_head = ngx_http_v2_state_head env"
| "frame_step env In_skip = ngx_http_v2_state_skip"
| "frame_step env In_data = ngx_http_v2_state_data env"
| "frame_step env In_read_data = ngx_http_v2_state_read_data env"
| "frame_step env In_priority = ngx_http_v2_state_priority"
| "frame_step env In_rst_stream = ngx_http_v2_state_rst_stream"
| "frame_step env In_settings_params = ngx_http_v2_state_settings_params env"
| "frame_step env In_ping = ngx_http_v2_state_ping env"
| "frame_step env In_goaway = ngx_http_v2_state_goaway"
| "frame_step env In_window_update = ngx_http_v2_state_window_update env"

section \<open>The windows\<close>

definition stream_ok :: "nat \<Rightarrow> h2_stream \<Rightarrow> bool" where
  "stream_ok init st \<longleftrightarrow> int init - int NGX_HTTP_V2_MAX_WINDOW \<le> hs_send_window st
     \<and> hs_send_window st \<le> int NGX_HTTP_V2_MAX_WINDOW \<and> hs_recv_window st \<le> NGX_HTTP_V2_MAX_WINDOW"

text \<open>While the windows are adjusted, some streams already have the new initial window.\<close>

definition streams_ok :: "(nat \<Rightarrow> nat) \<Rightarrow> h2c \<Rightarrow> bool" where
  "streams_ok init c \<longleftrightarrow> distinct (map fst (hc_streams c)) \<and> (\<forall>(sid, st) \<in> set (hc_streams c). stream_ok (init sid) st)"

text \<open>
  What is known of the window of the connection for sending: that it is at most the greatest window, or a bound on what
  the client has allowed in all, the bytes of frames whose output has not begun among it; or nothing.
\<close>

datatype send_bound = Checked | Credit nat | Unknown

definition unsent_bytes :: "data_out list \<Rightarrow> nat" where
  "unsent_bytes fs = sum_list (map do_length (filter (\<lambda>f. \<not> do_blocked f) fs))"

lemma unsent_bytes_simps [simp]:
  "unsent_bytes [] = 0" "unsent_bytes (f # fs) = (if do_blocked f then 0 else do_length f) + unsent_bytes fs"
  "unsent_bytes (fs @ fs') = unsent_bytes fs + unsent_bytes fs'"
  by (simp_all add: unsent_bytes_def)

definition unsent :: "h2c \<Rightarrow> nat" where
  "unsent c = unsent_bytes (hc_last_out c)"

definition credit :: "h2c \<Rightarrow> nat" where
  "credit c = hc_send_window c + unsent c"

fun send_ok :: "send_bound \<Rightarrow> h2c \<Rightarrow> bool" where
  "send_ok Checked c = (hc_send_window c \<le> NGX_HTTP_V2_MAX_WINDOW)"
| "send_ok (Credit k) c = (credit c \<le> k)"
| "send_ok Unknown c = True"

text \<open>The bound after the client has given \<open>n\<close> more bytes.\<close>

fun given_more :: "send_bound \<Rightarrow> nat \<Rightarrow> send_bound" where
  "given_more (Credit k) n = Credit (k + n)"
| "given_more b n = b"

lemma given_more_zero [simp]: "given_more b 0 = b"
  by (cases b) simp_all

lemma send_ok_same:
  "hc_send_window c = hc_send_window d \<Longrightarrow> hc_last_out c = hc_last_out d \<Longrightarrow> send_ok b c = send_ok b d"
  by (cases b) (simp_all add: credit_def unsent_def)

lemma send_ok_simps [simp]:
  "send_ok b (c\<lparr>hc_init_window := i\<rparr>) = send_ok b c" "send_ok b (c\<lparr>hc_recv_window := i\<rparr>) = send_ok b c"
  "send_ok b (c\<lparr>hc_out := out\<rparr>) = send_ok b c" "send_ok b (c\<lparr>hc_waiting := sids\<rparr>) = send_ok b c"
  "send_ok b (c\<lparr>hc_streams := sts\<rparr>) = send_ok b c" "send_ok b (c\<lparr>hc_priority_limit := i\<rparr>) = send_ok b c"
  "send_ok b (set_stream sid st c) = send_ok b c" "send_ok b (queue_frame f c) = send_ok b c"
  by (rule send_ok_same; simp add: set_stream_def queue_frame_def)+

text \<open>A frame moves bytes of the window into the queue.\<close>

lemma send_ok_frame:
  "send_ok b c \<Longrightarrow> k \<le> hc_send_window c \<Longrightarrow>
    send_ok b (c\<lparr>hc_send_window := hc_send_window c - k, hc_last_out := \<lparr>do_sid = sid, do_length = k, do_blocked = False\<rparr> # hc_last_out c\<rparr>)"
  by (cases b) (simp_all add: credit_def unsent_def)

lemma send_ok_raised:
  "send_ok b c \<Longrightarrow> hc_send_window c + w \<le> NGX_HTTP_V2_MAX_WINDOW \<or> b \<noteq> Checked \<Longrightarrow>
    send_ok (given_more b w) (c\<lparr>hc_send_window := hc_send_window c + w\<rparr>)"
  by (cases b) (simp_all add: credit_def unsent_def)

definition conn_ok :: "send_bound \<Rightarrow> h2c \<Rightarrow> bool" where
  "conn_ok b c \<longleftrightarrow> send_ok b c \<and> hc_recv_window c \<le> NGX_HTTP_V2_MAX_WINDOW
     \<and> hc_init_window c \<le> NGX_HTTP_V2_MAX_WINDOW"

definition windows_ok :: "send_bound \<Rightarrow> h2c \<Rightarrow> bool" where
  "windows_ok b c \<longleftrightarrow> conn_ok b c \<and> streams_ok (\<lambda>_. hc_init_window c) c"

lemma find_ok: "streams_ok init c \<Longrightarrow> find_stream c sid = Some st \<Longrightarrow> stream_ok (init sid) st"
  by (auto simp: streams_ok_def find_stream_def dest: map_of_SomeD)

lemma set_simps [simp]:
  "conn_ok b (set_stream sid st c) = conn_ok b c" "hc_init_window (set_stream sid st c) = hc_init_window c"
  "hc_send_window (set_stream sid st c) = hc_send_window c" "hc_recv_window (set_stream sid st c) = hc_recv_window c"
  "map fst (hc_streams (set_stream sid st c)) = map fst (hc_streams c)"
  "hc_sid (set_stream sid st c) = hc_sid c" "hc_length (set_stream sid st c) = hc_length c"
  by (auto simp: conn_ok_def set_stream_def split: prod.splits)

lemma set_ok:
  assumes "streams_ok init c" "stream_ok i st"
  shows "streams_ok (init(sid := i)) (set_stream sid st c)"
proof -
  have "distinct (map fst (hc_streams (set_stream sid st c)))" using assms(1) by (simp add: streams_ok_def)
  then show ?thesis using assms by (auto simp: streams_ok_def set_stream_def split: prod.splits)
qed

lemma set_ok_same: "streams_ok init c \<Longrightarrow> stream_ok (init sid) st \<Longrightarrow> streams_ok init (set_stream sid st c)"
  using set_ok [of init c "init sid" st sid] by simp

lemma refind_ok:
  "streams_ok init c \<Longrightarrow> find_stream c sid = Some st \<Longrightarrow> stream_ok i st \<Longrightarrow> streams_ok (init(sid := i)) c"
  by (auto simp: streams_ok_def find_stream_def dest: eq_key_imp_eq_value)

lemma streams_ok_cong: "hc_streams c = hc_streams d \<Longrightarrow> streams_ok init c = streams_ok init d"
  by (simp add: streams_ok_def)

lemma write_data_ok:
  assumes "conn_ok b c" "streams_ok init c" "\<forall>i. init i \<le> NGX_HTTP_V2_MAX_WINDOW"
  shows "conn_ok b (write_data sid n c) \<and> streams_ok init (write_data sid n c)
    \<and> hc_init_window (write_data sid n c) = hc_init_window c
    \<and> map fst (hc_streams (write_data sid n c)) = map fst (hc_streams c)"
proof (cases "find_stream c sid")
  case None
  then show ?thesis using assms by (simp add: write_data_def)
next
  case (Some st)
  have st: "stream_ok (init sid) st" by (rule find_ok [OF assms(2) Some])
  have init: "int (init sid) \<le> int NGX_HTTP_V2_MAX_WINDOW" using assms(3) by simp
  show ?thesis
  proof (cases "ngx_http_v2_flow_control (hc_send_window c) (hs_send_window st)")
    case Flow_ok
    define k where "k = min (min n (hc_frame_size c)) (send_limit 0 (hc_send_window c) (hs_send_window st))"
    let ?c = "c\<lparr>hc_send_window := hc_send_window c - k,
      hc_last_out := \<lparr>do_sid = sid, do_length = k, do_blocked = False\<rparr> # hc_last_out c\<rparr>"
    have "0 < hs_send_window st" using Flow_ok by (simp add: ngx_http_v2_flow_control_def split: if_splits)
    then have "int k \<le> hs_send_window st"
      using send_limit_bounds(2) [of 0 "hc_send_window c" "hs_send_window st"] by (simp add: k_def)
    then have "stream_ok (init sid) (st\<lparr>hs_send_window := hs_send_window st - int k\<rparr>)"
      using st init by (simp add: stream_ok_def)
    moreover have "k \<le> hc_send_window c"
      using send_limit_bounds(1) [of 0 "hc_send_window c" "hs_send_window st"] by (simp add: k_def)
    then have "conn_ok b ?c" using assms(1) send_ok_frame [of b c k sid] by (simp add: conn_ok_def)
    moreover have "streams_ok init ?c" using assms(2) by (simp add: streams_ok_def)
    ultimately show ?thesis using Some Flow_ok
      by (simp add: write_data_def k_def [symmetric] set_ok_same)
  next
    case Flow_exhausted
    then show ?thesis using Some assms st by (simp add: write_data_def set_ok_same stream_ok_def)
  next
    case Flow_waiting
    then show ?thesis using Some assms by (simp add: write_data_def conn_ok_def streams_ok_def)
  qed
qed

lemma wake_ok:
  assumes "conn_ok b c" "streams_ok init c" "\<forall>i. init i \<le> NGX_HTTP_V2_MAX_WINDOW"
  shows "conn_ok b (wake_stream env sid c) \<and> streams_ok init (wake_stream env sid c)
    \<and> hc_init_window (wake_stream env sid c) = hc_init_window c
    \<and> map fst (hc_streams (wake_stream env sid c)) = map fst (hc_streams c)"
proof -
  have "conn_ok b (fold (write_data sid) ns c) \<and> streams_ok init (fold (write_data sid) ns c)
    \<and> hc_init_window (fold (write_data sid) ns c) = hc_init_window c
    \<and> map fst (hc_streams (fold (write_data sid) ns c)) = map fst (hc_streams c)" for ns
    using assms
  proof (induction ns arbitrary: c)
    case (Cons n ns)
    then show ?case using Cons.IH [of "write_data sid n c"] write_data_ok [OF Cons.prems, of sid n] by simp
  qed simp
  then show ?thesis by (simp add: wake_stream_def)
qed

lemma terminate_ok:
  assumes "ngx_http_v2_terminate_stream env sid st status c = (ok, c')" "conn_ok b c" "streams_ok init c" "stream_ok (init sid) st"
  shows "conn_ok b c' \<and> streams_ok init c' \<and> hc_init_window c' = hc_init_window c
    \<and> map fst (hc_streams c') = map fst (hc_streams c)"
proof -
  have "streams_ok init (queue_frame f c)" for f using assms(3) by (simp add: streams_ok_def queue_frame_def)
  then show ?thesis using assms
    by (auto simp: ngx_http_v2_terminate_stream_def queue_frame_def conn_ok_def stream_ok_def
        intro!: set_ok_same split: if_splits)
qed

text \<open>The adjustment.\<close>

lemma adjust_stream_ok:
  assumes "adjust_stream env delta sid c = (True, c')" "conn_ok b c" "streams_ok init c"
    and "init sid = old" "int new = int old + delta" "new \<le> NGX_HTTP_V2_MAX_WINDOW" "old \<le> NGX_HTTP_V2_MAX_WINDOW"
    and "\<forall>i. init i \<le> NGX_HTTP_V2_MAX_WINDOW"
  shows "conn_ok b c' \<and> streams_ok (init(sid := new)) c' \<and> hc_init_window c' = hc_init_window c
    \<and> map fst (hc_streams c') = map fst (hc_streams c)"
proof (cases "find_stream c sid")
  case None
  then have "sid \<notin> fst ` set (hc_streams c)" by (simp add: find_stream_def map_of_eq_None_iff)
  then have "streams_ok (init(sid := new)) c" using assms(3) by (force simp: streams_ok_def)
  then show ?thesis using None assms(1,2) by (simp add: adjust_stream_def)
next
  case (Some st)
  have st: "stream_ok old st" using find_ok [OF assms(3) Some] assms(4) by simp
  have init': "\<forall>i. (init(sid := new)) i \<le> NGX_HTTP_V2_MAX_WINDOW" using assms(6,8) by simp
  show ?thesis
  proof (cases "delta > 0 \<and> hs_send_window st > int NGX_HTTP_V2_MAX_WINDOW - delta")
    case True
    have "stream_ok new st" using st True assms(5,6) by (auto simp: stream_ok_def)
    have ok: "streams_ok (init(sid := new)) c" by (rule refind_ok [OF assms(3) Some \<open>stream_ok new st\<close>])
    have "ngx_http_v2_terminate_stream env sid st Flow_ctrl_error c = (True, c')"
      using assms(1) Some True by (simp add: adjust_stream_def)
    then show ?thesis using terminate_ok [OF _ assms(2) ok] \<open>stream_ok new st\<close> by simp
  next
    case False
    let ?w = "hs_send_window st + delta"
    let ?st = "st\<lparr>hs_send_window := ?w, hs_exhausted := (hs_exhausted st \<and> \<not> (?w > 0 \<and> hs_exhausted st))\<rparr>"
    define d where "d = set_stream sid ?st c"
    have "stream_ok new ?st" using st False assms(5) by (auto simp: stream_ok_def)
    then have ok: "conn_ok b d" "streams_ok (init(sid := new)) d" using set_ok [OF assms(3)] assms(2) by (simp_all add: d_def)
    have "c' = d \<or> c' = wake_stream env sid d"
      using assms(1) Some False by (auto simp: adjust_stream_def Let_def d_def)
    moreover have "hc_init_window d = hc_init_window c" "map fst (hc_streams d) = map fst (hc_streams c)"
      by (simp_all add: d_def)
    ultimately show ?thesis using ok wake_ok [OF ok init', of env sid] by metis
  qed
qed

lemma adjust_streams_ok:
  "adjust_streams env delta sids c = (True, c') \<Longrightarrow> conn_ok b c \<Longrightarrow> streams_ok (\<lambda>i. if i \<in> set sids then old else new) c \<Longrightarrow>
    distinct sids \<Longrightarrow> int new = int old + delta \<Longrightarrow> new \<le> NGX_HTTP_V2_MAX_WINDOW \<Longrightarrow> old \<le> NGX_HTTP_V2_MAX_WINDOW \<Longrightarrow>
    conn_ok b c' \<and> streams_ok (\<lambda>_. new) c' \<and> hc_init_window c' = hc_init_window c"
proof (induction sids arbitrary: c)
  case (Cons sid sids)
  obtain c1 where c1: "adjust_stream env delta sid c = (True, c1)" "adjust_streams env delta sids c1 = (True, c')"
    using Cons.prems(1) by (auto split: prod.splits if_splits)
  let ?init = "\<lambda>i. if i \<in> set (sid # sids) then old else new"
  have "conn_ok b c1 \<and> streams_ok (?init(sid := new)) c1 \<and> hc_init_window c1 = hc_init_window c"
    using adjust_stream_ok [OF c1(1) Cons.prems(2,3) _ Cons.prems(5,6,7)] Cons.prems(6,7) by simp
  moreover have "?init(sid := new) = (\<lambda>i. if i \<in> set sids then old else new)" using Cons.prems(4) by auto
  ultimately show ?case using Cons.IH [OF c1(2)] Cons.prems(4-7) by simp
qed simp

lemma adjust_windows_ok:
  assumes "ngx_http_v2_adjust_windows env delta (c\<lparr>hc_init_window := nat (int (hc_init_window c) + delta)\<rparr>) = (True, c')"
    and "windows_ok b c" "0 \<le> int (hc_init_window c) + delta" "int (hc_init_window c) + delta \<le> int NGX_HTTP_V2_MAX_WINDOW"
  shows "windows_ok b c'"
proof -
  let ?new = "nat (int (hc_init_window c) + delta)"
  let ?c = "c\<lparr>hc_init_window := ?new\<rparr>"
  let ?sids = "map fst (hc_streams c)"
  have ok: "conn_ok b c" "streams_ok (\<lambda>_. hc_init_window c) c" using assms(2) by (simp_all add: windows_ok_def)
  have "streams_ok (\<lambda>i. if i \<in> set ?sids then hc_init_window c else ?new) ?c"
    using ok(2) by (force simp: streams_ok_def)
  moreover have "conn_ok b ?c" using ok(1) assms(4) by (simp add: conn_ok_def)
  moreover have "adjust_streams env delta ?sids ?c = (True, c')" using assms(1) by (simp add: ngx_http_v2_adjust_windows_def)
  moreover have "distinct ?sids" using ok(2) by (simp add: streams_ok_def)
  ultimately show ?thesis
    using adjust_streams_ok [of env delta ?sids ?c c' b "hc_init_window c" ?new] assms(3,4) ok(1)
    by (simp add: windows_ok_def conn_ok_def)
qed

section \<open>Every handler keeps the windows\<close>

definition all_next :: "(h2c \<Rightarrow> bool) \<Rightarrow> frame_next \<Rightarrow> bool" where
  "all_next P x \<longleftrightarrow> (case x of Frame_complete c r \<Rightarrow> P c | Frame_save h c r \<Rightarrow> P c | Headers_frame c r \<Rightarrow> P c | Frame_error e \<Rightarrow> True)"

lemma all_next_simps [simp]:
  "all_next P (Frame_complete c r) = P c" "all_next P (Frame_save h c r) = P c" "all_next P (Headers_frame c r) = P c"
  "all_next P (Frame_error e)"
  by (simp_all add: all_next_def)

text \<open>What does not touch a window.\<close>

definition same_windows :: "h2c \<Rightarrow> h2c \<Rightarrow> bool" where
  "same_windows c d \<longleftrightarrow> hc_send_window c = hc_send_window d \<and> hc_recv_window c = hc_recv_window d
     \<and> hc_init_window c = hc_init_window d \<and> hc_streams c = hc_streams d \<and> hc_last_out c = hc_last_out d"

lemma same_ok: "same_windows c d \<Longrightarrow> windows_ok b c = windows_ok b d"
  using send_ok_same [of c d b] by (simp add: same_windows_def windows_ok_def conn_ok_def streams_ok_def)

lemma save_ok: "windows_ok b c \<Longrightarrow> all_next (windows_ok b) (frame_save h c inp)"
  by (simp add: frame_save_def)

lemma complete_ok: "windows_ok b c \<Longrightarrow> all_next (windows_ok b) (ngx_http_v2_state_complete c inp)"
  using same_ok [of c "c\<lparr>hc_stream := None\<rparr>" b] by (simp add: ngx_http_v2_state_complete_def same_windows_def)

lemma skip_ok: "windows_ok b c \<Longrightarrow> all_next (windows_ok b) (ngx_http_v2_state_skip c inp)"
  using same_ok [of c "c\<lparr>hc_length := hc_length c - length inp\<rparr>" b]
  by (simp add: ngx_http_v2_state_skip_def same_windows_def save_ok complete_ok)

lemma skip_padded_ok: "windows_ok b c \<Longrightarrow> all_next (windows_ok b) (ngx_http_v2_state_skip_padded c inp)"
  using same_ok [of c "c\<lparr>hc_length := hc_length c + hc_padding c, hc_padding := 0\<rparr>" b]
  by (simp add: ngx_http_v2_state_skip_padded_def same_windows_def skip_ok)

definition delta_ok :: "h2c \<Rightarrow> int \<Rightarrow> bool" where
  "delta_ok c delta \<longleftrightarrow> 0 \<le> int (hc_init_window c) + delta \<and> int (hc_init_window c) + delta \<le> int NGX_HTTP_V2_MAX_WINDOW"

lemma settings_param_ok:
  "settings_param env key v c delta = Inr (c', delta') \<Longrightarrow> delta_ok c delta \<Longrightarrow> same_windows c c' \<and> delta_ok c' delta'"
  by (auto simp: settings_param_def same_windows_def delta_ok_def split: if_splits)

lemma settings_loop_ok:
  "windows_ok b c \<Longrightarrow> delta_ok c delta \<Longrightarrow>
    (case settings_loop env delta c inp of
       Inl x \<Rightarrow> all_next (windows_ok b) x
     | Inr (delta', c', r) \<Rightarrow> windows_ok b c' \<and> delta_ok c' delta')"
proof (induction env delta c inp rule: settings_loop.induct)
  case (1 env delta c inp)
  note loop = settings_loop.simps [of env delta c inp]
  show ?case
  proof (cases "hc_length c = 0 \<or> length inp < NGX_HTTP_V2_SETTINGS_PARAM_SIZE")
    case True
    then show ?thesis using 1(2,3) unfolding loop by (auto simp: save_ok)
  next
    case False
    let ?c = "c\<lparr>hc_length := hc_length c - NGX_HTTP_V2_SETTINGS_PARAM_SIZE\<rparr>"
    have c: "windows_ok b ?c" "delta_ok ?c delta"
      using 1(2,3) same_ok [of c ?c b] by (simp_all add: same_windows_def delta_ok_def)
    show ?thesis
    proof (cases "settings_param env (big_endian (take 2 inp)) (big_endian (take 4 (drop 2 inp))) ?c delta")
      case (Inl e)
      then show ?thesis using False unfolding loop by (simp add: Let_def)
    next
      case (Inr cd)
      obtain c' delta' where cd: "cd = (c', delta')" by (cases cd) auto
      then have "windows_ok b c'" "delta_ok c' delta'"
        using settings_param_ok [OF Inr [unfolded cd] c(2)] same_ok [of ?c c' b] c(1) by simp_all
      then show ?thesis using 1(1) [OF _ _ refl Inr cd [symmetric]] False Inr cd unfolding loop by (simp add: Let_def)
    qed
  qed
qed

lemma settings_params_ok: "windows_ok b c \<Longrightarrow> all_next (windows_ok b) (ngx_http_v2_state_settings_params env c inp)"
proof -
  assume ok: "windows_ok b c"
  then have "delta_ok c 0" by (simp add: delta_ok_def windows_ok_def conn_ok_def)
  note loop = settings_loop_ok [OF ok this, of env inp]
  show ?thesis
  proof (cases "settings_loop env 0 c inp")
    case (Inl x)
    then show ?thesis using loop by (simp add: ngx_http_v2_state_settings_params_def)
  next
    case (Inr dcr)
    obtain delta d r where dcr: "dcr = (delta, d, r)" by (cases dcr) auto
    let ?d = "queue_frame Settings_ack d"
    have d: "windows_ok b ?d" "delta_ok ?d delta"
      using loop Inr dcr same_ok [of ?d d b] by (simp_all add: same_windows_def queue_frame_def delta_ok_def)
    obtain ok c' where adjust: "ngx_http_v2_adjust_windows env delta (?d\<lparr>hc_init_window := nat (int (hc_init_window ?d) + delta)\<rparr>) = (ok, c')"
      by fastforce
    have "windows_ok b c'" if ok
      using adjust_windows_ok [of env delta ?d c'] adjust d that by (simp add: delta_ok_def)
    then show ?thesis using Inr dcr d adjust
      by (auto simp: ngx_http_v2_state_settings_params_def Let_def complete_ok)
  qed
qed

lemma settings_ok: "windows_ok b c \<Longrightarrow> all_next (windows_ok b) (ngx_http_v2_state_settings env c inp)"
  using same_ok [of c "c\<lparr>hc_settings_ack := True\<rparr>" b]
  by (simp add: ngx_http_v2_state_settings_def same_windows_def settings_params_ok complete_ok)

lemma init_bound: "windows_ok b c \<Longrightarrow> \<forall>i. (\<lambda>_. hc_init_window c) i \<le> NGX_HTTP_V2_MAX_WINDOW"
  by (simp add: windows_ok_def conn_ok_def)

lemma wake_windows_ok: "windows_ok b c \<Longrightarrow> windows_ok b (wake_stream env sid c)"
  using wake_ok [of b c "\<lambda>_. hc_init_window c" env sid] init_bound [of b c] by (simp add: windows_ok_def)

lemma write_windows_ok: "windows_ok b c \<Longrightarrow> windows_ok b (write_data sid n c)"
  using write_data_ok [of b c "\<lambda>_. hc_init_window c" sid n] init_bound [of b c] by (simp add: windows_ok_def)

lemma set_windows_ok: "windows_ok b c \<Longrightarrow> stream_ok (hc_init_window c) st \<Longrightarrow> windows_ok b (set_stream sid st c)"
  using set_ok_same [of "\<lambda>_. hc_init_window c" c sid st] by (simp add: windows_ok_def)

lemma find_windows_ok: "windows_ok b c \<Longrightarrow> find_stream c sid = Some st \<Longrightarrow> stream_ok (hc_init_window c) st"
  using find_ok [of "\<lambda>_. hc_init_window c" c sid st] by (simp add: windows_ok_def)

lemma terminate_windows_ok:
  "ngx_http_v2_terminate_stream env sid st status c = (ok, c') \<Longrightarrow> windows_ok b c \<Longrightarrow> stream_ok (hc_init_window c) st \<Longrightarrow>
    windows_ok b c' \<and> hc_init_window c' = hc_init_window c"
  using terminate_ok [of env sid st status c ok c' b "\<lambda>_. hc_init_window c"] by (simp add: windows_ok_def)

lemma wake_waiting_ok: "windows_ok b c \<Longrightarrow> windows_ok b (wake_waiting_streams env c)"
proof (induction env c rule: wake_waiting_streams.induct)
  case (1 env c)
  show ?case
  proof (cases "hc_waiting c")
    case Nil
    then show ?thesis using 1(2) by (simp add: wake_waiting_streams.simps [of env c])
  next
    case (Cons sid sids)
    let ?c = "wake_stream env sid (c\<lparr>hc_waiting := sids\<rparr>)"
    have "windows_ok b ?c" using 1(2) same_ok [of c "c\<lparr>hc_waiting := sids\<rparr>" b] by (simp add: same_windows_def wake_windows_ok)
    then show ?thesis using 1(1) [OF Cons refl] Cons by (simp add: wake_waiting_streams.simps [of env c] Let_def)
  qed
qed

lemma window_check:
  fixes sw :: int
  assumes "- int NGX_HTTP_V2_MAX_WINDOW \<le> sw" "sw \<le> int NGX_HTTP_V2_MAX_WINDOW"
  shows "(int NGX_HTTP_V2_MAX_WINDOW - sw) mod 2 ^ 64 = int NGX_HTTP_V2_MAX_WINDOW - sw"
  using assms by (intro mod_pos_pos_trivial) (simp_all add: NGX_HTTP_V2_MAX_WINDOW_def)

text \<open>The bytes that a WINDOW_UPDATE of the connection gives, when a call of a handler reads it.\<close>

definition update_grant :: "nat \<Rightarrow> nat \<Rightarrow> u8 list \<Rightarrow> nat" where
  "update_grant len sid inp =
     (if len = 4 \<and> sid = 0 \<and> 4 \<le> length inp then big_endian (take 4 inp) mod 2 ^ 31 else 0)"

fun granted :: "frame_handler \<Rightarrow> h2c \<Rightarrow> u8 list \<Rightarrow> nat" where
  "granted In_window_update c inp = update_grant (hc_length c) (hc_sid c) inp"
| "granted In_head c inp =
     (if NGX_HTTP_V2_FRAME_HEADER_SIZE \<le> length inp \<and> inp ! 3 = 8
      then update_grant (big_endian (take 3 inp)) (big_endian (take 4 (drop 5 inp)) mod 2 ^ 31)
             (drop NGX_HTTP_V2_FRAME_HEADER_SIZE inp)
      else 0)"
| "granted h c inp = 0"

lemma window_update_ok:
  "windows_ok b c \<Longrightarrow>
    all_next (windows_ok (given_more b (update_grant (hc_length c) (hc_sid c) inp))) (ngx_http_v2_state_window_update env c inp)"
proof -
  assume ok: "windows_ok b c"
  define w where "w = big_endian (take 4 inp) mod 2 ^ 31"
  have short: "all_next (windows_ok b') (ngx_http_v2_state_window_update env c inp)"
    if "hc_length c \<noteq> 4 \<or> length inp < 4" "windows_ok b' c" for b'
    using that by (auto simp: ngx_http_v2_state_window_update_def NGX_HTTP_V2_WINDOW_UPDATE_SIZE_def save_ok)
  show ?thesis
  proof (cases "hc_sid c \<noteq> 0")
    case True
    then have "update_grant (hc_length c) (hc_sid c) inp = 0" by (simp add: update_grant_def)
    then have goal: ?thesis if "all_next (windows_ok b) (ngx_http_v2_state_window_update env c inp)" using that by simp
    show ?thesis
    proof (rule goal, cases "find_stream c (hc_sid c)")
      case None
      then show "all_next (windows_ok b) (ngx_http_v2_state_window_update env c inp)" using ok True by (simp add: ngx_http_v2_state_window_update_def Let_def save_ok complete_ok)
    next
      case (Some st)
      have st: "stream_ok (hc_init_window c) st" by (rule find_windows_ok [OF ok Some])
      have check: "(int NGX_HTTP_V2_MAX_WINDOW - hs_send_window st) mod 2 ^ 64 = int NGX_HTTP_V2_MAX_WINDOW - hs_send_window st"
        using st by (intro window_check) (auto simp: stream_ok_def)
      obtain fin c' where closed: "ngx_http_v2_terminate_stream env (hc_sid c) st Flow_ctrl_error c = (fin, c')" by fastforce
      define d where "d = set_stream (hc_sid c) (st\<lparr>hs_send_window := hs_send_window st + int w, hs_exhausted := False\<rparr>) c"
      have d: "windows_ok b d" if "\<not> int w > int NGX_HTTP_V2_MAX_WINDOW - hs_send_window st"
        unfolding d_def by (rule set_windows_ok [OF ok]) (use st that in \<open>simp add: stream_ok_def\<close>)
      show "all_next (windows_ok b) (ngx_http_v2_state_window_update env c inp)"
        using ok True Some closed terminate_windows_ok [OF closed ok st] d wake_windows_ok [of b d env "hc_sid c"]
        unfolding ngx_http_v2_state_window_update_def Let_def w_def [symmetric]
        by (simp add: save_ok complete_ok d_def [symmetric] check [simplified])
    qed
  next
    case False
    show ?thesis
    proof (cases "hc_length c = 4 \<and> 4 \<le> length inp")
      case True
      let ?d = "c\<lparr>hc_send_window := hc_send_window c + w\<rparr>"
      have "send_ok (given_more b w) ?d" if "\<not> int w > (int NGX_HTTP_V2_MAX_WINDOW - int (hc_send_window c)) mod 2 ^ 64"
      proof (rule send_ok_raised)
        show "send_ok b c" using ok by (simp add: windows_ok_def conn_ok_def)
        show "hc_send_window c + w \<le> NGX_HTTP_V2_MAX_WINDOW \<or> b \<noteq> Checked"
        proof (cases b)
          case Checked
          then have "hc_send_window c \<le> NGX_HTTP_V2_MAX_WINDOW" using ok by (simp add: windows_ok_def conn_ok_def)
          then show ?thesis using that window_check [of "int (hc_send_window c)"] by simp
        qed simp_all
      qed
      then have "windows_ok (given_more b w) ?d" if "\<not> int w > (int NGX_HTTP_V2_MAX_WINDOW - int (hc_send_window c)) mod 2 ^ 64"
        using ok that by (simp add: windows_ok_def conn_ok_def streams_ok_def)
      then show ?thesis
        using False True unfolding ngx_http_v2_state_window_update_def Let_def w_def [symmetric] update_grant_def
        by (simp add: complete_ok wake_waiting_ok NGX_HTTP_V2_WINDOW_UPDATE_SIZE_def)
    next
      case no: False
      then show ?thesis using short [of b] ok by (auto simp: update_grant_def)
    qed
  qed
qed

text \<open>DATA.\<close>

lemma read_data_ok: "windows_ok b c \<Longrightarrow> all_next (windows_ok b) (ngx_http_v2_state_read_data env c inp)"
proof -
  assume ok: "windows_ok b c"
  show ?thesis
  proof (cases "\<exists>sid st. hc_stream c = Some sid \<and> find_stream c sid = Some st")
    case False
    then show ?thesis using skip_padded_ok [OF ok]
      by (auto simp: ngx_http_v2_state_read_data_def split: option.splits)
  next
    case True
    then obtain sid st where st: "hc_stream c = Some sid" "find_stream c sid = Some st" by blast
    have "windows_ok b (set_stream sid (st\<lparr>hs_in_closed := a, hs_skip_data := t\<rparr>) (c\<lparr>hc_length := n\<rparr>))" for a t n
      using find_windows_ok [OF ok st(2)] same_ok [of c "c\<lparr>hc_length := n\<rparr>" b] ok
      by (intro set_windows_ok) (simp_all add: same_windows_def stream_ok_def)
    then show ?thesis using ok st
      by (auto simp: ngx_http_v2_state_read_data_def Let_def skip_padded_ok save_ok complete_ok)
  qed
qed

lemma connection_window_ok:
  "data_connection_window env n c = Inr c' \<Longrightarrow> windows_ok b c \<Longrightarrow> windows_ok b c'"
  by (auto simp: data_connection_window_def ngx_http_v2_send_window_update_def queue_frame_def windows_ok_def conn_ok_def
      streams_ok_def Let_def split: if_splits)

lemma stream_window_ok:
  assumes "windows_ok b c" "stream_ok (hc_init_window c) st"
  shows "all_next (windows_ok b) (data_stream_window env n sid st c inp)"
proof (cases "n > hs_recv_window st")
  case True
  then show ?thesis using terminate_windows_ok [OF _ assms]
    by (auto simp: data_stream_window_def skip_padded_ok split: prod.splits)
next
  case False
  define st1 where "st1 = st\<lparr>hs_recv_window := hs_recv_window st - n\<rparr>"
  define opened where "opened = (if hs_no_flow_control st1 \<and> hs_recv_window st1 < NGX_HTTP_V2_MAX_WINDOW div 4 then
                (case ngx_http_v2_send_window_update env sid (NGX_HTTP_V2_MAX_WINDOW - hs_recv_window st1) c of
                   (ok, c) \<Rightarrow> (ok, c, st1\<lparr>hs_recv_window := NGX_HTTP_V2_MAX_WINDOW\<rparr>))
              else (True, c, st1))"
  obtain ok c1 st2 where o: "opened = (ok, c1, st2)" by (cases opened) auto
  have "same_windows c1 c" "stream_ok (hc_init_window c) st2"
    using o assms(2) by (auto simp: opened_def st1_def ngx_http_v2_send_window_update_def queue_frame_def same_windows_def
        stream_ok_def split: if_splits)
  then have c1: "windows_ok b c1" "stream_ok (hc_init_window c1) st2"
    using assms(1) same_ok [of c1 c b] by (simp_all add: same_windows_def)
  define d where "d = set_stream sid st2 c1"
  have d: "windows_ok b d" "stream_ok (hc_init_window d) st2" using c1 by (simp_all add: d_def set_windows_ok)
  have "windows_ok b (d\<lparr>hc_stream := Some sid\<rparr>)" using d(1) same_ok [of d "d\<lparr>hc_stream := Some sid\<rparr>" b] by (simp add: same_windows_def)
  then show ?thesis
    using False d terminate_windows_ok [OF _ d] o
    unfolding data_stream_window_def Let_def st1_def [symmetric] opened_def [symmetric]
    by (auto simp: d_def [symmetric] skip_padded_ok read_data_ok split: prod.splits)
qed

lemma data_ok: "windows_ok b c \<Longrightarrow> all_next (windows_ok b) (ngx_http_v2_state_data env c inp)"
proof -
  assume ok: "windows_ok b c"
  have padded: "windows_ok b d" if "data_padding c inp = Some (Inr (d, r))" for d r
    using that ok same_ok [of c d b] by (auto simp: data_padding_def same_windows_def Let_def split: if_splits)
  show ?thesis
  proof (cases "\<exists>d r e. data_padding c inp = Some (Inr (d, r)) \<and> data_connection_window env (hc_length c) d = Inr e")
    case True
    then obtain d r e where der: "data_padding c inp = Some (Inr (d, r))" "data_connection_window env (hc_length c) d = Inr e"
      by blast
    have "windows_ok b e" by (rule connection_window_ok [OF der(2) padded [OF der(1)]])
    then show ?thesis using der find_windows_ok [of b e "hc_sid e"]
      by (auto simp: ngx_http_v2_state_data_def skip_padded_ok stream_window_ok split: option.splits)
  next
    case False
    then show ?thesis using ok
      by (auto simp: ngx_http_v2_state_data_def save_ok split: option.splits sum.splits)
  qed
qed

lemma priority_ok: "windows_ok b c \<Longrightarrow> all_next (windows_ok b) (ngx_http_v2_state_priority c inp)"
  using same_ok [of c "c\<lparr>hc_priority_limit := hc_priority_limit c - 1\<rparr>" b]
  by (simp add: ngx_http_v2_state_priority_def Let_def same_windows_def save_ok complete_ok)

lemma rst_stream_ok: "windows_ok b c \<Longrightarrow> all_next (windows_ok b) (ngx_http_v2_state_rst_stream c inp)"
proof -
  assume ok: "windows_ok b c"
  have "windows_ok b (set_stream sid (st\<lparr>hs_in_closed := True, hs_out_closed := True\<rparr>) c)" if "find_stream c sid = Some st" for sid st
    using find_windows_ok [OF ok that] by (intro set_windows_ok [OF ok]) (simp add: stream_ok_def)
  then show ?thesis using ok
    by (auto simp: ngx_http_v2_state_rst_stream_def save_ok split: option.splits intro!: complete_ok)
qed

lemma ping_ok: "windows_ok b c \<Longrightarrow> all_next (windows_ok b) (ngx_http_v2_state_ping env c inp)"
  using same_ok [of c "queue_frame (Ping_ack (take 8 inp)) c" b]
  by (simp add: ngx_http_v2_state_ping_def same_windows_def queue_frame_def save_ok skip_ok complete_ok)

lemma goaway_ok: "windows_ok b c \<Longrightarrow> all_next (windows_ok b) (ngx_http_v2_state_goaway c inp)"
  by (simp add: ngx_http_v2_state_goaway_def save_ok skip_ok)

lemma head_ok: "windows_ok b c \<Longrightarrow> all_next (windows_ok (given_more b (granted In_head c inp))) (ngx_http_v2_state_head env c inp)"
proof -
  assume ok: "windows_ok b c"
  have read: "windows_ok b (c\<lparr>hc_length := l, hc_flags := f, hc_sid := i\<rparr>)" for l f i
    using ok same_ok [of c "c\<lparr>hc_length := l, hc_flags := f, hc_sid := i\<rparr>" b] by (simp add: same_windows_def)
  show ?thesis
  proof (cases "NGX_HTTP_V2_FRAME_HEADER_SIZE \<le> length inp \<and> inp ! 3 = 8")
    case True
    define d where "d = c\<lparr>hc_length := big_endian (take 3 inp), hc_flags := inp ! 4,
                  hc_sid := big_endian (take 4 (drop 5 inp)) mod 2 ^ 31\<rparr>"
    have "ngx_http_v2_state_head env c inp = ngx_http_v2_state_window_update env d (drop NGX_HTTP_V2_FRAME_HEADER_SIZE inp)"
      using True by (simp add: ngx_http_v2_state_head_def Let_def d_def)
    moreover have "granted In_head c inp = update_grant (hc_length d) (hc_sid d) (drop NGX_HTTP_V2_FRAME_HEADER_SIZE inp)"
      using True by (simp add: d_def)
    ultimately show ?thesis using window_update_ok [OF read] by (simp add: d_def)
  next
    case False
    then have "granted In_head c inp = 0" by auto
    then show ?thesis using ok read False
      by (simp only: given_more_zero) (auto simp: ngx_http_v2_state_head_def Let_def save_ok data_ok priority_ok rst_stream_ok settings_ok
          ping_ok goaway_ok skip_ok)
  qed
qed

lemma frame_step_ok: "windows_ok b c \<Longrightarrow> all_next (windows_ok (given_more b (granted h c inp))) (frame_step env h c inp)"
  by (cases h) (simp_all add: head_ok [simplified] skip_ok data_ok read_data_ok priority_ok rst_stream_ok settings_params_ok ping_ok
      goaway_ok window_update_ok)

section \<open>The life of a connection\<close>

definition new_connection :: "nat \<Rightarrow> nat \<Rightarrow> h2c \<Rightarrow> h2c" where
  "new_connection concurrent_pushes concurrent_streams c = c\<lparr>hc_concurrent_pushes := concurrent_pushes,
     hc_priority_limit := max concurrent_streams 100, hc_send_window := NGX_HTTP_V2_DEFAULT_WINDOW, hc_recv_window := NGX_HTTP_V2_MAX_WINDOW,
     hc_init_window := NGX_HTTP_V2_DEFAULT_WINDOW, hc_frame_size := NGX_HTTP_V2_DEFAULT_FRAME_SIZE, hc_streams := [],
     hc_waiting := [], hc_out := [], hc_last_out := [], hc_stream := None\<rparr>"

text \<open>The windows of a new stream; \<^verbatim>\<open>http2_body_preread_size\<close> is at most the greatest window.\<close>

definition ngx_http_v2_create_stream :: "nat \<Rightarrow> nat \<Rightarrow> nat \<Rightarrow> h2c \<Rightarrow> h2c" where
  "ngx_http_v2_create_stream preread_size concurrent_streams sid c =
     c\<lparr>hc_priority_limit := hc_priority_limit c + concurrent_streams, hc_streams := (sid, \<lparr>hs_send_window = int (hc_init_window c), hs_recv_window = preread_size, hs_exhausted = False,
         hs_in_closed = False, hs_out_closed = False, hs_rst_sent = False, hs_no_flow_control = False,
         hs_skip_data = False\<rparr>) # hc_streams c\<rparr>"

text \<open>
  The request takes the body: with buffering its stream needs no flow control any more and its window is opened for
  good, without buffering the window grows by the room of the buffer, of \<open>len\<close> bytes, beyond what could be read before.
\<close>

definition ngx_http_v2_read_request_body :: "frame_env \<Rightarrow> nat \<Rightarrow> bool \<Rightarrow> nat \<Rightarrow> nat \<Rightarrow> h2c \<Rightarrow> h2c" where
  "ngx_http_v2_read_request_body env sid no_buffering len preread_size c =
     (case find_stream c sid of
        None \<Rightarrow> c
      | Some st \<Rightarrow>
          let st = (if no_buffering then st else st\<lparr>hs_no_flow_control := True\<rparr>);
              n = (if no_buffering then len - preread_size else NGX_HTTP_V2_MAX_WINDOW - hs_recv_window st) in
          if n = 0 then set_stream sid st c
          else
            (case ngx_http_v2_send_window_update env sid n c of
               (ok, c) \<Rightarrow> set_stream sid (if ok then st\<lparr>hs_recv_window := hs_recv_window st + n\<rparr> else st\<lparr>hs_skip_data := True\<rparr>) c))"

text \<open>Without buffering the window later follows the room in the buffer, \<open>window\<close>.\<close>

definition ngx_http_v2_read_unbuffered_request_body :: "frame_env \<Rightarrow> nat \<Rightarrow> nat \<Rightarrow> h2c \<Rightarrow> h2c" where
  "ngx_http_v2_read_unbuffered_request_body env sid window c =
     (case find_stream c sid of
        None \<Rightarrow> c
      | Some st \<Rightarrow>
          if window \<le> hs_recv_window st then
            if window < hs_recv_window st then set_stream sid (st\<lparr>hs_skip_data := True\<rparr>) c else c
          else
            (case ngx_http_v2_send_window_update env sid (window - hs_recv_window st) c of
               (ok, c) \<Rightarrow> set_stream sid (if ok then st\<lparr>hs_recv_window := window\<rparr> else st\<lparr>hs_skip_data := True\<rparr>) c))"

text \<open>
  The output: the \<open>sent\<close> oldest DATA frames have left; the next frame, when it is a DATA frame, is then blocked,
  since its output has begun.
\<close>

definition ngx_http_v2_send_output_queue :: "nat \<Rightarrow> bool \<Rightarrow> h2c \<Rightarrow> h2c" where
  "ngx_http_v2_send_output_queue sent stuck c =
     (let left = take (length (hc_last_out c) - sent) (hc_last_out c) in
      c\<lparr>hc_last_out := (if left = [] \<or> \<not> stuck then left else butlast left @ [(last left)\<lparr>do_blocked := True\<rparr>])\<rparr>)"

text \<open>\<^verbatim>\<open>stream->queued\<close>, of which the frames of headers and trailers are left out.\<close>

definition queued :: "nat \<Rightarrow> h2c \<Rightarrow> nat" where
  "queued sid c = length (filter (\<lambda>f. do_sid f = sid) (hc_last_out c))"

text \<open>The frames that stay in the queue, and the bytes of those that are taken out of it.\<close>

fun take_back :: "nat \<Rightarrow> nat \<Rightarrow> data_out list \<Rightarrow> data_out list \<times> nat" where
  "take_back sid n [] = ([], 0)"
| "take_back sid n (f # fs) =
     (if do_sid f = sid \<and> \<not> do_blocked f then
        if n - 1 = 0 then (fs, do_length f)
        else (case take_back sid (n - 1) fs of (kept, window) \<Rightarrow> (kept, do_length f + window))
      else (case take_back sid n fs of (kept, window) \<Rightarrow> (f # kept, window)))"

text \<open>
  The request of a stream ends: its frames that have not begun to leave are dropped, and the window of the connection
  gets their bytes back, without a check.  The streams that waited get an event of their own.
\<close>

definition ngx_http_v2_filter_cleanup :: "nat \<Rightarrow> h2c \<Rightarrow> h2c" where
  "ngx_http_v2_filter_cleanup sid c =
     (let c = c\<lparr>hc_waiting := remove1 sid (hc_waiting c)\<rparr> in
      if queued sid c = 0 then c
      else
        (case take_back sid (queued sid c) (hc_last_out c) of
           (kept, window) \<Rightarrow>
             let c = c\<lparr>hc_last_out := kept\<rparr>;
                 c = (if hc_send_window c = 0 \<and> window > 0 then c\<lparr>hc_waiting := []\<rparr> else c) in
             c\<lparr>hc_send_window := hc_send_window c + window\<rparr>))"

definition remove_stream :: "nat \<Rightarrow> h2c \<Rightarrow> h2c" where
  "remove_stream sid c = c\<lparr>hc_streams := filter (\<lambda>(i, st). i \<noteq> sid) (hc_streams c),
     hc_waiting := remove1 sid (hc_waiting c)\<rparr>"

text \<open>
  A stream is closed when none of its frames is in the queue; else this is tried again later.  When there is no
  memory for RST_STREAM the connection is marked as in error.
\<close>

definition ngx_http_v2_close_stream :: "frame_env \<Rightarrow> bool \<Rightarrow> nat \<Rightarrow> h2c \<Rightarrow> h2c" where
  "ngx_http_v2_close_stream env timedout sid c =
     (case find_stream c sid of
        None \<Rightarrow> c
      | Some st \<Rightarrow>
          if queued sid c \<noteq> 0 then c
          else
            let rst = (\<lambda>e. if fe_null env (Rst_stream_frame sid e) then c else queue_frame (Rst_stream_frame sid e) c);
                c = (if hs_rst_sent st then c
                     else if \<not> hs_out_closed st then rst (if timedout then Protocol_error else Internal_error)
                     else if \<not> hs_in_closed st then rst No_error
                     else c);
                c = (if hc_stream c = Some sid then c\<lparr>hc_stream := None\<rparr> else c) in
            remove_stream sid c)"

text \<open>
  The client keeps to RFC 7540 (6.9.1): it never gives so much that what it has given in all, and not yet got, is more
  than the greatest window.  What it has not got is at least the window and the frames whose output has not begun.
\<close>

definition obeying :: "frame_handler \<Rightarrow> h2c \<Rightarrow> u8 list \<Rightarrow> bool" where
  "obeying h c inp \<longleftrightarrow> credit c + granted h c inp \<le> NGX_HTTP_V2_MAX_WINDOW"

text \<open>
  The events, with two flags: whether the client obeys, and whether a request may end with bytes in the queue.
  When the request takes the body, the window of its stream is what \<^verbatim>\<open>http2_body_preread_size\<close> has left of it.
\<close>

inductive h2_event :: "frame_env \<Rightarrow> bool \<Rightarrow> bool \<Rightarrow> h2c \<Rightarrow> h2c \<Rightarrow> bool" for env obeys returns where
  read: "frame_step env h c inp = Frame_complete c' rest \<Longrightarrow> obeys \<longrightarrow> obeying h c inp \<Longrightarrow>
    h2_event env obeys returns c c'"
| wait: "frame_step env h c inp = Frame_save h' c' rest \<Longrightarrow> obeys \<longrightarrow> obeying h c inp \<Longrightarrow>
    h2_event env obeys returns c c'"
| headers: "frame_step env h c inp = Headers_frame c' rest \<Longrightarrow> obeys \<longrightarrow> obeying h c inp \<Longrightarrow>
    h2_event env obeys returns c c'"
| create: "preread_size \<le> NGX_HTTP_V2_MAX_WINDOW \<Longrightarrow> sid \<notin> set (map fst (hc_streams c)) \<Longrightarrow>
    h2_event env obeys returns c (ngx_http_v2_create_stream preread_size concurrent_streams sid c)"
| body: "len \<le> NGX_HTTP_V2_MAX_WINDOW \<Longrightarrow> preread_size \<le> len \<Longrightarrow>
    (\<forall>st. find_stream c sid = Some st \<longrightarrow> hs_recv_window st \<le> preread_size) \<Longrightarrow>
    h2_event env obeys returns c (ngx_http_v2_read_request_body env sid no_buffering len preread_size c)"
| unbuffered: "window \<le> NGX_HTTP_V2_MAX_WINDOW \<Longrightarrow>
    h2_event env obeys returns c (ngx_http_v2_read_unbuffered_request_body env sid window c)"
| send: "h2_event env obeys returns c (write_data sid n c)"
| leave: "h2_event env obeys returns c (ngx_http_v2_send_output_queue sent stuck c)"
| cleanup: "returns \<or> hc_send_window (ngx_http_v2_filter_cleanup sid c) = hc_send_window c \<Longrightarrow>
    h2_event env obeys returns c (ngx_http_v2_filter_cleanup sid c)"
| close: "h2_event env obeys returns c (ngx_http_v2_close_stream env timedout sid c)"

lemma take_back_bytes:
  "take_back sid n fs = (kept, window) \<Longrightarrow> unsent_bytes kept + window = unsent_bytes fs"
  by (induction fs arbitrary: n kept window) (auto split: if_splits prod.splits)

lemma cleanup_credit: "credit (ngx_http_v2_filter_cleanup sid c) = credit c"
  using take_back_bytes [of sid "queued sid c" "hc_last_out c"]
  by (auto simp: ngx_http_v2_filter_cleanup_def credit_def unsent_def queued_def Let_def split: prod.splits)

lemma cleanup_same: "hc_streams (ngx_http_v2_filter_cleanup sid c) = hc_streams c"
  "hc_recv_window (ngx_http_v2_filter_cleanup sid c) = hc_recv_window c"
  "hc_init_window (ngx_http_v2_filter_cleanup sid c) = hc_init_window c"
  by (simp_all add: ngx_http_v2_filter_cleanup_def Let_def split: prod.splits)

lemma last_blocked:
  "unsent_bytes (if fs = [] \<or> \<not> stuck then fs else butlast fs @ [(last fs)\<lparr>do_blocked := True\<rparr>]) \<le> unsent_bytes fs"
  by (induction fs) auto

lemma output_credit: "credit (ngx_http_v2_send_output_queue sent stuck c) \<le> credit c"
proof -
  let ?fs = "hc_last_out c"
  let ?left = "take (length ?fs - sent) ?fs"
  have out: "hc_last_out (ngx_http_v2_send_output_queue sent stuck c)
      = (if ?left = [] \<or> \<not> stuck then ?left else butlast ?left @ [(last ?left)\<lparr>do_blocked := True\<rparr>])"
    and window: "hc_send_window (ngx_http_v2_send_output_queue sent stuck c) = hc_send_window c"
    by (simp_all add: ngx_http_v2_send_output_queue_def Let_def)
  have "unsent_bytes (?left @ drop (length ?fs - sent) ?fs) = unsent_bytes ?fs" by (simp only: append_take_drop_id)
  then have "unsent_bytes ?left \<le> unsent_bytes ?fs" unfolding unsent_bytes_simps(3) by linarith
  then show ?thesis
    unfolding credit_def unsent_def out window using last_blocked [of ?left stuck] by (meson add_left_mono order_trans)
qed

lemma windows_bound: "windows_ok b c \<Longrightarrow> send_ok b' c' \<Longrightarrow> hc_streams c' = hc_streams c \<Longrightarrow>
    hc_recv_window c' = hc_recv_window c \<Longrightarrow> hc_init_window c' = hc_init_window c \<Longrightarrow> windows_ok b' c'"
  by (simp add: windows_ok_def conn_ok_def streams_ok_def)

lemma windows_credit: "windows_ok (Credit k) c \<Longrightarrow> windows_ok (Credit (credit c)) c"
  by (rule windows_bound [of "Credit k" c]) simp_all

lemma windows_credit_mono: "windows_ok (Credit k) c \<Longrightarrow> k \<le> l \<Longrightarrow> windows_ok (Credit l) c"
  by (rule windows_bound [of "Credit k" c]) (simp_all add: windows_ok_def conn_ok_def)

lemma queue_windows_ok: "windows_ok b c \<Longrightarrow> windows_ok b (queue_frame f c)"
  using same_ok [of c "queue_frame f c" b] by (simp add: same_windows_def queue_frame_def)

lemma queue_init_window [simp]: "hc_init_window (queue_frame f c) = hc_init_window c"
  by (simp add: queue_frame_def)

definition h2_init :: "h2c \<Rightarrow> bool" where
  "h2_init c \<longleftrightarrow> (\<exists>concurrent_pushes concurrent_streams d. c = new_connection concurrent_pushes concurrent_streams d)"

text \<open>What is known of the window of the connection under the two flags.\<close>

definition applies :: "bool \<Rightarrow> bool \<Rightarrow> send_bound \<Rightarrow> bool" where
  "applies obeys returns b \<longleftrightarrow>
     b = Unknown \<or> obeys \<and> b = Credit NGX_HTTP_V2_MAX_WINDOW \<or> \<not> returns \<and> b = Checked"

definition in_bounds :: "bool \<Rightarrow> bool \<Rightarrow> h2c \<Rightarrow> bool" where
  "in_bounds obeys returns c \<longleftrightarrow> (\<forall>b. applies obeys returns b \<longrightarrow> windows_ok b c)"

lemma step_windows_ok:
  assumes "windows_ok b c" "applies obeys returns b" "obeys \<longrightarrow> obeying h c inp"
  shows "all_next (windows_ok b) (frame_step env h c inp)"
proof (cases b)
  case (Credit k)
  then have k: "k = NGX_HTTP_V2_MAX_WINDOW" "obeys" using assms(2) by (auto simp: applies_def)
  have "all_next (windows_ok (Credit (credit c + granted h c inp))) (frame_step env h c inp)"
    using frame_step_ok [OF windows_credit, of k c h inp env] assms(1) Credit by simp
  moreover have "credit c + granted h c inp \<le> k" using assms(3) k by (simp add: obeying_def)
  ultimately show ?thesis unfolding Credit all_next_def by (auto split: frame_next.splits intro: windows_credit_mono)
qed (use frame_step_ok [OF assms(1), of h inp env] in simp_all)

lemma stream_windows_ok:
  assumes "windows_ok b c"
  shows "preread_size \<le> NGX_HTTP_V2_MAX_WINDOW \<Longrightarrow> sid \<notin> set (map fst (hc_streams c)) \<Longrightarrow>
      windows_ok b (ngx_http_v2_create_stream preread_size concurrent_streams sid c)"
    and "windows_ok b (ngx_http_v2_close_stream env timedout sid c)"
proof -
  show "windows_ok b (ngx_http_v2_create_stream preread_size concurrent_streams sid c)"
    if "preread_size \<le> NGX_HTTP_V2_MAX_WINDOW" "sid \<notin> set (map fst (hc_streams c))"
    using that assms
    by (auto simp: ngx_http_v2_create_stream_def windows_ok_def conn_ok_def streams_ok_def stream_ok_def)
  have remove: "windows_ok b (remove_stream sid d)" if "windows_ok b d" for d
  proof -
    have "distinct (map fst (filter (\<lambda>(i, st). i \<noteq> sid) (hc_streams d)))"
      using that by (intro distinct_map_filter) (simp add: windows_ok_def streams_ok_def)
    then show ?thesis using that by (auto simp: remove_stream_def windows_ok_def conn_ok_def streams_ok_def)
  qed
  have reset: "windows_ok b (d\<lparr>hc_stream := None\<rparr>)" if "windows_ok b d" for d
    using that same_ok [of d "d\<lparr>hc_stream := None\<rparr>" b] by (simp add: same_windows_def)
  show "windows_ok b (ngx_http_v2_close_stream env timedout sid c)"
    using assms by (auto simp: ngx_http_v2_close_stream_def Let_def split: option.splits
        intro!: remove reset queue_windows_ok)
qed

lemma body_windows_ok:
  assumes "windows_ok b c"
  shows "len \<le> NGX_HTTP_V2_MAX_WINDOW \<Longrightarrow> preread_size \<le> len \<Longrightarrow>
      \<forall>st. find_stream c sid = Some st \<longrightarrow> hs_recv_window st \<le> preread_size \<Longrightarrow>
      windows_ok b (ngx_http_v2_read_request_body env sid no_buffering len preread_size c)"
    and "window \<le> NGX_HTTP_V2_MAX_WINDOW \<Longrightarrow> windows_ok b (ngx_http_v2_read_unbuffered_request_body env sid window c)"
  using assms find_windows_ok [OF assms, of sid]
  by (auto simp: ngx_http_v2_read_request_body_def ngx_http_v2_read_unbuffered_request_body_def
      ngx_http_v2_send_window_update_def Let_def stream_ok_def split: option.splits intro!: set_windows_ok queue_windows_ok)

lemma cleanup_windows_ok:
  assumes "windows_ok b c" "applies obeys returns b"
    and "returns \<or> hc_send_window (ngx_http_v2_filter_cleanup sid c) = hc_send_window c"
  shows "windows_ok b (ngx_http_v2_filter_cleanup sid c)"
proof (rule windows_bound [OF assms(1)])
  show "send_ok b (ngx_http_v2_filter_cleanup sid c)"
    using assms by (auto simp: applies_def windows_ok_def conn_ok_def cleanup_credit)
qed (simp_all add: cleanup_same)

lemma output_windows_ok: "windows_ok b c \<Longrightarrow> windows_ok b (ngx_http_v2_send_output_queue sent stuck c)"
proof (rule windows_bound [of b c])
  show "send_ok b (ngx_http_v2_send_output_queue sent stuck c)" if "windows_ok b c"
  proof (cases b)
    case (Credit k)
    then show ?thesis using that output_credit [of sent stuck c] by (simp add: windows_ok_def conn_ok_def)
  qed (use that in \<open>simp_all add: windows_ok_def conn_ok_def ngx_http_v2_send_output_queue_def Let_def\<close>)
qed (simp_all add: ngx_http_v2_send_output_queue_def Let_def)

lemma event_windows_ok:
  assumes "h2_event env obeys returns c c'" "windows_ok b c" "applies obeys returns b"
  shows "windows_ok b c'"
  using assms(1)
proof cases
  case (read h inp rest)
  then show ?thesis using step_windows_ok [OF assms(2,3), of h inp env] by simp
next
  case (wait h inp h' rest)
  then show ?thesis using step_windows_ok [OF assms(2,3), of h inp env] by simp
next
  case (headers h inp rest)
  then show ?thesis using step_windows_ok [OF assms(2,3), of h inp env] by simp
qed (simp_all add: assms(2) stream_windows_ok body_windows_ok write_windows_ok output_windows_ok
      cleanup_windows_ok [OF assms(2,3)])

interpretation h2: invariant h2_init "h2_event env obeys returns" "in_bounds obeys returns" for env obeys returns
proof
  show "in_bounds obeys returns c" if "h2_init c" for c
    using that by (auto simp: in_bounds_def applies_def h2_init_def windows_ok_def conn_ok_def streams_ok_def new_connection_def
        credit_def unsent_def NGX_HTTP_V2_MAX_WINDOW_def NGX_HTTP_V2_DEFAULT_WINDOW_def)
  show "in_bounds obeys returns c'" if "in_bounds obeys returns c" "h2_event env obeys returns c c'" for c c'
    using that event_windows_ok [OF that(2)] by (simp add: in_bounds_def)
qed

text \<open>C8: The windows keep to the protocol.  Whatever the client sends, frame by frame and byte by byte, and whatever the
  requests send, read, open and close: the window of the connection for receiving and the initial window of the
  streams never exceed 2 to the 31 less one, those of a stream for sending are between the negative and the positive of
  it, and its window for receiving is below it.  The window of the connection for sending never exceeds it either when the
  client keeps to RFC 7540, that is, never gives more than it in all; and for any client as long as no request ends
  with bytes in the queue whose output has not begun.  (With a client that does not obey and such a request it does
  exceed it: \<open>returned_window_exceeds\<close> below.)\<close>

theorem h2_windows_bounded:
  assumes "reach h2_init (h2_event env obeys returns) c"
  shows "(obeys \<or> \<not> returns \<longrightarrow> hc_send_window c \<le> NGX_HTTP_V2_MAX_WINDOW)
    \<and> hc_recv_window c \<le> NGX_HTTP_V2_MAX_WINDOW \<and> hc_init_window c \<le> NGX_HTTP_V2_MAX_WINDOW
    \<and> list_all (\<lambda>(sid, st). \<bar>hs_send_window st\<bar> \<le> int NGX_HTTP_V2_MAX_WINDOW \<and> hs_recv_window st \<le> NGX_HTTP_V2_MAX_WINDOW)
        (hc_streams c)"
proof -
  have ok: "windows_ok b c" if "applies obeys returns b" for b
    using h2.always [OF assms] that by (simp add: in_bounds_def)
  have "hc_send_window c \<le> NGX_HTTP_V2_MAX_WINDOW" if "obeys \<or> \<not> returns"
    using ok [of Checked] ok [of "Credit NGX_HTTP_V2_MAX_WINDOW"] that
    by (auto simp: applies_def windows_ok_def conn_ok_def credit_def)
  moreover have "windows_ok Unknown c" by (rule ok) (simp add: applies_def)
  ultimately show ?thesis by (force simp: windows_ok_def conn_ok_def streams_ok_def stream_ok_def list_all_iff)
qed

definition plain_frames :: frame_env where
  "plain_frames = \<lparr>fe_null = \<lambda>f. False, fe_pushes = 10, fe_wake = \<lambda>sid c. [], fe_body = \<lambda>sid c bs fin. Body_taken\<rparr>"

definition first_connection :: h2c where
  "first_connection = \<lparr>hc_length = 0, hc_padding = 0, hc_flags = 0, hc_sid = 0, hc_stream = None, hc_send_window = 65535,
     hc_recv_window = 2 ^ 31 - 1, hc_init_window = 65535, hc_frame_size = 2 ^ 14, hc_push_disabled = False,
     hc_concurrent_pushes = 10, hc_table_update = False, hc_settings_ack = False, hc_priority_limit = 100, hc_streams = [],
     hc_waiting = [], hc_out = [], hc_last_out = []\<rparr>"

lemma first_reach: "reach h2_init (h2_event env obeys returns) first_connection"
proof (rule reach.start)
  have "first_connection = new_connection 10 100 first_connection"
    by (simp add: new_connection_def first_connection_def NGX_HTTP_V2_DEFAULT_WINDOW_def
        NGX_HTTP_V2_MAX_WINDOW_def NGX_HTTP_V2_DEFAULT_FRAME_SIZE_def)
  then show "h2_init first_connection" unfolding h2_init_def by blast
qed

lemma h2_windows_bounded_witness:
  "let c = ngx_http_v2_filter_cleanup 1 (write_data 1 100 (ngx_http_v2_create_stream 65536 128 1 first_connection)) in
   hc_send_window c = 65535 \<and> hc_send_window c \<le> NGX_HTTP_V2_MAX_WINDOW \<and> hc_recv_window c \<le> NGX_HTTP_V2_MAX_WINDOW"
proof -
  let ?c = "ngx_http_v2_create_stream 65536 128 1 first_connection"
  let ?e = "ngx_http_v2_filter_cleanup 1 (write_data 1 100 ?c)"
  have "h2_event plain_frames True True first_connection ?c"
    by (rule h2_event.create) (simp_all add: NGX_HTTP_V2_MAX_WINDOW_def first_connection_def)
  then have "reach h2_init (h2_event plain_frames True True) ?c" by (rule reach.further [OF first_reach])
  then have "reach h2_init (h2_event plain_frames True True) (write_data 1 100 ?c)" by (rule reach.further) (rule h2_event.send)
  then have "reach h2_init (h2_event plain_frames True True) ?e" by (rule reach.further) (simp add: h2_event.cleanup)
  moreover have "hc_send_window ?e = 65535"
    by (simp add: ngx_http_v2_filter_cleanup_def write_data_def ngx_http_v2_create_stream_def first_connection_def find_stream_def
        set_stream_def queued_def ngx_http_v2_flow_control_def send_limit_def Let_def)
  ultimately show ?thesis using h2_windows_bounded [of plain_frames True True ?e] by (simp add: Let_def)
qed

text \<open>
  Without the two conditions the window of the connection leaves its range.  A client opens it to the greatest window,
  gives back the bytes of a DATA frame that has not left yet, and resets the stream: the window gets the bytes a second
  time.  The room that a WINDOW_UPDATE is checked against, a \<^verbatim>\<open>size_t\<close>, has then wrapped around, and every later one is
  accepted.
\<close>

lemma connection_update:
  assumes "hc_waiting c = []" "length w = 4" "big_endian w mod 2 ^ 31 = k" "k \<noteq> 0"
    and "hc_send_window c + k \<le> NGX_HTTP_V2_MAX_WINDOW"
  obtains d where "frame_step env In_head c ([0, 0, 4, 8, 0, 0, 0, 0, 0] @ w) = Frame_complete d []"
    "hc_send_window d = hc_send_window c + k" "hc_streams d = hc_streams c" "hc_last_out d = hc_last_out c"
    "hc_waiting d = []" "hc_frame_size d = hc_frame_size c"
proof -
  let ?d = "c\<lparr>hc_length := 4, hc_flags := 0, hc_sid := 0\<rparr>"
  have "big_endian [0, 0, 4] = 4" "big_endian [0, 0, 0, 0] = 0" by (simp_all add: big_endian_def)
  then have "frame_step env In_head c ([0, 0, 4, 8, 0, 0, 0, 0, 0] @ w) = ngx_http_v2_state_window_update env ?d w"
    by (simp add: ngx_http_v2_state_head_def NGX_HTTP_V2_FRAME_HEADER_SIZE_def Let_def)
  moreover have "(int NGX_HTTP_V2_MAX_WINDOW - int (hc_send_window c)) mod 2 ^ 64
      = int NGX_HTTP_V2_MAX_WINDOW - int (hc_send_window c)"
    using assms(5) by (intro window_check) simp_all
  then have "\<not> int k > (int NGX_HTTP_V2_MAX_WINDOW - int (hc_send_window ?d)) mod 2 ^ 64" using assms(5) by simp
  then have "ngx_http_v2_state_window_update env ?d w
      = Frame_complete (?d\<lparr>hc_send_window := hc_send_window c + k, hc_stream := None\<rparr>) []"
    using assms(1-4) unfolding ngx_http_v2_state_window_update_def Let_def
    by (simp add: NGX_HTTP_V2_WINDOW_UPDATE_SIZE_def wake_waiting_streams.simps ngx_http_v2_state_complete_def)
  ultimately show thesis using that assms(1) by simp
qed

lemma returned_window_exceeds:
  "\<exists>c. reach h2_init (h2_event plain_frames False True) c \<and> hc_send_window c = NGX_HTTP_V2_MAX_WINDOW + 100"
proof -
  define reached where "reached = reach h2_init (h2_event plain_frames False True)"
  have further: "reached d" if "reached c" "h2_event plain_frames False True c d" for c d
    using that unfolding reached_def by (rule reach.further)
  have r0: "reached first_connection" unfolding reached_def by (rule first_reach)
  define c1 where "c1 = ngx_http_v2_create_stream 65536 128 1 first_connection"
  have c1: "hc_waiting c1 = []" "hc_send_window c1 = 65535" "hc_last_out c1 = []" "hc_frame_size c1 = 16384"
      "\<exists>st. find_stream c1 1 = Some st \<and> hs_send_window st = 65535"
    by (simp_all add: c1_def ngx_http_v2_create_stream_def first_connection_def find_stream_def)
  have r1: "reached c1" unfolding c1_def
    by (rule further [OF r0], rule h2_event.create)
      (simp_all add: NGX_HTTP_V2_MAX_WINDOW_def first_connection_def)
  obtain c2 where c2: "frame_step plain_frames In_head c1 ([0, 0, 4, 8, 0, 0, 0, 0, 0] @ [0x7f, 0xff, 0, 0]) = Frame_complete c2 []"
      "hc_send_window c2 = NGX_HTTP_V2_MAX_WINDOW" "hc_streams c2 = hc_streams c1" "hc_last_out c2 = []" "hc_frame_size c2 = 16384"
      "hc_waiting c2 = []"
    by (rule connection_update [of c1 "[0x7f, 0xff, 0, 0]" 2147418112 plain_frames])
      (simp_all add: c1 big_endian_def NGX_HTTP_V2_MAX_WINDOW_def)
  have r2: "reached c2" by (rule further [OF r1], rule h2_event.read [OF c2(1)]) simp
  obtain st where st: "find_stream c2 1 = Some st" "hs_send_window st = 65535"
    using c1(5) c2(3) by (auto simp: find_stream_def)
  define c3 where "c3 = write_data 1 100 c2"
  have c3: "hc_send_window c3 = NGX_HTTP_V2_MAX_WINDOW - 100" "hc_waiting c3 = []"
      "hc_last_out c3 = [\<lparr>do_sid = 1, do_length = 100, do_blocked = False\<rparr>]"
    using st c2 by (simp_all add: c3_def write_data_def set_stream_def ngx_http_v2_flow_control_def send_limit_def Let_def
        NGX_HTTP_V2_MAX_WINDOW_def)
  have r3: "reached c3" unfolding c3_def by (rule further [OF r2], rule h2_event.send)
  obtain c4 where c4: "frame_step plain_frames In_head c3 ([0, 0, 4, 8, 0, 0, 0, 0, 0] @ [0, 0, 0, 100]) = Frame_complete c4 []"
      "hc_send_window c4 = NGX_HTTP_V2_MAX_WINDOW" "hc_last_out c4 = hc_last_out c3"
    by (rule connection_update [of c3 "[0, 0, 0, 100]" 100 plain_frames])
      (simp_all add: c3 big_endian_def NGX_HTTP_V2_MAX_WINDOW_def)
  have r4: "reached c4" by (rule further [OF r3], rule h2_event.read [OF c4(1)]) simp
  have "reached (ngx_http_v2_filter_cleanup 1 c4)" by (rule further [OF r4], rule h2_event.cleanup) simp
  moreover have "hc_send_window (ngx_http_v2_filter_cleanup 1 c4) = NGX_HTTP_V2_MAX_WINDOW + 100"
    using c3(3) c4(2,3) by (simp add: ngx_http_v2_filter_cleanup_def queued_def Let_def)
  ultimately show ?thesis unfolding reached_def by blast
qed

lemma exceeded_window_unchecked:
  assumes "hc_send_window c > NGX_HTTP_V2_MAX_WINDOW" "hc_send_window c \<le> 2 ^ 63" "hc_length c = 4" "hc_sid c = 0"
    and "length inp \<ge> 4" "big_endian (take 4 inp) mod 2 ^ 31 = k" "k \<noteq> 0"
  shows "ngx_http_v2_state_window_update env c inp
    = ngx_http_v2_state_complete (wake_waiting_streams env (c\<lparr>hc_send_window := hc_send_window c + k\<rparr>)) (drop 4 inp)"
proof -
  have "(int NGX_HTTP_V2_MAX_WINDOW - int (hc_send_window c)) mod 2 ^ 64
      = (int NGX_HTTP_V2_MAX_WINDOW - int (hc_send_window c) + 2 ^ 64) mod 2 ^ 64" by simp
  also have "\<dots> = int NGX_HTTP_V2_MAX_WINDOW - int (hc_send_window c) + 2 ^ 64"
    using assms(1,2) by (intro mod_pos_pos_trivial) (simp_all add: NGX_HTTP_V2_MAX_WINDOW_def)
  finally have "\<not> int k > (int NGX_HTTP_V2_MAX_WINDOW - int (hc_send_window c)) mod 2 ^ 64"
    using assms(2,6) mod_less_divisor [of "2 ^ 31" "big_endian (take 4 inp)"]
    by (auto simp: NGX_HTTP_V2_MAX_WINDOW_def)
  then show ?thesis using assms(3-7)
    by (simp add: ngx_http_v2_state_window_update_def NGX_HTTP_V2_WINDOW_UPDATE_SIZE_def Let_def)
qed

section \<open>Where a SETTINGS frame is cut\<close>

lemma big_endian_small: "big_endian [0, 4] = 4" "big_endian [0, 1] = 1"
  by (simp_all add: big_endian_def)

lemma no_streams: "hc_streams c = [] \<Longrightarrow> ngx_http_v2_adjust_windows env delta c = (True, c)"
  by (simp add: ngx_http_v2_adjust_windows_def)

lemma window_param:
  assumes "hc_length c \<ge> 6" "length window = 4" "big_endian window \<le> NGX_HTTP_V2_MAX_WINDOW"
  shows "settings_loop env delta c ([0, 4] @ window @ inp)
    = settings_loop env (int (big_endian window) - int (hc_init_window c)) (c\<lparr>hc_length := hc_length c - 6\<rparr>) inp"
  using assms by (subst settings_loop.simps)
    (simp add: settings_param_def NGX_HTTP_V2_SETTINGS_PARAM_SIZE_def NGX_HTTP_V2_INIT_WINDOW_SIZE_SETTING_def big_endian_small)

lemma table_param:
  assumes "hc_length c \<ge> 6" "length table = 4"
  shows "settings_loop env delta c ([0, 1] @ table @ inp)
    = settings_loop env delta (c\<lparr>hc_length := hc_length c - 6, hc_table_update := True\<rparr>) inp"
  using assms by (subst settings_loop.simps)
    (simp add: settings_param_def NGX_HTTP_V2_SETTINGS_PARAM_SIZE_def NGX_HTTP_V2_INIT_WINDOW_SIZE_SETTING_def big_endian_small)

lemma params_over: "hc_length c = 0 \<Longrightarrow> settings_loop env delta c inp = Inr (delta, c, inp)"
  by (subst settings_loop.simps) simp

lemma params_cut: "hc_length c > 0 \<Longrightarrow> settings_loop env delta c [] = Inl (Frame_save In_settings_params c [])"
  by (subst settings_loop.simps) (simp add: frame_save_def NGX_HTTP_V2_SETTINGS_PARAM_SIZE_def NGX_HTTP_V2_STATE_BUFFER_SIZE_def)

text \<open>C21: A SETTINGS frame that arrives in two reads loses its window.  Given at once, a frame with
  \<^verbatim>\<open>INITIAL_WINDOW_SIZE\<close> and a second parameter sets the initial window of the connection; when the bytes are cut
  between the two parameters, the handler starts again with \<^verbatim>\<open>window_delta\<close> zero, the initial window stays what it was, and
  the frame is acknowledged to the client all the same.\<close>

theorem settings_cut_forgets_window:
  assumes "hc_streams c = []" "\<not> fe_null env Settings_ack" "hc_length c = 12"
    and "length window = 4" "big_endian window \<le> NGX_HTTP_V2_MAX_WINDOW" "length table = 4"
  shows "(\<exists>d. ngx_http_v2_state_settings_params env c ([0, 4] @ window @ [0, 1] @ table @ rest) = Frame_complete d rest
      \<and> hc_init_window d = big_endian window)
    \<and> (\<exists>d e. ngx_http_v2_state_settings_params env c ([0, 4] @ window) = Frame_save In_settings_params d []
      \<and> ngx_http_v2_state_settings_params env d ([0, 1] @ table @ rest) = Frame_complete e rest
      \<and> hc_init_window e = hc_init_window c \<and> last (hc_out e) = Settings_ack)"
proof -
  let ?w = "int (big_endian window) - int (hc_init_window c)"
  let ?d = "c\<lparr>hc_length := 6\<rparr>"
  let ?e = "c\<lparr>hc_length := 0, hc_table_update := True\<rparr>"
  have whole: "settings_loop env 0 c ([0, 4] @ window @ [0, 1] @ table @ rest) = Inr (?w, ?e, rest)"
    using window_param [of c window env 0 "[0, 1] @ table @ rest"] table_param [of ?d table env ?w rest] assms
    by (simp add: params_over)
  have cut: "settings_loop env 0 c ([0, 4] @ window) = Inl (Frame_save In_settings_params ?d [])"
    using window_param [of c window env 0 "[]"] assms by (simp add: params_cut)
  have again: "settings_loop env 0 ?d ([0, 1] @ table @ rest) = Inr (0, ?e, rest)"
    using table_param [of ?d table env 0 rest] assms by (simp add: params_over)
  note eval = ngx_http_v2_state_settings_params_def queue_frame_def ngx_http_v2_state_complete_def Let_def
  have "\<exists>d. ngx_http_v2_state_settings_params env c ([0, 4] @ window @ [0, 1] @ table @ rest) = Frame_complete d rest
      \<and> hc_init_window d = big_endian window"
    unfolding ngx_http_v2_state_settings_params_def whole using assms(1,2) by (simp add: eval no_streams)
  moreover have "ngx_http_v2_state_settings_params env c ([0, 4] @ window) = Frame_save In_settings_params ?d []"
    unfolding ngx_http_v2_state_settings_params_def cut by simp
  moreover have "\<exists>e. ngx_http_v2_state_settings_params env ?d ([0, 1] @ table @ rest) = Frame_complete e rest
      \<and> hc_init_window e = hc_init_window c \<and> last (hc_out e) = Settings_ack"
    unfolding ngx_http_v2_state_settings_params_def again using assms(2) by (simp add: eval)
  ultimately show ?thesis by blast
qed

lemma settings_cut_forgets_window_witness:
  "(\<exists>d. ngx_http_v2_state_settings_params plain_frames (first_connection\<lparr>hc_length := 12\<rparr>)
        [0, 4, 0, 1, 0, 0, 0, 1, 0, 0, 16, 0] = Frame_complete d [] \<and> hc_init_window d = 65536)
    \<and> (\<exists>d e. ngx_http_v2_state_settings_params plain_frames (first_connection\<lparr>hc_length := 12\<rparr>) [0, 4, 0, 1, 0, 0]
          = Frame_save In_settings_params d []
      \<and> ngx_http_v2_state_settings_params plain_frames d [0, 1, 0, 0, 16, 0] = Frame_complete e []
      \<and> hc_init_window e = 65535)"
  using settings_cut_forgets_window [of "first_connection\<lparr>hc_length := 12\<rparr>" plain_frames "[0, 1, 0, 0]" "[0, 0, 16, 0]" "[]"]
  by (fastforce simp: first_connection_def plain_frames_def big_endian_def NGX_HTTP_V2_MAX_WINDOW_def)

end
