(* ===== verification/Ngx_Queue.thy ===== *)
theory Ngx_Queue
  imports Ngx_Compare
begin

text \<open>
  The queues of \<^verbatim>\<open>core/ngx_queue.h\<close> and \<^verbatim>\<open>core/ngx_queue.c\<close>: rings of links in a store, each assignment as the
  macros have it.  A queue is named by its sentinel; \<open>ring_of m q xs\<close> says that its elements are \<open>xs\<close>.
\<close>

section \<open>The store\<close>

record 'p links =
  q_prev :: "'p \<Rightarrow> 'p"
  q_next :: "'p \<Rightarrow> 'p"

definition set_prev :: "'p \<Rightarrow> 'p \<Rightarrow> 'p links \<Rightarrow> 'p links" where
  "set_prev p x m = m\<lparr>q_prev := (q_prev m)(p := x)\<rparr>"

definition set_next :: "'p \<Rightarrow> 'p \<Rightarrow> 'p links \<Rightarrow> 'p links" where
  "set_next p x m = m\<lparr>q_next := (q_next m)(p := x)\<rparr>"

lemma link_simps [simp]:
  "q_prev (set_prev p x m) a = (if a = p then x else q_prev m a)" "q_next (set_prev p x m) = q_next m"
  "q_next (set_next p x m) a = (if a = p then x else q_next m a)" "q_prev (set_next p x m) = q_prev m"
  by (simp_all add: set_prev_def set_next_def)

section \<open>The operations\<close>

definition ngx_queue_init :: "'p \<Rightarrow> 'p links \<Rightarrow> 'p links" where
  "ngx_queue_init q m = set_next q q (set_prev q q m)"

definition ngx_queue_empty :: "'p \<Rightarrow> 'p links \<Rightarrow> bool" where
  "ngx_queue_empty h m \<longleftrightarrow> h = q_prev m h"

definition ngx_queue_insert_head :: "'p \<Rightarrow> 'p \<Rightarrow> 'p links \<Rightarrow> 'p links" where
  "ngx_queue_insert_head h x m =
     (let m = set_next x (q_next m h) m;
          m = set_prev (q_next m x) x m;
          m = set_prev x h m in
      set_next h x m)"

definition ngx_queue_insert_tail :: "'p \<Rightarrow> 'p \<Rightarrow> 'p links \<Rightarrow> 'p links" where
  "ngx_queue_insert_tail h x m =
     (let m = set_prev x (q_prev m h) m;
          m = set_next (q_prev m x) x m;
          m = set_next x h m in
      set_prev h x m)"

definition ngx_queue_remove :: "'p \<Rightarrow> 'p links \<Rightarrow> 'p links" where
  "ngx_queue_remove x m =
     (let m = set_prev (q_next m x) (q_prev m x) m in
      set_next (q_prev m x) (q_next m x) m)"

definition ngx_queue_split :: "'p \<Rightarrow> 'p \<Rightarrow> 'p \<Rightarrow> 'p links \<Rightarrow> 'p links" where
  "ngx_queue_split h q n m =
     (let m = set_prev n (q_prev m h) m;
          m = set_next (q_prev m n) n m;
          m = set_next n q m;
          m = set_prev h (q_prev m q) m;
          m = set_next (q_prev m h) h m in
      set_prev q n m)"

definition ngx_queue_add :: "'p \<Rightarrow> 'p \<Rightarrow> 'p links \<Rightarrow> 'p links" where
  "ngx_queue_add h n m =
     (let m = set_next (q_prev m h) (q_next m n) m;
          m = set_prev (q_next m n) (q_prev m h) m;
          m = set_prev h (q_prev m n) m in
      set_next (q_prev m h) h m)"

text \<open>\<open>next\<close> goes at twice the pace of \<open>middle\<close>.\<close>

partial_function (option) middle_loop :: "'p links \<Rightarrow> 'p \<Rightarrow> 'p \<Rightarrow> 'p \<Rightarrow> 'p option" where
  "middle_loop m queue middle nxt =
     (let middle = q_next m middle; nxt = q_next m nxt in
      if nxt = q_prev m queue then Some middle
      else let nxt = q_next m nxt in
           if nxt = q_prev m queue then Some middle else middle_loop m queue middle nxt)"

definition ngx_queue_middle :: "'p links \<Rightarrow> 'p \<Rightarrow> 'p option" where
  "ngx_queue_middle m queue =
     (let middle = q_next m queue in
      if middle = q_prev m queue then Some middle else middle_loop m queue middle (q_next m queue))"

text \<open>The stable insertion sort: the \<^verbatim>\<open>do\<close> loop finds the element after which \<open>q\<close> belongs.\<close>

partial_function (option) sort_back :: "('p \<Rightarrow> 'p \<Rightarrow> int) \<Rightarrow> 'p links \<Rightarrow> 'p \<Rightarrow> 'p \<Rightarrow> 'p \<Rightarrow> 'p option" where
  "sort_back cmp m queue q prev =
     (if cmp prev q \<le> 0 then Some prev
      else let prev = q_prev m prev in
           if prev = queue then Some prev else sort_back cmp m queue q prev)"

partial_function (option) sort_loop :: "('p \<Rightarrow> 'p \<Rightarrow> int) \<Rightarrow> 'p \<Rightarrow> 'p \<Rightarrow> 'p links \<Rightarrow> 'p links option" where
  "sort_loop cmp queue q m =
     (if q = queue then Some m
      else
        let prev = q_prev m q; nxt = q_next m q; m = ngx_queue_remove q m in
        Option.bind (sort_back cmp m queue q prev)
          (\<lambda>prev. sort_loop cmp queue nxt (ngx_queue_insert_head prev q m)))"

definition ngx_queue_sort :: "('p \<Rightarrow> 'p \<Rightarrow> int) \<Rightarrow> 'p \<Rightarrow> 'p links \<Rightarrow> 'p links option" where
  "ngx_queue_sort cmp queue m =
     (let q = q_next m queue in
      if q = q_prev m queue then Some m else sort_loop cmp queue (q_next m q) m)"

section \<open>Rings\<close>

fun linked :: "'p links \<Rightarrow> 'p list \<Rightarrow> bool" where
  "linked m (a # b # ps) \<longleftrightarrow> q_next m a = b \<and> q_prev m b = a \<and> linked m (b # ps)"
| "linked m _ \<longleftrightarrow> True"

definition ring_of :: "'p links \<Rightarrow> 'p \<Rightarrow> 'p list \<Rightarrow> bool" where
  "ring_of m q xs \<longleftrightarrow> distinct (q # xs) \<and> linked m (q # xs @ [q])"

lemma linked_append: "ps \<noteq> [] \<Longrightarrow> qs \<noteq> [] \<Longrightarrow> linked m (ps @ qs) \<longleftrightarrow>
    linked m ps \<and> linked m qs \<and> q_next m (last ps) = hd qs \<and> q_prev m (hd qs) = last ps"
proof (induction ps rule: induct_list012)
  case (2 a)
  then show ?case by (cases qs) auto
qed auto

lemma linked_cong:
  "(\<And>a. a \<in> set (butlast ps) \<Longrightarrow> q_next m' a = q_next m a) \<Longrightarrow> (\<And>a. a \<in> set (tl ps) \<Longrightarrow> q_prev m' a = q_prev m a) \<Longrightarrow>
    linked m' ps = linked m ps"
  by (induction m ps rule: linked.induct) auto

text \<open>What lies on another ring is not touched.\<close>

lemma ring_frame:
  "ring_of m q xs \<Longrightarrow> (\<And>a. a \<in> set (q # xs) \<Longrightarrow> q_next m' a = q_next m a \<and> q_prev m' a = q_prev m a) \<Longrightarrow> ring_of m' q xs"
  unfolding ring_of_def by (subst linked_cong [where m = m]) (auto simp: in_set_butlast_appendI butlast_append)

text \<open>A ring between two of its elements.\<close>

lemma ring_cut: "ring_of m q (xs @ ys) \<longleftrightarrow> distinct (q # xs @ ys) \<and>
    linked m (q # xs) \<and> linked m (ys @ [q]) \<and>
    q_next m (last (q # xs)) = hd (ys @ [q]) \<and> q_prev m (hd (ys @ [q])) = last (q # xs)"
  using linked_append [of "q # xs" "ys @ [q]" m] by (auto simp: ring_of_def)

lemma ring_init: "ring_of (ngx_queue_init q m) q []"
  by (simp add: ring_of_def ngx_queue_init_def)

lemma ring_empty: "ring_of m q xs \<Longrightarrow> ngx_queue_empty q m \<longleftrightarrow> xs = []"
  using ring_cut [of m q xs "[]"] by (cases xs rule: rev_cases) (auto simp: ngx_queue_empty_def)

lemma ring_head: "ring_of m q xs \<Longrightarrow> q_next m q = hd (xs @ [q])"
  using ring_cut [of m q "[]" xs] by simp

lemma ring_last: "ring_of m q xs \<Longrightarrow> q_prev m q = last (q # xs)"
  using ring_cut [of m q xs "[]"] by simp

lemma ring_next: "ring_of m q (xs @ x # ys) \<Longrightarrow> q_next m x = hd (ys @ [q])"
  using ring_cut [of m q "xs @ [x]" ys] by simp

lemma ring_prev: "ring_of m q (xs @ x # ys) \<Longrightarrow> q_prev m x = last (q # xs)"
  using ring_cut [of m q xs "x # ys"] by simp

lemma last_butlast: "distinct ps \<Longrightarrow> last ps \<notin> set (butlast ps)"
  by (cases ps rule: rev_cases) auto

lemma hd_tl: "distinct ps \<Longrightarrow> hd ps \<notin> set (tl ps)"
  by (cases ps) auto

lemma hd_in: "hd (ys @ [q]) \<in> insert q (set ys)"
  by (cases ys) auto

lemma last_in: "last (q # xs) \<in> insert q (set xs)"
  by auto

text \<open>One change of the links between \<open>xs\<close> and \<open>ys\<close>.\<close>

lemma ring_parts:
  assumes "ring_of m q (xs @ ys)"
    and "\<And>a. a \<in> insert q (set xs) \<union> set ys \<Longrightarrow> a \<noteq> last (q # xs) \<Longrightarrow> q_next m' a = q_next m a"
    and "\<And>a. a \<in> insert q (set xs) \<union> set ys \<Longrightarrow> a \<noteq> hd (ys @ [q]) \<Longrightarrow> q_prev m' a = q_prev m a"
  shows "linked m' (q # xs)" "linked m' (ys @ [q])"
proof -
  have d: "distinct (q # xs)" "distinct (ys @ [q])" "set xs \<inter> set ys = {}" "q \<notin> set xs" "q \<notin> set ys"
    and l: "linked m (q # xs)" "linked m (ys @ [q])" using assms(1) by (auto simp: ring_cut)
  have "linked m' (q # xs) = linked m (q # xs)"
  proof (rule linked_cong)
    fix a assume a: "a \<in> set (butlast (q # xs))"
    then have "a \<noteq> last (q # xs)" using last_butlast [OF d(1)] by metis
    moreover have "a \<in> insert q (set xs)" using a in_set_butlastD [of a "q # xs"] by simp
    ultimately show "q_next m' a = q_next m a" using assms(2) by blast
  next
    fix a assume a: "a \<in> set (tl (q # xs))"
    then have "a \<noteq> hd (ys @ [q])" using d(3,4) hd_in [of ys q] by auto
    then show "q_prev m' a = q_prev m a" using assms(3) a by simp
  qed
  then show "linked m' (q # xs)" using l by simp
  have "linked m' (ys @ [q]) = linked m (ys @ [q])"
  proof (rule linked_cong)
    fix a assume a: "a \<in> set (butlast (ys @ [q]))"
    then have "a \<noteq> last (q # xs)" using d(3,5) last_in [of q xs] by auto
    then show "q_next m' a = q_next m a" using assms(2) a by simp
  next
    fix a assume a: "a \<in> set (tl (ys @ [q]))"
    then have "a \<noteq> hd (ys @ [q])" using hd_tl [OF d(2)] by metis
    moreover have "a \<in> insert q (set ys)" using a list.set_sel(2) [of "ys @ [q]" a] by auto
    ultimately show "q_prev m' a = q_prev m a" using assms(3) by blast
  qed
  then show "linked m' (ys @ [q])" using l by simp
qed

lemma insert_after:
  assumes "ring_of m q (xs @ ys)" "x \<notin> set (q # xs @ ys)"
  shows "ring_of (ngx_queue_insert_head (last (q # xs)) x m) q (xs @ x # ys)"
proof -
  define p b m' where "p = last (q # xs)" and "b = hd (ys @ [q])" and "m' = ngx_queue_insert_head p x m"
  have b: "q_next m p = b" "q_prev m b = p" using assms(1) by (simp_all add: ring_cut p_def b_def del: last.simps)
  have p: "p \<noteq> x" "b \<noteq> x" using assms(2) last_in [of q xs] hd_in [of ys q] by (auto simp: p_def b_def)
  have links: "q_next m' a = (if a = p then x else if a = x then b else q_next m a)"
    "q_prev m' a = (if a = x then p else if a = b then x else q_prev m a)" for a
    using p b by (auto simp: m'_def ngx_queue_insert_head_def Let_def)
  have nx: "q_next m' a = q_next m a" if "a \<in> insert q (set xs) \<union> set ys" "a \<noteq> p" for a
    using that assms(2) by (auto simp: links)
  have pr: "q_prev m' a = q_prev m a" if "a \<in> insert q (set xs) \<union> set ys" "a \<noteq> b" for a
    using that assms(2) by (auto simp: links)
  have "linked m' (q # xs)" "linked m' (ys @ [q])"
    using ring_parts [OF assms(1) nx [unfolded p_def] pr [unfolded b_def]] by simp_all
  moreover have "linked m' (x # ys @ [q])"
    using calculation(2) p by (cases ys) (auto simp: links b_def)
  ultimately have "ring_of m' q (xs @ x # ys)" unfolding ring_cut
    using assms p by (auto simp: links p_def [symmetric] ring_cut simp del: last.simps)
  then show ?thesis by (simp add: m'_def p_def)
qed

lemma ring_insert_head: "ring_of m q xs \<Longrightarrow> x \<notin> set (q # xs) \<Longrightarrow> ring_of (ngx_queue_insert_head q x m) q (x # xs)"
  using insert_after [of m q "[]" xs x] by simp

lemma ring_insert_tail:
  assumes "ring_of m q xs" "x \<notin> set (q # xs)"
  shows "ring_of (ngx_queue_insert_tail q x m) q (xs @ [x])"
proof -
  have "q_next m (last (q # xs)) = q" "q_prev m q = last (q # xs)" using assms(1) ring_cut [of m q xs "[]"] by auto
  moreover have "x \<noteq> q" "last (q # xs) \<noteq> x" using assms(2) by auto
  ultimately have "ngx_queue_insert_tail q x m = ngx_queue_insert_head (last (q # xs)) x m"
    by (auto simp: ngx_queue_insert_tail_def ngx_queue_insert_head_def set_prev_def set_next_def Let_def fun_eq_iff
        simp del: last.simps)
  then show ?thesis using insert_after [of m q xs "[]" x] assms by simp
qed

lemma ring_remove:
  assumes "ring_of m q (xs @ x # ys)"
  shows "ring_of (ngx_queue_remove x m) q (xs @ ys)"
proof -
  define p b m' where "p = last (q # xs)" and "b = hd (ys @ [q])" and "m' = ngx_queue_remove x m"
  have at: "q_next m x = b" "q_prev m x = p"
    using ring_next [OF assms] ring_prev [OF assms] by (simp_all add: p_def b_def)
  have d: "distinct (q # xs @ x # ys)" using assms by (simp add: ring_of_def)
  have neq: "p \<noteq> x" "b \<noteq> x" using d last_in [of q xs] hd_in [of ys q] by (auto simp: p_def b_def)
  have links: "q_next m' a = (if a = p then b else q_next m a)" "q_prev m' a = (if a = b then p else q_prev m a)" for a
    using at neq by (auto simp: m'_def ngx_queue_remove_def Let_def)
  have "linked m (q # xs)" "linked m (ys @ [q])"
    using assms ring_cut [of m q xs "x # ys"] by (cases ys; simp)+
  moreover have "linked m' (q # xs) = linked m (q # xs)"
  proof (rule linked_cong)
    fix a assume "a \<in> set (butlast (q # xs))"
    then show "q_next m' a = q_next m a"
      using last_butlast [of "q # xs"] d unfolding p_def [symmetric] by (auto simp: links simp del: last.simps butlast.simps)
  next
    fix a assume "a \<in> set (tl (q # xs))"
    then show "q_prev m' a = q_prev m a" using hd_in [of ys q] d unfolding b_def [symmetric] by (auto simp: links)
  qed
  moreover have "linked m' (ys @ [q]) = linked m (ys @ [q])"
  proof (rule linked_cong)
    fix a assume "a \<in> set (butlast (ys @ [q]))"
    then show "q_next m' a = q_next m a" using last_in [of q xs] d unfolding p_def [symmetric] by (auto simp: links)
  next
    fix a assume "a \<in> set (tl (ys @ [q]))"
    then show "q_prev m' a = q_prev m a"
      using hd_tl [of "ys @ [q]"] d unfolding b_def [symmetric] by (auto simp: links)
  qed
  ultimately have "ring_of m' q (xs @ ys)" unfolding ring_cut
    using d by (auto simp: links p_def [symmetric] b_def [symmetric] simp del: last.simps)
  then show ?thesis by (simp add: m'_def)
qed

lemma ring_split:
  assumes "ring_of m h (xs @ y # ys)" "n \<notin> set (h # xs @ y # ys)"
  shows "ring_of (ngx_queue_split h y n m) h xs" "ring_of (ngx_queue_split h y n m) n (y # ys)"
proof -
  define p l m' where "p = last (h # xs)" and "l = last (y # ys)" and "m' = ngx_queue_split h y n m"
  have at: "q_prev m h = l" "q_prev m y = p"
    using ring_last [OF assms(1)] ring_prev [OF assms(1)] by (simp_all add: p_def l_def)
  have d: "distinct (h # xs @ y # ys)" using assms(1) by (simp add: ring_of_def)
  have p: "p \<in> insert h (set xs)" and l: "l \<in> insert y (set ys)" by (auto simp: p_def l_def)
  have neq: "p \<noteq> n" "l \<noteq> n" "h \<noteq> n" "y \<noteq> n" "p \<noteq> l" "h \<noteq> y" using d p l assms(2) by auto
  have links: "q_next m' a = (if a = p then h else if a = n then y else if a = l then n else q_next m a)"
    "q_prev m' a = (if a = y then n else if a = h then p else if a = n then l else q_prev m a)" for a
    using at neq by (auto simp: m'_def ngx_queue_split_def Let_def)
  have old: "linked m (h # xs)" "linked m (y # ys)"
    using assms(1) linked_append [of "y # ys" "[h]" m] by (simp_all add: ring_cut)
  have "linked m' (h # xs) = linked m (h # xs)"
  proof (rule linked_cong)
    fix a assume a: "a \<in> set (butlast (h # xs))"
    then have "a \<noteq> p" using last_butlast [of "h # xs"] d unfolding p_def by (metis distinct_append append_Cons)
    then show "q_next m' a = q_next m a" using in_set_butlastD [OF a] d l assms(2) by (auto simp: links)
  next
    fix a assume "a \<in> set (tl (h # xs))"
    then show "q_prev m' a = q_prev m a" using d assms(2) by (auto simp: links)
  qed
  moreover have "linked m' (y # ys) = linked m (y # ys)"
  proof (rule linked_cong)
    fix a assume a: "a \<in> set (butlast (y # ys))"
    then have "a \<noteq> l" using last_butlast [of "y # ys"] d unfolding l_def by (metis distinct_append distinct.simps(2))
    then show "q_next m' a = q_next m a" using in_set_butlastD [OF a] d p assms(2) by (auto simp: links)
  next
    fix a assume "a \<in> set (tl (y # ys))"
    then show "q_prev m' a = q_prev m a" using d assms(2) by (auto simp: links)
  qed
  ultimately have new: "linked m' (h # xs)" "linked m' (y # ys)" using old by simp_all
  have "ring_of m' h xs" using new(1) d neq ring_cut [of m' h xs "[]"]
    by (simp add: links p_def [symmetric] del: last.simps)
  moreover have "ring_of m' n (y # ys)" using new(2) d neq assms(2) linked_append [of "y # ys" "[n]" m']
    by (simp add: ring_of_def links l_def [symmetric] del: last.simps)
  ultimately show "ring_of (ngx_queue_split h y n m) h xs" "ring_of (ngx_queue_split h y n m) n (y # ys)"
    by (simp_all add: m'_def)
qed

lemma ring_add:
  assumes "ring_of m h xs" "ring_of m n ys" "ys \<noteq> []" "set (h # xs) \<inter> set (n # ys) = {}"
  shows "ring_of (ngx_queue_add h n m) h (xs @ ys)"
proof -
  define p l b m' where "p = last (h # xs)" and "l = last ys" and "b = hd ys" and "m' = ngx_queue_add h n m"
  have at: "q_prev m h = p" "q_prev m n = l" "q_next m n = b"
    using ring_last [OF assms(1)] ring_last [OF assms(2)] ring_head [OF assms(2)] assms(3)
    by (simp_all add: p_def l_def b_def)
  have d: "distinct (h # xs)" "distinct (n # ys)" using assms(1,2) by (simp_all add: ring_of_def)
  have in_: "p \<in> insert h (set xs)" "l \<in> set ys" "b \<in> set ys" using assms(3) by (auto simp: p_def l_def b_def)
  have neq: "p \<noteq> n" "l \<noteq> n" "b \<noteq> n" "h \<noteq> n" "p \<noteq> l" "h \<noteq> b" "h \<noteq> l" using d in_ assms(4) by auto
  have links: "q_next m' a = (if a = l then h else if a = p then b else q_next m a)"
    "q_prev m' a = (if a = h then l else if a = b then p else q_prev m a)" for a
    using at neq by (auto simp: m'_def ngx_queue_add_def Let_def)
  have old: "linked m (h # xs)" "linked m ys"
    using assms(1,2) ring_cut [of m h xs "[]"] linked_append [of "n # ys" "[n]" m] assms(3)
    by (simp_all add: ring_of_def) (cases ys; simp)
  have "linked m' (h # xs) = linked m (h # xs)"
  proof (rule linked_cong)
    fix a assume a: "a \<in> set (butlast (h # xs))"
    then have "a \<noteq> p" using last_butlast [OF d(1)] unfolding p_def by metis
    then show "q_next m' a = q_next m a" using in_set_butlastD [OF a] in_ assms(4) by (auto simp: links)
  next
    fix a assume "a \<in> set (tl (h # xs))"
    then show "q_prev m' a = q_prev m a" using d in_ assms(4) by (auto simp: links)
  qed
  moreover have "linked m' ys = linked m ys"
  proof (rule linked_cong)
    fix a assume a: "a \<in> set (butlast ys)"
    then have "a \<noteq> l" using last_butlast [of ys] d unfolding l_def by auto
    then show "q_next m' a = q_next m a" using in_set_butlastD [OF a] in_ assms(4) by (auto simp: links)
  next
    fix a assume a: "a \<in> set (tl ys)"
    then have "a \<noteq> b" using hd_tl [of ys] d unfolding b_def by auto
    then show "q_prev m' a = q_prev m a" using list.set_sel(2) [OF assms(3) a] assms(4) by (auto simp: links)
  qed
  ultimately have new: "linked m' (h # xs)" "linked m' ys" using old by simp_all
  have "linked m' (ys @ [h])" using new(2) linked_append [of ys "[h]" m'] assms(3) neq
    by (simp add: links l_def [symmetric])
  then have "ring_of m' h (xs @ ys)" unfolding ring_cut using new(1) d assms(3,4) neq
    by (auto simp: links p_def [symmetric] b_def [symmetric] simp del: last.simps)
  then show ?thesis by (simp add: m'_def)
qed

section \<open>The middle\<close>

lemma ring_nth:
  assumes "ring_of m q xs" "Suc i < length xs"
  shows "q_next m (xs ! i) = xs ! Suc i"
proof -
  have "xs = take i xs @ xs ! i # drop (Suc i) xs" using assms(2) by (simp add: id_take_nth_drop)
  then have "q_next m (xs ! i) = hd (drop (Suc i) xs @ [q])" using ring_next [of m q "take i xs" "xs ! i" "drop (Suc i) xs"] assms(1) by simp
  then show ?thesis using assms(2) by (simp add: hd_append hd_drop_conv_nth)
qed

lemma middle_loop:
  assumes "ring_of m q xs" "2 * i + 1 < length xs"
  shows "middle_loop m q (xs ! i) (xs ! (2 * i)) = Some (xs ! (length xs div 2))"
  using assms(2)
proof (induction "length xs - 2 * i" arbitrary: i rule: less_induct)
  case less
  have d: "distinct xs" using assms(1) by (simp add: ring_of_def)
  have last: "q_prev m q = xs ! (length xs - 1)"
    using ring_last [OF assms(1)] less.prems by (cases xs rule: rev_cases) auto
  have is_last: "xs ! j = q_prev m q \<longleftrightarrow> Suc j = length xs" if "j < length xs" for j
    using that nth_eq_iff_index_eq [OF d, of j "length xs - 1"] unfolding last by auto
  have steps: "q_next m (xs ! i) = xs ! Suc i" "q_next m (xs ! (2 * i)) = xs ! Suc (2 * i)"
    using ring_nth [OF assms(1)] less.prems by simp_all
  show ?case
  proof (cases "Suc (Suc (2 * i)) = length xs")
    case True
    then have "length xs div 2 = Suc i" by linarith
    then show ?thesis using True steps is_last [of "Suc (2 * i)"] by (subst middle_loop.simps) simp
  next
    case False
    then have further: "q_next m (xs ! Suc (2 * i)) = xs ! (2 * Suc i)" "2 * Suc i < length xs"
      using ring_nth [OF assms(1), of "Suc (2 * i)"] less.prems by simp_all
    show ?thesis
    proof (cases "Suc (2 * Suc i) = length xs")
      case True
      then have "length xs div 2 = Suc i" by presburger
      then show ?thesis using True False steps further is_last [of "Suc (2 * i)"] is_last [of "2 * Suc i"]
        by (subst middle_loop.simps) simp
    next
      case more: False
      have "middle_loop m q (xs ! Suc i) (xs ! (2 * Suc i)) = Some (xs ! (length xs div 2))"
        using less.hyps [of "Suc i"] more further(2) less.prems by simp
      then show ?thesis using more False steps further is_last [of "Suc (2 * i)"] is_last [of "2 * Suc i"]
        by (subst middle_loop.simps) simp
    qed
  qed
qed

lemma middle: "ring_of m q xs \<Longrightarrow> xs \<noteq> [] \<Longrightarrow> ngx_queue_middle m q = Some (xs ! (length xs div 2))"
proof -
  assume ring_of: "ring_of m q xs" and ne: "xs \<noteq> []"
  have head: "q_next m q = xs ! 0" and last: "q_prev m q = xs ! (length xs - 1)"
    using ring_head [OF ring_of] ring_last [OF ring_of] ne by (cases xs rule: rev_cases; auto simp: hd_conv_nth nth_append)+
  have d: "distinct xs" using ring_of by (simp add: ring_of_def)
  show ?thesis
  proof (cases "length xs = 1")
    case True
    then show ?thesis using head last by (simp add: ngx_queue_middle_def)
  next
    case False
    then have "length xs > 1" using ne by (cases xs) auto
    then show ?thesis using head last middle_loop [OF ring_of, of 0] nth_eq_iff_index_eq [OF d, of 0 "length xs - 1"] ne
      by (simp add: ngx_queue_middle_def Let_def)
  qed
qed

section \<open>The sort\<close>

definition same_outside :: "'p set \<Rightarrow> 'p links \<Rightarrow> 'p links \<Rightarrow> bool" where
  "same_outside ps m' m \<longleftrightarrow> (\<forall>a. a \<notin> ps \<longrightarrow> q_next m' a = q_next m a \<and> q_prev m' a = q_prev m a)"

lemma same_trans: "same_outside ps m2 m1 \<Longrightarrow> same_outside ps m1 m \<Longrightarrow> same_outside ps m2 m"
  by (simp add: same_outside_def)

lemma remove_outside: "ring_of m q (xs @ x # ys) \<Longrightarrow> same_outside (set (q # xs @ ys)) (ngx_queue_remove x m) m"
  using ring_next [of m q xs x ys] ring_prev [of m q xs x ys] hd_in [of ys q] last_in [of q xs]
  by (auto simp: same_outside_def ngx_queue_remove_def Let_def)

lemma insert_outside:
  "ring_of m q (xs @ ys) \<Longrightarrow> same_outside (set (q # xs @ x # ys)) (ngx_queue_insert_head (last (q # xs)) x m) m"
  using ring_cut [of m q xs ys] hd_in [of ys q] last_in [of q xs]
  by (auto simp: same_outside_def ngx_queue_insert_head_def Let_def simp del: last.simps)

text \<open>The elements that move up when \<open>x\<close> is put in its place.\<close>

lemma sort_shift_while:
  "sort_shift cmp x before = takeWhile (\<lambda>y. cmp y x > 0) before @ x # dropWhile (\<lambda>y. cmp y x > 0) before"
  by (induction before) auto

lemma sort_back:
  assumes "ring_of m q (rev (y # before) @ zs)"
  shows "sort_back cmp m q x y = Some (hd (dropWhile (\<lambda>y. cmp y x > 0) (y # before) @ [q]))"
  using assms
proof (induction before arbitrary: y zs)
  case Nil
  then have "q_prev m y = q" using ring_prev [of m q "[]" y zs] by simp
  then show ?case by (subst sort_back.simps) simp
next
  case (Cons b before)
  then have "q_prev m y = b" "b \<noteq> q" using ring_prev [of m q "rev (b # before)" y zs] by (auto simp: ring_of_def)
  moreover have "sort_back cmp m q x b = Some (hd (dropWhile (\<lambda>y. cmp y x > 0) (b # before) @ [q]))"
    using Cons.IH [of b "y # zs"] Cons.prems by simp
  ultimately show ?case by (subst sort_back.simps) (auto simp: Let_def)
qed

lemma sort_round:
  assumes "ring_of m q (rev (y # before) @ x # todo)"
  shows "\<exists>p. sort_back cmp (ngx_queue_remove x m) q x y = Some p
    \<and> ring_of (ngx_queue_insert_head p x (ngx_queue_remove x m)) q (rev (sort_shift cmp x (y # before)) @ todo)
    \<and> same_outside (set (q # rev (y # before) @ x # todo)) (ngx_queue_insert_head p x (ngx_queue_remove x m)) m"
proof -
  define up rest m1 where "up = takeWhile (\<lambda>y. cmp y x > 0) (y # before)"
    and "rest = dropWhile (\<lambda>y. cmp y x > 0) (y # before)" and "m1 = ngx_queue_remove x m"
  have parts: "y # before = up @ rest" by (simp add: up_def rest_def del: takeWhile.simps dropWhile.simps)
  have m1: "ring_of m1 q (rev (y # before) @ todo)" using ring_remove [OF assms] by (simp add: m1_def)
  have x: "x \<notin> set (q # rev (y # before) @ todo)" using assms by (auto simp: ring_of_def)
  have "hd (rest @ [q]) = last (q # rev rest)" by (cases rest) auto
  then have "sort_back cmp m1 q x y = Some (last (q # rev rest))"
    using sort_back [OF m1, of cmp x] unfolding rest_def [symmetric] by simp
  moreover have "ring_of (ngx_queue_insert_head (last (q # rev rest)) x m1) q (rev rest @ x # rev up @ todo)"
    using insert_after [of m1 q "rev rest" "rev up @ todo" x] m1 x unfolding parts by simp
  moreover have "same_outside (set (q # rev (y # before) @ x # todo)) (ngx_queue_insert_head (last (q # rev rest)) x m1) m"
  proof (rule same_trans)
    show "same_outside (set (q # rev (y # before) @ x # todo)) (ngx_queue_insert_head (last (q # rev rest)) x m1) m1"
      using insert_outside [of m1 q "rev rest" "rev up @ todo" x] m1 unfolding parts by (auto simp: same_outside_def)
    show "same_outside (set (q # rev (y # before) @ x # todo)) m1 m"
      using remove_outside [OF assms] unfolding m1_def by (auto simp: same_outside_def)
  qed
  moreover have "sort_shift cmp x (y # before) = up @ x # rest"
    unfolding sort_shift_while up_def rest_def by simp
  ultimately show ?thesis unfolding m1_def [symmetric] by auto
qed

lemma sort_shift_not_empty: "sort_shift cmp x ys \<noteq> []"
  by (cases ys) auto

lemma sort_shift_set: "set (sort_shift cmp x ys) = insert x (set ys)"
  by (induction ys) auto

lemma sort_loop:
  assumes "ring_of m q (rev before @ todo)" "before \<noteq> []"
  shows "\<exists>m'. sort_loop cmp q (hd (todo @ [q])) m = Some m' \<and> ring_of m' q (rev (fold (sort_shift cmp) todo before))
    \<and> same_outside (set (q # before @ todo)) m' m"
  using assms
proof (induction todo arbitrary: m before)
  case Nil
  then show ?case by (subst sort_loop.simps) (simp add: same_outside_def)
next
  case (Cons x todo)
  obtain y ys where before: "before = y # ys" using Cons.prems(2) by (cases before) auto
  have "x \<noteq> q" using Cons.prems(1) by (auto simp: ring_of_def)
  have at: "q_prev m x = y" "q_next m x = hd (todo @ [q])"
    using ring_prev [OF Cons.prems(1)] ring_next [OF Cons.prems(1)] before by simp_all
  obtain p where p: "sort_back cmp (ngx_queue_remove x m) q x y = Some p"
    and ring_of: "ring_of (ngx_queue_insert_head p x (ngx_queue_remove x m)) q (rev (sort_shift cmp x before) @ todo)"
    and same: "same_outside (set (q # before @ x # todo)) (ngx_queue_insert_head p x (ngx_queue_remove x m)) m"
    using sort_round [of m q y ys x todo cmp] Cons.prems(1) unfolding before by auto
  obtain m' where m': "sort_loop cmp q (hd (todo @ [q])) (ngx_queue_insert_head p x (ngx_queue_remove x m)) = Some m'"
      "ring_of m' q (rev (fold (sort_shift cmp) todo (sort_shift cmp x before)))"
      "same_outside (set (q # before @ x # todo)) m' (ngx_queue_insert_head p x (ngx_queue_remove x m))"
    using Cons.IH [OF ring_of sort_shift_not_empty] by (auto simp: sort_shift_set insert_commute)
  have "sort_loop cmp q x m = Some m'" using \<open>x \<noteq> q\<close> at p m'(1) by (subst sort_loop.simps) (simp add: Let_def)
  then show ?case using m'(2) same_trans [OF m'(3) same] by simp
qed

lemma queue_sort:
  assumes "ring_of m q xs"
  shows "\<exists>m'. ngx_queue_sort cmp q m = Some m' \<and> ring_of m' q (ngx_sort cmp xs) \<and> same_outside (set (q # xs)) m' m"
proof (cases xs)
  case Nil
  then show ?thesis using ring_head [OF assms] ring_last [OF assms] assms
    by (simp add: ngx_queue_sort_def ngx_sort_def same_outside_def)
next
  case (Cons x todo)
  have head: "q_next m q = x" using ring_head [OF assms] Cons by simp
  have x: "q_next m x = hd (todo @ [q])" using ring_next [of m q "[]" x todo] assms Cons by simp
  show ?thesis
  proof (cases "todo = []")
    case True
    then show ?thesis using head ring_last [OF assms] assms Cons
      by (simp add: ngx_queue_sort_def ngx_sort_def same_outside_def)
  next
    case False
    then have "x \<noteq> q_prev m q" using assms ring_last [OF assms] Cons by (auto simp: ring_of_def)
    then show ?thesis using sort_loop [of m q "[x]" todo cmp] assms Cons head x
      by (simp add: ngx_queue_sort_def ngx_sort_def Let_def)
  qed
qed

section \<open>Properties\<close>

text \<open>C23: \<^verbatim>\<open>ngx_queue_sort\<close> sorts in place.  On a well-linked queue it comes to an end; afterwards the queue is again
  well linked in both directions, has exactly the elements it had, in the stable order of their keys, and no link outside of
  it has changed.\<close>

theorem queue_sort_stable:
  assumes "ring_of m q xs" "\<forall>a \<in> set xs. \<forall>b \<in> set xs. cmp a b > 0 \<longleftrightarrow> (key b :: 'k::linorder) < key a"
  shows "\<exists>m'. ngx_queue_sort cmp q m = Some m' \<and> ring_of m' q (sort_key key xs)
    \<and> (\<forall>a. a \<notin> set (q # xs) \<longrightarrow> q_next m' a = q_next m a \<and> q_prev m' a = q_prev m a)"
proof -
  have "comparison (set xs) cmp key" using assms(2) by (intro comparison.intro) blast
  then have "ngx_sort cmp xs = sort_key key xs" by (rule comparison.sort) simp
  then show ?thesis using queue_sort [OF assms(1), of cmp] unfolding same_outside_def by simp
qed

text \<open>Three elements on a ring.\<close>

definition three_links :: "nat links" where
  "three_links = ngx_queue_insert_tail 0 3 (ngx_queue_insert_tail 0 1 (ngx_queue_insert_tail 0 2
     (ngx_queue_init 0 \<lparr>q_prev = (\<lambda>p. p), q_next = (\<lambda>p. p)\<rparr>)))"

lemma queue_sort_stable_witness:
  "\<exists>m'. ngx_queue_sort (\<lambda>a b. int a - int b) 0 three_links = Some m' \<and> ring_of m' 0 [1, 2, 3] \<and> q_next m' 7 = 7"
proof -
  have "ring_of three_links 0 [2, 1, 3]" unfolding three_links_def
    using ring_insert_tail [OF ring_insert_tail [OF ring_insert_tail [OF ring_init]], of "2 :: nat" 0 1 3 "\<lparr>q_prev = (\<lambda>p. p), q_next = (\<lambda>p. p)\<rparr>"]
    by simp
  then show ?thesis
    using queue_sort_stable [of three_links 0 "[2, 1, 3]" "\<lambda>a b. int a - int b" int]
    by (auto simp: three_links_def ngx_queue_init_def ngx_queue_insert_tail_def Let_def)
qed

end
