(* ===== verification/Ngx_Http_Location.thy ===== *)
theory Ngx_Http_Location
  imports Ngx_Queue "HOL-Library.Product_Lexorder" "HOL-Library.Sublist"
begin

text \<open>
  The locations of a server, \<^verbatim>\<open>http/ngx_http.c\<close> and \<^verbatim>\<open>http/ngx_http_core_module.c\<close>: how the queue of the
  locations of a block is sorted, joined and made into a tree, and how the location of a request is found there.  A
  queue is the list of its elements here, which \<open>Ngx_Queue\<close> relates to the links.
\<close>

section \<open>Locations\<close>

text \<open>The fields of \<^verbatim>\<open>ngx_http_core_loc_conf_t\<close>; a regular expression is a number, and what it matches is a parameter.\<close>

record loc_attr =
  la_name :: ngx_str
  la_exact_match :: bool
  la_noregex :: bool
  la_named :: bool
  la_noname :: bool
  la_auto_redirect :: bool
  la_regex :: "nat option"

text \<open>An element of the queue; \<open>'l\<close> is what \<^verbatim>\<open>exact\<close> and \<^verbatim>\<open>inclusive\<close> point to.\<close>

datatype 'l lq = Lq (lq_name: ngx_str) (lq_exact: "'l option") (lq_inclusive: "'l option") (lq_list: "'l lq list")

datatype 'l node =
    Null
  | Node (n_left: "'l node") (n_right: "'l node") (n_tree: "'l node") (n_exact: "'l option") (n_inclusive: "'l option")
      (n_len: nat) (n_auto_redirect: bool) (n_name: ngx_str)

definition lq_conf :: "'l lq \<Rightarrow> 'l" where
  "lq_conf q = (case lq_exact q of Some l \<Rightarrow> l | None \<Rightarrow> the (lq_inclusive q))"

section \<open>Building the tree\<close>

definition ngx_http_add_location :: "('l \<Rightarrow> loc_attr) \<Rightarrow> 'l \<Rightarrow> 'l lq" where
  "ngx_http_add_location attr l =
     (let a = attr l in
      if la_exact_match a \<or> la_regex a \<noteq> None \<or> la_named a \<or> la_noname a then Lq (la_name a) (Some l) None []
      else Lq (la_name a) None (Some l) [])"

fun ngx_strcmp :: "ngx_str \<Rightarrow> ngx_str \<Rightarrow> int" where
  "ngx_strcmp [] [] = 0"
| "ngx_strcmp (c # s1) [] = difference c 0"
| "ngx_strcmp [] (c # s2) = difference 0 c"
| "ngx_strcmp (c # s1) (d # s2) = (if c = d then (if c = 0 then 0 else ngx_strcmp s1 s2) else difference c d)"

definition ngx_http_cmp_locations :: "('l \<Rightarrow> loc_attr) \<Rightarrow> 'l lq \<Rightarrow> 'l lq \<Rightarrow> int" where
  "ngx_http_cmp_locations attr one two =
     (let a = attr (lq_conf one); b = attr (lq_conf two) in
      if la_noname a \<and> \<not> la_noname b then 1
      else if \<not> la_noname a \<and> la_noname b then - 1
      else if la_noname a \<or> la_noname b then 0
      else if la_named a \<and> \<not> la_named b then 1
      else if \<not> la_named a \<and> la_named b then - 1
      else if la_named a \<and> la_named b then ngx_strcmp (la_name a) (la_name b)
      else if la_regex a \<noteq> None \<and> la_regex b = None then 1
      else if la_regex a = None \<and> la_regex b \<noteq> None then - 1
      else if la_regex a \<noteq> None \<or> la_regex b \<noteq> None then 0
      else
        let rc = ngx_filename_cmp (la_name a) (la_name b) (min (length (la_name a)) (length (la_name b)) + 1) in
        if rc = 0 \<and> \<not> la_exact_match a \<and> la_exact_match b then 1 else rc)"

text \<open>
  The loop over the sorted queue: where it ends, and where the regular expressions and the named locations begin.  Then the
  tails are split off.
\<close>

fun init_loop :: "('l \<Rightarrow> loc_attr) \<Rightarrow> 'l lq list \<Rightarrow> nat \<Rightarrow> nat option \<Rightarrow> nat option \<Rightarrow> nat \<times> nat option \<times> nat option" where
  "init_loop attr [] i regex named = (i, regex, named)"
| "init_loop attr (q # qs) i regex named =
     (let a = attr (lq_conf q) in
      if la_regex a \<noteq> None then init_loop attr qs (i + 1) (if regex = None then Some i else regex) named
      else if la_named a then init_loop attr qs (i + 1) regex (if named = None then Some i else named)
      else if la_noname a then (i, regex, named)
      else init_loop attr qs (i + 1) regex named)"

definition split_at :: "nat option \<Rightarrow> 'a list \<Rightarrow> 'a list \<times> 'a list" where
  "split_at q xs = (case q of None \<Rightarrow> (xs, []) | Some i \<Rightarrow> (take i xs, drop i xs))"

definition ngx_http_init_locations :: "('l \<Rightarrow> loc_attr) \<Rightarrow> 'l lq list \<Rightarrow> 'l lq list \<times> 'l lq list \<times> 'l lq list" where
  "ngx_http_init_locations attr locations =
     (let locations = ngx_sort (ngx_http_cmp_locations attr) locations in
      case init_loop attr locations 0 None None of
        (i, regex, named) \<Rightarrow>
          let locations = take i locations;
              (locations, named_locations) = split_at named locations;
              (locations, regex_locations) = split_at regex locations in
          (locations, regex_locations, named_locations))"

text \<open>\<open>None\<close> is a duplicate location.\<close>

fun ngx_http_join_exact_locations :: "'l lq list \<Rightarrow> 'l lq list option" where
  "ngx_http_join_exact_locations (lq # lx # rest) =
     (if length (lq_name lq) = length (lq_name lx)
         \<and> ngx_filename_cmp (lq_name lq) (lq_name lx) (length (lq_name lx)) = 0
      then
        if lq_exact lq \<noteq> None \<and> lq_exact lx \<noteq> None \<or> lq_inclusive lq \<noteq> None \<and> lq_inclusive lx \<noteq> None then None
        else ngx_http_join_exact_locations (Lq (lq_name lq) (lq_exact lq) (lq_inclusive lx) (lq_list lq) # rest)
      else map_option ((#) lq) (ngx_http_join_exact_locations (lx # rest)))"
| "ngx_http_join_exact_locations locations = Some locations"

definition below :: "ngx_str \<Rightarrow> 'l lq \<Rightarrow> bool" where
  "below name lx \<longleftrightarrow> length name \<le> length (lq_name lx) \<and> ngx_filename_cmp name (lq_name lx) (length name) = 0"

lemma size_lq [simp]: "0 < size (lq :: 'l lq)"
  by (cases lq) simp

text \<open>The elements from \<open>q\<close> on; those whose names begin with that of \<open>q\<close> are moved to its list.\<close>

function ngx_http_create_locations_list :: "'l lq list \<Rightarrow> 'l lq list" where
  "ngx_http_create_locations_list [] = []"
| "ngx_http_create_locations_list (lq # rest) =
     (if rest = [] then [lq]
      else if lq_inclusive lq = None then lq # ngx_http_create_locations_list rest
      else
        let inside = takeWhile (below (lq_name lq)) rest; outside = dropWhile (below (lq_name lq)) rest in
        if inside = [] then lq # ngx_http_create_locations_list rest
        else
          let lq' = Lq (lq_name lq) (lq_exact lq) (lq_inclusive lq)
                (ngx_http_create_locations_list (lq_list lq @ inside)) in
          if outside = [] then [lq'] else lq' # ngx_http_create_locations_list outside)"
  by pat_completeness auto
termination
proof (relation "measure (size_list size)")
  show "wf (measure (size_list size :: 'l lq list \<Rightarrow> nat))" by simp
next
  fix lq :: "'l lq" and rest inside outside :: "'l lq list"
  assume "inside = takeWhile (below (lq_name lq)) rest" "outside = dropWhile (below (lq_name lq)) rest"
  then have size: "size_list size inside + size_list size outside = size_list size rest"
    by (metis size_list_append takeWhile_dropWhile_id)
  have "size_list size (lq_list lq) < size lq" by (cases lq) simp
  then show "(lq_list lq @ inside, lq # rest) \<in> measure (size_list size)" using size by simp
  have "0 < size lq" by (cases lq) simp
  then show "(outside, lq # rest) \<in> measure (size_list size)" using size by simp
qed simp_all

text \<open>A list that is not empty is at its middle cut into the trees on the left and on the right.\<close>

definition auto_redirect :: "('l \<Rightarrow> loc_attr) \<Rightarrow> 'l lq \<Rightarrow> bool" where
  "auto_redirect attr lq \<longleftrightarrow> (case lq_exact lq of Some l \<Rightarrow> la_auto_redirect (attr l) | None \<Rightarrow> False)
     \<or> (case lq_inclusive lq of Some l \<Rightarrow> la_auto_redirect (attr l) | None \<Rightarrow> False)"

function ngx_http_create_locations_tree :: "('l \<Rightarrow> loc_attr) \<Rightarrow> 'l lq list \<Rightarrow> nat \<Rightarrow> 'l node" where
  "ngx_http_create_locations_tree attr locations pre =
     (if locations = [] then Null
      else
        let m = length locations div 2; lq = locations ! m; len = length (lq_name lq) - pre;
            left = take m locations; right = drop (m + 1) locations in
        Node
          (if left = [] then Null else ngx_http_create_locations_tree attr left pre)
          (if left = [] \<or> right = [] then Null else ngx_http_create_locations_tree attr right pre)
          (if lq_list lq = [] then Null else ngx_http_create_locations_tree attr (lq_list lq) (pre + len))
          (lq_exact lq) (lq_inclusive lq) (len mod 2 ^ 16) (auto_redirect attr lq) (drop pre (lq_name lq)))"
  by pat_completeness auto
termination
proof (relation "measure (\<lambda>(attr, locations, pre). size_list size locations)")
  show "wf (measure (\<lambda>(attr :: 'l \<Rightarrow> loc_attr, locations :: 'l lq list, pre :: nat). size_list size locations))" by simp
next
  fix attr :: "'l \<Rightarrow> loc_attr" and locations left right :: "'l lq list" and pre m len :: nat and lq :: "'l lq"
  assume ne: "locations \<noteq> []" and m: "m = length locations div 2" and lq: "lq = locations ! m"
    and left: "left = take m locations" and right: "right = drop (m + 1) locations"
  have "locations = left @ lq # right" using ne m unfolding lq left right by (simp add: id_take_nth_drop)
  then have size: "size_list size locations = size_list size left + size lq + size_list size right + 1" by simp
  show "((attr, left, pre), attr, locations, pre) \<in> measure (\<lambda>(attr, locations, pre). size_list size locations)"
    "((attr, right, pre), attr, locations, pre) \<in> measure (\<lambda>(attr, locations, pre). size_list size locations)"
    using size by simp_all
  have "size_list size (lq_list lq) < size lq" by (cases lq) simp
  then show "((attr, lq_list lq, pre + len), attr, locations, pre) \<in> measure (\<lambda>(attr, locations, pre). size_list size locations)"
    using size by simp
qed

declare ngx_http_create_locations_tree.simps [simp del]

definition ngx_http_init_static_location_trees :: "('l \<Rightarrow> loc_attr) \<Rightarrow> 'l lq list \<Rightarrow> 'l node option" where
  "ngx_http_init_static_location_trees attr locations =
     (if locations = [] then Some Null
      else map_option (\<lambda>qs. ngx_http_create_locations_tree attr (ngx_http_create_locations_list qs) 0)
             (ngx_http_join_exact_locations locations))"

section \<open>Finding a location\<close>

text \<open>The loop, with \<^verbatim>\<open>rv\<close> and \<^verbatim>\<open>r->loc_conf\<close>.\<close>

fun ngx_http_core_find_static_location :: "ngx_str \<Rightarrow> 'l node \<Rightarrow> ngx_rc \<Rightarrow> 'l option \<Rightarrow> ngx_rc \<times> 'l option" where
  "ngx_http_core_find_static_location uri Null rv loc = (rv, loc)"
| "ngx_http_core_find_static_location uri (Node left right tree exact inclusive len auto name) rv loc =
     (let n = min (length uri) len; rc = ngx_filename_cmp uri name n in
      if rc \<noteq> 0 then ngx_http_core_find_static_location uri (if rc < 0 then left else right) rv loc
      else if length uri > len then
        (case inclusive of
           Some l \<Rightarrow> ngx_http_core_find_static_location (drop n uri) tree NGX_AGAIN (Some l)
         | None \<Rightarrow> ngx_http_core_find_static_location uri right rv loc)
      else if length uri = len then
        (case exact of Some l \<Rightarrow> (NGX_OK, Some l) | None \<Rightarrow> (NGX_AGAIN, inclusive))
      else if length uri + 1 = len \<and> auto then
        ngx_http_core_find_static_location uri left NGX_DONE (if exact \<noteq> None then exact else inclusive)
      else ngx_http_core_find_static_location uri left rv loc)"

text \<open>A prepared location: its tree and its regular expressions, in their order.\<close>

datatype loc = Loc (l_attr: loc_attr) (l_static: "loc node") (l_regex: "loc list")

datatype regex_result = Matches | No_match | Regex_error

datatype 'l tested = Found 'l | Not_found | Test_error

fun test_regexes :: "(nat \<Rightarrow> ngx_str \<Rightarrow> regex_result) \<Rightarrow> ('l \<Rightarrow> loc_attr) \<Rightarrow> ngx_str \<Rightarrow> 'l list \<Rightarrow> 'l tested" where
  "test_regexes exec attr uri [] = Not_found"
| "test_regexes exec attr uri (l # ls) =
     (case exec (the (la_regex (attr l))) uri of
        Matches \<Rightarrow> Found l
      | No_match \<Rightarrow> test_regexes exec attr uri ls
      | Regex_error \<Rightarrow> Test_error)"

lemma tested_in: "test_regexes exec attr uri ls = Found l \<Longrightarrow> l \<in> set ls"
  by (induction ls) (auto split: regex_result.splits)

lemma static_in: "ngx_http_core_find_static_location uri t rv loc = (rc, Some l) \<Longrightarrow> l \<in> set_node t \<or> loc = Some l"
proof (induction uri t rv loc rule: ngx_http_core_find_static_location.induct)
  case (2 uri left right tree exact inclusive len auto name rv loc)
  show ?case
    using "2.prems" "2.IH"
    by (auto simp: Let_def split: if_splits option.splits)
qed simp

lemma node_size: "l \<in> set_node t \<Longrightarrow> size l < size_node size t"
  by (induction t) auto

function ngx_http_core_find_location :: "(nat \<Rightarrow> ngx_str \<Rightarrow> regex_result) \<Rightarrow> ngx_str \<Rightarrow> loc \<Rightarrow> ngx_rc \<times> loc" where
  "ngx_http_core_find_location exec uri pclcf =
     (case ngx_http_core_find_static_location uri (l_static pclcf) NGX_DECLINED None of
        (rc, found) \<Rightarrow>
          (case (case found of
                   Some l \<Rightarrow>
                     if rc = NGX_AGAIN then (ngx_http_core_find_location exec uri l, la_noregex (l_attr l))
                     else ((rc, l), False)
                 | None \<Rightarrow> ((rc, pclcf), False)) of
             ((rc, current), noregex) \<Rightarrow>
               if rc = NGX_OK \<or> rc = NGX_DONE then (rc, current)
               else if noregex then (rc, current)
               else
                 (case test_regexes exec l_attr uri (l_regex pclcf) of
                    Found l \<Rightarrow>
                      (case ngx_http_core_find_location exec uri l of
                         (rc, current) \<Rightarrow> (if rc = NGX_ERROR then rc else NGX_OK, current))
                  | Not_found \<Rightarrow> (rc, current)
                  | Test_error \<Rightarrow> (NGX_ERROR, current))))"
  by pat_completeness auto
termination
proof (relation "measure (\<lambda>(exec, uri, pclcf). size pclcf)")
  fix exec :: "nat \<Rightarrow> ngx_str \<Rightarrow> regex_result" and uri pclcf rc found l
  assume "(rc, found) = ngx_http_core_find_static_location uri (l_static pclcf) NGX_DECLINED None" "found = Some l"
  then have "l \<in> set_node (l_static pclcf)" using static_in [of uri "l_static pclcf" NGX_DECLINED None rc l] by simp
  then have "size l < size_node size (l_static pclcf)" by (rule node_size)
  then show "((exec, uri, l), exec, uri, pclcf) \<in> measure (\<lambda>(exec, uri, pclcf). size pclcf)" by (cases pclcf) simp
next
  fix exec :: "nat \<Rightarrow> ngx_str \<Rightarrow> regex_result" and uri pclcf l
  assume "test_regexes exec l_attr uri (l_regex pclcf) = Found l"
  then have "l \<in> set (l_regex pclcf)" by (rule tested_in)
  then have "size l \<le> size_list size (l_regex pclcf)" by (simp add: size_list_estimation')
  then show "((exec, uri, l), exec, uri, pclcf) \<in> measure (\<lambda>(exec, uri, pclcf). size pclcf)" by (cases pclcf) simp
qed simp

declare ngx_http_core_find_location.simps [simp del]

section \<open>The configuration\<close>

text \<open>A location with the locations inside it, in the order of the file.\<close>

datatype conf = Conf (c_attr: loc_attr) (c_locations: "conf list")

definition is_static :: "loc_attr \<Rightarrow> bool" where
  "is_static a \<longleftrightarrow> \<not> la_noname a \<and> \<not> la_named a \<and> la_regex a = None"

text \<open>
  \<^verbatim>\<open>ngx_http_init_locations\<close> is called for all locations, \<^verbatim>\<open>ngx_http_init_static_location_trees\<close> then for those which are
  still in the queues: \<open>reached\<close>.
\<close>

fun prepare :: "bool \<Rightarrow> conf \<Rightarrow> loc option" where
  "prepare reached (Conf a subs) =
     (case those (map (\<lambda>c. prepare (reached \<and> is_static (c_attr c)) c) subs) of
        None \<Rightarrow> None
      | Some ls \<Rightarrow>
          (case ngx_http_init_locations l_attr (map (ngx_http_add_location l_attr) ls) of
             (statics, regexes, named) \<Rightarrow>
               map_option (\<lambda>t. Loc a t (map lq_conf regexes))
                 (if reached then ngx_http_init_static_location_trees l_attr statics else Some Null)))"

end
