(* ===== verification/Ngx_Http_Find.thy ===== *)
theory Ngx_Http_Find
  imports Ngx_Http_Location
begin

text \<open>
  Which location a request gets: the search in the tree of \<open>Ngx_Http_Location\<close> is the choice that the documentation of
  the server describes.
\<close>

section \<open>The order of names\<close>

lemma path_char_eq: "c \<noteq> 0 \<Longrightarrow> d \<noteq> 0 \<Longrightarrow> path_char c = path_char d \<longleftrightarrow> c = d"
  by (auto simp: path_char_def)

lemma path_char_slash [simp]: "path_char 47 = 0"
  by (simp add: path_char_def)

lemma difference_zero_iff: "difference a b = 0 \<longleftrightarrow> a = b"
  by (simp add: difference_def word_uint_eq_iff)

lemma difference_neg: "difference a b < 0 \<longleftrightarrow> a < b"
  by (simp add: difference_def word_less_def)

lemmas differences = difference_zero_iff difference_neg difference_pos zero_least

lemma filename_zero:
  "0 \<notin> set a \<Longrightarrow> 0 \<notin> set b \<Longrightarrow> ngx_filename_cmp a b n = 0 \<longleftrightarrow> take n a = take n b"
proof (induction a b n rule: ngx_filename_cmp.induct)
  case (2 s1 s2 n)
  show ?case
  proof (cases s1; cases s2)
    fix c s d t
    assume s: "s1 = c # s" "s2 = d # t"
    then have "c \<noteq> 0" "d \<noteq> 0" using "2.prems" by auto
    then show ?thesis using "2.IH" "2.prems" s path_char_eq [of c d] by (auto simp: Let_def differences)
  qed (use "2.prems" in \<open>auto simp: differences\<close>)
qed simp

lemma filename_neg:
  "0 \<notin> set a \<Longrightarrow> 0 \<notin> set b \<Longrightarrow> ngx_filename_cmp a b n < 0 \<longleftrightarrow> path_key (take n a) < path_key (take n b)"
proof (induction a b n rule: ngx_filename_cmp.induct)
  case (2 s1 s2 n)
  show ?case
  proof (cases s1; cases s2)
    fix c s d t
    assume s: "s1 = c # s" "s2 = d # t"
    then have "c \<noteq> 0" "d \<noteq> 0" using "2.prems" by auto
    then show ?thesis using "2.IH" "2.prems" s path_char_eq [of c d]
      by (auto simp: Let_def differences path_key_def)
  next
    fix d t assume "s1 = []" "s2 = d # t"
    then show ?thesis using "2.prems" by (auto simp: differences path_key_def)
  qed (use "2.prems" in \<open>auto simp: differences path_key_def\<close>)
qed (simp add: path_key_def)

text \<open>Two names that differ at a character.\<close>

definition diverges :: "ngx_str \<Rightarrow> ngx_str \<Rightarrow> bool" where
  "diverges a b \<longleftrightarrow> (\<exists>c x s y t. a = c @ x # s \<and> b = c @ y # t \<and> path_char x < path_char y)"

lemma key_less_append [simp]: "path_key (p @ a) < path_key (p @ b) \<longleftrightarrow> path_key a < path_key b"
  by (induction p) (auto simp: path_key_def)

lemma key_prefix: "prefix a b \<Longrightarrow> path_key a \<le> path_key b"
proof -
  have "(xs :: ngx_str) \<le> xs @ ys" for xs ys
    by (induction xs) auto
  then show "prefix a b \<Longrightarrow> path_key a \<le> path_key b" by (auto simp: prefix_def path_key_def)
qed

lemma key_strict_prefix: "strict_prefix a b \<Longrightarrow> path_key a < path_key b"
proof -
  have "(xs :: ngx_str) < xs @ y # ys" for xs y ys
    by (induction xs) auto
  moreover assume "strict_prefix a b"
  then obtain y ys where "b = a @ y # ys" by (auto elim: strict_prefixE')
  ultimately show ?thesis by (simp add: path_key_def)
qed

lemma diverges_less: "diverges a b \<Longrightarrow> path_key a < path_key b"
proof -
  assume "diverges a b"
  then obtain c x s y t where "a = c @ x # s" "b = c @ y # t" "path_char x < path_char y" unfolding diverges_def by blast
  then show ?thesis by (simp add: path_key_def [of "x # s"] path_key_def [of "y # t"])
qed

lemma same_length_diverges:
  "length a = length b \<Longrightarrow> path_key a < path_key b \<Longrightarrow> 0 \<notin> set a \<Longrightarrow> 0 \<notin> set b \<Longrightarrow> diverges a b"
proof (induction a b rule: list_induct2)
  case (Cons x a y b)
  show ?case
  proof (cases "x = y")
    case True
    then have "diverges a b" using Cons by (simp add: path_key_def)
    then obtain c u s v t where "a = c @ u # s" "b = c @ v # t" "path_char u < path_char v" unfolding diverges_def by blast
    then show ?thesis using True unfolding diverges_def by (metis append_Cons)
  next
    case False
    then have "path_char x \<noteq> path_char y" using path_char_eq [of x y] Cons.prems by simp
    then have "path_char x < path_char y" using Cons.prems(1) by (simp add: path_key_def)
    then show ?thesis unfolding diverges_def by (metis append_Nil)
  qed
qed (simp add: path_key_def)

lemma diverges_extend: "diverges (take n a) (take n b) \<Longrightarrow> diverges (p @ a) (p @ b)"
proof -
  assume "diverges (take n a) (take n b)"
  then obtain c x s y t where *: "take n a = c @ x # s" "take n b = c @ y # t" "path_char x < path_char y"
    unfolding diverges_def by blast
  have "a = c @ x # s @ drop n a" "b = c @ y # t @ drop n b"
    using append_take_drop_id [of n a] append_take_drop_id [of n b] unfolding *(1,2) by simp_all
  then have "p @ a = (p @ c) @ x # s @ drop n a" "p @ b = (p @ c) @ y # t @ drop n b" by simp_all
  then show ?thesis using *(3) unfolding diverges_def by blast
qed

lemma prefix_split: "prefix y (c @ x # s) \<Longrightarrow> prefix y c \<or> prefix (c @ [x]) y"
  by (auto simp: prefix_append prefix_Cons)

lemma diverges_prefix_less: "diverges a b \<Longrightarrow> prefix y (a @ s) \<Longrightarrow> path_key y < path_key b"
proof -
  assume d: "diverges a b" and y: "prefix y (a @ s)"
  obtain c x u z t where *: "a = c @ x # u" "b = c @ z # t" "path_char x < path_char z" using d unfolding diverges_def by blast
  from y have "prefix y c \<or> prefix (c @ [x]) y" using prefix_split [of y c x "u @ s"] * by simp
  then show ?thesis
  proof
    assume "prefix y c"
    then have "strict_prefix y b" unfolding * by (auto simp: strict_prefix_def prefix_def)
    then show ?thesis by (rule key_strict_prefix)
  next
    assume "prefix (c @ [x]) y"
    then have "diverges y b" using * unfolding diverges_def prefix_def by (metis append.assoc append_Cons append_Nil)
    then show ?thesis by (rule diverges_less)
  qed
qed

text \<open>A prefix of a greater name that is itself smaller is a prefix of both.\<close>

lemma diverges_smaller:
  assumes "diverges b a" "prefix y (a @ s)" "\<not> path_key b < path_key y"
  shows "prefix y b \<and> length y < length a"
proof -
  obtain c x u z t where *: "b = c @ x # u" "a = c @ z # t" "path_char x < path_char z" using assms(1) unfolding diverges_def by blast
  have "prefix y c \<or> prefix (c @ [z]) y" using prefix_split [of y c z "t @ s"] assms(2) * by simp
  moreover have "\<not> prefix (c @ [z]) y"
  proof
    assume "prefix (c @ [z]) y"
    then have "diverges b y" using * unfolding diverges_def prefix_def by (metis append.assoc append_Cons append_Nil)
    then show False using diverges_less assms(3) by blast
  qed
  ultimately have "prefix y c" by blast
  then show ?thesis using * by (auto simp: prefix_def)
qed

lemma key_between: "path_key a \<le> path_key b \<Longrightarrow> path_key b \<le> path_key c \<Longrightarrow> prefix a c \<Longrightarrow> 0 \<notin> set a \<Longrightarrow> 0 \<notin> set b \<Longrightarrow> prefix a b"
proof (induction a arbitrary: b c)
  case (Cons x a)
  obtain c' where c: "c = x # c'" "prefix a c'" using Cons.prems(3) by (cases c) auto
  obtain y b' where b: "b = y # b'" using Cons.prems(1) by (cases b) (auto simp: path_key_def)
  have "path_char y = path_char x" using Cons.prems(1,2) b c by (auto simp: path_key_def)
  then have "y = x" using path_char_eq Cons.prems(4,5) b by auto
  then show ?case using Cons b c by (auto simp: path_key_def)
qed simp

lemma key_inj: "path_key a = path_key b \<Longrightarrow> 0 \<notin> set a \<Longrightarrow> 0 \<notin> set b \<Longrightarrow> a = b"
proof (induction a arbitrary: b)
  case (Cons x a)
  then show ?case by (cases b) (auto simp: path_key_def path_char_eq)
qed (simp add: path_key_def)

lemma key_slash: "prefix uri n \<Longrightarrow> n \<noteq> uri \<Longrightarrow> path_key (uri @ [chr CHR ''/'']) \<le> path_key n"
proof -
  assume "prefix uri n" "n \<noteq> uri"
  then have "strict_prefix uri n" by auto
  then obtain c s where "n = uri @ c # s" by (auto elim: strict_prefixE')
  then have "path_key n = path_key uri @ path_char c # path_key s" by (simp add: path_key_def)
  moreover have "path_key (uri @ [chr CHR ''/'']) = path_key uri @ [0]" by (simp add: path_key_def)
  moreover have "xs @ [0] \<le> xs @ (d :: u8) # ys" for xs d ys by (induction xs) (auto simp: zero_least)
  ultimately show ?thesis by simp
qed

section \<open>What the answer is\<close>

text \<open>
  The names of a block with the locations that are \<open>exact\<close> and \<open>inclusive\<close>.  \<open>answer\<close> says what the search has to find
  among them, when it otherwise keeps \<open>d\<close>: the exact location with the name of the request, the inclusive one with that name, a
  redirect to the name with a slash, or the inclusive one with the longest name that begins the request's.
\<close>

type_synonym 'l loc_entry = "ngx_str \<times> 'l option \<times> 'l option"

abbreviation slash :: u8 where
  "slash \<equiv> chr CHR ''/''"

definition auto_of :: "('l \<Rightarrow> loc_attr) \<Rightarrow> 'l option \<Rightarrow> 'l option \<Rightarrow> bool" where
  "auto_of attr exact inclusive \<longleftrightarrow> auto_redirect attr (Lq [] exact inclusive [])"

definition relevant :: "('l \<Rightarrow> loc_attr) \<Rightarrow> ngx_str \<Rightarrow> 'l loc_entry \<Rightarrow> bool" where
  "relevant attr uri = (\<lambda>(y, e, i). y = uri \<or> y = uri @ [slash] \<and> auto_of attr e i \<or> i \<noteq> None \<and> prefix y uri)"

inductive answer :: "('l \<Rightarrow> loc_attr) \<Rightarrow> 'l loc_entry set \<Rightarrow> ngx_str \<Rightarrow> ngx_rc \<times> 'l option \<Rightarrow> ngx_rc \<times> 'l option \<Rightarrow> bool"
  for attr E uri d where
  exact: "(uri, Some l, i) \<in> E \<Longrightarrow> answer attr E uri d (NGX_OK, Some l)"
| same: "(uri, None, Some l) \<in> E \<Longrightarrow> answer attr E uri d (NGX_AGAIN, Some l)"
| redirect: "(\<And>y e i. (y, e, i) \<in> E \<Longrightarrow> y \<noteq> uri) \<Longrightarrow> (uri @ [slash], e, i) \<in> E \<Longrightarrow> auto_of attr e i \<Longrightarrow>
    answer attr E uri d (NGX_DONE, if e \<noteq> None then e else i)"
| longest: "(\<And>y e i. (y, e, i) \<in> E \<Longrightarrow> y \<noteq> uri \<and> \<not> (y = uri @ [slash] \<and> auto_of attr e i)) \<Longrightarrow> (y, e, Some l) \<in> E \<Longrightarrow>
    prefix y uri \<Longrightarrow> (\<And>z e i. (z, e, Some i) \<in> E \<Longrightarrow> prefix z uri \<Longrightarrow> length z \<le> length y) \<Longrightarrow>
    answer attr E uri d (NGX_AGAIN, Some l)"
| keep: "(\<And>x. x \<in> E \<Longrightarrow> \<not> relevant attr uri x) \<Longrightarrow> answer attr E uri d d"

lemma answer_same_relevant:
  assumes "answer attr E' uri d res" "E' \<subseteq> E" "\<And>x. x \<in> E \<Longrightarrow> relevant attr uri x \<Longrightarrow> x \<in> E'"
  shows "answer attr E uri d res"
  using assms(1)
proof cases
  case (exact l i)
  have "(uri, Some l, i) \<in> E" using exact(2) assms(2) by blast
  then show ?thesis unfolding exact(1) by (rule answer.exact)
next
  case (same l)
  have "(uri, None, Some l) \<in> E" using same(2) assms(2) by blast
  then show ?thesis unfolding same(1) by (rule answer.same)
next
  case (redirect e i)
  have "y \<noteq> uri" if "(y, e, i) \<in> E" for y e i using redirect(2) [of y e i] assms(3) [OF that] by (auto simp: relevant_def)
  then show ?thesis unfolding redirect(1) using redirect(3,4) assms(2) by (intro answer.redirect) auto
next
  case (longest y e l)
  have "z \<noteq> uri \<and> \<not> (z = uri @ [slash] \<and> auto_of attr e i)" if "(z, e, i) \<in> E" for z e i
  proof (rule ccontr)
    assume *: "\<not> (z \<noteq> uri \<and> \<not> (z = uri @ [slash] \<and> auto_of attr e i))"
    then have "(z, e, i) \<in> E'" by (intro assms(3) [OF that]) (auto simp: relevant_def)
    then show False using longest(2) * by blast
  qed
  moreover have "length z \<le> length y" if "(z, e, Some i) \<in> E" "prefix z uri" for z e i
  proof (rule longest(5) [OF _ that(2)])
    show "(z, e, Some i) \<in> E'" by (rule assms(3) [OF that(1)]) (simp add: relevant_def that(2))
  qed
  moreover have "(y, e, Some l) \<in> E" using longest(3) assms(2) by blast
  ultimately show ?thesis unfolding longest(1) using answer.longest [OF _ _ longest(4), of E attr e l d] by blast
next
  case keep
  then show ?thesis unfolding keep(1) using assms(3) by (intro answer.keep) blast
qed

text \<open>The redirect was seen, and only the name itself may still come.\<close>

lemma answer_redirect:
  assumes "answer attr E' uri (NGX_DONE, if e \<noteq> None then e else i) res" "E' \<subseteq> E"
    and "(uri @ [slash], e, i) \<in> E" "auto_of attr e i"
    and "\<And>x. x \<in> E \<Longrightarrow> relevant attr uri x \<Longrightarrow> x = (uri @ [slash], e, i) \<or> x \<in> E' \<and> fst x = uri"
  shows "answer attr E uri d res"
proof -
  have slash: "(uri @ [slash], e', i') \<in> E \<Longrightarrow> auto_of attr e' i' \<Longrightarrow> e' = e \<and> i' = i" for e' i'
    using assms(5) by (fastforce simp: relevant_def)
  show ?thesis using assms(1)
  proof cases
    case (exact l i)
    have "(uri, Some l, i) \<in> E" using exact(2) assms(2) by blast
    then show ?thesis unfolding exact(1) by (rule answer.exact)
  next
    case (same l)
    have "(uri, None, Some l) \<in> E" using same(2) assms(2) by blast
    then show ?thesis unfolding same(1) by (rule answer.same)
  next
    case (redirect e' i')
    have "y \<noteq> uri" if "(y, e, i) \<in> E" for y e i using redirect(2) [of y e i] assms(5) [OF that] by (auto simp: relevant_def)
    moreover have "e' = e" "i' = i" using slash [of e' i'] redirect(3,4) assms(2) by auto
    ultimately show ?thesis unfolding redirect(1) using assms(3,4) by (intro answer.redirect) auto
  next
    case (longest y e' l)
    have "(y, e', Some l) \<in> E" "relevant attr uri (y, e', Some l)" using longest(3,4) assms(2) by (auto simp: relevant_def)
    then have "y = uri \<or> y = uri @ [slash]" using assms(5) by fastforce
    then show ?thesis using longest(2) [OF longest(3)] longest(4) by auto
  next
    case keep
    have "y \<noteq> uri" if "(y, e, i) \<in> E" for y e i using keep(2) [of "(y, e, i)"] assms(5) [OF that] by (auto simp: relevant_def)
    then show ?thesis unfolding keep(1) using assms(3,4) by (intro answer.redirect) auto
  qed
qed

text \<open>An inclusive location was seen, and the search goes on with longer names.\<close>

lemma answer_deeper:
  assumes "answer attr E' uri (NGX_AGAIN, Some l) res" "E' \<subseteq> E" "(n, e, Some l) \<in> E" "prefix n uri" "n \<noteq> uri"
    and "\<And>y e i. (y, e, i) \<in> E' \<Longrightarrow> prefix n y"
    and "\<And>x. x \<in> E \<Longrightarrow> relevant attr uri x \<Longrightarrow> x = (n, e, Some l) \<or> x \<in> E'"
  shows "answer attr E uri d res"
proof -
  have short: "n \<noteq> uri @ [slash]" using assms(4) by auto
  show ?thesis using assms(1)
  proof cases
    case (exact l i)
    have "(uri, Some l, i) \<in> E" using exact(2) assms(2) by blast
    then show ?thesis unfolding exact(1) by (rule answer.exact)
  next
    case (same l)
    have "(uri, None, Some l) \<in> E" using same(2) assms(2) by blast
    then show ?thesis unfolding same(1) by (rule answer.same)
  next
    case (redirect e' i')
    have "y \<noteq> uri" if "(y, e, i) \<in> E" for y e i
      using redirect(2) [of y e i] assms(5,7) that by (auto simp: relevant_def)
    then show ?thesis unfolding redirect(1) using redirect(3,4) assms(2) by (intro answer.redirect) auto
  next
    case (longest y e' l')
    have "z \<noteq> uri \<and> \<not> (z = uri @ [slash] \<and> auto_of attr e i)" if "(z, e, i) \<in> E" for z e i
      using longest(2) [of z e i] assms(5,7) short that by (auto simp: relevant_def)
    moreover have "length z \<le> length y" if "(z, e, Some i) \<in> E" "prefix z uri" for z e i
    proof -
      have "z = n \<or> (z, e, Some i) \<in> E'" using assms(7) [OF that(1)] that(2) by (auto simp: relevant_def)
      then show ?thesis using longest(5) that(2) prefix_length_le [OF assms(6) [OF longest(3)]] by auto
    qed
    moreover have "(y, e', Some l') \<in> E" using longest(3) assms(2) by blast
    ultimately show ?thesis unfolding longest(1) using answer.longest [OF _ _ longest(4), of E attr e' l' d] by blast
  next
    case keep
    have only: "(y, e', i') = (n, e, Some l)" if "(y, e', i') \<in> E" "relevant attr uri (y, e', i')" for y e' i'
      using assms(7) [OF that] keep(2) that(2) by blast
    show ?thesis unfolding keep(1)
    proof (rule answer.longest [of E uri attr n e l])
      show "y \<noteq> uri \<and> \<not> (y = uri @ [slash] \<and> auto_of attr e i)" if "(y, e, i) \<in> E" for y e i
        using only [OF that] assms(5) short by (auto simp: relevant_def)
      show "length z \<le> length n" if "(z, e, Some i) \<in> E" "prefix z uri" for z e i
        using only [OF that(1)] that(2) by (auto simp: relevant_def)
    qed (use assms(3,4) in auto)
  qed
qed

section \<open>The search in a tree\<close>

text \<open>The names of a tree below \<open>p\<close>, in their order.\<close>

fun tree_flat :: "ngx_str \<Rightarrow> 'l node \<Rightarrow> 'l loc_entry list" where
  "tree_flat p Null = []"
| "tree_flat p (Node left right tree e i len auto name) =
     tree_flat p left @ (p @ name, e, i) # tree_flat (p @ name) tree @ tree_flat p right"

text \<open>No inclusive name begins one of a node further to the right; only an inclusive one has longer names below it.\<close>

fun tree_ok :: "('l \<Rightarrow> loc_attr) \<Rightarrow> ngx_str \<Rightarrow> 'l node \<Rightarrow> bool" where
  "tree_ok attr p Null \<longleftrightarrow> True"
| "tree_ok attr p (Node left right tree e i len auto name) \<longleftrightarrow>
     len = length name \<and> (e \<noteq> None \<or> i \<noteq> None) \<and> auto = auto_of attr e i \<and> (auto \<longrightarrow> name \<noteq> [] \<and> last name = slash)
     \<and> tree_ok attr p left \<and> tree_ok attr p right \<and> tree_ok attr (p @ name) tree \<and> (tree \<noteq> Null \<longrightarrow> i \<noteq> None)
     \<and> (\<forall>(y, e', i') \<in> set (tree_flat p left). i' \<noteq> None \<longrightarrow> \<not> prefix y (p @ name))
     \<and> (i \<noteq> None \<longrightarrow> (\<forall>(y, e', i') \<in> set (tree_flat p right). \<not> prefix (p @ name) y))"

definition names_ok :: "'l loc_entry list \<Rightarrow> bool" where
  "names_ok es \<longleftrightarrow> sorted_wrt (\<lambda>x y. path_key (fst x) < path_key (fst y)) es \<and> (\<forall>(y, e, i) \<in> set es. 0 \<notin> set y)"

lemma tree_flat_prefix: "(y, e, i) \<in> set (tree_flat p t) \<Longrightarrow> prefix p y"
  by (induction p t arbitrary: y e i rule: tree_flat.induct) (auto, meson append_prefixD)

lemma names_ok_append: "names_ok (xs @ ys) \<longleftrightarrow> names_ok xs \<and> names_ok ys \<and> (\<forall>x \<in> set xs. \<forall>y \<in> set ys. path_key (fst x) < path_key (fst y))"
  by (auto simp: names_ok_def sorted_wrt_append)

lemma names_ok_Cons: "names_ok (x # ys) \<longleftrightarrow> 0 \<notin> set (fst x) \<and> names_ok ys \<and> (\<forall>y \<in> set ys. path_key (fst x) < path_key (fst y))"
  by (auto simp: names_ok_def)

lemma relevant_prefix: "relevant attr uri (y, e, i) \<Longrightarrow> prefix y (uri @ [slash])"
  by (auto simp: relevant_def)

text \<open>What lies where of a node \<open>n\<close>, by its place in the order.\<close>

lemma irrelevant_above:
  assumes "diverges uri n" "\<not> path_key y < path_key n"
  shows "\<not> relevant attr uri (y, e, i)"
  using diverges_prefix_less [OF assms(1) relevant_prefix] assms(2) by blast

lemma irrelevant_node:
  assumes "diverges n uri" "prefix n y"
  shows "\<not> relevant attr uri (y, e, i)"
proof
  assume "relevant attr uri (y, e, i)"
  then have "prefix y (uri @ [slash])" by (rule relevant_prefix)
  then have "prefix n (uri @ [slash])" using assms(2) by (rule prefix_order.trans [rotated])
  then have "length n < length uri \<and> prefix n n" using diverges_smaller [OF assms(1), of n "[slash]"] by simp
  then have "prefix n uri" using \<open>prefix n (uri @ [slash])\<close> by (auto simp: prefix_append)
  then show False using key_prefix diverges_less [OF assms(1)] assms(1)
    by (auto simp: diverges_def prefix_def path_key_def)
qed

lemma irrelevant_below:
  assumes "diverges n uri" "path_key y < path_key n" "i \<noteq> None \<longrightarrow> \<not> prefix y n"
  shows "\<not> relevant attr uri (y, e, i)"
proof
  assume r: "relevant attr uri (y, e, i)"
  have "prefix y n \<and> length y < length uri"
    using diverges_smaller [OF assms(1) relevant_prefix [OF r]] assms(2) by (simp add: less_asym)
  then show False using r assms(3) by (auto simp: relevant_def)
qed

lemma relevant_comparable:
  assumes "prefix n (uri @ [slash])" "relevant attr uri (y, e, i)"
  shows "path_key y < path_key n \<Longrightarrow> prefix y n" "path_key n < path_key y \<Longrightarrow> prefix n y"
proof -
  have "prefix n y \<or> prefix y n" by (rule prefix_same_cases [OF assms(1) relevant_prefix [OF assms(2)]])
  then show "path_key y < path_key n \<Longrightarrow> prefix y n" "path_key n < path_key y \<Longrightarrow> prefix n y"
    using key_prefix [of n y] key_prefix [of y n] by auto
qed

lemma node_compare:
  assumes "0 \<notin> set uri" "0 \<notin> set name" "uri = u'" and n: "n = min (length uri) (length name)"
  shows "ngx_filename_cmp uri name n < 0 \<Longrightarrow> diverges (p @ uri) (p @ name)"
    "ngx_filename_cmp uri name n > 0 \<Longrightarrow> diverges (p @ name) (p @ uri)"
    "ngx_filename_cmp uri name n = 0 \<Longrightarrow> take n uri = take n name"
proof -
  have len: "length (take n uri) = length (take n name)" using n by simp
  have z: "0 \<notin> set (take n uri)" "0 \<notin> set (take n name)" using assms(1,2) set_take_subset by fast+
  show eq: "ngx_filename_cmp uri name n = 0 \<Longrightarrow> take n uri = take n name" using filename_zero [OF assms(1,2)] by blast
  show "ngx_filename_cmp uri name n < 0 \<Longrightarrow> diverges (p @ uri) (p @ name)"
    using filename_neg [OF assms(1,2)] same_length_diverges [OF len _ z] diverges_extend by blast
  show "ngx_filename_cmp uri name n > 0 \<Longrightarrow> diverges (p @ name) (p @ uri)"
  proof -
    assume pos: "ngx_filename_cmp uri name n > 0"
    have "take n uri \<noteq> take n name" using pos filename_zero [OF assms(1,2), of n] by auto
    then have "path_key (take n uri) \<noteq> path_key (take n name)" using key_inj z by blast
    moreover have "\<not> path_key (take n uri) < path_key (take n name)" using pos filename_neg [OF assms(1,2), of n] by auto
    ultimately have "path_key (take n name) < path_key (take n uri)" by simp
    then show ?thesis using same_length_diverges [OF len [symmetric]] z diverges_extend by blast
  qed
qed

text \<open>The conditions on a node, with the names in full.\<close>

lemma node_facts:
  assumes "tree_ok attr p (Node left right tree e i len auto name)"
    and "names_ok (tree_flat p (Node left right tree e i len auto name))"
  shows "names_ok (tree_flat p left)" "names_ok (tree_flat (p @ name) tree)" "names_ok (tree_flat p right)"
    "0 \<notin> set name" "len = length name"
    "\<And>y e' i'. (y, e', i') \<in> set (tree_flat p left) \<Longrightarrow> path_key y < path_key (p @ name) \<and> (i' \<noteq> None \<longrightarrow> \<not> prefix y (p @ name))"
    "\<And>y e' i'. (y, e', i') \<in> set (tree_flat (p @ name) tree) \<Longrightarrow> path_key (p @ name) < path_key y \<and> prefix (p @ name) y"
    "\<And>y e' i'. (y, e', i') \<in> set (tree_flat p right) \<Longrightarrow> path_key (p @ name) < path_key y \<and> (i \<noteq> None \<longrightarrow> \<not> prefix (p @ name) y)"
proof -
  have left: "names_ok (tree_flat p left)" and node: "names_ok ((p @ name, e, i) # tree_flat (p @ name) tree @ tree_flat p right)"
    and lower: "\<forall>x \<in> set (tree_flat p left). \<forall>y \<in> set ((p @ name, e, i) # tree_flat (p @ name) tree @ tree_flat p right).
      path_key (fst x) < path_key (fst y)"
    using assms(2) unfolding tree_flat.simps names_ok_append by blast+
  have zero: "0 \<notin> set (p @ name)" and rest: "names_ok (tree_flat (p @ name) tree @ tree_flat p right)"
    and upper: "\<forall>y \<in> set (tree_flat (p @ name) tree @ tree_flat p right). path_key (p @ name) < path_key (fst y)"
    using node unfolding names_ok_Cons fst_conv by blast+
  show "names_ok (tree_flat p left)" by (rule left)
  show "names_ok (tree_flat (p @ name) tree)" "names_ok (tree_flat p right)" using rest unfolding names_ok_append by blast+
  show "0 \<notin> set name" using zero by simp
  show "len = length name" using assms(1) by simp
  show "path_key y < path_key (p @ name) \<and> (i' \<noteq> None \<longrightarrow> \<not> prefix y (p @ name))"
    if "(y, e', i') \<in> set (tree_flat p left)" for y e' i'
    using that assms(1) bspec [OF lower that] by auto
  show "path_key (p @ name) < path_key y \<and> prefix (p @ name) y"
    if "(y, e', i') \<in> set (tree_flat (p @ name) tree)" for y e' i'
    using bspec [OF upper, of "(y, e', i')"] tree_flat_prefix [OF that] that by simp
  show "path_key (p @ name) < path_key y \<and> (i \<noteq> None \<longrightarrow> \<not> prefix (p @ name) y)"
    if "(y, e', i') \<in> set (tree_flat p right)" for y e' i'
    using bspec [OF upper, of "(y, e', i')"] assms(1) that by auto
qed

lemma find_answer:
  assumes "tree_ok attr p t" "names_ok (tree_flat p t)" "0 \<notin> set uri"
  shows "answer attr (set (tree_flat p t)) (p @ uri) (rv, loc) (ngx_http_core_find_static_location uri t rv loc)"
  using assms
proof (induction uri t rv loc arbitrary: p rule: ngx_http_core_find_static_location.induct)
  case (1 uri rv loc)
  then show ?case by (auto intro: answer.keep)
next
  case (2 uri left right tree e i len auto name rv loc)
  let ?N = "p @ name" and ?U = "p @ uri"
  let ?E = "set (tree_flat p (Node left right tree e i len auto name))"
  note facts = node_facts [OF "2.prems"(1,2)]
  note below = facts(6) and inside = facts(7) and above = facts(8)
  define n where "n = min (length uri) len"
  define rc where "rc = ngx_filename_cmp uri name n"
  have n: "n = min (length uri) (length name)" by (simp add: n_def facts(5))
  have ok: "tree_ok attr p left" "tree_ok attr p right" "tree_ok attr ?N tree"
    and some: "e \<noteq> None \<or> i \<noteq> None" and auto: "auto = auto_of attr e i" "auto \<longrightarrow> name \<noteq> [] \<and> last name = slash"
    and leaf: "tree \<noteq> Null \<longrightarrow> i \<noteq> None" using "2.prems"(1) by simp_all
  note compare = node_compare(1,2) [OF "2.prems"(3) facts(4) refl n, of p, folded rc_def]
    and eq = node_compare(3) [OF "2.prems"(3) facts(4) refl n, folded rc_def]
  note step = ngx_http_core_find_static_location.simps(2) [of uri left right tree e i len auto name rv loc,
      unfolded Let_def, folded n_def, folded rc_def]
  have E: "x \<in> ?E \<longleftrightarrow> x \<in> set (tree_flat p left) \<or> x = (?N, e, i) \<or> x \<in> set (tree_flat ?N tree) \<or> x \<in> set (tree_flat p right)" for x
    by auto
  consider "rc < 0" | "rc > 0" | "rc = 0" "length uri > len" "i \<noteq> None" | "rc = 0" "length uri > len" "i = None"
    | "rc = 0" "length uri = len" | "rc = 0" "length uri < len" by linarith
  then show ?case
  proof cases
    case 1
    have only: "x \<in> set (tree_flat p left)" if "x \<in> ?E" "relevant attr ?U x" for x
    proof -
      obtain y e' i' where x: "x = (y, e', i')" by (cases x) auto
      have less: "path_key y < path_key ?N" using irrelevant_above [OF compare(1) [OF 1]] that(2) unfolding x by blast
      then have "\<not> path_key ?N < path_key y" by (rule less_not_sym)
      then have "(y, e', i') \<notin> set (tree_flat ?N tree)" "(y, e', i') \<notin> set (tree_flat p right)" using inside above by blast+
      moreover have "(y, e', i') \<noteq> (?N, e, i)" using less by auto
      ultimately show ?thesis using that(1) unfolding E x by blast
    qed
    have "answer attr (set (tree_flat p left)) ?U (rv, loc) (ngx_http_core_find_static_location uri left rv loc)"
      using "2.IH"(1) [OF n_def rc_def, of p] 1 ok(1) facts(1) "2.prems"(3) by simp
    then have "answer attr ?E ?U (rv, loc) (ngx_http_core_find_static_location uri left rv loc)"
      by (rule answer_same_relevant) (use only in auto)
    then show ?thesis using 1 step by simp
  next
    case 2
    note d = compare(2) [OF 2]
    have only: "x \<in> set (tree_flat p right)" if "x \<in> ?E" "relevant attr ?U x" for x
    proof -
      obtain y e' i' where x: "x = (y, e', i')" by (cases x) auto
      have "\<not> prefix ?N y" using irrelevant_node [OF d] that(2) unfolding x by blast
      moreover have "(y, e', i') \<notin> set (tree_flat p left)"
      proof
        assume l: "(y, e', i') \<in> set (tree_flat p left)"
        have "\<not> relevant attr ?U (y, e', i')" by (rule irrelevant_below [OF d]) (use below [OF l] in auto)
        then show False using that(2) x by simp
      qed
      moreover have "(y, e', i') \<noteq> (?N, e, i)" using calculation(1) by auto
      moreover have "(y, e', i') \<notin> set (tree_flat ?N tree)" using calculation(1) inside by blast
      ultimately show ?thesis using that(1) unfolding E x by blast
    qed
    have "answer attr (set (tree_flat p right)) ?U (rv, loc) (ngx_http_core_find_static_location uri right rv loc)"
      using "2.IH"(1) [OF n_def rc_def, of p] 2 ok(2) facts(3) "2.prems"(3) by simp
    then have "answer attr ?E ?U (rv, loc) (ngx_http_core_find_static_location uri right rv loc)"
      by (rule answer_same_relevant) (use only in auto)
    then show ?thesis using 2 step by simp
  next
    case 3
    obtain l where l: "i = Some l" using 3(3) by blast
    have n': "n = length name" using 3(2) facts(5) n by simp
    have uri: "uri = name @ drop n uri" using eq 3(1) n' append_take_drop_id [of n uri] by simp
    have nd: "drop n uri \<noteq> []" using 3(2) facts(5) n' by simp
    have pre: "prefix ?N ?U" "?N \<noteq> ?U" using uri nd by (metis append.assoc prefixI, metis append.assoc append_self_conv)
    have pre': "prefix ?N (?U @ [slash])" using pre(1) by (rule prefix_prefix)
    have only: "x = (?N, e, Some l) \<or> x \<in> set (tree_flat ?N tree)" if "x \<in> ?E" "relevant attr ?U x" for x
    proof -
      obtain y e' i' where x: "x = (y, e', i')" by (cases x) auto
      note r = relevant_comparable [OF pre' that(2) [unfolded x]]
      have "(y, e', i') \<notin> set (tree_flat p right)" using above [of y e' i'] r(2) 3(3) by blast
      moreover have "(y, e', i') \<notin> set (tree_flat p left)"
      proof
        assume "(y, e', i') \<in> set (tree_flat p left)"
        then have b: "path_key y < path_key ?N" "i' \<noteq> None \<longrightarrow> \<not> prefix y ?N" using below by blast+
        then have "prefix y ?N" "i' = None" using r(1) by auto
        then have "y = ?U \<or> y = ?U @ [slash]" using that(2) by (auto simp: x relevant_def)
        then have "length ?N < length y" using 3(2) facts(5) by auto
        then show False using prefix_length_le [OF \<open>prefix y ?N\<close>] by simp
      qed
      ultimately show ?thesis using that(1) [unfolded E x] unfolding x l by blast
    qed
    have "0 \<notin> set (drop n uri)" using "2.prems"(3) set_drop_subset by fast
    then have "answer attr (set (tree_flat ?N tree)) (?N @ drop n uri) (NGX_AGAIN, Some l)
        (ngx_http_core_find_static_location (drop n uri) tree NGX_AGAIN (Some l))"
      using "2.IH"(3) [OF n_def rc_def _ _ l, of ?N] 3 ok(3) facts(2) by simp
    then have "answer attr (set (tree_flat ?N tree)) ?U (NGX_AGAIN, Some l)
        (ngx_http_core_find_static_location (drop n uri) tree NGX_AGAIN (Some l))"
      using uri by simp
    then have "answer attr ?E ?U (rv, loc) (ngx_http_core_find_static_location (drop n uri) tree NGX_AGAIN (Some l))"
    proof (rule answer_deeper [where n = ?N and e = e])
      show "prefix ?N y" if "(y, e, i) \<in> set (tree_flat ?N tree)" for y e i using that by (rule tree_flat_prefix)
    qed (use l pre only in auto)
    then show ?thesis using 3 l step by simp
  next
    case 4
    have n': "n = length name" using 4(2) facts(5) n by simp
    have uri: "uri = name @ drop n uri" using eq 4(1) n' append_take_drop_id [of n uri] by simp
    have nd: "drop n uri \<noteq> []" using 4(2) facts(5) n' by simp
    have pre: "prefix ?N ?U" "?N \<noteq> ?U" using uri nd by (metis append.assoc prefixI, metis append.assoc append_self_conv)
    have pre': "prefix ?N (?U @ [slash])" using pre(1) by (rule prefix_prefix)
    have only: "x \<in> set (tree_flat p right)" if "x \<in> ?E" "relevant attr ?U x" for x
    proof -
      obtain y e' i' where x: "x = (y, e', i')" by (cases x) auto
      note r = relevant_comparable [OF pre' that(2) [unfolded x]]
      have "(y, e', i') \<notin> set (tree_flat p left)"
      proof
        assume "(y, e', i') \<in> set (tree_flat p left)"
        then have b: "path_key y < path_key ?N" "i' \<noteq> None \<longrightarrow> \<not> prefix y ?N" using below by blast+
        then have "prefix y ?N" "i' = None" using r(1) by auto
        then have "y = ?U \<or> y = ?U @ [slash]" using that(2) by (auto simp: x relevant_def)
        then have "length ?N < length y" using 4(2) facts(5) by auto
        then show False using prefix_length_le [OF \<open>prefix y ?N\<close>] by simp
      qed
      moreover have "x \<noteq> (?N, e, i)"
        using that(2) pre prefix_length_le [OF pre(1)] 4(3) by (auto simp: relevant_def)
      moreover have "x \<notin> set (tree_flat ?N tree)" using leaf 4(3) by (cases tree) auto
      ultimately show ?thesis using that(1) unfolding E x by blast
    qed
    have "answer attr (set (tree_flat p right)) ?U (rv, loc) (ngx_http_core_find_static_location uri right rv loc)"
      using "2.IH"(2) [OF n_def rc_def, of p] 4 ok(2) facts(3) "2.prems"(3) by simp
    then have "answer attr ?E ?U (rv, loc) (ngx_http_core_find_static_location uri right rv loc)"
      by (rule answer_same_relevant) (use only in auto)
    then show ?thesis using 4 step by simp
  next
    case 5
    have "uri = name" using eq 5 n facts(5) by simp
    then have "(?U, e, i) \<in> ?E" by simp
    then show ?thesis using 5 step some answer.exact [of ?U _ i ?E] answer.same [of ?U _ ?E]
      by (auto split: option.splits)
  next
    case 6
    have n': "n = length uri" using 6(2) facts(5) n by simp
    have name: "name = uri @ drop n name" using eq 6(1) n' append_take_drop_id [of n name] by simp
    have nd: "drop n name \<noteq> []" using 6(2) facts(5) n' by simp
    have pre: "prefix ?U ?N" "?U \<noteq> ?N" using name nd by (metis append.assoc prefixI, metis append.assoc append_self_conv)
    have slash: "path_key (?U @ [slash]) \<le> path_key ?N" using key_slash [OF pre(1)] pre(2) by simp
    have low: "path_key y \<le> path_key ?N" if "relevant attr ?U (y, e', i')" for y and e' i' :: "'a option"
      using key_prefix [OF relevant_prefix [OF that]] slash by simp
    have outside: "x \<in> set (tree_flat p left) \<or> x = (?N, e, i)" if "x \<in> ?E" "relevant attr ?U x" for x
    proof -
      obtain y e' i' where x: "x = (y, e', i')" by (cases x) auto
      have "\<not> path_key ?N < path_key y" using low [of y e' i'] that(2) by (simp add: x not_less)
      then show ?thesis using that(1) inside above unfolding E x by blast
    qed
    show ?thesis
    proof (cases "length uri + 1 = len \<and> auto")
      case True
      have "?N = ?U @ [slash]"
      proof -
        have "length name = Suc n" using True facts(5) n' by simp
        then have "length (drop n name) = 1" by simp
        then obtain c where "drop n name = [c]" by (cases "drop n name") auto
        then show ?thesis using name True auto(2) by (metis append.assoc last_snoc)
      qed
      have only: "x = (?N, e, i) \<or> x \<in> set (tree_flat p left) \<and> fst x = ?U" if "x \<in> ?E" "relevant attr ?U x" for x
      proof -
        obtain y e' i' where x: "x = (y, e', i')" by (cases x) auto
        have "y = ?U" if l: "(y, e', i') \<in> set (tree_flat p left)"
        proof -
          have "y \<noteq> ?N" "i' \<noteq> None \<longrightarrow> \<not> prefix y ?N" using below [OF l] by auto
          moreover have "prefix y ?U \<Longrightarrow> prefix y ?N" using pre(1) by (rule prefix_order.trans [rotated])
          ultimately show ?thesis using \<open>relevant attr ?U x\<close> \<open>?N = ?U @ [slash]\<close> unfolding x relevant_def by auto
        qed
        then show ?thesis using outside [OF that] unfolding x by auto
      qed
      let ?res = "ngx_http_core_find_static_location uri left NGX_DONE (if e \<noteq> None then e else i)"
      have "answer attr (set (tree_flat p left)) ?U (NGX_DONE, if e \<noteq> None then e else i) ?res"
        using "2.IH"(4) [OF n_def rc_def, of p] 6 True ok(1) facts(1) "2.prems"(3) by simp
      then have "answer attr ?E ?U (rv, loc) ?res"
        by (rule answer_redirect) (use only True auto(1) \<open>?N = ?U @ [slash]\<close> in auto)
      moreover have "ngx_http_core_find_static_location uri (Node left right tree e i len auto name) rv loc = ?res"
        unfolding step using 6 True by (simp split del: if_split)
      ultimately show ?thesis by (simp only:)
    next
      case False
      have only: "x \<in> set (tree_flat p left)" if "x \<in> ?E" "relevant attr ?U x" for x
      proof -
        have "\<not> relevant attr ?U (?N, e, i)"
        proof
          assume "relevant attr ?U (?N, e, i)"
          then have "?N = ?U @ [slash] \<and> auto_of attr e i"
            using pre prefix_order.antisym [OF pre(1)] by (auto simp: relevant_def)
          then show False using False auto(1) facts(5) by (metis Suc_eq_plus1 append.assoc length_append_singleton same_append_eq)
        qed
        then show ?thesis using outside [OF that] that(2) by blast
      qed
      have "answer attr (set (tree_flat p left)) ?U (rv, loc) (ngx_http_core_find_static_location uri left rv loc)"
        using "2.IH"(5) [OF n_def rc_def, of p] 6 False ok(1) facts(1) "2.prems"(3) by simp
      then have "answer attr ?E ?U (rv, loc) (ngx_http_core_find_static_location uri left rv loc)"
        by (rule answer_same_relevant) (use only in auto)
      moreover have "ngx_http_core_find_static_location uri (Node left right tree e i len auto name) rv loc =
          ngx_http_core_find_static_location uri left rv loc"
        unfolding step using 6 False by auto
      ultimately show ?thesis by (simp only:)
    qed
  qed
qed

section \<open>The tree of a list\<close>

function flat :: "'l lq list \<Rightarrow> 'l loc_entry list" where
  "flat [] = []"
| "flat (Lq n e i qs # rest) = (n, e, i) # flat qs @ flat rest"
  by pat_completeness auto
termination
  by (relation "measure (size_list size)") auto

text \<open>What \<^verbatim>\<open>ngx_http_create_locations_list\<close> sets up.\<close>

function list_ok :: "'l lq list \<Rightarrow> bool" where
  "list_ok [] \<longleftrightarrow> True"
| "list_ok (Lq n e i qs # rest) \<longleftrightarrow>
     (\<forall>(y, e', i') \<in> set ((n, e, i) # flat qs). i' \<noteq> None \<longrightarrow> (\<forall>(z, e'', i'') \<in> set (flat rest). \<not> prefix y z))
     \<and> (\<forall>(z, e', i') \<in> set (flat qs). prefix n z) \<and> (qs \<noteq> [] \<longrightarrow> i \<noteq> None) \<and> list_ok qs \<and> list_ok rest"
  by pat_completeness auto
termination
  by (relation "measure (size_list size)") auto

lemma flat_append [simp]: "flat (xs @ ys) = flat xs @ flat ys"
  by (induction xs rule: flat.induct) auto

lemma list_ok_append: "list_ok (xs @ ys) \<longleftrightarrow> list_ok xs \<and> list_ok ys
    \<and> (\<forall>(y, e, i) \<in> set (flat xs). i \<noteq> None \<longrightarrow> (\<forall>(z, e', i') \<in> set (flat ys). \<not> prefix y z))"
  by (induction xs rule: list_ok.induct) fastforce+

definition loc_entry_ok :: "('l \<Rightarrow> loc_attr) \<Rightarrow> 'l loc_entry \<Rightarrow> bool" where
  "loc_entry_ok attr = (\<lambda>(n, e, i). (e \<noteq> None \<or> i \<noteq> None) \<and> length n < 2 ^ 16 \<and> (auto_of attr e i \<longrightarrow> n \<noteq> [] \<and> last n = slash))"

lemma tree_empty [simp]: "ngx_http_create_locations_tree attr [] pre = Null"
  by (simp add: ngx_http_create_locations_tree.simps)

lemma tree_Null: "ngx_http_create_locations_tree attr qs pre = Null \<longleftrightarrow> qs = []"
  by (simp add: ngx_http_create_locations_tree.simps [of attr qs] Let_def)

lemma auto_redirect_of: "auto_redirect attr (Lq n e i qs) = auto_of attr e i"
  by (simp add: auto_redirect_def auto_of_def)

lemma tree_step:
  assumes "qs = left @ Lq n e i cs # right" "length left = length qs div 2" "length p \<le> length n"
  shows "ngx_http_create_locations_tree attr qs (length p) =
    Node (ngx_http_create_locations_tree attr left (length p)) (ngx_http_create_locations_tree attr right (length p))
      (ngx_http_create_locations_tree attr cs (length n)) e i ((length n - length p) mod 2 ^ 16) (auto_of attr e i)
      (drop (length p) n)"
proof -
  have parts: "take (length qs div 2) qs = left" "drop (length qs div 2 + 1) qs = right" "qs ! (length qs div 2) = Lq n e i cs"
    using assms(1,2) by (simp_all add: nth_append)
  have "left = [] \<Longrightarrow> right = []" using assms(1,2) by (cases right) auto
  moreover have "qs \<noteq> []" using assms(1) by simp
  ultimately show ?thesis using assms(3)
    unfolding ngx_http_create_locations_tree.simps [of attr qs, unfolded Let_def parts] by (auto simp: auto_redirect_of)
qed

lemma create_tree:
  assumes "list_ok qs" "names_ok (flat qs)" "\<And>x. x \<in> set (flat qs) \<Longrightarrow> loc_entry_ok attr x \<and> prefix p (fst x)"
    and "\<And>n e i. (n, e, i) \<in> set (flat qs) \<Longrightarrow> auto_of attr e i \<Longrightarrow> n \<noteq> p"
  shows "tree_flat p (ngx_http_create_locations_tree attr qs (length p)) = flat qs
    \<and> tree_ok attr p (ngx_http_create_locations_tree attr qs (length p))"
  using assms
proof (induction "size_list size qs" arbitrary: qs p rule: less_induct)
  case less
  show ?case
  proof (cases "qs = []")
    case False
    define m left right where "m = length qs div 2" and "left = take m qs" and "right = drop (m + 1) qs"
    obtain n e i cs where lq: "qs ! m = Lq n e i cs" by (cases "qs ! m") auto
    have "m < length qs" using False by (cases qs) (auto simp: m_def)
    then have qs: "qs = left @ Lq n e i cs # right" and len: "length left = length qs div 2"
      using id_take_nth_drop [of m qs] lq by (simp_all add: left_def right_def m_def)
    have flat: "flat qs = flat left @ (n, e, i) # flat cs @ flat right" unfolding qs by simp
    have ok: "list_ok left" "list_ok right" "list_ok cs" "cs \<noteq> [] \<longrightarrow> i \<noteq> None"
      and below: "\<forall>(z, e', i') \<in> set (flat cs). prefix n z"
      and right_ok: "i \<noteq> None \<longrightarrow> (\<forall>(z, e', i') \<in> set (flat right). \<not> prefix n z)"
      and left_ok: "\<forall>(y, e', i') \<in> set (flat left). i' \<noteq> None \<longrightarrow> \<not> prefix y n"
      using less.prems(1) unfolding qs list_ok_append by auto
    have names: "names_ok (flat left)" "names_ok (flat cs)" "names_ok (flat right)"
      and more: "\<forall>x \<in> set (flat cs). path_key n < path_key (fst x)"
      using less.prems(2) unfolding flat names_ok_append names_ok_Cons by auto
    have p: "prefix p n" and entry: "loc_entry_ok attr (n, e, i)" using less.prems(3) [of "(n, e, i)"] unfolding flat by simp_all
    then have n: "p @ drop (length p) n = n" by (auto simp: prefix_def)
    have size: "size_list size left < size_list size qs" "size_list size right < size_list size qs" "size_list size cs < size_list size qs"
      unfolding qs by simp_all
    have l: "tree_flat p (ngx_http_create_locations_tree attr left (length p)) = flat left
        \<and> tree_ok attr p (ngx_http_create_locations_tree attr left (length p))"
    proof (rule less.hyps [OF size(1) ok(1) names(1)])
      show "loc_entry_ok attr x \<and> prefix p (fst x)" if "x \<in> set (flat left)" for x
        by (rule less.prems(3)) (simp add: flat that)
      show "z \<noteq> p" if "(z, e, i) \<in> set (flat left)" "auto_of attr e i" for z e i
        by (rule less.prems(4) [OF _ that(2)]) (simp add: flat that(1))
    qed
    have r: "tree_flat p (ngx_http_create_locations_tree attr right (length p)) = flat right
        \<and> tree_ok attr p (ngx_http_create_locations_tree attr right (length p))"
    proof (rule less.hyps [OF size(2) ok(2) names(3)])
      show "loc_entry_ok attr x \<and> prefix p (fst x)" if "x \<in> set (flat right)" for x
        by (rule less.prems(3)) (simp add: flat that)
      show "z \<noteq> p" if "(z, e, i) \<in> set (flat right)" "auto_of attr e i" for z e i
        by (rule less.prems(4) [OF _ that(2)]) (simp add: flat that(1))
    qed
    have t: "tree_flat n (ngx_http_create_locations_tree attr cs (length n)) = flat cs
        \<and> tree_ok attr n (ngx_http_create_locations_tree attr cs (length n))"
    proof (rule less.hyps [OF size(3) ok(3) names(2)])
      show "loc_entry_ok attr x \<and> prefix n (fst x)" if "x \<in> set (flat cs)" for x
        using less.prems(3) [of x] below that flat by auto
      show "z \<noteq> n" if "(z, e, i) \<in> set (flat cs)" for z e i using more that by auto
    qed
    have short: "(length n - length p) mod 2 ^ 16 = length (drop (length p) n)"
    proof -
      have "length n < 2 ^ 16" using entry by (simp add: loc_entry_ok_def)
      then have "length n - length p < 2 ^ 16" by linarith
      then show ?thesis by simp
    qed
    have auto: "drop (length p) n \<noteq> [] \<and> last (drop (length p) n) = slash" if "auto_of attr e i"
    proof -
      have "n \<noteq> p" using less.prems(4) that flat by auto
      then have "drop (length p) n \<noteq> []" using n by auto
      then show ?thesis using entry that n by (auto simp: loc_entry_ok_def last_drop)
    qed
    have tree: "ngx_http_create_locations_tree attr cs (length n) \<noteq> Null \<longrightarrow> i \<noteq> None" using ok(4) by (simp add: tree_Null)
    show ?thesis unfolding tree_step [OF qs len prefix_length_le [OF p]]
      using l r t short auto tree left_ok right_ok entry flat n by (auto simp: loc_entry_ok_def simp del: length_drop)
  qed simp
qed

section \<open>The lists\<close>

definition entry_of :: "'l lq \<Rightarrow> 'l loc_entry" where
  "entry_of q = (lq_name q, lq_exact q, lq_inclusive q)"

lemma flat_leaves: "\<forall>q \<in> set qs. lq_list q = [] \<Longrightarrow> flat qs = map entry_of qs"
proof (induction qs)
  case (Cons q qs)
  then show ?case by (cases q) (simp add: entry_of_def)
qed simp

lemma below_prefix: "0 \<notin> set n \<Longrightarrow> 0 \<notin> set (lq_name q) \<Longrightarrow> below n q \<longleftrightarrow> prefix n (lq_name q)"
  by (auto simp: below_def filename_zero prefix_def) (metis append_take_drop_id)

lemma create_list:
  assumes "\<forall>q \<in> set qs. lq_list q = [] \<and> (lq_exact q \<noteq> None \<or> lq_inclusive q \<noteq> None)" "names_ok (map entry_of qs)"
  shows "flat (ngx_http_create_locations_list qs) = map entry_of qs \<and> list_ok (ngx_http_create_locations_list qs)"
  using assms
proof (induction "length qs" arbitrary: qs rule: less_induct)
  case less
  show ?case
  proof (cases qs)
    case (Cons q rest)
    obtain n e i where q: "q = Lq n e i []" using less.prems(1) Cons by (cases q) auto
    have n: "0 \<notin> set n" and rest: "names_ok (map entry_of rest)" and greater: "\<forall>r \<in> set rest. path_key n < path_key (lq_name r)"
      and zero: "\<forall>r \<in> set rest. 0 \<notin> set (lq_name r)"
      using less.prems(2) unfolding Cons q by (auto simp: names_ok_Cons entry_of_def) (auto simp: names_ok_def entry_of_def)
    have leaves: "\<forall>r \<in> set rest. lq_list r = [] \<and> (lq_exact r \<noteq> None \<or> lq_inclusive r \<noteq> None)" using less.prems(1) Cons by simp
    have tail: "flat (ngx_http_create_locations_list rest) = map entry_of rest \<and> list_ok (ngx_http_create_locations_list rest)"
      by (rule less.hyps [OF _ leaves rest]) (simp add: Cons)
    define inside outside where "inside = takeWhile (below n) rest" and "outside = dropWhile (below n) rest"
    have parts: "rest = inside @ outside" by (simp add: inside_def outside_def)
    have out: "\<not> prefix n (lq_name r)" if r: "r \<in> set outside" for r
    proof
      assume p: "prefix n (lq_name r)"
      obtain h os where os: "outside = h # os" using r by (cases outside) auto
      then have "\<not> below n h" by (metis outside_def dropWhile_eq_Cons_conv)
      moreover have h: "h \<in> set rest" "r \<in> set rest" using os r parts by auto
      moreover have "path_key (lq_name h) \<le> path_key (lq_name r)"
        using rest os r unfolding parts by (auto simp: names_ok_append names_ok_Cons entry_of_def)
      ultimately show False using key_between [of n "lq_name h" "lq_name r"] p greater zero n below_prefix [of n h] by (auto simp: less_imp_le)
    qed
    show ?thesis
    proof (cases "rest = [] \<or> i = None \<or> inside = []")
      case True
      have "ngx_http_create_locations_list qs = q # ngx_http_create_locations_list rest"
        using True unfolding Cons q by (auto simp: Let_def inside_def [symmetric])
      moreover have "i \<noteq> None \<Longrightarrow> \<forall>(z, e', i') \<in> set (map entry_of rest). \<not> prefix n z"
        using True out parts by (auto simp: entry_of_def)
      ultimately show ?thesis using tail by (auto simp: Cons q entry_of_def)
    next
      case False
      have names: "names_ok (map entry_of inside)" "names_ok (map entry_of outside)"
        using rest unfolding parts by (simp_all add: names_ok_append)
      have in_: "flat (ngx_http_create_locations_list inside) = map entry_of inside \<and> list_ok (ngx_http_create_locations_list inside)"
        by (rule less.hyps [OF _ _ names(1)]) (use leaves Cons parts in auto)
      have out': "flat (ngx_http_create_locations_list outside) = map entry_of outside \<and> list_ok (ngx_http_create_locations_list outside)"
        by (rule less.hyps [OF _ _ names(2)]) (use leaves Cons parts in auto)
      have list: "ngx_http_create_locations_list qs = Lq n e i (ngx_http_create_locations_list inside) # ngx_http_create_locations_list outside"
        using False unfolding Cons q by (auto simp: Let_def inside_def [symmetric] outside_def [symmetric])
      have inner: "prefix n (lq_name r)" if "r \<in> set inside" for r
        using that below_prefix [OF n, of r] zero parts set_takeWhileD [of r "below n" rest] unfolding inside_def by auto
      have "\<not> prefix y z" if "y = n \<or> (\<exists>r \<in> set inside. y = lq_name r)" "\<exists>r \<in> set outside. z = lq_name r" for y z
        using that out inner prefix_order.trans by blast
      then show ?thesis using in_ out' inner False unfolding list
        by (auto simp: Cons q entry_of_def parts)
    qed
  qed simp
qed

end
