(* ===== verification/Ngx_Http_Route.thy ===== *)
theory Ngx_Http_Route
  imports Ngx_Http_Find
begin

text \<open>
  The location of a request, from the locations of the configuration: the sorted queue and its join, what the documentation says
  of prefixes, exact names and regular expressions, and that the search does so.
\<close>

section \<open>The sort\<close>

lemma conf_of_add [simp]: "lq_conf (ngx_http_add_location attr l) = l" "lq_name (ngx_http_add_location attr l) = la_name (attr l)"
  "lq_list (ngx_http_add_location attr l) = []"
  by (simp_all add: ngx_http_add_location_def lq_conf_def Let_def)

text \<open>The class of a location and its place in the class.\<close>

definition loc_class :: "loc_attr \<Rightarrow> nat" where
  "loc_class a = (if la_noname a then 3 else if la_named a then 2 else if la_regex a \<noteq> None then 1 else 0)"

definition loc_key :: "('l \<Rightarrow> loc_attr) \<Rightarrow> 'l lq \<Rightarrow> nat \<times> ngx_str \<times> bool" where
  "loc_key attr q =
     (let a = attr (lq_conf q) in
      (loc_class a,
       (if loc_class a = 2 then la_name a else if loc_class a = 0 then path_key (la_name a) else []),
       loc_class a = 0 \<and> \<not> la_exact_match a))"

lemma strcmp_pos: "0 \<notin> set a \<Longrightarrow> 0 \<notin> set b \<Longrightarrow> ngx_strcmp a b > 0 \<longleftrightarrow> b < a"
  by (induction a b rule: ngx_strcmp.induct) (auto simp: differences)

definition plain_names :: "('l \<Rightarrow> loc_attr) \<Rightarrow> 'l lq set" where
  "plain_names attr = {q. 0 \<notin> set (la_name (attr (lq_conf q)))}"

lemma static_compare:
  assumes "0 \<notin> set a" "0 \<notin> set b"
  shows "ngx_filename_cmp a b (min (length a) (length b) + 1) = 0 \<longleftrightarrow> a = b"
    "ngx_filename_cmp a b (min (length a) (length b) + 1) > 0 \<longleftrightarrow> path_key b < path_key a"
proof -
  have "take (min (length a) (length b) + 1) a = take (min (length a) (length b) + 1) b \<longleftrightarrow> a = b"
  proof
    assume eq: "take (min (length a) (length b) + 1) a = take (min (length a) (length b) + 1) b"
    then have "length (take (min (length a) (length b) + 1) a) = length (take (min (length a) (length b) + 1) b)" by simp
    then have "length a = length b" by (auto simp: min_def split: if_splits)
    then show "a = b" using eq by simp
  qed simp
  then show "ngx_filename_cmp a b (min (length a) (length b) + 1) = 0 \<longleftrightarrow> a = b" using filename_zero [OF assms] by (simp only:)
  show "ngx_filename_cmp a b (min (length a) (length b) + 1) > 0 \<longleftrightarrow> path_key b < path_key a" by (rule filename_key [OF assms])
qed

lemma location_order:
  assumes "one \<in> plain_names attr" "two \<in> plain_names attr"
  shows "ngx_http_cmp_locations attr one two > 0 \<longleftrightarrow> loc_key attr two < loc_key attr one"
proof -
  define a b where "a = attr (lq_conf one)" and "b = attr (lq_conf two)"
  have z: "0 \<notin> set (la_name a)" "0 \<notin> set (la_name b)" using assms by (simp_all add: plain_names_def a_def b_def)
  show ?thesis
    using static_compare [OF z] strcmp_pos [OF z] key_inj [OF _ z]
    unfolding ngx_http_cmp_locations_def loc_key_def a_def [symmetric] b_def [symmetric]
    by (cases "la_regex a"; cases "la_regex b"; cases "la_named a"; cases "la_named b"; cases "la_noname a"; cases "la_noname b")
      (auto simp: Let_def loc_class_def)
qed

interpretation location_order: comparison "plain_names attr" "ngx_http_cmp_locations attr" "loc_key attr" for attr
  by unfold_locales (rule location_order)

section \<open>The classes\<close>

lemma sorted_split: "sorted (map f xs) \<Longrightarrow> xs = filter (\<lambda>x. f x < k) xs @ filter (\<lambda>x. k \<le> f x) xs"
  for f :: "'a \<Rightarrow> nat"
proof (induction xs)
  case (Cons x xs)
  show ?case
  proof (cases "f x < k")
    case False
    then have "\<forall>y \<in> set xs. k \<le> f y" using Cons.prems by auto
    then show ?thesis using False by (simp add: filter_True filter_empty_conv not_less)
  qed (use Cons in auto)
qed simp

lemma filter_class: "sorted (map f xs) \<Longrightarrow> (\<And>x. f x \<le> 3) \<Longrightarrow>
    xs = filter (\<lambda>x. f x = 0) xs @ filter (\<lambda>x. f x = 1) xs @ filter (\<lambda>x. f x = 2) xs @ filter (\<lambda>x. f x = 3) xs"
  for f :: "'a \<Rightarrow> nat"
proof (induction xs)
  case (Cons x xs)
  have IH: "xs = filter (\<lambda>x. f x = 0) xs @ filter (\<lambda>x. f x = 1) xs @ filter (\<lambda>x. f x = 2) xs @ filter (\<lambda>x. f x = 3) xs"
    using Cons by simp
  have above: "\<forall>y \<in> set xs. f x \<le> f y" using Cons.prems(1) by simp
  have none: "filter (\<lambda>y. f y = k) xs = []" if "k < f x" for k using above that by (auto simp: filter_empty_conv)
  consider "f x = 0" | "f x = 1" | "f x = 2" | "f x = 3" using Cons.prems(2) [of x] by linarith
  then show ?case using IH none by cases simp_all
qed simp

lemma loop_static: "\<forall>q \<in> set qs. loc_class (attr (lq_conf q)) = 0 \<Longrightarrow>
    init_loop attr (qs @ rest) i r n = init_loop attr rest (i + length qs) r n"
  by (induction qs arbitrary: i) (auto simp: loc_class_def Let_def split: if_splits)

lemma loop_regex: "\<forall>q \<in> set qs. loc_class (attr (lq_conf q)) = 1 \<Longrightarrow>
    init_loop attr (qs @ rest) i r n = init_loop attr rest (i + length qs) (if qs = [] \<or> r \<noteq> None then r else Some i) n"
  by (induction qs arbitrary: i r) (auto simp: loc_class_def Let_def split: if_splits)

lemma loop_named: "\<forall>q \<in> set qs. loc_class (attr (lq_conf q)) = 2 \<and> la_regex (attr (lq_conf q)) = None \<Longrightarrow>
    init_loop attr (qs @ rest) i r n = init_loop attr rest (i + length qs) r (if qs = [] \<or> n \<noteq> None then n else Some i)"
  by (induction qs arbitrary: i n) (auto simp: loc_class_def Let_def split: if_splits)

lemma loop_noname: "\<forall>q \<in> set qs. loc_class (attr (lq_conf q)) = 3 \<and> la_regex (attr (lq_conf q)) = None \<and> \<not> la_named (attr (lq_conf q)) \<Longrightarrow>
    init_loop attr qs i r n = (i, r, n)"
  by (cases qs) (auto simp: loc_class_def Let_def split: if_splits)

text \<open>A location has one kind: only the one that the parser of the configuration gave it.\<close>

definition one_kind :: "loc_attr \<Rightarrow> bool" where
  "one_kind a \<longleftrightarrow> (la_named a \<longrightarrow> la_regex a = None) \<and> (la_noname a \<longrightarrow> la_regex a = None \<and> \<not> la_named a)"

lemma init_locations:
  assumes "\<forall>l \<in> set ls. 0 \<notin> set (la_name (attr l)) \<and> one_kind (attr l)"
  defines "qs \<equiv> map (ngx_http_add_location attr) ls"
  shows "ngx_http_init_locations attr qs =
    (filter (\<lambda>q. loc_class (attr (lq_conf q)) = 0) (sort_key (loc_key attr) qs),
     map (ngx_http_add_location attr) (filter (\<lambda>l. loc_class (attr l) = 1) ls),
     filter (\<lambda>q. loc_class (attr (lq_conf q)) = 2) (sort_key (loc_key attr) qs))"
proof -
  let ?c = "\<lambda>q. loc_class (attr (lq_conf q))"
  define s where "s = sort_key (loc_key attr) qs"
  have plain: "set qs \<subseteq> plain_names attr" using assms(1) by (auto simp: qs_def plain_names_def)
  have sort: "ngx_sort (ngx_http_cmp_locations attr) qs = s" unfolding s_def by (rule location_order.sort [OF plain])
  have kind: "\<forall>q \<in> set s. one_kind (attr (lq_conf q))" using assms(1) by (auto simp: s_def qs_def)
  define s0 s1 s2 s3 where "s0 = filter (\<lambda>q. ?c q = 0) s" and "s1 = filter (\<lambda>q. ?c q = 1) s"
    and "s2 = filter (\<lambda>q. ?c q = 2) s" and "s3 = filter (\<lambda>q. ?c q = 3) s"
  have "sorted (map (loc_key attr) s)" by (simp add: s_def)
  then have "sorted (map ?c s)"
    by (auto simp: sorted_map loc_key_def Let_def elim!: sorted_wrt_mono_rel [rotated])
  then have s: "s = s0 @ s1 @ s2 @ s3" unfolding s0_def s1_def s2_def s3_def
    by (rule filter_class) (simp add: loc_class_def)
  have in_s: "set s0 \<subseteq> set s" "set s1 \<subseteq> set s" "set s2 \<subseteq> set s" "set s3 \<subseteq> set s"
    by (auto simp: s0_def s1_def s2_def s3_def)
  have loop: "init_loop attr s 0 None None =
      (length s0 + length s1 + length s2, (if s1 = [] then None else Some (length s0)),
       if s2 = [] then None else Some (length s0 + length s1))"
    unfolding s using kind in_s
    by (subst loop_static, force simp: s0_def, subst loop_regex, force simp: s1_def, subst loop_named,
        force simp: s2_def one_kind_def loc_class_def split: if_splits, subst loop_noname,
        force simp: s3_def one_kind_def loc_class_def split: if_splits) auto
  have stable: "s1 = map (ngx_http_add_location attr) (filter (\<lambda>l. loc_class (attr l) = 1) ls)"
  proof -
    have "s1 = filter (\<lambda>q. loc_key attr q = (1, [], False)) s" unfolding s1_def
      by (rule filter_cong) (auto simp: loc_key_def Let_def)
    also have "\<dots> = filter (\<lambda>q. loc_key attr q = (1, [], False)) qs" unfolding s_def by (rule sort_key_stable)
    also have "\<dots> = filter (\<lambda>q. ?c q = 1) qs" by (rule filter_cong) (auto simp: loc_key_def Let_def)
    also have "\<dots> = map (ngx_http_add_location attr) (filter (\<lambda>l. loc_class (attr l) = 1) ls)"
      by (simp add: qs_def filter_map comp_def)
    finally show ?thesis .
  qed
  show ?thesis
    unfolding ngx_http_init_locations_def Let_def sort loop stable [symmetric] s_def [symmetric] s0_def [symmetric] s2_def [symmetric]
    by (simp add: split_at_def s)
qed

section \<open>The join\<close>

definition clash :: "'l lq \<Rightarrow> 'l lq \<Rightarrow> bool" where
  "clash a b \<longleftrightarrow> lq_name a = lq_name b
     \<and> (lq_exact a \<noteq> None \<and> lq_exact b \<noteq> None \<or> lq_inclusive a \<noteq> None \<and> lq_inclusive b \<noteq> None)"

definition exacts :: "'l lq list \<Rightarrow> (ngx_str \<times> 'l) set" where
  "exacts qs = {(n, l). \<exists>q \<in> set qs. lq_name q = n \<and> lq_exact q = Some l}"

definition inclusives :: "'l lq list \<Rightarrow> (ngx_str \<times> 'l) set" where
  "inclusives qs = {(n, l). \<exists>q \<in> set qs. lq_name q = n \<and> lq_inclusive q = Some l}"

lemma sets_simps [simp]:
  "exacts [] = {}" "exacts (q # qs) = (case lq_exact q of None \<Rightarrow> {} | Some l \<Rightarrow> {(lq_name q, l)}) \<union> exacts qs"
  "inclusives [] = {}" "inclusives (q # qs) = (case lq_inclusive q of None \<Rightarrow> {} | Some l \<Rightarrow> {(lq_name q, l)}) \<union> inclusives qs"
  by (auto simp: exacts_def inclusives_def split: option.splits)

text \<open>The order that the sort leaves: the names ascend, and the exact location stands before the same inclusive one.\<close>

definition before :: "'l lq \<Rightarrow> 'l lq \<Rightarrow> bool" where
  "before a b \<longleftrightarrow> path_key (lq_name a) \<le> path_key (lq_name b)
     \<and> (lq_name a = lq_name b \<longrightarrow> lq_exact b \<noteq> None \<longrightarrow> lq_exact a \<noteq> None)"

definition single :: "'l lq \<Rightarrow> bool" where
  "single q \<longleftrightarrow> lq_list q = [] \<and> 0 \<notin> set (lq_name q) \<and> (lq_exact q = None \<longleftrightarrow> lq_inclusive q \<noteq> None)"

definition joined :: "'l lq \<Rightarrow> bool" where
  "joined q \<longleftrightarrow> lq_list q = [] \<and> 0 \<notin> set (lq_name q) \<and> (lq_exact q \<noteq> None \<or> lq_inclusive q \<noteq> None)"

lemma single_joined: "single q \<Longrightarrow> joined q"
  by (auto simp: single_def joined_def)

lemma same_name:
  assumes "joined a" "joined b"
  shows "length (lq_name a) = length (lq_name b) \<and> ngx_filename_cmp (lq_name a) (lq_name b) (length (lq_name b)) = 0
    \<longleftrightarrow> lq_name a = lq_name b"
  using assms filename_zero [of "lq_name a" "lq_name b" "length (lq_name b)"] by (auto simp: joined_def)

lemma join_exact:
  assumes "sorted_wrt before qs" "case qs of [] \<Rightarrow> True | q # rest \<Rightarrow> joined q \<and> (\<forall>r \<in> set rest. single r)"
  shows "case ngx_http_join_exact_locations qs of
      None \<Rightarrow> \<not> sorted_wrt (\<lambda>a b. \<not> clash a b) qs
    | Some js \<Rightarrow> sorted_wrt (\<lambda>a b. \<not> clash a b) qs \<and> names_ok (map entry_of js) \<and> (\<forall>j \<in> set js. joined j)
        \<and> exacts js = exacts qs \<and> inclusives js = inclusives qs
        \<and> map lq_name js = remdups_adj (map lq_name qs)"
  using assms
proof (induction qs rule: ngx_http_join_exact_locations.induct)
  case (1 a b rest)
  have a: "joined a" and b: "single b" and rest: "\<forall>r \<in> set rest. single r" using "1.prems"(2) by simp_all
  note same = same_name [OF a single_joined [OF b]]
  show ?case
  proof (cases "lq_name a = lq_name b")
    case True
    show ?thesis
    proof (cases "lq_exact a \<noteq> None \<and> lq_exact b \<noteq> None \<or> lq_inclusive a \<noteq> None \<and> lq_inclusive b \<noteq> None")
      case clash: True
      then have "clash a b" using True by (simp add: clash_def)
      then show ?thesis using clash True same by simp
    next
      case False
      have kinds: "lq_exact a \<noteq> None" "lq_exact b = None" "lq_inclusive a = None" "lq_inclusive b \<noteq> None"
        using False a b "1.prems"(1) True by (auto simp: joined_def single_def before_def)
      let ?j = "Lq (lq_name a) (lq_exact a) (lq_inclusive b) (lq_list a)"
      have "sorted_wrt before rest" "\<forall>r \<in> set rest. before a r" using "1.prems"(1) by simp_all
      then have order: "sorted_wrt before (?j # rest)" using kinds by (simp add: before_def [of ?j] before_def [of a])
      have j: "joined ?j" using a kinds by (simp add: joined_def)
      have join: "ngx_http_join_exact_locations (a # b # rest) = ngx_http_join_exact_locations (?j # rest)"
        using True same kinds by simp
      have clashes: "sorted_wrt (\<lambda>a b. \<not> clash a b) (a # b # rest) \<longleftrightarrow> sorted_wrt (\<lambda>a b. \<not> clash a b) (?j # rest)"
        using kinds True by (auto simp: clash_def)
      have "(case lq_exact ?j of None \<Rightarrow> {} | Some l \<Rightarrow> {(lq_name ?j, l)}) \<union> exacts rest = exacts (a # b # rest)"
        "(case lq_inclusive ?j of None \<Rightarrow> {} | Some l \<Rightarrow> {(lq_name ?j, l)}) \<union> inclusives rest = inclusives (a # b # rest)"
        using kinds True by auto
      then show ?thesis using "1.IH"(1) [OF _ _ order] same True False j rest unfolding join clashes
        by (simp split: option.splits)
    qed
  next
    case False
    have order: "sorted_wrt before (b # rest)" using "1.prems"(1) by simp
    have IH: "case ngx_http_join_exact_locations (b # rest) of
      None \<Rightarrow> \<not> sorted_wrt (\<lambda>a b. \<not> clash a b) (b # rest)
    | Some js \<Rightarrow> sorted_wrt (\<lambda>a b. \<not> clash a b) (b # rest) \<and> names_ok (map entry_of js) \<and> (\<forall>j \<in> set js. joined j)
        \<and> exacts js = exacts (b # rest) \<and> inclusives js = inclusives (b # rest)
        \<and> map lq_name js = remdups_adj (map lq_name (b # rest))"
      by (rule "1.IH"(2) [OF _ order]) (use same False single_joined [OF b] rest in simp_all)
    have less: "path_key (lq_name a) < path_key (lq_name r)" if "r \<in> set (b # rest)" for r
    proof -
      have "path_key (lq_name a) \<noteq> path_key (lq_name b)" using False key_inj a b by (auto simp: joined_def single_def)
      moreover have "path_key (lq_name a) \<le> path_key (lq_name b)" using "1.prems"(1) by (simp add: before_def [of a b])
      ultimately have "path_key (lq_name a) < path_key (lq_name b)" by (rule order.not_eq_order_implies_strict)
      moreover have "r = b \<or> before b r" using order that by auto
      ultimately show ?thesis by (auto simp: before_def)
    qed
    have "\<not> clash a r" if "r \<in> set (b # rest)" for r using less [OF that] by (auto simp: clash_def)
    then have clashes: "sorted_wrt (\<lambda>a b. \<not> clash a b) (a # b # rest) \<longleftrightarrow> sorted_wrt (\<lambda>a b. \<not> clash a b) (b # rest)" by auto
    have step: "ngx_http_join_exact_locations (a # b # rest) = map_option ((#) a) (ngx_http_join_exact_locations (b # rest))"
      unfolding ngx_http_join_exact_locations.simps(1) by (rule if_not_P) (use same False in blast)
    show ?thesis
    proof (cases "ngx_http_join_exact_locations (b # rest)")
      case None
      then show ?thesis using IH clashes unfolding step by simp
    next
      case (Some js)
      note js = IH [unfolded Some option.case]
      then have "set (map lq_name js) = set (remdups_adj (map lq_name (b # rest)))" by (simp only:)
      then have names: "set (map lq_name js) = set (map lq_name (b # rest))" by (simp only: remdups_adj_set)
      have "path_key (lq_name a) < path_key (lq_name j)" if "j \<in> set js" for j
      proof -
        have "lq_name j \<in> set (map lq_name (b # rest))" using that names by force
        then show ?thesis using less by auto
      qed
      then have "names_ok (map entry_of (a # js))" using js a by (auto simp: names_ok_Cons entry_of_def joined_def)
      then show ?thesis using js Some False clashes a unfolding step by simp
    qed
  qed
qed (auto simp: names_ok_def entry_of_def joined_def)

section \<open>The choice by prefix\<close>

text \<open>
  What the documentation says of a list of locations: first the exact location with the name of the request; then the
  inclusive one of that name, then a redirect to the name with a slash; else the inclusive location with the longest name that the
  request begins with.
\<close>

definition exact_named :: "('l \<Rightarrow> loc_attr) \<Rightarrow> 'l list \<Rightarrow> ngx_str \<Rightarrow> 'l option" where
  "exact_named attr ls n = find (\<lambda>l. loc_class (attr l) = 0 \<and> la_exact_match (attr l) \<and> la_name (attr l) = n) ls"

definition inclusive_named :: "('l \<Rightarrow> loc_attr) \<Rightarrow> 'l list \<Rightarrow> ngx_str \<Rightarrow> 'l option" where
  "inclusive_named attr ls n = find (\<lambda>l. loc_class (attr l) = 0 \<and> \<not> la_exact_match (attr l) \<and> la_name (attr l) = n) ls"

definition longer :: "('l \<Rightarrow> loc_attr) \<Rightarrow> ngx_str \<Rightarrow> 'l \<Rightarrow> 'l option \<Rightarrow> 'l option" where
  "longer attr uri l best =
     (if loc_class (attr l) = 0 \<and> \<not> la_exact_match (attr l) \<and> prefix (la_name (attr l)) uri
         \<and> (case best of None \<Rightarrow> True | Some b \<Rightarrow> length (la_name (attr b)) < length (la_name (attr l)))
      then Some l else best)"

definition longest_inclusive :: "('l \<Rightarrow> loc_attr) \<Rightarrow> 'l list \<Rightarrow> ngx_str \<Rightarrow> 'l option" where
  "longest_inclusive attr ls uri = fold (longer attr uri) ls None"

definition static_choice :: "('l \<Rightarrow> loc_attr) \<Rightarrow> 'l list \<Rightarrow> ngx_str \<Rightarrow> ngx_rc \<times> 'l option" where
  "static_choice attr ls uri =
     (let e = exact_named attr ls uri; i = inclusive_named attr ls uri;
          e' = exact_named attr ls (uri @ [slash]); i' = inclusive_named attr ls (uri @ [slash]) in
      if e \<noteq> None then (NGX_OK, e)
      else if i \<noteq> None then (NGX_AGAIN, i)
      else if auto_of attr e' i' then (NGX_DONE, if e' \<noteq> None then e' else i')
      else
        (case longest_inclusive attr ls uri of
           Some l \<Rightarrow> (NGX_AGAIN, Some l)
         | None \<Rightarrow> (NGX_DECLINED, None)))"

lemma longest_fold:
  "case fold (longer attr uri) ls best of
     None \<Rightarrow> best = None \<and> (\<forall>l \<in> set ls. \<not> (loc_class (attr l) = 0 \<and> \<not> la_exact_match (attr l) \<and> prefix (la_name (attr l)) uri))
   | Some b \<Rightarrow> (best = Some b \<or> b \<in> set ls \<and> loc_class (attr b) = 0 \<and> \<not> la_exact_match (attr b) \<and> prefix (la_name (attr b)) uri)
       \<and> (\<forall>l \<in> set ls \<union> set_option best.
            l \<in> set_option best \<or> loc_class (attr l) = 0 \<and> \<not> la_exact_match (attr l) \<and> prefix (la_name (attr l)) uri \<longrightarrow>
            length (la_name (attr l)) \<le> length (la_name (attr b)))"
proof (induction ls arbitrary: best)
  case (Cons l ls)
  show ?case using Cons.IH [of "longer attr uri l best"]
    by (cases best) (auto simp: longer_def split: option.splits if_splits)
qed (auto split: option.splits)

lemma longest_inclusive:
  "longest_inclusive attr ls uri = None \<Longrightarrow> l \<in> set ls \<Longrightarrow>
     \<not> (loc_class (attr l) = 0 \<and> \<not> la_exact_match (attr l) \<and> prefix (la_name (attr l)) uri)"
  "longest_inclusive attr ls uri = Some b \<Longrightarrow>
     b \<in> set ls \<and> loc_class (attr b) = 0 \<and> \<not> la_exact_match (attr b) \<and> prefix (la_name (attr b)) uri
     \<and> (\<forall>l \<in> set ls. loc_class (attr l) = 0 \<and> \<not> la_exact_match (attr l) \<and> prefix (la_name (attr l)) uri \<longrightarrow>
          length (la_name (attr l)) \<le> length (la_name (attr b)))"
  using longest_fold [where attr = attr and uri = uri and ls = ls and best = None] by (auto simp: longest_inclusive_def)

text \<open>The entries of the tree are the names with their locations.\<close>

definition entries_of :: "('l \<Rightarrow> loc_attr) \<Rightarrow> 'l list \<Rightarrow> 'l loc_entry set" where
  "entries_of attr ls = {(n, e, i). e = exact_named attr ls n \<and> i = inclusive_named attr ls n \<and> (e \<noteq> None \<or> i \<noteq> None)}"

lemma find_SomeD: "find P xs = Some x \<Longrightarrow> x \<in> set xs \<and> P x"
  by (auto simp: find_Some_iff)

lemma find_NoneD: "find P xs = None \<Longrightarrow> x \<in> set xs \<Longrightarrow> \<not> P x"
  by (auto simp: find_None_iff)

lemma named_SomeD:
  "exact_named attr ls n = Some l \<Longrightarrow> l \<in> set ls \<and> loc_class (attr l) = 0 \<and> la_exact_match (attr l) \<and> la_name (attr l) = n"
  "inclusive_named attr ls n = Some l \<Longrightarrow> l \<in> set ls \<and> loc_class (attr l) = 0 \<and> \<not> la_exact_match (attr l) \<and> la_name (attr l) = n"
  unfolding exact_named_def inclusive_named_def by (drule find_SomeD, simp)+

lemma auto_none [simp]: "\<not> auto_of attr None None"
  by (simp add: auto_of_def auto_redirect_def)

lemma auto_entry: "auto_of attr (exact_named attr ls n) (inclusive_named attr ls n) \<Longrightarrow>
    (n, exact_named attr ls n, inclusive_named attr ls n) \<in> entries_of attr ls"
  by (cases "exact_named attr ls n"; cases "inclusive_named attr ls n") (auto simp: entries_of_def)

lemma same_prefix_length: "prefix a u \<Longrightarrow> prefix b u \<Longrightarrow> length a = length b \<Longrightarrow> a = b"
  by (auto simp: prefix_def append_eq_append_conv)

lemma answer_choice:
  assumes "answer attr (entries_of attr ls) uri (NGX_DECLINED, None) res"
    and unique: "\<And>l l'. l \<in> set ls \<Longrightarrow> l' \<in> set ls \<Longrightarrow> loc_class (attr l) = 0 \<Longrightarrow> loc_class (attr l') = 0 \<Longrightarrow>
      \<not> la_exact_match (attr l) \<Longrightarrow> \<not> la_exact_match (attr l') \<Longrightarrow> la_name (attr l) = la_name (attr l') \<Longrightarrow> l = l'"
  shows "res = static_choice attr ls uri"
proof -
  have inclusive: "\<exists>l'. inclusive_named attr ls (la_name (attr l)) = Some l'"
    if "l \<in> set ls" "loc_class (attr l) = 0" "\<not> la_exact_match (attr l)" for l
    using that find_NoneD unfolding inclusive_named_def by fastforce
  have none_at: "exact_named attr ls n = None \<and> inclusive_named attr ls n = None"
    if "\<And>e i. (n, e, i) \<notin> entries_of attr ls" for n
    using that [of "exact_named attr ls n" "inclusive_named attr ls n"] by (auto simp: entries_of_def)
  from assms(1) show ?thesis
  proof cases
    case (exact l i)
    have "exact_named attr ls uri = Some l" using exact(2) by (simp add: entries_of_def)
    then show ?thesis using exact(1) by (simp add: static_choice_def Let_def)
  next
    case (same l)
    have "exact_named attr ls uri = None" "inclusive_named attr ls uri = Some l" using same(2) by (simp_all add: entries_of_def)
    then show ?thesis using same(1) by (simp add: static_choice_def Let_def)
  next
    case (redirect e i)
    have "exact_named attr ls uri = None \<and> inclusive_named attr ls uri = None" using none_at redirect(2) by blast
    moreover have "e = exact_named attr ls (uri @ [slash])" "i = inclusive_named attr ls (uri @ [slash])"
      using redirect(3) by (simp_all add: entries_of_def)
    ultimately show ?thesis using redirect(1,4) by (simp add: static_choice_def Let_def)
  next
    case (longest y e l)
    have none: "exact_named attr ls uri = None \<and> inclusive_named attr ls uri = None" using none_at longest(2) by blast
    have no_redirect: "\<not> auto_of attr (exact_named attr ls (uri @ [slash])) (inclusive_named attr ls (uri @ [slash]))"
    proof
      assume auto: "auto_of attr (exact_named attr ls (uri @ [slash])) (inclusive_named attr ls (uri @ [slash]))"
      then have "(uri @ [slash], exact_named attr ls (uri @ [slash]), inclusive_named attr ls (uri @ [slash])) \<in> entries_of attr ls"
        by (rule auto_entry)
      then show False using longest(2) auto by blast
    qed
    have l: "inclusive_named attr ls y = Some l" using longest(3) by (simp add: entries_of_def)
    note l_in = named_SomeD(2) [OF l]
    obtain b where b: "longest_inclusive attr ls uri = Some b"
      using longest_inclusive(1) [of attr ls uri l] l_in longest(4) by (cases "longest_inclusive attr ls uri") auto
    note best = longest_inclusive(2) [OF b]
    have "length y \<le> length (la_name (attr b))" using best l_in longest(4) by blast
    moreover obtain l' where l': "inclusive_named attr ls (la_name (attr b)) = Some l'" using inclusive best by blast
    have "length (la_name (attr b)) \<le> length y"
      by (rule longest(5) [of _ "exact_named attr ls (la_name (attr b))" l']) (use l' best in \<open>auto simp: entries_of_def\<close>)
    ultimately have "la_name (attr b) = y" using same_prefix_length best longest(4) by (metis le_antisym)
    then have "b = l" using unique [of b l] best l_in by simp
    then show ?thesis using none no_redirect b longest(1) by (simp add: static_choice_def Let_def)
  next
    case keep
    have none: "exact_named attr ls uri = None \<and> inclusive_named attr ls uri = None"
      using none_at keep(2) by (fastforce simp: relevant_def)
    have no_redirect: "\<not> auto_of attr (exact_named attr ls (uri @ [slash])) (inclusive_named attr ls (uri @ [slash]))"
    proof
      assume auto: "auto_of attr (exact_named attr ls (uri @ [slash])) (inclusive_named attr ls (uri @ [slash]))"
      then have "(uri @ [slash], exact_named attr ls (uri @ [slash]), inclusive_named attr ls (uri @ [slash])) \<in> entries_of attr ls"
        by (rule auto_entry)
      then show False using keep(2) auto by (fastforce simp: relevant_def)
    qed
    have "longest_inclusive attr ls uri = None"
    proof (rule ccontr)
      assume "longest_inclusive attr ls uri \<noteq> None"
      then obtain b where "longest_inclusive attr ls uri = Some b" by blast
      note best = longest_inclusive(2) [OF this]
      obtain l' where "inclusive_named attr ls (la_name (attr b)) = Some l'" using inclusive best by blast
      then have "(la_name (attr b), exact_named attr ls (la_name (attr b)), Some l') \<in> entries_of attr ls" by (simp add: entries_of_def)
      then show False using keep(2) best by (fastforce simp: relevant_def)
    qed
    then show ?thesis using none no_redirect keep(1) by (simp add: static_choice_def Let_def)
  qed
qed

section \<open>The tree of a block\<close>

text \<open>What the parser of the configuration makes sure of; \<^verbatim>\<open>auto_redirect\<close> is set for names that end with a slash.\<close>

definition loc_ok :: "loc_attr \<Rightarrow> bool" where
  "loc_ok a \<longleftrightarrow> one_kind a \<and> 0 \<notin> set (la_name a) \<and> length (la_name a) < 2 ^ 16
     \<and> (la_auto_redirect a \<longrightarrow> la_name a \<noteq> [] \<and> last (la_name a) = slash)"

definition statics :: "('l \<Rightarrow> loc_attr) \<Rightarrow> 'l list \<Rightarrow> 'l lq list" where
  "statics attr ls = filter (\<lambda>q. loc_class (attr (lq_conf q)) = 0) (sort_key (loc_key attr) (map (ngx_http_add_location attr) ls))"

lemma in_statics: "q \<in> set (statics attr ls) \<longleftrightarrow> (\<exists>l \<in> set ls. loc_class (attr l) = 0 \<and> q = ngx_http_add_location attr l)"
  by (auto simp: statics_def)

lemma add_static:
  "loc_class (attr l) = 0 \<Longrightarrow> lq_exact (ngx_http_add_location attr l) = (if la_exact_match (attr l) then Some l else None)"
  "loc_class (attr l) = 0 \<Longrightarrow> lq_inclusive (ngx_http_add_location attr l) = (if la_exact_match (attr l) then None else Some l)"
  by (auto simp: ngx_http_add_location_def loc_class_def Let_def split: if_splits)

lemma statics_single:
  assumes "\<forall>l \<in> set ls. loc_ok (attr l)" "q \<in> set (statics attr ls)"
  shows "single q"
  using assms by (auto simp: in_statics single_def loc_ok_def add_static)

lemma statics_before:
  assumes "\<forall>l \<in> set ls. loc_ok (attr l)"
  shows "sorted_wrt before (statics attr ls)"
proof -
  have "sorted_wrt (\<lambda>a b. loc_key attr a \<le> loc_key attr b) (statics attr ls)"
    unfolding statics_def by (rule sorted_wrt_filter) (simp flip: sorted_wrt_map)
  then show ?thesis
  proof (rule sorted_wrt_mono_rel [rotated])
    fix a b assume "a \<in> set (statics attr ls)" "b \<in> set (statics attr ls)" "loc_key attr a \<le> loc_key attr b"
    then obtain l l' where l: "loc_class (attr l) = 0" "a = ngx_http_add_location attr l"
        "loc_class (attr l') = 0" "b = ngx_http_add_location attr l'"
      by (auto simp: in_statics)
    then show "before a b" using \<open>loc_key attr a \<le> loc_key attr b\<close>
      by (auto simp: before_def loc_key_def Let_def add_static split: if_splits)
  qed
qed

lemma exacts_statics: "exacts (statics attr ls) =
    {(la_name (attr l), l) |l. l \<in> set ls \<and> loc_class (attr l) = 0 \<and> la_exact_match (attr l)}"
  by (auto simp: exacts_def in_statics add_static split: if_splits) (rule bexI [where x = "ngx_http_add_location attr l" for l], auto simp: add_static in_statics)

lemma inclusives_statics: "inclusives (statics attr ls) =
    {(la_name (attr l), l) |l. l \<in> set ls \<and> loc_class (attr l) = 0 \<and> \<not> la_exact_match (attr l)}"
  by (auto simp: inclusives_def in_statics add_static split: if_splits) (rule bexI [where x = "ngx_http_add_location attr l" for l], auto simp: add_static in_statics)

lemma names_distinct:
  assumes "names_ok (map entry_of js)" "j \<in> set js" "j' \<in> set js" "lq_name j = lq_name j'"
  shows "j = j'"
proof -
  have "sorted_wrt (\<lambda>a b. path_key (lq_name a) < path_key (lq_name b)) js"
    using assms(1) by (simp add: names_ok_def sorted_wrt_map entry_of_def)
  then have "distinct (map (\<lambda>j. path_key (lq_name j)) js)"
    using strict_sorted_iff [of "map (\<lambda>j. path_key (lq_name j)) js"] by (simp add: sorted_wrt_map)
  then have "inj_on (\<lambda>j. path_key (lq_name j)) (set js)" by (simp add: distinct_map)
  then show ?thesis by (rule inj_onD) (use assms(2-4) in simp_all)
qed

lemma joined_entries:
  assumes "names_ok (map entry_of js)" "\<forall>j \<in> set js. joined j"
    and "exacts js = exacts (statics attr ls)" "inclusives js = inclusives (statics attr ls)"
  shows "set (map entry_of js) = entries_of attr ls"
proof -
  have e: "lq_exact j = exact_named attr ls (lq_name j)" if j: "j \<in> set js" for j
  proof (cases "exact_named attr ls (lq_name j)")
    case None
    have "lq_exact j = None"
    proof (rule ccontr)
      assume "lq_exact j \<noteq> None"
      then obtain l where "(lq_name j, l) \<in> exacts js" using j by (auto simp: exacts_def)
      then have "l \<in> set ls" "loc_class (attr l) = 0" "la_exact_match (attr l)" "la_name (attr l) = lq_name j"
        using assms(3) by (auto simp: exacts_statics)
      then show False using find_NoneD [OF None [unfolded exact_named_def]] by blast
    qed
    then show ?thesis using None by simp
  next
    case (Some l)
    then have "(lq_name j, l) \<in> exacts js" using named_SomeD(1) [OF Some] assms(3) by (auto simp: exacts_statics)
    then obtain j' where "j' \<in> set js" "lq_name j' = lq_name j" "lq_exact j' = Some l" by (auto simp: exacts_def)
    then show ?thesis using names_distinct [OF assms(1), of j' j] j Some by simp
  qed
  have i: "lq_inclusive j = inclusive_named attr ls (lq_name j)" if j: "j \<in> set js" for j
  proof (cases "inclusive_named attr ls (lq_name j)")
    case None
    have "lq_inclusive j = None"
    proof (rule ccontr)
      assume "lq_inclusive j \<noteq> None"
      then obtain l where "(lq_name j, l) \<in> inclusives js" using j by (auto simp: inclusives_def)
      then have "l \<in> set ls" "loc_class (attr l) = 0" "\<not> la_exact_match (attr l)" "la_name (attr l) = lq_name j"
        using assms(4) by (auto simp: inclusives_statics)
      then show False using find_NoneD [OF None [unfolded inclusive_named_def]] by blast
    qed
    then show ?thesis using None by simp
  next
    case (Some l)
    then have "(lq_name j, l) \<in> inclusives js" using named_SomeD(2) [OF Some] assms(4) by (auto simp: inclusives_statics)
    then obtain j' where "j' \<in> set js" "lq_name j' = lq_name j" "lq_inclusive j' = Some l" by (auto simp: inclusives_def)
    then show ?thesis using names_distinct [OF assms(1), of j' j] j Some by simp
  qed
  have "\<exists>j \<in> set js. lq_name j = n" if "exact_named attr ls n \<noteq> None \<or> inclusive_named attr ls n \<noteq> None" for n
  proof -
    from that obtain l where "(n, l) \<in> exacts js \<or> (n, l) \<in> inclusives js"
      using named_SomeD assms(3,4) by (fastforce simp: exacts_statics inclusives_statics)
    then show ?thesis by (auto simp: exacts_def inclusives_def)
  qed
  then show ?thesis using e i assms(2) by (fastforce simp: entries_of_def entry_of_def joined_def)
qed

lemma statics_join:
  assumes "\<forall>l \<in> set ls. loc_ok (attr l)"
  shows "case ngx_http_join_exact_locations (statics attr ls) of
      None \<Rightarrow> \<not> sorted_wrt (\<lambda>a b. \<not> clash a b) (statics attr ls)
    | Some js \<Rightarrow> sorted_wrt (\<lambda>a b. \<not> clash a b) (statics attr ls) \<and> names_ok (map entry_of js) \<and> (\<forall>j \<in> set js. joined j)
        \<and> exacts js = exacts (statics attr ls) \<and> inclusives js = inclusives (statics attr ls)
        \<and> map lq_name js = remdups_adj (map lq_name (statics attr ls))"
proof (rule join_exact [OF statics_before [OF assms]])
  show "case statics attr ls of [] \<Rightarrow> True | q # rest \<Rightarrow> joined q \<and> (\<forall>r \<in> set rest. single r)"
    using statics_single [OF assms, of "hd (statics attr ls)"] statics_single [OF assms] single_joined
    by (cases "statics attr ls") auto
qed

lemma init_static_None:
  "\<forall>l \<in> set ls. loc_ok (attr l) \<Longrightarrow>
    ngx_http_init_static_location_trees attr (statics attr ls) = None \<longleftrightarrow> \<not> sorted_wrt (\<lambda>a b. \<not> clash a b) (statics attr ls)"
  using statics_join [of ls attr] by (auto simp: ngx_http_init_static_location_trees_def split: option.splits)

text \<open>The tree has the entries of its block, in the order of their names, and the form that the search needs.\<close>

lemma tree_built:
  assumes "\<forall>l \<in> set ls. loc_ok (attr l)" "ngx_http_init_static_location_trees attr (statics attr ls) = Some t"
  shows "tree_ok attr [] t \<and> names_ok (tree_flat [] t) \<and> set (tree_flat [] t) = entries_of attr ls"
    and "\<And>l l'. l \<in> set ls \<Longrightarrow> l' \<in> set ls \<Longrightarrow> loc_class (attr l) = 0 \<Longrightarrow> loc_class (attr l') = 0 \<Longrightarrow>
      \<not> la_exact_match (attr l) \<Longrightarrow> \<not> la_exact_match (attr l') \<Longrightarrow> la_name (attr l) = la_name (attr l') \<Longrightarrow> l = l'"
proof -
  obtain js where js: "ngx_http_join_exact_locations (statics attr ls) = Some js"
    using assms(2) by (cases "statics attr ls = []") (auto simp: ngx_http_init_static_location_trees_def)
  have t: "t = ngx_http_create_locations_tree attr (ngx_http_create_locations_list js) 0"
    using assms(2) js by (cases "statics attr ls = []") (auto simp: ngx_http_init_static_location_trees_def)
  note joined = statics_join [OF assms(1), unfolded js option.case]
  have names: "names_ok (map entry_of js)" and all: "\<forall>j \<in> set js. joined j" using joined by blast+
  have entries: "set (map entry_of js) = entries_of attr ls" using joined joined_entries by blast
  have list: "flat (ngx_http_create_locations_list js) = map entry_of js \<and> list_ok (ngx_http_create_locations_list js)"
    by (rule create_list) (use all names in \<open>auto simp: joined_def\<close>)
  have entry: "loc_entry_ok attr x" if x: "x \<in> entries_of attr ls" for x
  proof -
    obtain n where n: "x = (n, exact_named attr ls n, inclusive_named attr ls n)"
      "exact_named attr ls n \<noteq> None \<or> inclusive_named attr ls n \<noteq> None" using x by (auto simp: entries_of_def)
    then show ?thesis using assms(1) named_SomeD [of attr ls n]
      by (auto simp: loc_entry_ok_def loc_ok_def auto_of_def auto_redirect_def split: option.splits)
  qed
  have "tree_flat [] t = map entry_of js \<and> tree_ok attr [] t"
    using create_tree [of "ngx_http_create_locations_list js" attr "[]"] list names entry entries
    unfolding t by (fastforce simp: loc_entry_ok_def)
  then show "tree_ok attr [] t \<and> names_ok (tree_flat [] t) \<and> set (tree_flat [] t) = entries_of attr ls"
    using names entries by simp
  fix l l' assume "l \<in> set ls" "l' \<in> set ls" "loc_class (attr l) = 0" "loc_class (attr l') = 0"
    "\<not> la_exact_match (attr l)" "\<not> la_exact_match (attr l')" "la_name (attr l) = la_name (attr l')"
  then have "(la_name (attr l), l) \<in> inclusives js" "(la_name (attr l), l') \<in> inclusives js"
    using joined by (auto simp: inclusives_statics)
  then show "l = l'" using names_distinct [OF names] by (auto simp: inclusives_def) (metis option.inject)
qed

lemma init_static:
  assumes "\<forall>l \<in> set ls. loc_ok (attr l)" "ngx_http_init_static_location_trees attr (statics attr ls) = Some t" "0 \<notin> set uri"
  shows "ngx_http_core_find_static_location uri t NGX_DECLINED None = static_choice attr ls uri"
proof (rule answer_choice)
  show "answer attr (entries_of attr ls) uri (NGX_DECLINED, None) (ngx_http_core_find_static_location uri t NGX_DECLINED None)"
    using find_answer [of attr "[]" t uri NGX_DECLINED None] tree_built(1) [OF assms(1,2)] assms(3) by simp
qed (rule tree_built(2) [OF assms(1,2)])

section \<open>What is documented\<close>

text \<open>
  In a block, the choice by prefix; for an inclusive location its own block is asked in the same way.  Unless the answer is
  final, or the location has \<^verbatim>\<open>^~\<close>, the regular expressions of the block are tested in their order.
\<close>

lemma choice_in: "static_choice attr ls uri = (rc, Some l) \<Longrightarrow> l \<in> set ls"
  using named_SomeD [of attr ls _ l] longest_inclusive(2) [of attr ls uri l]
  by (auto simp: static_choice_def Let_def split: if_splits option.splits)

abbreviation regexes :: "('l \<Rightarrow> loc_attr) \<Rightarrow> 'l list \<Rightarrow> 'l list" where
  "regexes attr \<equiv> filter (\<lambda>l. loc_class (attr l) = 1)"

function documented :: "(nat \<Rightarrow> ngx_str \<Rightarrow> regex_result) \<Rightarrow> ngx_str \<Rightarrow> conf \<Rightarrow> ngx_rc \<times> conf" where
  "documented exec uri c =
     (case static_choice c_attr (c_locations c) uri of
        (rc, found) \<Rightarrow>
          (case (case found of
                   Some d \<Rightarrow> if rc = NGX_AGAIN then (documented exec uri d, la_noregex (c_attr d)) else ((rc, d), False)
                 | None \<Rightarrow> ((rc, c), False)) of
             ((rc, current), noregex) \<Rightarrow>
               if rc = NGX_OK \<or> rc = NGX_DONE then (rc, current)
               else if noregex then (rc, current)
               else
                 (case test_regexes exec c_attr uri (regexes c_attr (c_locations c)) of
                    Found d \<Rightarrow> (case documented exec uri d of (rc, current) \<Rightarrow> (if rc = NGX_ERROR then rc else NGX_OK, current))
                  | Not_found \<Rightarrow> (rc, current)
                  | Test_error \<Rightarrow> (NGX_ERROR, current))))"
  by pat_completeness auto
termination
proof (relation "measure (\<lambda>(exec, uri, c). size c)")
  fix exec :: "nat \<Rightarrow> ngx_str \<Rightarrow> regex_result" and uri c rc found d
  assume "(rc, found) = static_choice c_attr (c_locations c) uri" "found = Some d"
  then have "d \<in> set (c_locations c)" using choice_in by metis
  then have "size d \<le> size_list size (c_locations c)" by (simp add: size_list_estimation')
  then show "((exec, uri, d), exec, uri, c) \<in> measure (\<lambda>(exec, uri, c). size c)" by (cases c) simp
next
  fix exec :: "nat \<Rightarrow> ngx_str \<Rightarrow> regex_result" and uri c d
  assume "test_regexes exec c_attr uri (regexes c_attr (c_locations c)) = Found d"
  then have "d \<in> set (c_locations c)" by (auto dest: tested_in)
  then have "size d \<le> size_list size (c_locations c)" by (simp add: size_list_estimation')
  then show "((exec, uri, d), exec, uri, c) \<in> measure (\<lambda>(exec, uri, c). size c)" by (cases c) simp
qed simp

declare documented.simps [simp del]

text \<open>The conditions on a configuration; a static location must not be inside a regular expression, where it would not be reached.\<close>

fun conf_ok :: "bool \<Rightarrow> conf \<Rightarrow> bool" where
  "conf_ok reached (Conf a subs) \<longleftrightarrow>
     (\<forall>c \<in> set subs. loc_ok (c_attr c) \<and> (loc_class (c_attr c) = 0 \<longrightarrow> reached) \<and> conf_ok (reached \<and> is_static (c_attr c)) c)"

lemma is_static_class: "is_static a \<longleftrightarrow> loc_class a = 0"
  by (auto simp: is_static_def loc_class_def)

section \<open>Locations and their preparation\<close>

text \<open>Two lists of locations with the same attributes give the same choice.\<close>

lemma find_rel: "list_all2 R xs ys \<Longrightarrow> (\<And>x y. R x y \<Longrightarrow> P x = Q y) \<Longrightarrow> rel_option R (find P xs) (find Q ys)"
  by (induction xs ys rule: list_all2_induct) auto

lemma filter_rel: "list_all2 R xs ys \<Longrightarrow> (\<And>x y. R x y \<Longrightarrow> P x = Q y) \<Longrightarrow> list_all2 R (filter P xs) (filter Q ys)"
  by (induction xs ys rule: list_all2_induct) auto

lemma longer_rel: "R x y \<Longrightarrow> rel_option R b b' \<Longrightarrow> (\<And>x y. R x y \<Longrightarrow> f x = g y) \<Longrightarrow>
    rel_option R (longer f uri x b) (longer g uri y b')"
  by (auto simp: longer_def option_rel_Some1 elim!: option.rel_cases)

lemma longest_rel:
  assumes "list_all2 R xs ys" "\<And>x y. R x y \<Longrightarrow> f x = g y" "rel_option R b b'"
  shows "rel_option R (fold (longer f uri) xs b) (fold (longer g uri) ys b')"
  using assms(1,3)
proof (induction arbitrary: b b' rule: list_all2_induct)
  case (Cons x xs y ys)
  have "rel_option R (longer f uri x b) (longer g uri y b')" by (rule longer_rel [OF Cons(1) Cons.prems assms(2)])
  from Cons.IH [OF this] show ?case by simp
qed simp

lemma auto_rel: "rel_option R e e' \<Longrightarrow> rel_option R i i' \<Longrightarrow> (\<And>x y. R x y \<Longrightarrow> f x = g y) \<Longrightarrow> auto_of f e i = auto_of g e' i'"
  by (auto simp: auto_of_def auto_redirect_def elim!: option.rel_cases)

lemma choose_rel:
  assumes "rel_option R e1 e2" "rel_option R i1 i2" "rel_option R s1 s2" "rel_option R t1 t2" "rel_option R b1 b2"
  shows "rel_prod (=) (rel_option R)
    (if e1 \<noteq> None then (NGX_OK, e1) else if i1 \<noteq> None then (NGX_AGAIN, i1)
     else if a then (NGX_DONE, if s1 \<noteq> None then s1 else t1)
     else case b1 of Some l \<Rightarrow> (NGX_AGAIN, Some l) | None \<Rightarrow> (NGX_DECLINED, None))
    (if e2 \<noteq> None then (NGX_OK, e2) else if i2 \<noteq> None then (NGX_AGAIN, i2)
     else if a then (NGX_DONE, if s2 \<noteq> None then s2 else t2)
     else case b2 of Some l \<Rightarrow> (NGX_AGAIN, Some l) | None \<Rightarrow> (NGX_DECLINED, None))"
  using assms by (auto elim!: option.rel_cases)

lemma choice_rel:
  assumes "list_all2 R xs ys" "\<And>x y. R x y \<Longrightarrow> f x = g y"
  shows "rel_prod (=) (rel_option R) (static_choice f xs uri) (static_choice g ys uri)"
proof -
  have e: "rel_option R (exact_named f xs n) (exact_named g ys n)" for n
    unfolding exact_named_def by (rule find_rel [OF assms(1)]) (simp add: assms(2))
  have i: "rel_option R (inclusive_named f xs n) (inclusive_named g ys n)" for n
    unfolding inclusive_named_def by (rule find_rel [OF assms(1)]) (simp add: assms(2))
  have l: "rel_option R (longest_inclusive f xs uri) (longest_inclusive g ys uri)"
    unfolding longest_inclusive_def by (rule longest_rel [OF assms]) auto
  have a: "auto_of f (exact_named f xs n) (inclusive_named f xs n) = auto_of g (exact_named g ys n) (inclusive_named g ys n)" for n
    by (rule auto_rel [OF e i assms(2)])
  show ?thesis
    unfolding static_choice_def Let_def a
    by (rule choose_rel [OF e i e i l])
qed

lemma tested_rel:
  assumes "list_all2 R xs ys" "\<And>x y. R x y \<Longrightarrow> f x = g y"
  shows "rel_tested R (test_regexes exec f uri xs) (test_regexes exec g uri ys)"
  using assms(1) by (induction rule: list_all2_induct) (auto simp: assms(2) split: regex_result.splits)

lemma those_rel: "those (map f xs) = Some ys \<longleftrightarrow> list_all2 (\<lambda>x y. f x = Some y) xs ys"
  by (induction xs arbitrary: ys) (auto simp: list_all2_Cons1 split: option.splits)

lemma prepare_attr: "prepare reached c = Some l \<Longrightarrow> l_attr l = c_attr c"
  by (cases c) (auto split: option.splits prod.splits)

lemma prepare_parts:
  assumes "prepare reached c = Some l" "conf_ok reached c"
  obtains ls t where "list_all2 (\<lambda>d l. prepare (reached \<and> is_static (c_attr d)) d = Some l) (c_locations c) ls"
    "\<forall>l \<in> set ls. loc_ok (l_attr l)" "l = Loc (c_attr c) t (regexes l_attr ls)"
    "if reached then ngx_http_init_static_location_trees l_attr (statics l_attr ls) = Some t else t = Null"
proof -
  obtain a subs where c: "c = Conf a subs" by (cases c)
  obtain ls where ls: "those (map (\<lambda>d. prepare (reached \<and> is_static (c_attr d)) d) subs) = Some ls"
    using assms(1) unfolding c by (auto split: option.splits)
  then have rel: "list_all2 (\<lambda>d l. prepare (reached \<and> is_static (c_attr d)) d = Some l) subs ls" by (simp add: those_rel)
  have ok: "\<forall>l \<in> set ls. loc_ok (l_attr l)"
  proof
    fix l assume "l \<in> set ls"
    then obtain i where "i < length ls" "l = ls ! i" by (auto simp: in_set_conv_nth)
    moreover have "length subs = length ls" using rel by (rule list_all2_lengthD)
    ultimately have "subs ! i \<in> set subs" "prepare (reached \<and> is_static (c_attr (subs ! i))) (subs ! i) = Some l"
      using rel by (auto simp: list_all2_conv_all_nth)
    then show "loc_ok (l_attr l)" using prepare_attr assms(2) unfolding c by force
  qed
  then have init: "ngx_http_init_locations l_attr (map (ngx_http_add_location l_attr) ls) =
      (statics l_attr ls, map (ngx_http_add_location l_attr) (regexes l_attr ls),
       filter (\<lambda>q. loc_class (l_attr (lq_conf q)) = 2) (sort_key (loc_key l_attr) (map (ngx_http_add_location l_attr) ls)))"
    unfolding statics_def by (intro init_locations) (simp add: loc_ok_def)
  have "map lq_conf (map (ngx_http_add_location l_attr) (regexes l_attr ls)) = regexes l_attr ls" by (simp add: comp_def)
  then obtain t where "l = Loc a t (regexes l_attr ls)"
      "if reached then ngx_http_init_static_location_trees l_attr (statics l_attr ls) = Some t else t = Null"
    using assms(1) unfolding c by (auto simp: ls init split: if_splits)
  then show ?thesis using that [of ls t] rel ok by (simp add: c)
qed

lemma no_static_choice:
  assumes "\<forall>l \<in> set ls. loc_class (attr l) \<noteq> 0"
  shows "static_choice attr ls uri = (NGX_DECLINED, None)"
proof -
  have none: "exact_named attr ls n = None" "inclusive_named attr ls n = None" for n
    using assms named_SomeD [of attr ls n] by (cases "exact_named attr ls n"; cases "inclusive_named attr ls n"; auto)+
  have "longest_inclusive attr ls uri = None" using longest_inclusive(2) [of attr ls uri] assms
    by (cases "longest_inclusive attr ls uri") auto
  then show ?thesis by (simp add: static_choice_def none)
qed

lemma static_related:
  assumes "prepare reached c = Some l" "conf_ok reached c" "0 \<notin> set uri"
  shows "rel_prod (=) (rel_option (\<lambda>d l. d \<in> set (c_locations c) \<and> prepare (reached \<and> is_static (c_attr d)) d = Some l))
      (static_choice c_attr (c_locations c) uri) (ngx_http_core_find_static_location uri (l_static l) NGX_DECLINED None)
    \<and> list_all2 (\<lambda>d l. d \<in> set (c_locations c) \<and> prepare (reached \<and> is_static (c_attr d)) d = Some l)
        (regexes c_attr (c_locations c)) (l_regex l)"
proof -
  let ?R = "\<lambda>d l. d \<in> set (c_locations c) \<and> prepare (reached \<and> is_static (c_attr d)) d = Some l"
  obtain ls t where ls: "list_all2 (\<lambda>d l. prepare (reached \<and> is_static (c_attr d)) d = Some l) (c_locations c) ls"
    and ok: "\<forall>l \<in> set ls. loc_ok (l_attr l)" and l: "l = Loc (c_attr c) t (regexes l_attr ls)"
    and t: "if reached then ngx_http_init_static_location_trees l_attr (statics l_attr ls) = Some t else t = Null"
    using prepare_parts [OF assms(1,2)] by blast
  have rel: "list_all2 ?R (c_locations c) ls" using ls by (auto simp: list_all2_conv_all_nth)
  have attr: "c_attr d = l_attr l" if "?R d l" for d l using that prepare_attr by force
  have choice: "rel_prod (=) (rel_option ?R) (static_choice c_attr (c_locations c) uri) (static_choice l_attr ls uri)"
    by (rule choice_rel [OF rel attr])
  have "ngx_http_core_find_static_location uri t NGX_DECLINED None = static_choice l_attr ls uri"
  proof (cases reached)
    case True
    then show ?thesis using init_static [OF ok _ assms(3)] t by simp
  next
    case False
    have "\<forall>l \<in> set ls. loc_class (l_attr l) \<noteq> 0"
    proof
      fix l assume "l \<in> set ls"
      then obtain i where "i < length ls" "l = ls ! i" by (auto simp: in_set_conv_nth)
      then have "?R (c_locations c ! i) l" using rel by (simp add: list_all2_conv_all_nth)
      then obtain d where "?R d l" by blast
      then have "d \<in> set (c_locations c)" "l_attr l = c_attr d" using attr by auto
      then show "loc_class (l_attr l) \<noteq> 0" using assms(2) False by (cases c) auto
    qed
    then show ?thesis using t False by (simp add: no_static_choice)
  qed
  then show ?thesis using choice filter_rel [OF rel, of "\<lambda>d. loc_class (c_attr d) = 1" "\<lambda>l. loc_class (l_attr l) = 1"] attr
    by (simp add: l)
qed

lemma sub_ok: "conf_ok reached c \<Longrightarrow> d \<in> set (c_locations c) \<Longrightarrow> conf_ok (reached \<and> is_static (c_attr d)) d"
  by (cases c) auto

lemma location_related:
  assumes "prepare reached c = Some l" "conf_ok reached c" "0 \<notin> set uri"
  shows "\<exists>reached'. fst (ngx_http_core_find_location exec uri l) = fst (documented exec uri c)
    \<and> prepare reached' (snd (documented exec uri c)) = Some (snd (ngx_http_core_find_location exec uri l))"
  using assms
proof (induction "size c" arbitrary: reached c l rule: less_induct)
  case less
  let ?R = "\<lambda>d l. d \<in> set (c_locations c) \<and> prepare (reached \<and> is_static (c_attr d)) d = Some l"
  have IH: "\<exists>reached'. fst (ngx_http_core_find_location exec uri m) = fst (documented exec uri d)
      \<and> prepare reached' (snd (documented exec uri d)) = Some (snd (ngx_http_core_find_location exec uri m))" if "?R d m" for d m
  proof (rule less.hyps [OF _ _ _ less.prems(3)])
    have "size d \<le> size_list size (c_locations c)" using that by (intro size_list_estimation' [of d]) auto
    then show "size d < size c" by (cases c) simp
    show "prepare (reached \<and> is_static (c_attr d)) d = Some m" using that by blast
    show "conf_ok (reached \<and> is_static (c_attr d)) d" using that sub_ok [OF less.prems(2)] by blast
  qed
  obtain rc found where c1: "static_choice c_attr (c_locations c) uri = (rc, found)" by fastforce
  obtain found' where l1: "ngx_http_core_find_static_location uri (l_static l) NGX_DECLINED None = (rc, found')"
    and found: "rel_option ?R found found'"
    using static_related [OF less.prems] c1 by (cases "ngx_http_core_find_static_location uri (l_static l) NGX_DECLINED None") auto
  have tested: "rel_tested ?R (test_regexes exec c_attr uri (regexes c_attr (c_locations c))) (test_regexes exec l_attr uri (l_regex l))"
    by (rule tested_rel) (use static_related [OF less.prems] prepare_attr in force)+
  define first where "first = (case found of
      Some d \<Rightarrow> if rc = NGX_AGAIN then (documented exec uri d, la_noregex (c_attr d)) else ((rc, d), False)
    | None \<Rightarrow> ((rc, c), False))"
  define first' where "first' = (case found' of
      Some m \<Rightarrow> if rc = NGX_AGAIN then (ngx_http_core_find_location exec uri m, la_noregex (l_attr m)) else ((rc, m), False)
    | None \<Rightarrow> ((rc, l), False))"
  obtain rc1 current noregex where f: "first = ((rc1, current), noregex)" by (metis surj_pair)
  have "\<exists>current' reached'. first' = ((rc1, current'), noregex) \<and> prepare reached' current = Some current'"
  proof (cases found)
    case None
    then show ?thesis using found f less.prems(1) by (auto simp: first_def first'_def)
  next
    case (Some d)
    then obtain m where m: "found' = Some m" "?R d m" using found by (auto simp: option_rel_Some1)
    have "l_attr m = c_attr d" using m(2) prepare_attr by blast
    then show ?thesis using IH [OF m(2)] m Some f
      by (cases "documented exec uri d"; cases "ngx_http_core_find_location exec uri m")
        (auto simp: first_def first'_def split: if_splits)
  qed
  then obtain current' reached' where f': "first' = ((rc1, current'), noregex)" and current: "prepare reached' current = Some current'"
    by blast
  have d: "documented exec uri c = (if rc1 = NGX_OK \<or> rc1 = NGX_DONE then (rc1, current) else if noregex then (rc1, current)
     else case test_regexes exec c_attr uri (regexes c_attr (c_locations c)) of
         Found d \<Rightarrow> (case documented exec uri d of (rc, current) \<Rightarrow> (if rc = NGX_ERROR then rc else NGX_OK, current))
       | Not_found \<Rightarrow> (rc1, current)
       | Test_error \<Rightarrow> (NGX_ERROR, current))"
    using f unfolding first_def by (subst documented.simps) (simp add: c1)
  have l: "ngx_http_core_find_location exec uri l = (if rc1 = NGX_OK \<or> rc1 = NGX_DONE then (rc1, current') else if noregex then (rc1, current')
     else case test_regexes exec l_attr uri (l_regex l) of
         Found m \<Rightarrow> (case ngx_http_core_find_location exec uri m of (rc, current) \<Rightarrow> (if rc = NGX_ERROR then rc else NGX_OK, current))
       | Not_found \<Rightarrow> (rc1, current')
       | Test_error \<Rightarrow> (NGX_ERROR, current'))"
    using f' unfolding first'_def by (subst ngx_http_core_find_location.simps) (simp add: l1)
  show ?case
  proof (cases "(rc1 = NGX_OK \<or> rc1 = NGX_DONE) \<or> noregex")
    case True
    then show ?thesis using current unfolding d l by auto
  next
    case False
    show ?thesis using tested
    proof (cases rule: tested.rel_cases)
      case (Found x y)
      then show ?thesis using IH [OF Found(3)] False unfolding d l by (auto split: prod.splits)
    qed (use current False in \<open>auto simp: d l\<close>)
  qed
qed

section \<open>Duplicates\<close>

fun attrs_ok :: "conf \<Rightarrow> bool" where
  "attrs_ok (Conf a subs) \<longleftrightarrow> (\<forall>c \<in> set subs. loc_ok (c_attr c) \<and> attrs_ok c)"

text \<open>In every block that is reached, the static locations differ in the name or in being exact.\<close>

fun no_duplicates :: "bool \<Rightarrow> conf \<Rightarrow> bool" where
  "no_duplicates reached (Conf a subs) \<longleftrightarrow>
     (reached \<longrightarrow> distinct (map (\<lambda>c. (la_name (c_attr c), la_exact_match (c_attr c))) (filter (\<lambda>c. is_static (c_attr c)) subs)))
     \<and> (\<forall>c \<in> set subs. no_duplicates (reached \<and> is_static (c_attr c)) c)"

lemma clash_free:
  assumes "\<forall>l \<in> set ls. loc_ok (attr l)"
  shows "sorted_wrt (\<lambda>a b. \<not> clash a b) (statics attr ls) \<longleftrightarrow>
    distinct (map (\<lambda>l. (la_name (attr l), la_exact_match (attr l))) (filter (\<lambda>l. loc_class (attr l) = 0) ls))"
proof -
  define kind where "kind q = (lq_name q, lq_exact q \<noteq> None)" for q :: "'a lq"
  have "clash a b \<longleftrightarrow> kind a = kind b" if "a \<in> set (statics attr ls)" "b \<in> set (statics attr ls)" for a b
    using statics_single [OF assms that(1)] statics_single [OF assms that(2)] by (auto simp: clash_def kind_def single_def)
  then have "sorted_wrt (\<lambda>a b. \<not> clash a b) (statics attr ls) \<longleftrightarrow> sorted_wrt (\<lambda>a b. kind a \<noteq> kind b) (statics attr ls)"
    by (auto elim: sorted_wrt_mono_rel [rotated])
  also have "\<dots> \<longleftrightarrow> distinct (map kind (statics attr ls))"
  proof -
    have "sorted_wrt (\<lambda>a b. kind a \<noteq> kind b) qs \<longleftrightarrow> distinct (map kind qs)" for qs by (induction qs) auto
    then show ?thesis .
  qed
  also have "\<dots> \<longleftrightarrow> distinct (map kind (map (ngx_http_add_location attr) (filter (\<lambda>l. loc_class (attr l) = 0) ls)))"
    by (intro mset_eq_imp_distinct_iff) (simp add: statics_def mset_filter filter_mset_image_mset image_mset.compositionality comp_def)
  also have "map kind (map (ngx_http_add_location attr) (filter (\<lambda>l. loc_class (attr l) = 0) ls)) =
      map (\<lambda>l. (la_name (attr l), la_exact_match (attr l))) (filter (\<lambda>l. loc_class (attr l) = 0) ls)"
    by (simp add: kind_def add_static)
  finally show ?thesis .
qed

lemma those_None: "those (map f xs) = None \<longleftrightarrow> (\<exists>x \<in> set xs. f x = None)"
  by (induction xs) (auto split: option.splits)

lemma prepare_exists: "attrs_ok c \<Longrightarrow> prepare reached c = None \<longleftrightarrow> \<not> no_duplicates reached c"
proof (induction reached c rule: prepare.induct)
  case (1 reached a subs)
  have IH: "prepare (reached \<and> is_static (c_attr c)) c = None \<longleftrightarrow> \<not> no_duplicates (reached \<and> is_static (c_attr c)) c"
    if "c \<in> set subs" for c
    using "1.IH" [OF that] "1.prems" that by simp
  show ?case
  proof (cases "those (map (\<lambda>c. prepare (reached \<and> is_static (c_attr c)) c) subs)")
    case None
    then obtain c where "c \<in> set subs" "prepare (reached \<and> is_static (c_attr c)) c = None" unfolding those_None by blast
    then have "\<not> no_duplicates reached (Conf a subs)" using IH by auto
    then show ?thesis using None by simp
  next
    case (Some ls)
    then have rel: "list_all2 (\<lambda>c l. prepare (reached \<and> is_static (c_attr c)) c = Some l) subs ls" by (simp add: those_rel)
    have subs: "\<forall>c \<in> set subs. no_duplicates (reached \<and> is_static (c_attr c)) c"
      using Some IH those_None [of "\<lambda>c. prepare (reached \<and> is_static (c_attr c)) c" subs] by auto
    have attrs: "list_all2 (\<lambda>c l. l_attr l = c_attr c) subs ls" using rel by (rule list_all2_mono) (rule prepare_attr)
    then have ok: "\<forall>l \<in> set ls. loc_ok (l_attr l)" using "1.prems" by (induction rule: list_all2_induct) auto
    have same: "map (\<lambda>l. (la_name (l_attr l), la_exact_match (l_attr l))) (filter (\<lambda>l. loc_class (l_attr l) = 0) ls) =
        map (\<lambda>c. (la_name (c_attr c), la_exact_match (c_attr c))) (filter (\<lambda>c. is_static (c_attr c)) subs)"
      using attrs by (induction rule: list_all2_induct) (auto simp: is_static_class)
    have "fst (ngx_http_init_locations l_attr (map (ngx_http_add_location l_attr) ls)) = statics l_attr ls"
      unfolding statics_def using ok by (subst init_locations) (auto simp: loc_ok_def)
    then show ?thesis
      using init_static_None [OF ok] clash_free [OF ok] subs unfolding same
      by (auto simp: Some split: prod.splits)
  qed
qed

section \<open>Properties\<close>

text \<open>C1: A request gets the location that the documentation names.  For a configuration that the server accepts, with
  blocks inside blocks and static ones outside of regular expressions, and for every path without a zero byte, the
  sorted and joined queue, the lists and the trees made of it, and the search in them lead to the same result and the same location
  as the rules: the exact name, the longest prefix, then the regular expressions in their order unless \<^verbatim>\<open>^~\<close>.\<close>

theorem location_documented:
  assumes "prepare True c = Some l" "conf_ok True c" "0 \<notin> set uri"
  shows "fst (ngx_http_core_find_location exec uri l) = fst (documented exec uri c)
    \<and> l_attr (snd (ngx_http_core_find_location exec uri l)) = c_attr (snd (documented exec uri c))"
  using location_related [OF assms] prepare_attr by blast

text \<open>A server with a default location, a prefix with a block of its own, an exact name, and a regular expression.\<close>

definition plain_location :: "string \<Rightarrow> loc_attr" where
  "plain_location name = \<lparr>la_name = bytes name, la_exact_match = False, la_noregex = False, la_named = False,
     la_noname = False, la_auto_redirect = False, la_regex = None\<rparr>"

definition site :: conf where
  "site = Conf (plain_location [])
     [Conf (plain_location ''/'') [],
      Conf ((plain_location ''php'')\<lparr>la_regex := Some 0\<rparr>) [],
      Conf ((plain_location ''/img/'')\<lparr>la_noregex := True\<rparr>) [Conf (plain_location ''/img/a'') []],
      Conf ((plain_location ''/img/logo'')\<lparr>la_exact_match := True\<rparr>) []]"

definition ends_php :: "nat \<Rightarrow> ngx_str \<Rightarrow> regex_result" where
  "ends_php n uri = (if drop (length uri - 4) uri = bytes ''.php'' then Matches else No_match)"

lemma location_documented_witness:
  "\<exists>l. prepare True site = Some l
    \<and> la_name (l_attr (snd (ngx_http_core_find_location ends_php (bytes ''/img/ab.php'') l))) = bytes ''/img/a''
    \<and> la_name (l_attr (snd (ngx_http_core_find_location ends_php (bytes ''/ab.php'') l))) = bytes ''php''"
proof -
  have "attrs_ok site" and ok: "conf_ok True site"
    by (simp_all add: site_def plain_location_def loc_ok_def one_kind_def loc_class_def is_static_def)
  moreover have "no_duplicates True site" by code_simp
  ultimately have "prepare True site \<noteq> None" using prepare_exists by blast
  then obtain l where l: "prepare True site = Some l" by blast
  have "la_name (c_attr (snd (documented ends_php (bytes ''/img/ab.php'') site))) = bytes ''/img/a''"
    "la_name (c_attr (snd (documented ends_php (bytes ''/ab.php'') site))) = bytes ''php''" by code_simp+
  then show ?thesis
    using l location_documented [OF l ok, of "bytes ''/img/ab.php''" ends_php] location_documented [OF l ok, of "bytes ''/ab.php''" ends_php]
    by simp
qed

text \<open>C25: The trees that the server builds are well formed.  Whatever the order of the locations in a block: the names of its
  tree ascend, with the slash as the lowest character, every node has a location, one below another has the longer name and
  only inclusive ones have any below them, no inclusive name begins one to the right of it, the lengths are not cut off, and each
  name has exactly its exact and its inclusive location.\<close>

theorem location_tree_formed:
  assumes "\<forall>l \<in> set ls. loc_ok (attr l)"
    and "ngx_http_init_static_location_trees attr (fst (ngx_http_init_locations attr (map (ngx_http_add_location attr) ls))) = Some t"
  shows "tree_ok attr [] t \<and> names_ok (tree_flat [] t) \<and> set (tree_flat [] t) = entries_of attr ls"
proof -
  have "fst (ngx_http_init_locations attr (map (ngx_http_add_location attr) ls)) = statics attr ls"
    unfolding statics_def using assms(1) by (subst init_locations) (auto simp: loc_ok_def)
  then show ?thesis using tree_built(1) [OF assms(1)] assms(2) by simp
qed

lemma location_tree_formed_witness:
  "\<exists>t. ngx_http_init_static_location_trees (\<lambda>a. a) (fst (ngx_http_init_locations (\<lambda>a. a)
      (map (ngx_http_add_location (\<lambda>a. a)) [plain_location ''/b'', plain_location ''/'']))) = Some t
    \<and> names_ok (tree_flat [] t) \<and> set (tree_flat [] t) = entries_of (\<lambda>a. a) [plain_location ''/b'', plain_location ''/'']"
proof -
  let ?ls = "[plain_location ''/b'', plain_location ''/'']"
  have ok: "\<forall>l \<in> set ?ls. loc_ok l" by (simp add: plain_location_def loc_ok_def one_kind_def)
  have "fst (ngx_http_init_locations (\<lambda>a. a) (map (ngx_http_add_location (\<lambda>a. a)) ?ls)) = statics (\<lambda>a. a) ?ls"
    unfolding statics_def using ok by (subst init_locations) (auto simp: loc_ok_def)
  moreover have "sorted_wrt (\<lambda>a b. \<not> clash a b) (statics (\<lambda>a. a) ?ls)"
    unfolding clash_free [of ?ls "\<lambda>a. a", OF ok] by (simp add: plain_location_def)
  ultimately obtain t where "ngx_http_init_static_location_trees (\<lambda>a. a)
      (fst (ngx_http_init_locations (\<lambda>a. a) (map (ngx_http_add_location (\<lambda>a. a)) ?ls))) = Some t"
    using init_static_None [of ?ls "\<lambda>a. a", OF ok] by (metis option.exhaust)
  then show ?thesis using location_tree_formed [of ?ls "\<lambda>a. a", OF ok] by blast
qed

end
