(* ===== verification/Ngx_Http_Server.thy ===== *)
theory Ngx_Http_Server
  imports Ngx_Http_Route
begin

text \<open>
  The blocks of a server that add locations: \<^verbatim>\<open>location\<close>, as \<^verbatim>\<open>ngx_http_core_location\<close> of
  \<^verbatim>\<open>http/ngx_http_core_module.c\<close> reads it, with \<^verbatim>\<open>if\<close> and \<^verbatim>\<open>limit_except\<close>, which add locations without a
  name.  Which of these configurations the server accepts, and what it makes of them.
\<close>

section \<open>Blocks\<close>

text \<open>
  A block with its arguments, whether there is a directive in it that passes requests on (\<^verbatim>\<open>proxy_pass\<close> and the like, which
  set \<^verbatim>\<open>auto_redirect\<close>), and the blocks in it.
\<close>

datatype directive =
    Location_block "ngx_str list" bool "directive list"
  | If_block bool "directive list"
  | Limit_except bool "directive list"

text \<open>\<^verbatim>\<open>cf->cmd_type\<close>: where a block stands.\<close>

datatype conf_context = In_server | In_location | In_noname

text \<open>The compiler of regular expressions: without case or not, the pattern, and the number of the expression.\<close>

type_synonym regex_compiler = "bool \<Rightarrow> ngx_str \<Rightarrow> nat option"

definition new_attr :: "ngx_str \<Rightarrow> loc_attr" where
  "new_attr name = \<lparr>la_name = name, la_exact_match = False, la_noregex = False, la_named = False, la_noname = False,
     la_auto_redirect = False, la_regex = None\<rparr>"

definition ngx_http_core_regex_location :: "regex_compiler \<Rightarrow> bool \<Rightarrow> ngx_str \<Rightarrow> loc_attr option" where
  "ngx_http_core_regex_location compile caseless regex =
     map_option (\<lambda>n. (new_attr regex)\<lparr>la_regex := Some n\<rparr>) (compile caseless regex)"

text \<open>A byte of an argument, which ends with a zero.\<close>

definition char_at :: "ngx_str \<Rightarrow> nat \<Rightarrow> u8" where
  "char_at s i = (if i < length s then s ! i else 0)"

text \<open>\<^verbatim>\<open>ngx_http_core_location\<close>: the location that the arguments describe.\<close>

definition location_attr :: "regex_compiler \<Rightarrow> ngx_str list \<Rightarrow> loc_attr option" where
  "location_attr compile args =
     (case args of
        [modifier, name] \<Rightarrow>
          if modifier = bytes ''='' then Some ((new_attr name)\<lparr>la_exact_match := True\<rparr>)
          else if modifier = bytes ''^~'' then Some ((new_attr name)\<lparr>la_noregex := True\<rparr>)
          else if modifier = bytes ''~'' then ngx_http_core_regex_location compile False name
          else if modifier = bytes ''~*'' then ngx_http_core_regex_location compile True name
          else None
      | [name] \<Rightarrow>
          if char_at name 0 = chr CHR ''='' then Some ((new_attr (drop 1 name))\<lparr>la_exact_match := True\<rparr>)
          else if char_at name 0 = chr CHR ''^'' \<and> char_at name 1 = chr CHR ''~''
          then Some ((new_attr (drop 2 name))\<lparr>la_noregex := True\<rparr>)
          else if char_at name 0 = chr CHR ''~'' then
            (let name = drop 1 name in
             if char_at name 0 = chr CHR ''*'' then ngx_http_core_regex_location compile True (drop 1 name)
             else ngx_http_core_regex_location compile False name)
          else Some ((new_attr name)\<lparr>la_named := (char_at name 0 = chr CHR ''@'')\<rparr>)
      | _ \<Rightarrow> None)"

text \<open>What may be inside a location.\<close>

definition location_allowed :: "loc_attr \<Rightarrow> loc_attr \<Rightarrow> bool" where
  "location_allowed parent a \<longleftrightarrow> \<not> la_exact_match parent \<and> \<not> la_named parent \<and> \<not> la_named a
     \<and> (la_regex a \<noteq> None \<or> ngx_filename_cmp (la_name a) (la_name parent) (length (la_name parent)) = 0)"

definition with_redirect :: "bool \<Rightarrow> loc_attr \<Rightarrow> loc_attr" where
  "with_redirect auto a = a\<lparr>la_auto_redirect := (auto \<and> la_name a \<noteq> [] \<and> last (la_name a) = slash)\<rparr>"

definition noname_attr :: "bool \<Rightarrow> loc_attr \<Rightarrow> loc_attr" where
  "noname_attr auto parent = with_redirect auto ((new_attr (la_name parent))\<lparr>la_noname := True\<rparr>)"

text \<open>A block and those in it; \<open>None\<close> when the configuration is refused.\<close>

fun read_directive :: "regex_compiler \<Rightarrow> conf_context \<Rightarrow> loc_attr \<Rightarrow> directive \<Rightarrow> conf option" where
  "read_directive compile ctx parent (Location_block args auto subs) =
     (if ctx = In_noname then None
      else
        (case location_attr compile args of
           None \<Rightarrow> None
         | Some a \<Rightarrow>
             if ctx = In_location \<and> \<not> location_allowed parent a then None
             else map_option (Conf (with_redirect auto a)) (those (map (read_directive compile In_location a) subs))))"
| "read_directive compile ctx parent (If_block auto subs) =
     (if ctx = In_noname then None
      else map_option (Conf (noname_attr auto parent)) (those (map (read_directive compile In_noname (noname_attr auto parent)) subs)))"
| "read_directive compile ctx parent (Limit_except auto subs) =
     (if ctx \<noteq> In_location then None
      else map_option (Conf (noname_attr auto parent)) (those (map (read_directive compile In_noname (noname_attr auto parent)) subs)))"

definition server_attr :: loc_attr where
  "server_attr = new_attr []"

definition read_server :: "regex_compiler \<Rightarrow> directive list \<Rightarrow> conf option" where
  "read_server compile ds = map_option (Conf server_attr) (those (map (read_directive compile In_server server_attr) ds))"

text \<open>The arguments as \<^verbatim>\<open>ngx_conf_read_token\<close> gives them: shorter than its buffer; without a zero byte.\<close>

fun tokens_ok :: "directive \<Rightarrow> bool" where
  "tokens_ok (Location_block args auto subs) \<longleftrightarrow>
     (\<forall>t \<in> set args. 0 \<notin> set t \<and> length t < 4096) \<and> (\<forall>d \<in> set subs. tokens_ok d)"
| "tokens_ok (If_block auto subs) \<longleftrightarrow> (\<forall>d \<in> set subs. tokens_ok d)"
| "tokens_ok (Limit_except auto subs) \<longleftrightarrow> (\<forall>d \<in> set subs. tokens_ok d)"

section \<open>What is documented\<close>

text \<open>The arguments of \<^verbatim>\<open>location\<close>: the modifier stands before the name or is joined to it.\<close>

inductive location_syntax :: "regex_compiler \<Rightarrow> ngx_str list \<Rightarrow> loc_attr \<Rightarrow> bool" for compile where
  prefix_name: "\<forall>m \<in> {''='', ''~'', ''^~'', ''@''}. \<not> prefix (bytes m) name \<Longrightarrow>
    location_syntax compile [name] (new_attr name)"
| named: "location_syntax compile [bytes ''@'' @ name] ((new_attr (bytes ''@'' @ name))\<lparr>la_named := True\<rparr>)"
| exact: "args = [bytes ''='', name] \<or> args = [bytes ''='' @ name] \<Longrightarrow>
    location_syntax compile args ((new_attr name)\<lparr>la_exact_match := True\<rparr>)"
| no_regex: "args = [bytes ''^~'', name] \<or> args = [bytes ''^~'' @ name] \<Longrightarrow>
    location_syntax compile args ((new_attr name)\<lparr>la_noregex := True\<rparr>)"
| regex: "args = [bytes ''~'', pat] \<or> args = [bytes ''~'' @ pat] \<and> \<not> prefix (bytes ''*'') pat \<Longrightarrow> compile False pat = Some n \<Longrightarrow>
    location_syntax compile args ((new_attr pat)\<lparr>la_regex := Some n\<rparr>)"
| caseless: "args = [bytes ''~*'', pat] \<or> args = [bytes ''~*'' @ pat] \<Longrightarrow> compile True pat = Some n \<Longrightarrow>
    location_syntax compile args ((new_attr pat)\<lparr>la_regex := Some n\<rparr>)"

text \<open>
  A location inside another: not in an exact or a named one; not itself named; and, but for regular expressions, with a name
  that begins with the name of the outer one, or with the text of its expression.
\<close>

definition may_hold :: "loc_attr \<Rightarrow> loc_attr \<Rightarrow> bool" where
  "may_hold parent a \<longleftrightarrow> \<not> la_exact_match parent \<and> \<not> la_named parent \<and> \<not> la_named a
     \<and> (la_regex a = None \<longrightarrow> prefix (la_name parent) (la_name a))"

text \<open>Blocks of locations may be in a server and in locations, \<^verbatim>\<open>if\<close> too, \<^verbatim>\<open>limit_except\<close> only in locations.\<close>

inductive means :: "regex_compiler \<Rightarrow> conf_context \<Rightarrow> loc_attr \<Rightarrow> directive \<Rightarrow> conf \<Rightarrow> bool" for compile where
  location: "location_syntax compile args a \<Longrightarrow> ctx = In_server \<or> ctx = In_location \<and> may_hold parent a \<Longrightarrow>
    list_all2 (means compile In_location a) subs cs \<Longrightarrow>
    means compile ctx parent (Location_block args auto subs) (Conf (with_redirect auto a) cs)"
| if_block: "ctx \<noteq> In_noname \<Longrightarrow> means compile ctx parent (If_block auto []) (Conf (noname_attr auto parent) [])"
| limit_except: "means compile In_location parent (Limit_except auto []) (Conf (noname_attr auto parent) [])"

inductive_cases location_means: "means compile ctx parent (Location_block args auto subs) c"
inductive_cases if_means: "means compile ctx parent (If_block auto subs) c"
inductive_cases limit_means: "means compile ctx parent (Limit_except auto subs) c"

section \<open>Reading\<close>

lemma prefix_star: "prefix (bytes ''*'') s \<longleftrightarrow> char_at s 0 = chr CHR ''*''"
  by (cases s) (auto simp: char_at_def)

lemma syntax_attr: "location_syntax compile args a \<Longrightarrow> location_attr compile args = Some a"
proof (induction rule: location_syntax.induct)
  case (prefix_name name)
  have "char_at name 0 \<noteq> chr CHR ''=''" "char_at name 0 \<noteq> chr CHR ''~''" "char_at name 0 \<noteq> chr CHR ''@''"
    "\<not> (char_at name 0 = chr CHR ''^'' \<and> char_at name 1 = chr CHR ''~'')"
    using prefix_name by (cases name; cases "tl name"; force simp: char_at_def)+
  then show ?case by (simp add: location_attr_def new_attr_def)
next
  case (regex args pat n)
  then show ?case using prefix_star [of pat] by (auto simp: location_attr_def ngx_http_core_regex_location_def) (auto simp: char_at_def)
qed (auto simp: location_attr_def ngx_http_core_regex_location_def char_at_def nth_append split: list.splits)

lemma char_first: "char_at s 0 = c \<Longrightarrow> c \<noteq> 0 \<Longrightarrow> s = [c] @ drop 1 s"
  by (cases s) (auto simp: char_at_def)

lemma char_second: "char_at s 0 = c \<Longrightarrow> c \<noteq> 0 \<Longrightarrow> char_at s 1 = d \<Longrightarrow> d \<noteq> 0 \<Longrightarrow> s = [c, d] @ drop 2 s"
  by (cases s; cases "tl s") (auto simp: char_at_def)

lemma one_attr:
  assumes "location_attr compile [name] = Some a"
  shows "location_syntax compile [name] a"
proof -
  consider (exact) "char_at name 0 = chr CHR ''=''" | (no_regex) "char_at name 0 = chr CHR ''^''" "char_at name 1 = chr CHR ''~''"
    | (caseless) "char_at name 0 = chr CHR ''~''" "char_at (drop 1 name) 0 = chr CHR ''*''"
    | (regex) "char_at name 0 = chr CHR ''~''" "char_at (drop 1 name) 0 \<noteq> chr CHR ''*''"
    | (named) "char_at name 0 = chr CHR ''@''"
    | (plain) "char_at name 0 \<notin> {chr CHR ''='', chr CHR ''~'', chr CHR ''@''}"
        "\<not> (char_at name 0 = chr CHR ''^'' \<and> char_at name 1 = chr CHR ''~'')" by blast
  then show ?thesis
  proof cases
    case exact
    then have "name = bytes ''='' @ drop 1 name" using char_first [of name "chr CHR ''=''"] by simp
    moreover have "a = (new_attr (drop 1 name))\<lparr>la_exact_match := True\<rparr>"
      using assms exact by (simp add: location_attr_def)
    ultimately show ?thesis using location_syntax.exact [of "[name]" "drop 1 name" compile] by simp
  next
    case no_regex
    then have "name = bytes ''^~'' @ drop 2 name" using char_second [of name "chr CHR ''^''" "chr CHR ''~''"] by simp
    moreover have "a = (new_attr (drop 2 name))\<lparr>la_noregex := True\<rparr>"
      using assms no_regex by (simp add: location_attr_def)
    ultimately show ?thesis using location_syntax.no_regex [of "[name]" "drop 2 name" compile] by simp
  next
    case caseless
    then have "drop 1 name = bytes ''*'' @ drop 1 (drop 1 name)" "name = bytes ''~'' @ drop 1 name"
      using char_first [of name "chr CHR ''~''"] char_first [of "drop 1 name" "chr CHR ''*''"] by simp_all
    then have name: "name = bytes ''~*'' @ drop 2 name" by (simp add: numeral_2_eq_2)
    have two: "drop 1 (drop 1 name) = drop 2 name" by (simp add: numeral_2_eq_2)
    have "ngx_http_core_regex_location compile True (drop 2 name) = Some a"
      using assms caseless unfolding two [symmetric] by (simp add: location_attr_def Let_def)
    then obtain n where "compile True (drop 2 name) = Some n" "a = (new_attr (drop 2 name))\<lparr>la_regex := Some n\<rparr>"
      by (auto simp: ngx_http_core_regex_location_def)
    then show ?thesis using name location_syntax.caseless [of "[name]" "drop 2 name" compile n] by simp
  next
    case regex
    then have name: "name = bytes ''~'' @ drop 1 name" using char_first [of name "chr CHR ''~''"] by simp
    moreover have "\<not> prefix (bytes ''*'') (drop 1 name)" using regex(2) unfolding prefix_star .
    moreover obtain n where "compile False (drop 1 name) = Some n" "a = (new_attr (drop 1 name))\<lparr>la_regex := Some n\<rparr>"
      using assms regex by (auto simp: location_attr_def ngx_http_core_regex_location_def Let_def)
    ultimately show ?thesis using location_syntax.regex [of "[name]" "drop 1 name" compile n] by simp
  next
    case named
    then have "name = bytes ''@'' @ drop 1 name" using char_first [of name "chr CHR ''@''"] by simp
    moreover have "a = (new_attr name)\<lparr>la_named := True\<rparr>" using assms named by (simp add: location_attr_def)
    ultimately show ?thesis using location_syntax.named [of compile "drop 1 name"] by simp
  next
    case plain
    have "\<forall>m \<in> {''='', ''~'', ''^~'', ''@''}. \<not> prefix (bytes m) name"
      using plain by (cases name; cases "tl name") (auto simp: char_at_def)
    moreover have "a = new_attr name" using assms plain by (auto simp: location_attr_def new_attr_def split: if_splits)
    ultimately show ?thesis using location_syntax.prefix_name [of name compile] by simp
  qed
qed

lemma two_attr:
  assumes "location_attr compile [m, name] = Some a"
  shows "location_syntax compile [m, name] a"
proof -
  consider (exact) "m = bytes ''=''" | (no_regex) "m = bytes ''^~''" | (regex) "m = bytes ''~''" | (caseless) "m = bytes ''~*''"
    using assms by (auto simp: location_attr_def split: if_splits)
  then show ?thesis
  proof cases
    case exact
    then have "a = (new_attr name)\<lparr>la_exact_match := True\<rparr>" using assms by (simp add: location_attr_def)
    then show ?thesis using location_syntax.exact [of "[m, name]" name compile] exact by simp
  next
    case no_regex
    then have "a = (new_attr name)\<lparr>la_noregex := True\<rparr>" using assms by (simp add: location_attr_def)
    then show ?thesis using location_syntax.no_regex [of "[m, name]" name compile] no_regex by simp
  next
    case regex
    then obtain n where "compile False name = Some n" "a = (new_attr name)\<lparr>la_regex := Some n\<rparr>"
      using assms by (auto simp: location_attr_def ngx_http_core_regex_location_def)
    then show ?thesis using location_syntax.regex [of "[m, name]" name compile n] regex by simp
  next
    case caseless
    then obtain n where "compile True name = Some n" "a = (new_attr name)\<lparr>la_regex := Some n\<rparr>"
      using assms by (auto simp: location_attr_def ngx_http_core_regex_location_def)
    then show ?thesis using location_syntax.caseless [of "[m, name]" name compile n] caseless by simp
  qed
qed

lemma attr_syntax: "location_attr compile args = Some a \<longleftrightarrow> location_syntax compile args a"
proof
  assume some: "location_attr compile args = Some a"
  then consider name where "args = [name]" | m name where "args = [m, name]"
    by (auto simp: location_attr_def split: list.splits)
  then show "location_syntax compile args a" using some one_attr two_attr by cases auto
qed (rule syntax_attr)

text \<open>What the arguments of a location give.\<close>

lemma syntax_name:
  assumes "location_syntax compile args a" "\<forall>t \<in> set args. 0 \<notin> set t \<and> length t < 4096"
  shows "0 \<notin> set (la_name a) \<and> length (la_name a) < 4096 \<and> \<not> la_noname a \<and> \<not> (la_named a \<and> la_regex a \<noteq> None)
    \<and> \<not> la_auto_redirect a"
  using assms by (induction rule: location_syntax.induct) (auto simp: new_attr_def)

lemma allowed_may_hold:
  assumes "0 \<notin> set (la_name parent)" "0 \<notin> set (la_name a)"
  shows "location_allowed parent a \<longleftrightarrow> may_hold parent a"
proof -
  have "take (length p) s = take (length p) p \<longleftrightarrow> prefix p s" for p s :: ngx_str
    by (auto simp: prefix_def) (metis append_take_drop_id)
  then show ?thesis
    using filename_zero [OF assms(2,1), of "length (la_name parent)"] by (auto simp: location_allowed_def may_hold_def)
qed

lemma noname_name [simp]: "la_name (noname_attr auto p) = la_name p" "la_name (with_redirect auto a) = la_name a"
  by (simp_all add: noname_attr_def with_redirect_def new_attr_def)

lemma read_in_noname: "read_directive compile In_noname parent d = None"
  by (cases d) simp_all

lemma those_none: "those (map f xs) = Some ys \<longleftrightarrow> xs = [] \<and> ys = []" if "\<And>x. f x = None"
  using that by (cases xs) auto

lemma those_means:
  assumes "\<And>d c. d \<in> set ds \<Longrightarrow> f d = Some c \<longleftrightarrow> R d c"
  shows "those (map f ds) = Some cs \<longleftrightarrow> list_all2 R ds cs"
  unfolding those_rel using assms by (auto simp: list_all2_conv_all_nth in_set_conv_nth)

text \<open>The code reads a block as it is documented.\<close>

lemma read_means:
  assumes "tokens_ok d" "0 \<notin> set (la_name parent)"
  shows "read_directive compile ctx parent d = Some c \<longleftrightarrow> means compile ctx parent d c"
  using assms
proof (induction compile ctx parent d arbitrary: c rule: read_directive.induct)
  case (1 compile ctx parent args auto subs)
  show ?case
  proof (cases "location_attr compile args")
    case None
    then show ?thesis by (auto simp flip: attr_syntax elim!: location_means)
  next
    case (Some a)
    have syn: "location_syntax compile args b \<longleftrightarrow> b = a" for b using attr_syntax [of compile args b] Some by auto
    have zero: "0 \<notin> set (la_name a)" using syntax_name [of compile args a] syn "1.prems"(1) by simp
    note allowed = allowed_may_hold [OF "1.prems"(2) zero]
    show ?thesis
    proof (cases "ctx = In_server \<or> ctx = In_location \<and> may_hold parent a")
      case True
      have "those (map (read_directive compile In_location a) subs) = Some cs \<longleftrightarrow> list_all2 (means compile In_location a) subs cs" for cs
      proof (rule those_means)
        fix d c assume "d \<in> set subs"
        then show "read_directive compile In_location a d = Some c \<longleftrightarrow> means compile In_location a d c"
          using "1.IH" [OF _ Some] True allowed zero "1.prems"(1) by auto
      qed
      then show ?thesis using True allowed Some syn
        by (auto elim!: location_means intro!: means.location)
    next
      case False
      then show ?thesis using allowed Some syn by (cases ctx) (auto elim!: location_means)
    qed
  qed
next
  case (2 compile ctx parent auto subs)
  show ?case
    using those_none [of "read_directive compile In_noname (noname_attr auto parent)" subs, OF read_in_noname]
    by (auto elim!: if_means intro: means.if_block)
next
  case (3 compile ctx parent auto subs)
  show ?case
    using those_none [of "read_directive compile In_noname (noname_attr auto parent)" subs, OF read_in_noname]
    by (auto elim!: limit_means intro: means.limit_except)
qed

text \<open>What is read has the attributes that the sort and the join rely on.\<close>

lemma redirect_ok: "0 \<notin> set (la_name a) \<Longrightarrow> length (la_name a) < 4096 \<Longrightarrow> one_kind a \<Longrightarrow> loc_ok (with_redirect auto a)"
  by (auto simp: loc_ok_def with_redirect_def one_kind_def)

lemma all2_in: "list_all2 P xs ys \<Longrightarrow> y \<in> set ys \<Longrightarrow> \<exists>x \<in> set xs. P x y"
  by (induction rule: list_all2_induct) auto

lemma means_ok:
  assumes "means compile ctx parent d c" "tokens_ok d" "0 \<notin> set (la_name parent)" "length (la_name parent) < 4096"
  shows "loc_ok (c_attr c) \<and> attrs_ok c"
  using assms
proof (induction rule: means.induct)
  case (location args a ctx parent subs cs auto)
  note name = syntax_name [OF location(1)]
  have "one_kind a" using name location.prems(1) by (simp add: one_kind_def)
  then have "loc_ok (with_redirect auto a)" using name location.prems(1) by (intro redirect_ok) simp_all
  moreover have "loc_ok (c_attr c) \<and> attrs_ok c" if c: "c \<in> set cs" for c
  proof -
    obtain d where "d \<in> set subs" "tokens_ok d \<longrightarrow> 0 \<notin> set (la_name a) \<longrightarrow> length (la_name a) < 4096 \<longrightarrow>
        loc_ok (c_attr c) \<and> attrs_ok c"
      using all2_in [OF location(3) c] by blast
    then show ?thesis using name location.prems(1) by auto
  qed
  ultimately show ?case by simp
qed (auto simp: noname_attr_def new_attr_def one_kind_def intro!: redirect_ok)

lemma server_name [simp]: "la_name server_attr = []"
  by (simp add: server_attr_def new_attr_def)

lemma read_server_means:
  assumes "\<forall>d \<in> set ds. tokens_ok d"
  shows "read_server compile ds = Some c \<longleftrightarrow> (\<exists>cs. c = Conf server_attr cs \<and> list_all2 (means compile In_server server_attr) ds cs)"
proof -
  have "those (map (read_directive compile In_server server_attr) ds) = Some cs \<longleftrightarrow>
      list_all2 (means compile In_server server_attr) ds cs" for cs
    using assms by (intro those_means read_means) auto
  then show ?thesis by (auto simp: read_server_def)
qed

lemma read_server_ok:
  assumes "\<forall>d \<in> set ds. tokens_ok d" "read_server compile ds = Some c"
  shows "attrs_ok c"
proof -
  obtain cs where cs: "c = Conf server_attr cs" "list_all2 (means compile In_server server_attr) ds cs"
    using assms(2) read_server_means [OF assms(1)] by blast
  have "loc_ok (c_attr d) \<and> attrs_ok d" if "d \<in> set cs" for d
    using all2_in [OF cs(2) that] means_ok assms(1) by fastforce
  then show ?thesis using cs(1) by simp
qed

section \<open>Locations that are not reached\<close>

text \<open>The configuration without the static locations for which no tree is built: those inside regular expressions.\<close>

fun strip :: "bool \<Rightarrow> conf \<Rightarrow> conf" where
  "strip reached (Conf a subs) =
     Conf a (map (\<lambda>c. strip (reached \<and> is_static (c_attr c)) c) (filter (\<lambda>c. reached \<or> \<not> is_static (c_attr c)) subs))"

lemma strip_attr [simp]: "c_attr (strip reached c) = c_attr c"
  by (cases c) simp

lemma strip_ok: "attrs_ok c \<Longrightarrow> conf_ok reached (strip reached c)"
  by (induction reached c rule: strip.induct) (auto simp: is_static_class)

lemma unreached_distinct: "no_duplicates False c"
  by (induction "False" c rule: no_duplicates.induct) auto

lemma prepare_unreached:
  assumes "\<forall>c \<in> set subs. loc_ok (c_attr c)" "those (map (prepare False) subs) = Some ls"
  shows "prepare False (Conf a subs) = Some (Loc a Null (regexes l_attr ls))"
proof -
  have rel: "list_all2 (\<lambda>c l. prepare False c = Some l) subs ls" using assms(2) by (simp add: those_rel)
  have "\<forall>l \<in> set ls. loc_ok (l_attr l)"
  proof
    fix l assume "l \<in> set ls"
    then obtain c where "c \<in> set subs" "prepare False c = Some l" using all2_in [OF rel] by blast
    then show "loc_ok (l_attr l)" using prepare_attr assms(1) by force
  qed
  then have "snd (ngx_http_init_locations l_attr (map (ngx_http_add_location l_attr) ls)) =
      (map (ngx_http_add_location l_attr) (regexes l_attr ls),
       filter (\<lambda>q. loc_class (l_attr (lq_conf q)) = 2) (sort_key (loc_key l_attr) (map (ngx_http_add_location l_attr) ls)))"
    by (subst init_locations) (simp_all add: loc_ok_def)
  moreover have "map lq_conf (map (ngx_http_add_location l_attr) (regexes l_attr ls)) = regexes l_attr ls" by (simp add: comp_def)
  ultimately show ?thesis using assms(2) by (auto split: prod.split)
qed

lemma prepare_strip: "attrs_ok c \<Longrightarrow> prepare reached (strip reached c) = prepare reached c"
proof (induction reached c rule: strip.induct)
  case (1 reached a subs)
  have IH: "prepare (reached \<and> is_static (c_attr c)) (strip (reached \<and> is_static (c_attr c)) c)
      = prepare (reached \<and> is_static (c_attr c)) c" if "c \<in> set subs" "reached \<or> \<not> is_static (c_attr c)" for c
    using "1.IH" [of c] that "1.prems" by auto
  show ?case
  proof (cases reached)
    case True
    then have subs: "map (\<lambda>c. prepare (is_static (c_attr c)) (strip (is_static (c_attr c)) c)) subs
        = map (\<lambda>c. prepare (is_static (c_attr c)) c) subs" using IH by simp
    show ?thesis using True by (simp add: comp_def subs)
  next
    case False
    let ?subs = "map (strip False) (filter (\<lambda>c. \<not> is_static (c_attr c)) subs)"
    have some: "prepare False c \<noteq> None" if "c \<in> set subs" for c
      using prepare_exists [of c False] unreached_distinct [of c] that "1.prems" by simp
    have "those (map (prepare False) subs) \<noteq> None" unfolding those_None using some by blast
    then obtain ls where ls: "those (map (prepare False) subs) = Some ls" by blast
    then have rel: "list_all2 (\<lambda>c l. prepare False c = Some l) subs ls" by (simp add: those_rel)
    have "list_all2 (\<lambda>c l. prepare False c = Some l) (filter (\<lambda>c. \<not> is_static (c_attr c)) subs)
        (filter (\<lambda>l. \<not> is_static (l_attr l)) ls)"
      by (rule filter_rel [OF rel]) (use prepare_attr in force)
    then have "those (map (prepare False) ?subs) = Some (filter (\<lambda>l. \<not> is_static (l_attr l)) ls)"
      unfolding those_rel list_all2_map1 by (rule list.rel_mono_strong) (use IH False in auto)
    moreover have "\<forall>c \<in> set ?subs. loc_ok (c_attr c)" using "1.prems" by auto
    ultimately have "prepare False (Conf a ?subs) = Some (Loc a Null (regexes l_attr (filter (\<lambda>l. \<not> is_static (l_attr l)) ls)))"
      by (intro prepare_unreached) simp_all
    moreover have "regexes l_attr (filter (\<lambda>l. \<not> is_static (l_attr l)) ls) = regexes l_attr ls"
      by (auto simp: is_static_class intro!: filter_cong)
    moreover have "prepare False (Conf a subs) = Some (Loc a Null (regexes l_attr ls))"
      by (rule prepare_unreached [OF _ ls]) (use "1.prems" in auto)
    ultimately show ?thesis using False by simp
  qed
qed

text \<open>A location inside a regular expression.\<close>

lemma leaf_prepared: "prepare reached (Conf d []) = Some (Loc d Null [])"
  by (simp add: ngx_http_init_locations_def ngx_sort_def split_at_def ngx_http_init_static_location_trees_def)

lemma leaf_documented: "documented exec uri (Conf d []) = (NGX_DECLINED, Conf d [])"
  by (subst documented.simps) (simp add: no_static_choice)

lemma regex_prepared:
  assumes "loc_ok d" "loc_ok r" "loc_class r = 1"
  shows "prepare True (Conf a [Conf r [Conf d []]]) = Some (Loc a Null [Loc r Null (if loc_class d = 1 then [Loc d Null []] else [])])"
proof -
  have "prepare False (Conf r [Conf d []]) = Some (Loc r Null (if loc_class d = 1 then [Loc d Null []] else []))"
    using prepare_unreached [of "[Conf d []]" "[Loc d Null []]" r] assms(1) by (simp add: leaf_prepared del: prepare.simps)
  moreover have "\<not> is_static r" using assms(3) by (simp add: is_static_class)
  ultimately show ?thesis
    using assms(2,3) by (simp del: prepare.simps add: prepare.simps [of True a "[Conf r [Conf d []]]"]
        init_locations [of "[Loc r Null xs]" l_attr for xs, simplified] loc_ok_def ngx_http_init_static_location_trees_def)
qed

text \<open>
  \<^verbatim>\<open>location ~ /a { location /ab { } }\<close> is accepted; a request that matches the expression and begins with the inner name
  belongs to the inner location by the rules, and gets the outer one.
\<close>

lemma regex_hides_prefix:
  assumes "0 \<notin> set name" "length name < 4094" "prefix pat name" "compile False pat = Some n"
    and "\<forall>m \<in> {''='', ''~'', ''^~'', ''@''}. \<not> prefix (bytes m) name"
    and "exec n uri = Matches" "prefix name uri"
  shows "\<exists>c l. read_server compile [Location_block [bytes ''~'', pat] False [Location_block [name] False []]] = Some c
    \<and> prepare True c = Some l
    \<and> fst (ngx_http_core_find_location exec uri l) = NGX_OK \<and> fst (documented exec uri c) = NGX_OK
    \<and> l_attr (snd (ngx_http_core_find_location exec uri l)) = (new_attr pat)\<lparr>la_regex := Some n\<rparr>
    \<and> c_attr (snd (documented exec uri c)) = new_attr name"
proof -
  let ?r = "(new_attr pat)\<lparr>la_regex := Some n\<rparr>" and ?d = "new_attr name"
  let ?c = "Conf server_attr [Conf ?r [Conf ?d []]]"
  have pat: "0 \<notin> set pat" "length pat < 4094"
    using assms(1-3) prefix_length_le [OF assms(3)] set_mono_prefix [OF assms(3)] by auto
  have plain: "with_redirect False a = a" if "\<not> la_auto_redirect a" for a
    using that by (simp add: with_redirect_def)
  have inner: "means compile In_location ?r (Location_block [name] False []) (Conf ?d [])"
    using means.location [OF location_syntax.prefix_name [OF assms(5)], where ctx = In_location and parent = ?r
        and subs = "[]" and cs = "[]" and auto = False and compile = compile] assms(3)
    by (simp add: plain may_hold_def new_attr_def)
  have "means compile In_server server_attr (Location_block [bytes ''~'', pat] False [Location_block [name] False []])
      (Conf ?r [Conf ?d []])"
    using means.location [OF location_syntax.regex [of "[bytes ''~'', pat]" pat compile n], where ctx = In_server
        and parent = server_attr and subs = "[Location_block [name] False []]" and cs = "[Conf ?d []]" and auto = False]
      assms(4) inner
    by (simp add: plain new_attr_def)
  then have read: "read_server compile [Location_block [bytes ''~'', pat] False [Location_block [name] False []]] = Some ?c"
    using assms(1,2) pat by (subst read_server_means) simp_all
  have d: "loc_ok ?d" "loc_class ?d = 0" and r: "loc_ok ?r" "loc_class ?r = 1"
    using assms(1,2) pat by (simp_all add: new_attr_def loc_ok_def one_kind_def loc_class_def)
  let ?l = "Loc server_attr Null [Loc ?r Null []]"
  have built: "prepare True ?c = Some ?l" using regex_prepared [OF d(1) r] d(2) by simp
  have "ngx_http_core_find_location exec uri ?l = (NGX_OK, Loc ?r Null [])"
    using assms(6) by (subst ngx_http_core_find_location.simps) (simp add: ngx_http_core_find_location.simps [of exec uri "Loc ?r Null []"])
  moreover have choice: "static_choice c_attr [Conf ?d []] uri = (NGX_AGAIN, Some (Conf ?d []))"
  proof -
    have "name \<noteq> uri @ [slash]" using assms(7) by auto
    then show ?thesis using d(2) assms(7)
      by (auto simp: static_choice_def exact_named_def inclusive_named_def longest_inclusive_def longer_def Let_def new_attr_def)
  qed
  moreover have "documented exec uri (Conf ?r [Conf ?d []]) = (NGX_DECLINED, Conf ?d [])"
    using choice d(2) by (subst documented.simps) (simp add: leaf_documented)
  moreover have "documented exec uri ?c = (NGX_OK, Conf ?d [])"
    using calculation(3) assms(6) r by (subst documented.simps) (simp add: no_static_choice)
  ultimately show ?thesis using read built by auto
qed

section \<open>Properties\<close>


text \<open>A server with a location inside another and an exact one of the same name; and one inside another but with a name outside.\<close>

definition any_pattern :: regex_compiler where
  "any_pattern caseless pattern = Some 0"




text \<open>C24: A prefix location inside a regular expression is never chosen.  For every configuration that the server accepts,
  the server that is built is the one of the same configuration without the static locations inside regular expressions, and
  every path without a zero byte gets the location that the documented rules choose there; although the directives accept such
  locations, and the rules would choose them (\<open>regex_hides_prefix\<close> above).  The queues of the regular expressions are
  split off before the trees are built, and none is built for the blocks in them.\<close>

theorem prefix_in_regex_ignored:
  assumes "\<forall>d \<in> set ds. tokens_ok d" "read_server compile ds = Some c" "prepare True c = Some l" "0 \<notin> set uri"
  shows "prepare True (strip True c) = Some l
    \<and> fst (ngx_http_core_find_location exec uri l) = fst (documented exec uri (strip True c))
    \<and> l_attr (snd (ngx_http_core_find_location exec uri l)) = c_attr (snd (documented exec uri (strip True c)))"
proof -
  have ok: "attrs_ok c" by (rule read_server_ok [OF assms(1,2)])
  have strip: "prepare True (strip True c) = Some l" using prepare_strip [OF ok] assms(3) by simp
  show ?thesis using strip location_related [OF strip strip_ok [OF ok] assms(4)] prepare_attr by blast
qed

definition begins_a :: "nat \<Rightarrow> ngx_str \<Rightarrow> regex_result" where
  "begins_a n uri = (if take 2 uri = bytes ''/a'' then Matches else No_match)"

lemma prefix_in_regex_ignored_witness:
  "\<exists>c l. read_server any_pattern [Location_block [bytes ''~'', bytes ''/a''] False [Location_block [bytes ''/ab''] False []]] = Some c
    \<and> prepare True (strip True c) = Some l
    \<and> c_attr (snd (documented begins_a (bytes ''/abc'') (strip True c))) = (new_attr (bytes ''/a''))\<lparr>la_regex := Some 0\<rparr>
    \<and> c_attr (snd (documented begins_a (bytes ''/abc'') c)) = new_attr (bytes ''/ab'')"
proof -
  let ?ds = "[Location_block [bytes ''~'', bytes ''/a''] False [Location_block [bytes ''/ab''] False []]]"
  have "any_pattern False (bytes ''/a'') = Some 0" "begins_a 0 (bytes ''/abc'') = Matches"
    by (simp_all add: any_pattern_def begins_a_def)
  then obtain c l where c: "read_server any_pattern ?ds = Some c" "prepare True c = Some l"
      "l_attr (snd (ngx_http_core_find_location begins_a (bytes ''/abc'') l)) = (new_attr (bytes ''/a''))\<lparr>la_regex := Some 0\<rparr>"
      "c_attr (snd (documented begins_a (bytes ''/abc'') c)) = new_attr (bytes ''/ab'')"
    using regex_hides_prefix [of "bytes ''/ab''" "bytes ''/a''" any_pattern 0 begins_a "bytes ''/abc''"] by auto
  have "\<forall>d \<in> set ?ds. tokens_ok d" "0 \<notin> set (bytes ''/abc'')" by simp_all
  from prefix_in_regex_ignored [OF this(1) c(1,2) this(2), of begins_a] show ?thesis using c by auto
qed

end
