(* ===== verification/Ngx_Rwlock.thy ===== *)
theory Ngx_Rwlock
  imports Ngx_System
begin

text \<open>
  The lock for readers and writers of \<^verbatim>\<open>core/ngx_rwlock.c\<close>, one word that processes share.  Each
  read of \<^verbatim>\<open>*lock\<close>, \<^verbatim>\<open>ngx_atomic_cmp_set\<close>, \<^verbatim>\<open>ngx_atomic_fetch_add\<close> and store is one step of one process.
\<close>

section \<open>The program of a process\<close>

definition NGX_RWLOCK_SPIN :: nat where
  "NGX_RWLOCK_SPIN = 2048"

definition NGX_RWLOCK_WLOCK :: u64 where
  "NGX_RWLOCK_WLOCK = - 1"

text \<open>
  Where a process is: outside, before the test or the exchange of \<^verbatim>\<open>ngx_rwlock_wlock\<close> or \<^verbatim>\<open>ngx_rwlock_rlock\<close>
  (with the attempt and the value read), with the lock, or in \<^verbatim>\<open>ngx_rwlock_unlock\<close> or \<^verbatim>\<open>ngx_rwlock_downgrade\<close>.  There
  the flag tells whether the process came as a writer; the code does not know it.
\<close>

datatype rw_pc =
    Outside
  | Wlock_test nat | Wlock_cas nat | Writing
  | Rlock_test nat | Rlock_cas nat u64 | Reading
  | Unlock_test bool | Unlock_cas bool | Unlock_add bool
  | Downgrade_test bool | Downgrade_set bool

datatype rw_call = Wlock | Rlock | Unlock | Downgrade

definition next_attempt :: "nat \<Rightarrow> nat \<Rightarrow> nat" where
  "next_attempt ncpu n = next_try ncpu NGX_RWLOCK_SPIN n"

fun ngx_rwlock_wlock :: "nat \<Rightarrow> rw_pc \<Rightarrow> u64 \<Rightarrow> rw_pc \<times> u64" where
  "ngx_rwlock_wlock ncpu (Wlock_test n) lock =
     ((if lock = 0 then Wlock_cas n else Wlock_test (next_attempt ncpu n)), lock)"
| "ngx_rwlock_wlock ncpu (Wlock_cas n) lock =
     (case ngx_atomic_cmp_set lock 0 NGX_RWLOCK_WLOCK of
        (True, lock) \<Rightarrow> (Writing, lock) | (False, lock) \<Rightarrow> (Wlock_test (next_attempt ncpu n), lock))"
| "ngx_rwlock_wlock ncpu pc lock = (pc, lock)"

fun ngx_rwlock_rlock :: "nat \<Rightarrow> rw_pc \<Rightarrow> u64 \<Rightarrow> rw_pc \<times> u64" where
  "ngx_rwlock_rlock ncpu (Rlock_test n) lock =
     ((if lock \<noteq> NGX_RWLOCK_WLOCK then Rlock_cas n lock else Rlock_test (next_attempt ncpu n)), lock)"
| "ngx_rwlock_rlock ncpu (Rlock_cas n readers) lock =
     (case ngx_atomic_cmp_set lock readers (readers + 1) of
        (True, lock) \<Rightarrow> (Reading, lock) | (False, lock) \<Rightarrow> (Rlock_test (next_attempt ncpu n), lock))"
| "ngx_rwlock_rlock ncpu pc lock = (pc, lock)"

fun ngx_rwlock_unlock :: "rw_pc \<Rightarrow> u64 \<Rightarrow> rw_pc \<times> u64" where
  "ngx_rwlock_unlock (Unlock_test w) lock = ((if lock = NGX_RWLOCK_WLOCK then Unlock_cas w else Unlock_add w), lock)"
| "ngx_rwlock_unlock (Unlock_cas w) lock = (Outside, snd (ngx_atomic_cmp_set lock NGX_RWLOCK_WLOCK 0))"
| "ngx_rwlock_unlock (Unlock_add w) lock = (Outside, lock - 1)"
| "ngx_rwlock_unlock pc lock = (pc, lock)"

fun ngx_rwlock_downgrade :: "rw_pc \<Rightarrow> u64 \<Rightarrow> rw_pc \<times> u64" where
  "ngx_rwlock_downgrade (Downgrade_test w) lock = ((if lock = NGX_RWLOCK_WLOCK then Downgrade_set w else Reading), lock)"
| "ngx_rwlock_downgrade (Downgrade_set w) lock = (Reading, 1)"
| "ngx_rwlock_downgrade pc lock = (pc, lock)"

text \<open>One step: inside a function, or a call.  Only a process with the lock unlocks and downgrades.\<close>

fun rw_next :: "nat \<Rightarrow> rw_call \<Rightarrow> rw_pc \<Rightarrow> u64 \<Rightarrow> rw_pc \<times> u64" where
  "rw_next ncpu call Outside lock =
     ((case call of Wlock \<Rightarrow> Wlock_test 0 | Rlock \<Rightarrow> Rlock_test 0 | _ \<Rightarrow> Outside), lock)"
| "rw_next ncpu call Writing lock =
     ((case call of Unlock \<Rightarrow> Unlock_test True | Downgrade \<Rightarrow> Downgrade_test True | _ \<Rightarrow> Writing), lock)"
| "rw_next ncpu call Reading lock =
     ((case call of Unlock \<Rightarrow> Unlock_test False | Downgrade \<Rightarrow> Downgrade_test False | _ \<Rightarrow> Reading), lock)"
| "rw_next ncpu call (Wlock_test n) lock = ngx_rwlock_wlock ncpu (Wlock_test n) lock"
| "rw_next ncpu call (Wlock_cas n) lock = ngx_rwlock_wlock ncpu (Wlock_cas n) lock"
| "rw_next ncpu call (Rlock_test n) lock = ngx_rwlock_rlock ncpu (Rlock_test n) lock"
| "rw_next ncpu call (Rlock_cas n r) lock = ngx_rwlock_rlock ncpu (Rlock_cas n r) lock"
| "rw_next ncpu call (Unlock_test w) lock = ngx_rwlock_unlock (Unlock_test w) lock"
| "rw_next ncpu call (Unlock_cas w) lock = ngx_rwlock_unlock (Unlock_cas w) lock"
| "rw_next ncpu call (Unlock_add w) lock = ngx_rwlock_unlock (Unlock_add w) lock"
| "rw_next ncpu call (Downgrade_test w) lock = ngx_rwlock_downgrade (Downgrade_test w) lock"
| "rw_next ncpu call (Downgrade_set w) lock = ngx_rwlock_downgrade (Downgrade_set w) lock"

type_synonym rw_state = "u64 \<times> rw_pc list"

inductive rw_step :: "nat \<Rightarrow> rw_state \<Rightarrow> rw_state \<Rightarrow> bool" for ncpu where
  "i < length ps \<Longrightarrow> rw_next ncpu call (ps ! i) lock = (pc, lock') \<Longrightarrow> rw_step ncpu (lock, ps) (lock', ps[i := pc])"

inductive_cases rw_stepE: "rw_step ncpu s s'"

text \<open>A new lock is zero; there are fewer processes than the word can count.\<close>

definition rw_init :: "nat \<Rightarrow> rw_state \<Rightarrow> bool" where
  "rw_init n s \<longleftrightarrow> s = (0, replicate n Outside) \<and> n < 2 ^ 64 - 1"

section \<open>The invariant\<close>

fun writes :: "rw_pc \<Rightarrow> bool" where
  "writes Writing = True"
| "writes (Unlock_test w) = w"
| "writes (Unlock_cas w) = w"
| "writes (Unlock_add w) = w"
| "writes (Downgrade_test w) = w"
| "writes (Downgrade_set w) = w"
| "writes pc = False"

fun reads :: "rw_pc \<Rightarrow> bool" where
  "reads Reading = True"
| "reads (Unlock_test w) = (\<not> w)"
| "reads (Unlock_cas w) = (\<not> w)"
| "reads (Unlock_add w) = (\<not> w)"
| "reads (Downgrade_test w) = (\<not> w)"
| "reads (Downgrade_set w) = (\<not> w)"
| "reads pc = False"

text \<open>A process in a branch of \<^verbatim>\<open>ngx_rwlock_unlock\<close> or \<^verbatim>\<open>ngx_rwlock_downgrade\<close> is of the kind the branch is for.\<close>

fun right_branch :: "rw_pc \<Rightarrow> bool" where
  "right_branch (Unlock_cas w) = w"
| "right_branch (Unlock_add w) = (\<not> w)"
| "right_branch (Downgrade_set w) = w"
| "right_branch (Rlock_cas n r) = (r \<noteq> NGX_RWLOCK_WLOCK)"
| "right_branch pc = True"

fun rw_inv :: "rw_state \<Rightarrow> bool" where
  "rw_inv (lock, ps) \<longleftrightarrow> length ps < 2 ^ 64 - 1 \<and> list_all right_branch ps
     \<and> (if lock = NGX_RWLOCK_WLOCK then count_pcs writes ps = 1 \<and> count_pcs reads ps = 0
        else count_pcs writes ps = 0 \<and> count_pcs reads ps = unat lock)"

definition rw_counts :: "u64 \<Rightarrow> nat \<Rightarrow> nat \<Rightarrow> bool" where
  "rw_counts lock w r \<longleftrightarrow> (if lock = NGX_RWLOCK_WLOCK then w = 1 \<and> r = 0 else w = 0 \<and> r = unat lock)"

lemma unat_wlock: "unat NGX_RWLOCK_WLOCK = 2 ^ 64 - 1"
  by (simp add: NGX_RWLOCK_WLOCK_def unsigned_minus_1_eq_mask mask_eq_exp_minus_1)

lemma wlock_not [simp]: "NGX_RWLOCK_WLOCK \<noteq> 0" "NGX_RWLOCK_WLOCK \<noteq> 1"
  by (simp_all add: NGX_RWLOCK_WLOCK_def)

lemma one_more:
  fixes lock :: u64
  assumes "unat lock < 2 ^ 64 - 2"
  shows "unat (lock + 1) = unat lock + 1" "lock + 1 \<noteq> NGX_RWLOCK_WLOCK"
proof -
  show "unat (lock + 1) = unat lock + 1" using assms by (simp add: unat_plus_if')
  then show "lock + 1 \<noteq> NGX_RWLOCK_WLOCK" using assms unat_wlock by auto
qed

lemma one_less:
  fixes lock :: u64
  assumes "lock \<noteq> 0"
  shows "unat (lock - 1) = unat lock - 1" "lock - 1 \<noteq> NGX_RWLOCK_WLOCK"
proof -
  have pos: "0 < unat lock" using assms by (simp add: unat_gt_0)
  have "unat lock = unat (1 + (lock - 1))" by simp
  show minus: "unat (lock - 1) = unat lock - 1" using assms by (simp add: unat_minus_one)
  have "unat lock < 2 ^ 64" using unsigned_less [of lock] by simp
  then show "lock - 1 \<noteq> NGX_RWLOCK_WLOCK" using minus unat_wlock pos by auto
qed

lemma rw_next_kept:
  assumes "rw_next ncpu call pc lock = (pc', lock')" "right_branch pc" "rw_counts lock w r"
    and "writes pc \<longrightarrow> 0 < w" "reads pc \<longrightarrow> 0 < r" "\<not> reads pc \<longrightarrow> r < n" "n < 2 ^ 64 - 1"
    and "w' + of_bool (writes pc) = w + of_bool (writes pc')" "r' + of_bool (reads pc) = r + of_bool (reads pc')"
  shows "right_branch pc' \<and> rw_counts lock' w' r'"
proof (cases pc)
  case (Rlock_cas k readers)
  have "readers \<noteq> NGX_RWLOCK_WLOCK" "r < n" using Rlock_cas assms(2,6) by simp_all
  then show ?thesis using Rlock_cas assms(1,3,7-9) one_more [of lock]
    by (auto simp: rw_counts_def ngx_atomic_cmp_set_def split: if_splits)
next
  case (Unlock_add u)
  then have "0 < r" using assms(2,5) by simp
  then have "lock \<noteq> NGX_RWLOCK_WLOCK" "lock \<noteq> 0" using assms(3) by (auto simp: rw_counts_def split: if_splits)
  then show ?thesis using Unlock_add assms(1-3,8,9) one_less [of lock]
    by (auto simp: rw_counts_def)
next
  case Outside
  then show ?thesis using assms(1,3,8,9) by (auto split: rw_call.splits)
next
  case Writing
  then show ?thesis using assms(1,3,8,9) by (auto split: rw_call.splits)
next
  case Reading
  then show ?thesis using assms(1,3,8,9) by (auto split: rw_call.splits)
qed (use assms in \<open>auto simp: rw_counts_def ngx_atomic_cmp_set_def split: if_splits\<close>)

interpretation rw: invariant "rw_init n" "rw_step ncpu" rw_inv for n ncpu
proof
  show "rw_init n s \<Longrightarrow> rw_inv s" for s
    by (auto simp: rw_init_def count_pcs_def list_all_iff)
next
  fix s s'
  assume inv: "rw_inv s" and "rw_step ncpu s s'"
  from this(2) obtain i ps call lock pc lock' where s: "s = (lock, ps)" "s' = (lock', ps[i := pc])"
      and i: "i < length ps" and rw_step: "rw_next ncpu call (ps ! i) lock = (pc, lock')"
    by (rule rw_stepE) blast
  have right: "list_all right_branch ps" and counts: "rw_counts lock (count_pcs writes ps) (count_pcs reads ps)"
      and few: "length ps < 2 ^ 64 - 1"
    using inv by (auto simp: s(1) rw_counts_def)
  have "right_branch pc \<and> rw_counts lock' (count_pcs writes (ps[i := pc])) (count_pcs reads (ps[i := pc]))"
    by (rule rw_next_kept [OF rw_step list_all_nthD [OF right i] counts _ _ _ few])
      (use count_pos [OF i] count_less [OF i] count_update [OF i] in auto)
  moreover have "list_all right_branch (ps[i := pc])" if "right_branch pc"
    using right that set_update_subset_insert [of ps i pc] by (auto simp: list_all_iff)
  ultimately show "rw_inv s'" using few by (simp add: s(2) rw_counts_def)
qed

section \<open>Properties\<close>

definition holds_write :: "rw_state \<Rightarrow> nat \<Rightarrow> bool" where
  "holds_write s i \<longleftrightarrow> i < length (snd s) \<and> writes (snd s ! i)"

definition holds_read :: "rw_state \<Rightarrow> nat \<Rightarrow> bool" where
  "holds_read s i \<longleftrightarrow> i < length (snd s) \<and> reads (snd s ! i)"

text \<open>C7: Whatever the order in which any number of processes take the steps of the four functions, a process that
  has the lock for writing is the only one that has it, and the word is then all ones; otherwise it is the
  number of the processes that have the lock for reading, those inside an unlock or a downgrade included.\<close>

theorem rwlock_exclusion:
  assumes "reach (rw_init n) (rw_step ncpu) s"
  shows "if \<exists>i. holds_write s i
    then fst s = NGX_RWLOCK_WLOCK \<and> (\<exists>!i. holds_write s i) \<and> (\<nexists>j. holds_read s j)
    else unat (fst s) = card {j. holds_read s j}"
proof -
  obtain lock ps where s: "s = (lock, ps)" by (cases s)
  have counts: "rw_counts lock (count_pcs writes ps) (count_pcs reads ps)"
    using rw.always [OF assms] by (auto simp: s rw_counts_def)
  have card: "card {j. holds_read s j} = count_pcs reads ps"
    by (simp add: s holds_read_def count_pcs_def length_filter_conv_card)
  show ?thesis
  proof (cases "\<exists>i. holds_write s i")
    case True
    then obtain i where i: "i < length ps" "writes (ps ! i)" by (auto simp: s holds_write_def)
    then have w: "lock = NGX_RWLOCK_WLOCK" "count_pcs writes ps = 1" "count_pcs reads ps = 0"
      using counts count_pos [of i ps writes] by (auto simp: rw_counts_def split: if_splits)
    have "j = i" if "holds_write s j" for j
      using count_two [of i ps j writes] that i w(2) by (auto simp: s holds_write_def)
    moreover have "\<not> holds_read s j" for j
      using count_pos [of j ps reads] w(3) by (auto simp: s holds_read_def)
    ultimately show ?thesis using True w(1) by (auto simp: s)
  next
    case False
    then have "count_pcs writes ps = 0" by (auto simp: s holds_write_def count_none list_all_length)
    then have "count_pcs reads ps = unat lock" using counts unfolding rw_counts_def
      by (cases "lock = NGX_RWLOCK_WLOCK") simp_all
    then show ?thesis using False card by (simp add: s)
  qed
qed

lemma two_outside: "replicate 2 Outside = [Outside, Outside]"
  by (simp add: numeral_2_eq_2)

lemma rwlock_exclusion_witness:
  "let s = (NGX_RWLOCK_WLOCK, [Writing, Outside]) in
   fst s = NGX_RWLOCK_WLOCK \<and> (\<exists>!i. holds_write s i) \<and> (\<nexists>j. holds_read s j)"
proof -
  have "reach (rw_init 2) (rw_step 4) (0, [Outside, Outside])"
    by (rule reach.start) (simp add: rw_init_def two_outside)
  moreover have "rw_step 4 (0, [Outside, Outside]) (0, [Wlock_test 0, Outside])"
    using rw_step.intros [of 0 "[Outside, Outside]" 4 Wlock 0 "Wlock_test 0" 0] by simp
  moreover have "rw_step 4 (0, [Wlock_test 0, Outside]) (0, [Wlock_cas 0, Outside])"
    using rw_step.intros [of 0 "[Wlock_test 0, Outside]" 4 Wlock 0 "Wlock_cas 0" 0] by simp
  moreover have "rw_step 4 (0, [Wlock_cas 0, Outside]) (NGX_RWLOCK_WLOCK, [Writing, Outside])"
    using rw_step.intros [of 0 "[Wlock_cas 0, Outside]" 4 Wlock 0 Writing NGX_RWLOCK_WLOCK]
    by (simp add: ngx_atomic_cmp_set_def)
  ultimately have r: "reach (rw_init 2) (rw_step 4) (NGX_RWLOCK_WLOCK, [Writing, Outside])"
    by (blast intro: reach.further)
  have "holds_write (NGX_RWLOCK_WLOCK, [Writing, Outside]) 0" by (simp add: holds_write_def)
  then have "\<exists>i. holds_write (NGX_RWLOCK_WLOCK, [Writing, Outside]) i" ..
  then show ?thesis using rwlock_exclusion [OF r] unfolding Let_def by (simp only: if_True simp_thms)
qed

text \<open>Steps of one process while the others rest.\<close>

definition alone :: "nat \<Rightarrow> rw_call \<Rightarrow> nat \<Rightarrow> rw_state \<Rightarrow> rw_state" where
  "alone ncpu call i s =
     (case rw_next ncpu call (snd s ! i) (fst s) of (pc, lock) \<Rightarrow> (lock, (snd s)[i := pc]))"

fun wants_write :: "rw_pc \<Rightarrow> bool" where
  "wants_write (Wlock_test n) = True"
| "wants_write (Wlock_cas n) = True"
| "wants_write pc = False"

fun wants_read :: "rw_pc \<Rightarrow> bool" where
  "wants_read (Rlock_test n) = True"
| "wants_read (Rlock_cas n r) = True"
| "wants_read pc = False"

text \<open>C19: The lock is never lost.  In every state that can be reached, a process that waits for it gets it within three
  steps of its own when the others rest, unless one of them has the lock: for a reader, unless one has it for writing.\<close>

theorem rwlock_available:
  assumes "reach (rw_init n) (rw_step ncpu) s" "i < length (snd s)" "\<nexists>j. holds_write s j"
    and "wants_read (snd s ! i) \<or> wants_write (snd s ! i) \<and> (\<nexists>j. holds_read s j)"
  shows "\<exists>k\<le>3. snd ((alone ncpu call i ^^ k) s) ! i = (if wants_read (snd s ! i) then Reading else Writing)"
proof -
  obtain lock ps where s: "s = (lock, ps)" by (cases s)
  have counts: "rw_counts lock (count_pcs writes ps) (count_pcs reads ps)"
    using rw.always [OF assms(1)] by (auto simp: s rw_counts_def)
  have "count_pcs writes ps = 0" using assms(3) by (auto simp: s holds_write_def count_none list_all_length)
  then have lock: "lock \<noteq> NGX_RWLOCK_WLOCK" "unat lock = count_pcs reads ps"
    using counts unfolding rw_counts_def by (cases "lock = NGX_RWLOCK_WLOCK"; simp)+
  have i: "i < length ps" using assms(2) by (simp add: s)
  have two: "snd ((alone ncpu call i ^^ 2) s) ! i = (if wants_read (snd s ! i) then Reading else Writing)"
    if "(\<exists>m. snd s ! i = Rlock_test m) \<or> (\<exists>m. snd s ! i = Wlock_test m) \<and> fst s = 0" "fst s \<noteq> NGX_RWLOCK_WLOCK" "i < length (snd s)" for s
    using that by (auto simp: alone_def numeral_2_eq_2 ngx_atomic_cmp_set_def)
  have zero: "lock = 0" if "wants_write (ps ! i)"
  proof -
    have "\<nexists>j. holds_read s j" using assms(4) that by (cases "ps ! i") (auto simp: s)
    then have "count_pcs reads ps = 0" by (auto simp: s holds_read_def count_none list_all_length)
    then show ?thesis using lock(2) by (simp add: unat_eq_zero)
  qed
  show ?thesis
  proof (cases "ps ! i")
    case (Wlock_test m)
    then show ?thesis using two [of s] zero lock(1) i by (intro exI [of _ 2]) (simp add: s)
  next
    case (Wlock_cas m)
    then show ?thesis using zero i
      by (intro exI [of _ 1]) (simp add: s alone_def ngx_atomic_cmp_set_def)
  next
    case (Rlock_test m)
    then show ?thesis using two [of s] lock(1) i by (intro exI [of _ 2]) (simp add: s)
  next
    case (Rlock_cas m r)
    show ?thesis
    proof (cases "lock = r")
      case True
      then show ?thesis using Rlock_cas i
        by (intro exI [of _ 1]) (simp add: s alone_def ngx_atomic_cmp_set_def)
    next
      case False
      let ?t = "alone ncpu call i s"
      have t: "?t = (lock, ps[i := Rlock_test (next_attempt ncpu m)])"
        using False Rlock_cas by (simp add: s alone_def ngx_atomic_cmp_set_def)
      then have "snd ((alone ncpu call i ^^ 2) ?t) ! i = Reading" using two [of ?t] lock(1) i by simp
      moreover have "(alone ncpu call i ^^ 3) s = (alone ncpu call i ^^ 2) ?t"
        by (simp only: numeral_3_eq_3 numeral_2_eq_2 funpow_Suc_right funpow.simps o_apply id_apply)
      ultimately show ?thesis using Rlock_cas by (intro exI [of _ 3]) (simp add: s)
    qed
  qed (use assms(4) in \<open>simp_all add: s\<close>)
qed

lemma rwlock_available_witness:
  "\<exists>k\<le>3. snd ((alone 4 Rlock 0 ^^ k) (0, [Rlock_test 0, Outside])) ! 0 = Reading"
proof -
  have "reach (rw_init 2) (rw_step 4) (0, [Outside, Outside])"
    by (rule reach.start) (simp add: rw_init_def two_outside)
  moreover have "rw_step 4 (0, [Outside, Outside]) (0, [Rlock_test 0, Outside])"
    using rw_step.intros [of 0 "[Outside, Outside]" 4 Rlock 0 "Rlock_test 0" 0] by simp
  ultimately have "reach (rw_init 2) (rw_step 4) (0, [Rlock_test 0, Outside])" by (rule reach.further)
  moreover have "\<not> holds_write (0, [Rlock_test 0, Outside]) j" for j
    by (cases j) (auto simp: holds_write_def less_Suc_eq)
  ultimately show ?thesis using rwlock_available [of 2 4 "(0, [Rlock_test 0, Outside])" 0 Rlock] by simp
qed

end
