(* ===== verification/Ngx_Shmtx.thy ===== *)
theory Ngx_Shmtx
  imports Ngx_System
begin

text \<open>
  The mutex in shared memory of \<^verbatim>\<open>core/ngx_shmtx.c\<close>, with atomic operations: a word with the pid of the owner, and
  where there is a semaphore, the number of those who wait.  Each access to the shared words and each call on the
  semaphore is one step of one process.  The master unlocks for a process that has died.
\<close>

section \<open>The program of a process\<close>

record shmtx_sh =
  sh_lock :: u64
  sh_wait :: u64
  sh_sem :: nat

record shmtx_conf =
  sc_spin :: nat
  sc_ncpu :: nat
  sc_semaphore :: bool

text \<open>
  Where a process is; the names of the places are those of the functions, \<open>test\<close> before \<^verbatim>\<open>*mtx->lock == 0\<close>, \<open>cas\<close>
  before the exchange.  \<open>Lock_add\<close>, \<open>Lock_sub\<close> are before \<^verbatim>\<open>ngx_atomic_fetch_add(mtx->wait, ...)\<close>, \<open>Lock_sleep\<close> before
  \<^verbatim>\<open>sem_wait\<close>; \<open>Force_cas\<close> has the victim.  A call of \<^verbatim>\<open>sem_wait\<close> only fails with \<^verbatim>\<open>EINTR\<close>, and is repeated.
\<close>

datatype shmtx_pc =
    Free | Locked | Dead
  | Trylock_test | Trylock_cas
  | Lock_test nat | Lock_cas nat | Lock_add | Lock_test_again | Lock_cas_again | Lock_sub | Lock_sleep
  | Unlock_cas
  | Force_cas nat
  | Wakeup_read | Wakeup_cas u64 | Wakeup_post

datatype shmtx_call = Call_trylock | Call_lock | Call_unlock | Call_force nat | Die

fun ngx_shmtx_trylock :: "u64 \<Rightarrow> shmtx_pc \<Rightarrow> shmtx_sh \<Rightarrow> shmtx_pc \<times> shmtx_sh" where
  "ngx_shmtx_trylock pid Trylock_test sh = (if sh_lock sh = 0 then Trylock_cas else Free, sh)"
| "ngx_shmtx_trylock pid Trylock_cas sh =
     (case ngx_atomic_cmp_set (sh_lock sh) 0 pid of (ok, lock) \<Rightarrow> (if ok then Locked else Free, sh\<lparr>sh_lock := lock\<rparr>))"
| "ngx_shmtx_trylock pid pc sh = (pc, sh)"

text \<open>After a failed attempt: the next one of the round, or else the semaphore, or a new round.\<close>

definition lock_failed :: "shmtx_conf \<Rightarrow> nat \<Rightarrow> shmtx_pc" where
  "lock_failed c n =
     (let m = next_try (sc_ncpu c) (sc_spin c) n in
      if m \<noteq> 0 then Lock_test m else if sc_semaphore c then Lock_add else Lock_test 0)"

fun ngx_shmtx_lock :: "shmtx_conf \<Rightarrow> u64 \<Rightarrow> shmtx_pc \<Rightarrow> shmtx_sh \<Rightarrow> shmtx_pc \<times> shmtx_sh" where
  "ngx_shmtx_lock c pid (Lock_test n) sh = (if sh_lock sh = 0 then Lock_cas n else lock_failed c n, sh)"
| "ngx_shmtx_lock c pid (Lock_cas n) sh =
     (case ngx_atomic_cmp_set (sh_lock sh) 0 pid of (ok, lock) \<Rightarrow> (if ok then Locked else lock_failed c n, sh\<lparr>sh_lock := lock\<rparr>))"
| "ngx_shmtx_lock c pid Lock_add sh = (Lock_test_again, sh\<lparr>sh_wait := sh_wait sh + 1\<rparr>)"
| "ngx_shmtx_lock c pid Lock_test_again sh = (if sh_lock sh = 0 then Lock_cas_again else Lock_sleep, sh)"
| "ngx_shmtx_lock c pid Lock_cas_again sh =
     (case ngx_atomic_cmp_set (sh_lock sh) 0 pid of (ok, lock) \<Rightarrow> (if ok then Lock_sub else Lock_sleep, sh\<lparr>sh_lock := lock\<rparr>))"
| "ngx_shmtx_lock c pid Lock_sub sh = (Locked, sh\<lparr>sh_wait := sh_wait sh - 1\<rparr>)"
| "ngx_shmtx_lock c pid Lock_sleep sh =
     (if sh_sem sh = 0 then (Lock_sleep, sh) else (Lock_test 0, sh\<lparr>sh_sem := sh_sem sh - 1\<rparr>))"
| "ngx_shmtx_lock c pid pc sh = (pc, sh)"

text \<open>\<^verbatim>\<open>ngx_shmtx_wakeup\<close> returns at once without a semaphore.\<close>

definition wakeup_start :: "shmtx_conf \<Rightarrow> shmtx_pc" where
  "wakeup_start c = (if sc_semaphore c then Wakeup_read else Free)"

fun ngx_shmtx_wakeup :: "shmtx_pc \<Rightarrow> shmtx_sh \<Rightarrow> shmtx_pc \<times> shmtx_sh" where
  "ngx_shmtx_wakeup Wakeup_read sh = (if sint (sh_wait sh) \<le> 0 then Free else Wakeup_cas (sh_wait sh), sh)"
| "ngx_shmtx_wakeup (Wakeup_cas w) sh =
     (case ngx_atomic_cmp_set (sh_wait sh) w (w - 1) of (ok, wait) \<Rightarrow>
        (if ok then Wakeup_post else Wakeup_read, sh\<lparr>sh_wait := wait\<rparr>))"
| "ngx_shmtx_wakeup Wakeup_post sh = (Free, sh\<lparr>sh_sem := sh_sem sh + 1\<rparr>)"
| "ngx_shmtx_wakeup pc sh = (pc, sh)"

fun ngx_shmtx_unlock :: "shmtx_conf \<Rightarrow> u64 \<Rightarrow> shmtx_pc \<Rightarrow> shmtx_sh \<Rightarrow> shmtx_pc \<times> shmtx_sh" where
  "ngx_shmtx_unlock c pid Unlock_cas sh =
     (case ngx_atomic_cmp_set (sh_lock sh) pid 0 of (ok, lock) \<Rightarrow> (if ok then wakeup_start c else Free, sh\<lparr>sh_lock := lock\<rparr>))"
| "ngx_shmtx_unlock c pid pc sh = (pc, sh)"

fun ngx_shmtx_force_unlock :: "shmtx_conf \<Rightarrow> (nat \<Rightarrow> u64) \<Rightarrow> shmtx_pc \<Rightarrow> shmtx_sh \<Rightarrow> shmtx_pc \<times> shmtx_sh" where
  "ngx_shmtx_force_unlock c pid (Force_cas k) sh =
     (case ngx_atomic_cmp_set (sh_lock sh) (pid k) 0 of (ok, lock) \<Rightarrow> (if ok then wakeup_start c else Free, sh\<lparr>sh_lock := lock\<rparr>))"
| "ngx_shmtx_force_unlock c pid pc sh = (pc, sh)"

text \<open>
  A process outside calls \<^verbatim>\<open>trylock\<close>, \<^verbatim>\<open>lock\<close> or \<^verbatim>\<open>force_unlock\<close>, the owner \<^verbatim>\<open>unlock\<close>.  Both may die; a process does not
  die inside these functions.
\<close>

fun calls :: "shmtx_call \<Rightarrow> shmtx_pc \<Rightarrow> shmtx_pc" where
  "calls Call_trylock Free = Trylock_test"
| "calls Call_lock Free = Lock_test 0"
| "calls (Call_force k) Free = Force_cas k"
| "calls Call_unlock Locked = Unlock_cas"
| "calls Die Free = Dead"
| "calls Die Locked = Dead"
| "calls call pc = pc"

fun shmtx_next :: "shmtx_conf \<Rightarrow> (nat \<Rightarrow> u64) \<Rightarrow> nat \<Rightarrow> shmtx_call \<Rightarrow> shmtx_pc \<Rightarrow> shmtx_sh \<Rightarrow> shmtx_pc \<times> shmtx_sh" where
  "shmtx_next c pid i call Free sh = (calls call Free, sh)"
| "shmtx_next c pid i call Locked sh = (calls call Locked, sh)"
| "shmtx_next c pid i call Dead sh = (Dead, sh)"
| "shmtx_next c pid i call Trylock_test sh = ngx_shmtx_trylock (pid i) Trylock_test sh"
| "shmtx_next c pid i call Trylock_cas sh = ngx_shmtx_trylock (pid i) Trylock_cas sh"
| "shmtx_next c pid i call (Lock_test n) sh = ngx_shmtx_lock c (pid i) (Lock_test n) sh"
| "shmtx_next c pid i call (Lock_cas n) sh = ngx_shmtx_lock c (pid i) (Lock_cas n) sh"
| "shmtx_next c pid i call Lock_add sh = ngx_shmtx_lock c (pid i) Lock_add sh"
| "shmtx_next c pid i call Lock_test_again sh = ngx_shmtx_lock c (pid i) Lock_test_again sh"
| "shmtx_next c pid i call Lock_cas_again sh = ngx_shmtx_lock c (pid i) Lock_cas_again sh"
| "shmtx_next c pid i call Lock_sub sh = ngx_shmtx_lock c (pid i) Lock_sub sh"
| "shmtx_next c pid i call Lock_sleep sh = ngx_shmtx_lock c (pid i) Lock_sleep sh"
| "shmtx_next c pid i call Unlock_cas sh = ngx_shmtx_unlock c (pid i) Unlock_cas sh"
| "shmtx_next c pid i call (Force_cas k) sh = ngx_shmtx_force_unlock c pid (Force_cas k) sh"
| "shmtx_next c pid i call Wakeup_read sh = ngx_shmtx_wakeup Wakeup_read sh"
| "shmtx_next c pid i call (Wakeup_cas w) sh = ngx_shmtx_wakeup (Wakeup_cas w) sh"
| "shmtx_next c pid i call Wakeup_post sh = ngx_shmtx_wakeup Wakeup_post sh"

type_synonym shmtx_state = "shmtx_sh \<times> shmtx_pc list"

text \<open>\<^verbatim>\<open>force_unlock\<close> is called for the pid of a process that has died.\<close>

inductive shmtx_step :: "shmtx_conf \<Rightarrow> (nat \<Rightarrow> u64) \<Rightarrow> shmtx_state \<Rightarrow> shmtx_state \<Rightarrow> bool" for c pid where
  "i < length ps \<Longrightarrow> shmtx_next c pid i call (ps ! i) sh = (pc, sh') \<Longrightarrow>
   (case call of Call_force k \<Rightarrow> k < length ps \<and> ps ! k = Dead | _ \<Rightarrow> True) \<Longrightarrow>
   shmtx_step c pid (sh, ps) (sh', ps[i := pc])"

inductive_cases shmtx_stepE: "shmtx_step c pid s s'"

definition shmtx_init :: "(nat \<Rightarrow> u64) \<Rightarrow> nat \<Rightarrow> shmtx_state \<Rightarrow> bool" where
  "shmtx_init pid n s \<longleftrightarrow> s = (\<lparr>sh_lock = 0, sh_wait = 0, sh_sem = 0\<rparr>, replicate n Free)
     \<and> n < 2 ^ 62 \<and> inj_on pid {..<n} \<and> (\<forall>i<n. pid i \<noteq> 0)"

section \<open>The owner\<close>

fun owns :: "shmtx_pc \<Rightarrow> bool" where
  "owns Locked = True"
| "owns Lock_sub = True"
| "owns Unlock_cas = True"
| "owns pc = False"

fun owned_right :: "(nat \<Rightarrow> u64) \<Rightarrow> shmtx_state \<Rightarrow> bool" where
  "owned_right pid (sh, ps) \<longleftrightarrow> inj_on pid {..<length ps} \<and> (\<forall>i<length ps. pid i \<noteq> 0)
     \<and> (\<forall>i<length ps. owns (ps ! i) \<longrightarrow> sh_lock sh = pid i)
     \<and> (\<forall>i<length ps. \<forall>k. ps ! i = Force_cas k \<longrightarrow> k < length ps \<and> ps ! k = Dead)"

text \<open>The four things a step can do to the word of the owner.\<close>

lemma shmtx_next_lock:
  assumes "shmtx_next c pid i call pc sh = (pc', sh')"
  shows "sh_lock sh' = sh_lock sh \<and> (owns pc' \<longrightarrow> owns pc)
    \<or> sh_lock sh = 0 \<and> sh_lock sh' = pid i
    \<or> owns pc \<and> sh_lock sh = pid i \<and> sh_lock sh' = 0 \<and> \<not> owns pc'
    \<or> (\<exists>k. pc = Force_cas k \<and> sh_lock sh = pid k \<and> sh_lock sh' = 0 \<and> \<not> owns pc')"
proof (cases pc)
  case Free
  then show ?thesis using assms by (cases call) auto
next
  case Locked
  then show ?thesis using assms by (cases call) auto
qed (use assms in \<open>auto simp: ngx_atomic_cmp_set_def lock_failed_def wakeup_start_def Let_def split: if_splits\<close>)

lemma shmtx_next_force:
  assumes "shmtx_next c pid i call pc sh = (Force_cas k, sh')"
  shows "pc = Free \<and> call = Call_force k"
proof (cases pc)
  case Free
  then show ?thesis using assms by (cases call) auto
next
  case Locked
  then show ?thesis using assms by (cases call) auto
qed (use assms in \<open>auto simp: ngx_atomic_cmp_set_def lock_failed_def wakeup_start_def Let_def split: if_splits\<close>)

interpretation owner: invariant "shmtx_init pid n" "shmtx_step c pid" "owned_right pid" for pid n c
proof
  show "shmtx_init pid n s \<Longrightarrow> owned_right pid s" for s
    by (auto simp: shmtx_init_def)
next
  fix s s'
  assume inv: "owned_right pid s" and "shmtx_step c pid s s'"
  from this(2) obtain i ps call sh pc sh' where s: "s = (sh, ps)" "s' = (sh', ps[i := pc])" and i: "i < length ps"
      and nxt: "shmtx_next c pid i call (ps ! i) sh = (pc, sh')"
      and force: "case call of Call_force k \<Rightarrow> k < length ps \<and> ps ! k = Dead | _ \<Rightarrow> True"
    by (rule shmtx_stepE) blast
  note lock = shmtx_next_lock [OF nxt]
  have own: "\<forall>j<length ps. owns (ps ! j) \<longrightarrow> sh_lock sh = pid j" and ids: "inj_on pid {..<length ps}" "\<forall>i<length ps. pid i \<noteq> 0"
      and dead: "\<forall>j<length ps. \<forall>k. ps ! j = Force_cas k \<longrightarrow> k < length ps \<and> ps ! k = Dead"
    using inv unfolding s(1) owned_right.simps by blast+
  have one: "pid j = pid k \<Longrightarrow> j = k" if "j < length ps" "k < length ps" for j k
    using ids(1) that by (auto simp: inj_on_def)
  have "sh_lock sh' = pid j" if j: "j < length ps" "owns (ps[i := pc] ! j)" for j
    using lock
  proof (elim disjE conjE exE)
    assume "sh_lock sh' = sh_lock sh" "owns pc \<longrightarrow> owns (ps ! i)"
    then show ?thesis using own j i by (cases "j = i") auto
  next
    assume "sh_lock sh = 0" "sh_lock sh' = pid i"
    then show ?thesis using own j ids(2) by (cases "j = i") auto
  next
    assume "sh_lock sh = pid i" "\<not> owns pc"
    then have "j \<noteq> i" "owns (ps ! j)" using j i by (auto simp: nth_list_update split: if_splits)
    then have "pid i = pid j" using own j(1) \<open>sh_lock sh = pid i\<close> by simp
    then show ?thesis using one [OF i j(1)] \<open>j \<noteq> i\<close> by simp
  next
    fix k assume k: "ps ! i = Force_cas k" "sh_lock sh = pid k" "\<not> owns pc"
    then have "j \<noteq> i" "owns (ps ! j)" using j i by (auto simp: nth_list_update split: if_splits)
    moreover have "k < length ps" "ps ! k = Dead" using dead i k(1) by blast+
    moreover have "pid k = pid j" using own j(1) k(2) calculation by simp
    ultimately show ?thesis using one [of k j] j(1) by auto
  qed
  moreover have "k < length ps \<and> ps[i := pc] ! k = Dead" if j: "j < length ps" "ps[i := pc] ! j = Force_cas k" for j k
  proof (cases "j = i")
    case True
    then have "pc = Force_cas k" using j i by simp
    then have "ps ! i = Free" "call = Call_force k" using shmtx_next_force [of c pid i call "ps ! i" sh k sh'] nxt by simp_all
    then show ?thesis using force by (cases "k = i") auto
  next
    case False
    then have "ps ! j = Force_cas k" "j < length ps" using j by simp_all
    then have k: "k < length ps" "ps ! k = Dead" using dead by blast+
    then show ?thesis using nxt by (cases "k = i") auto
  qed
  ultimately show "owned_right pid s'" using ids unfolding s(2) owned_right.simps length_list_update by blast
qed

declare owned_right.simps [simp del]

lemma owned_pid: "owned_right pid (sh, ps) \<Longrightarrow> i < length ps \<Longrightarrow> pid i \<noteq> 0"
  by (simp add: owned_right.simps)

section \<open>The sleepers\<close>

text \<open>Between the two changes of \<^verbatim>\<open>*mtx->wait\<close>; asleep; before \<^verbatim>\<open>sem_post\<close>; and on the way to the lock or to a wakeup.\<close>

fun waits :: "shmtx_pc \<Rightarrow> bool" where
  "waits Lock_test_again = True"
| "waits Lock_cas_again = True"
| "waits Lock_sub = True"
| "waits Lock_sleep = True"
| "waits pc = False"

fun posts :: "shmtx_pc \<Rightarrow> bool" where
  "posts Wakeup_post = True"
| "posts pc = False"

fun asleep :: "shmtx_pc \<Rightarrow> bool" where
  "asleep Lock_sleep = True"
| "asleep pc = False"

fun on_the_way :: "shmtx_pc \<Rightarrow> bool" where
  "on_the_way (Lock_test n) = True"
| "on_the_way (Lock_cas n) = True"
| "on_the_way Lock_add = True"
| "on_the_way Lock_test_again = True"
| "on_the_way Lock_cas_again = True"
| "on_the_way Wakeup_read = True"
| "on_the_way (Wakeup_cas w) = True"
| "on_the_way Wakeup_post = True"
| "on_the_way pc = False"

definition wait_counts :: "shmtx_conf \<Rightarrow> shmtx_sh \<Rightarrow> nat \<Rightarrow> nat \<Rightarrow> nat \<Rightarrow> nat \<Rightarrow> nat \<Rightarrow> bool" where
  "wait_counts c sh n w p z a \<longleftrightarrow> n < 2 ^ 62 \<and> (\<not> sc_semaphore c \<longrightarrow> w = 0) \<and> w \<le> n \<and> z \<le> w \<and> p \<le> a
     \<and> sh_wait sh = word_of_int (int w - int p - int (sh_sem sh)) \<and> sh_sem sh + p \<le> n
     \<and> (0 < z \<and> sh_sem sh = 0 \<longrightarrow> sh_lock sh \<noteq> 0 \<or> 0 < a)"

lemma sint_in_range: "- (2 ^ 63) \<le> k \<Longrightarrow> k < 2 ^ 63 \<Longrightarrow> sint (word_of_int k :: u64) = k"
  by (simp add: sint_sbintrunc' signed_take_bit_int_eq_self)

text \<open>What is expected by the exchange in a wakeup is positive; and nobody waits without a semaphore.\<close>

fun allowed :: "shmtx_conf \<Rightarrow> shmtx_pc \<Rightarrow> bool" where
  "allowed c (Wakeup_cas v) \<longleftrightarrow> 0 < sint v"
| "allowed c Lock_add \<longleftrightarrow> sc_semaphore c"
| "allowed c pc \<longleftrightarrow> waits pc \<longrightarrow> sc_semaphore c"

lemma shmtx_next_allowed: "shmtx_next c pid i call pc sh = (pc', sh') \<Longrightarrow> allowed c pc \<Longrightarrow> allowed c pc'"
proof (cases pc)
  case Free
  then show "shmtx_next c pid i call pc sh = (pc', sh') \<Longrightarrow> ?thesis" by (cases call) auto
next
  case Locked
  then show "shmtx_next c pid i call pc sh = (pc', sh') \<Longrightarrow> ?thesis" by (cases call) auto
qed (auto simp: ngx_atomic_cmp_set_def lock_failed_def wakeup_start_def Let_def split: if_splits)

lemma shmtx_next_counts:
  assumes "shmtx_next c pid i call pc sh = (pc', sh')" "wait_counts c sh n w p z a" "pid i \<noteq> 0" "allowed c pc"
    and "w' + of_bool (waits pc) = w + of_bool (waits pc')" "p' + of_bool (posts pc) = p + of_bool (posts pc')"
    and "z' + of_bool (asleep pc) = z + of_bool (asleep pc')" "a' + of_bool (on_the_way pc) = a + of_bool (on_the_way pc')"
    and "w' \<le> n" "z' \<le> w'" "p' \<le> a'"
  shows "wait_counts c sh' n w' p' z' a'"
proof -
  have n: "n < 2 ^ 62" and counts: "w \<le> n" "z \<le> w" "p \<le> a" "sh_sem sh + p \<le> n"
      and wait: "sh_wait sh = word_of_int (int w - int p - int (sh_sem sh))"
      and wake: "0 < z \<and> sh_sem sh = 0 \<longrightarrow> sh_lock sh \<noteq> 0 \<or> 0 < a" and idle: "\<not> sc_semaphore c \<longrightarrow> w = 0"
    using assms(2) by (auto simp: wait_counts_def)
  have signed: "sint (sh_wait sh) = int w - int p - int (sh_sem sh)"
    unfolding wait by (rule sint_in_range) (use n counts in auto)
  show ?thesis
  proof (cases pc)
    case Free
    then show ?thesis using assms by (cases call) (auto simp: wait_counts_def)
  next
    case Locked
    then show ?thesis using assms by (cases call) (auto simp: wait_counts_def)
  next
    case Lock_add
    then show ?thesis using assms n counts idle wait wake by (auto simp: wait_counts_def algebra_simps)
  next
    case Lock_sub
    then show ?thesis using assms n counts idle wait wake by (auto simp: wait_counts_def algebra_simps)
  next
    case Wakeup_read
    then show ?thesis using assms n counts idle wait wake signed by (auto simp: wait_counts_def split: if_splits)
  next
    case (Wakeup_cas v)
    show ?thesis
    proof (cases "sh_wait sh = v")
      case True
      then have "0 < int w - int p - int (sh_sem sh)" using assms(4) Wakeup_cas signed by simp
      moreover have "sh_wait sh - 1 = word_of_int (int w - int (p + 1) - int (sh_sem sh))"
        unfolding wait by (simp add: algebra_simps)
      ultimately show ?thesis using True Wakeup_cas assms n counts idle wake
        by (auto simp: wait_counts_def ngx_atomic_cmp_set_def simp del: of_nat_Suc of_nat_add)
    next
      case False
      then show ?thesis using Wakeup_cas assms n counts idle wait wake
        by (auto simp: wait_counts_def ngx_atomic_cmp_set_def)
    qed
  qed (use assms n counts idle wait wake in
      \<open>auto simp: wait_counts_def ngx_atomic_cmp_set_def lock_failed_def wakeup_start_def Let_def split: if_splits\<close>)
qed

lemma count_mono: "(\<And>p. P p \<Longrightarrow> Q p) \<Longrightarrow> count_pcs P ps \<le> count_pcs Q ps"
  by (induction ps) (auto simp: count_pcs_def)

definition well_counted :: "shmtx_conf \<Rightarrow> shmtx_state \<Rightarrow> bool" where
  "well_counted c s \<longleftrightarrow> list_all (allowed c) (snd s)
     \<and> wait_counts c (fst s) (length (snd s)) (count_pcs waits (snd s)) (count_pcs posts (snd s))
         (count_pcs asleep (snd s)) (count_pcs on_the_way (snd s))"

definition well_formed :: "shmtx_conf \<Rightarrow> (nat \<Rightarrow> u64) \<Rightarrow> shmtx_state \<Rightarrow> bool" where
  "well_formed c pid s \<longleftrightarrow> owned_right pid s \<and> well_counted c s"

lemma sleeper_waits: "asleep p \<Longrightarrow> waits p" "posts p \<Longrightarrow> on_the_way p"
  by (cases p; simp)+

interpretation wakeups: invariant "shmtx_init pid n" "shmtx_step c pid" "well_formed c pid" for pid n c
proof
  show "shmtx_init pid n s \<Longrightarrow> well_formed c pid s" for s
    using owner.initially [of pid n s]
    by (auto simp: shmtx_init_def well_formed_def well_counted_def wait_counts_def count_pcs_def list_all_iff)
next
  fix s s'
  assume inv: "well_formed c pid s" and step: "shmtx_step c pid s s'"
  from step obtain i ps call sh pc sh' where s: "s = (sh, ps)" "s' = (sh', ps[i := pc])" and i: "i < length ps"
      and nxt: "shmtx_next c pid i call (ps ! i) sh = (pc, sh')"
    by (rule shmtx_stepE) blast
  have allow: "list_all (allowed c) ps" and counts: "wait_counts c sh (length ps) (count_pcs waits ps)
      (count_pcs posts ps) (count_pcs asleep ps) (count_pcs on_the_way ps)"
    and id: "pid i \<noteq> 0"
    using inv owned_pid [OF _ i] by (auto simp: s(1) well_formed_def well_counted_def)
  have here: "allowed c (ps ! i)" by (rule list_all_nthD [OF allow i])
  let ?qs = "ps[i := pc]"
  have "wait_counts c sh' (length ps) (count_pcs waits ?qs) (count_pcs posts ?qs) (count_pcs asleep ?qs)
      (count_pcs on_the_way ?qs)"
    by (rule shmtx_next_counts [OF nxt counts id here])
      (use count_update [OF i] count_le [of waits ?qs] count_mono [of asleep waits] count_mono [of posts on_the_way]
        sleeper_waits in auto)
  moreover have "list_all (allowed c) ?qs"
    using allow shmtx_next_allowed [OF nxt here] set_update_subset_insert [of ps i pc] by (auto simp: list_all_iff)
  moreover have "owned_right pid s'" using owner.kept step inv unfolding well_formed_def by blast
  ultimately show "well_formed c pid s'" by (simp add: s(2) well_formed_def well_counted_def)
qed

text \<open>The run of a schedule: which process takes the next step, and what it calls when it calls.\<close>

fun shmtx_run :: "shmtx_conf \<Rightarrow> (nat \<Rightarrow> u64) \<Rightarrow> (nat \<times> shmtx_call) list \<Rightarrow> shmtx_state \<Rightarrow> shmtx_state option" where
  "shmtx_run c pid [] s = Some s"
| "shmtx_run c pid ((i, call) # sched) (sh, ps) =
     (if i < length ps \<and> (case call of Call_force k \<Rightarrow> k < length ps \<and> ps ! k = Dead | _ \<Rightarrow> True) then
        (case shmtx_next c pid i call (ps ! i) sh of (pc, sh') \<Rightarrow> shmtx_run c pid sched (sh', ps[i := pc]))
      else None)"

lemma shmtx_run_reach:
  "reach I (shmtx_step c pid) s \<Longrightarrow> shmtx_run c pid sched s = Some s' \<Longrightarrow> reach I (shmtx_step c pid) s'"
proof (induction c pid sched s rule: shmtx_run.induct)
  case (2 c pid i call sched sh ps)
  obtain pc sh1 where nxt: "shmtx_next c pid i call (ps ! i) sh = (pc, sh1)" by fastforce
  then have "shmtx_step c pid (sh, ps) (sh1, ps[i := pc])"
    using 2(3) shmtx_step.intros [of i ps c pid call sh pc sh1] by (simp split: if_splits)
  then have "reach I (shmtx_step c pid) (sh1, ps[i := pc])" by (rule reach.further [OF 2(2)])
  then show ?case using 2(1) 2(3) nxt by (auto split: if_splits)
qed simp

section \<open>Properties\<close>

text \<open>C18: The mutex excludes.  Whatever the order of the steps of any number of processes, of those that try, that spin, that
  sleep, that unlock, that die with the mutex or without it, and of the master that unlocks for the dead: at most one
  process is between the end of \<^verbatim>\<open>ngx_shmtx_lock\<close> and the exchange of \<^verbatim>\<open>ngx_shmtx_unlock\<close>, and the word is its pid.\<close>

theorem shmtx_exclusion:
  assumes "reach (shmtx_init pid n) (shmtx_step c pid) (sh, ps)" "i < length ps" "owns (ps ! i)"
  shows "sh_lock sh = pid i \<and> {j. j < length ps \<and> owns (ps ! j)} = {i}"
proof -
  have "owned_right pid (sh, ps)" by (rule owner.always [OF assms(1)])
  then have own: "\<forall>j<length ps. owns (ps ! j) \<longrightarrow> sh_lock sh = pid j" and ids: "inj_on pid {..<length ps}"
    unfolding owned_right.simps by blast+
  have i: "sh_lock sh = pid i" using own assms(2,3) by blast
  have "j = i" if "j < length ps" "owns (ps ! j)" for j
  proof (rule inj_onD [OF ids])
    show "pid j = pid i" using own that i by metis
  qed (use that assms(2) in simp_all)
  then show ?thesis using i assms(2,3) by blast
qed

text \<open>C6: No wakeup is lost.  When a process sleeps on the semaphore, nothing has been posted to it and the mutex is free,
  then some process is on its way to the mutex or to a wakeup: the sleeper is never left behind, whether the owner
  unlocked, or died and the master unlocked for it, and however the counter of those who wait, which drops below
  zero at times, was changed in between.\<close>

theorem shmtx_no_lost_wakeup:
  assumes "reach (shmtx_init pid n) (shmtx_step c pid) (sh, ps)"
    and "list_ex asleep ps" "sh_sem sh = 0" "sh_lock sh = 0"
  shows "list_ex on_the_way ps"
proof -
  have "well_counted c (sh, ps)" using wakeups.always [OF assms(1)] by (simp add: well_formed_def)
  moreover have "0 < count_pcs asleep ps" using assms(2) count_pos [of _ ps asleep]
    by (auto simp: list_ex_length)
  ultimately have "count_pcs on_the_way ps \<noteq> 0" using assms(3,4) by (simp add: well_counted_def wait_counts_def)
  then show ?thesis by (simp add: count_none list_ex_iff list_all_iff)
qed

text \<open>Two processes; the second sleeps while the first unlocks.\<close>

definition two_pids :: "nat \<Rightarrow> u64" where
  "two_pids i = word_of_nat (i + 1)"

definition one_cpu :: shmtx_conf where
  "one_cpu = \<lparr>sc_spin = 2048, sc_ncpu = 1, sc_semaphore = True\<rparr>"

definition sleeping_start :: shmtx_state where
  "sleeping_start = (\<lparr>sh_lock = 0, sh_wait = 0, sh_sem = 0\<rparr>, [Free, Free])"

lemma sleeping_init: "reach (shmtx_init two_pids 2) (shmtx_step c two_pids) sleeping_start"
proof (rule reach.start)
  have "inj_on two_pids {..<2}" "\<forall>i<2. two_pids i \<noteq> 0"
    by (auto simp: inj_on_def two_pids_def less_2_cases_iff numeral_2_eq_2 less_Suc_eq)
  moreover have "replicate 2 Free = [Free, Free]" by (simp add: numeral_2_eq_2)
  ultimately show "shmtx_init two_pids 2 sleeping_start"
    by (simp add: shmtx_init_def sleeping_start_def)
qed

lemma shmtx_exclusion_witness:
  "sh_lock \<lparr>sh_lock = two_pids 1, sh_wait = 0, sh_sem = 0\<rparr> = two_pids 1
   \<and> {j. j < length [Free, Locked] \<and> owns ([Free, Locked] ! j)} = {1}"
proof -
  have "shmtx_run one_cpu two_pids [(1, Call_lock), (1, Call_lock), (1, Call_lock)] sleeping_start
      = Some (\<lparr>sh_lock = two_pids 1, sh_wait = 0, sh_sem = 0\<rparr>, [Free, Locked])"
    by (simp add: sleeping_start_def ngx_atomic_cmp_set_def)
  note r = shmtx_run_reach [OF sleeping_init this]
  show ?thesis using shmtx_exclusion [OF r, of 1] by simp
qed

lemma shmtx_no_lost_wakeup_witness: "list_ex on_the_way [Wakeup_read, Lock_sleep]"
proof -
  have "shmtx_run one_cpu two_pids [(0, Call_lock), (0, Call_lock), (0, Call_lock), (1, Call_lock), (1, Call_lock),
      (1, Call_lock), (1, Call_lock), (0, Call_unlock), (0, Call_unlock)] sleeping_start
      = Some (\<lparr>sh_lock = 0, sh_wait = 1, sh_sem = 0\<rparr>, [Wakeup_read, Lock_sleep])"
    by (simp add: sleeping_start_def ngx_atomic_cmp_set_def one_cpu_def lock_failed_def next_try_def wakeup_start_def
        two_pids_def Let_def)
  note r = shmtx_run_reach [OF sleeping_init this]
  show ?thesis by (rule shmtx_no_lost_wakeup [OF r]) simp_all
qed

end
