(* ===== verification/Spec2Isabelle.thy ===== *)
theory Spec2Isabelle
  imports Ngx_Parse_Time Ngx_Base64 Ngx_Escape Ngx_Utf8 Ngx_Http_Time Ngx_Http_Header Ngx_Http_Chunked
    Ngx_Http_Unsafe_Uri Ngx_Http_Status Ngx_Http_Args Ngx_Radix Ngx_Limit_Req Ngx_Round_Robin Ngx_Http_V2_Fields Ngx_Http_V2_Frame Ngx_Http_Server Ngx_Rwlock Ngx_Shmtx
begin

text \<open>
  A verification development for the C of the repository, the bundled web server
  \<^verbatim>\<open>nginx-1.24.0\<close> (the client in Dart and the control plane in Python are other programs).
  File names below are relative to \<^verbatim>\<open>nginx-1.24.0/src\<close>.

  \<^bold>\<open>The program and the parts modelled.\<close>  A worker reads bytes from connections into
  buffers; incremental parsers turn them into requests, headers, chunks and status lines;
  the path of a request is normalised and looked up; limits and tables decide what is done
  with it; filters write the response.  The development models the code between the system
  calls: the parsers and printers, the decoders and encoders, and the data structures and
  decisions that they feed.

  \<^item> \<open>Ngx_Prelude\<close>: C types at their width on the 64-bit build, return codes, characters.
  \<^item> \<open>Ngx_Number\<close>, \<open>Ngx_Sprintf\<close>, \<open>Ngx_Parse_Time\<close> (\<^verbatim>\<open>core/ngx_string.c\<close>, \<^verbatim>\<open>core/ngx_parse.c\<close>):
    \<^verbatim>\<open>ngx_atoi\<close> and its relatives, the formatter \<^verbatim>\<open>ngx_vslprintf\<close>, sizes, offsets and times of
    the configuration.
  \<^item> \<open>Ngx_Base64\<close>, \<open>Ngx_Escape\<close>, \<open>Ngx_Utf8\<close>, \<open>Ngx_Compare\<close> (\<^verbatim>\<open>core/ngx_string.c\<close>): codings,
    escapes, code points, comparisons, searches and the sort.
  \<^item> \<open>Ngx_Gmtime\<close>, \<open>Ngx_Http_Time\<close> (\<^verbatim>\<open>core/ngx_times.c\<close>, \<^verbatim>\<open>core/ngx_parse_time.c\<close>): the calendar
    and the dates of the protocol.
  \<^item> \<open>Ngx_Scanner\<close>: what the incremental parsers share, a loop over a buffer with a state
    that survives it; pointers into the buffer are offsets.
  \<^item> \<open>Ngx_Http_Request\<close>, \<open>Ngx_Http_Header\<close>, \<open>Ngx_Http_Status\<close>, \<open>Ngx_Http_Chunked\<close>
    (\<^verbatim>\<open>http/ngx_http_parse.c\<close>, \<^verbatim>\<open>http/ngx_http_request_body.c\<close>,
    \<^verbatim>\<open>http/modules/ngx_http_chunked_filter_module.c\<close>): request line, header lines, status line,
    chunked coding in both directions.
  \<^item> \<open>Ngx_Http_Uri\<close>, \<open>Ngx_Http_Unsafe_Uri\<close>, \<open>Ngx_Http_Args\<close> (\<^verbatim>\<open>http/ngx_http_parse.c\<close>): the path
    of a request, URIs from backends, arguments and cookies.
  \<^item> \<open>Ngx_Radix\<close> (\<^verbatim>\<open>core/ngx_radix_tree.c\<close>): the lookup of networks.
  \<^item> \<open>Ngx_Limit_Req\<close> (\<^verbatim>\<open>http/modules/ngx_http_limit_req_module.c\<close>): the leaky bucket and its zones.
  \<^item> \<open>Ngx_Round_Robin\<close> (\<^verbatim>\<open>http/ngx_http_upstream_round_robin.c\<close>): the smooth weighted choice of a backend.
  \<^item> \<open>Ngx_Http_V2_Table\<close> (\<^verbatim>\<open>http/v2/ngx_http_v2_table.c\<close>), \<open>Ngx_Huff_Tables\<close>, \<open>Ngx_Http_Huff\<close>, \<open>Ngx_Http_V2_Int\<close>
    (\<^verbatim>\<open>http/ngx_http_huff_encode.c\<close>, \<^verbatim>\<open>http/ngx_http_huff_decode.c\<close>,
    \<^verbatim>\<open>http/v2/ngx_http_v2_encode.c\<close>): the header table and the string
    coding of HTTP/2.
  \<^item> \<open>Ngx_Http_V2_Block\<close>, \<open>Ngx_Http_V2_Fields\<close> (\<^verbatim>\<open>http/v2/ngx_http_v2.c\<close>): the handlers of a block of header
    fields, with continuation frames; and the grammar and the meaning of such blocks.
  \<^item> \<open>Ngx_Http_V2_Send\<close>, \<open>Ngx_Http_V2_Frame\<close> (\<^verbatim>\<open>http/v2/ngx_http_v2_filter_module.c\<close>,
    \<^verbatim>\<open>http/v2/ngx_http_v2.c\<close>): how a body becomes DATA frames; the frames of a connection, its windows,
    and its queue of DATA frames.
  \<^item> \<open>Ngx_Queue\<close> (\<^verbatim>\<open>core/ngx_queue.c\<close>): the rings of links, in a store.
  \<^item> \<open>Ngx_Http_Location\<close>, \<open>Ngx_Http_Find\<close>, \<open>Ngx_Http_Route\<close> (\<^verbatim>\<open>http/ngx_http.c\<close>,
    \<^verbatim>\<open>http/ngx_http_core_module.c\<close>): the tree of the locations of a block, the search in it, and the rules
    by which a request has its location.
  \<^item> \<open>Ngx_Http_Server\<close> (\<^verbatim>\<open>http/ngx_http_core_module.c\<close>, \<^verbatim>\<open>http/modules/ngx_http_rewrite_module.c\<close>): the
    directives that add locations, and which configurations are accepted.
  \<^item> \<open>Ngx_System\<close>, \<open>Ngx_Rwlock\<close>, \<open>Ngx_Shmtx\<close> (\<^verbatim>\<open>core/ngx_rwlock.c\<close>, \<^verbatim>\<open>core/ngx_shmtx.c\<close>): the locks of the
    shared memory, as processes that take their atomic steps in any order.

  A definition has the name of its C function where it is a whole function, and otherwise
  the name of the \<^verbatim>\<open>switch\<close> branch or the loop that it is.  The state of a component is a record
  with the fields that the code writes; a C string with a length is the list of its bytes, a
  result of \<^verbatim>\<open>ngx_int_t\<close> with output parameters is an option, a sum or a tuple.

  \<^bold>\<open>What the lemmas show.\<close>  Each theory first has the state and the operations, then the
  invariant or the specification and one lemma per operation, then the properties.  Where
  components share a contract it is a locale, interpreted on the model: \<open>resumable\<close> (where
  the input was cut does not matter), \<open>byte_escaper\<close> (a length announced and the bytes
  written), \<open>base64_tables\<close>, \<open>digit_scan\<close>, \<open>comparison\<close> (the order of a sort),
  \<open>longest_prefix\<close> (a lookup in either address width), \<open>invariant\<close> (what every step of a system of processes keeps).

  \<^bold>\<open>Bounds.\<close>  Widths are those of the 64-bit build: \<^verbatim>\<open>ngx_int_t\<close>, \<^verbatim>\<open>off_t\<close>, \<^verbatim>\<open>size_t\<close> and \<^verbatim>\<open>time_t\<close> of 64
  bits.  Words are kept where the code relies on wrap-around or bit operations; elsewhere a
  number is an integer and a lemma keeps it in range.  No definition uses fuel: every loop is
  structural or has a measure.

  \<^bold>\<open>Not modelled.\<close>  System calls, sockets, processes and the event loop, and the allocators, whose results are
  what the modelled code is given; TLS, compression and regular expressions, which are libraries; the phases,
  callbacks and connection state around the parsers (\<^verbatim>\<open>http/ngx_http_request.c\<close>,
  \<^verbatim>\<open>http/ngx_http_upstream.c\<close>), of \<^verbatim>\<open>http/v2/ngx_http_v2.c\<close> the tree of priorities, the timers and the
  requests of the streams; the resolver and the mail and stream sessions.  Inside the modelled functions the
  logging, the Windows branches and, unless a theory says otherwise, failed allocations are left out.
\<close>

end
